(* ===== verification/Prelude.thy ===== *)
theory Prelude
  imports Main "HOL-Library.Word"
begin

text \<open>
  Shared ground of the development: the machine types the C code uses, the byte orders of its
  three wire formats, the C string and array idioms, and the lemma collections the component
  theories rely on.

  \<^item> Machine integers are HOL words of the width the C declares, so arithmetic wraps as in C.
  \<^item> A buffer with a length is a byte list; a pointer that the code compares with NULL is an option.
  \<^item> \<open>wire_simps\<close> collects the facts that evaluate encoders and decoders; \<open>inv_intros\<close> collects the
    preservation rules of the component invariants.
\<close>

unbundle bit_operations_syntax

type_synonym u8 = "8 word"
type_synonym u16 = "16 word"
type_synonym u32 = "32 word"
type_synonym u64 = "64 word"
type_synonym bytes = "u8 list"

named_theorems wire_simps
named_theorems inv_intros

abbreviation U16_MAX :: u16 where "U16_MAX \<equiv> 0xffff"
abbreviation U32_MAX :: u32 where "U32_MAX \<equiv> 0xffffffff"

section \<open>Big-endian fields (cloud frames, direction snapshots)\<close>

definition be16 :: "u16 \<Rightarrow> bytes" where
  "be16 v = [ucast (drop_bit 8 v), ucast v]"

definition be32 :: "u32 \<Rightarrow> bytes" where
  "be32 v = [ucast (drop_bit 24 v), ucast (drop_bit 16 v), ucast (drop_bit 8 v), ucast v]"

definition get_be16 :: "u8 \<Rightarrow> u8 \<Rightarrow> u16" where
  "get_be16 a b = (push_bit 8 (ucast a) OR ucast b)"

definition get_be32 :: "u8 \<Rightarrow> u8 \<Rightarrow> u8 \<Rightarrow> u8 \<Rightarrow> u32" where
  "get_be32 a b c d =
     (push_bit 24 (ucast a) OR push_bit 16 (ucast b) OR push_bit 8 (ucast c) OR ucast d)"

lemma length_be16 [simp]: "length (be16 v) = 2"
  by (simp add: be16_def)

lemma length_be32 [simp]: "length (be32 v) = 4"
  by (simp add: be32_def)

lemma bit_u8_high: "8 \<le> n \<Longrightarrow> \<not> bit (w :: u8) n"
  using bit_imp_le_length [of w n] by auto

lemma get_be16_be16 [simp]: "get_be16 (ucast (drop_bit 8 v)) (ucast v) = v"
  by (rule bit_word_eqI) (auto simp: get_be16_def bit_simps not_less)

lemma get_be32_be32 [simp]:
  "get_be32 (ucast (drop_bit 24 v)) (ucast (drop_bit 16 v)) (ucast (drop_bit 8 v)) (ucast v) = v"
proof (rule bit_word_eqI)
  fix n :: nat
  assume "n < LENGTH(32)"
  then consider "n < 8" | "8 \<le> n \<and> n < 16" | "16 \<le> n \<and> n < 24" | "24 \<le> n \<and> n < 32"
    by fastforce
  then show "bit (get_be32 (ucast (drop_bit 24 v)) (ucast (drop_bit 16 v))
      (ucast (drop_bit 8 v)) (ucast v)) n = bit v n"
    by cases (auto simp: get_be32_def bit_simps)
qed

lemma be16_get_be16 [simp]: "be16 (get_be16 a b) = [a, b]"
  unfolding be16_def get_be16_def
  by (auto intro!: bit_word_eqI simp: bit_simps bit_u8_high)

lemma be32_get_be32 [simp]: "be32 (get_be32 a b c d) = [a, b, c, d]"
  unfolding be32_def get_be32_def
  by (auto intro!: bit_word_eqI simp: bit_simps bit_u8_high)

section \<open>Little-endian fields (the v3 rule ABI)\<close>

definition le16 :: "u16 \<Rightarrow> bytes" where
  "le16 v = [ucast v, ucast (drop_bit 8 v)]"

definition le32 :: "u32 \<Rightarrow> bytes" where
  "le32 v = [ucast v, ucast (drop_bit 8 v), ucast (drop_bit 16 v), ucast (drop_bit 24 v)]"

definition get_le16 :: "bytes \<Rightarrow> nat \<Rightarrow> u16" where
  "get_le16 bs i = get_be16 (bs ! (i + 1)) (bs ! i)"

definition get_le32 :: "bytes \<Rightarrow> nat \<Rightarrow> u32" where
  "get_le32 bs i = get_be32 (bs ! (i + 3)) (bs ! (i + 2)) (bs ! (i + 1)) (bs ! i)"

lemma length_le16 [simp]: "length (le16 v) = 2"
  by (simp add: le16_def)

lemma length_le32 [simp]: "length (le32 v) = 4"
  by (simp add: le32_def)

section \<open>Counts as words\<close>

lemma unat_word_of_nat: "n < 2 ^ LENGTH('a) \<Longrightarrow> unat (word_of_nat n :: 'a::len word) = n"
  by (simp add: unsigned_of_nat take_bit_nat_eq_self)

section \<open>Exclusive or\<close>

lemma xor_cancel_right [simp]:
  fixes a b c :: "'a::len word"
  shows "(a XOR b) = (c XOR b) \<longleftrightarrow> a = c"
  by (metis xor.assoc xor_self_eq xor.right_neutral)

lemma xor_cancel_left [simp]:
  fixes a b c :: "'a::len word"
  shows "(b XOR a) = (b XOR c) \<longleftrightarrow> a = c"
  by (metis xor.commute xor_cancel_right)

section \<open>Signed reading of small words\<close>

lemma sint_small:
  fixes w :: u32
  assumes "unat w < 2 ^ 31"
  shows "sint w = int (unat w)"
proof -
  from assms have "int (unat w) < int (2 ^ 31)" by (simp only: of_nat_less_iff)
  then have "uint w < 2 ^ 31" by simp
  then show ?thesis
    by (simp add: sint_uint signed_take_bit_int_eq_self order_trans [of _ 0])
qed

end
