(* ===== verification/CloudWire.thy ===== *)
theory CloudWire
  imports Prelude Complex_Main
begin

text \<open>
  The frame layer of the cloud-web-v1 tunnel (\<^verbatim>\<open>package/lester/jmxd/src/cloud/protocol/wire.[ch]\<close>):
  opcodes, the 12-byte header, encoder and incremental decoder, reconnect backoff, and the two
  flow-control primitives.  The decoder returns a three-valued outcome, as \<open>cw_wire_decode\<close> does
  through its status, \<open>*frame\<close>, \<open>*consumed\<close> and \<open>*err\<close>.
\<close>

section \<open>Constants and enumerations of wire.h\<close>

definition CW_WIRE_VERSION :: u8 where [simp]: "CW_WIRE_VERSION = 1"
definition CW_WIRE_HDR :: nat where [simp]: "CW_WIRE_HDR = 12"
definition CW_WIRE_FRAME_MAX :: u32 where [simp]: "CW_WIRE_FRAME_MAX = 65536"
definition CW_WIRE_MAX_STREAMS :: u32 where [simp]: "CW_WIRE_MAX_STREAMS = 128"
definition CW_WIRE_WINDOW_MAX :: u32 where [simp]: "CW_WIRE_WINDOW_MAX = 0x7fffffff"
definition CW_WIRE_BACKOFF_BASE_MS :: u64 where [simp]: "CW_WIRE_BACKOFF_BASE_MS = 1000"
definition CW_WIRE_BACKOFF_CAP_MS :: u64 where [simp]: "CW_WIRE_BACKOFF_CAP_MS = 30000"

datatype cw_wire_op =
    CW_OP_HELLO | CW_OP_WELCOME | CW_OP_PING | CW_OP_PONG | CW_OP_SERVICES
  | CW_OP_GENERATION | CW_OP_GOAWAY | CW_OP_AUTH_CHALLENGE | CW_OP_AUTH_RESPONSE
  | CW_OP_OPEN | CW_OP_RESP | CW_OP_DATA | CW_OP_FIN | CW_OP_RESET | CW_OP_WINDOW

fun cw_op_code :: "cw_wire_op \<Rightarrow> u8" where
  "cw_op_code CW_OP_HELLO = 0x01"
| "cw_op_code CW_OP_WELCOME = 0x02"
| "cw_op_code CW_OP_PING = 0x03"
| "cw_op_code CW_OP_PONG = 0x04"
| "cw_op_code CW_OP_SERVICES = 0x05"
| "cw_op_code CW_OP_GENERATION = 0x06"
| "cw_op_code CW_OP_GOAWAY = 0x07"
| "cw_op_code CW_OP_AUTH_CHALLENGE = 0x08"
| "cw_op_code CW_OP_AUTH_RESPONSE = 0x09"
| "cw_op_code CW_OP_OPEN = 0x10"
| "cw_op_code CW_OP_RESP = 0x11"
| "cw_op_code CW_OP_DATA = 0x12"
| "cw_op_code CW_OP_FIN = 0x13"
| "cw_op_code CW_OP_RESET = 0x14"
| "cw_op_code CW_OP_WINDOW = 0x15"

datatype cw_wire_err =
    CW_ERR_NONE | CW_ERR_PROTOCOL | CW_ERR_FRAME_TOO_BIG | CW_ERR_FLOW_CONTROL
  | CW_ERR_STREAM_LIMIT | CW_ERR_GENERATION | CW_ERR_REVOKED | CW_ERR_SERVICE
  | CW_ERR_UPSTREAM | CW_ERR_CANCEL | CW_ERR_INTERNAL

fun cw_err_code :: "cw_wire_err \<Rightarrow> int" where
  "cw_err_code CW_ERR_NONE = 0"
| "cw_err_code CW_ERR_PROTOCOL = 1"
| "cw_err_code CW_ERR_FRAME_TOO_BIG = 2"
| "cw_err_code CW_ERR_FLOW_CONTROL = 3"
| "cw_err_code CW_ERR_STREAM_LIMIT = 4"
| "cw_err_code CW_ERR_GENERATION = 5"
| "cw_err_code CW_ERR_REVOKED = 6"
| "cw_err_code CW_ERR_SERVICE = 7"
| "cw_err_code CW_ERR_UPSTREAM = 8"
| "cw_err_code CW_ERR_CANCEL = 9"
| "cw_err_code CW_ERR_INTERNAL = 10"

record cw_frame =
  fr_version :: u8
  fr_type :: u8
  fr_flags :: u16
  fr_stream_id :: u32
  fr_length :: u32
  fr_payload :: "bytes option"

text \<open>The status of \<open>cw_wire_decode\<close> together with the out-parameters that go with it:
  the frame and \<open>*consumed\<close> on success, \<open>*err\<close> on a violation; \<open>*consumed\<close> is 0 otherwise.\<close>

datatype cw_wire_result =
    CW_WIRE_OK cw_frame nat
  | CW_WIRE_NEED_MORE
  | CW_WIRE_ERROR cw_wire_err

section \<open>Opcode rules\<close>

definition cw_wire_is_control :: "u8 \<Rightarrow> bool" where
  "cw_wire_is_control type \<longleftrightarrow> type \<in> set (map cw_op_code
     [CW_OP_HELLO, CW_OP_WELCOME, CW_OP_PING, CW_OP_PONG, CW_OP_SERVICES, CW_OP_GENERATION,
      CW_OP_GOAWAY, CW_OP_AUTH_CHALLENGE, CW_OP_AUTH_RESPONSE])"

definition cw_wire_is_data :: "u8 \<Rightarrow> bool" where
  "cw_wire_is_data type \<longleftrightarrow> type \<in> set (map cw_op_code
     [CW_OP_OPEN, CW_OP_RESP, CW_OP_DATA, CW_OP_FIN, CW_OP_RESET, CW_OP_WINDOW])"

definition stream_id_ok :: "u8 \<Rightarrow> u32 \<Rightarrow> bool" where
  "stream_id_ok type sid =
     (if type = cw_op_code CW_OP_WINDOW then True
      else if cw_wire_is_control type then sid = 0
      else sid \<noteq> 0)"

definition length_ok :: "u8 \<Rightarrow> u32 \<Rightarrow> bool" where
  "length_ok type len =
     (if CW_WIRE_FRAME_MAX < len then False
      else if type = cw_op_code CW_OP_FIN then len = 0
      else if type = cw_op_code CW_OP_RESET \<or> type = cw_op_code CW_OP_WINDOW then len = 4
      else True)"

definition cw_wire_read_u32 :: "bytes \<Rightarrow> u32" where
  "cw_wire_read_u32 p = get_be32 (p ! 0) (p ! 1) (p ! 2) (p ! 3)"

section \<open>Encoder and decoder\<close>

text \<open>\<open>out_ok\<close> is \<open>out != NULL\<close>; \<open>cap\<close> the caller's capacity; the result is what is written at
  \<open>out[0..]\<close>, or \<open>None\<close> for the return value -1.\<close>

definition cw_wire_encode ::
  "bool \<Rightarrow> nat \<Rightarrow> u8 \<Rightarrow> u16 \<Rightarrow> u32 \<Rightarrow> bytes option \<Rightarrow> u32 \<Rightarrow> bytes option" where
  "cw_wire_encode out_ok cap type flags stream_id payload len =
     (if \<not> out_ok then None
      else if \<not> cw_wire_is_control type \<and> \<not> cw_wire_is_data type then None
      else if \<not> length_ok type len \<or> \<not> stream_id_ok type stream_id then None
      else if 0 < len \<and> payload = None then None
      else if cap < CW_WIRE_HDR + unat len then None
      else Some ([CW_WIRE_VERSION, type] @ be16 flags @ be32 stream_id @ be32 len @
                 (if len = 0 then [] else take (unat len) (the payload))))"

definition cw_wire_decode :: "bytes option \<Rightarrow> bool \<Rightarrow> cw_wire_result" where
  "cw_wire_decode inp frame_ok =
     (case inp of None \<Rightarrow> CW_WIRE_ERROR CW_ERR_PROTOCOL
      | Some buf \<Rightarrow>
        if \<not> frame_ok then CW_WIRE_ERROR CW_ERR_PROTOCOL
        else if length buf < CW_WIRE_HDR then CW_WIRE_NEED_MORE
        else
          let version = buf ! 0;
              type = buf ! 1;
              flags = get_be16 (buf ! 2) (buf ! 3);
              sid = cw_wire_read_u32 (drop 4 buf);
              len = cw_wire_read_u32 (drop 8 buf)
          in if version \<noteq> CW_WIRE_VERSION then CW_WIRE_ERROR CW_ERR_PROTOCOL
             else if \<not> cw_wire_is_control type \<and> \<not> cw_wire_is_data type
               then CW_WIRE_ERROR CW_ERR_PROTOCOL
             else if CW_WIRE_FRAME_MAX < len then CW_WIRE_ERROR CW_ERR_FRAME_TOO_BIG
             else if \<not> length_ok type len \<or> \<not> stream_id_ok type sid
               then CW_WIRE_ERROR CW_ERR_PROTOCOL
             else if length buf < CW_WIRE_HDR + unat len then CW_WIRE_NEED_MORE
             else CW_WIRE_OK
               \<lparr>fr_version = version, fr_type = type, fr_flags = flags, fr_stream_id = sid,
                fr_length = len,
                fr_payload = (if len = 0 then None
                              else Some (take (unat len) (drop CW_WIRE_HDR buf)))\<rparr>
               (CW_WIRE_HDR + unat len))"

section \<open>Reconnect backoff\<close>

text \<open>The doubling loop of \<open>cw_wire_backoff_ms\<close>.  The processor's rounded product
  \<open>rnd * (double)span\<close> is the parameter \<open>fmul\<close>; the cast to \<open>uint32_t\<close> truncates.\<close>

fun backoff_full :: "nat \<Rightarrow> u64 \<Rightarrow> u64" where
  "backoff_full 0 full = full"
| "backoff_full (Suc n) full =
     (if full < CW_WIRE_BACKOFF_CAP_MS then backoff_full n (push_bit 1 full) else full)"

definition cw_wire_backoff_ms :: "(real \<Rightarrow> real \<Rightarrow> real) \<Rightarrow> u32 \<Rightarrow> real \<Rightarrow> u32" where
  "cw_wire_backoff_ms fmul attempt rnd =
     (let full = backoff_full (unat attempt) CW_WIRE_BACKOFF_BASE_MS;
          full = (if CW_WIRE_BACKOFF_CAP_MS < full then CW_WIRE_BACKOFF_CAP_MS else full);
          rnd = (if rnd < 0 then 0 else rnd);
          rnd = (if 1 \<le> rnd then 0.999999 else rnd);
          half = (ucast (full div 2) :: u32);
          span = (ucast (full - ucast half) :: u32)
      in half + word_of_int \<lfloor>fmul rnd (real (unat span))\<rfloor>)"

section \<open>Flow-control credit\<close>

text \<open>\<open>None\<close> is the return value -1 (the window is left as it was); a window pointer that is NULL
  is \<open>None\<close> on the way in.\<close>

definition cw_wire_window_add :: "u32 option \<Rightarrow> u32 \<Rightarrow> u32 option" where
  "cw_wire_window_add window credit =
     (case window of None \<Rightarrow> None
      | Some w \<Rightarrow>
        if CW_WIRE_WINDOW_MAX < credit then None
        else if CW_WIRE_WINDOW_MAX - credit < w then None
        else Some (w + credit))"

definition cw_wire_window_take :: "u32 option \<Rightarrow> u32 \<Rightarrow> u32 option" where
  "cw_wire_window_take window n =
     (case window of None \<Rightarrow> None
      | Some w \<Rightarrow> if w < n then None else Some (w - n))"

section \<open>Layout lemmas\<close>

lemma length_ok_bound: "length_ok type len \<Longrightarrow> unat len \<le> 65536"
  by (auto simp: length_ok_def word_le_nat_alt not_less split: if_splits)

lemma header_cases:
  assumes "12 \<le> length buf"
  obtains a0 a1 a2 a3 a4 a5 a6 a7 a8 a9 a10 a11 rest
  where "buf = a0 # a1 # a2 # a3 # a4 # a5 # a6 # a7 # a8 # a9 # a10 # a11 # rest"
proof -
  from assms have "Suc (Suc (Suc (Suc (Suc (Suc (Suc (Suc (Suc (Suc (Suc (Suc 0))))))))))) \<le> length buf"
    by simp
  then show ?thesis using that by (auto simp only: Suc_le_length_iff)
qed

lemma read_u32_be32 [simp, wire_simps]: "cw_wire_read_u32 (be32 v @ rest) = v"
  by (simp add: cw_wire_read_u32_def be32_def)

lemma be32_read_u32: "be32 (cw_wire_read_u32 (a # b # c # d # rest)) = [a, b, c, d]"
  by (simp add: cw_wire_read_u32_def)

lemma encode_Some:
  assumes "cw_wire_encode out_ok cap type flags sid payload len = Some bs"
  shows "out_ok" and "cw_wire_is_control type \<or> cw_wire_is_data type"
    and "length_ok type len" and "stream_id_ok type sid"
    and "0 < len \<longrightarrow> payload \<noteq> None" and "12 + unat len \<le> cap"
    and "bs = [1, type] @ be16 flags @ be32 sid @ be32 len @
           (if len = 0 then [] else take (unat len) (the payload))"
  using assms by (auto simp: cw_wire_encode_def split: if_splits)

lemma encode_length:
  assumes enc: "cw_wire_encode out_ok cap type flags sid payload len = Some bs"
    and room: "\<And>p. payload = Some p \<Longrightarrow> unat len \<le> length p"
  shows "length bs = 12 + unat len"
  using encode_Some(5,7) [OF enc] room
  by (cases "len = 0") (auto simp: word_gt_0)

lemma decode_header:
  "cw_wire_decode (Some ([v, type] @ be16 flags @ be32 sid @ be32 len @ body)) True =
     (if v \<noteq> CW_WIRE_VERSION then CW_WIRE_ERROR CW_ERR_PROTOCOL
      else if \<not> cw_wire_is_control type \<and> \<not> cw_wire_is_data type
        then CW_WIRE_ERROR CW_ERR_PROTOCOL
      else if CW_WIRE_FRAME_MAX < len then CW_WIRE_ERROR CW_ERR_FRAME_TOO_BIG
      else if \<not> length_ok type len \<or> \<not> stream_id_ok type sid
        then CW_WIRE_ERROR CW_ERR_PROTOCOL
      else if length body < unat len then CW_WIRE_NEED_MORE
      else CW_WIRE_OK
        \<lparr>fr_version = v, fr_type = type, fr_flags = flags, fr_stream_id = sid, fr_length = len,
         fr_payload = (if len = 0 then None else Some (take (unat len) body))\<rparr>
        (12 + unat len))"
proof -
  define buf where "buf = [v, type] @ be16 flags @ be32 sid @ be32 len @ body"
  have d8: "drop 8 buf = be32 len @ body" and d4: "drop 4 buf = be32 sid @ be32 len @ body"
    and d12: "drop 12 buf = body" and l: "length buf = 12 + length body"
    and n: "buf ! 0 = v" "buf ! Suc 0 = type" "get_be16 (buf ! 2) (buf ! 3) = flags"
    by (simp_all add: buf_def be16_def be32_def)
  show ?thesis
    unfolding buf_def [symmetric]
    by (simp add: cw_wire_decode_def Let_def d4 d8 d12 l n)
qed

lemma buffer_as_header:
  assumes "12 \<le> length buf"
  shows "buf = [buf ! 0, buf ! 1] @ be16 (get_be16 (buf ! 2) (buf ! 3)) @
    be32 (cw_wire_read_u32 (drop 4 buf)) @ be32 (cw_wire_read_u32 (drop 8 buf)) @ drop 12 buf"
proof -
  from assms obtain a0 a1 a2 a3 a4 a5 a6 a7 a8 a9 a10 a11 rest
    where b: "buf = a0 # a1 # a2 # a3 # a4 # a5 # a6 # a7 # a8 # a9 # a10 # a11 # rest"
    by (rule header_cases)
  show ?thesis unfolding b by (simp add: be32_read_u32)
qed

lemma buffer_cases:
  assumes "12 \<le> length buf"
  obtains v type flags sid len body
  where "buf = [v, type] @ be16 flags @ be32 sid @ be32 len @ body"
  using buffer_as_header [OF assms] that by blast

lemma take_header:
  "take (12 + n) ([v, type] @ be16 flags @ be32 sid @ be32 len @ body) =
     [v, type] @ be16 flags @ be32 sid @ be32 len @ take n body"
  by (simp add: numeral_eq_Suc be16_def be32_def)

lemma decode_short: "length buf < 12 \<Longrightarrow> cw_wire_decode (Some buf) True = CW_WIRE_NEED_MORE"
  by (simp add: cw_wire_decode_def)

lemma backoff_full_bounds:
  "1000 \<le> full \<Longrightarrow> full < 60000 \<Longrightarrow>
   1000 \<le> backoff_full n full \<and> backoff_full n full < 60000"
proof (induction n full rule: backoff_full.induct)
  case (2 n full)
  show ?case
  proof (cases "full < 30000")
    case True
    have e: "push_bit 1 full = full * 2"
      by (simp add: push_bit_eq_mult)
    from True have u: "unat (full * 2) = 2 * unat full"
      by (simp add: word_less_nat_alt unat_word_ariths)
    from True "2.prems" have "1000 \<le> full * 2" "full * 2 < 60000"
      by (simp_all add: word_less_nat_alt word_le_nat_alt u)
    with True "2.IH" show ?thesis by (simp add: e)
  qed (use "2.prems" in simp)
qed simp

section \<open>Properties\<close>

text \<open>Decoding what the encoder wrote yields exactly the encoded frame and consumes exactly its
  bytes, whatever follows them in the receive buffer.\<close>

theorem wire_decode_encode:
  assumes enc: "cw_wire_encode True cap type flags sid payload len = Some bs"
    and room: "\<And>p. payload = Some p \<Longrightarrow> unat len \<le> length p"
  shows "cw_wire_decode (Some (bs @ rest)) True =
    CW_WIRE_OK
      \<lparr>fr_version = 1, fr_type = type, fr_flags = flags, fr_stream_id = sid, fr_length = len,
       fr_payload = (if len = 0 then None else Some (take (unat len) (the payload)))\<rparr>
      (length bs)"
proof -
  note e = encode_Some [OF enc]
  define body where "body = (if len = 0 then [] else take (unat len) (the payload))"
  have bl: "length body = unat len"
    using e(5) room by (cases "len = 0") (auto simp: body_def word_gt_0)
  have bs: "bs @ rest = [1, type] @ be16 flags @ be32 sid @ be32 len @ (body @ rest)"
    using e(7) by (simp add: body_def)
  have "\<not> CW_WIRE_FRAME_MAX < len"
    using e(3) by (auto simp: length_ok_def)
  with e(2,3,4) bl show ?thesis
    unfolding bs decode_header
    by (auto simp: encode_length [OF enc room] body_def)
qed

theorem wire_decode_encode_witness:
  "cw_wire_decode (Some ([1, 0x14, 0, 0, 0, 0, 0, 9, 0, 0, 0, 4, 0, 0, 0, 3] @ [7])) True =
    CW_WIRE_OK
      \<lparr>fr_version = 1, fr_type = 0x14, fr_flags = 0, fr_stream_id = 9, fr_length = 4,
       fr_payload = Some [0, 0, 0, 3]\<rparr> 16"
proof -
  have e: "cw_wire_encode True 64 0x14 0 9 (Some [0, 0, 0, 3]) 4 =
      Some [1, 0x14, 0, 0, 0, 0, 0, 9, 0, 0, 0, 4, 0, 0, 0, 3]"
    by (simp add: cw_wire_encode_def cw_wire_is_control_def cw_wire_is_data_def length_ok_def
      stream_id_ok_def be16_def be32_def)
  show ?thesis
    using wire_decode_encode [OF e, of "[7]"] by simp
qed

text \<open>C40: the decoder accepts nothing but encoder output: a frame it returns lies inside the buffer,
  and encoding that frame gives back the very bytes that were consumed.\<close>

theorem wire_encode_decode:
  assumes dec: "cw_wire_decode (Some buf) True = CW_WIRE_OK f n"
  shows "n \<le> length buf \<and> n = 12 + unat (fr_length f) \<and> unat (fr_length f) \<le> 65536 \<and>
    cw_wire_encode True n (fr_type f) (fr_flags f) (fr_stream_id f) (fr_payload f) (fr_length f) =
      Some (take n buf)"
proof -
  have "12 \<le> length buf"
    using dec decode_short [of buf] by (cases "length buf < 12") auto
  then obtain v type flags sid len body
    where b: "buf = [v, type] @ be16 flags @ be32 sid @ be32 len @ body"
    by (rule buffer_cases)
  from dec [unfolded b decode_header]
  have n: "n = 12 + unat len" and "v = 1" "length_ok type len" "stream_id_ok type sid"
    "cw_wire_is_control type \<or> cw_wire_is_data type" "unat len \<le> length body"
    and "f = \<lparr>fr_version = v, fr_type = type, fr_flags = flags, fr_stream_id = sid, fr_length = len,
      fr_payload = (if len = 0 then None else Some (take (unat len) body))\<rparr>"
    by (auto split: if_splits)
  then show ?thesis
    unfolding b n take_header
    by (auto simp: cw_wire_encode_def length_ok_bound)
qed

theorem wire_encode_decode_witness:
  "cw_wire_encode True 12 0x13 0 5 None 0 = Some [1, 0x13, 0, 0, 0, 0, 0, 5, 0, 0, 0, 0]"
proof -
  have d: "cw_wire_decode (Some [1, 0x13, 0, 0, 0, 0, 0, 5, 0, 0, 0, 0, 1]) True =
    CW_WIRE_OK \<lparr>fr_version = 1, fr_type = 0x13, fr_flags = 0, fr_stream_id = 5, fr_length = 0,
      fr_payload = None\<rparr> 12"
    by (simp add: cw_wire_decode_def Let_def cw_wire_is_control_def cw_wire_is_data_def
      length_ok_def stream_id_ok_def cw_wire_read_u32_def get_be16_def get_be32_def)
  show ?thesis using wire_encode_decode [OF d] by simp
qed

text \<open>A frame that has only partly arrived is never misread: every proper prefix of an encoded
  frame makes the decoder ask for more bytes.\<close>

theorem wire_prefix_needs_more:
  assumes enc: "cw_wire_encode True cap type flags sid payload len = Some bs"
    and room: "\<And>p. payload = Some p \<Longrightarrow> unat len \<le> length p"
    and k: "k < length bs"
  shows "cw_wire_decode (Some (take k bs)) True = CW_WIRE_NEED_MORE"
proof (cases "k < 12")
  case True
  then show ?thesis using k by (intro decode_short) simp
next
  case False
  note e = encode_Some [OF enc]
  have t: "take k bs = [1, type] @ be16 flags @ be32 sid @ be32 len @
      take (k - 12) (if len = 0 then [] else take (unat len) (the payload))"
    using False e(7) take_header [of "k - 12"] by simp
  have m: "\<not> CW_WIRE_FRAME_MAX < len"
    using e(3) by (auto simp: length_ok_def)
  have "k < 12 + unat len" using k encode_length [OF enc room] by simp
  then have "length (take (k - 12) (if len = 0 then [] else take (unat len) (the payload))) < unat len"
    using False by auto
  then show ?thesis
    unfolding t decode_header using e(2,3,4) m by auto
qed

theorem wire_prefix_needs_more_witness:
  "cw_wire_decode (Some (take 15 [1, 0x14, 0, 0, 0, 0, 0, 9, 0, 0, 0, 4, 0, 0, 0, 3])) True =
     CW_WIRE_NEED_MORE"
proof -
  have e: "cw_wire_encode True 64 0x14 0 9 (Some [0, 0, 0, 3]) 4 =
      Some [1, 0x14, 0, 0, 0, 0, 0, 9, 0, 0, 0, 4, 0, 0, 0, 3]"
    by (simp add: cw_wire_encode_def cw_wire_is_control_def cw_wire_is_data_def length_ok_def
      stream_id_ok_def be16_def be32_def)
  show ?thesis
    by (rule wire_prefix_needs_more [OF e]) simp_all
qed

text \<open>a verdict on a buffer (a frame or a violation) never changes when more bytes arrive.\<close>

theorem wire_decode_stable:
  assumes "cw_wire_decode (Some buf) True \<noteq> CW_WIRE_NEED_MORE"
  shows "cw_wire_decode (Some (buf @ later)) True = cw_wire_decode (Some buf) True"
proof -
  have "12 \<le> length buf"
    using assms decode_short [of buf] by (cases "length buf < 12") auto
  then obtain v type flags sid len body
    where b: "buf = [v, type] @ be16 flags @ be32 sid @ be32 len @ body"
    by (rule buffer_cases)
  have bm: "buf @ later = [v, type] @ be16 flags @ be32 sid @ be32 len @ (body @ later)"
    by (simp add: b)
  show ?thesis
    using assms unfolding bm unfolding b decode_header by (auto split: if_splits)
qed

theorem wire_decode_stable_witness:
  "cw_wire_decode (Some ([2, 1, 0, 0, 0, 0, 0, 0, 0, 0, 0, 0] @ [1])) True =
     CW_WIRE_ERROR CW_ERR_PROTOCOL"
proof -
  have d: "cw_wire_decode (Some [2, 1, 0, 0, 0, 0, 0, 0, 0, 0, 0, 0]) True =
      CW_WIRE_ERROR CW_ERR_PROTOCOL"
    by (simp add: cw_wire_decode_def Let_def)
  show ?thesis
    using wire_decode_stable [of "[2, 1, 0, 0, 0, 0, 0, 0, 0, 0, 0, 0]" "[1]"] d by simp
qed

text \<open>reconnect delays use equal jitter in the upper half of a capped exponential: the delay is
  at least 500 ms and stays below 30 s for every attempt, for any product whose rounding keeps a
  fraction below one of the span below the span.\<close>

theorem backoff_bounds:
  assumes fmul: "\<And>r s. 0 \<le> r \<Longrightarrow> r < 1 \<Longrightarrow> 0 < s \<Longrightarrow> 0 \<le> fmul r s \<and> fmul r s < s"
  shows "500 \<le> unat (cw_wire_backoff_ms fmul attempt rnd) \<and>
    unat (cw_wire_backoff_ms fmul attempt rnd) < 30000"
proof -
  define full where "full = backoff_full (unat attempt) 1000"
  define capped where "capped = (if 30000 < full then 30000 else full)"
  define half where "half = (ucast (capped div 2) :: u32)"
  define span where "span = (ucast (capped - ucast half) :: u32)"
  define r where "r = (if 1 \<le> (if rnd < 0 then 0 else rnd) then 0.999999 else (if rnd < 0 then 0 else rnd))"
  have "1000 \<le> full" unfolding full_def using backoff_full_bounds [of 1000] by simp
  then have c: "1000 \<le> unat capped" "unat capped \<le> 30000"
    by (auto simp: capped_def word_le_nat_alt word_less_nat_alt)
  have h: "unat half = unat capped div 2"
    using c by (simp add: half_def unsigned_ucast_eq take_bit_eq_mod unat_div_distrib)
  have uh: "unat (ucast half :: u64) = unat capped div 2"
    using c h by (simp add: unsigned_ucast_eq take_bit_eq_mod)
  have s: "unat span = unat capped - unat capped div 2"
    using c uh by (simp add: span_def unsigned_ucast_eq take_bit_eq_mod unat_sub word_le_nat_alt)
  have r: "0 \<le> r" "r < 1" by (auto simp: r_def)
  define j where "j = \<lfloor>fmul r (real (unat span))\<rfloor>"
  have "0 < unat span" using s c by simp
  then have "0 < real (unat span)" by (simp only: of_nat_0_less_iff)
  then have f: "0 \<le> fmul r (real (unat span))" "fmul r (real (unat span)) < real (unat span)"
    using fmul [OF r] by blast+
  then have j: "0 \<le> j" "j < int (unat span)"
    by (simp_all add: j_def floor_less_iff)
  have "unat span \<le> 15000" using s c by linarith
  with j have "j < 15000" by linarith
  with j(1) have "j mod 2 ^ LENGTH(32) = j" by simp
  then have uj: "unat (word_of_int j :: u32) = nat j"
    by (simp only: unat_eq_nat_uint uint_word_of_int)
  have "cw_wire_backoff_ms fmul attempt rnd = half + word_of_int j"
    by (simp add: cw_wire_backoff_ms_def Let_def full_def capped_def half_def span_def r_def j_def)
  moreover have range: "500 \<le> unat half + nat j" "unat half + nat j < 30000"
    using h j s c by linarith+
  moreover have "unat (half + word_of_int j) = unat half + nat j"
    using range(2) by (simp only: unat_word_ariths uj) simp
  ultimately show ?thesis by simp
qed

theorem backoff_bounds_witness:
  "500 \<le> unat (cw_wire_backoff_ms (*) 3 0.5) \<and> unat (cw_wire_backoff_ms (*) 3 0.5) < 30000"
proof -
  have m: "0 \<le> r * s \<and> r * s < s" if "0 \<le> r" "r < 1" "0 < s" for r s :: real
    using that by (simp add: mult_less_cancel_right1)
  show ?thesis by (rule backoff_bounds [of "(*)", OF m])
qed

text \<open>Credit is conserved and never exceeds the ceiling: a successful grant raises the window by
  exactly the credit, a successful take lowers it by exactly the amount, a refused call means the
  ceiling would have been passed or the peer overran its window.\<close>

theorem window_credit_exact:
  "cw_wire_window_add (Some w) c =
     (if unat w + unat c \<le> 0x7fffffff then Some (w + c) else None) \<and>
   (\<forall>w'. cw_wire_window_add (Some w) c = Some w' \<longrightarrow> unat w' = unat w + unat c) \<and>
   (\<forall>w'. cw_wire_window_take (Some w) c = Some w' \<longrightarrow> unat w = unat w' + unat c) \<and>
   (cw_wire_window_take (Some w) c = None \<longleftrightarrow> unat w < unat c)"
proof -
  have 1: "cw_wire_window_add (Some w) c =
      (if unat w + unat c \<le> 0x7fffffff then Some (w + c) else None)"
    by (auto simp: cw_wire_window_add_def word_less_nat_alt unat_sub word_le_nat_alt)
  have 2: "unat (w + c) = unat w + unat c" if "unat w + unat c \<le> 0x7fffffff"
    using that by (simp add: unat_word_ariths)
  show ?thesis
    using 1 2 by (auto simp: cw_wire_window_take_def word_less_nat_alt unat_sub word_le_nat_alt
      split: if_splits)
qed

theorem window_credit_exact_witness:
  "cw_wire_window_add (Some 5) 7 = Some 12 \<and> unat (12 :: u32) = unat (5 :: u32) + unat (7 :: u32)"
proof -
  have "cw_wire_window_add (Some 5) 7 = Some 12"
    using window_credit_exact [of 5 7] by simp
  then show ?thesis using window_credit_exact [of 5 7] by blast
qed

end
