(* ===== verification/SlotTable.thy ===== *)
theory SlotTable
  imports Prelude
begin

text \<open>
  Fixed-size slot arrays: a C array whose entries carry an occupied flag and a key, searched by a
  linear scan.  The locale states what the scans and the single-slot updates of such an array mean
  for the finite map from keys to occupied entries; the cloud session interprets it on its stream
  table.
\<close>

locale slot_table =
  fixes occupied :: "'slot \<Rightarrow> bool"
    and key :: "'slot \<Rightarrow> 'k"
    and vacant :: "'slot"
  assumes vacant_free [simp]: "\<not> occupied vacant"
begin

definition scan :: "'slot list \<Rightarrow> 'k \<Rightarrow> nat option" where
  "scan xs k = find (\<lambda>i. occupied (xs ! i) \<and> key (xs ! i) = k) [0..<length xs]"

definition first_free :: "'slot list \<Rightarrow> nat option" where
  "first_free xs = find (\<lambda>i. \<not> occupied (xs ! i)) [0..<length xs]"

definition unique :: "'slot list \<Rightarrow> bool" where
  "unique xs \<longleftrightarrow> (\<forall>i < length xs. \<forall>j < length xs.
     occupied (xs ! i) \<and> occupied (xs ! j) \<and> key (xs ! i) = key (xs ! j) \<longrightarrow> i = j)"

definition table :: "'slot list \<Rightarrow> 'k \<rightharpoonup> 'slot" where
  "table xs k = map_option ((!) xs) (scan xs k)"

definition load :: "'slot list \<Rightarrow> nat" where
  "load xs = length (filter occupied xs)"

lemma scan_Some:
  assumes "scan xs k = Some i"
  shows "i < length xs" and "occupied (xs ! i)" and "key (xs ! i) = k"
  using assms by (auto simp: scan_def find_Some_iff)

lemma scan_None: "scan xs k = None \<longleftrightarrow> (\<forall>i < length xs. occupied (xs ! i) \<longrightarrow> key (xs ! i) \<noteq> k)"
  by (auto simp: scan_def find_None_iff)

lemma scan_unique:
  assumes "unique xs" and "i < length xs" and "occupied (xs ! i)"
  shows "scan xs (key (xs ! i)) = Some i"
proof (cases "scan xs (key (xs ! i))")
  case None
  with assms show ?thesis by (auto simp: scan_None)
next
  case (Some j)
  with scan_Some [OF this] assms show ?thesis by (auto simp: unique_def)
qed

lemma first_free_Some:
  "first_free xs = Some i \<Longrightarrow> i < length xs \<and> \<not> occupied (xs ! i)"
  by (auto simp: first_free_def find_Some_iff)

lemma first_free_None: "first_free xs = None \<longleftrightarrow> load xs = length xs"
proof -
  have "load xs = length xs \<longleftrightarrow> (\<forall>x \<in> set xs. occupied x)"
    unfolding load_def by (induction xs) (auto simp: le_imp_less_Suc less_Suc_eq_le
      dest: sym intro: order_antisym, metis Suc_n_not_le_n length_filter_le)
  then show ?thesis
    by (auto simp: first_free_def find_None_iff all_set_conv_all_nth)
qed

lemma table_Some: "table xs k = Some x \<longleftrightarrow> (\<exists>i. scan xs k = Some i \<and> x = xs ! i)"
  by (auto simp: table_def)

lemma table_eq:
  assumes "unique xs"
  shows "table xs k = Some x \<longleftrightarrow> (\<exists>i < length xs. xs ! i = x \<and> occupied x \<and> key x = k)"
proof
  assume "table xs k = Some x"
  then show "\<exists>i < length xs. xs ! i = x \<and> occupied x \<and> key x = k"
    unfolding table_Some using scan_Some by blast
next
  assume "\<exists>i < length xs. xs ! i = x \<and> occupied x \<and> key x = k"
  then show "table xs k = Some x"
    using scan_unique [OF assms] by (auto simp: table_Some)
qed

lemma table_cong:
  assumes "unique xs" and "unique ys" and "length xs = length ys"
    and "\<And>i. i < length xs \<Longrightarrow> occupied (xs ! i) \<Longrightarrow> key (xs ! i) = k \<Longrightarrow> ys ! i = xs ! i"
    and "\<And>i. i < length ys \<Longrightarrow> occupied (ys ! i) \<Longrightarrow> key (ys ! i) = k \<Longrightarrow> ys ! i = xs ! i"
  shows "table ys k = table xs k"
proof -
  have "table ys k = Some x \<longleftrightarrow> table xs k = Some x" for x
    unfolding table_eq [OF assms(1)] table_eq [OF assms(2)]
    using assms(3-5) by (metis (no_types, lifting))
  then show ?thesis by (metis not_Some_eq)
qed

lemma unique_update:
  assumes "unique xs" and "i < length xs"
    and "occupied y \<Longrightarrow> \<forall>j < length xs. j \<noteq> i \<longrightarrow> occupied (xs ! j) \<longrightarrow> key (xs ! j) \<noteq> key y"
  shows "unique (xs[i := y])"
  using assms unfolding unique_def by (simp add: nth_list_update) metis

lemma unique_vacate: "unique xs \<Longrightarrow> i < length xs \<Longrightarrow> unique (xs[i := vacant])"
  by (rule unique_update) simp_all

lemma unique_same_key:
  assumes "unique xs" and "i < length xs" and "occupied (xs ! i)" and "key y = key (xs ! i)"
  shows "unique (xs[i := y])"
  using assms by (intro unique_update) (auto simp: unique_def)

lemma table_update:
  assumes u: "unique xs" and i: "i < length xs" and "occupied (xs ! i)"
    and y: "occupied y" "key y = key (xs ! i)"
  shows "table (xs[i := y]) = (table xs)(key y \<mapsto> y)"
proof
  fix k
  note u' = unique_same_key [OF u i assms(3) y(2)]
  show "table (xs[i := y]) k = ((table xs)(key y \<mapsto> y)) k"
  proof (cases "k = key y")
    case True
    have "table (xs[i := y]) (key y) = Some y"
      unfolding table_eq [OF u'] using i y by (auto intro!: exI [of _ i])
    with True show ?thesis by simp
  next
    case False
    then have "table (xs[i := y]) k = table xs k"
      using u u' i y by (intro table_cong) (auto simp: nth_list_update split: if_splits)
    with False show ?thesis by simp
  qed
qed

lemma table_occupy:
  assumes u: "unique xs" and i: "i < length xs" and f: "\<not> occupied (xs ! i)"
    and y: "occupied y" and new: "scan xs (key y) = None"
  shows "table (xs[i := y]) = (table xs)(key y \<mapsto> y)" and "unique (xs[i := y])"
proof -
  show u': "unique (xs[i := y])"
    using new by (intro unique_update [OF u i]) (auto simp: scan_None)
  show "table (xs[i := y]) = (table xs)(key y \<mapsto> y)"
  proof
    fix k
    show "table (xs[i := y]) k = ((table xs)(key y \<mapsto> y)) k"
    proof (cases "k = key y")
      case True
      have "table (xs[i := y]) (key y) = Some y"
        unfolding table_eq [OF u'] using i y by (auto intro!: exI [of _ i])
      with True show ?thesis by simp
    next
      case False
      then have "table (xs[i := y]) k = table xs k"
        using u u' i f by (intro table_cong) (auto simp: nth_list_update split: if_splits)
      with False show ?thesis by simp
    qed
  qed
qed

lemma table_vacate:
  assumes u: "unique xs" and i: "i < length xs" and o: "occupied (xs ! i)"
  shows "table (xs[i := vacant]) = (table xs)(key (xs ! i) := None)"
proof
  fix k
  note u' = unique_vacate [OF u i]
  show "table (xs[i := vacant]) k = ((table xs)(key (xs ! i) := None)) k"
  proof (cases "k = key (xs ! i)")
    case True
    have "table (xs[i := vacant]) k \<noteq> Some x" for x
      unfolding table_eq [OF u'] using True u i o vacant_free
      by (auto simp: nth_list_update unique_def simp del: vacant_free)
    then show ?thesis using True by (metis fun_upd_same not_Some_eq)
  next
    case False
    then have "table (xs[i := vacant]) k = table xs k"
      using u u' i by (intro table_cong) (auto simp: nth_list_update split: if_splits)
    with False show ?thesis by simp
  qed
qed

lemma load_update:
  assumes "i < length xs"
  shows "load (xs[i := y]) + (if occupied (xs ! i) then 1 else 0) =
         load xs + (if occupied y then 1 else 0)"
  using assms
proof (induction xs arbitrary: i)
  case (Cons x xs)
  then show ?case by (cases i) (auto simp: load_def)
qed simp

lemma load_vacant [simp]: "load (replicate n vacant) = 0"
  by (simp add: load_def)

lemma unique_vacant [simp]: "unique (replicate n vacant)"
  by (simp add: unique_def)

lemma table_vacant [simp]: "table (replicate n vacant) = Map.empty"
  by (rule ext) (auto simp: table_def scan_None)

lemma dom_table: "dom (table xs) = key ` {x \<in> set xs. occupied x}"
  by (auto simp: dom_def table_def scan_def find_None_iff in_set_conv_nth
    dest: scan_Some [unfolded scan_def] simp del: not_None_eq simp flip: not_None_eq; force)

lemma card_table:
  assumes "unique xs"
  shows "card (dom (table xs)) = load xs"
proof -
  have "distinct (map key (filter occupied xs))"
    using assms
  proof (induction xs)
    case (Cons x xs)
    have tail: "unique xs"
      using Cons.prems unfolding unique_def
      by (metis Suc_less_eq length_Cons nat.inject nth_Cons_Suc)
    have "key x \<noteq> key y" if "occupied x" "y \<in> set xs" "occupied y" for y
    proof -
      from that(2) obtain j where "j < length xs" "xs ! j = y"
        by (auto simp: in_set_conv_nth)
      moreover from Cons.prems this(1) that(1,3) this(2)
      have "key ((x # xs) ! 0) \<noteq> key ((x # xs) ! Suc j)"
        unfolding unique_def by (metis Suc_less_eq length_Cons nat.distinct(1) nth_Cons_0 nth_Cons_Suc zero_less_Suc)
      ultimately show ?thesis by simp
    qed
    with Cons.IH [OF tail] show ?case by auto
  qed simp
  then have "card (set (map key (filter occupied xs))) = length (map key (filter occupied xs))"
    by (rule distinct_card)
  then show ?thesis by (simp add: dom_table load_def)
qed

end

end
