(* ===== verification/CloudSession.thy ===== *)
theory CloudSession
  imports CloudWire SlotTable "HOL-Library.Char_ord"
begin

text \<open>
  The gateway's tunnel session (\<^verbatim>\<open>cloud/protocol/session.[ch]\<close>): the service registry, the table of
  128 stream slots, credit accounting, half-close, revocation and supersession.

  \<^item> \<open>cw_stream\<close> and \<open>cw_session\<close> are the C structs; the two-element arrays indexed by direction are
    functions of \<open>cw_dir\<close>, the \<open>services\<close> table is the array of 64 C strings.
  \<^item> Each operation has a body over an existing session (\<open>open_stream\<close>, \<open>data_stream\<close>, ...) and the
    exported entry point, which first tests the session pointer for NULL.
  \<^item> \<open>spec_event\<close> at the end is the contract: the same events over a finite map of open streams.
\<close>

section \<open>Data\<close>

definition CW_SESS_MAX_SERVICES :: nat where [simp]: "CW_SESS_MAX_SERVICES = 64"
definition CW_SESS_SERVICE_ID_MAX :: nat where [simp]: "CW_SESS_SERVICE_ID_MAX = 63"

datatype cw_dir = CW_DIR_UP | CW_DIR_DOWN

text \<open>The \<open>int dir\<close> argument; anything but 0 and 1 is a usage error.\<close>

definition dir_of :: "int \<Rightarrow> cw_dir option" where
  "dir_of d = (if d = 0 then Some CW_DIR_UP else if d = 1 then Some CW_DIR_DOWN else None)"

record cw_stream =
  st_id :: u32
  st_win :: "cw_dir \<Rightarrow> u32"
  st_in_use :: bool
  st_resp_seen :: bool
  st_fin :: "cw_dir \<Rightarrow> bool"

definition zero_stream :: cw_stream where
  "zero_stream = \<lparr>st_id = 0, st_win = (\<lambda>_. 0), st_in_use = False, st_resp_seen = False,
                  st_fin = (\<lambda>_. False)\<rparr>"

record cw_session =
  generation :: u32
  max_streams :: u32
  init_stream_window :: u32
  conn_win :: "cw_dir \<Rightarrow> u32"
  revoked :: bool
  superseded :: bool
  n_active :: int
  n_services :: int
  services :: "string list"
  streams :: "cw_stream list"

text \<open>Return values: 0, a positive \<open>cw_wire_err\<close>, or -1 for a usage error.\<close>

datatype cw_rc = RC_OK | RC_ERR cw_wire_err | RC_USAGE

fun cw_rc_int :: "cw_rc \<Rightarrow> int" where
  "cw_rc_int RC_OK = 0"
| "cw_rc_int (RC_ERR e) = cw_err_code e"
| "cw_rc_int RC_USAGE = -1"

section \<open>Service registry\<close>

definition alnum :: "char \<Rightarrow> bool" where
  "alnum c \<longleftrightarrow> (CHR ''a'' \<le> c \<and> c \<le> CHR ''z'') \<or> (CHR ''0'' \<le> c \<and> c \<le> CHR ''9'')"

definition valid_service_id :: "string option \<Rightarrow> bool" where
  "valid_service_id idp =
     (case idp of None \<Rightarrow> False
      | Some s \<Rightarrow>
        let n = length s in
        if n < 1 \<or> CW_SESS_SERVICE_ID_MAX < n then False
        else list_all (\<lambda>i. let c = s ! i in
               (alnum c \<or> c = CHR ''-'') \<and> ((i = 0 \<or> i = n - 1) \<longrightarrow> alnum c)) [0..<n])"

text \<open>The validation pass of \<open>cw_session_set_services\<close>: every id well-formed and different from
  the ones before it.\<close>

fun services_ok :: "string option list \<Rightarrow> string option list \<Rightarrow> bool" where
  "services_ok before [] = True"
| "services_ok before (i # is) =
     (valid_service_id i \<and> i \<notin> set before \<and> services_ok (before @ [i]) is)"

definition no_services :: "string list" where
  "no_services = replicate CW_SESS_MAX_SERVICES ''''"

definition set_services :: "string option list option \<Rightarrow> int \<Rightarrow> cw_session \<Rightarrow> cw_rc \<times> cw_session" where
  "set_services ids n s =
     (let cleared = s\<lparr>n_services := 0, services := no_services\<rparr> in
      if n < 0 \<or> int CW_SESS_MAX_SERVICES < n then (RC_USAGE, cleared)
      else if 0 < n \<and> ids = None then (RC_USAGE, cleared)
      else
        let now = take (nat n) (case ids of None \<Rightarrow> [] | Some xs \<Rightarrow> xs) in
        if \<not> services_ok [] now then (RC_USAGE, cleared)
        else (RC_OK, s\<lparr>n_services := n,
               services := map the now @ drop (nat n) no_services\<rparr>))"

definition has_service :: "string option \<Rightarrow> cw_session \<Rightarrow> bool" where
  "has_service idp s =
     (case idp of None \<Rightarrow> False | Some sid \<Rightarrow> sid \<in> set (take (nat (n_services s)) (services s)))"

section \<open>Stream table\<close>

definition find_slot :: "cw_session \<Rightarrow> u32 \<Rightarrow> nat option" where
  "find_slot s sid =
     (if sid = 0 then None
      else find (\<lambda>i. st_in_use (streams s ! i) \<and> st_id (streams s ! i) = sid)
             [0..<unat CW_WIRE_MAX_STREAMS])"

definition alloc_slot :: "cw_session \<Rightarrow> nat option" where
  "alloc_slot s = find (\<lambda>i. \<not> st_in_use (streams s ! i)) [0..<unat CW_WIRE_MAX_STREAMS]"

definition close_stream :: "nat \<Rightarrow> cw_session \<Rightarrow> cw_session" where
  "close_stream i s =
     (if \<not> st_in_use (streams s ! i) then s
      else s\<lparr>streams := (streams s)[i := zero_stream],
             n_active := (if 0 < n_active s then n_active s - 1 else n_active s)\<rparr>)"

definition put_stream :: "nat \<Rightarrow> cw_stream \<Rightarrow> cw_session \<Rightarrow> cw_session" where
  "put_stream i st s = s\<lparr>streams := (streams s)[i := st]\<rparr>"

section \<open>Operations\<close>

definition cw_session_init :: "u32 \<Rightarrow> u32 \<Rightarrow> u32 \<Rightarrow> u32 \<Rightarrow> cw_session" where
  "cw_session_init gen maxs stream_window conn_window =
     (let maxs = (if maxs < 1 then 1 else maxs);
          maxs = (if CW_WIRE_MAX_STREAMS < maxs then CW_WIRE_MAX_STREAMS else maxs);
          sw = (if stream_window < 1 then 1 else stream_window);
          sw = (if CW_WIRE_WINDOW_MAX < sw then CW_WIRE_WINDOW_MAX else sw);
          cw = (if conn_window < sw then sw else conn_window);
          cw = (if CW_WIRE_WINDOW_MAX < cw then CW_WIRE_WINDOW_MAX else cw)
      in \<lparr>generation = (if gen < 1 then 1 else gen), max_streams = maxs,
          init_stream_window = sw, conn_win = (\<lambda>_. cw), revoked = False, superseded = False,
          n_active = 0, n_services = 0, services = no_services,
          streams = replicate (unat CW_WIRE_MAX_STREAMS) zero_stream\<rparr>)"

definition open_stream :: "u32 \<Rightarrow> string option \<Rightarrow> cw_session \<Rightarrow> cw_rc \<times> cw_session" where
  "open_stream sid service_id s =
     (if service_id = None then (RC_USAGE, s)
      else if superseded s then (RC_ERR CW_ERR_GENERATION, s)
      else if revoked s then (RC_ERR CW_ERR_REVOKED, s)
      else if sid = 0 then (RC_ERR CW_ERR_PROTOCOL, s)
      else if find_slot s sid \<noteq> None then (RC_ERR CW_ERR_PROTOCOL, s)
      else if \<not> has_service service_id s then (RC_ERR CW_ERR_SERVICE, s)
      else if sint (max_streams s) \<le> n_active s then (RC_ERR CW_ERR_STREAM_LIMIT, s)
      else case alloc_slot s of
             None \<Rightarrow> (RC_ERR CW_ERR_STREAM_LIMIT, s)
           | Some i \<Rightarrow>
               (RC_OK, (put_stream i (zero_stream\<lparr>st_id := sid, st_in_use := True,
                   st_win := (\<lambda>_. init_stream_window s)\<rparr>) s)\<lparr>n_active := n_active s + 1\<rparr>))"

definition resp_stream :: "u32 \<Rightarrow> cw_session \<Rightarrow> cw_rc \<times> cw_session" where
  "resp_stream sid s =
     (case find_slot s sid of
        None \<Rightarrow> (RC_ERR CW_ERR_PROTOCOL, s)
      | Some i \<Rightarrow>
          let st = streams s ! i in
          if st_resp_seen st then (RC_ERR CW_ERR_PROTOCOL, s)
          else if st_fin st CW_DIR_DOWN then (RC_ERR CW_ERR_PROTOCOL, s)
          else (RC_OK, put_stream i (st\<lparr>st_resp_seen := True\<rparr>) s))"

definition end_direction :: "nat \<Rightarrow> cw_dir \<Rightarrow> cw_session \<Rightarrow> cw_session" where
  "end_direction i d s =
     (let st = (streams s ! i)\<lparr>st_fin := (st_fin (streams s ! i))(d := True)\<rparr>;
          s' = put_stream i st s
      in if st_fin st CW_DIR_UP \<and> st_fin st CW_DIR_DOWN then close_stream i s' else s')"

definition data_stream :: "u32 \<Rightarrow> int \<Rightarrow> u32 \<Rightarrow> bool \<Rightarrow> cw_session \<Rightarrow> cw_rc \<times> cw_session" where
  "data_stream sid dir n fin s =
     (case dir_of dir of None \<Rightarrow> (RC_USAGE, s)
      | Some d \<Rightarrow>
        case find_slot s sid of
          None \<Rightarrow> (RC_ERR CW_ERR_PROTOCOL, s)
        | Some i \<Rightarrow>
            let st = streams s ! i in
            if st_fin st d then (RC_ERR CW_ERR_PROTOCOL, s)
            else if d = CW_DIR_DOWN \<and> \<not> st_resp_seen st then (RC_ERR CW_ERR_PROTOCOL, s)
            else if CW_WIRE_FRAME_MAX < n then (RC_ERR CW_ERR_FRAME_TOO_BIG, s)
            else if st_win st d < n \<or> conn_win s d < n then (RC_ERR CW_ERR_FLOW_CONTROL, s)
            else
              let st' = st\<lparr>st_win := (st_win st)(d := st_win st d - n)\<rparr>;
                  s' = (put_stream i st' s)\<lparr>conn_win := (conn_win s)(d := conn_win s d - n)\<rparr>
              in (RC_OK, if fin then end_direction i d s' else s'))"

definition fin_stream :: "u32 \<Rightarrow> int \<Rightarrow> cw_session \<Rightarrow> cw_rc \<times> cw_session" where
  "fin_stream sid dir s =
     (case dir_of dir of None \<Rightarrow> (RC_USAGE, s)
      | Some d \<Rightarrow>
        case find_slot s sid of
          None \<Rightarrow> (RC_ERR CW_ERR_PROTOCOL, s)
        | Some i \<Rightarrow>
            let st = streams s ! i in
            if st_fin st d then (RC_ERR CW_ERR_PROTOCOL, s)
            else if d = CW_DIR_DOWN \<and> \<not> st_resp_seen st then (RC_ERR CW_ERR_PROTOCOL, s)
            else (RC_OK, end_direction i d s))"

definition reset_stream :: "u32 \<Rightarrow> cw_session \<Rightarrow> cw_rc \<times> cw_session" where
  "reset_stream sid s =
     (case find_slot s sid of None \<Rightarrow> (RC_OK, s) | Some i \<Rightarrow> (RC_OK, close_stream i s))"

definition window_stream :: "u32 \<Rightarrow> int \<Rightarrow> u32 \<Rightarrow> cw_session \<Rightarrow> cw_rc \<times> cw_session" where
  "window_stream sid dir credit s =
     (case dir_of dir of None \<Rightarrow> (RC_USAGE, s)
      | Some d \<Rightarrow>
        if sid = 0 then
          (case cw_wire_window_add (Some (conn_win s d)) credit of
             None \<Rightarrow> (RC_ERR CW_ERR_FLOW_CONTROL, s)
           | Some w \<Rightarrow> (RC_OK, s\<lparr>conn_win := (conn_win s)(d := w)\<rparr>))
        else
          (case find_slot s sid of
             None \<Rightarrow> (RC_ERR CW_ERR_PROTOCOL, s)
           | Some i \<Rightarrow>
               let st = streams s ! i in
               (case cw_wire_window_add (Some (st_win st d)) credit of
                  None \<Rightarrow> (RC_ERR CW_ERR_FLOW_CONTROL, s)
                | Some w \<Rightarrow> (RC_OK, put_stream i (st\<lparr>st_win := (st_win st)(d := w)\<rparr>) s))))"

definition close_all :: "cw_session \<Rightarrow> cw_session" where
  "close_all s = s\<lparr>streams := replicate (unat CW_WIRE_MAX_STREAMS) zero_stream, n_active := 0\<rparr>"

definition supersede_session :: "u32 \<Rightarrow> cw_session \<Rightarrow> cw_rc \<times> cw_session" where
  "supersede_session new_generation s =
     (if new_generation \<le> generation s then (RC_ERR CW_ERR_PROTOCOL, s)
      else (RC_OK, close_all (s\<lparr>generation := new_generation, superseded := True\<rparr>)))"

definition revoke_session :: "cw_session \<Rightarrow> int \<times> cw_session" where
  "revoke_session s = (n_active s, close_all (s\<lparr>revoked := True\<rparr>))"

section \<open>Exported entry points\<close>

text \<open>\<open>deref p f e\<close>: the exported function tests the session pointer first and returns \<open>e\<close> on NULL.\<close>

definition deref :: "cw_session option \<Rightarrow> (cw_session \<Rightarrow> 'r \<times> cw_session) \<Rightarrow> 'r \<Rightarrow>
    'r \<times> cw_session option" where
  "deref p f e = (case p of None \<Rightarrow> (e, None) | Some s \<Rightarrow> (case f s of (r, s') \<Rightarrow> (r, Some s')))"

definition cw_session_set_services where
  "cw_session_set_services p ids n = deref p (set_services ids n) RC_USAGE"

definition cw_session_has_service :: "cw_session option \<Rightarrow> string option \<Rightarrow> bool" where
  "cw_session_has_service p sid = (case p of None \<Rightarrow> False | Some s \<Rightarrow> has_service sid s)"

definition cw_session_open where
  "cw_session_open p sid service_id = deref p (open_stream sid service_id) RC_USAGE"

definition cw_session_on_resp where
  "cw_session_on_resp p sid = deref p (resp_stream sid) RC_USAGE"

definition cw_session_on_data where
  "cw_session_on_data p sid dir n fin = deref p (data_stream sid dir n fin) RC_USAGE"

definition cw_session_on_fin where
  "cw_session_on_fin p sid dir = deref p (fin_stream sid dir) RC_USAGE"

definition cw_session_on_reset where
  "cw_session_on_reset p sid = deref p (reset_stream sid) RC_USAGE"

definition cw_session_on_window where
  "cw_session_on_window p sid dir credit = deref p (window_stream sid dir credit) RC_USAGE"

definition cw_session_supersede where
  "cw_session_supersede p gen = deref p (supersede_session gen) RC_USAGE"

definition cw_session_revoke where
  "cw_session_revoke p = deref p revoke_session (-1)"

definition cw_session_active_streams :: "cw_session option \<Rightarrow> int" where
  "cw_session_active_streams p = (case p of None \<Rightarrow> 0 | Some s \<Rightarrow> n_active s)"

definition cw_session_find :: "cw_session option \<Rightarrow> u32 \<Rightarrow> cw_stream option" where
  "cw_session_find p sid =
     (case p of None \<Rightarrow> None | Some s \<Rightarrow> map_option ((!) (streams s)) (find_slot s sid))"


section \<open>The session as an event machine\<close>

datatype cw_event =
    EvServices "string option list option" int
  | EvOpen u32 "string option"
  | EvResp u32
  | EvData u32 int u32 bool
  | EvFin u32 int
  | EvReset u32
  | EvWindow u32 int u32
  | EvSupersede u32
  | EvRevoke

fun session_event :: "cw_event \<Rightarrow> cw_session \<Rightarrow> cw_rc \<times> cw_session" where
  "session_event (EvServices ids n) s = set_services ids n s"
| "session_event (EvOpen sid service_id) s = open_stream sid service_id s"
| "session_event (EvResp sid) s = resp_stream sid s"
| "session_event (EvData sid dir n fin) s = data_stream sid dir n fin s"
| "session_event (EvFin sid dir) s = fin_stream sid dir s"
| "session_event (EvReset sid) s = reset_stream sid s"
| "session_event (EvWindow sid dir credit) s = window_stream sid dir credit s"
| "session_event (EvSupersede g) s = supersede_session g s"
| "session_event EvRevoke s = (RC_OK, snd (revoke_session s))"

inductive session_reachable :: "cw_session \<Rightarrow> bool" where
  init: "session_reachable (cw_session_init gen maxs sw cw)"
| event: "session_reachable s \<Longrightarrow> session_reachable (snd (session_event e s))"

section \<open>Invariant\<close>

interpretation slots: slot_table st_in_use st_id zero_stream
  by unfold_locales (simp add: zero_stream_def)

text \<open>An open stream has a non-zero id, credit below the ceiling, and is not finished both ways; a
  response that has ended was begun.  A free slot is all zeroes.\<close>

definition stream_ok :: "cw_stream \<Rightarrow> bool" where
  "stream_ok st \<longleftrightarrow>
     (if st_in_use st
      then st_id st \<noteq> 0 \<and> (\<forall>d. st_win st d \<le> CW_WIRE_WINDOW_MAX) \<and>
           \<not> (st_fin st CW_DIR_UP \<and> st_fin st CW_DIR_DOWN) \<and>
           (st_fin st CW_DIR_DOWN \<longrightarrow> st_resp_seen st)
      else st = zero_stream)"

definition session_inv :: "cw_session \<Rightarrow> bool" where
  "session_inv s \<longleftrightarrow>
     length (streams s) = 128 \<and>
     1 \<le> max_streams s \<and> max_streams s \<le> CW_WIRE_MAX_STREAMS \<and>
     1 \<le> generation s \<and>
     1 \<le> init_stream_window s \<and> init_stream_window s \<le> CW_WIRE_WINDOW_MAX \<and>
     (\<forall>d. conn_win s d \<le> CW_WIRE_WINDOW_MAX) \<and>
     (\<forall>st \<in> set (streams s). stream_ok st) \<and>
     slots.unique (streams s) \<and>
     n_active s = int (slots.load (streams s)) \<and>
     n_active s \<le> sint (max_streams s) \<and>
     (revoked s \<or> superseded s \<longrightarrow> n_active s = 0)"

lemma zero_stream_free [simp]: "\<not> st_in_use zero_stream" and zero_stream_ok [simp]: "stream_ok zero_stream"
  by (simp_all add: zero_stream_def stream_ok_def)

lemma find_slot_scan:
  assumes "session_inv s" and "sid \<noteq> 0"
  shows "find_slot s sid = slots.scan (streams s) sid"
  using assms by (simp add: find_slot_def slots.scan_def session_inv_def)

lemma alloc_slot_first_free:
  "session_inv s \<Longrightarrow> alloc_slot s = slots.first_free (streams s)"
  by (simp add: alloc_slot_def slots.first_free_def session_inv_def)

lemma find_slot_Some:
  assumes "session_inv s" and "find_slot s sid = Some i"
  shows "sid \<noteq> 0" and "i < length (streams s)" and "st_in_use (streams s ! i)"
    and "st_id (streams s ! i) = sid" and "stream_ok (streams s ! i)"
proof -
  show "sid \<noteq> 0" using assms(2) by (auto simp: find_slot_def split: if_splits)
  with assms have "slots.scan (streams s) sid = Some i" by (simp add: find_slot_scan)
  from slots.scan_Some [OF this]
  show "i < length (streams s)" "st_in_use (streams s ! i)" "st_id (streams s ! i) = sid"
    by simp_all
  then show "stream_ok (streams s ! i)" using assms(1) by (simp add: session_inv_def)
qed

lemma max_streams_sint:
  "session_inv s \<Longrightarrow> sint (max_streams s) = int (unat (max_streams s))"
  by (rule sint_small) (simp add: session_inv_def word_le_nat_alt)

text \<open>Replacing an open stream by another open, well-formed one with the same id.\<close>

lemma put_stream_inv [inv_intros]:
  assumes "session_inv s" and "find_slot s sid = Some i"
    and "stream_ok st" and "st_in_use st" and "st_id st = sid"
  shows "session_inv (put_stream i st s)"
proof -
  note f = find_slot_Some [OF assms(1,2)]
  have "slots.load ((streams s)[i := st]) = slots.load (streams s)"
    using slots.load_update [OF f(2), of st] f(3) assms(4) by simp
  moreover have "slots.unique ((streams s)[i := st])"
    using assms f by (intro slots.unique_same_key) (auto simp: session_inv_def)
  moreover have "\<forall>x \<in> set ((streams s)[i := st]). stream_ok x"
    using assms(1,3) set_update_subset_insert [of "streams s" i st] by (auto simp: session_inv_def)
  ultimately show ?thesis
    using assms(1) by (auto simp: session_inv_def put_stream_def)
qed

lemma close_stream_inv [inv_intros]:
  assumes "session_inv s" and "i < length (streams s)"
  shows "session_inv (close_stream i s)"
proof (cases "st_in_use (streams s ! i)")
  case True
  have "slots.load ((streams s)[i := zero_stream]) + 1 = slots.load (streams s)"
    using slots.load_update [OF assms(2), of zero_stream] True slots.vacant_free by simp
  moreover have "slots.unique ((streams s)[i := zero_stream])"
    using assms by (intro slots.unique_vacate) (auto simp: session_inv_def)
  moreover have "\<forall>x \<in> set ((streams s)[i := zero_stream]). stream_ok x"
    using assms(1) set_update_subset_insert [of "streams s" i zero_stream]
    by (auto simp: session_inv_def)
  ultimately show ?thesis
    using assms(1) True by (auto simp: session_inv_def close_stream_def)
qed (use assms in \<open>simp add: close_stream_def\<close>)

lemma close_all_inv [inv_intros]:
  assumes "session_inv s" shows "session_inv (close_all s)"
  using assms max_streams_sint [OF assms] by (auto simp: session_inv_def close_all_def)

section \<open>The contract: events over a finite map of open streams\<close>

record cw_spec =
  sp_generation :: u32
  sp_max :: nat
  sp_window :: u32
  sp_conn :: "cw_dir \<Rightarrow> u32"
  sp_revoked :: bool
  sp_superseded :: bool
  sp_services :: "string set"
  sp_open :: "u32 \<rightharpoonup> cw_stream"

definition session_abs :: "cw_session \<Rightarrow> cw_spec" where
  "session_abs s = \<lparr>sp_generation = generation s, sp_max = unat (max_streams s),
     sp_window = init_stream_window s, sp_conn = conn_win s, sp_revoked = revoked s,
     sp_superseded = superseded s, sp_services = set (take (nat (n_services s)) (services s)),
     sp_open = slots.table (streams s)\<rparr>"

definition fresh_stream :: "u32 \<Rightarrow> u32 \<Rightarrow> cw_stream" where
  "fresh_stream sid w = \<lparr>st_id = sid, st_win = (\<lambda>_. w), st_in_use = True, st_resp_seen = False,
     st_fin = (\<lambda>_. False)\<rparr>"

text \<open>The stream \<open>st\<close> stays open in its other direction, or leaves the map when both are done.\<close>

definition spec_end :: "cw_dir \<Rightarrow> cw_stream \<Rightarrow> cw_spec \<Rightarrow> cw_spec" where
  "spec_end d st a =
     (let st' = st\<lparr>st_fin := (st_fin st)(d := True)\<rparr> in
      a\<lparr>sp_open := (sp_open a)(st_id st :=
          (if st_fin st' CW_DIR_UP \<and> st_fin st' CW_DIR_DOWN then None else Some st'))\<rparr>)"

definition may_send :: "cw_dir \<Rightarrow> cw_stream \<Rightarrow> bool" where
  "may_send d st \<longleftrightarrow> \<not> st_fin st d \<and> (d = CW_DIR_DOWN \<longrightarrow> st_resp_seen st)"

fun spec_event :: "cw_event \<Rightarrow> cw_spec \<Rightarrow> cw_rc \<times> cw_spec" where
  "spec_event (EvServices ids n) a =
     (let now = take (nat n) (case ids of None \<Rightarrow> [] | Some xs \<Rightarrow> xs) in
      if 0 \<le> n \<and> n \<le> 64 \<and> (0 < n \<longrightarrow> ids \<noteq> None) \<and> services_ok [] now
      then (RC_OK, a\<lparr>sp_services := set (take (nat n) (map the now @ drop (nat n) no_services))\<rparr>)
      else (RC_USAGE, a\<lparr>sp_services := {}\<rparr>))"
| "spec_event (EvOpen sid service_id) a =
     (case service_id of None \<Rightarrow> (RC_USAGE, a)
      | Some svc \<Rightarrow>
        if sp_superseded a then (RC_ERR CW_ERR_GENERATION, a)
        else if sp_revoked a then (RC_ERR CW_ERR_REVOKED, a)
        else if sid = 0 \<or> sid \<in> dom (sp_open a) then (RC_ERR CW_ERR_PROTOCOL, a)
        else if svc \<notin> sp_services a then (RC_ERR CW_ERR_SERVICE, a)
        else if sp_max a \<le> card (dom (sp_open a)) then (RC_ERR CW_ERR_STREAM_LIMIT, a)
        else (RC_OK, a\<lparr>sp_open := (sp_open a)(sid \<mapsto> fresh_stream sid (sp_window a))\<rparr>))"
| "spec_event (EvResp sid) a =
     (case sp_open a sid of
        Some st \<Rightarrow>
          if st_resp_seen st \<or> st_fin st CW_DIR_DOWN then (RC_ERR CW_ERR_PROTOCOL, a)
          else (RC_OK, a\<lparr>sp_open := (sp_open a)(sid \<mapsto> st\<lparr>st_resp_seen := True\<rparr>)\<rparr>)
      | None \<Rightarrow> (RC_ERR CW_ERR_PROTOCOL, a))"
| "spec_event (EvData sid dir n fin) a =
     (case dir_of dir of None \<Rightarrow> (RC_USAGE, a)
      | Some d \<Rightarrow>
        case sp_open a sid of None \<Rightarrow> (RC_ERR CW_ERR_PROTOCOL, a)
        | Some st \<Rightarrow>
          if \<not> may_send d st then (RC_ERR CW_ERR_PROTOCOL, a)
          else if CW_WIRE_FRAME_MAX < n then (RC_ERR CW_ERR_FRAME_TOO_BIG, a)
          else if st_win st d < n \<or> sp_conn a d < n then (RC_ERR CW_ERR_FLOW_CONTROL, a)
          else
            let st' = st\<lparr>st_win := (st_win st)(d := st_win st d - n)\<rparr>;
                a' = a\<lparr>sp_conn := (sp_conn a)(d := sp_conn a d - n),
                       sp_open := (sp_open a)(sid \<mapsto> st')\<rparr>
            in (RC_OK, if fin then spec_end d st' a' else a'))"
| "spec_event (EvFin sid dir) a =
     (case dir_of dir of None \<Rightarrow> (RC_USAGE, a)
      | Some d \<Rightarrow>
        case sp_open a sid of None \<Rightarrow> (RC_ERR CW_ERR_PROTOCOL, a)
        | Some st \<Rightarrow>
          if \<not> may_send d st then (RC_ERR CW_ERR_PROTOCOL, a) else (RC_OK, spec_end d st a))"
| "spec_event (EvReset sid) a = (RC_OK, a\<lparr>sp_open := (sp_open a)(sid := None)\<rparr>)"
| "spec_event (EvWindow sid dir credit) a =
     (case dir_of dir of None \<Rightarrow> (RC_USAGE, a)
      | Some d \<Rightarrow>
        if sid = 0 then
          if unat (sp_conn a d) + unat credit \<le> 0x7fffffff
          then (RC_OK, a\<lparr>sp_conn := (sp_conn a)(d := sp_conn a d + credit)\<rparr>)
          else (RC_ERR CW_ERR_FLOW_CONTROL, a)
        else
          case sp_open a sid of None \<Rightarrow> (RC_ERR CW_ERR_PROTOCOL, a)
          | Some st \<Rightarrow>
            if unat (st_win st d) + unat credit \<le> 0x7fffffff
            then (RC_OK, a\<lparr>sp_open := (sp_open a)(sid \<mapsto>
                             st\<lparr>st_win := (st_win st)(d := st_win st d + credit)\<rparr>)\<rparr>)
            else (RC_ERR CW_ERR_FLOW_CONTROL, a))"
| "spec_event (EvSupersede g) a =
     (if g \<le> sp_generation a then (RC_ERR CW_ERR_PROTOCOL, a)
      else (RC_OK, a\<lparr>sp_generation := g, sp_superseded := True, sp_open := Map.empty\<rparr>))"
| "spec_event EvRevoke a = (RC_OK, a\<lparr>sp_revoked := True, sp_open := Map.empty\<rparr>)"

section \<open>Simulation of the slot array by the map\<close>

lemma window_add_eq:
  "cw_wire_window_add (Some w) c = (if unat w + unat c \<le> 0x7fffffff then Some (w + c) else None)"
  by (auto simp: cw_wire_window_add_def word_less_nat_alt unat_sub word_le_nat_alt)

lemma table_0: "session_inv s \<Longrightarrow> slots.table (streams s) 0 = None"
  by (rule ccontr) (fastforce simp: session_inv_def slots.table_eq stream_ok_def dest!: nth_mem)

lemma find_slot_table:
  assumes "session_inv s"
  shows "slots.table (streams s) sid = map_option ((!) (streams s)) (find_slot s sid)"
proof (cases "sid = 0")
  case True
  then show ?thesis using table_0 [OF assms] by (simp add: find_slot_def)
next
  case False
  then show ?thesis using assms by (simp add: find_slot_scan slots.table_def)
qed

lemma abs_find:
  assumes "session_inv s"
  shows "sp_open (session_abs s) sid = map_option ((!) (streams s)) (find_slot s sid)"
  using find_slot_table [OF assms] by (simp add: session_abs_def)

lemma abs_conn_win: "sp_conn (session_abs s) = conn_win s"
  and abs_flags: "sp_revoked (session_abs s) = revoked s" "sp_superseded (session_abs s) = superseded s"
  and abs_window: "sp_window (session_abs s) = init_stream_window s"
  by (simp_all add: session_abs_def)

lemma abs_load: "session_inv s \<Longrightarrow> card (dom (sp_open (session_abs s))) = slots.load (streams s)"
  by (simp add: session_abs_def slots.card_table session_inv_def)

lemma abs_put:
  assumes "session_inv s" and "find_slot s sid = Some i" and "st_in_use st" and "st_id st = sid"
  shows "session_abs (put_stream i st s) =
    (session_abs s)\<lparr>sp_open := (sp_open (session_abs s))(sid \<mapsto> st)\<rparr>"
  using assms find_slot_Some [OF assms(1,2)] slots.table_update [of "streams s" i st]
  by (simp add: session_abs_def put_stream_def session_inv_def)

lemma abs_close:
  assumes "session_inv s" and "find_slot s sid = Some i"
  shows "session_abs (close_stream i s) =
    (session_abs s)\<lparr>sp_open := (sp_open (session_abs s))(sid := None)\<rparr>"
  using assms find_slot_Some [OF assms] slots.table_vacate [of "streams s" i]
  by (simp add: session_abs_def close_stream_def session_inv_def)

lemma abs_close_all:
  "session_abs (close_all s) = (session_abs s)\<lparr>sp_open := Map.empty\<rparr>"
  by (simp add: session_abs_def close_all_def)

lemma find_slot_put:
  assumes "session_inv s" and "find_slot s sid = Some i" and "st_in_use st" and "st_id st = sid"
    and "stream_ok st"
  shows "find_slot (put_stream i st s) sid = Some i"
proof -
  note f = find_slot_Some [OF assms(1,2)]
  have inv: "session_inv (put_stream i st s)"
    using assms by (intro put_stream_inv)
  have "slots.scan ((streams s)[i := st]) (st_id ((streams s)[i := st] ! i)) = Some i"
    using inv f assms(3) by (intro slots.scan_unique) (auto simp: session_inv_def put_stream_def)
  then show ?thesis
    using find_slot_scan [OF inv f(1)] f assms(4) by (simp add: put_stream_def)
qed

lemma find_slot_conn [simp]: "find_slot (s\<lparr>conn_win := c\<rparr>) sid = find_slot s sid"
  by (simp add: find_slot_def)

lemma inv_conn:
  "session_inv s \<Longrightarrow> \<forall>d. c d \<le> CW_WIRE_WINDOW_MAX \<Longrightarrow> session_inv (s\<lparr>conn_win := c\<rparr>)"
  by (auto simp: session_inv_def)

lemma abs_conn: "session_abs (s\<lparr>conn_win := c\<rparr>) = (session_abs s)\<lparr>sp_conn := c\<rparr>"
  by (simp add: session_abs_def)

lemma stream_ok_in_use:
  "st_in_use st \<Longrightarrow> stream_ok st \<longleftrightarrow>
     st_id st \<noteq> 0 \<and> (\<forall>d. st_win st d \<le> CW_WIRE_WINDOW_MAX) \<and>
     \<not> (st_fin st CW_DIR_UP \<and> st_fin st CW_DIR_DOWN) \<and> (st_fin st CW_DIR_DOWN \<longrightarrow> st_resp_seen st)"
  by (simp add: stream_ok_def)

lemma end_direction_eq:
  assumes "i < length (streams s)" and "st_in_use (streams s ! i)"
  shows "end_direction i d s =
    (let st = (streams s ! i)\<lparr>st_fin := (st_fin (streams s ! i))(d := True)\<rparr>
     in if st_fin st CW_DIR_UP \<and> st_fin st CW_DIR_DOWN then close_stream i s else put_stream i st s)"
  using assms by (simp add: end_direction_def close_stream_def put_stream_def Let_def)

lemma end_direction_sim:
  assumes inv: "session_inv s" and f: "find_slot s sid = Some i"
    and send: "d = CW_DIR_DOWN \<longrightarrow> st_resp_seen (streams s ! i)"
  shows "session_inv (end_direction i d s)"
    and "session_abs (end_direction i d s) = spec_end d (streams s ! i) (session_abs s)"
proof -
  note fs = find_slot_Some [OF inv f]
  define st where "st = (streams s ! i)\<lparr>st_fin := (st_fin (streams s ! i))(d := True)\<rparr>"
  have eq: "end_direction i d s =
      (if st_fin st CW_DIR_UP \<and> st_fin st CW_DIR_DOWN then close_stream i s else put_stream i st s)"
    using end_direction_eq [OF fs(2,3)] by (simp add: st_def Let_def)
  have st: "st_in_use st" "st_id st = sid" using fs by (simp_all add: st_def)
  have ok: "stream_ok st" if "\<not> (st_fin st CW_DIR_UP \<and> st_fin st CW_DIR_DOWN)"
    using that fs(3,5) send st by (cases d) (auto simp: stream_ok_in_use st_def)
  show "session_inv (end_direction i d s)"
    using eq ok st f inv fs(2) by (auto intro: inv_intros)
  show "session_abs (end_direction i d s) = spec_end d (streams s ! i) (session_abs s)"
    using fs(4) st
    by (auto simp: eq spec_end_def Let_def abs_close [OF inv f] abs_put [OF inv f] st_def [symmetric])
qed

lemma open_stream_sim:
  assumes inv: "session_inv s"
  shows "session_inv (snd (open_stream sid svc s))"
    and "spec_event (EvOpen sid svc) (session_abs s) =
      (fst (open_stream sid svc s), session_abs (snd (open_stream sid svc s)))"
proof -
  have dom: "sid \<in> dom (sp_open (session_abs s)) \<longleftrightarrow> find_slot s sid \<noteq> None"
    by (auto simp: abs_find [OF inv])
  have full: "sint (max_streams s) \<le> n_active s \<longleftrightarrow>
      sp_max (session_abs s) \<le> card (dom (sp_open (session_abs s)))"
  proof -
    have "n_active s = int (slots.load (streams s))" using inv by (simp only: session_inv_def)
    moreover have "sp_max (session_abs s) = unat (max_streams s)" by (simp add: session_abs_def)
    ultimately show ?thesis
      by (simp only: max_streams_sint [OF inv] abs_load [OF inv] of_nat_le_iff)
  qed
  have svc: "has_service svc s \<longleftrightarrow> (\<exists>x. svc = Some x \<and> x \<in> sp_services (session_abs s))"
    by (auto simp: has_service_def session_abs_def split: option.splits)
  have sim: "session_inv (snd (open_stream sid svc s)) \<and>
      spec_event (EvOpen sid svc) (session_abs s) =
        (fst (open_stream sid svc s), session_abs (snd (open_stream sid svc s)))"
  proof (cases "svc \<noteq> None \<and> \<not> superseded s \<and> \<not> revoked s \<and> sid \<noteq> 0 \<and> find_slot s sid = None \<and>
      has_service svc s \<and> \<not> sint (max_streams s) \<le> n_active s")
    case False
    then show ?thesis
      using inv dom full svc
      by (auto simp: open_stream_def session_abs_def split: option.splits)
  next
    case True
    have "card (dom (sp_open (session_abs s))) < sp_max (session_abs s)"
      using True full by simp
    then have "slots.load (streams s) < unat (max_streams s)"
      unfolding abs_load [OF inv] by (simp add: session_abs_def)
    then have "slots.load (streams s) < length (streams s)"
      using inv by (simp add: session_inv_def word_le_nat_alt)
    then obtain i where a: "alloc_slot s = Some i"
      using alloc_slot_first_free [OF inv] slots.first_free_None [of "streams s"] by fastforce
    then have i: "i < length (streams s)" "\<not> st_in_use (streams s ! i)"
      using slots.first_free_Some [of "streams s" i] alloc_slot_first_free [OF inv] by simp_all
    define st where "st = fresh_stream sid (init_stream_window s)"
    have z: "zero_stream\<lparr>st_id := sid, st_in_use := True, st_win := \<lambda>_. init_stream_window s\<rparr> = st"
      by (simp add: zero_stream_def st_def fresh_stream_def)
    have st: "st_in_use st" "st_id st = sid" "stream_ok st"
      using inv True by (simp_all add: st_def fresh_stream_def stream_ok_def session_inv_def)
    have none: "slots.scan (streams s) (st_id st) = None"
      using True find_slot_scan [OF inv, of sid] st(2) by simp
    have u: "slots.unique (streams s)" using inv by (simp add: session_inv_def)
    note occ = slots.table_occupy [OF u i st(1) none]
    have load: "slots.load ((streams s)[i := st]) = Suc (slots.load (streams s))"
      using slots.load_update [OF i(1), of st] i(2) st(1) by simp
    have op: "open_stream sid svc s = (RC_OK, (put_stream i st s)\<lparr>n_active := n_active s + 1\<rparr>)"
      using True a z by (simp add: open_stream_def)
    have "\<forall>x \<in> set ((streams s)[i := st]). stream_ok x"
      using inv st(3) set_update_subset_insert [of "streams s" i st] by (auto simp: session_inv_def)
    then have "session_inv (snd (open_stream sid svc s))"
      using inv True occ(2) load by (auto simp: op session_inv_def put_stream_def)
    moreover have "session_abs (snd (open_stream sid svc s)) =
        (session_abs s)\<lparr>sp_open := (sp_open (session_abs s))(sid \<mapsto> st)\<rparr>"
      using occ(1) st(2) by (simp add: op session_abs_def put_stream_def)
    moreover have "sp_open (session_abs s) sid = None" using True by (simp add: abs_find [OF inv])
    ultimately show ?thesis
      using True full svc op by (auto simp: st_def abs_flags abs_window)
  qed
  then show "session_inv (snd (open_stream sid svc s))"
    and "spec_event (EvOpen sid svc) (session_abs s) =
      (fst (open_stream sid svc s), session_abs (snd (open_stream sid svc s)))" by simp_all
qed

lemma data_stream_sim:
  assumes inv: "session_inv s"
  shows "session_inv (snd (data_stream sid dir n fin s)) \<and>
    spec_event (EvData sid dir n fin) (session_abs s) =
      (fst (data_stream sid dir n fin s), session_abs (snd (data_stream sid dir n fin s)))"
proof (cases "dir_of dir")
  case None
  then show ?thesis using inv by (simp add: data_stream_def)
next
  case (Some d)
  note dir = Some
  show ?thesis
  proof (cases "find_slot s sid")
    case None
    then show ?thesis using inv dir by (simp add: data_stream_def abs_find)
  next
    case (Some i)
    note fs = find_slot_Some [OF inv Some]
    define st where "st = streams s ! i"
    define st' where "st' = st\<lparr>st_win := (st_win st)(d := st_win st d - n)\<rparr>"
    define s' where "s' = (put_stream i st' s)\<lparr>conn_win := (conn_win s)(d := conn_win s d - n)\<rparr>"
    have abs_sid: "sp_open (session_abs s) sid = Some st"
      using abs_find [OF inv] Some by (simp add: st_def)
    have conn: "sp_conn (session_abs s) = conn_win s" by (simp add: session_abs_def)
    show ?thesis
    proof (cases "may_send d st \<and> \<not> CW_WIRE_FRAME_MAX < n \<and> \<not> st_win st d < n \<and> \<not> conn_win s d < n")
      case False
      then show ?thesis using inv dir Some abs_sid conn
        by (auto simp: data_stream_def may_send_def st_def Let_def)
    next
      case True
      have st': "st_in_use st'" "st_id st' = sid"
        using fs by (simp_all add: st'_def st_def)
      have le: "a - n \<le> CW_WIRE_WINDOW_MAX" if "\<not> a < n" "a \<le> CW_WIRE_WINDOW_MAX" for a :: u32
        using that by (simp add: word_le_nat_alt word_less_nat_alt unat_sub)
      have ok: "stream_ok st'"
        using fs(3,5) True le unfolding stream_ok_in_use [OF st'(1)]
        by (simp add: stream_ok_in_use st'_def st_def)
      have inv1: "session_inv (put_stream i st' s)"
        using inv Some ok st' by (rule put_stream_inv)
      have "\<forall>x. ((conn_win s)(d := conn_win s d - n)) x \<le> CW_WIRE_WINDOW_MAX"
        using inv True le by (simp add: session_inv_def)
      then have inv': "session_inv s'" unfolding s'_def using inv1 by (intro inv_conn)
      have f': "find_slot s' sid = Some i"
        unfolding s'_def using find_slot_put [OF inv Some st' ok] by simp
      have at_i: "streams s' ! i = st'"
        using fs(2) by (simp add: s'_def put_stream_def)
      have abs': "session_abs s' = (session_abs s)\<lparr>sp_conn := (conn_win s)(d := conn_win s d - n),
          sp_open := (sp_open (session_abs s))(sid \<mapsto> st')\<rparr>"
        unfolding s'_def abs_conn abs_put [OF inv Some st'] by simp
      have step: "data_stream sid dir n fin s = (RC_OK, if fin then end_direction i d s' else s')"
        using True dir Some
        by (auto simp: data_stream_def may_send_def st_def st'_def s'_def Let_def)
      have resp: "d = CW_DIR_DOWN \<longrightarrow> st_resp_seen (streams s' ! i)"
        using True at_i by (simp add: may_send_def st'_def)
      note e = end_direction_sim [OF inv' f' resp]
      show ?thesis
        using True dir abs_sid conn inv' e
        by (auto simp: step abs' at_i st'_def Let_def)
    qed
  qed
qed

lemma fin_stream_sim:
  assumes inv: "session_inv s"
  shows "session_inv (snd (fin_stream sid dir s)) \<and>
    spec_event (EvFin sid dir) (session_abs s) =
      (fst (fin_stream sid dir s), session_abs (snd (fin_stream sid dir s)))"
  using inv end_direction_sim [OF inv, of sid]
  by (auto simp: fin_stream_def abs_find may_send_def Let_def split: option.splits)

lemma resp_stream_sim:
  assumes inv: "session_inv s"
  shows "session_inv (snd (resp_stream sid s)) \<and>
    spec_event (EvResp sid) (session_abs s) =
      (fst (resp_stream sid s), session_abs (snd (resp_stream sid s)))"
proof (cases "find_slot s sid")
  case None
  then show ?thesis using inv by (simp add: resp_stream_def abs_find)
next
  case (Some i)
  note fs = find_slot_Some [OF inv Some]
  have ok: "stream_ok ((streams s ! i)\<lparr>st_resp_seen := True\<rparr>)"
    using fs(3,5) by (simp add: stream_ok_def)
  show ?thesis
    using Some inv ok fs abs_put [OF inv Some] put_stream_inv [OF inv Some ok]
    by (auto simp: resp_stream_def abs_find Let_def)
qed

lemma window_stream_sim:
  assumes inv: "session_inv s"
  shows "session_inv (snd (window_stream sid dir credit s)) \<and>
    spec_event (EvWindow sid dir credit) (session_abs s) =
      (fst (window_stream sid dir credit s), session_abs (snd (window_stream sid dir credit s)))"
proof (cases "dir_of dir")
  case None
  then show ?thesis using inv by (simp add: window_stream_def)
next
  case (Some d)
  have le: "a + credit \<le> CW_WIRE_WINDOW_MAX" if "unat a + unat credit \<le> 0x7fffffff" for a :: u32
    using that by (simp add: word_le_nat_alt unat_word_ariths)
  have conn: "session_inv (s\<lparr>conn_win := (conn_win s)(d := conn_win s d + credit)\<rparr>)"
    if "unat (conn_win s d) + unat credit \<le> 0x7fffffff"
    using inv le [OF that] by (intro inv_conn) (auto simp: session_inv_def)
  show ?thesis
  proof (cases "sid = 0 \<or> find_slot s sid = None")
    case True
    then show ?thesis
      using Some inv conn
      by (auto simp: window_stream_def window_add_eq abs_find abs_conn abs_conn_win)
  next
    case False
    then obtain i where f: "find_slot s sid = Some i" by auto
    note fs = find_slot_Some [OF inv f]
    define st where "st = (streams s ! i)\<lparr>st_win := (st_win (streams s ! i))(d := st_win (streams s ! i) d + credit)\<rparr>"
    have st: "st_in_use st" "st_id st = sid" using fs by (simp_all add: st_def)
    have ok: "stream_ok st" if "unat (st_win (streams s ! i) d) + unat credit \<le> 0x7fffffff"
      using fs(3,5) le [OF that] unfolding stream_ok_in_use [OF st(1)]
      by (simp add: stream_ok_in_use st_def)
    show ?thesis
      using False Some f inv put_stream_inv [OF inv f ok st] abs_put [OF inv f st]
      by (auto simp: window_stream_def window_add_eq abs_find Let_def st_def)
  qed
qed

lemma reset_stream_sim:
  assumes inv: "session_inv s"
  shows "session_inv (snd (reset_stream sid s)) \<and>
    spec_event (EvReset sid) (session_abs s) =
      (fst (reset_stream sid s), session_abs (snd (reset_stream sid s)))"
proof (cases "find_slot s sid")
  case None
  then have "sp_open (session_abs s) sid = None" by (simp add: abs_find [OF inv])
  then have "(sp_open (session_abs s))(sid := None) = sp_open (session_abs s)" by auto
  then show ?thesis using None inv by (simp add: reset_stream_def)
next
  case (Some i)
  then show ?thesis
    using inv find_slot_Some [OF inv Some] by (auto simp: reset_stream_def abs_close intro: inv_intros)
qed

lemma set_services_sim:
  assumes inv: "session_inv s"
  shows "session_inv (snd (set_services ids n s)) \<and>
    spec_event (EvServices ids n) (session_abs s) =
      (fst (set_services ids n s), session_abs (snd (set_services ids n s)))"
  using inv
  by (auto simp: set_services_def session_abs_def session_inv_def Let_def split: option.splits)

lemma supersede_sim:
  assumes inv: "session_inv s"
  shows "session_inv (snd (supersede_session g s)) \<and>
    spec_event (EvSupersede g) (session_abs s) =
      (fst (supersede_session g s), session_abs (snd (supersede_session g s)))"
  using inv max_streams_sint [OF inv]
  by (auto simp: supersede_session_def session_abs_def session_inv_def close_all_def
      word_le_nat_alt not_le)

lemma revoke_sim:
  assumes inv: "session_inv s"
  shows "session_inv (snd (session_event EvRevoke s)) \<and>
    spec_event EvRevoke (session_abs s) = (RC_OK, session_abs (snd (session_event EvRevoke s)))"
  using inv max_streams_sint [OF inv]
  by (auto simp: revoke_session_def session_abs_def session_inv_def close_all_def)

lemma event_sim:
  assumes "session_inv s"
  shows "session_inv (snd (session_event e s)) \<and>
    spec_event e (session_abs s) = (fst (session_event e s), session_abs (snd (session_event e s)))"
  using assms open_stream_sim [OF assms] data_stream_sim [OF assms] fin_stream_sim [OF assms]
    resp_stream_sim [OF assms] window_stream_sim [OF assms] reset_stream_sim [OF assms]
    set_services_sim [OF assms] supersede_sim [OF assms] revoke_sim [OF assms]
  by (cases e) (simp_all del: spec_event.simps)

lemma init_inv: "session_inv (cw_session_init gen maxs sw cw)"
  by (auto simp: cw_session_init_def Let_def session_inv_def word_le_nat_alt word_less_nat_alt
      max_def sint_small not_less)

lemma reachable_inv: "session_reachable s \<Longrightarrow> session_inv s"
  by (induction rule: session_reachable.induct) (simp_all add: init_inv event_sim)


section \<open>Runs and credit accounting\<close>

fun session_run :: "cw_event list \<Rightarrow> cw_session \<Rightarrow> cw_session" where
  "session_run [] s = s"
| "session_run (e # es) s = session_run es (snd (session_event e s))"

text \<open>Body bytes accepted, and connection credit granted, in direction \<open>d\<close> by one event.\<close>

definition bytes_accepted :: "cw_dir \<Rightarrow> cw_event \<Rightarrow> cw_session \<Rightarrow> nat" where
  "bytes_accepted d e s =
     (case e of EvData sid dir n fin \<Rightarrow>
        if dir_of dir = Some d \<and> fst (session_event e s) = RC_OK then unat n else 0
      | _ \<Rightarrow> 0)"

definition credit_granted :: "cw_dir \<Rightarrow> cw_event \<Rightarrow> cw_session \<Rightarrow> nat" where
  "credit_granted d e s =
     (case e of EvWindow sid dir c \<Rightarrow>
        if sid = 0 \<and> dir_of dir = Some d \<and> fst (session_event e s) = RC_OK then unat c else 0
      | _ \<Rightarrow> 0)"

fun run_total :: "(cw_event \<Rightarrow> cw_session \<Rightarrow> nat) \<Rightarrow> cw_event list \<Rightarrow> cw_session \<Rightarrow> nat" where
  "run_total f [] s = 0"
| "run_total f (e # es) s = f e s + run_total f es (snd (session_event e s))"

lemma conn_win_frame [simp]:
  "conn_win (put_stream i st s) = conn_win s" "conn_win (close_stream i s) = conn_win s"
  "conn_win (end_direction i d s) = conn_win s" "conn_win (close_all s) = conn_win s"
  by (simp_all add: put_stream_def close_stream_def end_direction_def close_all_def Let_def)

lemma conn_step:
  "unat (conn_win (snd (session_event e s)) d) + bytes_accepted d e s =
   unat (conn_win s d) + credit_granted d e s"
proof (cases e)
  case (EvServices ids n)
  then show ?thesis
    by (auto simp: set_services_def bytes_accepted_def credit_granted_def Let_def)
next
  case (EvOpen sid svc)
  then show ?thesis
    by (auto simp: open_stream_def bytes_accepted_def credit_granted_def split: option.splits)
next
  case (EvResp sid)
  then show ?thesis
    by (auto simp: resp_stream_def bytes_accepted_def credit_granted_def Let_def split: option.splits)
next
  case (EvData sid dir n fin)
  then show ?thesis
    by (auto simp: data_stream_def bytes_accepted_def credit_granted_def Let_def unat_sub
        word_le_nat_alt word_less_nat_alt split: option.splits)
next
  case (EvFin sid dir)
  then show ?thesis
    by (auto simp: fin_stream_def bytes_accepted_def credit_granted_def Let_def split: option.splits)
next
  case (EvReset sid)
  then show ?thesis
    by (auto simp: reset_stream_def bytes_accepted_def credit_granted_def split: option.splits)
next
  case (EvWindow sid dir c)
  have "unat (w + c) = unat w + unat c" if "unat w + unat c \<le> 0x7fffffff" for w :: u32
    using that by (simp add: unat_word_ariths)
  with EvWindow show ?thesis
    by (auto simp: window_stream_def window_add_eq bytes_accepted_def credit_granted_def Let_def
        split: option.splits)
qed (auto simp: supersede_session_def revoke_session_def bytes_accepted_def credit_granted_def)

lemma shut_step:
  assumes "revoked s \<or> superseded s"
  shows "revoked (snd (session_event e s)) \<or> superseded (snd (session_event e s))"
proof -
  have "(revoked s \<longrightarrow> revoked (snd (session_event e s))) \<and>
        (superseded s \<longrightarrow> superseded (snd (session_event e s)))"
    by (cases e)
      (auto simp: set_services_def open_stream_def resp_stream_def data_stream_def fin_stream_def
        reset_stream_def window_stream_def supersede_session_def revoke_session_def put_stream_def
        close_stream_def close_all_def end_direction_def Let_def split: option.splits)
  with assms show ?thesis by blast
qed

lemma run_reachable: "session_reachable s \<Longrightarrow> session_reachable (session_run es s)"
  by (induction es arbitrary: s) (auto intro: session_reachable.event)

lemma run_shut:
  "revoked s \<or> superseded s \<Longrightarrow> revoked (session_run es s) \<or> superseded (session_run es s)"
proof (induction es arbitrary: s)
  case (Cons e es)
  show ?case using Cons.IH [OF shut_step [OF Cons.prems]] by simp
qed simp

lemma session_inv_counts:
  assumes "session_inv s"
  shows "n_active s = int (slots.load (streams s))"
    and "n_active s \<le> int (unat (max_streams s))"
    and "unat (max_streams s) \<le> 128"
proof -
  show "n_active s = int (slots.load (streams s))"
    using assms unfolding session_inv_def by blast
  have "n_active s \<le> sint (max_streams s)"
    using assms unfolding session_inv_def by blast
  then show "n_active s \<le> int (unat (max_streams s))"
    by (simp only: max_streams_sint [OF assms])
  have "max_streams s \<le> CW_WIRE_MAX_STREAMS" using assms by (simp only: session_inv_def)
  then show "unat (max_streams s) \<le> 128" by (simp add: word_le_nat_alt)
qed

lemma init_no_slot: "find_slot (cw_session_init sid gen cwin swin) i = None"
  by (auto simp: find_slot_def cw_session_init_def Let_def zero_stream_free find_None_iff)

section \<open>Properties\<close>

text \<open>C15: the 128-slot session refines its contract: in every reachable session each event returns
  the code that the finite-map specification returns, and the resulting slot array stands for the
  resulting map.\<close>

theorem session_refines_map:
  assumes "session_reachable s"
  shows "spec_event e (session_abs s) =
    (fst (session_event e s), session_abs (snd (session_event e s)))"
  using event_sim [OF reachable_inv [OF assms]] by blast

theorem session_refines_map_witness:
  "spec_event (EvOpen 5 (Some ''web'')) (session_abs (cw_session_init 1 2 100 200)) =
     (RC_ERR CW_ERR_SERVICE, session_abs (cw_session_init 1 2 100 200))"
  using session_refines_map [OF session_reachable.init, of "EvOpen 5 (Some ''web'')" 1 2 100 200]
  by (simp add: open_stream_def has_service_def find_slot_def cw_session_init_def Let_def
      zero_stream_def find_None_iff)

text \<open>C39: what holds of every reachable session: the counter of active streams is the number of ids
  that can be found and stays within the limit of at most 128; a found stream carries the id it was
  found under, credit at most 2^31 - 1 both ways, is never closed both ways, and has a response head
  if its response has ended.\<close>

theorem session_invariant:
  assumes "session_reachable s"
  shows "n_active s = int (card {sid. cw_session_find (Some s) sid \<noteq> None}) \<and>
    n_active s \<le> int (unat (max_streams s)) \<and> unat (max_streams s) \<le> 128 \<and>
    (\<forall>sid st. cw_session_find (Some s) sid = Some st \<longrightarrow>
       st_id st = sid \<and> sid \<noteq> 0 \<and> (\<forall>d. unat (st_win st d) \<le> 0x7fffffff) \<and>
       \<not> (st_fin st CW_DIR_UP \<and> st_fin st CW_DIR_DOWN) \<and>
       (st_fin st CW_DIR_DOWN \<longrightarrow> st_resp_seen st))"
proof -
  note inv = reachable_inv [OF assms]
  have find: "cw_session_find (Some s) sid = slots.table (streams s) sid" for sid
    by (simp add: cw_session_find_def find_slot_table [OF inv])
  have "{sid. cw_session_find (Some s) sid \<noteq> None} = dom (slots.table (streams s))"
    by (auto simp: find)
  then have "card {sid. cw_session_find (Some s) sid \<noteq> None} = slots.load (streams s)"
    using inv by (simp add: slots.card_table session_inv_def)
  moreover have "n_active s = int (slots.load (streams s))"
    and "n_active s \<le> int (unat (max_streams s))" and "unat (max_streams s) \<le> 128"
    using session_inv_counts [OF inv] by simp_all
  moreover have "st_id st = sid \<and> sid \<noteq> 0 \<and> (\<forall>d. unat (st_win st d) \<le> 0x7fffffff) \<and>
      \<not> (st_fin st CW_DIR_UP \<and> st_fin st CW_DIR_DOWN) \<and> (st_fin st CW_DIR_DOWN \<longrightarrow> st_resp_seen st)"
    if "cw_session_find (Some s) sid = Some st" for sid st
  proof -
    from that obtain i where "find_slot s sid = Some i" "st = streams s ! i"
      by (auto simp: cw_session_find_def)
    with find_slot_Some [OF inv this(1)] show ?thesis
      by (simp add: stream_ok_in_use word_le_nat_alt)
  qed
  ultimately show ?thesis by simp
qed

theorem session_invariant_witness:
  "n_active (cw_session_init 1 2 100 200) =
     int (card {sid. cw_session_find (Some (cw_session_init 1 2 100 200)) sid \<noteq> None})"
  using session_invariant [OF session_reachable.init, of 1 2 100 200] by blast

text \<open>revocation and supersession are final: once either has happened no event sequence brings a
  stream back, and every further OPEN is refused with exactly that reason.\<close>

theorem session_stays_closed:
  assumes "session_reachable s" and "revoked s \<or> superseded s"
  shows "cw_session_active_streams (Some (session_run es s)) = 0 \<and>
    cw_session_find (Some (session_run es s)) sid = None \<and>
    fst (cw_session_open (Some (session_run es s)) sid (Some svc)) \<in>
      {RC_ERR CW_ERR_GENERATION, RC_ERR CW_ERR_REVOKED}"
proof -
  define t where "t = session_run es s"
  have inv: "session_inv t"
    unfolding t_def by (rule reachable_inv [OF run_reachable [OF assms(1)]])
  have shut: "revoked t \<or> superseded t" unfolding t_def by (rule run_shut [OF assms(2)])
  then have n: "n_active t = 0" using inv unfolding session_inv_def by blast
  then have "card (dom (sp_open (session_abs t))) = 0"
    using abs_load [OF inv] session_inv_counts(1) [OF inv] by simp
  moreover have "finite (dom (sp_open (session_abs t)))"
    by (simp add: session_abs_def slots.dom_table)
  ultimately have "sp_open (session_abs t) = Map.empty" by simp
  then have "cw_session_find (Some t) sid = None"
    using abs_find [OF inv, of sid] by (simp add: cw_session_find_def)
  moreover have "fst (cw_session_open (Some t) sid (Some svc)) \<in>
      {RC_ERR CW_ERR_GENERATION, RC_ERR CW_ERR_REVOKED}"
    using shut by (auto simp: cw_session_open_def deref_def open_stream_def)
  ultimately show ?thesis using n by (simp add: cw_session_active_streams_def t_def)
qed

theorem session_stays_closed_witness:
  "cw_session_active_streams (Some (session_run [EvOpen 7 (Some ''web'')]
      (snd (session_event EvRevoke (cw_session_init 1 2 100 200))))) = 0"
proof -
  have r: "session_reachable (snd (session_event EvRevoke (cw_session_init 1 2 100 200)))"
    by (rule session_reachable.event [OF session_reachable.init])
  have "revoked (snd (session_event EvRevoke (cw_session_init 1 2 100 200)))"
    by (simp add: revoke_session_def close_all_def)
  then show ?thesis using session_stays_closed [OF r, of "[EvOpen 7 (Some ''web'')]"] by blast
qed

text \<open>a refused event has no effect on the session, except that a bad manifest clears the service
  registry (fail closed).\<close>

theorem session_reject_atomic:
  assumes "fst (session_event e s) \<noteq> RC_OK"
  shows "snd (session_event e s) = s \<or>
    (\<exists>ids n. e = EvServices ids n \<and> snd (session_event e s) = s\<lparr>n_services := 0, services := no_services\<rparr>)"
  using assms
  by (cases e)
    (auto simp: set_services_def open_stream_def resp_stream_def data_stream_def fin_stream_def
      reset_stream_def window_stream_def supersede_session_def Let_def split: option.splits)

theorem session_reject_atomic_witness:
  "snd (session_event (EvData 3 1 9 True) (cw_session_init 1 2 100 200)) = cw_session_init 1 2 100 200"
proof -
  have "fst (session_event (EvData 3 1 9 True) (cw_session_init 1 2 100 200)) \<noteq> RC_OK"
    by (simp add: data_stream_def dir_of_def init_no_slot Let_def)
  then show ?thesis using session_reject_atomic by blast
qed

text \<open>Connection-level flow control conserves credit over every run: what is left of the window
  plus the body bytes accepted equals the initial window plus the credit granted, so a peer never
  gets more bytes through than it was given.\<close>

theorem session_flow_conservation:
  "unat (conn_win (session_run es s) d) + run_total (bytes_accepted d) es s =
   unat (conn_win s d) + run_total (credit_granted d) es s"
proof (induction es arbitrary: s)
  case (Cons e es)
  show ?case using Cons.IH [of "snd (session_event e s)"] conn_step [of e s d] by simp
qed simp

text \<open>The service registry is replaced all or nothing: after a successful call exactly the given
  ids are registered, each well-formed and none twice; after a failed one none is.\<close>

theorem set_services_exact:
  assumes "cw_session_set_services (Some s) (Some (map Some ids)) (int (length ids)) = (rc, Some s')"
  shows "(rc = RC_OK \<longrightarrow> length ids \<le> 64 \<and> distinct ids \<and> (\<forall>x \<in> set ids. valid_service_id (Some x)) \<and>
            (\<forall>x. cw_session_has_service (Some s') (Some x) \<longleftrightarrow> x \<in> set ids)) \<and>
         (rc \<noteq> RC_OK \<longrightarrow> (\<forall>x. \<not> cw_session_has_service (Some s') (Some x)))"
proof -
  have ok: "services_ok before (map Some xs) \<Longrightarrow>
      distinct xs \<and> (\<forall>x \<in> set xs. valid_service_id (Some x) \<and> Some x \<notin> set before)"
    for before and xs :: "string list"
    by (induction xs arbitrary: before) fastforce+
  show ?thesis
    using assms ok [of "[]" ids]
    by (auto simp: cw_session_set_services_def deref_def set_services_def Let_def
        cw_session_has_service_def has_service_def split: if_splits)
qed

theorem set_services_exact_witness:
  "\<exists>s'. cw_session_set_services (Some (cw_session_init 1 2 100 200)) (Some (map Some [''web'', ''nas''])) 2 =
     (RC_OK, Some s') \<and> cw_session_has_service (Some s') (Some ''nas'')"
proof -
  obtain s' where e: "cw_session_set_services (Some (cw_session_init 1 2 100 200))
      (Some (map Some [''web'', ''nas''])) (int (length [''web'', ''nas''])) = (RC_OK, Some s')"
    by (simp add: cw_session_set_services_def deref_def set_services_def valid_service_id_def
        alnum_def Let_def upt_rec)
  show ?thesis using set_services_exact [OF e] e by auto
qed

end
