(* ===== verification/Kernel.thy ===== *)
theory Kernel
  imports Prelude
begin

text \<open>
  What the kernel module takes from its environment: the errno values it returns, the results of its
  allocations, the kernel's hash of a word (of which nothing is assumed), the jiffies clock with its
  wrapping comparison, and index-linked lists in arrays.
\<close>

datatype errno =
  EPERM | ENOENT | EINTR | E2BIG | ENOMEM | EBUSY | EINVAL | ERANGE | EOVERFLOW | EOPNOTSUPP | ESHUTDOWN
| EALREADY | ECANCELED | EAGAIN | EIO | ENODEV | EPROTO | EMSGSIZE | EPROTONOSUPPORT | ETIMEDOUT
| E_OTHER u32   \<comment> \<open>a code that the modelled code does not name\<close>

fun errno_code :: "errno \<Rightarrow> u32" where
  "errno_code EPERM = 1"
| "errno_code ENOENT = 2"
| "errno_code EINTR = 4"
| "errno_code EIO = 5"
| "errno_code E2BIG = 7"
| "errno_code EAGAIN = 11"
| "errno_code ENOMEM = 12"
| "errno_code EBUSY = 16"
| "errno_code ENODEV = 19"
| "errno_code EINVAL = 22"
| "errno_code ERANGE = 34"
| "errno_code EPROTO = 71"
| "errno_code EOVERFLOW = 75"
| "errno_code EMSGSIZE = 90"
| "errno_code EPROTONOSUPPORT = 93"
| "errno_code EOPNOTSUPP = 95"
| "errno_code ESHUTDOWN = 108"
| "errno_code ETIMEDOUT = 110"
| "errno_code EALREADY = 114"
| "errno_code ECANCELED = 125"
| "errno_code (E_OTHER c) = c"

definition errno_of_code :: "u32 \<Rightarrow> errno" where
  "errno_of_code c =
     (case List.find (\<lambda>e. errno_code e = c) [EPERM, ENOENT, EINTR, E2BIG, ENOMEM, EBUSY, EINVAL, ERANGE, EOVERFLOW,
        EOPNOTSUPP, ESHUTDOWN, EALREADY, ECANCELED, EAGAIN, EIO, ENODEV, EPROTO, EMSGSIZE, EPROTONOSUPPORT, ETIMEDOUT] of
        Some e \<Rightarrow> e | None \<Rightarrow> E_OTHER c)"

text \<open>An \<open>int\<close> result of a kernel function: \<open>None\<close> is 0, \<open>Some e\<close> is \<open>-e\<close>.\<close>

type_synonym krc = "errno option"

text \<open>Every allocation site of the modelled kernel code; the environment says which of them succeed.  A
  message of v2 rules allocates one node per rule, so that site carries a number; the two automata share
  the sites of their construction, since no request builds both.\<close>

datatype alloc_site =
  A_SET | A_RULES | A_MATCH_CNT | A_STEPS | A_PORTS | A_PATTERNS
| A_BNODES | A_BEDGES | A_BOUTPUTS | A_QUEUE | A_AC | A_AC_NODES | A_AC_EDGES | A_AC_OUTPUTS
| A_DIR_WQ | A_DIR_UPDATE | A_DIR_FAIL | A_NL_REPLY
| A_V2_RULE nat | A_V2_PATS | A_AC_PATS

record kernel_env =
  jiffies :: u64
  hz :: u64
  alloc_ok :: "alloc_site \<Rightarrow> bool"
  jhash_1word :: "u32 \<Rightarrow> u32 \<Rightarrow> u32"

text \<open>\<open>time_after_eq\<close> of \<open>linux/jiffies.h\<close> on a 64-bit \<open>unsigned long\<close>: the sign of the wrapping
  difference.\<close>

definition time_after_eq :: "u64 \<Rightarrow> u64 \<Rightarrow> bool" where
  "time_after_eq a b \<longleftrightarrow> 0 \<le> sint (a - b)"

lemma time_after_eq_refl [simp]: "time_after_eq a a"
  by (simp add: time_after_eq_def)

lemma time_after_eq_add:
  assumes "0 < unat d" and "unat d < 2 ^ 63"
  shows "\<not> time_after_eq a (a + d)"
proof -
  have "0 < uint d" using assms(1) by (metis of_nat_0_less_iff uint_nat)
  moreover have "uint d < 2 ^ 63"
    using assms(2) by (metis nat_less_iff of_nat_numeral of_nat_power uint_nat unat_eq_nat_uint of_nat_less_iff)
  ultimately have "uint (- d) \<ge> 2 ^ 63" and "uint (- d) < 2 ^ 64"
    using uint_lt2p [of "- d"] by (simp_all add: uint_word_ariths zmod_zminus1_eq_if)
  then obtain e where "uint (- d) = 2 ^ 63 + e" "0 \<le> e" "e < 2 ^ 63"
    by (intro that [of "uint (- d) - 2 ^ 63"]) auto
  then have "(uint (- d) + 2 ^ 63) mod 2 ^ 64 < 2 ^ 63"
    by (simp add: mod_add_self1 flip: add.assoc)
  then have "sint (- d) < 0"
    by (simp add: sint_uint signed_take_bit_eq_take_bit_shift take_bit_eq_mod)
  then show ?thesis by (simp add: time_after_eq_def)
qed

section \<open>Lists linked by indices\<close>

text \<open>The loop \<open>for (i = first; i != NONE; i = next[i])\<close>: the indices it visits.  The fuel is one more
  than the first index, and suffices when every link points to an older entry.\<close>

fun chain_upto :: "nat \<Rightarrow> (nat \<Rightarrow> nat option) \<Rightarrow> nat option \<Rightarrow> nat list" where
  "chain_upto 0 nxt e = []"
| "chain_upto (Suc n) nxt None = []"
| "chain_upto (Suc n) nxt (Some i) = i # chain_upto n nxt (nxt i)"

definition older_links :: "(nat \<Rightarrow> nat option) \<Rightarrow> nat \<Rightarrow> bool" where
  "older_links nxt n \<longleftrightarrow> (\<forall>i < n. \<forall>j. nxt i = Some j \<longrightarrow> j < i)"

lemma chain_upto_None [simp]: "chain_upto n nxt None = []"
  by (cases n) simp_all

lemma older_linksD: "older_links nxt n \<Longrightarrow> i < n \<Longrightarrow> nxt i = Some j \<Longrightarrow> j < i"
  by (simp add: older_links_def)

lemma chain_upto_fuel:
  assumes "older_links nxt n" and "i < n" and "i < f" and "i < g"
  shows "chain_upto f nxt (Some i) = chain_upto g nxt (Some i)"
  using assms(2-)
proof (induction i arbitrary: f g rule: less_induct)
  case (less i)
  obtain f' g' where fg: "f = Suc f'" "g = Suc g'"
    using less.prems by (cases f; cases g) auto
  show ?case
  proof (cases "nxt i")
    case (Some j)
    then have "j < i" using older_linksD [OF assms(1) less.prems(1)] by simp
    then have "chain_upto f' nxt (Some j) = chain_upto g' nxt (Some j)"
      using less.prems fg by (intro less.IH) auto
    then show ?thesis using fg Some by simp
  qed (simp add: fg)
qed

lemma chain_upto_bound:
  assumes "older_links nxt n"
  shows "i < n \<Longrightarrow> j \<in> set (chain_upto f nxt (Some i)) \<Longrightarrow> j \<le> i"
proof (induction f arbitrary: i)
  case (Suc f)
  show ?case
  proof (cases "j = i")
    case False
    with Suc.prems obtain k where k: "nxt i = Some k" "j \<in> set (chain_upto f nxt (Some k))"
      by (cases "nxt i") auto
    have "k < i" using older_linksD [OF assms Suc.prems(1) k(1)] .
    then show ?thesis using Suc.IH [OF _ k(2)] Suc.prems(1) by simp
  qed simp
qed simp

text \<open>A chain only looks at the links of the entries up to its first one.\<close>

lemma chain_upto_cong:
  assumes "older_links nxt n"
  shows "i < n \<Longrightarrow> (\<And>j. j < n \<Longrightarrow> nxt' j = nxt j) \<Longrightarrow>
    chain_upto f nxt' (Some i) = chain_upto f nxt (Some i)"
proof (induction f arbitrary: i)
  case (Suc f)
  then show ?case
    using older_linksD [OF assms, of i] by (cases "nxt i") auto
qed simp

end
