(* ===== verification/DirSnapshot.thy ===== *)
theory DirSnapshot
  imports Kernel
begin

text \<open>
  The direction snapshot of the control plane (\<open>jmxd/src/routed/jmx_direction_snapshot.c\<close>): which
  prefixes are behind which LAN interface, which addresses are the router's own, which uplinks are
  registered, and the reference classifier over it; and its encoding for the kernel
  (\<open>route_direction_snapshot_wire\<close> in \<open>jmx_route.c\<close>).

  An array with a count is the list of its first \<open>count\<close> entries; an address is its 16 bytes.  A
  function that returns -1 without touching the snapshot returns \<open>None\<close>.  The kernel module declares
  the same structures (\<open>jmx_direction.h\<close>) and shares these records.
\<close>

unbundle bit_operations_syntax

abbreviation (input) JMX_DIRECTION_SNAPSHOT_VERSION :: u32 where "JMX_DIRECTION_SNAPSHOT_VERSION \<equiv> 1"
abbreviation (input) JMX_DIRECTION_MAX_LAN_PREFIXES :: nat where "JMX_DIRECTION_MAX_LAN_PREFIXES \<equiv> 128"
abbreviation (input) JMX_DIRECTION_MAX_LOCAL_ADDRS :: nat where "JMX_DIRECTION_MAX_LOCAL_ADDRS \<equiv> 128"
abbreviation (input) JMX_DIRECTION_MAX_WANS :: nat where "JMX_DIRECTION_MAX_WANS \<equiv> 255"
abbreviation (input) JMX_DIRECTION_FAMILY_IPV4 :: u8 where "JMX_DIRECTION_FAMILY_IPV4 \<equiv> 4"
abbreviation (input) JMX_DIRECTION_FAMILY_IPV6 :: u8 where "JMX_DIRECTION_FAMILY_IPV6 \<equiv> 6"
abbreviation (input) JMX_DIRECTION_FAMILY_MASK_IPV4 :: u8 where "JMX_DIRECTION_FAMILY_MASK_IPV4 \<equiv> 1"
abbreviation (input) JMX_DIRECTION_FAMILY_MASK_IPV6 :: u8 where "JMX_DIRECTION_FAMILY_MASK_IPV6 \<equiv> 2"

section \<open>Data\<close>

datatype dir_class =
  JMX_DIRECTION_UNKNOWN | JMX_DIRECTION_LAN_WAN | JMX_DIRECTION_LAN_LAN | JMX_DIRECTION_ROUTER_LOCAL
| JMX_DIRECTION_WAN_LOCAL | JMX_DIRECTION_BYPASS | JMX_DIRECTION_NON_GATEWAY

record dir_prefix =
  dp_ifindex :: u32
  dp_family :: u8
  dp_prefix_len :: u8
  dp_address :: bytes

record dir_local_address =
  dl_family :: u8
  dl_address :: bytes

record dir_wan =
  dw_wan_id :: u8
  dw_family_mask :: u8
  dw_registered :: u8
  dw_ifindex :: u32
  dw_route_identity :: u32
  dw_table_id :: u32

record dir_snapshot =
  ds_version :: u32
  ds_generation :: u64
  ds_ready :: u8
  ds_gateway_mode :: u8
  ds_lan_prefixes :: "dir_prefix list"
  ds_local_addresses :: "dir_local_address list"
  ds_wans :: "dir_wan list"

record dir_packet =
  dk_family :: u8
  dk_is_forward :: u8
  dk_ingress_ifindex :: u32
  dk_egress_ifindex :: u32
  dk_egress_route_identity :: u32
  dk_source :: bytes
  dk_destination :: bytes

text \<open>The control plane's packet has two more flags.\<close>

record user_packet = dir_packet +
  dk_is_local_destination :: u8
  dk_is_local_source :: u8

record dir_decision =
  dd_classification :: dir_class
  dd_managed_lan_ingress :: u8
  dd_registered_wan_egress :: u8

section \<open>Addresses and prefixes\<close>

definition family_bytes :: "u8 \<Rightarrow> nat" where
  "family_bytes family =
     (if family = JMX_DIRECTION_FAMILY_IPV4 then 4 else if family = JMX_DIRECTION_FAMILY_IPV6 then 16 else 0)"

definition family_mask_for :: "u8 \<Rightarrow> u8" where
  "family_mask_for family =
     (if family = JMX_DIRECTION_FAMILY_IPV4 then JMX_DIRECTION_FAMILY_MASK_IPV4
      else if family = JMX_DIRECTION_FAMILY_IPV6 then JMX_DIRECTION_FAMILY_MASK_IPV6 else 0)"

text \<open>\<open>(uint8_t)(0xffU << (8U - remainder))\<close>\<close>

definition high_mask :: "nat \<Rightarrow> u8" where
  "high_mask remainder = push_bit (8 - remainder) 0xff"

definition prefix_matches :: "u8 \<Rightarrow> bytes \<Rightarrow> u8 \<Rightarrow> bytes \<Rightarrow> bool" where
  "prefix_matches family network prefix_len address =
     (let n = family_bytes family; full = unat prefix_len div 8; remainder = unat prefix_len mod 8
      in if n = 0 \<or> n * 8 < unat prefix_len then False
         else if full \<noteq> 0 \<and> take full network \<noteq> take full address then False
         else if remainder \<noteq> 0
         then network ! full AND high_mask remainder = address ! full AND high_mask remainder
         else True)"

definition address_equal :: "u8 \<Rightarrow> bytes \<Rightarrow> bytes \<Rightarrow> bool" where
  "address_equal family l r \<longleftrightarrow>
     family_bytes family \<noteq> 0 \<and> take (family_bytes family) l = take (family_bytes family) r"

definition canonicalize_prefix :: "u8 \<Rightarrow> bytes \<Rightarrow> u8 \<Rightarrow> bytes" where
  "canonicalize_prefix family address prefix_len =
     (let n = family_bytes family; full = unat prefix_len div 8; remainder = unat prefix_len mod 8;
          keep = full + (if remainder \<noteq> 0 then 1 else 0)
      in if n = 0 \<or> n * 8 < unat prefix_len then address
         else let address = (if remainder \<noteq> 0 then address[full := address ! full AND high_mask remainder] else address)
              in if keep < n then take keep address @ replicate (n - keep) 0 @ drop n address else address)"

section \<open>Building a snapshot\<close>

definition jmx_direction_snapshot_init :: "u64 \<Rightarrow> bool \<Rightarrow> dir_snapshot" where
  "jmx_direction_snapshot_init generation gateway_mode =
     \<lparr>ds_version = JMX_DIRECTION_SNAPSHOT_VERSION, ds_generation = generation, ds_ready = 1,
      ds_gateway_mode = (if gateway_mode then 1 else 0), ds_lan_prefixes = [], ds_local_addresses = [], ds_wans = []\<rparr>"

definition jmx_direction_snapshot_add_lan_prefix ::
  "u32 \<Rightarrow> u8 \<Rightarrow> bytes \<Rightarrow> u8 \<Rightarrow> dir_snapshot \<Rightarrow> dir_snapshot option" where
  "jmx_direction_snapshot_add_lan_prefix ifindex family address prefix_len snapshot =
     (let n = family_bytes family;
          canonical = canonicalize_prefix family (take n address @ replicate (16 - n) 0) prefix_len
      in if ifindex = 0 \<or> n = 0 \<or> n * 8 < unat prefix_len then None
         else if \<exists>entry \<in> set (ds_lan_prefixes snapshot). dp_ifindex entry = ifindex \<and> dp_family entry = family \<and>
                   dp_prefix_len entry = prefix_len \<and> take n (dp_address entry) = take n canonical
         then Some snapshot
         else if JMX_DIRECTION_MAX_LAN_PREFIXES \<le> length (ds_lan_prefixes snapshot) then None
         else Some (snapshot\<lparr>ds_lan_prefixes := ds_lan_prefixes snapshot @
                [\<lparr>dp_ifindex = ifindex, dp_family = family, dp_prefix_len = prefix_len,
                  dp_address = take n canonical @ replicate (16 - n) 0\<rparr>]\<rparr>))"

definition jmx_direction_snapshot_add_local_address ::
  "u8 \<Rightarrow> bytes \<Rightarrow> dir_snapshot \<Rightarrow> dir_snapshot option" where
  "jmx_direction_snapshot_add_local_address family address snapshot =
     (let n = family_bytes family
      in if n = 0 \<or> JMX_DIRECTION_MAX_LOCAL_ADDRS \<le> length (ds_local_addresses snapshot) then None
         else if \<exists>entry \<in> set (ds_local_addresses snapshot). dl_family entry = family \<and>
                   address_equal family (dl_address entry) address
         then Some snapshot
         else Some (snapshot\<lparr>ds_local_addresses := ds_local_addresses snapshot @
                [\<lparr>dl_family = family, dl_address = take n address @ replicate (16 - n) 0\<rparr>]\<rparr>))"

text \<open>The loop over the uplinks: the first one with the id is overwritten.\<close>

fun update_wan :: "dir_wan \<Rightarrow> dir_wan list \<Rightarrow> dir_wan list option" where
  "update_wan wan [] = None"
| "update_wan wan (entry # entries) =
     (if dw_wan_id entry = dw_wan_id wan then Some (wan # entries)
      else case update_wan wan entries of None \<Rightarrow> None | Some es \<Rightarrow> Some (entry # es))"

definition jmx_direction_snapshot_add_wan ::
  "u8 \<Rightarrow> u8 \<Rightarrow> u32 \<Rightarrow> u32 \<Rightarrow> u32 \<Rightarrow> dir_snapshot \<Rightarrow> dir_snapshot option" where
  "jmx_direction_snapshot_add_wan wan_id family_mask ifindex route_identity table_id snapshot =
     (if wan_id = 0 \<or> family_mask = 0 \<or> (ifindex = 0 \<and> route_identity = 0 \<and> table_id = 0) \<or>
         family_mask AND NOT (JMX_DIRECTION_FAMILY_MASK_IPV4 OR JMX_DIRECTION_FAMILY_MASK_IPV6) \<noteq> 0
      then None
      else let wan = \<lparr>dw_wan_id = wan_id, dw_family_mask = family_mask, dw_registered = 1, dw_ifindex = ifindex,
                 dw_route_identity = route_identity, dw_table_id = table_id\<rparr>
      in case update_wan wan (ds_wans snapshot) of
           Some wans \<Rightarrow> Some (snapshot\<lparr>ds_wans := wans\<rparr>)
         | None \<Rightarrow> if JMX_DIRECTION_MAX_WANS \<le> length (ds_wans snapshot) then None
                   else Some (snapshot\<lparr>ds_wans := ds_wans snapshot @ [wan]\<rparr>))"

definition jmx_direction_snapshot_validate :: "dir_snapshot \<Rightarrow> bool" where
  "jmx_direction_snapshot_validate snapshot =
     (if ds_version snapshot \<noteq> JMX_DIRECTION_SNAPSHOT_VERSION \<or> ds_ready snapshot = 0 \<or> ds_generation snapshot = 0
      then False
      else if ds_gateway_mode snapshot = 0 then True
      else if ds_lan_prefixes snapshot = [] \<or> ds_wans snapshot = [] then False
      else list_all (\<lambda>entry. dp_ifindex entry \<noteq> 0 \<and> family_bytes (dp_family entry) \<noteq> 0 \<and>
               unat (dp_prefix_len entry) \<le> family_bytes (dp_family entry) * 8) (ds_lan_prefixes snapshot) \<and>
           list_all (\<lambda>entry. dw_wan_id entry \<noteq> 0 \<and> dw_registered entry \<noteq> 0 \<and>
               (dw_ifindex entry \<noteq> 0 \<or> dw_route_identity entry \<noteq> 0 \<or> dw_table_id entry \<noteq> 0) \<and>
               dw_family_mask entry \<noteq> 0) (ds_wans snapshot))"

section \<open>Classifying a packet\<close>

definition packet_is_local :: "dir_snapshot \<Rightarrow> user_packet \<Rightarrow> bool" where
  "packet_is_local snapshot packet \<longleftrightarrow>
     dk_is_local_destination packet \<noteq> 0 \<or> dk_is_local_source packet \<noteq> 0 \<or>
     (\<exists>entry \<in> set (ds_local_addresses snapshot). dl_family entry = dk_family packet \<and>
        (address_equal (dk_family packet) (dl_address entry) (dk_destination packet) \<or>
         address_equal (dk_family packet) (dl_address entry) (dk_source packet)))"

definition packet_matches_lan_ingress :: "dir_snapshot \<Rightarrow> user_packet \<Rightarrow> bool" where
  "packet_matches_lan_ingress snapshot packet \<longleftrightarrow>
     (\<exists>entry \<in> set (ds_lan_prefixes snapshot). dp_ifindex entry = dk_ingress_ifindex packet \<and>
        dp_family entry = dk_family packet \<and>
        prefix_matches (dk_family packet) (dp_address entry) (dp_prefix_len entry) (dk_source packet))"

definition packet_matches_lan_egress :: "dir_snapshot \<Rightarrow> user_packet \<Rightarrow> bool" where
  "packet_matches_lan_egress snapshot packet \<longleftrightarrow>
     (\<exists>entry \<in> set (ds_lan_prefixes snapshot). dp_ifindex entry = dk_egress_ifindex packet \<and>
        dp_family entry = dk_family packet \<and>
        prefix_matches (dk_family packet) (dp_address entry) (dp_prefix_len entry) (dk_destination packet))"

definition packet_matches_wan_egress :: "dir_snapshot \<Rightarrow> user_packet \<Rightarrow> bool" where
  "packet_matches_wan_egress snapshot packet \<longleftrightarrow>
     (let family_mask = family_mask_for (dk_family packet)
      in family_mask \<noteq> 0 \<and>
         (\<exists>entry \<in> set (ds_wans snapshot). dw_registered entry \<noteq> 0 \<and> dw_family_mask entry AND family_mask \<noteq> 0 \<and>
            ((dw_ifindex entry \<noteq> 0 \<and> dw_ifindex entry = dk_egress_ifindex packet) \<or>
             (dk_egress_route_identity packet \<noteq> 0 \<and> dw_route_identity entry \<noteq> 0 \<and>
              dw_route_identity entry = dk_egress_route_identity packet))))"

definition packet_matches_wan_ingress :: "dir_snapshot \<Rightarrow> user_packet \<Rightarrow> bool" where
  "packet_matches_wan_ingress snapshot packet \<longleftrightarrow>
     (let family_mask = family_mask_for (dk_family packet)
      in family_mask \<noteq> 0 \<and>
         (\<exists>entry \<in> set (ds_wans snapshot). dw_registered entry \<noteq> 0 \<and> dw_family_mask entry AND family_mask \<noteq> 0 \<and>
            dw_ifindex entry = dk_ingress_ifindex packet))"

definition dir_decision_zero :: dir_decision where
  "dir_decision_zero = \<lparr>dd_classification = JMX_DIRECTION_UNKNOWN, dd_managed_lan_ingress = 0, dd_registered_wan_egress = 0\<rparr>"

definition jmx_direction_classify :: "dir_snapshot \<Rightarrow> user_packet \<Rightarrow> dir_decision" where
  "jmx_direction_classify snapshot packet =
     (let decision = dir_decision_zero
      in if ds_version snapshot \<noteq> JMX_DIRECTION_SNAPSHOT_VERSION \<or> ds_ready snapshot = 0 then decision
         else if packet_is_local snapshot packet
         then decision\<lparr>dd_classification := (if packet_matches_wan_ingress snapshot packet
                then JMX_DIRECTION_WAN_LOCAL else JMX_DIRECTION_ROUTER_LOCAL)\<rparr>
         else if ds_gateway_mode snapshot = 0 then decision\<lparr>dd_classification := JMX_DIRECTION_BYPASS\<rparr>
         else if dk_is_forward packet = 0 then decision\<lparr>dd_classification := JMX_DIRECTION_NON_GATEWAY\<rparr>
         else let lan_ingress = packet_matches_lan_ingress snapshot packet;
                  lan_egress = packet_matches_lan_egress snapshot packet;
                  wan_egress = packet_matches_wan_egress snapshot packet;
                  wan_ingress = packet_matches_wan_ingress snapshot packet;
                  decision = decision\<lparr>dd_managed_lan_ingress := (if lan_ingress then 1 else 0),
                    dd_registered_wan_egress := (if wan_egress then 1 else 0)\<rparr>
              in decision\<lparr>dd_classification :=
                   (if lan_ingress \<and> wan_egress then JMX_DIRECTION_LAN_WAN
                    else if lan_ingress \<and> lan_egress then JMX_DIRECTION_LAN_LAN
                    else if wan_ingress \<and> dk_is_local_destination packet \<noteq> 0 then JMX_DIRECTION_WAN_LOCAL
                    else JMX_DIRECTION_UNKNOWN)\<rparr>)"

definition user_gate_candidate :: "dir_decision \<Rightarrow> bool" where
  "user_gate_candidate decision \<longleftrightarrow> dd_managed_lan_ingress decision \<noteq> 0 \<and>
     dd_registered_wan_egress decision \<noteq> 0 \<and> dd_classification decision = JMX_DIRECTION_LAN_WAN"

section \<open>The message to the kernel\<close>

abbreviation (input) JMX_NL_ACT_DIRECTION_SNAPSHOT :: u32 where "JMX_NL_ACT_DIRECTION_SNAPSHOT \<equiv> 44"
abbreviation (input) JMX_DIRECTION_NL_ABI_VERSION :: u16 where "JMX_DIRECTION_NL_ABI_VERSION \<equiv> 1"

definition be64 :: "u64 \<Rightarrow> bytes" where
  "be64 v = [ucast (drop_bit 56 v), ucast (drop_bit 48 v), ucast (drop_bit 40 v), ucast (drop_bit 32 v),
     ucast (drop_bit 24 v), ucast (drop_bit 16 v), ucast (drop_bit 8 v), ucast v]"

definition enc_dir_prefix :: "dir_prefix \<Rightarrow> bytes" where
  "enc_dir_prefix e = be32 (dp_ifindex e) @ [dp_family e, dp_prefix_len e] @ be16 0 @ dp_address e"

definition enc_dir_local :: "dir_local_address \<Rightarrow> bytes" where
  "enc_dir_local e = [dl_family e, 0, 0, 0] @ dl_address e"

definition enc_dir_wan :: "dir_wan \<Rightarrow> bytes" where
  "enc_dir_wan e = [dw_wan_id e, dw_family_mask e, (if dw_registered e \<noteq> 0 then 1 else 0), 0] @
     be32 (dw_ifindex e) @ be32 (dw_route_identity e) @ be32 (dw_table_id e) @ be32 0 @ be32 0"

definition route_direction_snapshot_wire :: "bool \<Rightarrow> dir_snapshot \<Rightarrow> bytes option" where
  "route_direction_snapshot_wire calloc_ok snapshot =
     (if ds_version snapshot \<noteq> JMX_DIRECTION_SNAPSHOT_VERSION \<or> ds_generation snapshot = 0 \<or>
         1 < ds_ready snapshot \<or> 1 < ds_gateway_mode snapshot \<or>
         JMX_DIRECTION_MAX_LAN_PREFIXES < length (ds_lan_prefixes snapshot) \<or>
         JMX_DIRECTION_MAX_LOCAL_ADDRS < length (ds_local_addresses snapshot) \<or>
         JMX_DIRECTION_MAX_WANS < length (ds_wans snapshot) \<or>
         (ds_ready snapshot \<noteq> 0 \<and> \<not> jmx_direction_snapshot_validate snapshot)
      then None
      else let lans = (if ds_ready snapshot \<noteq> 0 then ds_lan_prefixes snapshot else []);
               locals = (if ds_ready snapshot \<noteq> 0 then ds_local_addresses snapshot else []);
               wans = (if ds_ready snapshot \<noteq> 0 then ds_wans snapshot else []);
               wire_len = 30 + length lans * 24 + length locals * 20 + length wans * 24
      in if \<not> calloc_ok then None
         else Some (be32 JMX_NL_ACT_DIRECTION_SNAPSHOT @ be16 JMX_DIRECTION_NL_ABI_VERSION @ be16 30 @
              be32 (word_of_nat wire_len) @ be64 (ds_generation snapshot) @
              [if ds_ready snapshot \<noteq> 0 then 1 else 0, if ds_gateway_mode snapshot \<noteq> 0 then 1 else 0] @
              be16 (word_of_nat (length lans)) @ be16 (word_of_nat (length locals)) @ be16 (word_of_nat (length wans)) @
              be16 0 @ concat (map enc_dir_prefix lans) @ concat (map enc_dir_local locals) @ concat (map enc_dir_wan wans)))"

section \<open>Masks and generations\<close>

text \<open>The bits of a netmask, most significant first: their number when the ones come first.\<close>

fun mask_bits :: "bool list \<Rightarrow> bool \<Rightarrow> nat \<Rightarrow> nat option" where
  "mask_bits [] zero_seen prefix = Some prefix"
| "mask_bits (b # bs) zero_seen prefix =
     (if b then if zero_seen then None else mask_bits bs zero_seen (prefix + 1) else mask_bits bs True prefix)"

definition byte_bits :: "u8 \<Rightarrow> bool list" where
  "byte_bits b = map (\<lambda>i. bit b (7 - i)) [0..<8]"

text \<open>The netmask is its address family and bytes; a missing one is \<open>None\<close>.\<close>

definition prefix_len_from_netmask :: "u8 \<Rightarrow> (u8 \<times> bytes) option \<Rightarrow> nat option" where
  "prefix_len_from_netmask family netmask =
     (case netmask of None \<Rightarrow> None
      | Some (mask_family, bs) \<Rightarrow>
          if family_bytes family = 0 \<or> mask_family \<noteq> family then None
          else mask_bits (concat (map byte_bits (take (family_bytes family) bs))) False 0)"

definition direction_next_generation_user :: "u64 \<Rightarrow> u64" where
  "direction_next_generation_user current = (if current = 0xffffffffffffffff then 1 else current + 1)"

section \<open>Building from the configuration\<close>

text \<open>What the builder reads from JSON, from the resolver of interface names and from \<open>getifaddrs\<close> is an
  argument: an address of a LAN as \<open>parse_prefix_value\<close> returns it, and the interface addresses of the
  running system with the index of their interface.\<close>

type_synonym parsed_prefix = "(u8 \<times> bytes \<times> u8) option"

record ifaddr =
  ia_ifindex :: u32
  ia_address :: "(u8 \<times> bytes) option"
  ia_netmask :: "(u8 \<times> bytes) option"

definition add_lan_address :: "u32 \<Rightarrow> parsed_prefix \<Rightarrow> dir_snapshot \<Rightarrow> int \<times> dir_snapshot" where
  "add_lan_address ifindex parsed snapshot =
     (case parsed of None \<Rightarrow> (0, snapshot)
      | Some (family, address, prefix_len) \<Rightarrow>
          (case jmx_direction_snapshot_add_lan_prefix ifindex family address prefix_len snapshot of
             None \<Rightarrow> (-1, snapshot)
           | Some snapshot \<Rightarrow>
               (case jmx_direction_snapshot_add_local_address family address snapshot of
                  None \<Rightarrow> (-1, snapshot)
                | Some snapshot \<Rightarrow> (1, snapshot))))"

fun add_runtime_loop :: "u32 \<Rightarrow> ifaddr list \<Rightarrow> int \<Rightarrow> dir_snapshot \<Rightarrow> int \<times> dir_snapshot" where
  "add_runtime_loop ifindex [] added snapshot = (added, snapshot)"
| "add_runtime_loop ifindex (ifa # rest) added snapshot =
     (if ia_ifindex ifa \<noteq> ifindex then add_runtime_loop ifindex rest added snapshot
      else case ia_address ifa of
        None \<Rightarrow> add_runtime_loop ifindex rest added snapshot
      | Some (family, address) \<Rightarrow>
          (case prefix_len_from_netmask family (ia_netmask ifa) of
             None \<Rightarrow> add_runtime_loop ifindex rest added snapshot
           | Some prefix_len \<Rightarrow>
               (case add_lan_address ifindex (Some (family, address, word_of_nat prefix_len)) snapshot of
                  (rc, snapshot) \<Rightarrow>
                    if rc < 0 then (-1, snapshot) else add_runtime_loop ifindex rest (added + 1) snapshot)))"

definition add_runtime_lan_addresses :: "u32 \<Rightarrow> ifaddr list option \<Rightarrow> dir_snapshot \<Rightarrow> int \<times> dir_snapshot" where
  "add_runtime_lan_addresses ifindex ifaddrs snapshot =
     (case ifaddrs of None \<Rightarrow> (0, snapshot)
      | Some ifas \<Rightarrow> if ifindex = 0 then (0, snapshot) else add_runtime_loop ifindex ifas 0 snapshot)"

fun add_lan_addresses :: "u32 \<Rightarrow> parsed_prefix list \<Rightarrow> int \<Rightarrow> dir_snapshot \<Rightarrow> int \<times> dir_snapshot" where
  "add_lan_addresses ifindex [] added snapshot = (added, snapshot)"
| "add_lan_addresses ifindex (p # ps) added snapshot =
     (case add_lan_address ifindex p snapshot of (rc, snapshot) \<Rightarrow> add_lan_addresses ifindex ps (added + rc) snapshot)"

text \<open>Whether the LAN entry is accepted, and the snapshot, which is extended even when it is not.\<close>

definition build_lan_entry ::
  "u32 \<Rightarrow> parsed_prefix list \<Rightarrow> ifaddr list option \<Rightarrow> dir_snapshot \<Rightarrow> bool \<times> dir_snapshot" where
  "build_lan_entry ifindex addresses ifaddrs snapshot =
     (if ifindex = 0 then (False, snapshot)
      else case add_lan_addresses ifindex addresses 0 snapshot of
        (added, snapshot) \<Rightarrow>
          (case add_runtime_lan_addresses ifindex ifaddrs snapshot of
             (i, snapshot) \<Rightarrow> if i < 0 then (False, snapshot) else (added + i \<noteq> 0, snapshot)))"

definition build_wan_entry :: "int \<Rightarrow> u32 \<Rightarrow> u32 \<Rightarrow> u32 \<Rightarrow> int \<Rightarrow> dir_snapshot \<Rightarrow> dir_snapshot option" where
  "build_wan_entry wan_id ifindex route_identity table_id family_mask snapshot =
     (if wan_id \<le> 0 \<or> 255 < wan_id \<or> (ifindex = 0 \<and> route_identity = 0 \<and> table_id = 0) then None
      else jmx_direction_snapshot_add_wan (word_of_int wan_id) (word_of_int family_mask) ifindex route_identity table_id
        snapshot)"

record lan_input =
  li_ifindex :: u32
  li_addresses :: "parsed_prefix list"
  li_ifaddrs :: "ifaddr list option"

record wan_input =
  wi_id :: int
  wi_ifindex :: u32
  wi_route_identity :: u32
  wi_table :: u32
  wi_family_mask :: int

fun build_lans :: "lan_input list \<Rightarrow> dir_snapshot \<Rightarrow> bool \<times> dir_snapshot" where
  "build_lans [] snapshot = (True, snapshot)"
| "build_lans (lan # lans) snapshot =
     (case build_lan_entry (li_ifindex lan) (li_addresses lan) (li_ifaddrs lan) snapshot of
        (False, snapshot) \<Rightarrow> (False, snapshot\<lparr>ds_ready := 0\<rparr>)
      | (True, snapshot) \<Rightarrow> build_lans lans snapshot)"

fun build_wans :: "wan_input list \<Rightarrow> dir_snapshot \<Rightarrow> bool \<times> dir_snapshot" where
  "build_wans [] snapshot = (True, snapshot)"
| "build_wans (wan # wans) snapshot =
     (case build_wan_entry (wi_id wan) (wi_ifindex wan) (wi_route_identity wan) (wi_table wan) (wi_family_mask wan)
             snapshot of
        None \<Rightarrow> (False, snapshot\<lparr>ds_ready := 0\<rparr>)
      | Some snapshot \<Rightarrow> build_wans wans snapshot)"

text \<open>The JSON arrays are \<open>None\<close> when the value is missing or not an array.\<close>

definition jmx_direction_snapshot_build ::
  "lan_input list option \<Rightarrow> wan_input list option \<Rightarrow> bool \<Rightarrow> u64 \<Rightarrow> bool \<times> dir_snapshot option" where
  "jmx_direction_snapshot_build lans wans gateway_mode generation =
     (if generation = 0 then (False, None)
      else let out = jmx_direction_snapshot_init generation gateway_mode
      in if \<not> gateway_mode then (True, Some (out\<lparr>ds_ready := 1\<rparr>))
         else case (lans, wans) of
           (Some (l # ls), Some (w # ws)) \<Rightarrow>
             (case build_lans (l # ls) out of
                (False, out) \<Rightarrow> (False, Some out)
              | (True, out) \<Rightarrow>
                  (case build_wans (w # ws) out of
                     (False, out) \<Rightarrow> (False, Some out)
                   | (True, out) \<Rightarrow>
                       if jmx_direction_snapshot_validate out then (True, Some out)
                       else (False, Some (out\<lparr>ds_ready := 0\<rparr>))))
         | _ \<Rightarrow> (False, Some (out\<lparr>ds_ready := 0\<rparr>)))"

end
