(* ===== verification/DirKernel.thy ===== *)
theory DirKernel
  imports DirSnapshot
begin

text \<open>
  The kernel's consumer of direction snapshots (\<open>jmx/src/jmx_direction.c\<close>): two slots of which one is
  active, a work queue that publishes received snapshots, the parser of the netlink message, and the
  classifier the forwarding hook runs on every packet.

  The mutex and the single-threaded work queue make a publication one step here; the theory
  \<open>DirStore\<close> splits it and lets readers run in between.  A queued update is its snapshot.
\<close>

unbundle bit_operations_syntax

section \<open>State\<close>

record dir_runtime =
  dr_slots :: "dir_snapshot list"
  dr_active_slot :: nat
  dr_wq :: "dir_snapshot list option"
  dr_initialized :: bool

record kernel_decision = dir_decision +
  kd_ready :: u8
  kd_gateway_mode :: u8
  kd_generation :: u64

section \<open>Matching\<close>

definition direction_family_bytes :: "u8 \<Rightarrow> nat" where
  "direction_family_bytes family =
     (if family = JMX_DIRECTION_FAMILY_IPV4 then 4 else if family = JMX_DIRECTION_FAMILY_IPV6 then 16 else 0)"

definition direction_family_mask :: "u8 \<Rightarrow> u8" where
  "direction_family_mask family =
     (if family = JMX_DIRECTION_FAMILY_IPV4 then JMX_DIRECTION_FAMILY_MASK_IPV4
      else if family = JMX_DIRECTION_FAMILY_IPV6 then JMX_DIRECTION_FAMILY_MASK_IPV6 else 0)"

definition direction_prefix_matches :: "u8 \<Rightarrow> bytes \<Rightarrow> u8 \<Rightarrow> bytes \<Rightarrow> bool" where
  "direction_prefix_matches family network prefix_len address =
     (let n = direction_family_bytes family; full = unat prefix_len div 8; remainder = unat prefix_len mod 8
      in if n = 0 \<or> n * 8 < unat prefix_len then False
         else if full \<noteq> 0 \<and> take full network \<noteq> take full address then False
         else if remainder \<noteq> 0
         then network ! full AND high_mask remainder = address ! full AND high_mask remainder
         else True)"

definition direction_address_equal :: "u8 \<Rightarrow> bytes \<Rightarrow> bytes \<Rightarrow> bool" where
  "direction_address_equal family l r \<longleftrightarrow>
     direction_family_bytes family \<noteq> 0 \<and> take (direction_family_bytes family) l = take (direction_family_bytes family) r"

definition direction_address_is_local :: "dir_snapshot \<Rightarrow> u8 \<Rightarrow> bytes \<Rightarrow> bool" where
  "direction_address_is_local snapshot family address \<longleftrightarrow>
     (\<exists>entry \<in> set (ds_local_addresses snapshot).
        dl_family entry = family \<and> direction_address_equal family (dl_address entry) address)"

definition direction_lan_ingress :: "dir_snapshot \<Rightarrow> dir_packet \<Rightarrow> bool" where
  "direction_lan_ingress snapshot packet \<longleftrightarrow>
     (\<exists>entry \<in> set (ds_lan_prefixes snapshot). dp_ifindex entry = dk_ingress_ifindex packet \<and>
        dp_family entry = dk_family packet \<and>
        direction_prefix_matches (dk_family packet) (dp_address entry) (dp_prefix_len entry) (dk_source packet))"

definition direction_lan_egress :: "dir_snapshot \<Rightarrow> dir_packet \<Rightarrow> bool" where
  "direction_lan_egress snapshot packet \<longleftrightarrow>
     (\<exists>entry \<in> set (ds_lan_prefixes snapshot). dp_ifindex entry = dk_egress_ifindex packet \<and>
        dp_family entry = dk_family packet \<and>
        direction_prefix_matches (dk_family packet) (dp_address entry) (dp_prefix_len entry) (dk_destination packet))"

definition direction_wan_egress :: "dir_snapshot \<Rightarrow> dir_packet \<Rightarrow> bool" where
  "direction_wan_egress snapshot packet \<longleftrightarrow>
     (let family_mask = direction_family_mask (dk_family packet)
      in family_mask \<noteq> 0 \<and>
         (\<exists>entry \<in> set (ds_wans snapshot). dw_registered entry \<noteq> 0 \<and> dw_family_mask entry AND family_mask \<noteq> 0 \<and>
            ((dw_ifindex entry \<noteq> 0 \<and> dw_ifindex entry = dk_egress_ifindex packet) \<or>
             (dk_egress_route_identity packet \<noteq> 0 \<and> dw_route_identity entry \<noteq> 0 \<and>
              dw_route_identity entry = dk_egress_route_identity packet))))"

definition direction_wan_ingress :: "dir_snapshot \<Rightarrow> dir_packet \<Rightarrow> bool" where
  "direction_wan_ingress snapshot packet \<longleftrightarrow>
     (let family_mask = direction_family_mask (dk_family packet)
      in family_mask \<noteq> 0 \<and>
         (\<exists>entry \<in> set (ds_wans snapshot). dw_registered entry \<noteq> 0 \<and> dw_family_mask entry AND family_mask \<noteq> 0 \<and>
            dw_ifindex entry = dk_ingress_ifindex packet))"

section \<open>Reading the packet\<close>

text \<open>What \<open>skb_header_pointer\<close> of the kernel returns for a header of some size: no pointer, a pointer
  to the header inside the packet, when that part of the packet is in one piece (the buffer of the
  caller is then left as it is), or the caller's buffer, filled with a copy.\<close>

datatype header_access = No_Header | In_Place bytes | Copied bytes

record sk_buff =
  skb_mark :: u32
  skb_protocol :: u16
  skb_header :: "nat \<Rightarrow> header_access"

abbreviation (input) ETH_P_IP :: u16 where "ETH_P_IP \<equiv> 0x0800"
abbreviation (input) ETH_P_IPV6 :: u16 where "ETH_P_IPV6 \<equiv> 0x86dd"

text \<open>The content of a local buffer after the call, given what the stack held before.\<close>

definition header_buffer :: "bytes \<Rightarrow> header_access \<Rightarrow> bytes option" where
  "header_buffer stack access =
     (case access of No_Header \<Rightarrow> None | In_Place _ \<Rightarrow> Some stack | Copied bs \<Rightarrow> Some bs)"

definition address16 :: "bytes \<Rightarrow> bytes" where
  "address16 bs = bs @ replicate (16 - length bs) 0"

text \<open>\<open>iph_stack\<close> and \<open>ip6h_stack\<close> are what the uninitialised locals \<open>iph\<close> and \<open>ip6h\<close> hold; an interface
  that is not given has index 0.  \<open>iph.ihl\<close> is the low nibble of the first byte.\<close>

definition direction_packet_from_skb ::
  "bytes \<Rightarrow> bytes \<Rightarrow> sk_buff \<Rightarrow> u32 option \<Rightarrow> u32 option \<Rightarrow> errno + dir_packet" where
  "direction_packet_from_skb iph_stack ip6h_stack skb in_dev out_dev =
     (let packet = \<lparr>dk_family = 0, dk_is_forward = 1,
            dk_ingress_ifindex = (case in_dev of None \<Rightarrow> 0 | Some i \<Rightarrow> i),
            dk_egress_ifindex = (case out_dev of None \<Rightarrow> 0 | Some i \<Rightarrow> i),
            dk_egress_route_identity = skb_mark skb, dk_source = replicate 16 0, dk_destination = replicate 16 0\<rparr>
      in if skb_protocol skb = ETH_P_IP
         then case header_buffer iph_stack (skb_header skb 20) of
             None \<Rightarrow> Inl EINVAL
           | Some iph \<Rightarrow>
               if iph ! 0 AND 0x0f < 5 then Inl EINVAL
               else Inr (packet\<lparr>dk_family := JMX_DIRECTION_FAMILY_IPV4,
                      dk_source := address16 (take 4 (drop 12 iph)),
                      dk_destination := address16 (take 4 (drop 16 iph))\<rparr>)
         else if skb_protocol skb = ETH_P_IPV6
         then case header_buffer ip6h_stack (skb_header skb 40) of
             None \<Rightarrow> Inl EINVAL
           | Some ip6h \<Rightarrow> Inr (packet\<lparr>dk_family := JMX_DIRECTION_FAMILY_IPV6,
                  dk_source := address16 (take 16 (drop 8 ip6h)),
                  dk_destination := address16 (take 16 (drop 24 ip6h))\<rparr>)
         else Inl EPROTONOSUPPORT)"

section \<open>Validity of a snapshot\<close>

fun distinct_wans :: "u8 list \<Rightarrow> dir_wan list \<Rightarrow> bool" where
  "distinct_wans seen [] = True"
| "distinct_wans seen (entry # entries) =
     (if dw_wan_id entry = 0 \<or> dw_registered entry = 0 \<or> dw_family_mask entry = 0 \<or>
         dw_family_mask entry AND NOT (JMX_DIRECTION_FAMILY_MASK_IPV4 OR JMX_DIRECTION_FAMILY_MASK_IPV6) \<noteq> 0 \<or>
         (dw_ifindex entry = 0 \<and> dw_route_identity entry = 0 \<and> dw_table_id entry = 0) then False
      else if dw_wan_id entry \<in> set seen then False
      else distinct_wans (seen @ [dw_wan_id entry]) entries)"

definition direction_snapshot_valid :: "dir_snapshot \<Rightarrow> bool" where
  "direction_snapshot_valid snapshot =
     (if ds_version snapshot \<noteq> ucast JMX_DIRECTION_NL_ABI_VERSION \<or> ds_generation snapshot = 0 \<or> 1 < ds_ready snapshot \<or>
         1 < ds_gateway_mode snapshot \<or> JMX_DIRECTION_MAX_LAN_PREFIXES < length (ds_lan_prefixes snapshot) \<or>
         JMX_DIRECTION_MAX_LOCAL_ADDRS < length (ds_local_addresses snapshot) \<or>
         JMX_DIRECTION_MAX_WANS < length (ds_wans snapshot)
      then False
      else if ds_ready snapshot = 0
      then ds_lan_prefixes snapshot = [] \<and> ds_local_addresses snapshot = [] \<and> ds_wans snapshot = []
      else if ds_gateway_mode snapshot \<noteq> 0 \<and> (ds_lan_prefixes snapshot = [] \<or> ds_wans snapshot = []) then False
      else list_all (\<lambda>entry. dp_ifindex entry \<noteq> 0 \<and> direction_family_bytes (dp_family entry) \<noteq> 0 \<and>
               unat (dp_prefix_len entry) \<le> direction_family_bytes (dp_family entry) * 8) (ds_lan_prefixes snapshot) \<and>
           list_all (\<lambda>entry. direction_family_bytes (dl_family entry) \<noteq> 0) (ds_local_addresses snapshot) \<and>
           distinct_wans [] (ds_wans snapshot))"

section \<open>Publication\<close>

definition direction_publish_locked :: "dir_snapshot \<Rightarrow> dir_runtime \<Rightarrow> dir_runtime" where
  "direction_publish_locked snapshot rt =
     (let inactive = 1 - dr_active_slot rt
      in rt\<lparr>dr_slots := (dr_slots rt)[inactive := snapshot], dr_active_slot := inactive\<rparr>)"

definition direction_update_workfn :: "dir_snapshot \<Rightarrow> dir_runtime \<Rightarrow> dir_runtime" where
  "direction_update_workfn update rt =
     (if dr_initialized rt \<and> direction_snapshot_valid update then direction_publish_locked update rt else rt)"

text \<open>The work queue runs its oldest entry.\<close>

definition run_direction_work :: "dir_runtime \<Rightarrow> dir_runtime" where
  "run_direction_work rt =
     (case dr_wq rt of
        Some (update # rest) \<Rightarrow> direction_update_workfn update (rt\<lparr>dr_wq := Some rest\<rparr>)
      | _ \<Rightarrow> rt)"

text \<open>A fresh work item is never already queued.\<close>

definition direction_queue_update :: "dir_snapshot \<Rightarrow> dir_runtime \<Rightarrow> krc \<times> dir_runtime" where
  "direction_queue_update update rt =
     (case dr_wq rt of
        None \<Rightarrow> (Some ENODEV, rt)
      | Some queue \<Rightarrow> if \<not> dr_initialized rt then (Some ENODEV, rt) else (None, rt\<lparr>dr_wq := Some (queue @ [update])\<rparr>))"

definition unready_snapshot :: "u64 \<Rightarrow> u8 \<Rightarrow> dir_snapshot" where
  "unready_snapshot generation gateway_mode =
     \<lparr>ds_version = ucast JMX_DIRECTION_NL_ABI_VERSION, ds_generation = generation, ds_ready = 0,
      ds_gateway_mode = gateway_mode, ds_lan_prefixes = [], ds_local_addresses = [], ds_wans = []\<rparr>"

definition direction_publish_unready_internal :: "u64 \<Rightarrow> u8 \<Rightarrow> dir_runtime \<Rightarrow> dir_runtime" where
  "direction_publish_unready_internal generation gateway_mode rt =
     (let generation = (if generation = 0 then 1 else generation)
      in direction_publish_locked (unready_snapshot generation (if gateway_mode \<noteq> 0 then 1 else 0)) rt)"

definition jmx_direction_init :: "kernel_env \<Rightarrow> krc \<times> dir_runtime" where
  "jmx_direction_init env =
     (let blank = unready_snapshot 1 0
      in if \<not> alloc_ok env A_DIR_WQ
         then (Some ENOMEM, \<lparr>dr_slots = [blank\<lparr>ds_version := 0, ds_generation := 0\<rparr>, blank\<lparr>ds_version := 0, ds_generation := 0\<rparr>],
                dr_active_slot = 0, dr_wq = None, dr_initialized = False\<rparr>)
         else (None, \<lparr>dr_slots = [blank, blank], dr_active_slot = 0, dr_wq = Some [], dr_initialized = True\<rparr>))"

text \<open>Unloading lets the queued work run, with \<open>initialized\<close> already false.\<close>

definition jmx_direction_exit :: "dir_runtime \<Rightarrow> dir_runtime" where
  "jmx_direction_exit rt =
     (let rt = rt\<lparr>dr_initialized := False\<rparr>
      in case dr_wq rt of None \<Rightarrow> rt
         | Some queue \<Rightarrow> (fold direction_update_workfn queue rt)\<lparr>dr_wq := None\<rparr>)"

definition jmx_direction_publish_snapshot :: "dir_snapshot \<Rightarrow> dir_runtime \<Rightarrow> krc \<times> dir_runtime" where
  "jmx_direction_publish_snapshot snapshot rt =
     (if \<not> dr_initialized rt \<or> \<not> direction_snapshot_valid snapshot then (Some EINVAL, rt)
      else (None, direction_publish_locked snapshot rt))"

definition jmx_direction_publish_unready :: "u64 \<Rightarrow> u8 \<Rightarrow> dir_runtime \<Rightarrow> krc \<times> dir_runtime" where
  "jmx_direction_publish_unready generation gateway_mode rt =
     (if \<not> dr_initialized rt then (Some ENODEV, rt)
      else (None, direction_publish_unready_internal generation gateway_mode rt))"

definition active_snapshot :: "dir_runtime \<Rightarrow> dir_snapshot" where
  "active_snapshot rt = dr_slots rt ! dr_active_slot rt"

definition jmx_direction_current_generation :: "dir_runtime \<Rightarrow> u64" where
  "jmx_direction_current_generation rt = (if \<not> dr_initialized rt then 0 else ds_generation (active_snapshot rt))"

section \<open>Classification\<close>

definition kernel_decision_zero :: kernel_decision where
  "kernel_decision_zero = \<lparr>dd_classification = JMX_DIRECTION_UNKNOWN, dd_managed_lan_ingress = 0,
     dd_registered_wan_egress = 0, kd_ready = 0, kd_gateway_mode = 0, kd_generation = 0\<rparr>"

text \<open>The read-side section: from the load of the snapshot to the label \<open>out\<close>.\<close>

definition direction_decide :: "dir_snapshot \<Rightarrow> dir_packet \<Rightarrow> kernel_decision" where
  "direction_decide snapshot packet =
     (let decision = kernel_decision_zero\<lparr>kd_generation := ds_generation snapshot, kd_ready := ds_ready snapshot,
            kd_gateway_mode := ds_gateway_mode snapshot\<rparr>
      in if ds_ready snapshot = 0 \<or> ds_generation snapshot = 0 \<or>
            (ds_gateway_mode snapshot \<noteq> 0 \<and> (ds_lan_prefixes snapshot = [] \<or> ds_wans snapshot = []))
         then decision
         else if ds_gateway_mode snapshot = 0 then decision\<lparr>dd_classification := JMX_DIRECTION_BYPASS\<rparr>
         else let lan_ingress = direction_lan_ingress snapshot packet;
                  lan_egress = direction_lan_egress snapshot packet;
                  wan_ingress = direction_wan_ingress snapshot packet;
                  wan_egress = direction_wan_egress snapshot packet;
                  decision = decision\<lparr>dd_managed_lan_ingress := (if lan_ingress then 1 else 0),
                    dd_registered_wan_egress := (if wan_egress then 1 else 0)\<rparr>;
                  source_local = direction_address_is_local snapshot (dk_family packet) (dk_source packet);
                  destination_local = direction_address_is_local snapshot (dk_family packet) (dk_destination packet)
              in if destination_local \<or> source_local
                 then decision\<lparr>dd_classification := (if wan_ingress then JMX_DIRECTION_WAN_LOCAL else JMX_DIRECTION_ROUTER_LOCAL)\<rparr>
                 else if dk_is_forward packet = 0 then decision\<lparr>dd_classification := JMX_DIRECTION_NON_GATEWAY\<rparr>
                 else if lan_ingress \<and> wan_egress then decision\<lparr>dd_classification := JMX_DIRECTION_LAN_WAN\<rparr>
                 else if lan_ingress \<and> lan_egress then decision\<lparr>dd_classification := JMX_DIRECTION_LAN_LAN\<rparr>
                 else decision)"

definition jmx_direction_classify_skb ::
  "bytes \<Rightarrow> bytes \<Rightarrow> dir_runtime \<Rightarrow> sk_buff \<Rightarrow> u32 option \<Rightarrow> u32 option \<Rightarrow> krc \<times> kernel_decision" where
  "jmx_direction_classify_skb iph_stack ip6h_stack rt skb in_dev out_dev =
     (case direction_packet_from_skb iph_stack ip6h_stack skb in_dev out_dev of
        Inl e \<Rightarrow> (Some e, kernel_decision_zero)
      | Inr packet \<Rightarrow>
          if \<not> dr_initialized rt then (Some ENODEV, kernel_decision_zero)
          else (None, direction_decide (active_snapshot rt) packet))"

definition jmx_direction_is_gate_candidate :: "kernel_decision \<Rightarrow> bool" where
  "jmx_direction_is_gate_candidate decision \<longleftrightarrow> kd_ready decision \<noteq> 0 \<and> kd_gateway_mode decision \<noteq> 0 \<and>
     dd_managed_lan_ingress decision \<noteq> 0 \<and> dd_registered_wan_egress decision \<noteq> 0 \<and>
     dd_classification decision = JMX_DIRECTION_LAN_WAN"

text \<open>The statistics counters that an observed packet increments.\<close>

datatype gate_stat = Stat_unknown | Stat_fail_open | Stat_unready | Stat_lan_wan

definition jmx_direction_observe_skb ::
  "bytes \<Rightarrow> bytes \<Rightarrow> dir_runtime \<Rightarrow> sk_buff \<Rightarrow> u32 option \<Rightarrow> u32 option \<Rightarrow> gate_stat list" where
  "jmx_direction_observe_skb iph_stack ip6h_stack rt skb in_dev out_dev =
     (case jmx_direction_classify_skb iph_stack ip6h_stack rt skb in_dev out_dev of
        (rc, decision) \<Rightarrow>
          if rc \<noteq> None then [Stat_unknown, Stat_fail_open]
          else if kd_ready decision = 0 then [Stat_unready, Stat_fail_open]
          else if dd_classification decision = JMX_DIRECTION_UNKNOWN then [Stat_unknown, Stat_fail_open]
          else if jmx_direction_is_gate_candidate decision then [Stat_lan_wan]
          else [Stat_fail_open])"

section \<open>The netlink message\<close>

definition get_be16_at :: "bytes \<Rightarrow> nat \<Rightarrow> u16" where
  "get_be16_at bs i = get_be16 (bs ! i) (bs ! (i + 1))"

definition get_be32_at :: "bytes \<Rightarrow> nat \<Rightarrow> u32" where
  "get_be32_at bs i = get_be32 (bs ! i) (bs ! (i + 1)) (bs ! (i + 2)) (bs ! (i + 3))"

definition direction_wire_be64 :: "bytes \<Rightarrow> nat \<Rightarrow> u64" where
  "direction_wire_be64 bs i = (push_bit 32 (ucast (get_be32_at bs i)) OR ucast (get_be32_at bs (i + 4)))"

definition direction_next_generation :: "dir_runtime \<Rightarrow> u64" where
  "direction_next_generation rt =
     (let generation = jmx_direction_current_generation rt
      in if generation = 0xffffffffffffffff then 1 else generation + 1)"

definition direction_fail_unready :: "kernel_env \<Rightarrow> bytes \<Rightarrow> dir_runtime \<Rightarrow> dir_runtime" where
  "direction_fail_unready env data rt =
     (let generation = direction_next_generation rt;
          generation = (if 20 \<le> length data \<and> direction_wire_be64 data 12 \<noteq> 0 then direction_wire_be64 data 12 else generation);
          gateway_mode = (if 21 < length data then (if data ! 21 \<noteq> 0 then 1 else 0) else 1)
      in if \<not> alloc_ok env A_DIR_FAIL then rt\<lparr>dr_initialized := False\<rparr>
         else case direction_queue_update (unready_snapshot generation gateway_mode) rt of
           (None, rt) \<Rightarrow> rt
         | (Some _, rt) \<Rightarrow> rt\<lparr>dr_initialized := False\<rparr>)"

text \<open>The three loops over the records: the entries and the rest of the message.\<close>

fun parse_prefixes :: "nat \<Rightarrow> bytes \<Rightarrow> errno + (dir_prefix list \<times> bytes)" where
  "parse_prefixes 0 cursor = Inr ([], cursor)"
| "parse_prefixes (Suc n) cursor =
     (if get_be16_at cursor 6 \<noteq> 0 then Inl EINVAL
      else let entry = \<lparr>dp_ifindex = get_be32_at cursor 0, dp_family = cursor ! 4, dp_prefix_len = cursor ! 5,
                 dp_address = take 16 (drop 8 cursor)\<rparr>
      in case parse_prefixes n (drop 24 cursor) of Inl e \<Rightarrow> Inl e | Inr (entries, rest) \<Rightarrow> Inr (entry # entries, rest))"

fun parse_locals :: "nat \<Rightarrow> bytes \<Rightarrow> errno + (dir_local_address list \<times> bytes)" where
  "parse_locals 0 cursor = Inr ([], cursor)"
| "parse_locals (Suc n) cursor =
     (if cursor ! 1 \<noteq> 0 \<or> cursor ! 2 \<noteq> 0 \<or> cursor ! 3 \<noteq> 0 then Inl EINVAL
      else let entry = \<lparr>dl_family = cursor ! 0, dl_address = take 16 (drop 4 cursor)\<rparr>
      in case parse_locals n (drop 20 cursor) of Inl e \<Rightarrow> Inl e | Inr (entries, rest) \<Rightarrow> Inr (entry # entries, rest))"

fun parse_wans :: "nat \<Rightarrow> bytes \<Rightarrow> errno + (dir_wan list \<times> bytes)" where
  "parse_wans 0 cursor = Inr ([], cursor)"
| "parse_wans (Suc n) cursor =
     (if cursor ! 3 \<noteq> 0 \<or> get_be32_at cursor 16 \<noteq> 0 \<or> get_be32_at cursor 20 \<noteq> 0 then Inl EINVAL
      else let entry = \<lparr>dw_wan_id = cursor ! 0, dw_family_mask = cursor ! 1, dw_registered = cursor ! 2,
                 dw_ifindex = get_be32_at cursor 4, dw_route_identity = get_be32_at cursor 8,
                 dw_table_id = get_be32_at cursor 12\<rparr>
      in case parse_wans n (drop 24 cursor) of Inl e \<Rightarrow> Inl e | Inr (entries, rest) \<Rightarrow> Inr (entry # entries, rest))"

definition direction_parse_wire :: "bytes \<Rightarrow> errno + dir_snapshot" where
  "direction_parse_wire data =
     (let lan_count = unat (get_be16_at data 22); local_count = unat (get_be16_at data 24); wan_count = unat (get_be16_at data 26)
      in if length data < 30 then Inl EINVAL
         else if get_be32_at data 0 \<noteq> JMX_NL_ACT_DIRECTION_SNAPSHOT \<or> get_be16_at data 4 \<noteq> JMX_DIRECTION_NL_ABI_VERSION \<or>
            get_be16_at data 28 \<noteq> 0 then Inl EPROTONOSUPPORT
         else if get_be16_at data 6 \<noteq> 30 \<or> get_be32_at data 8 \<noteq> word_of_nat (length data) \<or> 1 < data ! 20 \<or> 1 < data ! 21 \<or>
            JMX_DIRECTION_MAX_LAN_PREFIXES < lan_count \<or> JMX_DIRECTION_MAX_LOCAL_ADDRS < local_count \<or>
            JMX_DIRECTION_MAX_WANS < wan_count then Inl EINVAL
         else if 30 + lan_count * 24 + local_count * 20 + wan_count * 24 \<noteq> length data then Inl EMSGSIZE
         else if direction_wire_be64 data 12 = 0 then Inl EINVAL
         else case parse_prefixes lan_count (drop 30 data) of
             Inl e \<Rightarrow> Inl e
           | Inr (lans, cursor) \<Rightarrow>
               (case parse_locals local_count cursor of
                  Inl e \<Rightarrow> Inl e
                | Inr (locals, cursor) \<Rightarrow>
                    (case parse_wans wan_count cursor of
                       Inl e \<Rightarrow> Inl e
                     | Inr (wans, cursor) \<Rightarrow>
                         let snapshot = \<lparr>ds_version = ucast JMX_DIRECTION_NL_ABI_VERSION,
                               ds_generation = direction_wire_be64 data 12, ds_ready = data ! 20,
                               ds_gateway_mode = data ! 21, ds_lan_prefixes = lans, ds_local_addresses = locals,
                               ds_wans = wans\<rparr>
                         in if direction_snapshot_valid snapshot then Inr snapshot else Inl EINVAL)))"

definition jmx_direction_nl_handle :: "kernel_env \<Rightarrow> bytes \<Rightarrow> dir_runtime \<Rightarrow> bool \<times> dir_runtime" where
  "jmx_direction_nl_handle env data rt =
     (if length data < 4 then (False, rt)
      else if get_be32_at data 0 \<noteq> JMX_NL_ACT_DIRECTION_SNAPSHOT then (False, rt)
      else if \<not> dr_initialized rt then (True, rt)
      else if \<not> alloc_ok env A_DIR_UPDATE then (True, rt\<lparr>dr_initialized := False\<rparr>)
      else case direction_parse_wire data of
          Inl _ \<Rightarrow> (True, direction_fail_unready env data rt)
        | Inr snapshot \<Rightarrow>
            (case direction_queue_update snapshot rt of
               (None, rt) \<Rightarrow> (True, rt)
             | (Some _, rt) \<Rightarrow> (True, rt\<lparr>dr_initialized := False\<rparr>)))"

end
