(* ===== verification/DirMatch.thy ===== *)
theory DirMatch
  imports DirKernel
begin

text \<open>
  Correctness of the direction classifiers: prefix matching is agreement of the leading bits, the
  kernel's classifier and the control plane's reference classifier agree on every valid snapshot, and
  what a packet must satisfy to be a gate candidate.
\<close>

unbundle bit_operations_syntax

lemmas dir_family_defs = family_bytes_def direction_family_bytes_def family_mask_for_def direction_family_mask_def

section \<open>Prefixes as bits\<close>

definition addr_bit :: "bytes \<Rightarrow> nat \<Rightarrow> bool" where
  "addr_bit bs i = bit (bs ! (i div 8)) (7 - i mod 8)"

lemma byte_eq_iff: "(a :: u8) = b \<longleftrightarrow> (\<forall>j < 8. bit a (7 - j) = bit b (7 - j))"
proof
  assume all: "\<forall>j < 8. bit a (7 - j) = bit b (7 - j)"
  show "a = b"
  proof (rule bit_word_eqI)
    fix n :: nat
    assume "n < LENGTH(8)"
    then have "7 - (7 - n) = n" "7 - n < 8" by auto
    then show "bit a n = bit b n" using all by metis
  qed
qed simp

lemma bit_high_mask: "r \<le> 8 \<Longrightarrow> bit (high_mask r) n \<longleftrightarrow> 8 - r \<le> n \<and> n < 8"
proof -
  have ff: "(0xff :: u8) = -1" by simp
  show "r \<le> 8 \<Longrightarrow> bit (high_mask r) n \<longleftrightarrow> 8 - r \<le> n \<and> n < 8"
    by (auto simp: high_mask_def ff bit_simps)
qed

lemma mask_eq_iff:
  assumes "0 < r" and "r < 8"
  shows "(a :: u8) AND high_mask r = b AND high_mask r \<longleftrightarrow> (\<forall>j < r. bit a (7 - j) = bit b (7 - j))"
proof -
  have low: "8 - r \<le> 7 - j \<longleftrightarrow> j < r" if "j < 8" for j using that assms by auto
  have "(a AND high_mask r = b AND high_mask r) \<longleftrightarrow>
      (\<forall>j < 8. (bit a (7 - j) \<and> j < r) = (bit b (7 - j) \<and> j < r))"
    unfolding byte_eq_iff [of "a AND high_mask r"] using assms low by (auto simp: bit_and_iff bit_high_mask)
  also have "\<dots> \<longleftrightarrow> (\<forall>j < r. bit a (7 - j) = bit b (7 - j))"
    using order.strict_trans [OF _ assms(2)] by blast
  finally show ?thesis .
qed

lemma bytes_eq_iff:
  assumes "n \<le> length a" and "n \<le> length b"
  shows "take n a = take n b \<longleftrightarrow> (\<forall>i < 8 * n. addr_bit a i = addr_bit b i)"
proof -
  have "take n a = take n b \<longleftrightarrow> (\<forall>k < n. a ! k = b ! k)"
    using assms by (auto simp: list_eq_iff_nth_eq)
  also have "\<dots> \<longleftrightarrow> (\<forall>k < n. \<forall>j < 8. addr_bit a (8 * k + j) = addr_bit b (8 * k + j))"
    by (simp add: byte_eq_iff addr_bit_def)
  also have "\<dots> \<longleftrightarrow> (\<forall>i < 8 * n. addr_bit a i = addr_bit b i)"
  proof
    assume all: "\<forall>k < n. \<forall>j < 8. addr_bit a (8 * k + j) = addr_bit b (8 * k + j)"
    show "\<forall>i < 8 * n. addr_bit a i = addr_bit b i"
    proof (intro allI impI)
      fix i assume "i < 8 * n"
      then have "i div 8 < n" "i mod 8 < 8" "i = 8 * (i div 8) + i mod 8" by auto
      then show "addr_bit a i = addr_bit b i" using all by metis
    qed
  qed auto
  finally show ?thesis .
qed

lemma split_bits:
  assumes "l = 8 * full + (r :: nat)"
  shows "(\<forall>i < l. P i) \<longleftrightarrow> (\<forall>i < 8 * full. P i) \<and> (\<forall>j < r. P (8 * full + j))"
proof
  assume R: "(\<forall>i < 8 * full. P i) \<and> (\<forall>j < r. P (8 * full + j))"
  show "\<forall>i < l. P i"
  proof (intro allI impI)
    fix i assume i: "i < l"
    show "P i"
    proof (cases "i < 8 * full")
      case False
      then have "i = 8 * full + (i - 8 * full)" "i - 8 * full < r" using i assms by auto
      then show ?thesis using R by metis
    qed (use R in blast)
  qed
qed (use assms in auto)

lemma prefix_matches_bits:
  assumes "length network = 16" and "length address = 16"
  shows "prefix_matches family network len address \<longleftrightarrow> family_bytes family \<noteq> 0 \<and> unat len \<le> 8 * family_bytes family \<and>
    (\<forall>i < unat len. addr_bit network i = addr_bit address i)"
proof (cases "family_bytes family \<noteq> 0 \<and> unat len \<le> 8 * family_bytes family")
  case True
  define full r where "full = unat len div 8" and "r = unat len mod 8"
  have l: "unat len = 8 * full + r" and r: "r < 8" by (simp_all add: full_def r_def)
  have f: "full \<le> 16" using True l by (auto simp: family_bytes_def split: if_splits)
  have "prefix_matches family network len address \<longleftrightarrow>
      take full network = take full address \<and>
      (r \<noteq> 0 \<longrightarrow> network ! full AND high_mask r = address ! full AND high_mask r)"
    using True by (auto simp: prefix_matches_def Let_def full_def [symmetric] r_def [symmetric])
  also have "\<dots> \<longleftrightarrow> (\<forall>i < 8 * full. addr_bit network i = addr_bit address i) \<and>
      (\<forall>j < r. addr_bit network (8 * full + j) = addr_bit address (8 * full + j))"
    using bytes_eq_iff [of full network address] f r assms mask_eq_iff [of r] by (cases "r = 0") (simp_all add: addr_bit_def)
  also have "\<dots> \<longleftrightarrow> (\<forall>i < unat len. addr_bit network i = addr_bit address i)"
    using split_bits [OF l, of "\<lambda>i. addr_bit network i = addr_bit address i"] by blast
  finally show ?thesis using True by blast
next
  case False
  then show ?thesis by (auto simp: prefix_matches_def Let_def)
qed

text \<open>The canonical form of a prefix keeps its leading bits and clears the others of the family.\<close>

lemma length_canonicalize: "length address = 16 \<Longrightarrow> length (canonicalize_prefix family address len) = 16"
  by (auto simp: canonicalize_prefix_def Let_def family_bytes_def split: if_splits)

lemma canonical_bits:
  assumes "length address = 16" and "unat len \<le> 8 * family_bytes family" and "family_bytes family \<noteq> 0"
    and "i < 8 * family_bytes family"
  shows "addr_bit (canonicalize_prefix family address len) i \<longleftrightarrow> i < unat len \<and> addr_bit address i"
proof -
  define n full r where "n = family_bytes family" and "full = unat len div 8" and "r = unat len mod 8"
  have l: "unat len = 8 * full + r" and r: "r < 8" by (simp_all add: full_def r_def)
  have n: "n \<le> 16" by (simp add: n_def family_bytes_def)
  define k j where "k = i div 8" and "j = i mod 8"
  have i: "i = 8 * k + j" and j: "j < 8" and k: "k < n" using assms(4) by (auto simp: k_def j_def n_def)
  define a where "a = (if r \<noteq> 0 then address[full := address ! full AND high_mask r] else address)"
  define keep where "keep = full + (if r \<noteq> 0 then 1 else 0)"
  have c: "canonicalize_prefix family address len =
      (if keep < n then take keep a @ replicate (n - keep) 0 @ drop n a else a)"
    using assms(2,3) by (simp add: canonicalize_prefix_def Let_def n_def full_def r_def a_def keep_def)
  have keep: "keep \<le> n" using l r assms(2) by (auto simp: keep_def n_def)
  have len_a: "length a = 16" using assms(1) by (simp add: a_def)
  have nth: "canonicalize_prefix family address len ! k = (if k < keep then a ! k else 0)"
    using k keep n len_a by (auto simp: c nth_append)
  have ak: "a ! k = (if r \<noteq> 0 \<and> k = full then address ! full AND high_mask r else address ! k)"
    using k n assms(1) by (simp add: a_def)
  have "addr_bit (canonicalize_prefix family address len) i \<longleftrightarrow>
      k < keep \<and> bit (a ! k) (7 - j)"
    by (simp add: addr_bit_def k_def [symmetric] j_def [symmetric] nth)
  also have "\<dots> \<longleftrightarrow> i < unat len \<and> bit (address ! k) (7 - j)"
  proof (cases "r \<noteq> 0 \<and> k = full")
    case True
    have "8 - r \<le> 7 - j \<longleftrightarrow> j < r" using j r by auto
    moreover have "a ! k = address ! k AND high_mask r" using True ak by simp
    ultimately have "bit (a ! k) (7 - j) \<longleftrightarrow> j < r \<and> bit (address ! k) (7 - j)"
      using r by (auto simp: bit_and_iff bit_high_mask)
    then show ?thesis using True by (auto simp: keep_def i l)
  next
    case False
    then have "k < keep \<longleftrightarrow> i < unat len" using j r by (auto simp: keep_def i l)
    then show ?thesis using False by (auto simp: ak)
  qed
  finally show ?thesis by (simp add: addr_bit_def k_def [symmetric] j_def [symmetric])
qed

section \<open>The two classifiers\<close>

lemma same_matching [simp]:
  "direction_family_bytes = family_bytes" "direction_family_mask = family_mask_for"
  "direction_prefix_matches = prefix_matches" "direction_address_equal = address_equal"
  by (auto simp: dir_family_defs direction_prefix_matches_def prefix_matches_def direction_address_equal_def
      address_equal_def fun_eq_iff)

lemma truncate_sel [simp]:
  "dk_family (dir_packet.truncate p) = dk_family p" "dk_is_forward (dir_packet.truncate p) = dk_is_forward p"
  "dk_ingress_ifindex (dir_packet.truncate p) = dk_ingress_ifindex p"
  "dk_egress_ifindex (dir_packet.truncate p) = dk_egress_ifindex p"
  "dk_egress_route_identity (dir_packet.truncate p) = dk_egress_route_identity p"
  "dk_source (dir_packet.truncate p) = dk_source p" "dk_destination (dir_packet.truncate p) = dk_destination p"
  by (simp_all add: dir_packet.truncate_def)

lemma same_interfaces:
  fixes p :: user_packet
  shows "direction_lan_ingress s (dir_packet.truncate p) = packet_matches_lan_ingress s p"
    and "direction_lan_egress s (dir_packet.truncate p) = packet_matches_lan_egress s p"
    and "direction_wan_ingress s (dir_packet.truncate p) = packet_matches_wan_ingress s p"
    and "direction_wan_egress s (dir_packet.truncate p) = packet_matches_wan_egress s p"
  by (simp_all add: direction_lan_ingress_def packet_matches_lan_ingress_def direction_lan_egress_def
      packet_matches_lan_egress_def direction_wan_ingress_def packet_matches_wan_ingress_def
      direction_wan_egress_def packet_matches_wan_egress_def)

lemma same_local:
  fixes p :: user_packet
  assumes "dk_is_local_destination p = 0" and "dk_is_local_source p = 0"
  shows "direction_address_is_local s (dk_family p) (dk_destination p) \<or>
    direction_address_is_local s (dk_family p) (dk_source p) \<longleftrightarrow> packet_is_local s p"
  using assms by (auto simp: direction_address_is_local_def packet_is_local_def)

section \<open>Properties\<close>

text \<open>C35: prefix matching is exact.  The byte-and-mask comparison of kernel and control plane accepts an address
  exactly when the prefix length fits the family and the leading bits agree; it gives the same answer for
  the canonical form in which the control plane stores the prefix.\<close>

theorem prefix_match_exact:
  assumes "length network = 16" and "length address = 16"
  shows "(direction_prefix_matches family network len address \<longleftrightarrow>
      family_bytes family \<noteq> 0 \<and> unat len \<le> 8 * family_bytes family \<and>
      (\<forall>i < unat len. addr_bit network i = addr_bit address i)) \<and>
    direction_prefix_matches family (canonicalize_prefix family network len) len address =
      direction_prefix_matches family network len address"
proof -
  have "addr_bit (canonicalize_prefix family network len) i = addr_bit network i"
    if "i < unat len" "family_bytes family \<noteq> 0" "unat len \<le> 8 * family_bytes family" for i
    using canonical_bits [OF assms(1) that(3,2), of i] that by auto
  then show ?thesis
    using prefix_matches_bits [OF assms] prefix_matches_bits [OF length_canonicalize [OF assms(1)] assms(2)] by auto
qed

theorem prefix_match_exact_witness:
  "direction_prefix_matches 4 (canonicalize_prefix 4 ([192, 168, 7, 0] @ replicate 12 0) 23) 23 ([192, 168, 6, 9] @ replicate 12 0)"
proof -
  have "direction_prefix_matches 4 ([192, 168, 7, 0] @ replicate 12 0) 23 ([192, 168, 6, 9] @ replicate 12 0)"
    by (simp add: prefix_matches_def family_bytes_def high_mask_def)
  then show ?thesis
    using prefix_match_exact [of "[192, 168, 7, 0] @ replicate 12 0" "[192, 168, 6, 9] @ replicate 12 0" 4 23]
    by simp
qed

text \<open>C25: the kernel's classifier and the control plane's reference classifier decide alike.  For every snapshot
  the kernel accepts and every packet without a preset local flag, they agree on which packets are gate
  candidates, and for a gateway on the classification; for other modes the kernel answers BYPASS where
  the reference first looks for local addresses.\<close>

theorem classifiers_agree:
  assumes "direction_snapshot_valid s" and "dk_is_local_destination p = 0" and "dk_is_local_source p = 0"
  shows "jmx_direction_is_gate_candidate (direction_decide s (dir_packet.truncate p)) =
      user_gate_candidate (jmx_direction_classify s p) \<and>
    (ds_gateway_mode s \<noteq> 0 \<longrightarrow> dd_classification (direction_decide s (dir_packet.truncate p)) =
      dd_classification (jmx_direction_classify s p)) \<and>
    (ds_gateway_mode s = 0 \<and> ds_ready s \<noteq> 0 \<longrightarrow>
      dd_classification (direction_decide s (dir_packet.truncate p)) = JMX_DIRECTION_BYPASS \<and>
      dd_classification (jmx_direction_classify s p) =
        (if \<not> packet_is_local s p then JMX_DIRECTION_BYPASS
         else if packet_matches_wan_ingress s p then JMX_DIRECTION_WAN_LOCAL else JMX_DIRECTION_ROUTER_LOCAL))"
proof -
  have v: "ds_version s = 1" "ds_generation s \<noteq> 0"
    "ds_gateway_mode s \<noteq> 0 \<Longrightarrow> ds_ready s \<noteq> 0 \<Longrightarrow> ds_lan_prefixes s \<noteq> [] \<and> ds_wans s \<noteq> []"
    using assms(1) by (auto simp: direction_snapshot_valid_def split: if_splits)
  show ?thesis
  proof (cases "ds_ready s = 0")
    case True
    then show ?thesis
      by (simp add: direction_decide_def jmx_direction_classify_def kernel_decision_zero_def dir_decision_zero_def
          jmx_direction_is_gate_candidate_def user_gate_candidate_def)
  next
    case False
    then show ?thesis
      using v assms(2,3)
      by (simp add: direction_decide_def jmx_direction_classify_def Let_def same_interfaces same_local
          kernel_decision_zero_def dir_decision_zero_def jmx_direction_is_gate_candidate_def user_gate_candidate_def)
  qed
qed

definition demo_dir :: dir_snapshot where
  "demo_dir = \<lparr>ds_version = 1, ds_generation = 7, ds_ready = 1, ds_gateway_mode = 1,
     ds_lan_prefixes = [\<lparr>dp_ifindex = 3, dp_family = 4, dp_prefix_len = 24, dp_address = [192, 168, 1, 0] @ replicate 12 0\<rparr>],
     ds_local_addresses = [\<lparr>dl_family = 4, dl_address = [192, 168, 1, 1] @ replicate 12 0\<rparr>],
     ds_wans = [\<lparr>dw_wan_id = 1, dw_family_mask = 3, dw_registered = 1, dw_ifindex = 5, dw_route_identity = 0, dw_table_id = 100\<rparr>]\<rparr>"

definition demo_outbound :: user_packet where
  "demo_outbound = \<lparr>dk_family = 4, dk_is_forward = 1, dk_ingress_ifindex = 3, dk_egress_ifindex = 5,
     dk_egress_route_identity = 0, dk_source = [192, 168, 1, 20] @ replicate 12 0,
     dk_destination = [8, 8, 8, 8] @ replicate 12 0, dk_is_local_destination = 0, dk_is_local_source = 0\<rparr>"

lemma demo_dir_valid: "direction_snapshot_valid demo_dir"
  by (simp add: direction_snapshot_valid_def demo_dir_def family_bytes_def)

lemma demo_dir_classified: "dd_classification (jmx_direction_classify demo_dir demo_outbound) = JMX_DIRECTION_LAN_WAN"
  by (simp add: jmx_direction_classify_def Let_def demo_dir_def demo_outbound_def packet_is_local_def
      packet_matches_lan_ingress_def packet_matches_wan_egress_def address_equal_def prefix_matches_def
      family_bytes_def family_mask_for_def dir_decision_zero_def)

theorem classifiers_agree_witness:
  "dd_classification (direction_decide demo_dir (dir_packet.truncate demo_outbound)) = JMX_DIRECTION_LAN_WAN"
proof -
  have "dk_is_local_destination demo_outbound = 0" "dk_is_local_source demo_outbound = 0" "ds_gateway_mode demo_dir \<noteq> 0"
    by (simp_all add: demo_outbound_def demo_dir_def)
  then show ?thesis using classifiers_agree [OF demo_dir_valid, of demo_outbound] demo_dir_classified by simp
qed

text \<open>the gate only ever concerns LAN-to-WAN traffic.  A packet is a gate candidate exactly when the active
  snapshot is ready and in gateway mode with LANs and uplinks, the packet is forwarded, its source matches a LAN prefix of the
  interface it came in on, it leaves by a registered uplink of its family, and neither its source nor its
  destination is an address of the router.\<close>

theorem gate_candidate_exact:
  "jmx_direction_is_gate_candidate (direction_decide s packet) \<longleftrightarrow>
     ds_ready s \<noteq> 0 \<and> ds_generation s \<noteq> 0 \<and> ds_gateway_mode s \<noteq> 0 \<and> ds_wans s \<noteq> [] \<and> dk_is_forward packet \<noteq> 0 \<and>
     (\<exists>e \<in> set (ds_lan_prefixes s). dp_ifindex e = dk_ingress_ifindex packet \<and> dp_family e = dk_family packet \<and>
        prefix_matches (dk_family packet) (dp_address e) (dp_prefix_len e) (dk_source packet)) \<and>
     direction_wan_egress s packet \<and>
     \<not> direction_address_is_local s (dk_family packet) (dk_source packet) \<and>
     \<not> direction_address_is_local s (dk_family packet) (dk_destination packet)"
  by (auto simp: direction_decide_def Let_def kernel_decision_zero_def jmx_direction_is_gate_candidate_def
      direction_lan_ingress_def)

end
