(* ===== verification/DirWire.thy ===== *)
theory DirWire
  imports DirMatch
begin

text \<open>
  From the control plane to the kernel: every snapshot the builder produces is one the kernel accepts,
  it survives the wire, and a message the kernel cannot use leaves the classifier fail-open.
\<close>

unbundle bit_operations_syntax

section \<open>What the builder maintains\<close>

definition prefix_ok :: "dir_prefix \<Rightarrow> bool" where
  "prefix_ok e \<longleftrightarrow> dp_ifindex e \<noteq> 0 \<and> family_bytes (dp_family e) \<noteq> 0 \<and>
     unat (dp_prefix_len e) \<le> family_bytes (dp_family e) * 8 \<and> length (dp_address e) = 16"

definition local_ok :: "dir_local_address \<Rightarrow> bool" where
  "local_ok e \<longleftrightarrow> family_bytes (dl_family e) \<noteq> 0 \<and> length (dl_address e) = 16"

definition wan_ok :: "dir_wan \<Rightarrow> bool" where
  "wan_ok e \<longleftrightarrow> dw_wan_id e \<noteq> 0 \<and> dw_registered e = 1 \<and> dw_family_mask e \<noteq> 0 \<and>
     dw_family_mask e AND NOT (JMX_DIRECTION_FAMILY_MASK_IPV4 OR JMX_DIRECTION_FAMILY_MASK_IPV6) = 0 \<and>
     (dw_ifindex e \<noteq> 0 \<or> dw_route_identity e \<noteq> 0 \<or> dw_table_id e \<noteq> 0)"

definition built :: "dir_snapshot \<Rightarrow> bool" where
  "built s \<longleftrightarrow> ds_version s = 1 \<and> ds_ready s \<le> 1 \<and> ds_gateway_mode s \<le> 1 \<and>
     length (ds_lan_prefixes s) \<le> 128 \<and> length (ds_local_addresses s) \<le> 128 \<and> length (ds_wans s) \<le> 255 \<and>
     list_all prefix_ok (ds_lan_prefixes s) \<and> list_all local_ok (ds_local_addresses s) \<and>
     list_all wan_ok (ds_wans s) \<and> distinct (map dw_wan_id (ds_wans s))"

lemma built_init [inv_intros]: "built (jmx_direction_snapshot_init generation gateway)"
  by (simp add: built_def jmx_direction_snapshot_init_def)

lemma built_unready [inv_intros]: "built s \<Longrightarrow> built (s\<lparr>ds_ready := 0\<rparr>)"
  by (simp add: built_def)

lemma family_bytes_le: "family_bytes family \<le> 16"
  by (simp add: family_bytes_def)

lemma built_add_lan:
  assumes "built s" and "length address = 16"
    and "jmx_direction_snapshot_add_lan_prefix ifindex family address len s = Some s'"
  shows "built s'"
proof -
  define n where "n = family_bytes family"
  define canonical where "canonical = canonicalize_prefix family (take n address @ replicate (16 - n) 0) len"
  have n: "n \<le> 16" by (simp add: n_def family_bytes_le)
  have "length (take n canonical @ replicate (16 - n) 0) = 16"
    using n assms(2) by (simp add: canonical_def length_canonicalize)
  then show ?thesis
    using assms(1,3) n
    by (auto simp: jmx_direction_snapshot_add_lan_prefix_def Let_def n_def [symmetric] canonical_def [symmetric]
        built_def prefix_ok_def split: if_splits)
qed

lemma built_add_local:
  assumes "built s" and "length address = 16" and "jmx_direction_snapshot_add_local_address family address s = Some s'"
  shows "built s'"
  using assms family_bytes_le [of family]
  by (auto simp: jmx_direction_snapshot_add_local_address_def Let_def built_def local_ok_def split: if_splits)

lemma update_wan_Some:
  "update_wan wan es = Some es' \<Longrightarrow> map dw_wan_id es' = map dw_wan_id es \<and> length es' = length es \<and>
    (list_all wan_ok es \<longrightarrow> wan_ok wan \<longrightarrow> list_all wan_ok es')"
  by (induction es arbitrary: es') (auto split: if_splits option.splits)

lemma update_wan_None: "update_wan wan es = None \<Longrightarrow> dw_wan_id wan \<notin> set (map dw_wan_id es)"
  by (induction es) (auto split: if_splits option.splits)

lemma built_add_wan:
  assumes "built s" and "jmx_direction_snapshot_add_wan wan_id fmask ifindex route table s = Some s'"
  shows "built s'"
proof -
  define w where "w = \<lparr>dw_wan_id = wan_id, dw_family_mask = fmask, dw_registered = 1, dw_ifindex = ifindex,
      dw_route_identity = route, dw_table_id = table\<rparr>"
  have ok: "wan_ok w" and upd: "(case update_wan w (ds_wans s) of Some wans \<Rightarrow> s' = s\<lparr>ds_wans := wans\<rparr>
      | None \<Rightarrow> length (ds_wans s) < 255 \<and> s' = s\<lparr>ds_wans := ds_wans s @ [w]\<rparr>)"
    using assms(2)
    by (auto simp: jmx_direction_snapshot_add_wan_def w_def [symmetric] wan_ok_def Let_def split: if_splits option.splits)
      (simp_all add: w_def)
  show ?thesis
  proof (cases "update_wan w (ds_wans s)")
    case None
    then show ?thesis using assms(1) ok upd update_wan_None [OF None] by (auto simp: built_def)
  next
    case (Some wans)
    then show ?thesis using assms(1) ok upd update_wan_Some [OF Some] by (simp add: built_def)
  qed
qed

definition parsed_ok :: "parsed_prefix \<Rightarrow> bool" where
  "parsed_ok p \<longleftrightarrow> (case p of None \<Rightarrow> True | Some (family, address, len) \<Rightarrow> length address = 16)"

definition ifaddrs_ok :: "ifaddr list \<Rightarrow> bool" where
  "ifaddrs_ok ifas \<longleftrightarrow> (\<forall>ifa \<in> set ifas. \<forall>family address. ia_address ifa = Some (family, address) \<longrightarrow> length address = 16)"

definition lan_input_ok :: "lan_input \<Rightarrow> bool" where
  "lan_input_ok lan \<longleftrightarrow> list_all parsed_ok (li_addresses lan) \<and> (\<forall>ifas. li_ifaddrs lan = Some ifas \<longrightarrow> ifaddrs_ok ifas)"

lemma built_add_address:
  assumes "built s" and "parsed_ok p"
  shows "built (snd (add_lan_address ifindex p s))"
  using assms
  by (auto simp: add_lan_address_def parsed_ok_def split: option.split) (metis built_add_lan built_add_local)+

lemma built_add_addresses:
  "built s \<Longrightarrow> list_all parsed_ok ps \<Longrightarrow> built (snd (add_lan_addresses ifindex ps added s))"
proof (induction ps arbitrary: added s)
  case (Cons p ps)
  have "built (snd (add_lan_address ifindex p s))" using Cons.prems by (intro built_add_address) simp_all
  then show ?case using Cons.IH Cons.prems(2) by (cases "add_lan_address ifindex p s") simp
qed simp

lemma built_runtime:
  "built s \<Longrightarrow> ifaddrs_ok ifas \<Longrightarrow> built (snd (add_runtime_loop ifindex ifas added s))"
proof (induction ifindex ifas added s rule: add_runtime_loop.induct)
  case (2 ifindex ifa rest added s)
  have rest: "ifaddrs_ok rest" using "2.prems"(2) by (simp add: ifaddrs_ok_def)
  show ?case
  proof (cases "ia_ifindex ifa = ifindex \<and> (\<exists>family address len. ia_address ifa = Some (family, address) \<and>
      prefix_len_from_netmask family (ia_netmask ifa) = Some len)")
    case True
    then obtain family address len where a: "ia_ifindex ifa = ifindex" "ia_address ifa = Some (family, address)"
      "prefix_len_from_netmask family (ia_netmask ifa) = Some len" by blast
    obtain rc s1 where r: "add_lan_address ifindex (Some (family, address, word_of_nat len)) s = (rc, s1)" by fastforce
    have "built (snd (add_lan_address ifindex (Some (family, address, word_of_nat len)) s))"
      using "2.prems" a by (intro built_add_address) (auto simp: ifaddrs_ok_def parsed_ok_def)
    then have "built s1" by (simp add: r)
    then show ?thesis using a r rest "2.IH" by (auto split: if_splits)
  next
    case False
    then show ?thesis using "2.IH" "2.prems"(1) rest by (auto split: option.splits)
  qed
qed simp

lemma built_lan_entry:
  assumes "built s" and "lan_input_ok lan"
  shows "built (snd (build_lan_entry (li_ifindex lan) (li_addresses lan) (li_ifaddrs lan) s))"
proof -
  have "built (snd (add_lan_addresses (li_ifindex lan) (li_addresses lan) 0 s))"
    using assms by (intro built_add_addresses) (simp_all add: lan_input_ok_def)
  then show ?thesis
    using assms built_runtime
    by (auto simp: build_lan_entry_def add_runtime_lan_addresses_def lan_input_ok_def split: prod.split option.split)
      (metis snd_conv)+
qed

lemma built_lans: "built s \<Longrightarrow> list_all lan_input_ok lans \<Longrightarrow> built (snd (build_lans lans s))"
proof (induction lans arbitrary: s)
  case (Cons lan lans)
  obtain ok s1 where r: "build_lan_entry (li_ifindex lan) (li_addresses lan) (li_ifaddrs lan) s = (ok, s1)" by fastforce
  have "built s1" using built_lan_entry [of s lan] Cons.prems r by simp
  then show ?case using Cons r by (cases ok) (auto intro: built_unready)
qed simp

lemma built_wans: "built s \<Longrightarrow> built (snd (build_wans wans s))"
proof (induction wans arbitrary: s)
  case (Cons wan wans)
  then show ?case
    by (auto simp: build_wan_entry_def intro: built_unready split: option.split dest: built_add_wan)
qed simp

lemma build_wans_keep: "build_wans wans s = (ok, s') \<Longrightarrow> ds_generation s' = ds_generation s"
  by (induction wans arbitrary: s)
    (auto simp: build_wan_entry_def jmx_direction_snapshot_add_wan_def Let_def split: option.splits if_splits)

lemma build_built:
  assumes "jmx_direction_snapshot_build lans wans gateway generation = (ok, Some s)"
    and "\<forall>ls. lans = Some ls \<longrightarrow> list_all lan_input_ok ls"
  shows "built s"
proof (cases "gateway \<and> (\<exists>l ls w ws. lans = Some (l # ls) \<and> wans = Some (w # ws))")
  case True
  define s0 where "s0 = jmx_direction_snapshot_init generation gateway"
  have b0: "built s0" unfolding s0_def by (rule built_init)
  obtain l ls w ws where in_eq: "lans = Some (l # ls)" "wans = Some (w # ws)" using True by blast
  obtain ok1 s1 where r1: "build_lans (l # ls) s0 = (ok1, s1)" by fastforce
  have b1: "built s1" using built_lans [OF b0, of "l # ls"] assms(2) in_eq(1) r1 by simp
  obtain ok2 s2 where r2: "build_wans (w # ws) s1 = (ok2, s2)" by fastforce
  have b2: "built s2" using built_wans [OF b1, of "w # ws"] r2 by simp
  have "s = s1 \<or> s = s2 \<or> s = s2\<lparr>ds_ready := 0\<rparr>"
    using assms(1) True in_eq r1 r2
    unfolding jmx_direction_snapshot_build_def s0_def [symmetric] Let_def
    by (auto split: if_splits bool.splits simp del: build_lans.simps build_wans.simps)
  then show ?thesis using b1 b2 built_unready by blast
next
  case False
  define s0 where "s0 = jmx_direction_snapshot_init generation gateway"
  have "built s0" unfolding s0_def by (rule built_init)
  moreover have "s = s0\<lparr>ds_ready := 1\<rparr> \<or> s = s0\<lparr>ds_ready := 0\<rparr>"
    using assms(1) False unfolding jmx_direction_snapshot_build_def s0_def [symmetric] Let_def
    by (auto split: if_splits option.splits list.splits)
  ultimately show ?thesis by (auto simp: built_def)
qed

section \<open>The wire\<close>

lemma get_be32_at_head [simp]: "get_be32_at (be32 v @ r) 0 = v" "get_be32_at (be32 v) 0 = v"
  by (simp_all add: get_be32_at_def be32_def)

lemma get_be16_at_head [simp]: "get_be16_at (be16 v @ r) 0 = v" "get_be16_at (be16 v) 0 = v"
  by (simp_all add: get_be16_at_def be16_def)

lemma get_be32_at_append [wire_simps]: "length a \<le> i \<Longrightarrow> get_be32_at (a @ r) i = get_be32_at r (i - length a)"
  by (auto dest!: le_Suc_ex simp: get_be32_at_def nth_append)

lemma get_be16_at_append [wire_simps]: "length a \<le> i \<Longrightarrow> get_be16_at (a @ r) i = get_be16_at r (i - length a)"
  by (simp add: get_be16_at_def nth_append Suc_diff_le)

lemma get_be32_at_Cons [wire_simps]: "0 < i \<Longrightarrow> get_be32_at (x # r) i = get_be32_at r (i - 1)"
  by (cases i) (simp_all add: get_be32_at_def add.commute)

lemma get_be16_at_Cons [wire_simps]: "0 < i \<Longrightarrow> get_be16_at (x # r) i = get_be16_at r (i - 1)"
  by (cases i) (simp_all add: get_be16_at_def)

lemma nth_past [wire_simps]: "length a \<le> i \<Longrightarrow> (a @ r) ! i = r ! (i - length a)"
  by (simp add: nth_append)

lemma length_be64 [simp]: "length (be64 v) = 8"
  by (simp add: be64_def)

lemma be64_halves: "be64 v = be32 (ucast (drop_bit 32 v)) @ be32 (ucast v)"
  unfolding be64_def be32_def by (auto intro!: bit_word_eqI simp: bit_simps)

lemma wire_be64 [simp]: "direction_wire_be64 (be64 v @ r) 0 = v"
proof -
  have "direction_wire_be64 (be64 v @ r) 0 = (push_bit 32 (ucast (ucast (drop_bit 32 v) :: u32)) OR ucast (ucast v :: u32))"
    by (simp add: direction_wire_be64_def be64_halves get_be32_at_append)
  also have "\<dots> = v"
    by (rule bit_word_eqI) (auto simp: bit_simps)
  finally show ?thesis .
qed

lemma direction_wire_be64_append [wire_simps]:
  "length a \<le> i \<Longrightarrow> direction_wire_be64 (a @ r) i = direction_wire_be64 r (i - length a)"
  by (auto dest!: le_Suc_ex simp: direction_wire_be64_def get_be32_at_append)

lemma length_enc_dir [simp]:
  "prefix_ok e \<Longrightarrow> length (enc_dir_prefix e) = 24" "local_ok l \<Longrightarrow> length (enc_dir_local l) = 20"
  "length (enc_dir_wan w) = 24"
  by (simp_all add: enc_dir_prefix_def enc_dir_local_def enc_dir_wan_def prefix_ok_def local_ok_def)

lemma length_prefix_records: "list_all prefix_ok es \<Longrightarrow> length (concat (map enc_dir_prefix es)) = 24 * length es"
  by (induction es) simp_all

lemma length_local_records: "list_all local_ok es \<Longrightarrow> length (concat (map enc_dir_local es)) = 20 * length es"
  by (induction es) simp_all

lemma length_wan_records: "length (concat (map enc_dir_wan es)) = 24 * length es"
  by (induction es) simp_all

lemmas length_records = length_prefix_records length_local_records length_wan_records

lemma parse_prefixes_enc:
  "list_all prefix_ok es \<Longrightarrow> parse_prefixes (length es) (concat (map enc_dir_prefix es) @ rest) = Inr (es, rest)"
proof (induction es)
  case (Cons e es)
  have "length (dp_address e) = 16" using Cons.prems by (simp add: prefix_ok_def)
  then show ?case using Cons by (simp add: enc_dir_prefix_def wire_simps)
qed simp

lemma parse_locals_enc:
  "list_all local_ok es \<Longrightarrow> parse_locals (length es) (concat (map enc_dir_local es) @ rest) = Inr (es, rest)"
proof (induction es)
  case (Cons e es)
  have "length (dl_address e) = 16" using Cons.prems by (simp add: local_ok_def)
  then show ?case using Cons by (simp add: enc_dir_local_def wire_simps)
qed simp

lemma parse_wans_enc:
  "list_all wan_ok es \<Longrightarrow> parse_wans (length es) (concat (map enc_dir_wan es) @ rest) = Inr (es, rest)"
proof (induction es)
  case (Cons e es)
  have "dw_registered e = 1" using Cons.prems by (simp add: wan_ok_def)
  then show ?case using Cons by (simp add: enc_dir_wan_def wire_simps)
qed simp

text \<open>What an unready snapshot is reduced to on the wire.\<close>

definition on_wire :: "dir_snapshot \<Rightarrow> dir_snapshot" where
  "on_wire s = (if ds_ready s \<noteq> 0 then s else s\<lparr>ds_lan_prefixes := [], ds_local_addresses := [], ds_wans := []\<rparr>)"

lemma distinct_wans_iff:
  "list_all wan_ok ws \<Longrightarrow> distinct (seen @ map dw_wan_id ws) \<Longrightarrow> distinct_wans seen ws"
  by (induction ws arbitrary: seen) (auto simp: wan_ok_def)

lemma built_valid:
  assumes "built s" and "ds_generation s \<noteq> 0" and "ds_ready s \<noteq> 0 \<Longrightarrow> jmx_direction_snapshot_validate s"
  shows "direction_snapshot_valid (on_wire s)"
proof (cases "ds_ready s = 0")
  case True
  then show ?thesis using assms by (simp add: direction_snapshot_valid_def on_wire_def built_def not_less)
next
  case False
  have "ds_gateway_mode s \<noteq> 0 \<longrightarrow> ds_lan_prefixes s \<noteq> [] \<and> ds_wans s \<noteq> []"
    using assms(3) [OF False] by (auto simp: jmx_direction_snapshot_validate_def split: if_splits)
  moreover have "distinct_wans [] (ds_wans s)" using assms(1) by (intro distinct_wans_iff) (simp_all add: built_def)
  ultimately show ?thesis
    using assms(1,2) False
    by (auto simp: direction_snapshot_valid_def on_wire_def built_def not_less list_all_iff prefix_ok_def local_ok_def)
qed

lemma small_flag:
  assumes "(b :: u8) \<le> 1"
  shows "(if b \<noteq> 0 then 1 else 0) = b"
proof -
  have "unat b = 0 \<or> unat b = 1" using assms by (auto simp: word_le_nat_alt)
  then show ?thesis by (auto simp: word_unat_eq_iff)
qed

lemma wire_parse:
  assumes "built s" and "ds_generation s \<noteq> 0" and "ds_ready s \<noteq> 0 \<Longrightarrow> jmx_direction_snapshot_validate s"
  shows "\<exists>wire. route_direction_snapshot_wire True s = Some wire \<and> direction_parse_wire wire = Inr (on_wire s) \<and>
    30 \<le> length wire \<and> length wire < 2 ^ 14 \<and> get_be32_at wire 0 = 44"
proof -
  define t where "t = on_wire s"
  have t: "built t" "ds_generation t = ds_generation s" "ds_ready t = ds_ready s" "ds_gateway_mode t = ds_gateway_mode s"
    "ds_version t = 1"
    using assms(1) by (auto simp: t_def on_wire_def built_def)
  define lans locals wans where "lans = ds_lan_prefixes t" and "locals = ds_local_addresses t" and "wans = ds_wans t"
  have parts: "lans = (if ds_ready s \<noteq> 0 then ds_lan_prefixes s else [])"
    "locals = (if ds_ready s \<noteq> 0 then ds_local_addresses s else [])"
    "wans = (if ds_ready s \<noteq> 0 then ds_wans s else [])"
    by (simp_all add: lans_def locals_def wans_def t_def on_wire_def)
  have ok: "list_all prefix_ok lans" "list_all local_ok locals" "list_all wan_ok wans"
    and cnt: "length lans \<le> 128" "length locals \<le> 128" "length wans \<le> 255"
    using t(1) by (simp_all add: built_def lans_def locals_def wans_def)
  define body where "body = concat (map enc_dir_prefix lans) @ concat (map enc_dir_local locals) @ concat (map enc_dir_wan wans)"
  define n where "n = 30 + length lans * 24 + length locals * 20 + length wans * 24"
  define head where "head = be32 44 @ be16 1 @ be16 30 @ be32 (word_of_nat n) @ be64 (ds_generation s) @
      [ds_ready s, ds_gateway_mode s] @ be16 (word_of_nat (length lans)) @ be16 (word_of_nat (length locals)) @
      be16 (word_of_nat (length wans)) @ be16 0"
  have flags: "ds_ready s \<le> 1" "ds_gateway_mode s \<le> 1" using assms(1) by (simp_all add: built_def)
  have valid: "ds_ready s = 0 \<or> jmx_direction_snapshot_validate s" using assms(3) by blast
  have enc: "route_direction_snapshot_wire True s = Some (head @ body)"
    using assms(1,2) valid flags small_flag [OF flags(1)] small_flag [OF flags(2)]
    by (simp add: route_direction_snapshot_wire_def Let_def parts [symmetric] built_def not_less head_def body_def n_def)
  have len: "length head = 30" "length body + 30 = n"
    using length_records ok by (simp_all add: head_def body_def n_def)
  have n: "n < 2 ^ 14" using cnt by (simp add: n_def)
  have counts: "unat (word_of_nat (length lans) :: u16) = length lans" "unat (word_of_nat (length locals) :: u16) = length locals"
    "unat (word_of_nat (length wans) :: u16) = length wans"
    using cnt by (simp_all add: unat_word_of_nat)
  have fields: "get_be32_at (head @ body) 0 = 44" "get_be16_at (head @ body) 4 = 1" "get_be16_at (head @ body) 28 = 0"
    "get_be16_at (head @ body) 6 = 30" "get_be32_at (head @ body) 8 = word_of_nat n"
    "(head @ body) ! 20 = ds_ready s" "(head @ body) ! 21 = ds_gateway_mode s"
    "get_be16_at (head @ body) 22 = word_of_nat (length lans)" "get_be16_at (head @ body) 24 = word_of_nat (length locals)"
    "get_be16_at (head @ body) 26 = word_of_nat (length wans)" "direction_wire_be64 (head @ body) 12 = ds_generation s"
    by (simp_all add: head_def wire_simps)
  have drop: "drop 30 (head @ body) = body" using len(1) by simp
  have snap: "\<lparr>ds_version = ucast JMX_DIRECTION_NL_ABI_VERSION, ds_generation = ds_generation s, ds_ready = ds_ready s,
      ds_gateway_mode = ds_gateway_mode s, ds_lan_prefixes = lans, ds_local_addresses = locals, ds_wans = wans\<rparr> = t"
    using t by (simp add: lans_def locals_def wans_def)
  have "direction_parse_wire (head @ body) = Inr t"
    unfolding direction_parse_wire_def fields counts drop Let_def
    using len n cnt assms(2) flags built_valid [OF assms, folded t_def] parse_prefixes_enc [OF ok(1)] parse_locals_enc [OF ok(2)]
      parse_wans_enc [OF ok(3), of "[]"] snap
    by (simp add: body_def not_less n_def)
  then show ?thesis using enc len n fields(1) by (auto simp: t_def)
qed

section \<open>The runtime\<close>

definition rt_ok :: "dir_runtime \<Rightarrow> bool" where
  "rt_ok rt \<longleftrightarrow> length (dr_slots rt) = 2 \<and> dr_active_slot rt \<le> 1 \<and> direction_snapshot_valid (active_snapshot rt)"

lemma active_published:
  assumes "length (dr_slots rt) = 2" and "dr_active_slot rt \<le> 1"
  shows "active_snapshot (direction_publish_locked s rt) = s"
proof -
  have "1 - dr_active_slot rt < length (dr_slots rt)" using assms by simp
  then show ?thesis by (simp add: direction_publish_locked_def Let_def active_snapshot_def)
qed

lemma rt_ok_publish [inv_intros]: "rt_ok rt \<Longrightarrow> direction_snapshot_valid s \<Longrightarrow> rt_ok (direction_publish_locked s rt)"
  using active_published [of rt s] by (simp add: rt_ok_def) (simp add: direction_publish_locked_def Let_def)

lemma rt_ok_flags [inv_intros]:
  "rt_ok rt \<Longrightarrow> rt_ok (rt\<lparr>dr_initialized := b\<rparr>)" "rt_ok rt \<Longrightarrow> rt_ok (rt\<lparr>dr_wq := q\<rparr>)"
  by (simp_all add: rt_ok_def active_snapshot_def)

lemma unready_valid: "generation \<noteq> 0 \<Longrightarrow> gateway \<le> 1 \<Longrightarrow> direction_snapshot_valid (unready_snapshot generation gateway)"
  by (simp add: direction_snapshot_valid_def unready_snapshot_def not_less)

lemma rt_ok_work [inv_intros]: "rt_ok rt \<Longrightarrow> rt_ok (direction_update_workfn u rt)"
  by (simp add: direction_update_workfn_def rt_ok_publish)

lemma rt_ok_run [inv_intros]: "rt_ok rt \<Longrightarrow> rt_ok (run_direction_work rt)"
  by (auto simp: run_direction_work_def intro: inv_intros split: option.split list.split)

lemma rt_ok_fold [inv_intros]: "rt_ok rt \<Longrightarrow> rt_ok (fold direction_update_workfn us rt)"
  by (induction us arbitrary: rt) (auto intro: inv_intros)

lemma rt_ok_queue: "rt_ok rt \<Longrightarrow> rt_ok (snd (direction_queue_update u rt))"
  by (auto simp: direction_queue_update_def intro: inv_intros split: option.split)

lemma rt_ok_queued:
  assumes "direction_queue_update u rt = (rc, rt')" and "rt_ok rt"
  shows "rt_ok rt'"
  using rt_ok_queue [OF assms(2), of u] assms(1) by simp

lemma rt_ok_fail: "rt_ok rt \<Longrightarrow> rt_ok (direction_fail_unready env data rt)"
  by (auto simp: direction_fail_unready_def Let_def intro: inv_intros rt_ok_queued split: prod.split option.split)

lemma rt_ok_handle: "rt_ok rt \<Longrightarrow> rt_ok (snd (jmx_direction_nl_handle env data rt))"
  by (auto simp: jmx_direction_nl_handle_def Let_def intro: inv_intros rt_ok_fail rt_ok_queued
      split: sum.split prod.split option.split)

lemma rt_ok_publish_unready: "rt_ok rt \<Longrightarrow> rt_ok (snd (jmx_direction_publish_unready generation gateway rt))"
  by (auto simp: jmx_direction_publish_unready_def direction_publish_unready_internal_def Let_def
      intro!: inv_intros unready_valid)

lemma rt_ok_publish_snapshot: "rt_ok rt \<Longrightarrow> rt_ok (snd (jmx_direction_publish_snapshot s rt))"
  by (auto simp: jmx_direction_publish_snapshot_def intro: inv_intros)

lemma rt_ok_exit: "rt_ok rt \<Longrightarrow> rt_ok (jmx_direction_exit rt)"
  by (auto simp: jmx_direction_exit_def Let_def intro: inv_intros split: option.split)

lemma rt_ok_init: "jmx_direction_init env = (None, rt) \<Longrightarrow> rt_ok rt"
  using unready_valid [of 1 0] by (auto simp: jmx_direction_init_def Let_def rt_ok_def active_snapshot_def split: if_splits)

inductive dir_step :: "dir_runtime \<Rightarrow> dir_runtime \<Rightarrow> bool" where
  message: "dir_step rt (snd (jmx_direction_nl_handle env data rt))"
| work: "dir_step rt (run_direction_work rt)"
| publish: "dir_step rt (snd (jmx_direction_publish_snapshot s rt))"
| unready: "dir_step rt (snd (jmx_direction_publish_unready generation gateway rt))"
| unload: "dir_step rt (jmx_direction_exit rt)"

inductive dir_reachable :: "dir_runtime \<Rightarrow> bool" where
  loaded: "jmx_direction_init env = (None, rt) \<Longrightarrow> dir_reachable rt"
| step: "dir_reachable rt \<Longrightarrow> dir_step rt rt' \<Longrightarrow> dir_reachable rt'"

inductive_cases dir_stepE: "dir_step rt rt'"

lemma dir_step_ok: "dir_step rt rt' \<Longrightarrow> rt_ok rt \<Longrightarrow> rt_ok rt'"
  by (erule dir_stepE)
    (simp_all add: rt_ok_handle rt_ok_run rt_ok_publish_snapshot rt_ok_publish_unready rt_ok_exit)

lemma dir_reachable_ok: "dir_reachable rt \<Longrightarrow> rt_ok rt"
  by (induction rule: dir_reachable.induct) (auto intro: rt_ok_init dir_step_ok)

lemma queue_idle:
  assumes "dr_initialized rt" and "dr_wq rt = Some []"
  shows "direction_queue_update u rt = (None, rt\<lparr>dr_wq := Some [u]\<rparr>)"
  using assms by (simp add: direction_queue_update_def)

lemma run_idle:
  assumes "rt_ok rt" and "dr_initialized rt" and "direction_snapshot_valid u"
  shows "active_snapshot (run_direction_work (rt\<lparr>dr_wq := Some [u]\<rparr>)) = u"
    and "dr_initialized (run_direction_work (rt\<lparr>dr_wq := Some [u]\<rparr>))"
  using assms active_published [of "rt\<lparr>dr_wq := Some []\<rparr>" u]
  by (simp_all add: run_direction_work_def direction_update_workfn_def rt_ok_def)
    (simp add: direction_publish_locked_def Let_def)

section \<open>Properties\<close>

text \<open>C36: the active snapshot is always a valid one.  In every state reachable from a successful initialisation,
  by netlink messages of any bytes, runs of the work queue, publications and unloading, the slot the
  forwarding path reads holds a snapshot that passes the kernel's validity check.\<close>

theorem active_snapshot_valid:
  assumes "dir_reachable rt"
  shows "direction_snapshot_valid (active_snapshot rt)"
  using dir_reachable_ok [OF assms] by (simp add: rt_ok_def)

definition dir_env :: kernel_env where
  "dir_env = \<lparr>jiffies = 0, hz = 250, alloc_ok = \<lambda>_. True, jhash_1word = \<lambda>a _. a\<rparr>"

definition demo_runtime :: dir_runtime where
  "demo_runtime = snd (jmx_direction_init dir_env)"

lemma demo_runtime_init: "jmx_direction_init dir_env = (None, demo_runtime)"
  and demo_runtime_idle: "dr_initialized demo_runtime" "dr_wq demo_runtime = Some []"
  by (simp_all add: demo_runtime_def jmx_direction_init_def dir_env_def Let_def)

theorem active_snapshot_valid_witness:
  "direction_snapshot_valid (active_snapshot (run_direction_work (snd (jmx_direction_nl_handle dir_env [0, 0, 0, 44, 9] demo_runtime))))"
  by (rule active_snapshot_valid) (rule dir_reachable.step [OF dir_reachable.step [OF dir_reachable.loaded [OF demo_runtime_init] dir_step.message] dir_step.work])

text \<open>C26: what the control plane builds is what the kernel uses.  A snapshot that the builder accepts is encoded,
  the kernel parses the same snapshot from the bytes, and once its work has run the forwarding path reads it.\<close>

theorem snapshot_reaches_kernel:
  assumes build: "jmx_direction_snapshot_build lans wans gateway generation = (True, Some s)"
    and input: "\<forall>ls. lans = Some ls \<longrightarrow> list_all lan_input_ok ls"
    and rt: "dir_reachable rt" "dr_initialized rt" "dr_wq rt = Some []" and mem: "alloc_ok env A_DIR_UPDATE"
  shows "\<exists>wire. route_direction_snapshot_wire True s = Some wire \<and> direction_parse_wire wire = Inr s \<and>
    fst (jmx_direction_nl_handle env wire rt) \<and>
    active_snapshot (run_direction_work (snd (jmx_direction_nl_handle env wire rt))) = s"
proof -
  have b: "built s" by (rule build_built [OF build input])
  have v: "ds_generation s \<noteq> 0" "ds_ready s \<noteq> 0" "jmx_direction_snapshot_validate s"
    using build
    by (auto simp: jmx_direction_snapshot_build_def Let_def jmx_direction_snapshot_init_def jmx_direction_snapshot_validate_def
        split: if_splits option.splits list.splits prod.splits bool.splits)
  then have s: "on_wire s = s" by (simp add: on_wire_def)
  obtain wire where w: "route_direction_snapshot_wire True s = Some wire" "direction_parse_wire wire = Inr s"
    "30 \<le> length wire" "get_be32_at wire 0 = 44"
    using wire_parse [OF b v(1) v(3)] by (auto simp: s)
  have "direction_snapshot_valid s" using built_valid [OF b v(1) v(3)] by (simp add: s)
  then show ?thesis
    using w rt mem queue_idle [OF rt(2,3), of s] run_idle(1) [OF dir_reachable_ok [OF rt(1)] rt(2), of s]
    by (simp add: jmx_direction_nl_handle_def)
qed

definition demo_lan :: lan_input where
  "demo_lan = \<lparr>li_ifindex = 3, li_addresses = [Some (4, [192, 168, 1, 1] @ replicate 12 0, 24)], li_ifaddrs = None\<rparr>"

definition demo_wan :: wan_input where
  "demo_wan = \<lparr>wi_id = 1, wi_ifindex = 5, wi_route_identity = 0, wi_table = 100, wi_family_mask = 3\<rparr>"

lemma demo_build: "jmx_direction_snapshot_build (Some [demo_lan]) (Some [demo_wan]) True 7 = (True, Some demo_dir)"
  by (simp add: jmx_direction_snapshot_build_def demo_lan_def demo_wan_def jmx_direction_snapshot_init_def
      build_lan_entry_def add_lan_address_def jmx_direction_snapshot_add_lan_prefix_def canonicalize_prefix_def
      jmx_direction_snapshot_add_local_address_def add_runtime_lan_addresses_def build_wan_entry_def
      jmx_direction_snapshot_add_wan_def jmx_direction_snapshot_validate_def family_bytes_def Let_def demo_dir_def)

theorem snapshot_reaches_kernel_witness:
  "\<exists>wire. route_direction_snapshot_wire True demo_dir = Some wire \<and> direction_parse_wire wire = Inr demo_dir"
proof -
  have "\<forall>ls. Some [demo_lan] = Some ls \<longrightarrow> list_all lan_input_ok ls"
    by (simp add: lan_input_ok_def parsed_ok_def demo_lan_def)
  moreover have "alloc_ok dir_env A_DIR_UPDATE" by (simp add: dir_env_def)
  ultimately show ?thesis
    using snapshot_reaches_kernel [OF demo_build _ dir_reachable.loaded [OF demo_runtime_init] demo_runtime_idle] by blast
qed

text \<open>C33: a snapshot message the kernel cannot use opens the gate for everything.  After a message that is too short, has
  unknown fields, wrong counts, sizes or entries, and after its work has run, no packet is a gate candidate,
  whatever snapshot was active before and even if memory ran out.\<close>

theorem unusable_message_fails_open:
  assumes rt: "dir_reachable rt" "dr_wq rt = Some []"
    and msg: "4 \<le> length data" "get_be32_at data 0 = JMX_NL_ACT_DIRECTION_SNAPSHOT" "direction_parse_wire data = Inl e"
  shows "\<not> jmx_direction_is_gate_candidate (snd (jmx_direction_classify_skb iph_stack ip6h_stack
    (run_direction_work (snd (jmx_direction_nl_handle env data rt))) skb in_dev out_dev))"
proof -
  define rt' where "rt' = run_direction_work (snd (jmx_direction_nl_handle env data rt))"
  have "\<not> dr_initialized rt' \<or> ds_ready (active_snapshot rt') = 0"
  proof (cases "dr_initialized rt \<and> alloc_ok env A_DIR_UPDATE \<and> alloc_ok env A_DIR_FAIL")
    case False
    then have "\<not> dr_initialized (snd (jmx_direction_nl_handle env data rt))"
      using msg by (auto simp: jmx_direction_nl_handle_def direction_fail_unready_def)
    then show ?thesis
      by (auto simp: rt'_def run_direction_work_def direction_update_workfn_def split: option.split list.split)
  next
    case True
    define g m where "g = (if 20 \<le> length data \<and> direction_wire_be64 data 12 \<noteq> 0 then direction_wire_be64 data 12
        else direction_next_generation rt)"
      and "m = (if 21 < length data then (if data ! 21 \<noteq> 0 then 1 else 0) else 1 :: u8)"
    have "direction_next_generation rt \<noteq> 0"
    proof
      assume "direction_next_generation rt = 0"
      then have "jmx_direction_current_generation rt + 1 = 0" "jmx_direction_current_generation rt \<noteq> - 1"
        by (auto simp: direction_next_generation_def Let_def split: if_splits)
      then show False by (metis add_eq_0_iff2)
    qed
    then have "direction_snapshot_valid (unready_snapshot g m)"
      by (intro unready_valid) (simp_all add: g_def m_def)
    moreover have "snd (jmx_direction_nl_handle env data rt) = rt\<lparr>dr_wq := Some [unready_snapshot g m]\<rparr>"
      using True msg queue_idle [of rt, OF _ rt(2), of "unready_snapshot g m"]
      by (simp add: jmx_direction_nl_handle_def direction_fail_unready_def Let_def g_def m_def)
    ultimately have "active_snapshot rt' = unready_snapshot g m"
      using run_idle(1) [OF dir_reachable_ok [OF rt(1)]] True by (simp add: rt'_def)
    then show ?thesis by (simp add: unready_snapshot_def)
  qed
  then show ?thesis
    unfolding rt'_def [symmetric]
    by (auto simp: jmx_direction_classify_skb_def jmx_direction_is_gate_candidate_def direction_decide_def
        kernel_decision_zero_def split: sum.split)
qed

theorem unusable_message_fails_open_witness:
  "\<not> jmx_direction_is_gate_candidate (snd (jmx_direction_classify_skb [] []
    (run_direction_work (snd (jmx_direction_nl_handle dir_env [0, 0, 0, 44] demo_runtime)))
    \<lparr>skb_mark = 0, skb_protocol = 0x86dd, skb_header = \<lambda>_. Copied (replicate 40 0)\<rparr> (Some 3) (Some 5)))"
  by (rule unusable_message_fails_open [OF dir_reachable.loaded [OF demo_runtime_init] demo_runtime_idle(2)])
    (simp_all add: get_be32_at_def get_be32_def direction_parse_wire_def Let_def)

text \<open>C37: a header that lies in one piece in the packet is never read.  The kernel helper for reading headers then returns a
  pointer into the packet and leaves the caller's buffer alone, but the classifier reads the buffer: two
  packets of the same protocol and mark are classified alike whatever their addresses, by what the stack
  held before; with a zeroed stack every such IPv4 packet is rejected and so fails open.\<close>

theorem header_in_place_unread:
  assumes "skb_header skb 20 = In_Place h4" "skb_header skb' 20 = In_Place h4'"
    and "skb_header skb 40 = In_Place h6" "skb_header skb' 40 = In_Place h6'"
    and "skb_protocol skb = skb_protocol skb'" and "skb_mark skb = skb_mark skb'"
  shows "jmx_direction_classify_skb iph ip6h rt skb in_dev out_dev = jmx_direction_classify_skb iph ip6h rt skb' in_dev out_dev \<and>
    (skb_protocol skb = ETH_P_IP \<longrightarrow>
      fst (jmx_direction_classify_skb (replicate 20 0) ip6h rt skb in_dev out_dev) = Some EINVAL)"
  using assms
  by (simp add: jmx_direction_classify_skb_def direction_packet_from_skb_def header_buffer_def Let_def cong: if_cong)

theorem header_in_place_unread_witness:
  "fst (jmx_direction_classify_skb (replicate 20 0) [] demo_runtime
     \<lparr>skb_mark = 0, skb_protocol = 0x0800, skb_header = \<lambda>n. In_Place (replicate n 0x45)\<rparr> (Some 3) (Some 5)) = Some EINVAL"
  using header_in_place_unread [of "\<lparr>skb_mark = 0, skb_protocol = 0x0800, skb_header = \<lambda>n. In_Place (replicate n 0x45)\<rparr>"
      _ "\<lparr>skb_mark = 0, skb_protocol = 0x0800, skb_header = \<lambda>n. In_Place (replicate n 0x45)\<rparr>"]
  by simp

text \<open>The capacity error of one LAN is lost.  When the table of local addresses is full, a LAN entry whose only
  address was refused is still accepted, because the -1 of the refusal is added to the count of added
  addresses and a count of -1 is not zero; the refused address is not in the table.\<close>

theorem lan_capacity_error_lost:
  assumes "128 \<le> length (ds_local_addresses s)" and "ifindex \<noteq> 0"
  shows "fst (add_lan_address ifindex (Some (family, address, len)) s) = -1 \<and>
    fst (build_lan_entry ifindex [Some (family, address, len)] None s) \<and>
    ds_local_addresses (snd (build_lan_entry ifindex [Some (family, address, len)] None s)) = ds_local_addresses s"
proof -
  have "jmx_direction_snapshot_add_local_address family address t = None"
    if "ds_local_addresses t = ds_local_addresses s" for t
    using assms(1) that by (simp add: jmx_direction_snapshot_add_local_address_def Let_def)
  moreover have "ds_local_addresses t = ds_local_addresses s"
    if "jmx_direction_snapshot_add_lan_prefix ifindex family address len s = Some t" for t
    using that by (auto simp: jmx_direction_snapshot_add_lan_prefix_def Let_def split: if_splits)
  ultimately have "fst (add_lan_address ifindex (Some (family, address, len)) s) = -1"
    and "ds_local_addresses (snd (add_lan_address ifindex (Some (family, address, len)) s)) = ds_local_addresses s"
    by (auto simp: add_lan_address_def split: option.split)
  then show ?thesis
    using assms(2) by (auto simp: build_lan_entry_def add_runtime_lan_addresses_def split: prod.split)
qed

theorem lan_capacity_error_lost_witness:
  "fst (build_lan_entry 3 [Some (4, [10, 0, 0, 1] @ replicate 12 0, 24)] None
    (demo_dir\<lparr>ds_local_addresses := replicate 128 \<lparr>dl_family = 4, dl_address = replicate 16 9\<rparr>\<rparr>))"
  using lan_capacity_error_lost [of "demo_dir\<lparr>ds_local_addresses := replicate 128 \<lparr>dl_family = 4, dl_address = replicate 16 9\<rparr>\<rparr>"
      3 4 "[10, 0, 0, 1] @ replicate 12 0" 24]
  by simp

end
