(* ===== verification/DirStore.thy ===== *)
theory DirStore
  imports DirWire
begin

text \<open>
  Publication of direction snapshots while others read them: the control plane's lock-free store
  (\<open>jmx_direction_snapshot_store_publish\<close> and \<open>_read\<close>), and the kernel's two slots under RCU
  (\<open>direction_publish_locked\<close> and the read-side section of \<open>jmx_direction_classify_skb\<close>).  Every atomic
  operation of the code is a step, and the steps of any number of threads interleave in one total order
  (sequential consistency).  Copying a snapshot is not atomic, so it is a phase that others can run
  in: a reader that copies remembers, as a ghost, the snapshot that was active when it chose its slot.

  The interface \<open>snapshot_cell\<close> states what both promise: no slot is written while it is being
  copied, and what is copied is one published snapshot, the active one at the time of the choice.
\<close>

section \<open>What a snapshot cell promises\<close>

locale snapshot_cell =
  fixes start :: "'s \<Rightarrow> bool" and step :: "'s \<Rightarrow> 's \<Rightarrow> bool"
    and slot_of :: "'s \<Rightarrow> nat \<Rightarrow> dir_snapshot" and copying :: "'s \<Rightarrow> (nat \<times> dir_snapshot) set"
    and writing :: "'s \<Rightarrow> nat set" and inv :: "'s \<Rightarrow> bool"
  assumes inv_start: "start s \<Longrightarrow> inv s"
    and inv_step: "inv s \<Longrightarrow> step s s' \<Longrightarrow> inv s'"
    and inv_copying: "inv s \<Longrightarrow> (k, ghost) \<in> copying s \<Longrightarrow> slot_of s k = ghost"
    and inv_writing: "inv s \<Longrightarrow> k \<in> writing s \<Longrightarrow> (k, ghost) \<notin> copying s"
begin

lemma inv_steps: "start s \<Longrightarrow> step\<^sup>*\<^sup>* s s' \<Longrightarrow> inv s'"
  by (rotate_tac, induction rule: rtranclp_induct) (auto intro: inv_start inv_step)

lemma untorn:
  assumes "start s" and "step\<^sup>*\<^sup>* s s'"
  shows "(\<forall>k ghost. (k, ghost) \<in> copying s' \<longrightarrow> slot_of s' k = ghost) \<and> (\<forall>k \<in> writing s'. \<forall>ghost. (k, ghost) \<notin> copying s')"
  using inv_copying inv_writing inv_steps [OF assms] by blast

end

section \<open>The control plane's store\<close>

datatype reader_pc =
  R_idle
| R_loaded nat            \<comment> \<open>\<open>slot\<close> read from \<open>active_slot\<close>\<close>
| R_counted nat           \<comment> \<open>\<open>readers[slot]\<close> incremented\<close>
| R_mismatch nat          \<comment> \<open>\<open>active_slot\<close> has changed: to be decremented, then retried\<close>
| R_copying nat dir_snapshot
| R_copied nat dir_snapshot

datatype writer_pc =
  W_idle
| W_locked dir_snapshot
| W_waiting dir_snapshot nat   \<comment> \<open>spins until \<open>readers[inactive]\<close> is 0\<close>
| W_writing dir_snapshot nat
| W_written nat
| W_flipped

record snapshot_store =
  st_slots :: "dir_snapshot list"
  st_active :: nat
  st_readers :: "nat list"
  st_writer_lock :: bool

record store_world =
  sw_store :: snapshot_store
  sw_readers :: "reader_pc list"
  sw_writers :: "writer_pc list"

definition jmx_direction_snapshot_store_init :: snapshot_store where
  "jmx_direction_snapshot_store_init =
     (let blank = (jmx_direction_snapshot_init 1 False)\<lparr>ds_ready := 0\<rparr>
      in \<lparr>st_slots = [blank, blank], st_active = 0, st_readers = [0, 0], st_writer_lock = False\<rparr>)"

definition store_accepts :: "dir_snapshot \<Rightarrow> bool" where
  "store_accepts snapshot \<longleftrightarrow> ds_version snapshot = JMX_DIRECTION_SNAPSHOT_VERSION \<and> ds_generation snapshot \<noteq> 0 \<and>
     (ds_ready snapshot = 0 \<or> jmx_direction_snapshot_validate snapshot)"

abbreviation set_reader :: "nat \<Rightarrow> reader_pc \<Rightarrow> store_world \<Rightarrow> store_world" where
  "set_reader i pc w \<equiv> w\<lparr>sw_readers := (sw_readers w)[i := pc]\<rparr>"

abbreviation set_writer :: "nat \<Rightarrow> writer_pc \<Rightarrow> store_world \<Rightarrow> store_world" where
  "set_writer i pc w \<equiv> w\<lparr>sw_writers := (sw_writers w)[i := pc]\<rparr>"

definition count_reader :: "nat \<Rightarrow> nat \<Rightarrow> store_world \<Rightarrow> store_world" where
  "count_reader k n w = w\<lparr>sw_store := (sw_store w)\<lparr>st_readers := (st_readers (sw_store w))[k := n]\<rparr>\<rparr>"

text \<open>The steps of reader \<open>i\<close>, as a function of where it is.\<close>

definition store_read_step :: "nat \<Rightarrow> store_world \<Rightarrow> store_world" where
  "store_read_step i w =
     (let s = sw_store w
      in case sw_readers w ! i of
           R_idle \<Rightarrow> set_reader i (R_loaded (st_active s)) w
         | R_loaded k \<Rightarrow> set_reader i (R_counted k) (count_reader k (st_readers s ! k + 1) w)
         | R_counted k \<Rightarrow>
             if k = st_active s then set_reader i (R_copying k (st_slots s ! k)) w
             else set_reader i (R_mismatch k) w
         | R_mismatch k \<Rightarrow> set_reader i R_idle (count_reader k (st_readers s ! k - 1) w)
         | R_copying k ghost \<Rightarrow> set_reader i (R_copied k (st_slots s ! k)) w
         | R_copied k out \<Rightarrow> set_reader i R_idle (count_reader k (st_readers s ! k - 1) w))"

text \<open>The steps of writer \<open>i\<close> that publishes \<open>snapshot\<close>; a step that spins changes nothing.\<close>

definition store_publish_step :: "nat \<Rightarrow> dir_snapshot \<Rightarrow> store_world \<Rightarrow> store_world" where
  "store_publish_step i snapshot w =
     (let s = sw_store w
      in case sw_writers w ! i of
           W_idle \<Rightarrow>
             if \<not> store_accepts snapshot \<or> st_writer_lock s then w
             else set_writer i (W_locked snapshot) (w\<lparr>sw_store := s\<lparr>st_writer_lock := True\<rparr>\<rparr>)
         | W_locked new \<Rightarrow> set_writer i (W_waiting new (1 - st_active s)) w
         | W_waiting new k \<Rightarrow> if st_readers s ! k \<noteq> 0 then w else set_writer i (W_writing new k) w
         | W_writing new k \<Rightarrow> set_writer i (W_written k) (w\<lparr>sw_store := s\<lparr>st_slots := (st_slots s)[k := new]\<rparr>\<rparr>)
         | W_written k \<Rightarrow> set_writer i W_flipped (w\<lparr>sw_store := s\<lparr>st_active := k\<rparr>\<rparr>)
         | W_flipped \<Rightarrow> set_writer i W_idle (w\<lparr>sw_store := s\<lparr>st_writer_lock := False\<rparr>\<rparr>))"

inductive store_step :: "store_world \<Rightarrow> store_world \<Rightarrow> bool" where
  reads: "i < length (sw_readers w) \<Longrightarrow> store_step w (store_read_step i w)"
| publishes: "i < length (sw_writers w) \<Longrightarrow> store_step w (store_publish_step i snapshot w)"

definition store_start :: "store_world \<Rightarrow> bool" where
  "store_start w \<longleftrightarrow> sw_store w = jmx_direction_snapshot_store_init \<and>
     (\<forall>r \<in> set (sw_readers w). r = R_idle) \<and> (\<forall>x \<in> set (sw_writers w). x = W_idle)"

definition store_copying :: "store_world \<Rightarrow> (nat \<times> dir_snapshot) set" where
  "store_copying w = {(k, ghost). R_copying k ghost \<in> set (sw_readers w)}"

definition store_writing :: "store_world \<Rightarrow> nat set" where
  "store_writing w = {k. \<exists>new. W_writing new k \<in> set (sw_writers w)}"

subsection \<open>Its invariant\<close>

fun holds :: "nat \<Rightarrow> reader_pc \<Rightarrow> bool" where
  "holds k R_idle \<longleftrightarrow> False"
| "holds k (R_loaded _) \<longleftrightarrow> False"
| "holds k (R_counted j) \<longleftrightarrow> j = k"
| "holds k (R_mismatch j) \<longleftrightarrow> j = k"
| "holds k (R_copying j _) \<longleftrightarrow> j = k"
| "holds k (R_copied j _) \<longleftrightarrow> j = k"

fun slot_in_range :: "reader_pc \<Rightarrow> bool" where
  "slot_in_range R_idle \<longleftrightarrow> True"
| "slot_in_range (R_loaded k) \<longleftrightarrow> k \<le> 1"
| "slot_in_range (R_counted k) \<longleftrightarrow> k \<le> 1"
| "slot_in_range (R_mismatch k) \<longleftrightarrow> k \<le> 1"
| "slot_in_range (R_copying k _) \<longleftrightarrow> k \<le> 1"
| "slot_in_range (R_copied k _) \<longleftrightarrow> k \<le> 1"

text \<open>What a writer past the lock relies on.\<close>

fun writer_ok :: "store_world \<Rightarrow> writer_pc \<Rightarrow> bool" where
  "writer_ok w W_idle \<longleftrightarrow> True"
| "writer_ok w (W_locked _) \<longleftrightarrow> True"
| "writer_ok w (W_waiting _ k) \<longleftrightarrow> k = 1 - st_active (sw_store w)"
| "writer_ok w (W_writing _ k) \<longleftrightarrow> k = 1 - st_active (sw_store w) \<and> store_copying w \<inter> {k} \<times> UNIV = {}"
| "writer_ok w (W_written k) \<longleftrightarrow> k = 1 - st_active (sw_store w) \<and> store_copying w \<inter> {k} \<times> UNIV = {}"
| "writer_ok w W_flipped \<longleftrightarrow> True"

definition readers_ok :: "store_world \<Rightarrow> bool" where
  "readers_ok w \<longleftrightarrow> list_all slot_in_range (sw_readers w) \<and> length (st_readers (sw_store w)) = 2 \<and>
     (\<forall>k \<le> 1. st_readers (sw_store w) ! k = length (filter (holds k) (sw_readers w)))"

definition ghosts_ok :: "store_world \<Rightarrow> bool" where
  "ghosts_ok w \<longleftrightarrow> (\<forall>k ghost. (k, ghost) \<in> store_copying w \<longrightarrow> st_slots (sw_store w) ! k = ghost)"

definition writers_ok :: "store_world \<Rightarrow> bool" where
  "writers_ok w \<longleftrightarrow> length (st_slots (sw_store w)) = 2 \<and> st_active (sw_store w) \<le> 1 \<and>
     length (filter (\<lambda>x. x \<noteq> W_idle) (sw_writers w)) = (if st_writer_lock (sw_store w) then 1 else 0) \<and>
     (\<forall>x \<in> set (sw_writers w). writer_ok w x)"

definition store_inv :: "store_world \<Rightarrow> bool" where
  "store_inv w \<longleftrightarrow> readers_ok w \<and> ghosts_ok w \<and> writers_ok w"

lemma filter_update:
  assumes "i < length xs"
  shows "length (filter P (xs[i := y])) + (if P (xs ! i) then 1 else 0)
       = length (filter P xs) + (if P y then 1 else 0)"
  using assms
proof (induction xs arbitrary: i)
  case (Cons x xs)
  then show ?case
    by (cases i) (use Cons.IH in \<open>auto split: if_splits\<close>)
qed simp

lemma filter_pos: "i < length xs \<Longrightarrow> P (xs ! i) \<Longrightarrow> 0 < length (filter P xs)"
  by (metis filter_empty_conv length_greater_0_conv nth_mem)

lemma only_one:
  assumes "length (filter P xs) = 1" and "i < length xs" and "P (xs ! i)"
  shows "\<forall>x \<in> set (xs[i := y]). x = y \<or> \<not> P x"
proof
  fix x
  assume "x \<in> set (xs[i := y])"
  then obtain j where j: "j < length xs" "x = xs[i := y] ! j"
    by (metis in_set_conv_nth length_list_update)
  show "x = y \<or> \<not> P x"
  proof (cases "j = i")
    case False
    have "\<not> P (xs ! j)"
    proof
      assume "P (xs ! j)"
      then have "{i, j} \<subseteq> {k. k < length xs \<and> P (xs ! k)}"
        using assms j by auto
      then have "card {i, j} \<le> card {k. k < length xs \<and> P (xs ! k)}"
        by (intro card_mono) auto
      then show False
        using assms False by (simp add: length_filter_conv_card)
    qed
    then show ?thesis
      using j False by simp
  qed (use j assms in simp)
qed

lemma copying_set_reader: "store_copying (set_reader i pc w) \<subseteq> store_copying w \<union> {(k, ghost). pc = R_copying k ghost}"
  using set_update_subset_insert [of "sw_readers w" i pc] by (auto simp: store_copying_def)

lemma holds_unique: "slot_in_range pc \<Longrightarrow> holds k pc \<Longrightarrow> k \<le> 1"
  by (cases pc) auto

text \<open>A step of a reader changes its program counter, the counter of one slot, and nothing else.\<close>

lemma readers_ok_update:
  assumes ok: "readers_ok w" and i: "i < length (sw_readers w)" and pc: "slot_in_range pc"
    and r: "length r = 2"
    "\<forall>k \<le> 1. r ! k + (if holds k (sw_readers w ! i) then 1 else 0) = st_readers (sw_store w) ! k + (if holds k pc then 1 else 0)"
  shows "readers_ok (w\<lparr>sw_store := (sw_store w)\<lparr>st_readers := r\<rparr>, sw_readers := (sw_readers w)[i := pc]\<rparr>)"
proof -
  have "r ! k = length (filter (holds k) ((sw_readers w)[i := pc]))" if "k \<le> 1" for k
    using r that ok filter_update [OF i, of "holds k" pc] unfolding readers_ok_def by (metis add_right_cancel)
  then show ?thesis
    using ok pc r set_update_subset_insert [of "sw_readers w" i pc] unfolding readers_ok_def by (auto simp: list_all_iff)
qed

lemma readers_ok_move:
  assumes "readers_ok w" and "i < length (sw_readers w)" and "slot_in_range pc"
    and "\<forall>k \<le> 1. holds k pc = holds k (sw_readers w ! i)"
  shows "readers_ok (set_reader i pc w)"
proof -
  have "length (st_readers (sw_store w)) = 2"
    using assms unfolding readers_ok_def by simp
  from readers_ok_update [OF assms(1-3) this] assms(4) show ?thesis by simp
qed

lemma readers_ok_count:
  assumes ok: "readers_ok w" and i: "i < length (sw_readers w)" and pc: "slot_in_range pc" and j: "j \<le> 1"
    and pair: "(\<forall>k. \<not> holds k (sw_readers w ! i)) \<and> (\<forall>k. holds k pc \<longleftrightarrow> k = j) \<and> n = st_readers (sw_store w) ! j + 1 \<or>
               (\<forall>k. holds k (sw_readers w ! i) \<longleftrightarrow> k = j) \<and> (\<forall>k. \<not> holds k pc) \<and> n = st_readers (sw_store w) ! j - 1"
  shows "readers_ok (set_reader i pc (count_reader j n w))"
proof -
  have len: "length (st_readers (sw_store w)) = 2"
    using ok unfolding readers_ok_def by simp
  have pos: "0 < st_readers (sw_store w) ! j" if "holds j (sw_readers w ! i)"
    using filter_pos [OF i, of "holds j"] that ok j unfolding readers_ok_def by simp
  have "readers_ok (w\<lparr>sw_store := (sw_store w)\<lparr>st_readers := (st_readers (sw_store w))[j := n]\<rparr>, sw_readers := (sw_readers w)[i := pc]\<rparr>)"
    by (rule readers_ok_update [OF ok i pc]) (use len pos pair j in \<open>auto simp: nth_list_update\<close>)
  then show ?thesis
    by (simp add: count_reader_def)
qed

lemma readers_ok_step:
  assumes ok: "readers_ok w" and active: "st_active (sw_store w) \<le> 1" and i: "i < length (sw_readers w)"
  shows "readers_ok (store_read_step i w)"
proof -
  have range: "slot_in_range (sw_readers w ! i)"
    using ok i unfolding readers_ok_def by (simp add: list_all_length)
  note move = readers_ok_move [OF ok i] and count = readers_ok_count [OF ok i]
  show ?thesis
  proof (cases "sw_readers w ! i")
    case (R_loaded k)
    then show ?thesis using count [of "R_counted k" k] range by (auto simp: store_read_step_def Let_def)
  next
    case (R_mismatch k)
    then show ?thesis using count [of R_idle k] range by (auto simp add: store_read_step_def Let_def)
  next
    case (R_copied k out)
    then show ?thesis using count [of R_idle k] range by (auto simp add: store_read_step_def Let_def)
  qed (use range active in \<open>auto simp: store_read_step_def Let_def intro!: move\<close>)
qed

lemma read_step_frame:
  "st_slots (sw_store (store_read_step i w)) = st_slots (sw_store w)"
  "st_active (sw_store (store_read_step i w)) = st_active (sw_store w)"
  "st_writer_lock (sw_store (store_read_step i w)) = st_writer_lock (sw_store w)"
  "sw_writers (store_read_step i w) = sw_writers w"
  by (auto simp: store_read_step_def Let_def count_reader_def split: reader_pc.split)

lemma read_step_copying:
  "store_copying (store_read_step i w) \<subseteq>
     insert (st_active (sw_store w), st_slots (sw_store w) ! st_active (sw_store w)) (store_copying w)"
  by (auto simp: store_copying_def store_read_step_def Let_def count_reader_def
      split: reader_pc.splits if_splits dest!: set_update_subset_insert [THEN subsetD])

lemma disjoint_other: "A \<inter> {(1::nat) - a} \<times> UNIV = {} \<Longrightarrow> B \<subseteq> insert (a, g) A \<Longrightarrow> B \<inter> {1 - a} \<times> UNIV = {}"
proof -
  have "1 - a \<noteq> a" by arith
  then show "A \<inter> {1 - a} \<times> UNIV = {} \<Longrightarrow> B \<subseteq> insert (a, g) A \<Longrightarrow> B \<inter> {1 - a} \<times> UNIV = {}" by auto
qed

lemma writer_ok_mono:
  "writer_ok w x \<Longrightarrow> st_active (sw_store w') = st_active (sw_store w) \<Longrightarrow>
   store_copying w' \<subseteq> insert (st_active (sw_store w), g) (store_copying w) \<Longrightarrow> st_active (sw_store w) \<le> 1 \<Longrightarrow> writer_ok w' x"
  using disjoint_other [of "store_copying w" "st_active (sw_store w)" "store_copying w'" g] by (cases x) auto

lemma store_inv_read:
  assumes inv: "store_inv w" and i: "i < length (sw_readers w)"
  shows "store_inv (store_read_step i w)"
  unfolding store_inv_def
proof (intro conjI)
  have parts: "readers_ok w" "ghosts_ok w" "writers_ok w" and active: "st_active (sw_store w) \<le> 1"
    using inv unfolding store_inv_def writers_ok_def by auto
  show "readers_ok (store_read_step i w)"
    by (rule readers_ok_step [OF parts(1) active i])
  show "ghosts_ok (store_read_step i w)"
    using parts(2) read_step_copying [of i w] unfolding ghosts_ok_def by (auto simp: read_step_frame)
  show "writers_ok (store_read_step i w)"
    using parts(3) writer_ok_mono [OF _ read_step_frame(2) read_step_copying active]
    unfolding writers_ok_def by (simp add: read_step_frame)
qed

subsection \<open>Writers\<close>

lemma publish_step_readers: "readers_ok w \<Longrightarrow> readers_ok (store_publish_step i new w)"
  by (auto simp: store_publish_step_def Let_def readers_ok_def split: writer_pc.split)

lemma publish_step_copying: "store_copying (store_publish_step i new w) = store_copying w"
  by (auto simp: store_publish_step_def Let_def store_copying_def split: writer_pc.split)

text \<open>A counter of 0 means that no reader copies from the slot.\<close>

lemma no_reader: "readers_ok w \<Longrightarrow> k \<le> 1 \<Longrightarrow> st_readers (sw_store w) ! k = 0 \<Longrightarrow> (k, ghost) \<notin> store_copying w"
  unfolding readers_ok_def store_copying_def by (auto simp: filter_empty_conv)

text \<open>Only the holder of the lock is active, so a step of it concerns no other writer.\<close>

lemma writers_ok_holder:
  assumes ok: "writers_ok w" and i: "i < length (sw_writers w)" and active: "sw_writers w ! i \<noteq> W_idle"
    and s: "length (st_slots s) = 2" "st_active s \<le> 1" "st_writer_lock s \<longleftrightarrow> pc \<noteq> W_idle"
    and pc: "writer_ok (w\<lparr>sw_store := s, sw_writers := (sw_writers w)[i := pc]\<rparr>) pc"
  shows "writers_ok (w\<lparr>sw_store := s, sw_writers := (sw_writers w)[i := pc]\<rparr>)"
proof -
  have one: "length (filter (\<lambda>x. x \<noteq> W_idle) (sw_writers w)) = 1"
    using ok filter_pos [OF i, of "\<lambda>x. x \<noteq> W_idle"] active unfolding writers_ok_def by (auto split: if_splits)
  then have "\<forall>x \<in> set ((sw_writers w)[i := pc]). x = pc \<or> x = W_idle"
    using only_one [OF one i, of pc] active by simp
  moreover have "length (filter (\<lambda>x. x \<noteq> W_idle) ((sw_writers w)[i := pc])) = (if pc \<noteq> W_idle then 1 else 0)"
    using filter_update [OF i, of "\<lambda>x. x \<noteq> W_idle" pc] one active by (auto split: if_splits)
  ultimately show ?thesis
    using s pc unfolding writers_ok_def by auto
qed

lemma writers_ok_take:
  assumes ok: "writers_ok w" and i: "i < length (sw_writers w)"
    and free: "sw_writers w ! i = W_idle" "\<not> st_writer_lock (sw_store w)"
  shows "writers_ok (w\<lparr>sw_store := (sw_store w)\<lparr>st_writer_lock := True\<rparr>, sw_writers := (sw_writers w)[i := W_locked new]\<rparr>)"
proof -
  have "length (filter (\<lambda>x. x \<noteq> W_idle) (sw_writers w)) = 0"
    using ok free unfolding writers_ok_def by simp
  then have idle: "\<forall>x \<in> set (sw_writers w). x = W_idle"
    by (auto simp: filter_empty_conv)
  then have "\<forall>x \<in> set ((sw_writers w)[i := W_locked new]). x = W_locked new \<or> x = W_idle"
    using set_update_subset_insert [of "sw_writers w" i "W_locked new"] by blast
  with idle show ?thesis
    using ok free filter_update [OF i, of "\<lambda>x. x \<noteq> W_idle" "W_locked new"]
    unfolding writers_ok_def by auto
qed

lemma writer_at: "writers_ok w \<Longrightarrow> i < length (sw_writers w) \<Longrightarrow> writer_ok w (sw_writers w ! i)"
  unfolding writers_ok_def by simp

lemma writers_ok_lock: "writers_ok w \<Longrightarrow> i < length (sw_writers w) \<Longrightarrow> sw_writers w ! i \<noteq> W_idle \<Longrightarrow> st_writer_lock (sw_store w)"
  using filter_pos [of i "sw_writers w" "\<lambda>x. x \<noteq> W_idle"] unfolding writers_ok_def by (auto split: if_splits)

lemma writers_ok_shape: "writers_ok w \<Longrightarrow> length (st_slots (sw_store w)) = 2 \<and> st_active (sw_store w) \<le> 1"
  unfolding writers_ok_def by simp

lemma store_inv_publish:
  assumes inv: "store_inv w" and i: "i < length (sw_writers w)"
  shows "store_inv (store_publish_step i new w)"
proof -
  have parts: "readers_ok w" "ghosts_ok w" "writers_ok w"
    using inv unfolding store_inv_def by auto
  note shape = writers_ok_shape [OF parts(3)] and at = writer_at [OF parts(3) i]
    and lock = writers_ok_lock [OF parts(3) i]
    and holder = writers_ok_holder [OF parts(3) i]
  let ?w = "store_publish_step i new w"
  have "writers_ok ?w \<and> ghosts_ok ?w"
  proof (cases "sw_writers w ! i")
    case W_idle
    then show ?thesis
      using parts writers_ok_take [OF parts(3) i W_idle, of new]
      by (auto simp: store_publish_step_def Let_def ghosts_ok_def store_copying_def)
  next
    case (W_locked snap)
    then show ?thesis
      using parts shape lock holder [of "sw_store w" "W_waiting snap (1 - st_active (sw_store w))"]
      by (auto simp: store_publish_step_def Let_def ghosts_ok_def store_copying_def)
  next
    case (W_waiting snap k)
    then show ?thesis
      using parts shape at lock no_reader [OF parts(1), of k] holder [of "sw_store w" "W_writing snap k"]
      by (auto simp: store_publish_step_def Let_def ghosts_ok_def store_copying_def)
  next
    case (W_writing snap k)
    have "(k, ghost) \<notin> store_copying w" for ghost
      using at W_writing by auto
    then show ?thesis
      using W_writing parts shape at lock holder [of "(sw_store w)\<lparr>st_slots := (st_slots (sw_store w))[k := snap]\<rparr>" "W_written k"]
      by (auto simp: store_publish_step_def Let_def ghosts_ok_def store_copying_def nth_list_update)
  next
    case (W_written k)
    then show ?thesis
      using parts shape at lock holder [of "(sw_store w)\<lparr>st_active := k\<rparr>" W_flipped]
      by (auto simp: store_publish_step_def Let_def ghosts_ok_def store_copying_def)
  next
    case W_flipped
    then show ?thesis
      using parts shape lock holder [of "(sw_store w)\<lparr>st_writer_lock := False\<rparr>" W_idle]
      by (auto simp: store_publish_step_def Let_def ghosts_ok_def store_copying_def)
  qed
  then show ?thesis
    using publish_step_readers [OF parts(1)] unfolding store_inv_def by blast
qed

lemma store_inv_step: "store_inv w \<Longrightarrow> store_step w w' \<Longrightarrow> store_inv w'"
  by (erule store_step.cases) (auto intro: store_inv_read store_inv_publish)

lemma store_inv_start: "store_start w \<Longrightarrow> store_inv w"
  unfolding store_start_def store_inv_def readers_ok_def ghosts_ok_def writers_ok_def store_copying_def
    jmx_direction_snapshot_store_init_def
  by (auto simp: Let_def list_all_iff filter_empty_conv le_Suc_eq)

interpretation store: snapshot_cell store_start store_step "\<lambda>w. (!) (st_slots (sw_store w))" store_copying store_writing store_inv
proof
  fix w k ghost
  assume inv: "store_inv w"
  show "st_slots (sw_store w) ! k = ghost" if "(k, ghost) \<in> store_copying w"
    using inv that unfolding store_inv_def ghosts_ok_def by blast
  show "(k, ghost) \<notin> store_copying w" if "k \<in> store_writing w"
    using inv that unfolding store_inv_def writers_ok_def store_writing_def by fastforce
qed (auto intro: store_inv_start store_inv_step)

subsection \<open>What is read was published\<close>

definition published :: "dir_snapshot \<Rightarrow> bool" where
  "published snapshot \<longleftrightarrow> snapshot = (jmx_direction_snapshot_init 1 False)\<lparr>ds_ready := 0\<rparr> \<or> store_accepts snapshot"

fun reader_published :: "reader_pc \<Rightarrow> bool" where
  "reader_published (R_copied _ out) \<longleftrightarrow> published out"
| "reader_published _ \<longleftrightarrow> True"

fun writer_published :: "writer_pc \<Rightarrow> bool" where
  "writer_published (W_locked new) \<longleftrightarrow> published new"
| "writer_published (W_waiting new _) \<longleftrightarrow> published new"
| "writer_published (W_writing new _) \<longleftrightarrow> published new"
| "writer_published _ \<longleftrightarrow> True"

definition all_published :: "store_world \<Rightarrow> bool" where
  "all_published w \<longleftrightarrow> list_all published (st_slots (sw_store w)) \<and> list_all reader_published (sw_readers w) \<and>
     list_all writer_published (sw_writers w)"

lemma list_all_update: "list_all P xs \<Longrightarrow> P x \<Longrightarrow> list_all P (xs[i := x])"
  using set_update_subset_insert [of xs i x] by (auto simp: list_all_iff)

lemma all_published_read:
  assumes inv: "store_inv w" "all_published w" and i: "i < length (sw_readers w)"
  shows "all_published (store_read_step i w)"
proof (cases "sw_readers w ! i")
  case (R_copying k ghost)
  have "slot_in_range (sw_readers w ! i)" and "length (st_slots (sw_store w)) = 2"
    using inv i unfolding store_inv_def readers_ok_def writers_ok_def by (auto simp: list_all_length)
  then have "published (st_slots (sw_store w) ! k)"
    using inv(2) R_copying unfolding all_published_def by (simp add: list_all_length)
  then show ?thesis
    using inv(2) R_copying by (simp add: all_published_def store_read_step_def Let_def list_all_update)
qed (use inv in \<open>auto simp: all_published_def store_read_step_def Let_def count_reader_def intro!: list_all_update\<close>)

lemma all_published_publish:
  assumes "all_published w" and i: "i < length (sw_writers w)"
  shows "all_published (store_publish_step i new w)"
proof -
  have "writer_published (sw_writers w ! i)"
    using assms unfolding all_published_def by (simp add: list_all_length)
  then show ?thesis
    using assms by (cases "sw_writers w ! i")
      (auto simp: all_published_def store_publish_step_def Let_def published_def intro!: list_all_update)
qed

lemma all_published_steps:
  assumes "store_step\<^sup>*\<^sup>* w w'" and "store_inv w" and "all_published w"
  shows "store_inv w' \<and> all_published w'"
  using assms by (induction rule: rtranclp_induct)
    (auto intro: store_inv_read store_inv_publish all_published_read all_published_publish elim!: store_step.cases)

lemma all_published_start: "store_start w \<Longrightarrow> all_published w"
  by (auto simp: all_published_def store_start_def jmx_direction_snapshot_store_init_def published_def list_all_iff Let_def)

section \<open>The kernel's slots under RCU\<close>

text \<open>
  \<open>direction_publish_locked\<close> runs under a mutex, so there is one publisher.  \<open>synchronize_rcu\<close> is the
  kernel's: it returns once every read-side section that was open when it was called has been left.
\<close>

datatype rcu_reader = K_outside | K_inside | K_reading nat dir_snapshot

datatype rcu_publisher =
  P_unlocked
| P_chosen dir_snapshot nat             \<comment> \<open>\<open>inactive\<close> computed\<close>
| P_waiting dir_snapshot nat "nat set"  \<comment> \<open>in \<open>synchronize_rcu\<close>, with the sections still open\<close>
| P_writing dir_snapshot nat
| P_written nat

record rcu_world =
  rw_runtime :: dir_runtime
  rw_readers :: "rcu_reader list"
  rw_publisher :: rcu_publisher

definition sections :: "rcu_world \<Rightarrow> nat set" where
  "sections w = {i. i < length (rw_readers w) \<and> rw_readers w ! i \<noteq> K_outside}"

fun leave_section :: "nat \<Rightarrow> rcu_publisher \<Rightarrow> rcu_publisher" where
  "leave_section i (P_waiting new k W) = P_waiting new k (W - {i})"
| "leave_section i pc = pc"

definition rcu_read_step :: "nat \<Rightarrow> rcu_world \<Rightarrow> rcu_world" where
  "rcu_read_step i w =
     (let rt = rw_runtime w
      in case rw_readers w ! i of
           K_outside \<Rightarrow> w\<lparr>rw_readers := (rw_readers w)[i := K_inside]\<rparr>
         | K_inside \<Rightarrow> w\<lparr>rw_readers := (rw_readers w)[i := K_reading (dr_active_slot rt) (dr_slots rt ! dr_active_slot rt)]\<rparr>
         | K_reading k ghost \<Rightarrow>
             w\<lparr>rw_readers := (rw_readers w)[i := K_outside], rw_publisher := leave_section i (rw_publisher w)\<rparr>)"

definition rcu_publish_step :: "dir_snapshot \<Rightarrow> rcu_world \<Rightarrow> rcu_world" where
  "rcu_publish_step snapshot w =
     (let rt = rw_runtime w
      in case rw_publisher w of
           P_unlocked \<Rightarrow> w\<lparr>rw_publisher := P_chosen snapshot (1 - dr_active_slot rt)\<rparr>
         | P_chosen new k \<Rightarrow> w\<lparr>rw_publisher := P_waiting new k (sections w)\<rparr>
         | P_waiting new k W \<Rightarrow> if W = {} then w\<lparr>rw_publisher := P_writing new k\<rparr> else w
         | P_writing new k \<Rightarrow> w\<lparr>rw_runtime := rt\<lparr>dr_slots := (dr_slots rt)[k := new]\<rparr>, rw_publisher := P_written k\<rparr>
         | P_written k \<Rightarrow> w\<lparr>rw_runtime := rt\<lparr>dr_active_slot := k\<rparr>, rw_publisher := P_unlocked\<rparr>)"

inductive rcu_step :: "rcu_world \<Rightarrow> rcu_world \<Rightarrow> bool" where
  rcu_reads: "i < length (rw_readers w) \<Longrightarrow> rcu_step w (rcu_read_step i w)"
| rcu_publishes: "rcu_step w (rcu_publish_step snapshot w)"

definition rcu_start :: "rcu_world \<Rightarrow> bool" where
  "rcu_start w \<longleftrightarrow> (\<exists>env. rw_runtime w = snd (jmx_direction_init env)) \<and>
     (\<forall>r \<in> set (rw_readers w). r = K_outside) \<and> rw_publisher w = P_unlocked"

definition rcu_reading :: "rcu_world \<Rightarrow> (nat \<times> dir_snapshot) set" where
  "rcu_reading w = {(k, ghost). K_reading k ghost \<in> set (rw_readers w)}"

definition rcu_writing :: "rcu_world \<Rightarrow> nat set" where
  "rcu_writing w = {k. \<exists>new. rw_publisher w = P_writing new k}"

definition reads_slot :: "rcu_world \<Rightarrow> nat \<Rightarrow> nat \<Rightarrow> bool" where
  "reads_slot w i k \<longleftrightarrow> i < length (rw_readers w) \<and> (\<exists>ghost. rw_readers w ! i = K_reading k ghost)"

fun publisher_ok :: "rcu_world \<Rightarrow> rcu_publisher \<Rightarrow> bool" where
  "publisher_ok w P_unlocked \<longleftrightarrow> True"
| "publisher_ok w (P_chosen _ k) \<longleftrightarrow> k = 1 - dr_active_slot (rw_runtime w)"
| "publisher_ok w (P_waiting _ k W) \<longleftrightarrow> k = 1 - dr_active_slot (rw_runtime w) \<and> (\<forall>i. reads_slot w i k \<longrightarrow> i \<in> W)"
| "publisher_ok w (P_writing _ k) \<longleftrightarrow> k = 1 - dr_active_slot (rw_runtime w) \<and> (\<forall>i. \<not> reads_slot w i k)"
| "publisher_ok w (P_written k) \<longleftrightarrow> k = 1 - dr_active_slot (rw_runtime w) \<and> (\<forall>i. \<not> reads_slot w i k)"

definition rcu_inv :: "rcu_world \<Rightarrow> bool" where
  "rcu_inv w \<longleftrightarrow> length (dr_slots (rw_runtime w)) = 2 \<and> dr_active_slot (rw_runtime w) \<le> 1 \<and>
     (\<forall>i k ghost. i < length (rw_readers w) \<longrightarrow> rw_readers w ! i = K_reading k ghost \<longrightarrow> dr_slots (rw_runtime w) ! k = ghost) \<and>
     publisher_ok w (rw_publisher w)"

lemma other_slot: "1 - (a::nat) \<noteq> a"
  by arith

lemma rcu_inv_read:
  assumes inv: "rcu_inv w" and i: "i < length (rw_readers w)"
  shows "rcu_inv (rcu_read_step i w)"
proof (cases "rw_readers w ! i")
  case K_outside
  then show ?thesis
    using inv i by (cases "rw_publisher w")
      (auto simp: rcu_inv_def rcu_read_step_def Let_def reads_slot_def nth_list_update)
next
  case K_inside
  then show ?thesis
    using inv i other_slot [of "dr_active_slot (rw_runtime w)"] by (cases "rw_publisher w")
      (auto simp: rcu_inv_def rcu_read_step_def Let_def reads_slot_def nth_list_update split: if_splits)
next
  case (K_reading k ghost)
  then show ?thesis
    using inv i by (cases "rw_publisher w")
      (auto simp: rcu_inv_def rcu_read_step_def Let_def reads_slot_def nth_list_update split: if_splits)
qed

lemma rcu_inv_publish:
  assumes inv: "rcu_inv w"
  shows "rcu_inv (rcu_publish_step new w)"
  using inv by (cases "rw_publisher w")
    (auto simp: rcu_inv_def rcu_publish_step_def Let_def reads_slot_def sections_def nth_list_update)

lemma rcu_inv_step: "rcu_inv w \<Longrightarrow> rcu_step w w' \<Longrightarrow> rcu_inv w'"
  by (erule rcu_step.cases) (auto intro: rcu_inv_read rcu_inv_publish)

lemma rcu_inv_start: "rcu_start w \<Longrightarrow> rcu_inv w"
  unfolding rcu_start_def rcu_inv_def jmx_direction_init_def
  by (auto simp: Let_def all_set_conv_all_nth)

interpretation rcu: snapshot_cell rcu_start rcu_step "\<lambda>w. (!) (dr_slots (rw_runtime w))" rcu_reading rcu_writing rcu_inv
proof
  fix w k ghost
  assume inv: "rcu_inv w"
  show "dr_slots (rw_runtime w) ! k = ghost" if "(k, ghost) \<in> rcu_reading w"
    using inv that unfolding rcu_inv_def rcu_reading_def by (auto simp: in_set_conv_nth)
  show "(k, ghost) \<notin> rcu_reading w" if "k \<in> rcu_writing w"
    using inv that unfolding rcu_inv_def rcu_reading_def rcu_writing_def
    by (auto simp: in_set_conv_nth reads_slot_def)
qed (auto intro: rcu_inv_start rcu_inv_step)

section \<open>Reads are never torn\<close>

text \<open>A publication that nobody disturbs is the sequential one, in both stores.\<close>

lemma rcu_publication:
  assumes "rw_publisher w = P_unlocked" and "sections w = {}"
  shows "(rcu_publish_step new ^^ 5) w = w\<lparr>rw_runtime := direction_publish_locked new (rw_runtime w)\<rparr>"
  using assms by (simp add: numeral_nat rcu_publish_step_def sections_def direction_publish_locked_def Let_def)

definition demo_rcu :: rcu_world where
  "demo_rcu = \<lparr>rw_runtime = demo_runtime, rw_readers = [K_outside, K_outside], rw_publisher = P_unlocked\<rparr>"

definition demo_store :: store_world where
  "demo_store = \<lparr>sw_store = jmx_direction_snapshot_store_init, sw_readers = [R_idle], sw_writers = [W_idle, W_idle]\<rparr>"

lemma after_publish: "store_step\<^sup>*\<^sup>* w w' \<Longrightarrow> i < length (sw_writers w') \<Longrightarrow> store_step\<^sup>*\<^sup>* w (store_publish_step i new w')"
  and after_read: "store_step\<^sup>*\<^sup>* w w' \<Longrightarrow> i < length (sw_readers w') \<Longrightarrow> store_step\<^sup>*\<^sup>* w (store_read_step i w')"
  by (auto intro: rtranclp.rtrancl_into_rtrancl store_step.intros)

lemma after_rcu_publish: "rcu_step\<^sup>*\<^sup>* w w' \<Longrightarrow> rcu_step\<^sup>*\<^sup>* w (rcu_publish_step new w')"
  and after_rcu_read: "rcu_step\<^sup>*\<^sup>* w w' \<Longrightarrow> i < length (rw_readers w') \<Longrightarrow> rcu_step\<^sup>*\<^sup>* w (rcu_read_step i w')"
  by (auto intro: rtranclp.rtrancl_into_rtrancl rcu_step.intros)

lemma demo_rcu_start: "rcu_start demo_rcu"
  by (auto simp: rcu_start_def demo_rcu_def demo_runtime_def)

lemma demo_store_start: "store_start demo_store"
  by (simp add: store_start_def demo_store_def)


text \<open>A reader chooses slot 0 and copies it while a writer waits for slot 1.\<close>

definition demo_store_copying :: store_world where
  "demo_store_copying = store_publish_step 0 demo_dir (store_publish_step 0 demo_dir
     (store_read_step 0 (store_read_step 0 (store_read_step 0 demo_store))))"

lemma demo_store_steps: "store_step\<^sup>*\<^sup>* demo_store demo_store_copying"
  unfolding demo_store_copying_def
  by (intro after_publish after_read rtranclp.rtrancl_refl)
    (simp_all add: demo_store_def store_read_step_def store_publish_step_def Let_def count_reader_def jmx_direction_snapshot_store_init_def)


text \<open>Whatever jmx_direction_snapshot_store_read hands out, under any interleaving, is the blank snapshot
  the store starts with or a snapshot that a writer published and that passed the publication's checks:
  never a mixture of two.\<close>

theorem store_reads_published:
  assumes "store_start w" and "store_step\<^sup>*\<^sup>* w w'" and "R_copied k out \<in> set (sw_readers w')"
  shows "out = (jmx_direction_snapshot_init 1 False)\<lparr>ds_ready := 0\<rparr> \<or> store_accepts out"
  using assms(3) all_published_steps [OF assms(2) store_inv_start [OF assms(1)] all_published_start [OF assms(1)]]
  by (auto simp: all_published_def list_all_iff published_def)

lemma demo_store_copied: "store_step\<^sup>*\<^sup>* demo_store (store_read_step 0 demo_store_copying)"
  by (rule rtranclp.rtrancl_into_rtrancl [OF demo_store_steps store_step.reads])
    (simp add: demo_store_copying_def demo_store_def store_read_step_def store_publish_step_def Let_def count_reader_def
      jmx_direction_snapshot_store_init_def)

theorem store_reads_published_witness:
  "\<exists>k out. R_copied k out \<in> set (sw_readers (store_read_step 0 demo_store_copying)) \<and>
     (out = (jmx_direction_snapshot_init 1 False)\<lparr>ds_ready := 0\<rparr> \<or> store_accepts out)"
proof -
  have "R_copied 0 ((jmx_direction_snapshot_init 1 False)\<lparr>ds_ready := 0\<rparr>) \<in> set (sw_readers (store_read_step 0 demo_store_copying))"
    by (simp add: demo_store_copying_def demo_store_def store_read_step_def store_publish_step_def Let_def count_reader_def
        jmx_direction_snapshot_store_init_def)
  from this store_reads_published [OF demo_store_start demo_store_copied this] show ?thesis by blast
qed

text \<open>C31: A packet classified by the kernel while snapshots are published sees one snapshot: as long as its
  read-side section lasts, the slot it loaded still holds the snapshot that was active then, and a
  publisher that writes to the other slot (after synchronize_rcu) finds no reader on it.\<close>

theorem rcu_reads_untorn:
  assumes "rcu_start w" and "rcu_step\<^sup>*\<^sup>* w w'"
  shows "(\<forall>k ghost. (k, ghost) \<in> rcu_reading w' \<longrightarrow> dr_slots (rw_runtime w') ! k = ghost) \<and>
         (\<forall>k \<in> rcu_writing w'. \<forall>ghost. (k, ghost) \<notin> rcu_reading w')"
  using assms by (rule rcu.untorn)

definition demo_rcu_waiting :: rcu_world where
  "demo_rcu_waiting = rcu_publish_step demo_dir (rcu_publish_step demo_dir (rcu_read_step 0 (rcu_read_step 0 demo_rcu)))"

lemma demo_rcu_steps: "rcu_step\<^sup>*\<^sup>* demo_rcu demo_rcu_waiting"
  unfolding demo_rcu_waiting_def
  by (intro after_rcu_publish after_rcu_read rtranclp.rtrancl_refl)
    (simp_all add: demo_rcu_def rcu_read_step_def Let_def)

theorem rcu_reads_untorn_witness:
  "\<exists>ghost. (0, ghost) \<in> rcu_reading demo_rcu_waiting \<and> dr_slots (rw_runtime demo_rcu_waiting) ! 0 = ghost"
proof -
  have "(0, dr_slots demo_runtime ! 0) \<in> rcu_reading demo_rcu_waiting"
    by (simp add: demo_rcu_waiting_def demo_rcu_def rcu_read_step_def rcu_publish_step_def Let_def rcu_reading_def
        demo_runtime_def jmx_direction_init_def dir_env_def)
  with rcu_reads_untorn [OF demo_rcu_start demo_rcu_steps] show ?thesis by blast
qed

end
