(* ===== verification/V3Wire.thy ===== *)
theory V3Wire
  imports Prelude
begin

text \<open>
  The v3 rule ABI shared by the daemon and the kernel module (\<open>jmx_nl_rule_v3.h\<close>, one copy in each
  package): the packed little-endian structures, their enumerations and the CRC-32 both sides
  compute over a payload (\<open>payload_crc32\<close> in \<open>jmx_v3_nl_handler.c\<close>, \<open>v3_payload_crc32\<close> in
  \<open>jmx_nl_push.c\<close>).  A record of this theory holds the field values after \<open>le32_to_cpu\<close>; the
  encoders and decoders give the byte image of the packed C structure.  The locale
  \<open>record_codec\<close> states what an array of packed records means and is interpreted on all six of them.
\<close>

unbundle bit_operations_syntax

section \<open>Constants of the ABI\<close>

abbreviation (input) JMX_RULE_ABI_V3 :: u16 where "JMX_RULE_ABI_V3 \<equiv> 3"
abbreviation (input) JMX_V3_PAYLOAD_MAX :: nat where "JMX_V3_PAYLOAD_MAX \<equiv> 64"
abbreviation (input) JMX_V3_CATALOG_DIGEST_LEN :: nat where "JMX_V3_CATALOG_DIGEST_LEN \<equiv> 32"
abbreviation (input) JMX_V3_MAX_STEPS_PER_RULE :: u16 where "JMX_V3_MAX_STEPS_PER_RULE \<equiv> 64"
abbreviation (input) JMX_V3_MAX_PORTS_PER_RULE :: u16 where "JMX_V3_MAX_PORTS_PER_RULE \<equiv> 64"

abbreviation (input) JMX_NL_ACT_RULESET_BEGIN_V3 :: u32 where "JMX_NL_ACT_RULESET_BEGIN_V3 \<equiv> 50"
abbreviation (input) JMX_NL_ACT_RULE_V3_BATCH :: u32 where "JMX_NL_ACT_RULE_V3_BATCH \<equiv> 51"
abbreviation (input) JMX_NL_ACT_STEP_V3_BATCH :: u32 where "JMX_NL_ACT_STEP_V3_BATCH \<equiv> 52"
abbreviation (input) JMX_NL_ACT_PORT_V3_BATCH :: u32 where "JMX_NL_ACT_PORT_V3_BATCH \<equiv> 53"
abbreviation (input) JMX_NL_ACT_RULESET_COMMIT_V3 :: u32 where "JMX_NL_ACT_RULESET_COMMIT_V3 \<equiv> 54"
abbreviation (input) JMX_NL_ACT_RULESET_ABORT_V3 :: u32 where "JMX_NL_ACT_RULESET_ABORT_V3 \<equiv> 55"
abbreviation (input) JMX_NL_ACT_RULESET_STATUS_V3 :: u32 where "JMX_NL_ACT_RULESET_STATUS_V3 \<equiv> 56"
abbreviation (input) JMX_NL_ACT_CAPABILITY_V3 :: u32 where "JMX_NL_ACT_CAPABILITY_V3 \<equiv> 57"

abbreviation (input) JMX_V3_CAP_RAW_LITERAL_CHAIN :: u32 where "JMX_V3_CAP_RAW_LITERAL_CHAIN \<equiv> 0x001"
abbreviation (input) JMX_V3_CAP_NOCASE :: u32 where "JMX_V3_CAP_NOCASE \<equiv> 0x002"
abbreviation (input) JMX_V3_CAP_POSITION_ABSOLUTE :: u32 where "JMX_V3_CAP_POSITION_ABSOLUTE \<equiv> 0x004"
abbreviation (input) JMX_V3_CAP_POSITION_RELATIVE :: u32 where "JMX_V3_CAP_POSITION_RELATIVE \<equiv> 0x008"
abbreviation (input) JMX_V3_CAP_PROTOCOL_MAPPING :: u32 where "JMX_V3_CAP_PROTOCOL_MAPPING \<equiv> 0x400"

definition JMX_V3_CAP_PHASE1_MASK :: u32 where
  "JMX_V3_CAP_PHASE1_MASK =
     (JMX_V3_CAP_RAW_LITERAL_CHAIN OR JMX_V3_CAP_NOCASE OR JMX_V3_CAP_POSITION_ABSOLUTE OR
      JMX_V3_CAP_POSITION_RELATIVE OR JMX_V3_CAP_PROTOCOL_MAPPING)"

abbreviation (input) JMX_V3_MODE_OFF :: u32 where "JMX_V3_MODE_OFF \<equiv> 0"
abbreviation (input) JMX_V3_MODE_SHADOW :: u32 where "JMX_V3_MODE_SHADOW \<equiv> 1"
abbreviation (input) JMX_V3_MODE_ACTIVE :: u32 where "JMX_V3_MODE_ACTIVE \<equiv> 2"
abbreviation (input) JMX_V3_TX_MODE_MASK :: u32 where "JMX_V3_TX_MODE_MASK \<equiv> 3"
abbreviation (input) JMX_V3_TX_KNOWN_FLAGS :: u32 where "JMX_V3_TX_KNOWN_FLAGS \<equiv> JMX_V3_TX_MODE_MASK"

abbreviation (input) JMX_V3_PROTO_ANY :: u8 where "JMX_V3_PROTO_ANY \<equiv> 0"
abbreviation (input) JMX_V3_PROTO_TCP :: u8 where "JMX_V3_PROTO_TCP \<equiv> 1"
abbreviation (input) JMX_V3_PROTO_UDP :: u8 where "JMX_V3_PROTO_UDP \<equiv> 2"
abbreviation (input) JMX_V3_DIR_ANY :: u8 where "JMX_V3_DIR_ANY \<equiv> 0"
abbreviation (input) JMX_V3_DIR_BIDIRECTIONAL :: u8 where "JMX_V3_DIR_BIDIRECTIONAL \<equiv> 3"

abbreviation (input) JMX_V3_MATCH_LITERAL_NOCASE :: u8 where "JMX_V3_MATCH_LITERAL_NOCASE \<equiv> 0"
abbreviation (input) JMX_V3_MATCH_LITERAL_EXACT_1 :: u8 where "JMX_V3_MATCH_LITERAL_EXACT_1 \<equiv> 1"
abbreviation (input) JMX_V3_MATCH_LITERAL_EXACT_2 :: u8 where "JMX_V3_MATCH_LITERAL_EXACT_2 \<equiv> 2"
abbreviation (input) JMX_V3_CONDITION_POSITIVE :: u8 where "JMX_V3_CONDITION_POSITIVE \<equiv> 1"
abbreviation (input) JMX_V3_CASE_NOCASE :: u8 where "JMX_V3_CASE_NOCASE \<equiv> 1"
abbreviation (input) JMX_V3_CASE_EXACT :: u8 where "JMX_V3_CASE_EXACT \<equiv> 2"
abbreviation (input) JMX_V3_VIEW_RAW :: u8 where "JMX_V3_VIEW_RAW \<equiv> 0"
abbreviation (input) JMX_V3_POS_DEPTH :: u8 where "JMX_V3_POS_DEPTH \<equiv> 1"
abbreviation (input) JMX_V3_POS_OFFSET :: u8 where "JMX_V3_POS_OFFSET \<equiv> 2"
abbreviation (input) JMX_V3_POS_DISTANCE :: u8 where "JMX_V3_POS_DISTANCE \<equiv> 4"
abbreviation (input) JMX_V3_POS_WITHIN :: u8 where "JMX_V3_POS_WITHIN \<equiv> 8"
abbreviation (input) JMX_V3_POS_KNOWN_MASK :: u8 where "JMX_V3_POS_KNOWN_MASK \<equiv> 0x0f"
abbreviation (input) JMX_V3_PORT_SOURCE :: u8 where "JMX_V3_PORT_SOURCE \<equiv> 1"
abbreviation (input) JMX_V3_PORT_DESTINATION :: u8 where "JMX_V3_PORT_DESTINATION \<equiv> 2"
abbreviation (input) JMX_V3_PORT_EITHER :: u8 where "JMX_V3_PORT_EITHER \<equiv> 3"

abbreviation (input) JMX_V3_STATUS_OK :: u32 where "JMX_V3_STATUS_OK \<equiv> 0"
abbreviation (input) JMX_V3_STATUS_ERROR :: u32 where "JMX_V3_STATUS_ERROR \<equiv> 1"
abbreviation (input) JMX_V3_STAGING_NONE :: u32 where "JMX_V3_STAGING_NONE \<equiv> 0"
abbreviation (input) JMX_V3_STAGING_LOADING :: u32 where "JMX_V3_STAGING_LOADING \<equiv> 1"
abbreviation (input) JMX_V3_STAGING_FAILED :: u32 where "JMX_V3_STAGING_FAILED \<equiv> 2"

abbreviation (input) JMX_V3_REASON_NONE :: u32 where "JMX_V3_REASON_NONE \<equiv> 0"
abbreviation (input) JMX_V3_REASON_BAD_ABI :: u32 where "JMX_V3_REASON_BAD_ABI \<equiv> 1"
abbreviation (input) JMX_V3_REASON_BAD_HEADER :: u32 where "JMX_V3_REASON_BAD_HEADER \<equiv> 2"
abbreviation (input) JMX_V3_REASON_BAD_SIZE :: u32 where "JMX_V3_REASON_BAD_SIZE \<equiv> 3"
abbreviation (input) JMX_V3_REASON_BAD_CRC :: u32 where "JMX_V3_REASON_BAD_CRC \<equiv> 4"
abbreviation (input) JMX_V3_REASON_BAD_GENERATION :: u32 where "JMX_V3_REASON_BAD_GENERATION \<equiv> 5"
abbreviation (input) JMX_V3_REASON_BUSY :: u32 where "JMX_V3_REASON_BUSY \<equiv> 6"
abbreviation (input) JMX_V3_REASON_NO_MEMORY :: u32 where "JMX_V3_REASON_NO_MEMORY \<equiv> 7"
abbreviation (input) JMX_V3_REASON_COUNT_MISMATCH :: u32 where "JMX_V3_REASON_COUNT_MISMATCH \<equiv> 8"
abbreviation (input) JMX_V3_REASON_BAD_RECORD :: u32 where "JMX_V3_REASON_BAD_RECORD \<equiv> 9"
abbreviation (input) JMX_V3_REASON_CAPABILITY :: u32 where "JMX_V3_REASON_CAPABILITY \<equiv> 10"
abbreviation (input) JMX_V3_REASON_BAD_REFERENCE :: u32 where "JMX_V3_REASON_BAD_REFERENCE \<equiv> 11"
abbreviation (input) JMX_V3_REASON_STEP_SEQUENCE :: u32 where "JMX_V3_REASON_STEP_SEQUENCE \<equiv> 12"
abbreviation (input) JMX_V3_REASON_BUILD_FAILED :: u32 where "JMX_V3_REASON_BUILD_FAILED \<equiv> 13"
abbreviation (input) JMX_V3_REASON_NOT_OWNER :: u32 where "JMX_V3_REASON_NOT_OWNER \<equiv> 15"
abbreviation (input) JMX_V3_REASON_UNSUPPORTED_ACTION :: u32 where "JMX_V3_REASON_UNSUPPORTED_ACTION \<equiv> 16"

section \<open>The packed structures\<close>

record v3_hdr =
  h_action :: u32
  h_abi_version :: u16
  h_header_size :: u16
  h_record_size :: u32
  h_generation :: u32
  h_count :: u32
  h_payload_bytes :: u32
  h_flags :: u32
  h_crc32 :: u32

record v3_begin =
  bg_expected_rules :: u32
  bg_expected_steps :: u32
  bg_expected_ports :: u32
  bg_required_capabilities :: u32
  bg_catalog_digest :: bytes

record v3_rule_wire =
  rw_signature_rule_id :: u32
  rw_appid :: u32
  rw_priority :: u32
  rw_required_caps :: u32
  rw_step_count :: u16
  rw_proto :: u8
  rw_dir :: u8
  rw_flags :: u8
  rw_reserved :: bytes

record v3_step_wire =
  sw_signature_rule_id :: u32
  sw_step_index :: u16
  sw_matcher_type :: u8
  sw_condition :: u8
  sw_case_mode :: u8
  sw_input_view :: u8
  sw_position_flags :: u8
  sw_numeric_encoding :: u8
  sw_literal_option :: u8
  sw_reserved :: bytes
  sw_depth :: u32
  sw_offset :: u32
  sw_distance :: u32
  sw_within :: u32
  sw_payload_len :: u16
  sw_reference_source :: u16
  sw_comparison :: u8
  sw_adjust_mode :: u8
  sw_width :: u8
  sw_jump_multiplier :: u8
  sw_inline_operand :: u32
  sw_adjustment_operand :: u32
  sw_jump_base :: u32
  sw_payload :: bytes

record v3_port_wire =
  pw_signature_rule_id :: u32
  pw_endpoint :: u8
  pw_reserved :: bytes
  pw_min_port :: u16
  pw_max_port :: u16

record v3_status =
  ss_request_action :: u32
  ss_status :: u32
  ss_reason :: u32
  ss_detail :: u32
  ss_engine_capabilities :: u32
  ss_active_generation :: u32
  ss_active_rules :: u32
  ss_active_steps :: u32
  ss_active_ports :: u32
  ss_active_mode :: u32
  ss_active_catalog_digest :: bytes
  ss_staging_generation :: u32
  ss_staging_state :: u32

text \<open>The byte arrays inside a structure have the length of their C declaration.\<close>

definition begin_wf :: "v3_begin \<Rightarrow> bool" where
  "begin_wf b \<longleftrightarrow> length (bg_catalog_digest b) = 32"

definition rule_wf :: "v3_rule_wire \<Rightarrow> bool" where
  "rule_wf r \<longleftrightarrow> length (rw_reserved r) = 3"

definition step_wf :: "v3_step_wire \<Rightarrow> bool" where
  "step_wf s \<longleftrightarrow> length (sw_reserved s) = 3 \<and> length (sw_payload s) = 64"

definition port_wf :: "v3_port_wire \<Rightarrow> bool" where
  "port_wf p \<longleftrightarrow> length (pw_reserved p) = 3"

definition status_wf :: "v3_status \<Rightarrow> bool" where
  "status_wf s \<longleftrightarrow> length (ss_active_catalog_digest s) = 32"

section \<open>Byte images\<close>

definition enc_hdr :: "v3_hdr \<Rightarrow> bytes" where
  "enc_hdr h = le32 (h_action h) @ le16 (h_abi_version h) @ le16 (h_header_size h) @
     le32 (h_record_size h) @ le32 (h_generation h) @ le32 (h_count h) @
     le32 (h_payload_bytes h) @ le32 (h_flags h) @ le32 (h_crc32 h)"

definition dec_hdr :: "bytes \<Rightarrow> v3_hdr" where
  "dec_hdr bs = \<lparr>h_action = get_le32 bs 0, h_abi_version = get_le16 bs 4,
     h_header_size = get_le16 bs 6, h_record_size = get_le32 bs 8, h_generation = get_le32 bs 12,
     h_count = get_le32 bs 16, h_payload_bytes = get_le32 bs 20, h_flags = get_le32 bs 24,
     h_crc32 = get_le32 bs 28\<rparr>"

definition enc_begin :: "v3_begin \<Rightarrow> bytes" where
  "enc_begin b = le32 (bg_expected_rules b) @ le32 (bg_expected_steps b) @
     le32 (bg_expected_ports b) @ le32 (bg_required_capabilities b) @ bg_catalog_digest b"

definition dec_begin :: "bytes \<Rightarrow> v3_begin" where
  "dec_begin bs = \<lparr>bg_expected_rules = get_le32 bs 0, bg_expected_steps = get_le32 bs 4,
     bg_expected_ports = get_le32 bs 8, bg_required_capabilities = get_le32 bs 12,
     bg_catalog_digest = take 32 (drop 16 bs)\<rparr>"

definition enc_rule :: "v3_rule_wire \<Rightarrow> bytes" where
  "enc_rule r = le32 (rw_signature_rule_id r) @ le32 (rw_appid r) @ le32 (rw_priority r) @
     le32 (rw_required_caps r) @ le16 (rw_step_count r) @ [rw_proto r, rw_dir r, rw_flags r] @
     rw_reserved r"

definition dec_rule :: "bytes \<Rightarrow> v3_rule_wire" where
  "dec_rule bs = \<lparr>rw_signature_rule_id = get_le32 bs 0, rw_appid = get_le32 bs 4,
     rw_priority = get_le32 bs 8, rw_required_caps = get_le32 bs 12, rw_step_count = get_le16 bs 16,
     rw_proto = bs ! 18, rw_dir = bs ! 19, rw_flags = bs ! 20, rw_reserved = take 3 (drop 21 bs)\<rparr>"

definition enc_step :: "v3_step_wire \<Rightarrow> bytes" where
  "enc_step s = le32 (sw_signature_rule_id s) @ le16 (sw_step_index s) @
     [sw_matcher_type s, sw_condition s, sw_case_mode s, sw_input_view s, sw_position_flags s,
      sw_numeric_encoding s, sw_literal_option s] @ sw_reserved s @
     le32 (sw_depth s) @ le32 (sw_offset s) @ le32 (sw_distance s) @ le32 (sw_within s) @
     le16 (sw_payload_len s) @ le16 (sw_reference_source s) @
     [sw_comparison s, sw_adjust_mode s, sw_width s, sw_jump_multiplier s] @
     le32 (sw_inline_operand s) @ le32 (sw_adjustment_operand s) @ le32 (sw_jump_base s) @
     sw_payload s"

definition dec_step :: "bytes \<Rightarrow> v3_step_wire" where
  "dec_step bs = \<lparr>sw_signature_rule_id = get_le32 bs 0, sw_step_index = get_le16 bs 4,
     sw_matcher_type = bs ! 6, sw_condition = bs ! 7, sw_case_mode = bs ! 8, sw_input_view = bs ! 9,
     sw_position_flags = bs ! 10, sw_numeric_encoding = bs ! 11, sw_literal_option = bs ! 12,
     sw_reserved = take 3 (drop 13 bs), sw_depth = get_le32 bs 16, sw_offset = get_le32 bs 20,
     sw_distance = get_le32 bs 24, sw_within = get_le32 bs 28, sw_payload_len = get_le16 bs 32,
     sw_reference_source = get_le16 bs 34, sw_comparison = bs ! 36, sw_adjust_mode = bs ! 37,
     sw_width = bs ! 38, sw_jump_multiplier = bs ! 39, sw_inline_operand = get_le32 bs 40,
     sw_adjustment_operand = get_le32 bs 44, sw_jump_base = get_le32 bs 48,
     sw_payload = take 64 (drop 52 bs)\<rparr>"

definition enc_port :: "v3_port_wire \<Rightarrow> bytes" where
  "enc_port p = le32 (pw_signature_rule_id p) @ [pw_endpoint p] @ pw_reserved p @
     le16 (pw_min_port p) @ le16 (pw_max_port p)"

definition dec_port :: "bytes \<Rightarrow> v3_port_wire" where
  "dec_port bs = \<lparr>pw_signature_rule_id = get_le32 bs 0, pw_endpoint = bs ! 4,
     pw_reserved = take 3 (drop 5 bs), pw_min_port = get_le16 bs 8, pw_max_port = get_le16 bs 10\<rparr>"

definition enc_status :: "v3_status \<Rightarrow> bytes" where
  "enc_status s = le32 (ss_request_action s) @ le32 (ss_status s) @ le32 (ss_reason s) @
     le32 (ss_detail s) @ le32 (ss_engine_capabilities s) @ le32 (ss_active_generation s) @
     le32 (ss_active_rules s) @ le32 (ss_active_steps s) @ le32 (ss_active_ports s) @
     le32 (ss_active_mode s) @ ss_active_catalog_digest s @ le32 (ss_staging_generation s) @
     le32 (ss_staging_state s)"

definition dec_status :: "bytes \<Rightarrow> v3_status" where
  "dec_status bs = \<lparr>ss_request_action = get_le32 bs 0, ss_status = get_le32 bs 4,
     ss_reason = get_le32 bs 8, ss_detail = get_le32 bs 12, ss_engine_capabilities = get_le32 bs 16,
     ss_active_generation = get_le32 bs 20, ss_active_rules = get_le32 bs 24,
     ss_active_steps = get_le32 bs 28, ss_active_ports = get_le32 bs 32,
     ss_active_mode = get_le32 bs 36, ss_active_catalog_digest = take 32 (drop 40 bs),
     ss_staging_generation = get_le32 bs 72, ss_staging_state = get_le32 bs 76\<rparr>"

section \<open>Layout: decoders and encoders are inverse\<close>

lemma le32_get_le32 [wire_simps]:
  "i + 4 \<le> length bs \<Longrightarrow> le32 (get_le32 bs i) = take 4 (drop i bs)"
proof -
  assume "i + 4 \<le> length bs"
  then have "take 4 (drop i bs) = [bs ! i, bs ! (i + 1), bs ! (i + 2), bs ! (i + 3)]"
    by (auto intro!: nth_equalityI simp: less_Suc_eq numeral_eq_Suc)
  then show ?thesis
    using be32_get_be32 [of "bs ! (i + 3)" "bs ! (i + 2)" "bs ! (i + 1)" "bs ! i"]
    by (simp add: le32_def be32_def get_le32_def)
qed

lemma le16_get_le16 [wire_simps]:
  "i + 2 \<le> length bs \<Longrightarrow> le16 (get_le16 bs i) = take 2 (drop i bs)"
proof -
  assume "i + 2 \<le> length bs"
  then have "take 2 (drop i bs) = [bs ! i, bs ! (i + 1)]"
    by (auto intro!: nth_equalityI simp: less_Suc_eq numeral_eq_Suc)
  then show ?thesis
    using be16_get_be16 [of "bs ! (i + 1)" "bs ! i"] by (simp add: le16_def be16_def get_le16_def)
qed

lemma take_glue [wire_simps]:
  "j = i + a \<Longrightarrow> take a (drop i bs) @ drop j bs = drop i bs"
  by (metis append_take_drop_id drop_drop add.commute)

lemma take_glue_append [wire_simps]:
  "j = i + a \<Longrightarrow> take a (drop i bs) @ take b (drop j bs) @ r = take (a + b) (drop i bs) @ r"
  by (metis append_assoc drop_drop take_add add.commute)

lemma nth_glue [wire_simps]:
  "i < length bs \<Longrightarrow> j = Suc i \<Longrightarrow> bs ! i # drop j bs = drop i bs"
  by (simp add: Cons_nth_drop_Suc)

lemma nth_glue_append [wire_simps]:
  "i < length bs \<Longrightarrow> j = Suc i \<Longrightarrow> bs ! i # take b (drop j bs) @ r = take (Suc b) (drop i bs) @ r"
  by (simp add: Cons_nth_drop_Suc [symmetric])

text \<open>Reading a field past a prefix.\<close>

lemma get_le32_head [simp]: "get_le32 (le32 v @ r) 0 = v" "get_le32 (le32 v) 0 = v"
  by (simp_all add: get_le32_def le32_def)

lemma get_le16_head [simp]: "get_le16 (le16 v @ r) 0 = v" "get_le16 (le16 v) 0 = v"
  by (simp_all add: get_le16_def le16_def)

lemma get_le32_append [wire_simps]: "length a \<le> i \<Longrightarrow> get_le32 (a @ r) i = get_le32 r (i - length a)"
  by (auto dest!: le_Suc_ex simp: get_le32_def nth_append)

lemma get_le16_append [wire_simps]: "length a \<le> i \<Longrightarrow> get_le16 (a @ r) i = get_le16 r (i - length a)"
  by (simp add: get_le16_def nth_append Suc_diff_le)

lemma get_le32_Cons [wire_simps]: "0 < i \<Longrightarrow> get_le32 (x # r) i = get_le32 r (i - 1)"
  by (cases i) (simp_all add: get_le32_def add.commute)

lemma get_le16_Cons [wire_simps]: "0 < i \<Longrightarrow> get_le16 (x # r) i = get_le16 r (i - 1)"
  by (cases i) (simp_all add: get_le16_def)

lemma nth_after [wire_simps]: "length a \<le> i \<Longrightarrow> (a @ r) ! i = r ! (i - length a)"
  by (simp add: nth_append)

locale record_codec =
  fixes enc :: "'r \<Rightarrow> bytes" and dec :: "bytes \<Rightarrow> 'r" and wf :: "'r \<Rightarrow> bool" and size :: nat
  assumes size_pos: "0 < size"
    and length_enc: "wf r \<Longrightarrow> length (enc r) = size"
    and dec_enc: "wf r \<Longrightarrow> dec (enc r) = r"
    and enc_dec: "length bs = size \<Longrightarrow> enc (dec bs) = bs"
    and wf_dec: "length bs = size \<Longrightarrow> wf (dec bs)"
begin

text \<open>An array of \<open>n\<close> packed records, read at stride \<open>size\<close>.\<close>

definition records :: "nat \<Rightarrow> bytes \<Rightarrow> 'r list" where
  "records n bs = map (\<lambda>i. dec (take size (drop (i * size) bs))) [0..<n]"

definition image :: "'r list \<Rightarrow> bytes" where
  "image rs = concat (map enc rs)"

lemma image_Nil [simp]: "image [] = []" and image_Cons [simp]: "image (r # rs) = enc r @ image rs"
  by (simp_all add: image_def)

lemma length_records [simp]: "length (records n bs) = n"
  by (simp add: records_def)

lemma length_image: "list_all wf rs \<Longrightarrow> length (image rs) = length rs * size"
  by (induction rs) (simp_all add: length_enc)

lemma records_Suc: "records (Suc n) bs = dec (take size bs) # records n (drop size bs)"
  by (simp add: records_def upt_conv_Cons map_Suc_upt [symmetric] add.commute del: upt_Suc)

lemma records_image: "list_all wf rs \<Longrightarrow> records (length rs) (image rs) = rs"
proof (induction rs)
  case (Cons r rs)
  then show ?case by (simp add: records_Suc length_enc dec_enc)
qed (simp add: records_def)

lemma image_records: "length bs = n * size \<Longrightarrow> image (records n bs) = bs"
proof (induction n arbitrary: bs)
  case (Suc n)
  then show ?case by (simp add: records_Suc enc_dec)
qed (simp add: records_def)

lemma wf_records: "length bs = n * size \<Longrightarrow> list_all wf (records n bs)"
proof (induction n arbitrary: bs)
  case (Suc n)
  then show ?case by (simp add: records_Suc wf_dec)
qed (simp add: records_def)

lemma records_inj:
  "length a = n * size \<Longrightarrow> length b = n * size \<Longrightarrow> records n a = records n b \<Longrightarrow> a = b"
  using image_records by metis

end

interpretation hdr: record_codec enc_hdr dec_hdr "\<lambda>_. True" 32
proof
  show "dec_hdr (enc_hdr r) = r" for r by (simp add: dec_hdr_def enc_hdr_def wire_simps)
  show "enc_hdr (dec_hdr bs) = bs" if "length bs = 32" for bs
    using that by (simp add: dec_hdr_def enc_hdr_def wire_simps)
qed (simp_all add: enc_hdr_def)

interpretation begin_codec: record_codec enc_begin dec_begin begin_wf 48
proof
  show "dec_begin (enc_begin r) = r" if "begin_wf r" for r
    using that by (simp add: dec_begin_def enc_begin_def wire_simps begin_wf_def)
  show "enc_begin (dec_begin bs) = bs" if "length bs = 48" for bs
    using that by (simp add: dec_begin_def enc_begin_def wire_simps)
qed (simp_all add: enc_begin_def dec_begin_def begin_wf_def)

interpretation rule_codec: record_codec enc_rule dec_rule rule_wf 24
proof
  show "dec_rule (enc_rule r) = r" if "rule_wf r" for r
    using that by (simp add: dec_rule_def enc_rule_def wire_simps rule_wf_def)
  show "enc_rule (dec_rule bs) = bs" if "length bs = 24" for bs
    using that by (simp add: dec_rule_def enc_rule_def wire_simps)
qed (simp_all add: enc_rule_def dec_rule_def rule_wf_def)

interpretation port_codec: record_codec enc_port dec_port port_wf 12
proof
  show "dec_port (enc_port r) = r" if "port_wf r" for r
    using that by (simp add: dec_port_def enc_port_def wire_simps port_wf_def)
  show "enc_port (dec_port bs) = bs" if "length bs = 12" for bs
    using that by (simp add: dec_port_def enc_port_def wire_simps)
qed (simp_all add: enc_port_def dec_port_def port_wf_def)

interpretation step_codec: record_codec enc_step dec_step step_wf 116
proof
  show "dec_step (enc_step r) = r" if "step_wf r" for r
    using that by (simp add: dec_step_def enc_step_def wire_simps step_wf_def)
  show "enc_step (dec_step bs) = bs" if "length bs = 116" for bs
    using that by (simp add: dec_step_def enc_step_def wire_simps)
qed (simp_all add: enc_step_def dec_step_def step_wf_def)

interpretation status_codec: record_codec enc_status dec_status status_wf 80
proof
  show "dec_status (enc_status r) = r" if "status_wf r" for r
    using that by (simp add: dec_status_def enc_status_def wire_simps status_wf_def)
  show "enc_status (dec_status bs) = bs" if "length bs = 80" for bs
    using that by (simp add: dec_status_def enc_status_def wire_simps)
qed (simp_all add: enc_status_def dec_status_def status_wf_def)

section \<open>The payload checksum\<close>

definition crc_bit :: "u32 \<Rightarrow> u32" where
  "crc_bit crc = (drop_bit 1 crc XOR (0xedb88320 AND (0 - (crc AND 1))))"

definition crc_byte :: "u32 \<Rightarrow> u8 \<Rightarrow> u32" where
  "crc_byte crc b = (crc_bit ^^ 8) (crc XOR ucast b)"

definition payload_crc32 :: "bytes \<Rightarrow> u32" where
  "payload_crc32 bs = (foldl crc_byte (NOT 0) bs XOR NOT 0)"

text \<open>One bit step is linear over exclusive or, shifts a word with a clear low bit, and loses no
  information: the generator has its top bit set.\<close>

lemma crc_bit_cases: "crc_bit x = (if bit x 0 then drop_bit 1 x XOR 0xedb88320 else drop_bit 1 x)"
proof -
  have "x AND 1 = (if bit x 0 then 1 else 0)"
    by (auto intro!: bit_word_eqI simp: bit_simps bit_1_iff)
  then show ?thesis by (simp add: crc_bit_def)
qed

lemma crc_bit_xor: "crc_bit (x XOR y) = (crc_bit x XOR crc_bit y)"
  by (auto intro!: bit_word_eqI simp: crc_bit_cases bit_simps)

lemma crc_bit_top: "bit (crc_bit x) 31 = bit x 0"
  using bit_imp_le_length [of x 32] by (auto simp: crc_bit_cases bit_simps)

lemma crc_bit_inj: "inj crc_bit"
proof (rule injI)
  fix x y :: u32
  assume eq: "crc_bit x = crc_bit y"
  then have low: "bit x 0 = bit y 0" using crc_bit_top by metis
  then have high: "drop_bit 1 x = drop_bit 1 y"
    using eq by (auto simp: crc_bit_cases split: if_splits)
  show "x = y"
  proof (rule bit_word_eqI)
    fix n :: nat
    show "bit x n = bit y n"
    proof (cases n)
      case (Suc m)
      have "bit (drop_bit 1 x) m = bit (drop_bit 1 y) m" using high by simp
      then show ?thesis using Suc by (simp add: bit_simps)
    qed (simp add: low)
  qed
qed

lemma crc_bits_xor: "(crc_bit ^^ n) (x XOR y) = ((crc_bit ^^ n) x XOR (crc_bit ^^ n) y)"
  by (induction n) (simp_all add: crc_bit_xor)

lemma crc_bits_inj: "inj (crc_bit ^^ n)"
  by (induction n) (simp_all only: funpow.simps inj_on_id inj_compose crc_bit_inj)

lemma crc_bits_shift:
  "(\<And>i. i < n \<Longrightarrow> \<not> bit x i) \<Longrightarrow> (crc_bit ^^ n) x = drop_bit n x"
proof (induction n)
  case (Suc n)
  then show ?case by (simp add: crc_bit_cases bit_simps)
qed simp

text \<open>Up to four bytes are absorbed as one little-endian word.\<close>

fun le_word :: "bytes \<Rightarrow> u32" where
  "le_word [] = 0"
| "le_word (b # bs) = (ucast b XOR push_bit 8 (le_word bs))"

lemma le_word_Cons_bit:
  "bit (le_word (b # bs)) i = (if i < 8 then bit b i else i < 32 \<and> bit (le_word bs) (i - 8))"
  using bit_imp_le_length [of b i] by (auto simp: bit_simps)

lemma le_word_bits: "8 * length bs \<le> i \<Longrightarrow> \<not> bit (le_word bs) i"
proof (induction bs arbitrary: i)
  case (Cons b bs)
  then show ?case by (simp add: le_word_Cons_bit del: le_word.simps)
qed simp

lemma le_word_inj: "length xs = length ys \<Longrightarrow> length xs \<le> 4 \<Longrightarrow> le_word xs = le_word ys \<Longrightarrow> xs = ys"
proof (induction xs ys rule: list_induct2)
  case (Cons x xs y ys)
  have bits: "bit (le_word (x # xs)) i = bit (le_word (y # ys)) i" for i
    using Cons.prems by (simp only: )
  have "x = y"
  proof (rule bit_word_eqI)
    fix i :: nat assume "i < LENGTH(8)"
    then show "bit x i = bit y i" using bits [of i] by (simp add: le_word_Cons_bit del: le_word.simps)
  qed
  moreover have "le_word xs = le_word ys"
  proof (rule bit_word_eqI)
    fix i :: nat assume i: "i < LENGTH(32)"
    show "bit (le_word xs) i = bit (le_word ys) i"
    proof (cases "8 * length xs \<le> i")
      case True
      then show ?thesis using Cons.hyps by (simp add: le_word_bits)
    next
      case False
      then have "i + 8 < 32" using Cons.prems by simp
      then show ?thesis using bits [of "i + 8"] by (simp add: le_word_Cons_bit del: le_word.simps)
    qed
  qed
  moreover have "length xs \<le> 4" using Cons.prems(1) by simp
  ultimately show ?case using Cons.IH by blast
qed simp

lemma crc_bytes_word:
  "length bs \<le> 4 \<Longrightarrow> foldl crc_byte s bs = (crc_bit ^^ (8 * length bs)) (s XOR le_word bs)"
proof (induction bs arbitrary: s)
  case (Cons b bs)
  have "(crc_bit ^^ 8) (push_bit 8 (le_word bs)) = le_word bs"
  proof -
    have "(crc_bit ^^ 8) (push_bit 8 (le_word bs)) = drop_bit 8 (push_bit 8 (le_word bs))"
      by (rule crc_bits_shift) (simp add: bit_simps)
    also have "\<dots> = le_word bs"
    proof (rule bit_word_eqI)
      fix i :: nat assume "i < LENGTH(32)"
      then show "bit (drop_bit 8 (push_bit 8 (le_word bs))) i = bit (le_word bs) i"
        using Cons.prems le_word_bits [of bs i]
        by (cases "i < 24") (auto simp: bit_simps)
    qed
    finally show ?thesis .
  qed
  then have step: "(crc_bit ^^ 8) (s XOR le_word (b # bs)) = (crc_byte s b XOR le_word bs)"
    by (simp add: crc_byte_def crc_bits_xor xor.assoc)
  have "crc_bit ^^ (8 * length (b # bs)) = crc_bit ^^ (8 * length bs) \<circ> crc_bit ^^ 8"
    unfolding funpow_add [symmetric] by (simp add: add.commute)
  then have "(crc_bit ^^ (8 * length (b # bs))) (s XOR le_word (b # bs)) =
      (crc_bit ^^ (8 * length bs)) (crc_byte s b XOR le_word bs)"
    by (simp only: comp_apply step)
  also have "\<dots> = foldl crc_byte (crc_byte s b) bs"
    by (rule Cons.IH [symmetric]) (use Cons.prems in simp)
  finally show ?case by (simp only: foldl.simps)
qed simp

lemma crc_bytes_inj: "foldl crc_byte s bs = foldl crc_byte t bs \<longleftrightarrow> s = t"
proof (induction bs arbitrary: s t)
  case (Cons b bs)
  have "crc_byte s b = crc_byte t b \<longleftrightarrow> s = t"
    by (simp add: crc_byte_def inj_eq [OF crc_bits_inj])
  then show ?case using Cons by simp
qed simp

lemma crc_burst:
  assumes "length old = length new" and "length old \<le> 4" and "old \<noteq> new"
  shows "payload_crc32 (before @ old @ after) \<noteq> payload_crc32 (before @ new @ after)"
  using le_word_inj [of old new] assms
  by (auto simp: payload_crc32_def crc_bytes_inj crc_bytes_word inj_eq [OF crc_bits_inj])

section \<open>Properties\<close>

text \<open>the checksum detects every error burst of at most four bytes: two payloads of equal length
  that differ only within four consecutive bytes have different CRCs.\<close>

theorem crc_detects_burst:
  assumes "length old = length new" and "length old \<le> 4" and "old \<noteq> new"
  shows "payload_crc32 (before @ old @ after) \<noteq> payload_crc32 (before @ new @ after)"
  by (rule crc_burst [OF assms])

theorem crc_detects_burst_witness:
  "payload_crc32 ([1, 2] @ [3, 4] @ [5]) \<noteq> payload_crc32 ([1, 2] @ [4, 3] @ [5])"
  by (rule crc_detects_burst) simp_all

text \<open>an array of steps survives the wire: the kernel reads back from the byte image of a batch
  exactly the step records the daemon packed, and any byte image of the right size is the image of
  the records read from it.\<close>

theorem step_batch_roundtrip:
  assumes "list_all step_wf ss" and "length bs = n * 116"
  shows "step_codec.records (length ss) (concat (map enc_step ss)) = ss \<and>
    concat (map enc_step (step_codec.records n bs)) = bs"
  using step_codec.records_image [OF assms(1)] step_codec.image_records [OF assms(2)]
  by (simp add: step_codec.image_def)

theorem step_batch_roundtrip_witness:
  "concat (map enc_step (step_codec.records 2 (replicate 232 7))) = replicate 232 7"
  using step_batch_roundtrip [of "[]" "replicate 232 7" 2] by simp

end
