(* ===== verification/V3AC.thy ===== *)
theory V3AC
  imports Kernel V3Wire "HOL-Library.Sublist"
begin

text \<open>
  The Aho-Corasick engine of the v3 rule set (\<open>jmx/src/jmx_v3_ac.c\<close>): construction of the trie in
  three arrays of linked entries, the breadth-first computation of failure and dictionary links, the
  compilation to flat arrays with sorted edges, and the scan with its work budget.

  Array indices are natural numbers: the arrays have at most 1 + 64 * 16384 entries.  An index field
  that holds \<open>V3_AC_NONE\<close> is \<open>None\<close>.  The build arrays hold their entries in use, so \<open>nodes\<close>,
  \<open>edges\<close> and \<open>outputs\<close> of the C code are their lengths.  The budget is only decremented after a test
  that it is not zero, so a natural number carries it exactly.
\<close>

section \<open>Data\<close>

record ac_pattern =
  pat_rule_index :: nat
  pat_step_index :: nat
  pat_len :: nat
  pat_bytes :: bytes

record ac_stats =
  st_patterns :: nat
  st_nodes :: nat
  st_edges :: nat
  st_outputs :: nat
  st_duplicate_payloads :: nat

definition ac_stats_zero :: ac_stats where
  "ac_stats_zero = \<lparr>st_patterns = 0, st_nodes = 0, st_edges = 0, st_outputs = 0,
     st_duplicate_payloads = 0\<rparr>"

record build_node =
  bn_first_edge :: "nat option"
  bn_first_output :: "nat option"
  bn_fail :: nat
  bn_dict_suffix :: "nat option"
  bn_edge_count :: nat
  bn_output_count :: nat

record build_edge =
  be_next :: "nat option"
  be_target :: nat
  be_byte :: u8

record build_output =
  bo_next :: "nat option"
  bo_rule_index :: nat
  bo_step_index :: nat
  bo_pattern_len :: nat

record build =
  b_max_nodes :: nat
  b_nodes :: "build_node list"
  b_edges :: "build_edge list"
  b_outputs :: "build_output list"
  b_duplicates :: nat

record ac_node =
  an_fail :: nat
  an_dict_suffix :: "nat option"
  an_edge_begin :: nat
  an_output_begin :: nat
  an_edge_count :: nat
  an_output_count :: nat

record ac_edge =
  ae_target :: nat
  ae_byte :: u8

record ac_output =
  ao_rule_index :: nat
  ao_step_index :: nat
  ao_pattern_len :: nat

record ac =
  ac_nodes :: "ac_node list"
  ac_edges :: "ac_edge list"
  ac_outputs :: "ac_output list"
  ac_root_next :: "u8 \<Rightarrow> nat"

definition v3_fold :: "u8 \<Rightarrow> u8" where
  "v3_fold byte = (if 65 \<le> byte \<and> byte \<le> 90 then byte + (97 - 65) else byte)"

definition fresh_node :: build_node where
  "fresh_node = \<lparr>bn_first_edge = None, bn_first_output = None, bn_fail = 0, bn_dict_suffix = None,
     bn_edge_count = 0, bn_output_count = 0\<rparr>"

section \<open>Building the trie\<close>

definition edge_chain :: "build_edge list \<Rightarrow> nat option \<Rightarrow> nat list" where
  "edge_chain edges e = chain_upto (Suc (length edges)) (\<lambda>i. be_next (edges ! i)) e"

definition output_chain :: "build_output list \<Rightarrow> nat option \<Rightarrow> nat list" where
  "output_chain outs e = chain_upto (Suc (length outs)) (\<lambda>i. bo_next (outs ! i)) e"

definition build_find_child :: "build_node list \<Rightarrow> build_edge list \<Rightarrow> nat \<Rightarrow> u8 \<Rightarrow> nat option" where
  "build_find_child nodes edges node byte =
     map_option (\<lambda>e. be_target (edges ! e))
       (find (\<lambda>e. be_byte (edges ! e) = byte) (edge_chain edges (bn_first_edge (nodes ! node))))"

text \<open>\<open>max_nodes\<close> is 1 plus the sum of the lengths, computed on 32 bits.\<close>

fun count_nodes :: "ac_pattern list \<Rightarrow> nat \<Rightarrow> errno + nat" where
  "count_nodes [] max_nodes = Inr max_nodes"
| "count_nodes (p # ps) max_nodes =
     (if pat_len p = 0 \<or> JMX_V3_PAYLOAD_MAX < pat_len p then Inl EINVAL
      else if 2 ^ 32 \<le> max_nodes + pat_len p then Inl EOVERFLOW
      else count_nodes ps (max_nodes + pat_len p))"

definition add_child :: "build \<Rightarrow> nat \<Rightarrow> u8 \<Rightarrow> build \<times> nat" where
  "add_child b node byte =
     (let child = length (b_nodes b); e = length (b_edges b);
          edge = \<lparr>be_next = bn_first_edge (b_nodes b ! node), be_target = child, be_byte = byte\<rparr>;
          n = b_nodes b ! node;
          n' = n\<lparr>bn_first_edge := Some e, bn_edge_count := bn_edge_count n + 1\<rparr>
      in (b\<lparr>b_nodes := (b_nodes b)[node := n'] @ [fresh_node], b_edges := b_edges b @ [edge]\<rparr>, child))"

text \<open>The bytes of a pattern, folded by the caller, are followed from a node and added where they leave
  the trie.\<close>

fun insert_bytes :: "build \<Rightarrow> nat \<Rightarrow> bytes \<Rightarrow> errno + (build \<times> nat)" where
  "insert_bytes b node [] = Inr (b, node)"
| "insert_bytes b node (byte # rest) =
     (case build_find_child (b_nodes b) (b_edges b) node byte of
        Some child \<Rightarrow> insert_bytes b child rest
      | None \<Rightarrow>
          if b_max_nodes b \<le> length (b_nodes b) \<or> b_max_nodes b - 1 \<le> length (b_edges b)
          then Inl EOVERFLOW
          else (case add_child b node byte of (b', child) \<Rightarrow> insert_bytes b' child rest))"

definition add_output :: "build \<Rightarrow> nat \<Rightarrow> ac_pattern \<Rightarrow> errno + build" where
  "add_output b node p =
     (let n = b_nodes b ! node;
          dups = (if bn_output_count n \<noteq> 0 then b_duplicates b + 1 else b_duplicates b)
      in if bn_output_count n = unat U16_MAX then Inl EOVERFLOW
         else Inr (b\<lparr>b_duplicates := dups,
                b_outputs := b_outputs b @ [\<lparr>bo_next = bn_first_output n,
                   bo_rule_index = pat_rule_index p, bo_step_index = pat_step_index p,
                   bo_pattern_len = pat_len p\<rparr>],
                b_nodes := (b_nodes b)[node := n\<lparr>bn_first_output := Some (length (b_outputs b)),
                   bn_output_count := bn_output_count n + 1\<rparr>]\<rparr>))"

fun insert_patterns :: "build \<Rightarrow> ac_pattern list \<Rightarrow> errno + build" where
  "insert_patterns b [] = Inr b"
| "insert_patterns b (p # ps) =
     (case insert_bytes b 0 (map v3_fold (take (pat_len p) (pat_bytes p))) of
        Inl e \<Rightarrow> Inl e
      | Inr (b', node) \<Rightarrow>
          (case add_output b' node p of Inl e \<Rightarrow> Inl e | Inr b'' \<Rightarrow> insert_patterns b'' ps))"

section \<open>Failure and dictionary links\<close>

text \<open>The loop \<open>while (failure)\<close>: the depth of the node falls with every step, so the number of nodes
  bounds it.\<close>

fun fail_walk :: "nat \<Rightarrow> build_node list \<Rightarrow> build_edge list \<Rightarrow> nat \<Rightarrow> u8 \<Rightarrow> nat option" where
  "fail_walk 0 nodes edges failure byte = None"
| "fail_walk (Suc fuel) nodes edges failure byte =
     (if failure = 0 then None
      else case build_find_child nodes edges failure byte of
             Some t \<Rightarrow> Some t
           | None \<Rightarrow> fail_walk fuel nodes edges (bn_fail (nodes ! failure)) byte)"

definition link_child :: "build_edge list \<Rightarrow> nat \<Rightarrow> build_node list \<Rightarrow> nat \<Rightarrow> build_node list" where
  "link_child edges node nodes e =
     (let byte = be_byte (edges ! e); child = be_target (edges ! e);
          transition = fail_walk (length nodes) nodes edges (bn_fail (nodes ! node)) byte;
          transition = (case transition of None \<Rightarrow> build_find_child nodes edges 0 byte | t \<Rightarrow> t);
          target = (case transition of None \<Rightarrow> 0 | Some t \<Rightarrow> if t = child then 0 else t);
          dict = (if bn_output_count (nodes ! target) \<noteq> 0 then Some target
                  else bn_dict_suffix (nodes ! target))
      in nodes[child := (nodes ! child)\<lparr>bn_fail := target, bn_dict_suffix := dict\<rparr>])"

fun bfs :: "nat \<Rightarrow> build_edge list \<Rightarrow> build_node list \<Rightarrow> nat list \<Rightarrow> nat \<Rightarrow> build_node list \<times> nat list" where
  "bfs 0 edges nodes queue qh = (nodes, queue)"
| "bfs (Suc fuel) edges nodes queue qh =
     (if qh < length queue then
        let node = queue ! qh; es = edge_chain edges (bn_first_edge (nodes ! node))
        in bfs fuel edges (foldl (link_child edges node) nodes es)
             (queue @ map (\<lambda>e. be_target (edges ! e)) es) (qh + 1)
      else (nodes, queue))"

definition link_nodes :: "build \<Rightarrow> build_node list" where
  "link_nodes b =
     (let es = edge_chain (b_edges b) (bn_first_edge (b_nodes b ! 0));
          queue = map (\<lambda>e. be_target (b_edges b ! e)) es;
          nodes = foldl (\<lambda>ns c. ns[c := (ns ! c)\<lparr>bn_fail := 0\<rparr>]) (b_nodes b) queue
      in fst (bfs (length (b_nodes b)) (b_edges b) nodes queue 0))"

section \<open>Compilation to flat arrays\<close>

text \<open>\<open>sort_edges\<close> shifts each edge left past the greater ones of the sorted prefix; the prefix is
  kept in reverse.\<close>

fun shift_in :: "ac_edge \<Rightarrow> ac_edge list \<Rightarrow> ac_edge list" where
  "shift_in v [] = [v]"
| "shift_in v (e # es) = (if ae_byte v < ae_byte e then e # shift_in v es else v # e # es)"

definition sort_edges :: "ac_edge list \<Rightarrow> ac_edge list" where
  "sort_edges es = rev (foldl (\<lambda>prefix v. shift_in v prefix) [] es)"

definition flat_edges :: "build \<Rightarrow> build_node \<Rightarrow> ac_edge list" where
  "flat_edges b n = sort_edges (map (\<lambda>i. \<lparr>ae_target = be_target (b_edges b ! i), ae_byte = be_byte (b_edges b ! i)\<rparr>)
     (edge_chain (b_edges b) (bn_first_edge n)))"

definition flat_outputs :: "build \<Rightarrow> build_node \<Rightarrow> ac_output list" where
  "flat_outputs b n = map (\<lambda>i. \<lparr>ao_rule_index = bo_rule_index (b_outputs b ! i),
       ao_step_index = bo_step_index (b_outputs b ! i), ao_pattern_len = bo_pattern_len (b_outputs b ! i)\<rparr>)
     (output_chain (b_outputs b) (bn_first_output n))"

definition flatten_node :: "build \<Rightarrow> ac \<Rightarrow> build_node \<Rightarrow> ac" where
  "flatten_node b ac n =
     ac\<lparr>ac_nodes := ac_nodes ac @ [\<lparr>an_fail = bn_fail n, an_dict_suffix = bn_dict_suffix n,
          an_edge_begin = length (ac_edges ac), an_output_begin = length (ac_outputs ac),
          an_edge_count = bn_edge_count n, an_output_count = bn_output_count n\<rparr>],
        ac_edges := ac_edges ac @ flat_edges b n,
        ac_outputs := ac_outputs ac @ flat_outputs b n,
        ac_root_next := (if ac_nodes ac = []
          then foldl (\<lambda>r e. r(ae_byte e := ae_target e)) (ac_root_next ac) (flat_edges b n)
          else ac_root_next ac)\<rparr>"

definition flatten :: "build \<Rightarrow> build_node list \<Rightarrow> ac" where
  "flatten b nodes = foldl (flatten_node b)
     \<lparr>ac_nodes = [], ac_edges = [], ac_outputs = [], ac_root_next = (\<lambda>_. 0)\<rparr> nodes"

definition jmx_v3_ac_build ::
  "(alloc_site \<Rightarrow> bool) \<Rightarrow> ac_pattern list \<Rightarrow> errno + (ac \<times> ac_stats)" where
  "jmx_v3_ac_build mem patterns =
     (if patterns = [] then Inl EINVAL
      else case count_nodes patterns 1 of
        Inl e \<Rightarrow> Inl e
      | Inr max_nodes \<Rightarrow>
          if \<not> mem A_BNODES \<or> \<not> mem A_BEDGES \<or> \<not> mem A_BOUTPUTS then Inl ENOMEM
          else case insert_patterns \<lparr>b_max_nodes = max_nodes, b_nodes = [fresh_node], b_edges = [],
                      b_outputs = [], b_duplicates = 0\<rparr> patterns of
                 Inl e \<Rightarrow> Inl e
               | Inr b \<Rightarrow>
                   if \<not> mem A_QUEUE then Inl ENOMEM
                   else if \<not> mem A_AC \<or> \<not> mem A_AC_NODES \<or> \<not> mem A_AC_EDGES \<or> \<not> mem A_AC_OUTPUTS
                   then Inl ENOMEM
                   else let ac = flatten b (link_nodes b)
                        in Inr (ac, \<lparr>st_patterns = length patterns, st_nodes = length (ac_nodes ac),
                             st_edges = length (ac_edges ac), st_outputs = length (ac_outputs ac),
                             st_duplicate_payloads = b_duplicates b\<rparr>))"

section \<open>Scanning\<close>

text \<open>Binary search; every probe is paid for.\<close>

function find_probe :: "ac_edge list \<Rightarrow> nat \<Rightarrow> u8 \<Rightarrow> int \<Rightarrow> int \<Rightarrow> nat \<Rightarrow> errno + (nat option \<times> nat)" where
  "find_probe edges ebegin byte lo hi work =
     (if hi < lo then Inr (None, work)
      else if work = 0 then Inl E2BIG
      else let mid = (lo + hi) div 2; edge = edges ! nat (int ebegin + mid)
           in if ae_byte edge = byte then Inr (Some (ae_target edge), work - 1)
              else if ae_byte edge < byte then find_probe edges ebegin byte (mid + 1) hi (work - 1)
              else find_probe edges ebegin byte lo (mid - 1) (work - 1))"
  by pat_completeness auto
termination by (relation "measure (\<lambda>(_, _, _, _, _, w). w)") auto

declare find_probe.simps [simp del]

definition find_child :: "ac \<Rightarrow> nat \<Rightarrow> u8 \<Rightarrow> nat \<Rightarrow> errno + (nat option \<times> nat)" where
  "find_child ac node byte work =
     (let n = ac_nodes ac ! node
      in find_probe (ac_edges ac) (an_edge_begin n) byte 0 (int (an_edge_count n) - 1) work)"

lemma find_probe_work: "find_probe edges ebegin byte lo hi work = Inr (r, work') \<Longrightarrow> work' \<le> work"
proof (induction edges ebegin byte lo hi work rule: find_probe.induct)
  case (1 edges ebegin byte lo hi work)
  note IH = "1.IH" and eq = "1.prems" [unfolded find_probe.simps [of edges ebegin byte lo hi work] Let_def]
  show ?case
    using eq IH [OF _ _ refl refl] by (fastforce split: if_splits)
qed

lemma find_child_work: "find_child ac node byte work = Inr (r, work') \<Longrightarrow> work' \<le> work"
  by (simp add: find_child_def Let_def find_probe_work)

text \<open>The transition on one byte: follow failure links until an edge is found or the root is reached.
  Every failure step is paid for, so the budget bounds the loop.\<close>

function next_state :: "ac \<Rightarrow> nat \<Rightarrow> u8 \<Rightarrow> nat \<Rightarrow> errno + (nat \<times> nat)" where
  "next_state ac state byte work =
     (if state = 0 then Inr (ac_root_next ac byte, work)
      else case find_child ac state byte work of
             Inl e \<Rightarrow> Inl e
           | Inr (Some t, work') \<Rightarrow> Inr (t, work')
           | Inr (None, work') \<Rightarrow>
               if work' = 0 then Inl E2BIG
               else next_state ac (an_fail (ac_nodes ac ! state)) byte (work' - 1))"
  by pat_completeness auto
termination
  by (relation "measure (\<lambda>(_, _, _, w). w)") (auto dest: find_child_work)

declare next_state.simps [simp del]

type_synonym 'c emit_fn = "'c \<Rightarrow> nat \<Rightarrow> nat \<Rightarrow> nat \<Rightarrow> nat \<Rightarrow> nat \<Rightarrow> krc \<times> 'c \<times> nat"

fun emit_outputs :: "'c emit_fn \<Rightarrow> ac_output list \<Rightarrow> nat \<Rightarrow> 'c \<Rightarrow> nat \<Rightarrow> krc \<times> 'c \<times> nat" where
  "emit_outputs emit [] end ctx work = (None, ctx, work)"
| "emit_outputs emit (out # outs) end ctx work =
     (if end < ao_pattern_len out then emit_outputs emit outs end ctx work
      else if work = 0 then (Some E2BIG, ctx, work)
      else case emit ctx (ao_rule_index out) (ao_step_index out) (end - ao_pattern_len out) end (work - 1) of
             (None, ctx', work') \<Rightarrow> emit_outputs emit outs end ctx' work'
           | (Some e, ctx', work') \<Rightarrow> (Some e, ctx', work'))"

definition emit_node :: "'c emit_fn \<Rightarrow> ac \<Rightarrow> nat \<Rightarrow> nat \<Rightarrow> 'c \<Rightarrow> nat \<Rightarrow> krc \<times> 'c \<times> nat" where
  "emit_node emit ac node end ctx work =
     (let n = ac_nodes ac ! node
      in emit_outputs emit (take (an_output_count n) (drop (an_output_begin n) (ac_outputs ac))) end ctx work)"

text \<open>The nodes that the loop over \<open>output_node\<close> visits; dictionary links lead to shorter labels, so
  the number of nodes bounds the walk.\<close>

definition dict_nodes :: "ac \<Rightarrow> nat \<Rightarrow> nat list" where
  "dict_nodes ac state =
     chain_upto (Suc (length (ac_nodes ac))) (\<lambda>n. an_dict_suffix (ac_nodes ac ! n)) (Some state)"

fun emit_nodes :: "'c emit_fn \<Rightarrow> ac \<Rightarrow> nat list \<Rightarrow> nat \<Rightarrow> 'c \<Rightarrow> nat \<Rightarrow> krc \<times> 'c \<times> nat" where
  "emit_nodes emit ac [] end ctx work = (None, ctx, work)"
| "emit_nodes emit ac (n # ns) end ctx work =
     (case emit_node emit ac n end ctx work of
        (None, ctx', work') \<Rightarrow> emit_nodes emit ac ns end ctx' work'
      | (Some e, ctx', work') \<Rightarrow> (Some e, ctx', work'))"

fun scan_bytes :: "'c emit_fn \<Rightarrow> ac \<Rightarrow> bytes \<Rightarrow> nat \<Rightarrow> nat \<Rightarrow> 'c \<Rightarrow> nat \<Rightarrow> krc \<times> 'c \<times> nat" where
  "scan_bytes emit ac [] pos state ctx work = (None, ctx, work)"
| "scan_bytes emit ac (raw # rest) pos state ctx work =
     (if work = 0 then (Some E2BIG, ctx, work)
      else case next_state ac state (v3_fold raw) (work - 1) of
             Inl e \<Rightarrow> (Some e, ctx, 0)
           | Inr (state', work') \<Rightarrow>
               (case emit_nodes emit ac (dict_nodes ac state') (pos + 1) ctx work' of
                  (None, ctx', work'') \<Rightarrow> scan_bytes emit ac rest (pos + 1) state' ctx' work''
                | (Some e, ctx', work'') \<Rightarrow> (Some e, ctx', work'')))"

definition jmx_v3_ac_scan :: "ac \<Rightarrow> bytes \<Rightarrow> 'c emit_fn \<Rightarrow> 'c \<Rightarrow> nat \<Rightarrow> krc \<times> 'c \<times> nat" where
  "jmx_v3_ac_scan ac payload emit ctx work =
     (if payload = [] then (Some EINVAL, ctx, work) else scan_bytes emit ac payload 0 0 ctx work)"

end
