(* ===== verification/V3AC_Trie.thy ===== *)
theory V3AC_Trie
  imports V3AC
begin

text \<open>
  The trie that \<open>jmx_v3_ac_build\<close> fills.  Every node is given a ghost label, the folded bytes on the
  path from the root; the invariant says that the edge list of a node holds exactly the one-byte
  extensions of its label, that the labels are distinct and closed under prefixes, and that the output
  list of a node holds exactly the patterns that fold to its label, last inserted first.
\<close>

definition folded :: "ac_pattern \<Rightarrow> bytes" where
  "folded p = map v3_fold (take (pat_len p) (pat_bytes p))"

definition edges_of :: "build \<Rightarrow> nat \<Rightarrow> nat list" where
  "edges_of b n = edge_chain (b_edges b) (bn_first_edge (b_nodes b ! n))"

definition outputs_of :: "build \<Rightarrow> nat \<Rightarrow> nat list" where
  "outputs_of b n = output_chain (b_outputs b) (bn_first_output (b_nodes b ! n))"

definition edge_pair :: "build \<Rightarrow> nat \<Rightarrow> u8 \<times> nat" where
  "edge_pair b e = (be_byte (b_edges b ! e), be_target (b_edges b ! e))"

definition node_ok :: "build \<Rightarrow> bytes list \<Rightarrow> nat \<Rightarrow> bool" where
  "node_ok b L n \<longleftrightarrow>
     (\<forall>e. bn_first_edge (b_nodes b ! n) = Some e \<longrightarrow> e < length (b_edges b)) \<and>
     distinct (map (fst \<circ> edge_pair b) (edges_of b n)) \<and>
     edge_pair b ` set (edges_of b n) = {(c, t). t < length L \<and> L ! t = L ! n @ [c]} \<and>
     bn_edge_count (b_nodes b ! n) = length (edges_of b n)"

definition labels_ok :: "bytes list \<Rightarrow> bool" where
  "labels_ok L \<longleftrightarrow> L \<noteq> [] \<and> L ! 0 = [] \<and> distinct L \<and>
     (\<forall>s \<in> set L. s \<noteq> [] \<longrightarrow> butlast s \<in> set L)"

definition trie_ok :: "build \<Rightarrow> bytes list \<Rightarrow> bool" where
  "trie_ok b L \<longleftrightarrow> labels_ok L \<and> length (b_nodes b) = length L \<and>
     Suc (length (b_edges b)) = length L \<and>
     older_links (\<lambda>i. be_next (b_edges b ! i)) (length (b_edges b)) \<and>
     (\<forall>n < length L. node_ok b L n) \<and>
     (\<forall>n < length L. bn_fail (b_nodes b ! n) = 0 \<and> bn_dict_suffix (b_nodes b ! n) = None)"

definition outs_ok :: "(ac_pattern \<Rightarrow> bytes) \<Rightarrow> build \<Rightarrow> bytes list \<Rightarrow> ac_pattern list \<Rightarrow> bool" where
  "outs_ok lab b L ps \<longleftrightarrow> length (b_outputs b) = length ps \<and>
     older_links (\<lambda>i. bo_next (b_outputs b ! i)) (length ps) \<and>
     (\<forall>n < length L. (\<forall>e. bn_first_output (b_nodes b ! n) = Some e \<longrightarrow> e < length ps) \<and>
        outputs_of b n = rev (filter (\<lambda>i. lab (ps ! i) = L ! n) [0..<length ps]) \<and>
        bn_output_count (b_nodes b ! n) = length (outputs_of b n)) \<and>
     (\<forall>i < length ps. lab (ps ! i) \<in> set L \<and>
        bo_rule_index (b_outputs b ! i) = pat_rule_index (ps ! i) \<and>
        bo_step_index (b_outputs b ! i) = pat_step_index (ps ! i) \<and>
        bo_pattern_len (b_outputs b ! i) = pat_len (ps ! i))"

section \<open>Chains of a growing array\<close>

lemma chain_append:
  assumes "older_links (\<lambda>i. f (xs ! i)) (length xs)" and "e < length xs"
  shows "chain_upto (Suc (length (xs @ [x]))) (\<lambda>i. f ((xs @ [x]) ! i)) (Some e) =
    chain_upto (Suc (length xs)) (\<lambda>i. f (xs ! i)) (Some e)"
proof -
  have "chain_upto (Suc (length (xs @ [x]))) (\<lambda>i. f ((xs @ [x]) ! i)) (Some e) =
      chain_upto (Suc (length (xs @ [x]))) (\<lambda>i. f (xs ! i)) (Some e)"
    by (rule chain_upto_cong [OF assms]) (simp add: nth_append)
  also have "\<dots> = chain_upto (Suc (length xs)) (\<lambda>i. f (xs ! i)) (Some e)"
    by (rule chain_upto_fuel [OF assms]) (use assms(2) in simp_all)
  finally show ?thesis .
qed

lemma chain_append_new:
  assumes "older_links (\<lambda>i. f (xs ! i)) (length xs)"
    and "\<And>j. f x = Some j \<Longrightarrow> j < length xs"
  shows "chain_upto (Suc (length (xs @ [x]))) (\<lambda>i. f ((xs @ [x]) ! i)) (Some (length xs)) =
    length xs # chain_upto (Suc (length xs)) (\<lambda>i. f (xs ! i)) (f x)"
proof (cases "f x")
  case (Some j)
  then have j: "j < length xs" using assms(2) by simp
  have "chain_upto (Suc (length xs)) (\<lambda>i. f ((xs @ [x]) ! i)) (Some j) =
      chain_upto (Suc (length xs)) (\<lambda>i. f (xs ! i)) (Some j)"
    by (rule chain_upto_cong [OF assms(1) j]) (simp add: nth_append)
  then show ?thesis using Some by simp
qed simp

lemma older_links_append:
  "older_links (\<lambda>i. f (xs ! i)) (length xs) \<Longrightarrow> (\<And>j. f x = Some j \<Longrightarrow> j < length xs) \<Longrightarrow>
    older_links (\<lambda>i. f ((xs @ [x]) ! i)) (length (xs @ [x]))"
  by (auto simp: older_links_def nth_append less_Suc_eq)

lemma chain_entries:
  assumes "older_links nxt n" and "\<And>i. e = Some i \<Longrightarrow> i < n" and "j \<in> set (chain_upto f nxt e)"
  shows "j < n"
  using assms(2,3) chain_upto_bound [OF assms(1)] by (cases e) (auto intro: le_less_trans)

section \<open>Looking up a child\<close>

lemma find_distinct:
  assumes "distinct (map f xs)"
  shows "find (\<lambda>e. f e = c) xs = Some e \<longleftrightarrow> e \<in> set xs \<and> f e = c"
  using assms by (induction xs) (auto simp: image_iff)

lemma find_child_iff:
  assumes "node_ok b L n"
  shows "build_find_child (b_nodes b) (b_edges b) n c = Some t \<longleftrightarrow> t < length L \<and> L ! t = L ! n @ [c]"
proof -
  have "build_find_child (b_nodes b) (b_edges b) n c = Some t \<longleftrightarrow>
      (\<exists>e. find (\<lambda>e. (fst \<circ> edge_pair b) e = c) (edges_of b n) = Some e \<and> snd (edge_pair b e) = t)"
    by (auto simp: build_find_child_def edges_of_def edge_pair_def)
  also have "\<dots> \<longleftrightarrow> (\<exists>e \<in> set (edges_of b n). edge_pair b e = (c, t))"
    using assms find_distinct [of "fst \<circ> edge_pair b" "edges_of b n" c]
    by (auto simp: node_ok_def prod_eq_iff)
  also have "\<dots> \<longleftrightarrow> (c, t) \<in> edge_pair b ` set (edges_of b n)"
    by (force simp: image_iff)
  finally show ?thesis using assms by (simp add: node_ok_def)
qed

lemma trie_child_iff:
  "trie_ok b L \<Longrightarrow> n < length L \<Longrightarrow>
    build_find_child (b_nodes b) (b_edges b) n c = Some t \<longleftrightarrow> t < length L \<and> L ! t = L ! n @ [c]"
  by (rule find_child_iff) (simp add: trie_ok_def)

lemma trie_child_None:
  assumes "trie_ok b L" and "n < length L"
  shows "build_find_child (b_nodes b) (b_edges b) n c = None \<longleftrightarrow> L ! n @ [c] \<notin> set L"
  using trie_child_iff [OF assms, of c]
  by (cases "build_find_child (b_nodes b) (b_edges b) n c") (auto simp: in_set_conv_nth)

section \<open>Adding a child\<close>

lemma edges_of_entries:
  assumes "trie_ok b L" and "n < length L" and "e \<in> set (edges_of b n)"
  shows "e < length (b_edges b)"
  using assms unfolding edges_of_def edge_chain_def
  by (elim chain_entries [rotated 2]) (auto simp: trie_ok_def node_ok_def)

definition grows :: "build \<Rightarrow> bytes list \<Rightarrow> nat \<Rightarrow> u8 \<Rightarrow> build \<Rightarrow> bool" where
  "grows b L n c b' \<longleftrightarrow> trie_ok b L \<and> n < length L \<and> L ! n @ [c] \<notin> set L \<and>
     add_child b n c = (b', length L)"

lemma growsD:
  assumes "grows b L n c b'"
  shows "trie_ok b L" and "n < length L" and "L ! n @ [c] \<notin> set L"
    and "length (b_nodes b) = length L" and "Suc (length (b_edges b)) = length L"
    and "b_nodes b' = (b_nodes b)[n := (b_nodes b ! n)\<lparr>bn_first_edge := Some (length (b_edges b)),
           bn_edge_count := bn_edge_count (b_nodes b ! n) + 1\<rparr>] @ [fresh_node]"
    and "b_edges b' = b_edges b @ [\<lparr>be_next = bn_first_edge (b_nodes b ! n), be_target = length L, be_byte = c\<rparr>]"
    and "b_outputs b' = b_outputs b" and "b_max_nodes b' = b_max_nodes b"
    and "b_duplicates b' = b_duplicates b"
  using assms by (auto simp: grows_def add_child_def Let_def trie_ok_def)

lemma trie_first_edge:
  "trie_ok b L \<Longrightarrow> n < length L \<Longrightarrow> bn_first_edge (b_nodes b ! n) = Some e \<Longrightarrow> e < length (b_edges b)"
  by (simp add: trie_ok_def node_ok_def)

lemma trie_older: "trie_ok b L \<Longrightarrow> older_links (\<lambda>i. be_next (b_edges b ! i)) (length (b_edges b))"
  by (simp add: trie_ok_def)

lemma grows_older:
  assumes "grows b L n c b'"
  shows "older_links (\<lambda>i. be_next (b_edges b' ! i)) (length (b_edges b'))"
  unfolding growsD(7) [OF assms]
  by (rule older_links_append)
    (use growsD(1,2) [OF assms] trie_older trie_first_edge in auto)

lemma grows_edges_of:
  assumes g: "grows b L n c b'" and m: "m < length L"
  shows "edges_of b' m = (if m = n then length (b_edges b) # edges_of b n else edges_of b m)"
proof (cases "m = n")
  case True
  then have "bn_first_edge (b_nodes b' ! m) = Some (length (b_edges b))"
    using m growsD(4) [OF g] by (simp add: growsD(6) [OF g] nth_append)
  moreover have "chain_upto (Suc (length (b_edges b'))) (\<lambda>i. be_next (b_edges b' ! i)) (Some (length (b_edges b))) =
      length (b_edges b) # chain_upto (Suc (length (b_edges b))) (\<lambda>i. be_next (b_edges b ! i))
        (bn_first_edge (b_nodes b ! n))"
    unfolding growsD(7) [OF g]
    by (subst chain_append_new) (use growsD(1,2) [OF g] trie_older trie_first_edge in auto)
  ultimately show ?thesis using True by (simp add: edges_of_def edge_chain_def del: chain_upto.simps)
next
  case False
  then have same: "bn_first_edge (b_nodes b' ! m) = bn_first_edge (b_nodes b ! m)"
    using m growsD(4) [OF g] by (simp add: growsD(6) [OF g] nth_append)
  show ?thesis
  proof (cases "bn_first_edge (b_nodes b ! m)")
    case (Some e)
    then show ?thesis
      using False same trie_first_edge [OF growsD(1) [OF g] m Some]
        chain_append [of be_next "b_edges b" e, OF trie_older [OF growsD(1) [OF g]]]
      unfolding edges_of_def edge_chain_def growsD(7) [OF g]
      by (simp del: chain_upto.simps)
  qed (simp add: edges_of_def edge_chain_def same False)
qed

lemma grows_edge_pair:
  assumes "grows b L n c b'"
  shows "e < length (b_edges b) \<Longrightarrow> edge_pair b' e = edge_pair b e"
    and "edge_pair b' (length (b_edges b)) = (c, length L)"
  by (simp_all add: edge_pair_def growsD(7) [OF assms] nth_append)

lemma grows_labels:
  assumes "grows b L n c b'"
  shows "labels_ok (L @ [L ! n @ [c]])"
  using growsD(1-3) [OF assms] by (auto simp: trie_ok_def labels_ok_def nth_append)

lemma grows_node_old:
  assumes g: "grows b L n c b'" and m: "m < length L"
  shows "node_ok b' (L @ [L ! n @ [c]]) m"
proof -
  have old: "node_ok b L m" using growsD(1) [OF g] m by (simp add: trie_ok_def)
  have pairs: "edge_pair b' e = edge_pair b e" if "e \<in> set (edges_of b m)" for e
    using grows_edge_pair(1) [OF g] edges_of_entries [OF growsD(1) [OF g] m that] .
  have fst_edge: "bn_first_edge (b_nodes b' ! m) = Some e \<Longrightarrow> e < length (b_edges b')" for e
    using old m growsD(4) [OF g]
    by (cases "m = n") (auto simp: growsD(6,7) [OF g] nth_append node_ok_def)
  have labels: "{(d, t). t < length (L @ [L ! n @ [c]]) \<and> (L @ [L ! n @ [c]]) ! t = (L @ [L ! n @ [c]]) ! m @ [d]} =
      (if m = n then insert (c, length L) {(d, t). t < length L \<and> L ! t = L ! m @ [d]}
       else {(d, t). t < length L \<and> L ! t = L ! m @ [d]})"
    using m growsD(2) [OF g] growsD(1) [OF g]
    by (auto simp: nth_append less_Suc_eq trie_ok_def labels_ok_def nth_eq_iff_index_eq)
  have map_pairs: "map (fst \<circ> edge_pair b') (edges_of b m) = map (fst \<circ> edge_pair b) (edges_of b m)"
    using pairs by simp
  have new: "c \<notin> fst ` edge_pair b ` set (edges_of b n)"
    using old growsD(1-3) [OF g] by (auto simp: trie_ok_def node_ok_def) (metis nth_mem)
  have count: "bn_edge_count (b_nodes b' ! m) = length (edges_of b' m)"
    using old m growsD(4) [OF g]
    by (auto simp: growsD(6) [OF g] nth_append grows_edges_of [OF g m] node_ok_def)
  have dist: "distinct (map (fst \<circ> edge_pair b') (edges_of b' m))"
    using old new pairs grows_edge_pair(2) [OF g] map_pairs
    by (auto simp: grows_edges_of [OF g m] node_ok_def image_image simp del: map_eq_conv)
  have imgs: "edge_pair b' ` set (edges_of b' m) =
      (if m = n then insert (c, length L) (edge_pair b ` set (edges_of b n)) else edge_pair b ` set (edges_of b m))"
    using pairs grows_edge_pair(2) [OF g] by (auto simp: grows_edges_of [OF g m])
  show ?thesis
    using fst_edge dist count old unfolding node_ok_def labels imgs by (cases "m = n") simp_all
qed

lemma grows_node_new:
  assumes g: "grows b L n c b'"
  shows "node_ok b' (L @ [L ! n @ [c]]) (length L)"
proof -
  have node: "b_nodes b' ! length L = fresh_node"
    using growsD(4) [OF g] by (simp add: growsD(6) [OF g] nth_append)
  then have "edges_of b' (length L) = []"
    by (simp add: edges_of_def edge_chain_def fresh_node_def)
  moreover have "(L @ [L ! n @ [c]]) ! t \<noteq> (L ! n @ [c]) @ [d]" if "t < Suc (length L)" for t d
  proof
    assume eq: "(L @ [L ! n @ [c]]) ! t = (L ! n @ [c]) @ [d]"
    then have "t \<noteq> length L" by (auto simp: nth_append)
    then have "L ! t = (L ! n @ [c]) @ [d]" and "t < length L" using eq that by (auto simp: nth_append)
    then have "butlast (L ! t) = L ! n @ [c]" and "L ! t \<noteq> []" by (simp_all only: butlast_snoc) simp
    moreover have "L ! t \<in> set L" using \<open>t < length L\<close> by simp
    ultimately show False
      using growsD(1,3) [OF g] unfolding trie_ok_def labels_ok_def by metis
  qed
  ultimately show ?thesis by (auto simp: node_ok_def node fresh_node_def)
qed

lemma grows_trie:
  assumes g: "grows b L n c b'"
  shows "trie_ok b' (L @ [L ! n @ [c]])"
proof -
  have "node_ok b' (L @ [L ! n @ [c]]) m" if "m < length (L @ [L ! n @ [c]])" for m
    using that grows_node_old [OF g] grows_node_new [OF g] by (auto simp: less_Suc_eq)
  moreover have "bn_fail (b_nodes b' ! m) = 0 \<and> bn_dict_suffix (b_nodes b' ! m) = None"
    if "m < Suc (length L)" for m
    using that growsD(1,4) [OF g]
    by (cases "m = n")
      (auto simp: growsD(6) [OF g] nth_append nth_list_update fresh_node_def trie_ok_def less_Suc_eq)
  ultimately show ?thesis
    using grows_labels [OF g] grows_older [OF g] growsD(4,5) [OF g]
    by (simp add: trie_ok_def growsD(6,7) [OF g])
qed

section \<open>Inserting the bytes of a pattern\<close>

text \<open>What inserting bytes leaves alone: the outputs of the nodes there were; new nodes have none.\<close>

definition same_outputs :: "build \<Rightarrow> build \<Rightarrow> bool" where
  "same_outputs b b' \<longleftrightarrow> b_outputs b' = b_outputs b \<and> b_max_nodes b' = b_max_nodes b \<and>
     b_duplicates b' = b_duplicates b \<and> length (b_nodes b) \<le> length (b_nodes b') \<and>
     (\<forall>m < length (b_nodes b'). bn_first_output (b_nodes b' ! m) =
        (if m < length (b_nodes b) then bn_first_output (b_nodes b ! m) else None) \<and>
        bn_output_count (b_nodes b' ! m) =
        (if m < length (b_nodes b) then bn_output_count (b_nodes b ! m) else 0))"

lemma same_outputs_refl: "same_outputs b b"
  by (simp add: same_outputs_def)

lemma same_outputs_trans: "same_outputs a b \<Longrightarrow> same_outputs b c \<Longrightarrow> same_outputs a c"
  by (auto simp: same_outputs_def)

lemma grows_same_outputs: "grows b L n c b' \<Longrightarrow> same_outputs b b'"
  by (auto simp: same_outputs_def growsD nth_append nth_list_update fresh_node_def less_Suc_eq)

lemma insert_bytes_ok:
  assumes "trie_ok b L" and "node < length L" and "length (b_nodes b) + length bs \<le> b_max_nodes b"
  shows "\<exists>b' node' K. insert_bytes b node bs = Inr (b', node') \<and> trie_ok b' (L @ K) \<and>
    node' < length (L @ K) \<and> (L @ K) ! node' = L ! node @ bs \<and>
    same_outputs b b' \<and> length (b_nodes b') \<le> length (b_nodes b) + length bs"
  using assms
proof (induction bs arbitrary: b node L)
  case Nil
  then show ?case using same_outputs_refl by (intro exI [of _ b] exI [of _ node] exI [of _ "[]"]) simp
next
  case (Cons raw rest)
  note ok = Cons.prems(1) and n = Cons.prems(2)
  show ?case
  proof (cases "build_find_child (b_nodes b) (b_edges b) node raw")
    case (Some child)
    then have c: "child < length L" "L ! child = L ! node @ [raw]"
      using trie_child_iff [OF ok n] by simp_all
    show ?thesis
      using Cons.IH [OF ok c(1)] Cons.prems(3) Some c(2)
      by (auto intro: le_SucI)
  next
    case None
    then have fresh: "L ! node @ [raw] \<notin> set L" using trie_child_None [OF ok n] by simp
    obtain b1 where add: "add_child b node raw = (b1, length L)"
      using ok by (auto simp: add_child_def Let_def trie_ok_def)
    have g: "grows b L node raw b1" using ok n fresh add by (simp add: grows_def)
    let ?L = "L @ [L ! node @ [raw]]"
    have len: "length (b_nodes b1) = Suc (length (b_nodes b))" by (simp add: growsD(6) [OF g])
    obtain b' node' K where ih: "insert_bytes b1 (length L) rest = Inr (b', node')"
      "trie_ok b' (?L @ K)" "node' < length (?L @ K)"
      "(?L @ K) ! node' = ?L ! length L @ rest"
      "same_outputs b1 b'" "length (b_nodes b') \<le> length (b_nodes b1) + length rest"
      using Cons.IH [OF grows_trie [OF g], of "length L"] Cons.prems(3) len
      by (auto simp: growsD(9) [OF g])
    have "\<not> (b_max_nodes b \<le> length (b_nodes b) \<or> b_max_nodes b - 1 \<le> length (b_edges b))"
      using Cons.prems(3) growsD(4,5) [OF g] by auto
    then have "insert_bytes b node (raw # rest) = Inr (b', node')"
      using None add ih(1) by simp
    moreover have "same_outputs b b'"
      using same_outputs_trans [OF grows_same_outputs [OF g] ih(5)] .
    ultimately show ?thesis
      using ih len
      by (intro exI [of _ b'] exI [of _ node'] exI [of _ "(L ! node @ [raw]) # K"])
        (simp add: nth_append)
  qed
qed

section \<open>Recording a pattern\<close>

lemma outputs_of_same:
  assumes "same_outputs b b'" and "m < length (b_nodes b')"
  shows "outputs_of b' m = (if m < length (b_nodes b) then outputs_of b m else [])"
  using assms by (auto simp: same_outputs_def outputs_of_def output_chain_def)

lemma outs_ok_mono:
  assumes "outs_ok lab b L ps" and "trie_ok b L" and "trie_ok b' (L @ K)" and "same_outputs b b'"
  shows "outs_ok lab b' (L @ K) ps"
proof -
  have len: "length (b_nodes b) = length L" "length (b_nodes b') = length (L @ K)"
    using assms by (simp_all add: trie_ok_def)
  have "\<not> (\<exists>i < length ps. lab (ps ! i) = (L @ K) ! n)" if "n < length (L @ K)" "length L \<le> n" for n
    using assms(1,3) that unfolding outs_ok_def trie_ok_def labels_ok_def
    by (metis (no_types, lifting) distinct_append disjoint_iff in_set_conv_nth nth_append nth_mem
        length_append less_diff_conv2 not_less add.commute)
  then have empty: "filter (\<lambda>i. lab (ps ! i) = (L @ K) ! n) [0..<length ps] = []"
    if "n < length (L @ K)" "length L \<le> n" for n
    using that by (auto simp: filter_empty_conv)
  have "outputs_of b' n = rev (filter (\<lambda>i. lab (ps ! i) = (L @ K) ! n) [0..<length ps]) \<and>
      bn_output_count (b_nodes b' ! n) = length (outputs_of b' n) \<and>
      (\<forall>e. bn_first_output (b_nodes b' ! n) = Some e \<longrightarrow> e < length ps)"
    if n: "n < length (L @ K)" for n
  proof (cases "n < length L")
    case True
    then show ?thesis
      using assms(1,4) n len outputs_of_same [OF assms(4), of n]
      by (simp add: outs_ok_def same_outputs_def nth_append)
  next
    case False
    then show ?thesis
      using assms(4) n len outputs_of_same [OF assms(4), of n] empty [OF n]
      by (simp add: same_outputs_def)
  qed
  then show ?thesis using assms(1,4) by (simp add: outs_ok_def same_outputs_def)
qed

lemma trie_ok_cong:
  assumes "trie_ok b L" and "b_edges b' = b_edges b" and "length (b_nodes b') = length (b_nodes b)"
    and "\<And>n. n < length L \<Longrightarrow> bn_first_edge (b_nodes b' ! n) = bn_first_edge (b_nodes b ! n) \<and>
      bn_edge_count (b_nodes b' ! n) = bn_edge_count (b_nodes b ! n) \<and>
      bn_fail (b_nodes b' ! n) = bn_fail (b_nodes b ! n) \<and>
      bn_dict_suffix (b_nodes b' ! n) = bn_dict_suffix (b_nodes b ! n)"
  shows "trie_ok b' L"
proof -
  have "edge_pair b' = edge_pair b" by (rule ext) (simp add: edge_pair_def assms(2))
  moreover have "edges_of b' n = edges_of b n" if "n < length L" for n
    using assms(2,4) that by (simp add: edges_of_def)
  ultimately show ?thesis
    using assms by (simp add: trie_ok_def node_ok_def)
qed

lemma add_output_step:
  assumes ok: "trie_ok b L" and outs: "outs_ok lab b L ps" and n: "node < length L"
    and label: "L ! node = lab p" and eq: "add_output b node p = Inr b'"
  shows "trie_ok b' L \<and> outs_ok lab b' L (ps @ [p]) \<and> b_max_nodes b' = b_max_nodes b"
proof -
  have len: "length (b_nodes b) = length L" "length (b_outputs b) = length ps"
    using ok outs by (simp_all add: trie_ok_def outs_ok_def)
  have fields: "b_edges b' = b_edges b" "b_max_nodes b' = b_max_nodes b"
    "b_outputs b' = b_outputs b @ [\<lparr>bo_next = bn_first_output (b_nodes b ! node),
       bo_rule_index = pat_rule_index p, bo_step_index = pat_step_index p, bo_pattern_len = pat_len p\<rparr>]"
    "b_nodes b' = (b_nodes b)[node := (b_nodes b ! node)\<lparr>bn_first_output := Some (length ps),
       bn_output_count := bn_output_count (b_nodes b ! node) + 1\<rparr>]"
    using eq len by (auto simp: add_output_def Let_def split: if_splits)
  have trie: "trie_ok b' L"
    by (rule trie_ok_cong [OF ok]) (use len n in \<open>auto simp: fields nth_list_update\<close>)
  have old: "older_links (\<lambda>i. bo_next (b_outputs b ! i)) (length (b_outputs b))"
    using outs by (simp add: outs_ok_def)
  have head: "j < length (b_outputs b)" if "m < length L" "bn_first_output (b_nodes b ! m) = Some j" for m j
    using outs that by (simp add: outs_ok_def)
  have same: "outputs_of b' m = outputs_of b m" if "m < length L" "m \<noteq> node" for m
  proof (cases "bn_first_output (b_nodes b ! m)")
    case (Some e)
    then show ?thesis
      using that chain_append [of bo_next "b_outputs b" e, OF old head [OF that(1) Some]] len
      by (simp add: outputs_of_def output_chain_def fields del: chain_upto.simps)
  qed (use that in \<open>simp add: outputs_of_def output_chain_def fields\<close>)
  have new: "outputs_of b' node = length ps # outputs_of b node"
    using n len chain_append_new [of bo_next "b_outputs b" "\<lparr>bo_next = bn_first_output (b_nodes b ! node),
       bo_rule_index = pat_rule_index p, bo_step_index = pat_step_index p, bo_pattern_len = pat_len p\<rparr>",
       OF old] head [OF n]
    by (simp add: outputs_of_def output_chain_def fields del: chain_upto.simps)
  have "older_links (\<lambda>i. bo_next (b_outputs b' ! i)) (length (b_outputs b'))"
    unfolding fields(3) by (rule older_links_append [OF old]) (use head [OF n] in auto)
  moreover have "filter (\<lambda>i. lab ((ps @ [p]) ! i) = s) [0..<length ps] =
      filter (\<lambda>i. lab (ps ! i) = s) [0..<length ps]" for s
    by (rule filter_cong) (simp_all add: nth_append)
  then have filt: "filter (\<lambda>i. lab ((ps @ [p]) ! i) = s) [0..<length (ps @ [p])] =
      filter (\<lambda>i. lab (ps ! i) = s) [0..<length ps] @ (if lab p = s then [length ps] else [])" for s
    by simp
  have "outputs_of b' m = rev (filter (\<lambda>i. lab ((ps @ [p]) ! i) = L ! m) [0..<length (ps @ [p])]) \<and>
      bn_output_count (b_nodes b' ! m) = length (outputs_of b' m) \<and>
      (\<forall>e. bn_first_output (b_nodes b' ! m) = Some e \<longrightarrow> e < length (ps @ [p]))" if m: "m < length L" for m
  proof (cases "m = node")
    case True
    then show ?thesis
      unfolding filt using outs n label len by (simp add: new outs_ok_def fields)
  next
    case False
    then have "lab p \<noteq> L ! m"
      using ok m n label by (auto simp: trie_ok_def labels_ok_def nth_eq_iff_index_eq)
    then show ?thesis
      unfolding filt using False outs m len same [OF m False]
      by (auto simp: outs_ok_def fields less_SucI)
  qed
  moreover have "lab p \<in> set L" using n label by (metis nth_mem)
  ultimately have "outs_ok lab b' L (ps @ [p])"
    using outs len by (auto simp: outs_ok_def fields(3) nth_append less_Suc_eq)
  then show ?thesis using trie fields by blast
qed

lemma add_output_ok:
  assumes ok: "trie_ok b L" and outs: "outs_ok lab b L ps" and n: "node < length L"
    and label: "L ! node = lab p" and few: "length ps < 65535"
  shows "\<exists>b'. add_output b node p = Inr b' \<and> trie_ok b' L \<and> outs_ok lab b' L (ps @ [p]) \<and>
    b_max_nodes b' = b_max_nodes b"
proof -
  have "length (outputs_of b node) \<le> length ps"
    using outs n length_filter_le [of "\<lambda>i. lab (ps ! i) = L ! node" "[0..<length ps]"]
    by (simp add: outs_ok_def)
  then have "bn_output_count (b_nodes b ! node) \<noteq> unat U16_MAX"
    using outs n few by (simp add: outs_ok_def)
  then obtain b' where "add_output b node p = Inr b'" by (simp add: add_output_def Let_def)
  then show ?thesis using add_output_step [OF ok outs n label] by blast
qed

section \<open>The whole trie\<close>

definition trie_start :: "nat \<Rightarrow> build" where
  "trie_start m = \<lparr>b_max_nodes = m, b_nodes = [fresh_node], b_edges = [], b_outputs = [], b_duplicates = 0\<rparr>"

lemma trie_start_ok: "trie_ok (trie_start m) [[]]" "outs_ok lab (trie_start m) [[]] []"
  by (auto simp: trie_start_def trie_ok_def outs_ok_def labels_ok_def node_ok_def edges_of_def
      edge_chain_def outputs_of_def output_chain_def older_links_def fresh_node_def)

lemma insert_patterns_ok:
  assumes "trie_ok b L" and "outs_ok folded b L qs"
    and "length (b_nodes b) + sum_list (map pat_len ps) \<le> b_max_nodes b"
    and "length qs + length ps \<le> 65535"
  shows "\<exists>b' K. insert_patterns b ps = Inr b' \<and> trie_ok b' (L @ K) \<and> outs_ok folded b' (L @ K) (qs @ ps)"
  using assms
proof (induction ps arbitrary: b L qs)
  case Nil
  then show ?case by (intro exI [of _ b] exI [of _ "[]"]) simp
next
  case (Cons p ps)
  have "0 < length L" using Cons.prems(1) by (simp add: trie_ok_def labels_ok_def)
  moreover have "length (b_nodes b) + length (map v3_fold (take (pat_len p) (pat_bytes p))) \<le> b_max_nodes b"
    using Cons.prems(3) by simp
  ultimately obtain b1 node K where ins: "insert_bytes b 0 (folded p) = Inr (b1, node)"
    "trie_ok b1 (L @ K)" "node < length (L @ K)" "(L @ K) ! node = L ! 0 @ folded p"
    "same_outputs b b1" "length (b_nodes b1) \<le> length (b_nodes b) + length (folded p)"
    using insert_bytes_ok [OF Cons.prems(1)] unfolding folded_def by blast
  have root: "L ! 0 = []" using Cons.prems(1) by (simp add: trie_ok_def labels_ok_def)
  obtain b2 where out: "add_output b1 node p = Inr b2" "trie_ok b2 (L @ K)"
    "outs_ok folded b2 (L @ K) (qs @ [p])" "b_max_nodes b2 = b_max_nodes b1"
    using add_output_ok [OF ins(2) outs_ok_mono [OF Cons.prems(2,1) ins(2,5)] ins(3)] Cons.prems(4) ins(4) root
    by auto
  have "length (b_nodes b2) = length (b_nodes b1)" using ins(2) out(2) by (simp add: trie_ok_def)
  then have "length (b_nodes b2) + sum_list (map pat_len ps) \<le> b_max_nodes b2"
    using Cons.prems(3) ins(5,6) out(4) by (simp add: same_outputs_def folded_def)
  then obtain b' M where "insert_patterns b2 ps = Inr b'" "trie_ok b' ((L @ K) @ M)"
    "outs_ok folded b' ((L @ K) @ M) ((qs @ [p]) @ ps)"
    using Cons.IH [OF out(2,3)] Cons.prems(4) by auto
  then show ?case using ins(1) [unfolded folded_def] out(1) by (intro exI [of _ b'] exI [of _ "K @ M"]) simp
qed

lemma count_nodes_ok:
  "(\<forall>p \<in> set ps. 1 \<le> pat_len p \<and> pat_len p \<le> 64) \<Longrightarrow> m + sum_list (map pat_len ps) < 2 ^ 32 \<Longrightarrow>
    count_nodes ps m = Inr (m + sum_list (map pat_len ps))"
  by (induction ps arbitrary: m) (auto simp: not_le)

lemma count_nodes_result:
  "count_nodes ps m = Inr k \<Longrightarrow> k = m + sum_list (map pat_len ps) \<and> (\<forall>p \<in> set ps. 1 \<le> pat_len p \<and> pat_len p \<le> 64)"
proof (induction ps arbitrary: m)
  case (Cons p ps)
  have step: "count_nodes ps (m + pat_len p) = Inr k" and p: "1 \<le> pat_len p \<and> pat_len p \<le> 64"
    using Cons.prems by (auto split: if_splits)
  show ?case using Cons.IH [OF step] p by simp
qed simp

end
