(* ===== verification/V3AC_Links.thy ===== *)
theory V3AC_Links
  imports V3AC_Trie
begin

text \<open>
  The breadth-first pass of \<open>jmx_v3_ac_build\<close>: it gives every node the failure link to the node of
  its longest proper suffix in the trie, and the dictionary link to the next node on that chain that
  has outputs.
\<close>

section \<open>Longest suffixes\<close>

text \<open>Node \<open>t\<close> stands for the longest suffix of \<open>u\<close> that is a label; node \<open>f\<close> is a candidate for
  reading \<open>c\<close> after \<open>u\<close>: every suffix that can be extended by \<open>c\<close> is a suffix of its label.\<close>

definition is_longest :: "bytes list \<Rightarrow> bytes \<Rightarrow> nat \<Rightarrow> bool" where
  "is_longest L u t \<longleftrightarrow> t < length L \<and> suffix (L ! t) u \<and> (\<forall>s \<in> set L. suffix s u \<longrightarrow> suffix s (L ! t))"

definition is_cand :: "bytes list \<Rightarrow> bytes \<Rightarrow> u8 \<Rightarrow> nat \<Rightarrow> bool" where
  "is_cand L u c f \<longleftrightarrow> f < length L \<and> suffix (L ! f) u \<and>
     (\<forall>s \<in> set L. suffix s u \<and> s @ [c] \<in> set L \<longrightarrow> suffix s (L ! f))"

lemma longest_cand: "is_longest L u n \<Longrightarrow> is_cand L u c n"
  by (simp add: is_longest_def is_cand_def)

lemma labels_root: "labels_ok L \<Longrightarrow> L ! 0 = [] \<and> 0 < length L"
  by (simp add: labels_ok_def)

lemma labels_nonroot:
  assumes "labels_ok L" and "n < length L"
  shows "L ! n = [] \<longleftrightarrow> n = 0"
proof -
  have "distinct L" using assms(1) unfolding labels_ok_def by blast
  then show ?thesis using labels_root [OF assms(1)] assms(2) nth_eq_iff_index_eq by metis
qed

lemma longest_root [simp]: "labels_ok L \<Longrightarrow> is_longest L [] 0"
  using labels_root [of L] by (simp add: is_longest_def)

lemma cand_fail:
  assumes "is_cand L u c f" and "L ! f @ [c] \<notin> set L" and "is_longest L (tl (L ! f)) f'"
  shows "is_cand L u c f'"
proof -
  have "suffix (L ! f') (tl (L ! f))" and "suffix (L ! f) u"
    using assms(1,3) by (simp_all add: is_cand_def is_longest_def)
  then have up: "suffix (L ! f') u"
    using suffix_tl [of "L ! f"] suffix_order.trans by blast
  have "suffix s (L ! f')" if s: "s \<in> set L" "suffix s u" "s @ [c] \<in> set L" for s
  proof -
    have "suffix s (L ! f)" and "s \<noteq> L ! f" using assms(1,2) s by (auto simp: is_cand_def)
    then have "suffix s (tl (L ! f))" by (cases "L ! f") (auto simp: suffix_Cons)
    then show ?thesis using assms(3) s by (simp add: is_longest_def)
  qed
  then show ?thesis using assms(3) up by (simp add: is_cand_def is_longest_def)
qed

lemma cand_child:
  assumes "labels_ok L" and "is_cand L u c f" and "t < length L" and "L ! t = L ! f @ [c]"
  shows "is_longest L (u @ [c]) t"
proof -
  have "suffix s (L ! t)" if s: "s \<in> set L" "suffix s (u @ [c])" for s
  proof (cases "s = []")
    case False
    then obtain r where r: "s = r @ [c]" "suffix r u" using s by (auto simp: suffix_snoc)
    then have "r \<in> set L" using assms(1) s by (fastforce simp: labels_ok_def)
    then show ?thesis using assms(2,4) r s by (auto simp: is_cand_def suffix_snoc)
  qed simp
  then show ?thesis using assms by (simp add: is_longest_def is_cand_def suffix_snoc)
qed

lemma cand_root:
  assumes "labels_ok L" and "is_cand L u c 0" and "[c] \<notin> set L"
  shows "is_longest L (u @ [c]) 0"
proof -
  have "s = []" if s: "s \<in> set L" "suffix s (u @ [c])" for s
  proof (rule ccontr)
    assume "s \<noteq> []"
    then obtain r where r: "s = r @ [c]" "suffix r u" using s by (auto simp: suffix_snoc)
    then have "r \<in> set L" using assms(1) s by (fastforce simp: labels_ok_def)
    then have "suffix r (L ! 0)" using assms(2) r s by (simp add: is_cand_def)
    then show False using labels_root [OF assms(1)] r assms(3) s by simp
  qed
  then show ?thesis using labels_root [OF assms(1)] by (auto simp: is_longest_def)
qed

lemma longest_unique:
  assumes "labels_ok L" and "is_longest L u s" and "is_longest L u t"
  shows "s = t"
proof -
  have "L ! s = L ! t"
    using assms by (auto simp: is_longest_def intro: suffix_order.antisym)
  then show ?thesis using assms by (auto simp: is_longest_def labels_ok_def nth_eq_iff_index_eq)
qed

text \<open>A label is shorter than the number of nodes: its prefixes are labels.\<close>

lemma prefix_label: "labels_ok L \<Longrightarrow> s @ r \<in> set L \<Longrightarrow> s \<in> set L"
proof (induction r rule: rev_induct)
  case (snoc x r)
  then have "butlast (s @ r @ [x]) \<in> set L" by (auto simp: labels_ok_def)
  then show ?case using snoc by (simp add: butlast_append)
qed simp

lemma label_length:
  assumes "labels_ok L" and "s \<in> set L"
  shows "length s < length L"
proof -
  have "(\<lambda>k. take k s) ` {..length s} \<subseteq> set L"
  proof
    fix x assume "x \<in> (\<lambda>k. take k s) ` {..length s}"
    then obtain k where "x = take k s" by blast
    then show "x \<in> set L" using prefix_label [OF assms(1), of x "drop k s"] assms(2) by simp
  qed
  moreover have "inj_on (\<lambda>k. take k s) {..length s}"
    by (rule inj_onI) (metis atMost_iff length_take min.absorb2)
  ultimately have "Suc (length s) \<le> card (set L)"
    using card_mono [of "set L" "(\<lambda>k. take k s) ` {..length s}"] by (simp add: card_image)
  then show ?thesis using card_length [of L] by simp
qed

section \<open>Links of a node list\<close>

definition same_shape :: "build \<Rightarrow> build_node list \<Rightarrow> bool" where
  "same_shape b ns \<longleftrightarrow> length ns = length (b_nodes b) \<and> (\<forall>n < length ns.
     bn_first_edge (ns ! n) = bn_first_edge (b_nodes b ! n) \<and>
     bn_first_output (ns ! n) = bn_first_output (b_nodes b ! n) \<and>
     bn_edge_count (ns ! n) = bn_edge_count (b_nodes b ! n) \<and>
     bn_output_count (ns ! n) = bn_output_count (b_nodes b ! n))"

definition linked :: "bytes list \<Rightarrow> build_node list \<Rightarrow> nat \<Rightarrow> bool" where
  "linked L ns n \<longleftrightarrow> is_longest L (tl (L ! n)) (bn_fail (ns ! n)) \<and>
     bn_dict_suffix (ns ! n) =
       (if bn_output_count (ns ! bn_fail (ns ! n)) \<noteq> 0 then Some (bn_fail (ns ! n))
        else bn_dict_suffix (ns ! bn_fail (ns ! n)))"

definition linked_to :: "bytes list \<Rightarrow> build_node list \<Rightarrow> nat \<Rightarrow> bool" where
  "linked_to L ns d \<longleftrightarrow> (\<forall>m < length L. m \<noteq> 0 \<and> length (L ! m) \<le> d \<longrightarrow> linked L ns m)"

lemma linked_cong:
  assumes "linked L ns m" and "ns' ! m = ns ! m" and "ns' ! bn_fail (ns ! m) = ns ! bn_fail (ns ! m)"
  shows "linked L ns' m"
  using assms by (simp add: linked_def)

lemma linked_fail_shorter:
  assumes "labels_ok L" and "linked L ns m" and "m < length L" and "m \<noteq> 0"
  shows "bn_fail (ns ! m) < length L \<and> length (L ! bn_fail (ns ! m)) < length (L ! m)"
proof -
  have "L ! m \<noteq> []" using labels_nonroot [OF assms(1,3)] assms(4) by simp
  moreover have "length (L ! bn_fail (ns ! m)) \<le> length (tl (L ! m))"
    using assms(2) by (auto simp: linked_def is_longest_def dest: suffix_length_le)
  ultimately show ?thesis using assms(2) by (cases "L ! m") (auto simp: linked_def is_longest_def)
qed

lemma shape_child:
  assumes "same_shape b ns" and "trie_ok b L" and "n < length L"
  shows "build_find_child ns (b_edges b) n c = build_find_child (b_nodes b) (b_edges b) n c"
  using assms by (simp add: build_find_child_def same_shape_def trie_ok_def)

section \<open>Walking the failure links\<close>

lemma root_step:
  assumes "trie_ok b L" and "same_shape b ns" and "is_cand L u c 0"
  shows "is_longest L (u @ [c]) (case build_find_child ns (b_edges b) 0 c of None \<Rightarrow> 0 | Some t \<Rightarrow> t)"
proof -
  have lab: "labels_ok L" using assms(1) by (simp add: trie_ok_def)
  note root = labels_root [OF lab]
  have child: "build_find_child ns (b_edges b) 0 c = build_find_child (b_nodes b) (b_edges b) 0 c"
    using shape_child [OF assms(2,1)] root by simp
  show ?thesis
  proof (cases "build_find_child ns (b_edges b) 0 c")
    case None
    then have "[c] \<notin> set L" using trie_child_None [OF assms(1), of 0 c] root child by simp
    then show ?thesis using None cand_root [OF lab assms(3)] by simp
  next
    case (Some t)
    then have "t < length L \<and> L ! t = L ! 0 @ [c]"
      using trie_child_iff [OF assms(1), of 0 c t] root child by simp
    then show ?thesis using Some cand_child [OF lab assms(3)] by simp
  qed
qed

lemma fail_walk_longest:
  assumes "trie_ok b L" and "same_shape b ns"
  shows "is_cand L u c f \<Longrightarrow> linked_to L ns (length (L ! f)) \<Longrightarrow> length (L ! f) \<le> fuel \<Longrightarrow>
    is_longest L (u @ [c]) (case (case fail_walk fuel ns (b_edges b) f c of
        None \<Rightarrow> build_find_child ns (b_edges b) 0 c | t \<Rightarrow> t) of None \<Rightarrow> 0 | Some t \<Rightarrow> t)"
proof (induction fuel arbitrary: f)
  case (0 f)
  have lab: "labels_ok L" using assms(1) by (simp add: trie_ok_def)
  have f: "f < length L" using 0 by (simp add: is_cand_def)
  then have "f = 0" using 0 labels_nonroot [OF lab] by simp
  then show ?case using root_step [OF assms] 0 by simp
next
  case (Suc fuel f)
  have lab: "labels_ok L" using assms(1) by (simp add: trie_ok_def)
  have f: "f < length L" using Suc by (simp add: is_cand_def)
  show ?case
  proof (cases "f = 0")
    case True
    then show ?thesis using root_step [OF assms] Suc.prems(1) by simp
  next
    case False
    show ?thesis
    proof (cases "build_find_child ns (b_edges b) f c")
      case (Some t)
      then have "t < length L \<and> L ! t = L ! f @ [c]"
        using trie_child_iff [OF assms(1) f] shape_child [OF assms(2,1) f] by simp
      then show ?thesis using False Some cand_child [OF lab Suc.prems(1)] by simp
    next
      case None
      then have none: "L ! f @ [c] \<notin> set L"
        using trie_child_None [OF assms(1) f] shape_child [OF assms(2,1) f] by simp
      let ?f = "bn_fail (ns ! f)"
      have lk: "linked L ns f" using Suc.prems(2) f False by (simp add: linked_to_def)
      have sh: "length (L ! ?f) < length (L ! f)"
        using linked_fail_shorter [OF lab lk f False] by simp
      have "is_cand L u c ?f"
        using cand_fail [OF Suc.prems(1) none] lk by (simp add: linked_def)
      moreover have "linked_to L ns (length (L ! ?f))" using Suc.prems(2) sh by (simp add: linked_to_def)
      ultimately show ?thesis using Suc.IH [of ?f] sh Suc.prems(3) False None by simp
    qed
  qed
qed

section \<open>Linking the children of a node\<close>

lemma link_child_ok:
  assumes ok: "trie_ok b L" and shape: "same_shape b ns" and n: "n < length L" "n \<noteq> 0"
    and lk: "linked_to L ns (length (L ! n))"
    and e: "edge_pair b e = (c, t)" and t: "t < length L" "L ! t = L ! n @ [c]"
  shows "same_shape b (link_child (b_edges b) n ns e)"
    and "\<And>m. m \<noteq> t \<Longrightarrow> link_child (b_edges b) n ns e ! m = ns ! m"
    and "linked L (link_child (b_edges b) n ns e) t"
proof -
  have lab: "labels_ok L" and len: "length (b_nodes b) = length L" using ok by (simp_all add: trie_ok_def)
  have lns: "length ns = length L" using shape len by (simp add: same_shape_def)
  have nl: "linked L ns n" using lk n by (simp add: linked_to_def)
  let ?f = "bn_fail (ns ! n)"
  have fs: "?f < length L" "length (L ! ?f) < length (L ! n)"
    using linked_fail_shorter [OF lab nl n] by simp_all
  define r where "r = (case fail_walk (length ns) ns (b_edges b) ?f c of
    None \<Rightarrow> build_find_child ns (b_edges b) 0 c | t \<Rightarrow> t)"
  define g where "g = (case r of None \<Rightarrow> 0 | Some t \<Rightarrow> t)"
  have "is_cand L (tl (L ! n)) c ?f" using nl by (auto simp: linked_def intro: longest_cand)
  moreover have "linked_to L ns (length (L ! ?f))" using lk fs by (simp add: linked_to_def)
  moreover have "length (L ! ?f) \<le> length ns" using label_length [OF lab nth_mem [OF fs(1)]] lns by simp
  ultimately have "is_longest L (tl (L ! n) @ [c]) g"
    using fail_walk_longest [OF ok shape] unfolding g_def r_def by blast
  moreover have ne: "L ! n \<noteq> []" using labels_nonroot [OF lab] n by simp
  ultimately have g: "is_longest L (tl (L ! t)) g" using t by simp
  then have gl: "g < length L" "length (L ! g) \<le> length (L ! n)"
    using suffix_length_le [of "L ! g" "tl (L ! t)"] t by (simp_all add: is_longest_def del: tl_append2)
  then have gt: "g \<noteq> t" using t by auto
  then have target: "(case r of None \<Rightarrow> 0 | Some u \<Rightarrow> if u = t then 0 else u) = g"
    by (auto simp: g_def split: option.splits)
  have eq: "link_child (b_edges b) n ns e = ns[t := (ns ! t)\<lparr>bn_fail := g,
      bn_dict_suffix := (if bn_output_count (ns ! g) \<noteq> 0 then Some g else bn_dict_suffix (ns ! g))\<rparr>]"
  proof -
    have bt: "be_byte (b_edges b ! e) = c" "be_target (b_edges b ! e) = t"
      using e by (simp_all add: edge_pair_def)
    show ?thesis unfolding link_child_def Let_def bt r_def [symmetric] target ..
  qed
  show "same_shape b (link_child (b_edges b) n ns e)"
    using shape lns t by (auto simp: eq same_shape_def nth_list_update)
  show "\<And>m. m \<noteq> t \<Longrightarrow> link_child (b_edges b) n ns e ! m = ns ! m" by (simp add: eq)
  show "linked L (link_child (b_edges b) n ns e) t"
    using g gt lns t by (simp add: eq linked_def)
qed

lemma link_children_ok:
  assumes ok: "trie_ok b L" and n: "n < length L" "n \<noteq> 0"
  shows "same_shape b ns \<Longrightarrow> linked_to L ns (length (L ! n)) \<Longrightarrow>
    (\<forall>e \<in> set es. snd (edge_pair b e) < length L \<and> L ! snd (edge_pair b e) = L ! n @ [fst (edge_pair b e)]) \<Longrightarrow>
    same_shape b (foldl (link_child (b_edges b) n) ns es) \<and>
    (\<forall>m. m \<notin> (snd \<circ> edge_pair b) ` set es \<longrightarrow> foldl (link_child (b_edges b) n) ns es ! m = ns ! m) \<and>
    (\<forall>e \<in> set es. linked L (foldl (link_child (b_edges b) n) ns es) (snd (edge_pair b e)))"
proof (induction es rule: rev_induct)
  case (snoc e es)
  let ?ns = "foldl (link_child (b_edges b) n) ns es"
  obtain c t where ct: "edge_pair b e = (c, t)" by fastforce
  have t: "t < length L" "L ! t = L ! n @ [c]" using snoc.prems(3) ct by simp_all
  have lab: "labels_ok L" using ok by (simp add: trie_ok_def)
  have ih: "same_shape b ?ns" "\<And>m. m \<notin> (snd \<circ> edge_pair b) ` set es \<Longrightarrow> ?ns ! m = ns ! m"
    "\<And>e. e \<in> set es \<Longrightarrow> linked L ?ns (snd (edge_pair b e))"
    using snoc by simp_all
  have targets: "length (L ! m) = Suc (length (L ! n))" if "m \<in> (snd \<circ> edge_pair b) ` set es" for m
    using snoc.prems(3) that by auto
  have deep: "length (L ! m) \<le> length (L ! n) \<Longrightarrow> ?ns ! m = ns ! m" for m
    using ih(2) [of m] targets by fastforce
  have lk: "linked_to L ?ns (length (L ! n))"
    unfolding linked_to_def
  proof (intro allI impI)
    fix m assume m: "m < length L" "m \<noteq> 0 \<and> length (L ! m) \<le> length (L ! n)"
    then have "linked L ns m" using snoc.prems(2) by (simp add: linked_to_def)
    moreover have "length (L ! bn_fail (ns ! m)) \<le> length (L ! n)"
      using linked_fail_shorter [OF lab calculation m(1)] m(2) by simp
    ultimately show "linked L ?ns m" using deep m(2) by (auto intro: linked_cong [of L ns m ?ns])
  qed
  note step = link_child_ok [OF ok ih(1) n lk ct t]
  have "linked L (link_child (b_edges b) n ?ns e) (snd (edge_pair b e'))" if e': "e' \<in> set es" for e'
  proof (cases "snd (edge_pair b e') = t")
    case False
    let ?m = "snd (edge_pair b e')"
    have m: "?m < length L" "L ! ?m = L ! n @ [fst (edge_pair b e')]" using snoc.prems(3) e' by simp_all
    then have "L ! ?m \<noteq> []" by simp
    then have "?m \<noteq> 0" using labels_root [OF lab] by metis
    then have "length (L ! bn_fail (?ns ! ?m)) < length (L ! ?m)"
      using linked_fail_shorter [OF lab ih(3) [OF e'] m(1)] by simp
    then have "bn_fail (?ns ! ?m) \<noteq> t" using m t by auto
    then show ?thesis using linked_cong [OF ih(3) [OF e']] step(2) False by blast
  qed (use step(3) in simp)
  then show ?case using step ih(2) ct by auto
qed simp

section \<open>The breadth-first loop\<close>

definition children :: "build \<Rightarrow> nat \<Rightarrow> nat list" where
  "children b n = map (snd \<circ> edge_pair b) (edges_of b n)"

lemma trie_node: "trie_ok b L \<Longrightarrow> n < length L \<Longrightarrow> node_ok b L n"
  by (simp add: trie_ok_def)

lemma node_pairs:
  "node_ok b L n \<Longrightarrow> edge_pair b ` set (edges_of b n) = {(c, t). t < length L \<and> L ! t = L ! n @ [c]}"
  by (simp only: node_ok_def)

lemma edge_label:
  assumes "trie_ok b L" and "n < length L" and "e \<in> set (edges_of b n)"
  shows "snd (edge_pair b e) < length L \<and> L ! snd (edge_pair b e) = L ! n @ [fst (edge_pair b e)]"
proof -
  have "edge_pair b ` set (edges_of b n) = {(c, t). t < length L \<and> L ! t = L ! n @ [c]}"
    by (rule node_pairs [OF trie_node [OF assms(1,2)]])
  moreover obtain c t where "edge_pair b e = (c, t)" by fastforce
  ultimately show ?thesis using assms(3) by force
qed

lemma snd_image_rel: "snd ` {(c, t). P t \<and> Q c t} = {t. P t \<and> (\<exists>c. Q c t)}"
  by force

lemma children_set:
  assumes "trie_ok b L" and "n < length L"
  shows "set (children b n) = {t. t < length L \<and> (\<exists>c. L ! t = L ! n @ [c])}"
proof -
  have "set (children b n) = snd ` edge_pair b ` set (edges_of b n)"
    by (simp add: children_def image_image)
  also have "\<dots> = snd ` {(c, t). t < length L \<and> L ! t = L ! n @ [c]}"
    by (simp only: node_pairs [OF trie_node [OF assms]])
  finally show ?thesis by (simp only: snd_image_rel)
qed

lemma child_label:
  assumes "trie_ok b L" and "n < length L" and "t \<in> set (children b n)"
  shows "t < length L \<and> t \<noteq> 0 \<and> butlast (L ! t) = L ! n \<and> length (L ! t) = Suc (length (L ! n))"
proof -
  have "L ! 0 = []" using assms(1) by (simp add: trie_ok_def labels_ok_def)
  moreover have "t \<in> {t. t < length L \<and> (\<exists>c. L ! t = L ! n @ [c])}"
    using assms(3) by (simp only: children_set [OF assms(1,2)])
  then obtain c where "t < length L" "L ! t = L ! n @ [c]" by blast
  ultimately show ?thesis by (cases "t = 0") simp_all
qed

lemma child_iff:
  assumes "trie_ok b L" and "n < length L"
  shows "t \<in> set (children b n) \<longleftrightarrow> t < length L \<and> butlast (L ! t) = L ! n \<and> L ! t \<noteq> []"
proof
  assume "t \<in> set (children b n)"
  then show "t < length L \<and> butlast (L ! t) = L ! n \<and> L ! t \<noteq> []"
    using child_label [OF assms] by (metis length_0_conv nat.distinct(1))
next
  assume t: "t < length L \<and> butlast (L ! t) = L ! n \<and> L ! t \<noteq> []"
  then have "L ! t = L ! n @ [last (L ! t)]" by (metis append_butlast_last_id)
  then show "t \<in> set (children b n)" using t children_set [OF assms] by blast
qed

lemma sorted_const: "(\<forall>x \<in> set xs. f x = c) \<Longrightarrow> sorted (map f xs)"
  by (induction xs) auto

lemma children_distinct:
  assumes "trie_ok b L" and "n < length L"
  shows "distinct (children b n)"
proof -
  note nk = trie_node [OF assms]
  have "inj_on (snd \<circ> edge_pair b) (set (edges_of b n))"
  proof (rule inj_onI)
    fix e e' assume e: "e \<in> set (edges_of b n)" "e' \<in> set (edges_of b n)"
      and eq: "(snd \<circ> edge_pair b) e = (snd \<circ> edge_pair b) e'"
    have "fst (edge_pair b e) = fst (edge_pair b e')"
      using edge_label [OF assms e(1)] edge_label [OF assms e(2)] eq by simp
    moreover have "inj_on (fst \<circ> edge_pair b) (set (edges_of b n))"
      using nk by (simp add: node_ok_def distinct_map)
    ultimately show "e = e'" using e by (simp add: inj_on_def)
  qed
  moreover have "distinct (edges_of b n)" using nk by (auto simp: node_ok_def distinct_map)
  ultimately show ?thesis by (simp add: children_def distinct_map)
qed

definition bfs_ok :: "build \<Rightarrow> bytes list \<Rightarrow> build_node list \<Rightarrow> nat list \<Rightarrow> nat \<Rightarrow> bool" where
  "bfs_ok b L ns q h \<longleftrightarrow> same_shape b ns \<and> distinct q \<and> h \<le> length q \<and>
     set q = {t. t < length L \<and> t \<noteq> 0 \<and> (length (L ! t) = 1 \<or> (\<exists>i < h. butlast (L ! t) = L ! (q ! i)))} \<and>
     sorted (map (\<lambda>n. length (L ! n)) q) \<and>
     (h < length q \<longrightarrow> (\<forall>n \<in> set q. length (L ! n) \<le> Suc (length (L ! (q ! h))))) \<and>
     (\<forall>n \<in> set q. linked L ns n) \<and> ns ! 0 = b_nodes b ! 0"

lemma bfs_shallow:
  assumes ok: "trie_ok b L" and inv: "bfs_ok b L ns q h" and h: "h < length q"
    and t: "t < length L" "t \<noteq> 0" "length (L ! t) \<le> length (L ! (q ! h))"
  shows "t \<in> set q"
  using t
proof (induction "length (L ! t)" arbitrary: t rule: less_induct)
  case less
  have lab: "labels_ok L" using ok by (simp add: trie_ok_def)
  have ne: "L ! t \<noteq> []" using labels_nonroot [OF lab] less.prems by simp
  have "butlast (L ! t) \<in> set L" using lab ne less.prems(1) by (auto simp: labels_ok_def)
  then obtain p where p: "p < length L" "L ! p = butlast (L ! t)" by (auto simp: in_set_conv_nth)
  show ?case
  proof (cases "p = 0")
    case True
    then have "length (L ! t) = 1" using p labels_root [OF lab] ne by (cases "L ! t") (auto split: if_splits)
    then show ?thesis using inv less.prems by (simp add: bfs_ok_def)
  next
    case False
    have shorter: "length (L ! p) < length (L ! t)" using p ne by simp
    then have "p \<in> set q" using less.hyps [of p] False less.prems p by simp
    then obtain i where i: "i < length q" "q ! i = p" by (auto simp: in_set_conv_nth)
    have "i < h"
    proof (rule ccontr)
      assume "\<not> i < h"
      then have "length (L ! (q ! h)) \<le> length (L ! (q ! i))"
        using inv h i sorted_nth_mono [of "map (\<lambda>n. length (L ! n)) q" h i] by (simp add: bfs_ok_def)
      then show False using shorter less.prems(3) i by simp
    qed
    then show ?thesis using inv less.prems p i by (auto simp: bfs_ok_def)
  qed
qed

lemma bfs_step_shape:
  assumes ok: "trie_ok b L" and shape: "same_shape b ns" and n: "n < length L"
  shows "edge_chain (b_edges b) (bn_first_edge (ns ! n)) = edges_of b n"
  using assms by (simp add: same_shape_def trie_ok_def edges_of_def)

lemma bfs_queue_step:
  assumes ok: "trie_ok b L" and inv: "bfs_ok b L ns q h" and h: "h < length q"
  defines "n \<equiv> q ! h"
  shows "distinct (q @ children b n)"
    and "set (q @ children b n) = {t. t < length L \<and> t \<noteq> 0 \<and>
           (length (L ! t) = 1 \<or> (\<exists>i < Suc h. butlast (L ! t) = L ! ((q @ children b n) ! i)))}"
    and "sorted (map (\<lambda>n. length (L ! n)) (q @ children b n))"
    and "\<forall>m \<in> set (q @ children b n). length (L ! m) \<le> Suc (length (L ! n))"
proof -
  have lab: "labels_ok L" using ok by (simp add: trie_ok_def)
  have dist: "distinct L" using lab by (simp add: labels_ok_def)
  have qset: "set q = {t. t < length L \<and> t \<noteq> 0 \<and> (length (L ! t) = 1 \<or> (\<exists>i < h. butlast (L ! t) = L ! (q ! i)))}"
    using inv by (simp only: bfs_ok_def)
  have "n \<in> set q" using h by (simp add: n_def)
  then have n: "n < length L" "n \<noteq> 0" using qset by auto
  then have ne: "L ! n \<noteq> []" using labels_nonroot [OF lab] by simp
  note cs = children_set [OF ok n(1)]
  note child = child_label [OF ok n(1)]
  have bound: "\<forall>m \<in> set q. length (L ! m) \<le> Suc (length (L ! n))"
    using inv h by (simp add: bfs_ok_def n_def)
  have new: "t \<notin> set q" if t: "t \<in> set (children b n)" for t
  proof
    assume "t \<in> set q"
    moreover have "length (L ! t) \<noteq> 1" using child [OF t] ne by simp
    ultimately obtain i where i: "i < h" "L ! n = L ! (q ! i)"
      using child [OF t] unfolding qset by auto
    have "q ! i \<in> set q" using i h by simp
    then have "q ! i < length L" unfolding qset by simp
    then have "q ! i = q ! h" using i n dist by (simp add: n_def nth_eq_iff_index_eq)
    then show False using inv i h by (simp add: bfs_ok_def nth_eq_iff_index_eq)
  qed
  show "distinct (q @ children b n)"
    using inv new children_distinct [OF ok n(1)] by (auto simp: bfs_ok_def)
  have kid: "t \<in> set (children b n) \<longleftrightarrow> t < length L \<and> t \<noteq> 0 \<and> butlast (L ! t) = L ! n" for t
  proof (cases "t < length L \<and> t \<noteq> 0")
    case True
    then show ?thesis using child_iff [OF ok n(1), of t] labels_nonroot [OF lab] by simp
  next
    case False
    then show ?thesis using child [of t] by blast
  qed
  have ex: "(\<exists>i < Suc h. butlast (L ! t) = L ! ((q @ children b n) ! i)) \<longleftrightarrow>
      (\<exists>i < h. butlast (L ! t) = L ! (q ! i)) \<or> butlast (L ! t) = L ! n" for t
  proof -
    have "\<And>i. i < Suc h \<Longrightarrow> (q @ children b n) ! i = q ! i" using h by (simp add: nth_append)
    then show ?thesis using n_def less_Suc_eq by (metis (no_types, lifting))
  qed
  show "set (q @ children b n) = {t. t < length L \<and> t \<noteq> 0 \<and>
      (length (L ! t) = 1 \<or> (\<exists>i < Suc h. butlast (L ! t) = L ! ((q @ children b n) ! i)))}"
    unfolding set_append qset ex using kid by blast
  show "\<forall>m \<in> set (q @ children b n). length (L ! m) \<le> Suc (length (L ! n))"
    using bound child by auto
  have "sorted (map (\<lambda>n. length (L ! n)) q)" using inv by (simp add: bfs_ok_def)
  moreover have "sorted (map (\<lambda>n. length (L ! n)) (children b n))"
    using child by (intro sorted_const) blast
  ultimately show "sorted (map (\<lambda>n. length (L ! n)) (q @ children b n))"
    using bound child by (auto simp: sorted_append)
qed

lemma bfs_ok_step:
  assumes ok: "trie_ok b L" and inv: "bfs_ok b L ns q h" and h: "h < length q"
  defines "n \<equiv> q ! h"
  defines "ns' \<equiv> foldl (link_child (b_edges b) n) ns (edges_of b n)"
  shows "bfs_ok b L ns' (q @ children b n) (Suc h)"
proof -
  have lab: "labels_ok L" using ok by (simp add: trie_ok_def)
  have shape: "same_shape b ns" using inv by (simp add: bfs_ok_def)
  have qset: "t < length L \<and> t \<noteq> 0" if "t \<in> set q" for t
    using inv that by (auto simp: bfs_ok_def)
  have nq: "n \<in> set q" using h by (simp add: n_def)
  then have n: "n < length L" "n \<noteq> 0" using qset by auto
  have lk: "linked_to L ns (length (L ! n))"
    using bfs_shallow [OF ok inv h] inv by (simp add: linked_to_def bfs_ok_def n_def)
  have kids: "(snd \<circ> edge_pair b) ` set (edges_of b n) = set (children b n)"
    by (simp add: children_def)
  note step = link_children_ok [OF ok n shape lk, of "edges_of b n", folded ns'_def, unfolded kids]
  have shape': "same_shape b ns'" and other: "\<And>m. m \<notin> set (children b n) \<Longrightarrow> ns' ! m = ns ! m"
    and kid_linked: "\<And>m. m \<in> set (children b n) \<Longrightarrow> linked L ns' m"
    using step edge_label [OF ok n(1)] unfolding kids [symmetric] by auto
  note queue = bfs_queue_step [OF ok inv h, folded n_def]
  have deep: "length (L ! t) = Suc (length (L ! n))" if "t \<in> set (children b n)" for t
    using that unfolding children_set [OF ok n(1)] by auto
  have old: "linked L ns' m" if m: "m \<in> set q" for m
  proof (rule linked_cong)
    show l: "linked L ns m" using inv m by (simp add: bfs_ok_def)
    show "ns' ! m = ns ! m" using other queue(1) m by auto
    have "length (L ! bn_fail (ns ! m)) < length (L ! m)"
      using linked_fail_shorter [OF lab l] qset [OF m] by simp
    also have "\<dots> \<le> Suc (length (L ! n))" using queue(4) m by simp
    finally show "ns' ! bn_fail (ns ! m) = ns ! bn_fail (ns ! m)"
      using deep [of "bn_fail (ns ! m)"] by (intro other) auto
  qed
  have "length (L ! m) \<le> Suc (length (L ! ((q @ children b n) ! Suc h)))"
    if "Suc h < length (q @ children b n)" "m \<in> set (q @ children b n)" for m
  proof -
    have "length (L ! n) \<le> length (L ! ((q @ children b n) ! Suc h))"
      using sorted_nth_mono [OF queue(3), of h "Suc h"] that(1) h
      by (simp add: n_def nth_append [of q] del: map_append)
    then show ?thesis using queue(4) that(2) by (auto intro: le_trans)
  qed
  moreover have "ns' ! 0 = b_nodes b ! 0"
    using other [of 0] deep [of 0] labels_root [OF lab] inv by (auto simp: bfs_ok_def)
  ultimately show ?thesis
    using shape' queue(1-3) h old kid_linked by (auto simp: bfs_ok_def)
qed

lemma bfs_result:
  assumes ok: "trie_ok b L"
  shows "bfs_ok b L ns q h \<Longrightarrow> length L \<le> fuel + h \<Longrightarrow>
    \<exists>ns' q'. bfs fuel (b_edges b) ns q h = (ns', q') \<and> bfs_ok b L ns' q' (length q')"
proof (induction fuel arbitrary: ns q h)
  case (0 ns q h)
  have "set q \<subseteq> {1..<length L}" using 0 by (auto simp: bfs_ok_def)
  then have "card (set q) \<le> length L - 1" using card_mono [of "{1..<length L}" "set q"] by simp
  moreover have "distinct q" using 0 by (simp add: bfs_ok_def)
  ultimately have "length q \<le> length L - 1" by (simp add: distinct_card)
  moreover have "0 < length L" using ok by (simp add: trie_ok_def labels_ok_def)
  ultimately show ?case using 0 by (auto simp: bfs_ok_def)
next
  case (Suc fuel ns q h)
  show ?case
  proof (cases "h < length q")
    case True
    let ?n = "q ! h"
    have "?n \<in> set q" using True by simp
    then have "?n < length L" using Suc.prems(1) by (auto simp: bfs_ok_def)
    then have "edge_chain (b_edges b) (bn_first_edge (ns ! ?n)) = edges_of b ?n"
      using bfs_step_shape [OF ok] Suc.prems(1) by (simp add: bfs_ok_def)
    moreover have "map (\<lambda>e. be_target (b_edges b ! e)) (edges_of b ?n) = children b ?n"
      by (simp add: children_def edge_pair_def)
    ultimately show ?thesis
      using True Suc.IH [OF bfs_ok_step [OF ok Suc.prems(1) True]] Suc.prems(2) by (simp add: Let_def)
  next
    case False
    then have "h = length q" using Suc.prems(1) by (simp add: bfs_ok_def)
    then show ?thesis using Suc.prems(1) by auto
  qed
qed

lemma bfs_done:
  assumes ok: "trie_ok b L" and inv: "bfs_ok b L ns q (length q)" and t: "t < length L" "t \<noteq> 0"
  shows "t \<in> set q"
  using t
proof (induction "length (L ! t)" arbitrary: t rule: less_induct)
  case less
  have lab: "labels_ok L" using ok by (simp add: trie_ok_def)
  have ne: "L ! t \<noteq> []" using labels_nonroot [OF lab] less.prems by simp
  have "butlast (L ! t) \<in> set L" using lab ne less.prems(1) by (auto simp: labels_ok_def)
  then obtain p where p: "p < length L" "L ! p = butlast (L ! t)" by (auto simp: in_set_conv_nth)
  show ?case
  proof (cases "p = 0")
    case True
    then have "length (L ! t) = 1" using p labels_root [OF lab] ne by (cases "L ! t") (auto split: if_splits)
    then show ?thesis using inv less.prems by (simp add: bfs_ok_def)
  next
    case False
    then have "p \<in> set q" using less.hyps [of p] p ne by simp
    then obtain i where "i < length q" "q ! i = p" by (auto simp: in_set_conv_nth)
    then show ?thesis using inv less.prems p by (auto simp: bfs_ok_def)
  qed
qed

lemma seed_identity:
  "(\<forall>n < length ns. bn_fail (ns ! n) = 0) \<Longrightarrow>
    foldl (\<lambda>ns c. ns[c := (ns ! c)\<lparr>bn_fail := 0\<rparr>]) ns cs = ns"
proof (induction cs)
  case (Cons c cs)
  have "ns[c := (ns ! c)\<lparr>bn_fail := 0\<rparr>] = ns"
  proof (cases "c < length ns")
    case True
    then have "bn_fail (ns ! c) = 0" using Cons.prems by simp
    then have "(ns ! c)\<lparr>bn_fail := 0\<rparr> = ns ! c" by (cases "ns ! c") simp
    then show ?thesis by simp
  qed (simp add: list_update_beyond)
  then show ?case using Cons by simp
qed simp

text \<open>The result of the pass.\<close>

definition links_ok :: "build \<Rightarrow> bytes list \<Rightarrow> build_node list \<Rightarrow> bool" where
  "links_ok b L ns \<longleftrightarrow> same_shape b ns \<and> (\<forall>n < length L. n \<noteq> 0 \<longrightarrow> linked L ns n) \<and>
     bn_dict_suffix (ns ! 0) = None"

lemma link_nodes_ok:
  assumes ok: "trie_ok b L" and root: "bn_output_count (b_nodes b ! 0) = 0"
  shows "links_ok b L (link_nodes b)"
proof -
  have lab: "labels_ok L" and len: "length (b_nodes b) = length L" using ok by (simp_all add: trie_ok_def)
  note r = labels_root [OF lab]
  let ?q = "children b 0"
  have q: "map (\<lambda>e. be_target (b_edges b ! e)) (edge_chain (b_edges b) (bn_first_edge (b_nodes b ! 0))) = ?q"
    by (simp add: children_def edges_of_def edge_pair_def)
  have depth1: "set ?q = {t. t < length L \<and> t \<noteq> 0 \<and> length (L ! t) = 1}"
  proof (rule equalityI; rule subsetI)
    fix t assume "t \<in> set ?q"
    then show "t \<in> {t. t < length L \<and> t \<noteq> 0 \<and> length (L ! t) = 1}"
      using child_label [OF ok, of 0 t] r by simp
  next
    fix t assume "t \<in> {t. t < length L \<and> t \<noteq> 0 \<and> length (L ! t) = 1}"
    then obtain c where "t < length L" "L ! t = L ! 0 @ [c]" using r by (auto simp: length_Suc_conv)
    then show "t \<in> set ?q" using children_set [OF ok, of 0] r by blast
  qed
  have "linked L (b_nodes b) t" if t: "t \<in> set ?q" for t
  proof -
    have "tl (L ! t) = []" using t unfolding depth1 by (auto simp: length_Suc_conv)
    then show ?thesis
      using ok r root lab t unfolding depth1 by (simp add: linked_def trie_ok_def)
  qed
  moreover have "same_shape b (b_nodes b)" by (simp add: same_shape_def)
  moreover have "sorted (map (\<lambda>n. length (L ! n)) ?q)"
    using depth1 by (intro sorted_const) blast
  ultimately have start: "bfs_ok b L (b_nodes b) ?q 0"
    using children_distinct [OF ok, of 0] r depth1 by (simp add: bfs_ok_def)
  then obtain ns q' where res: "bfs (length L) (b_edges b) (b_nodes b) ?q 0 = (ns, q')"
    "bfs_ok b L ns q' (length q')"
    using bfs_result [OF ok start, of "length L"] by auto
  have "bn_fail (b_nodes b ! n) = 0" if "n < length (b_nodes b)" for n
    using ok that by (simp add: trie_ok_def)
  then have "link_nodes b = ns"
    unfolding link_nodes_def Let_def q using res(1) len by (simp add: seed_identity)
  moreover have "bn_dict_suffix (ns ! 0) = None"
    using res(2) ok r by (simp add: bfs_ok_def trie_ok_def)
  ultimately show ?thesis
    using res(2) bfs_done [OF ok res(2)] by (auto simp: links_ok_def bfs_ok_def)
qed

end
