(* ===== verification/V3AC_Scan.thy ===== *)
theory V3AC_Scan
  imports V3AC_Links
begin

text \<open>
  The compiled automaton and the scan: the flat arrays hold the trie and its links, binary search
  finds the same children, the state after any prefix stands for the longest suffix in the trie, and
  the emitted calls are exactly the occurrences of the patterns, in a fixed order.  A work bound shows
  that a budget of 20 per byte plus one per occurrence is enough.
\<close>

section \<open>Sorted edges\<close>

lemma shift_in_props:
  "set (shift_in v es) = insert v (set es)" "length (shift_in v es) = Suc (length es)"
  "sorted_wrt (\<lambda>a b. ae_byte b < ae_byte a) es \<Longrightarrow> ae_byte v \<notin> ae_byte ` set es \<Longrightarrow>
     sorted_wrt (\<lambda>a b. ae_byte b < ae_byte a) (shift_in v es)"
proof (induction es)
  case (Cons e es)
  { case 3
    then show ?case using Cons.IH by (fastforce simp: Cons.IH(1) not_less order_le_less) }
qed auto

lemma sort_edges_props:
  assumes "distinct (map ae_byte es)"
  shows "set (sort_edges es) = set es" and "length (sort_edges es) = length es"
    and "sorted_wrt (\<lambda>a b. ae_byte a < ae_byte b) (sort_edges es)"
proof -
  have "set (foldl (\<lambda>prefix v. shift_in v prefix) [] es) = set es \<and>
      length (foldl (\<lambda>prefix v. shift_in v prefix) [] es) = length es \<and>
      sorted_wrt (\<lambda>a b. ae_byte b < ae_byte a) (foldl (\<lambda>prefix v. shift_in v prefix) [] es)"
    using assms
  proof (induction es rule: rev_induct)
    case (snoc e es)
    then show ?case using shift_in_props by auto
  qed simp
  then show "set (sort_edges es) = set es" and "length (sort_edges es) = length es"
    and "sorted_wrt (\<lambda>a b. ae_byte a < ae_byte b) (sort_edges es)"
    by (simp_all add: sort_edges_def sorted_wrt_rev)
qed

definition flat_edge :: "build \<Rightarrow> nat \<Rightarrow> ac_edge" where
  "flat_edge b e = \<lparr>ae_target = snd (edge_pair b e), ae_byte = fst (edge_pair b e)\<rparr>"

lemma flat_edges_props:
  assumes ok: "trie_ok b L" and shape: "same_shape b ns" and n: "n < length L"
  shows "length (flat_edges b (ns ! n)) = bn_edge_count (ns ! n)"
    and "sorted_wrt (\<lambda>a b. ae_byte a < ae_byte b) (flat_edges b (ns ! n))"
    and "\<lparr>ae_target = t, ae_byte = c\<rparr> \<in> set (flat_edges b (ns ! n)) \<longleftrightarrow> t < length L \<and> L ! t = L ! n @ [c]"
    and "length (flat_edges b (ns ! n)) \<le> 256"
proof -
  have len: "length ns = length L" using ok shape by (simp add: same_shape_def trie_ok_def)
  have nk: "node_ok b L n" by (rule trie_node [OF ok n])
  have eq: "flat_edges b (ns ! n) = sort_edges (map (flat_edge b) (edges_of b n))"
  proof -
    have "flat_edge b = (\<lambda>i. \<lparr>ae_target = be_target (b_edges b ! i), ae_byte = be_byte (b_edges b ! i)\<rparr>)"
      by (rule ext) (simp add: flat_edge_def edge_pair_def)
    then show ?thesis using shape n len by (simp add: flat_edges_def edges_of_def same_shape_def)
  qed
  have bytes: "map ae_byte (map (flat_edge b) (edges_of b n)) = map (fst \<circ> edge_pair b) (edges_of b n)"
    by (simp add: flat_edge_def)
  have dist: "distinct (map ae_byte (map (flat_edge b) (edges_of b n)))"
    unfolding bytes using nk by (simp only: node_ok_def)
  note sorted = sort_edges_props [OF dist]
  show "length (flat_edges b (ns ! n)) = bn_edge_count (ns ! n)"
    using nk shape n len by (simp add: eq sorted(2) node_ok_def same_shape_def)
  show "sorted_wrt (\<lambda>a b. ae_byte a < ae_byte b) (flat_edges b (ns ! n))"
    unfolding eq by (rule sorted(3))
  have "\<lparr>ae_target = t, ae_byte = c\<rparr> \<in> flat_edge b ` set (edges_of b n) \<longleftrightarrow>
      (c, t) \<in> edge_pair b ` set (edges_of b n)"
    by (auto simp: flat_edge_def image_iff prod_eq_iff)
  then show "\<lparr>ae_target = t, ae_byte = c\<rparr> \<in> set (flat_edges b (ns ! n)) \<longleftrightarrow> t < length L \<and> L ! t = L ! n @ [c]"
    unfolding eq sorted(1) node_pairs [OF nk] set_map by simp
  have "card (set (map ae_byte (map (flat_edge b) (edges_of b n)))) \<le> card (UNIV :: u8 set)"
    by (rule card_mono) simp_all
  then show "length (flat_edges b (ns ! n)) \<le> 256"
    using distinct_card [OF dist] by (simp add: eq sorted(2) card_word)
qed

section \<open>Flat arrays\<close>

definition segment :: "'a list \<Rightarrow> nat \<Rightarrow> nat \<Rightarrow> 'a list" where
  "segment xs i k = take k (drop i xs)"

lemma segment_append: "i + k \<le> length xs \<Longrightarrow> segment (xs @ ys) i k = segment xs i k"
  by (simp add: segment_def)

lemma segment_new: "segment (xs @ ys) (length xs) (length ys) = ys"
  by (simp add: segment_def)

lemma segment_nth: "j < k \<Longrightarrow> i + k \<le> length xs \<Longrightarrow> segment xs i k ! j = xs ! (i + j)"
  by (simp add: segment_def)

definition flat_ok :: "build \<Rightarrow> build_node list \<Rightarrow> ac \<Rightarrow> bool" where
  "flat_ok b ns ac \<longleftrightarrow> length (ac_nodes ac) = length ns \<and>
     (\<forall>i < length ns. an_fail (ac_nodes ac ! i) = bn_fail (ns ! i) \<and>
        an_dict_suffix (ac_nodes ac ! i) = bn_dict_suffix (ns ! i) \<and>
        an_edge_count (ac_nodes ac ! i) = bn_edge_count (ns ! i) \<and>
        an_output_count (ac_nodes ac ! i) = bn_output_count (ns ! i) \<and>
        an_edge_begin (ac_nodes ac ! i) + length (flat_edges b (ns ! i)) \<le> length (ac_edges ac) \<and>
        segment (ac_edges ac) (an_edge_begin (ac_nodes ac ! i)) (length (flat_edges b (ns ! i))) = flat_edges b (ns ! i) \<and>
        an_output_begin (ac_nodes ac ! i) + length (flat_outputs b (ns ! i)) \<le> length (ac_outputs ac) \<and>
        segment (ac_outputs ac) (an_output_begin (ac_nodes ac ! i)) (length (flat_outputs b (ns ! i))) = flat_outputs b (ns ! i)) \<and>
     (ns \<noteq> [] \<longrightarrow> ac_root_next ac = foldl (\<lambda>r e. r(ae_byte e := ae_target e)) (\<lambda>_. 0) (flat_edges b (ns ! 0))) \<and>
     (ns = [] \<longrightarrow> ac_root_next ac = (\<lambda>_. 0))"

lemma flatten_ok: "flat_ok b ns (flatten b ns)"
proof (induction ns rule: rev_induct)
  case Nil
  then show ?case by (simp add: flatten_def flat_ok_def)
next
  case (snoc n ns)
  have step: "flatten b (ns @ [n]) = flatten_node b (flatten b ns) n" by (simp add: flatten_def)
  let ?ac = "flatten b ns"
  have len: "length (ac_nodes ?ac) = length ns" using snoc by (simp add: flat_ok_def)
  have old: "ac_nodes (flatten_node b ?ac n) ! i = ac_nodes ?ac ! i" if "i < length ns" for i
    using that len by (simp add: flatten_node_def nth_append)
  show ?case
    unfolding step flat_ok_def
  proof (intro conjI allI impI)
    show "length (ac_nodes (flatten_node b ?ac n)) = length (ns @ [n])"
      using len by (simp add: flatten_node_def)
  next
    assume "ns @ [n] \<noteq> []"
    show "ac_root_next (flatten_node b ?ac n) =
        foldl (\<lambda>r e. r(ae_byte e := ae_target e)) (\<lambda>_. 0) (flat_edges b ((ns @ [n]) ! 0))"
      using snoc len by (cases ns) (auto simp: flatten_node_def flat_ok_def)
  qed (use snoc len in \<open>auto simp: flat_ok_def flatten_node_def nth_append less_Suc_eq segment_append segment_new\<close>)
qed

lemma root_next_fold:
  "distinct (map ae_byte es) \<Longrightarrow>
    (\<forall>e \<in> set es. foldl (\<lambda>r e. r(ae_byte e := ae_target e)) f es (ae_byte e) = ae_target e) \<and>
    (\<forall>c. c \<notin> ae_byte ` set es \<longrightarrow> foldl (\<lambda>r e. r(ae_byte e := ae_target e)) f es c = f c)"
  by (induction es rule: rev_induct) (auto, metis image_eqI)

lemma sorted_bytes_distinct:
  "sorted_wrt (\<lambda>a b. ae_byte a < ae_byte b) es \<Longrightarrow> distinct (map ae_byte es)"
  by (induction es) auto

section \<open>Probing\<close>

text \<open>What a probe of an edge segment of \<open>k\<close> edges returns, and what it costs.\<close>

lemma find_probe_ok:
  assumes sorted: "sorted_wrt (\<lambda>a b. ae_byte a < ae_byte b) es"
    and seg: "es = segment edges b (length es)" "b + length es \<le> length edges"
  shows "0 \<le> lo \<Longrightarrow> hi < int (length es) \<Longrightarrow> find_probe edges b c lo hi work = Inr (r, work') \<Longrightarrow>
    r = Some t \<longleftrightarrow> (\<exists>i. lo \<le> int i \<and> int i \<le> hi \<and> es ! i = \<lparr>ae_target = t, ae_byte = c\<rparr>)"
proof (induction work arbitrary: lo hi)
  case 0
  then show ?case by (auto simp: find_probe.simps [of _ _ _ _ _ 0] split: if_splits)
next
  case (Suc work)
  show ?case
  proof (cases "hi < lo")
    case True
    then show ?thesis using Suc.prems(3) by (auto simp: find_probe.simps [of _ _ _ _ _ "Suc work"])
  next
    case False
    define m where "m = nat ((lo + hi) div 2)"
    have m: "lo \<le> int m" "int m \<le> hi" "m < length es" "int m = (lo + hi) div 2"
      using False Suc.prems(1,2) by (auto simp: m_def)
    have lt: "i < j \<Longrightarrow> j < length es \<Longrightarrow> ae_byte (es ! i) < ae_byte (es ! j)" for i j
      using sorted by (simp add: sorted_wrt_iff_nth_less)
    have "int b + (lo + hi) div 2 = int (b + m)" using m(4) by simp
    then have "edges ! nat (int b + (lo + hi) div 2) = edges ! (b + m)" by (simp only: nat_int)
    also have "\<dots> = segment edges b (length es) ! m" by (rule segment_nth [OF m(3) seg(2), symmetric])
    also have "\<dots> = es ! m" by (rule arg_cong [OF seg(1) [symmetric]])
    finally have edge: "edges ! nat (int b + (lo + hi) div 2) = es ! m" .
    have probe: "find_probe edges b c lo hi (Suc work) =
        (if ae_byte (es ! m) = c then Inr (Some (ae_target (es ! m)), work)
         else if ae_byte (es ! m) < c then find_probe edges b c (int m + 1) hi work
         else find_probe edges b c lo (int m - 1) work)"
      using False by (simp add: find_probe.simps [of _ _ _ _ _ "Suc work"] Let_def edge m(4))
    have below: "i \<le> m \<Longrightarrow> ae_byte (es ! i) \<le> ae_byte (es ! m)" for i
      using lt [of i m] m(3) by (cases "i = m") auto
    have above: "m \<le> i \<Longrightarrow> i < length es \<Longrightarrow> ae_byte (es ! m) \<le> ae_byte (es ! i)" for i
      using lt [of m i] by (cases "i = m") auto
    consider "ae_byte (es ! m) = c" | "ae_byte (es ! m) < c" | "c < ae_byte (es ! m)" by fastforce
    then show ?thesis
    proof cases
      case 1
      have "i = m" if "i < length es" "ae_byte (es ! i) = c" for i
        using that 1 lt [of i m] lt [of m i] m(3) by (cases i m rule: linorder_cases) auto
      then have "(\<exists>i. lo \<le> int i \<and> int i \<le> hi \<and> es ! i = \<lparr>ae_target = t, ae_byte = c\<rparr>) \<longleftrightarrow>
          es ! m = \<lparr>ae_target = t, ae_byte = c\<rparr>"
        using m Suc.prems(2) by (metis ac_edge.select_convs(2) of_nat_less_iff order.strict_trans1)
      also have "\<dots> \<longleftrightarrow> ae_target (es ! m) = t" using 1 by (cases "es ! m") simp
      finally show ?thesis using 1 Suc.prems(3) unfolding probe by auto
    next
      case 2
      have iff: "lo \<le> int i \<and> int i \<le> hi \<and> es ! i = \<lparr>ae_target = t, ae_byte = c\<rparr> \<longleftrightarrow>
          int m + 1 \<le> int i \<and> int i \<le> hi \<and> es ! i = \<lparr>ae_target = t, ae_byte = c\<rparr>" for i
        using below [of i] 2 m(1) by (cases "i \<le> m") auto
      have "find_probe edges b c (int m + 1) hi work = Inr (r, work')"
        using Suc.prems(3) 2 order.strict_implies_not_eq [OF 2] unfolding probe by simp
      then show ?thesis unfolding iff using Suc.IH [of "int m + 1" hi] Suc.prems(2) by simp
    next
      case 3
      have iff: "lo \<le> int i \<and> int i \<le> hi \<and> es ! i = \<lparr>ae_target = t, ae_byte = c\<rparr> \<longleftrightarrow>
          lo \<le> int i \<and> int i \<le> int m - 1 \<and> es ! i = \<lparr>ae_target = t, ae_byte = c\<rparr>" for i
        using above [of i] 3 m(2) Suc.prems(2) by (cases "m \<le> i") auto
      have "find_probe edges b c lo (int m - 1) work = Inr (r, work')"
        using Suc.prems(3) less_not_sym [OF 3] order.strict_implies_not_eq [OF 3, symmetric]
        unfolding probe by simp
      then show ?thesis unfolding iff using Suc.IH [of lo "int m - 1"] Suc.prems(1) m(3) by simp
    qed
  qed
qed

lemma find_probe_cost:
  "hi - lo + 1 < 2 ^ m \<Longrightarrow> m \<le> work \<Longrightarrow>
    \<exists>r work'. find_probe edges b c lo hi work = Inr (r, work') \<and> work \<le> work' + m"
proof (induction m arbitrary: lo hi work)
  case 0
  then show ?case by (simp add: find_probe.simps [of _ _ _ lo hi])
next
  case (Suc m)
  obtain w where w: "work = Suc w" "m \<le> w" using Suc.prems(2) by (cases work) auto
  define mid where "mid = (lo + hi) div 2"
  have right: "hi - (mid + 1) + 1 < 2 ^ m" and left: "(mid - 1) - lo + 1 < 2 ^ m"
    using Suc.prems(1) by (auto simp: mid_def)
  obtain r1 w1 r2 w2 where ih: "find_probe edges b c (mid + 1) hi w = Inr (r1, w1)" "w \<le> w1 + m"
    "find_probe edges b c lo (mid - 1) w = Inr (r2, w2)" "w \<le> w2 + m"
    using Suc.IH [OF right w(2)] Suc.IH [OF left w(2)] by blast
  then show ?case
    unfolding w(1) find_probe.simps [of _ _ _ lo hi "Suc w"] Let_def mid_def [symmetric] by auto
qed

section \<open>The automaton of a trie\<close>

definition automaton :: "build \<Rightarrow> bytes list \<Rightarrow> build_node list \<Rightarrow> ac \<Rightarrow> bool" where
  "automaton b L ns ac \<longleftrightarrow> trie_ok b L \<and> links_ok b L ns \<and> flat_ok b ns ac"

lemma automatonD:
  assumes "automaton b L ns ac"
  shows "trie_ok b L" and "same_shape b ns" and "labels_ok L" and "length ns = length L"
    and "length (ac_nodes ac) = length L"
    and "n < length L \<Longrightarrow> n \<noteq> 0 \<Longrightarrow> linked L ns n"
    and "n < length L \<Longrightarrow> an_fail (ac_nodes ac ! n) = bn_fail (ns ! n)"
    and "n < length L \<Longrightarrow> an_dict_suffix (ac_nodes ac ! n) = bn_dict_suffix (ns ! n)"
  using assms by (auto simp: automaton_def links_ok_def trie_ok_def flat_ok_def same_shape_def)

lemma find_child_slice:
  assumes aut: "automaton b L ns ac" and n: "n < length L"
  defines "es \<equiv> flat_edges b (ns ! n)"
  shows "sorted_wrt (\<lambda>a b. ae_byte a < ae_byte b) es"
    and "es = segment (ac_edges ac) (an_edge_begin (ac_nodes ac ! n)) (length es)"
    and "an_edge_begin (ac_nodes ac ! n) + length es \<le> length (ac_edges ac)"
    and "find_child ac n c work = find_probe (ac_edges ac) (an_edge_begin (ac_nodes ac ! n)) c 0 (int (length es) - 1) work"
    and "length es \<le> 256"
    and "\<lparr>ae_target = t, ae_byte = c\<rparr> \<in> set es \<longleftrightarrow> t < length L \<and> L ! t = L ! n @ [c]"
proof -
  note props = flat_edges_props [OF automatonD(1,2) [OF aut] n, folded es_def]
  show "sorted_wrt (\<lambda>a b. ae_byte a < ae_byte b) es" and "length es \<le> 256"
    and "\<lparr>ae_target = t, ae_byte = c\<rparr> \<in> set es \<longleftrightarrow> t < length L \<and> L ! t = L ! n @ [c]"
    by (fact props)+
  have "n < length ns" using n automatonD(4) [OF aut] by simp
  then have flat: "an_edge_count (ac_nodes ac ! n) = bn_edge_count (ns ! n)"
    "an_edge_begin (ac_nodes ac ! n) + length es \<le> length (ac_edges ac)"
    "segment (ac_edges ac) (an_edge_begin (ac_nodes ac ! n)) (length es) = es"
    using aut unfolding automaton_def flat_ok_def es_def by blast+
  show "es = segment (ac_edges ac) (an_edge_begin (ac_nodes ac ! n)) (length es)"
    by (fact flat(3) [symmetric])
  show "an_edge_begin (ac_nodes ac ! n) + length es \<le> length (ac_edges ac)" by (fact flat(2))
  show "find_child ac n c work =
      find_probe (ac_edges ac) (an_edge_begin (ac_nodes ac ! n)) c 0 (int (length es) - 1) work"
    by (simp add: find_child_def Let_def flat(1) props(1))
qed

lemma find_child_ok:
  assumes aut: "automaton b L ns ac" and n: "n < length L" and r: "find_child ac n c work = Inr (r, work')"
  shows "r = Some t \<longleftrightarrow> t < length L \<and> L ! t = L ! n @ [c]"
proof -
  note fc = find_child_slice [OF aut n]
  have "r = Some t \<longleftrightarrow> (\<exists>i. 0 \<le> int i \<and> int i \<le> int (length (flat_edges b (ns ! n))) - 1 \<and>
      flat_edges b (ns ! n) ! i = \<lparr>ae_target = t, ae_byte = c\<rparr>)"
    by (rule find_probe_ok [OF fc(1-3)]) (use r fc(4) in simp_all)
  also have "\<dots> \<longleftrightarrow> \<lparr>ae_target = t, ae_byte = c\<rparr> \<in> set (flat_edges b (ns ! n))"
    by (auto simp: in_set_conv_nth)
  finally show ?thesis by (simp only: fc(6))
qed

lemma find_child_cost:
  assumes "automaton b L ns ac" and "n < length L" and "9 \<le> work"
  shows "\<exists>r work'. find_child ac n c work = Inr (r, work') \<and> work \<le> work' + 9"
  unfolding find_child_slice(4) [OF assms(1,2)]
  by (rule find_probe_cost) (use find_child_slice(5) [OF assms(1,2)] assms(3) in simp_all)

lemma root_next_ok:
  assumes aut: "automaton b L ns ac" and root: "is_cand L u c 0"
  shows "is_longest L (u @ [c]) (ac_root_next ac c)"
proof -
  note lab = automatonD(3) [OF aut]
  have r: "0 < length L" "L ! 0 = []" using labels_root [OF lab] by simp_all
  have "ns \<noteq> []" using automatonD(4) [OF aut] r by auto
  then have eq: "ac_root_next ac = foldl (\<lambda>r e. r(ae_byte e := ae_target e)) (\<lambda>_. 0) (flat_edges b (ns ! 0))"
    using aut by (simp add: automaton_def flat_ok_def)
  note fold = root_next_fold [OF sorted_bytes_distinct [OF find_child_slice(1) [OF aut r(1)]], of "\<lambda>_. 0", folded eq]
  show ?thesis
  proof (cases "c \<in> ae_byte ` set (flat_edges b (ns ! 0))")
    case True
    then obtain e where e: "e \<in> set (flat_edges b (ns ! 0))" "ae_byte e = c" by blast
    have "\<lparr>ae_target = ae_target e, ae_byte = c\<rparr> = e" using e(2) by (cases e) simp
    then have "\<lparr>ae_target = ae_target e, ae_byte = c\<rparr> \<in> set (flat_edges b (ns ! 0))" using e(1) by simp
    then have "ae_target e < length L \<and> L ! ae_target e = L ! 0 @ [c]"
      by (simp only: find_child_slice(6) [OF aut r(1)])
    then show ?thesis using cand_child [OF lab root] fold e by auto
  next
    case False
    have "[c] \<notin> set L"
    proof
      assume "[c] \<in> set L"
      then obtain t where "t < length L" "L ! t = L ! 0 @ [c]" using r by (auto simp: in_set_conv_nth)
      then have "\<lparr>ae_target = t, ae_byte = c\<rparr> \<in> set (flat_edges b (ns ! 0))"
        by (simp only: find_child_slice(6) [OF aut r(1)])
      then show False using False by (auto simp: image_iff)
    qed
    then show ?thesis using cand_root [OF lab root] fold False by simp
  qed
qed

section \<open>Transitions\<close>

lemma next_state_root [simp]: "next_state ac 0 c work = Inr (ac_root_next ac c, work)"
  by (simp add: next_state.simps [of ac 0])

lemma next_state_ok:
  assumes aut: "automaton b L ns ac"
  shows "is_cand L u c s \<Longrightarrow> next_state ac s c work = Inr (t, work') \<Longrightarrow> is_longest L (u @ [c]) t"
proof (induction work arbitrary: s rule: less_induct)
  case (less work)
  note lab = automatonD(3) [OF aut]
  have s: "s < length L" using less.prems(1) by (simp add: is_cand_def)
  show ?case
  proof (cases "s = 0")
    case True
    then show ?thesis
      using root_next_ok [OF aut, of u c] less.prems by simp
  next
    case False
    then obtain r w where r: "find_child ac s c work = Inr (r, w)"
      using less.prems(2) by (auto simp: next_state.simps [of ac s] split: sum.splits)
    show ?thesis
    proof (cases r)
      case (Some t')
      then have "t' < length L \<and> L ! t' = L ! s @ [c]" using find_child_ok [OF aut s r] by simp
      then show ?thesis
        using cand_child [OF lab less.prems(1)] less.prems(2) False r Some by (simp add: next_state.simps [of ac s])
    next
      case None
      then have "\<not> (t' < length L \<and> L ! t' = L ! s @ [c])" for t' using find_child_ok [OF aut s r] by simp
      then have none: "L ! s @ [c] \<notin> set L" by (auto simp: in_set_conv_nth)
      have "linked L ns s" using automatonD(6) [OF aut s False] .
      then have "is_cand L u c (bn_fail (ns ! s))"
        using cand_fail [OF less.prems(1) none] by (simp add: linked_def)
      moreover have "w \<noteq> 0 \<and> next_state ac (bn_fail (ns ! s)) c (w - 1) = Inr (t, work')"
        using less.prems(2) False r None automatonD(7) [OF aut s]
        by (simp add: next_state.simps [of ac s] split: if_splits)
      ultimately show ?thesis using less.IH [of "w - 1"] find_child_work [OF r] by fastforce
    qed
  qed
qed

text \<open>Each failure step shortens the label, which pays for it.\<close>

lemma next_state_cost:
  assumes aut: "automaton b L ns ac"
  shows "s < length L \<Longrightarrow> 10 * length (L ! s) + 9 \<le> work \<Longrightarrow>
    \<exists>t work'. next_state ac s c work = Inr (t, work') \<and>
      work + 10 * length (L ! t) \<le> work' + 10 * length (L ! s) + 19"
proof (induction "length (L ! s)" arbitrary: s work rule: less_induct)
  case less
  note lab = automatonD(3) [OF aut]
  show ?case
  proof (cases "s = 0")
    case True
    have "is_cand L [] c 0" using longest_cand [OF longest_root [OF lab]] .
    then have "is_longest L ([] @ [c]) (ac_root_next ac c)" by (rule root_next_ok [OF aut])
    then have "length (L ! ac_root_next ac c) \<le> 1" by (auto simp: is_longest_def dest!: suffix_length_le)
    then show ?thesis using True by simp
  next
    case False
    obtain r w where r: "find_child ac s c work = Inr (r, w)" "work \<le> w + 9"
      using find_child_cost [OF aut less.prems(1), of work c] less.prems(2) by auto
    show ?thesis
    proof (cases r)
      case (Some t)
      then have "L ! t = L ! s @ [c]" using find_child_ok [OF aut less.prems(1) r(1)] by simp
      then show ?thesis using r False Some by (simp add: next_state.simps [of ac s])
    next
      case None
      let ?f = "bn_fail (ns ! s)"
      have f: "?f < length L" "length (L ! ?f) < length (L ! s)"
        using linked_fail_shorter [OF lab automatonD(6) [OF aut less.prems(1) False] less.prems(1) False] by simp_all
      have "10 * length (L ! ?f) + 9 \<le> w - 1" using f(2) r(2) less.prems(2) by arith
      then obtain t work' where "next_state ac ?f c (w - 1) = Inr (t, work')"
        "w - 1 + 10 * length (L ! t) \<le> work' + 10 * length (L ! ?f) + 19"
        using less.hyps [OF f(2,1)] by blast
      then show ?thesis
        using r None False f(2) less.prems(2) automatonD(7) [OF aut less.prems(1)]
        by (simp add: next_state.simps [of ac s])
    qed
  qed
qed

section \<open>Emission\<close>

text \<open>The patterns whose labels end where \<open>u\<close> ends: longer ones first, later ones first among equals.\<close>

definition equal_to :: "(ac_pattern \<Rightarrow> bytes) \<Rightarrow> ac_pattern list \<Rightarrow> bytes \<Rightarrow> nat list" where
  "equal_to lab ps s = rev (filter (\<lambda>i. lab (ps ! i) = s) [0..<length ps])"

fun hits :: "(ac_pattern \<Rightarrow> bytes) \<Rightarrow> ac_pattern list \<Rightarrow> bytes \<Rightarrow> nat list" where
  "hits lab ps [] = []"
| "hits lab ps (c # u) = equal_to lab ps (c # u) @ hits lab ps u"

text \<open>All occurrences in a text, as calls of the emit function: rule index, step index, start, end.\<close>

definition call :: "ac_pattern list \<Rightarrow> nat \<Rightarrow> nat \<Rightarrow> nat \<times> nat \<times> nat \<times> nat" where
  "call ps e i = (pat_rule_index (ps ! i), pat_step_index (ps ! i), e - pat_len (ps ! i), e)"

definition occurrences :: "ac_pattern list \<Rightarrow> bytes \<Rightarrow> (nat \<times> nat \<times> nat \<times> nat) list" where
  "occurrences ps text = concat (map (\<lambda>e. map (call ps e) (hits folded ps (take e (map v3_fold text)))) [1..<Suc (length text)])"

lemma equal_to_none: "(\<forall>p \<in> set ps. lab p \<in> S) \<Longrightarrow> s \<notin> S \<Longrightarrow> equal_to lab ps s = []"
  by (auto simp: equal_to_def filter_empty_conv)

lemma hits_longest:
  assumes "\<forall>p \<in> set ps. lab p \<in> set L" and "\<forall>p \<in> set ps. lab p \<noteq> []"
  shows "is_longest L u t \<Longrightarrow> hits lab ps u = hits lab ps (L ! t)"
proof (induction u)
  case Nil
  then show ?case by (simp add: is_longest_def)
next
  case (Cons c u)
  show ?case
  proof (cases "L ! t = c # u")
    case False
    then have suf: "suffix (L ! t) u" using Cons.prems by (auto simp: is_longest_def suffix_Cons)
    then have "is_longest L u t" using Cons.prems by (simp add: is_longest_def suffix_ConsI)
    moreover have "c # u \<notin> set L"
    proof
      assume "c # u \<in> set L"
      then have "suffix (c # u) (L ! t)" using Cons.prems by (simp add: is_longest_def)
      then show False using suffix_length_le [OF suf] suffix_length_le by fastforce
    qed
    ultimately show ?thesis using Cons.IH equal_to_none [OF assms(1)] by simp
  qed simp
qed

text \<open>The dictionary chain of a node lists exactly the label suffixes that have outputs.\<close>

lemma dict_hits:
  assumes aut: "automaton b L ns ac" and outs: "outs_ok lab b L ps" and ne: "\<forall>p \<in> set ps. lab p \<noteq> []"
  shows "n < length L \<Longrightarrow>
    hits lab ps (L ! n) = equal_to lab ps (L ! n) @ (case bn_dict_suffix (ns ! n) of None \<Rightarrow> [] | Some m \<Rightarrow> hits lab ps (L ! m)) \<and>
    (\<forall>m. bn_dict_suffix (ns ! n) = Some m \<longrightarrow> m < length L \<and> length (L ! m) < length (L ! n))"
proof (induction "length (L ! n)" arbitrary: n rule: less_induct)
  case less
  note lab = automatonD(3) [OF aut]
  have sub: "\<forall>p \<in> set ps. lab p \<in> set L" using outs by (auto simp: outs_ok_def in_set_conv_nth)
  have none: "equal_to lab ps [] = []" using ne by (auto simp: equal_to_def filter_empty_conv)
  show ?case
  proof (cases "n = 0")
    case True
    have "bn_dict_suffix (ns ! 0) = None" using aut by (simp add: automaton_def links_ok_def)
    then show ?thesis using True labels_root [OF lab] none by simp
  next
    case False
    let ?f = "bn_fail (ns ! n)"
    have lk: "linked L ns n" by (rule automatonD(6) [OF aut less.prems False])
    have f: "?f < length L" "length (L ! ?f) < length (L ! n)"
      using linked_fail_shorter [OF lab lk less.prems False] by simp_all
    have ne_n: "L ! n \<noteq> []" using labels_nonroot [OF lab less.prems] False by simp
    then have split: "hits lab ps (L ! n) = equal_to lab ps (L ! n) @ hits lab ps (tl (L ! n))" by (cases "L ! n") simp_all
    have "is_longest L (tl (L ! n)) ?f" using lk by (simp add: linked_def)
    then have tl_hits: "hits lab ps (tl (L ! n)) = hits lab ps (L ! ?f)" by (rule hits_longest [OF sub ne])
    have count: "bn_output_count (ns ! ?f) = length (equal_to lab ps (L ! ?f))"
      using outs f automatonD(2,4) [OF aut] by (simp add: outs_ok_def same_shape_def equal_to_def)
    show ?thesis
    proof (cases "bn_output_count (ns ! ?f) = 0")
      case True
      then have "bn_dict_suffix (ns ! n) = bn_dict_suffix (ns ! ?f)" using lk by (simp add: linked_def)
      then show ?thesis
        using less.hyps [OF f(2,1)] split tl_hits True count f(2) by auto
    next
      case False
      then have "bn_dict_suffix (ns ! n) = Some ?f" using lk by (simp add: linked_def)
      then show ?thesis using split tl_hits f by simp
    qed
  qed
qed

lemma chain_hits:
  assumes aut: "automaton b L ns ac" and outs: "outs_ok lab b L ps" and ne: "\<forall>p \<in> set ps. lab p \<noteq> []"
  shows "n < length L \<Longrightarrow> length (L ! n) < f \<Longrightarrow>
    concat (map (\<lambda>m. equal_to lab ps (L ! m)) (chain_upto f (\<lambda>n. an_dict_suffix (ac_nodes ac ! n)) (Some n))) =
      hits lab ps (L ! n) \<and>
    set (chain_upto f (\<lambda>n. an_dict_suffix (ac_nodes ac ! n)) (Some n)) \<subseteq> {..<length L}"
proof (induction f arbitrary: n)
  case (Suc f)
  have dict: "an_dict_suffix (ac_nodes ac ! n) = bn_dict_suffix (ns ! n)"
    using automatonD(8) [OF aut Suc.prems(1)] .
  show ?case
  proof (cases "bn_dict_suffix (ns ! n)")
    case None
    then show ?thesis using dict_hits [OF aut outs ne Suc.prems(1)] dict Suc.prems(1) by simp
  next
    case (Some m)
    then have "m < length L" "length (L ! m) < f"
      using dict_hits [OF aut outs ne Suc.prems(1)] Suc.prems(2) by auto
    then show ?thesis
      using Suc.IH [of m] dict_hits [OF aut outs ne Suc.prems(1)] Some dict Suc.prems(1) by simp
  qed
qed simp

definition out_of :: "ac_pattern list \<Rightarrow> nat \<Rightarrow> ac_output" where
  "out_of ps i = \<lparr>ao_rule_index = pat_rule_index (ps ! i), ao_step_index = pat_step_index (ps ! i),
     ao_pattern_len = pat_len (ps ! i)\<rparr>"

lemma flat_outputs_eq:
  assumes aut: "automaton b L ns ac" and outs: "outs_ok lab b L ps" and n: "n < length L"
  shows "flat_outputs b (ns ! n) = map (out_of ps) (equal_to lab ps (L ! n))"
    and "an_output_count (ac_nodes ac ! n) = length (flat_outputs b (ns ! n))"
proof -
  have len: "n < length ns" using n automatonD(4) [OF aut] by simp
  have eq: "output_chain (b_outputs b) (bn_first_output (ns ! n)) = equal_to lab ps (L ! n)"
    using outs n len automatonD(2) [OF aut] by (simp add: outs_ok_def same_shape_def outputs_of_def equal_to_def)
  then show "flat_outputs b (ns ! n) = map (out_of ps) (equal_to lab ps (L ! n))"
    using outs by (auto simp: flat_outputs_def out_of_def outs_ok_def equal_to_def)
  have "an_output_count (ac_nodes ac ! n) = bn_output_count (ns ! n)"
    using aut len unfolding automaton_def flat_ok_def by blast
  then show "an_output_count (ac_nodes ac ! n) = length (flat_outputs b (ns ! n))"
    using outs n len automatonD(2) [OF aut] eq
    by (simp add: flat_outputs_def outs_ok_def same_shape_def equal_to_def)
qed

lemma emit_node_eq:
  assumes aut: "automaton b L ns ac" and outs: "outs_ok lab b L ps" and n: "n < length L"
  shows "emit_node emit ac n e ctx work = emit_outputs emit (map (out_of ps) (equal_to lab ps (L ! n))) e ctx work"
proof -
  have len: "n < length ns" using n automatonD(4) [OF aut] by simp
  have "segment (ac_outputs ac) (an_output_begin (ac_nodes ac ! n)) (length (flat_outputs b (ns ! n))) =
      flat_outputs b (ns ! n)"
    using aut len unfolding automaton_def flat_ok_def by blast
  then show ?thesis
    by (simp add: emit_node_def Let_def flat_outputs_eq(2) [OF aut outs n] segment_def
        flat_outputs_eq(1) [OF aut outs n])
qed

lemma emit_outputs_append:
  "emit_outputs emit (xs @ ys) e ctx work =
    (case emit_outputs emit xs e ctx work of
       (None, ctx', work') \<Rightarrow> emit_outputs emit ys e ctx' work'
     | (Some er, ctx', work') \<Rightarrow> (Some er, ctx', work'))"
  by (induction xs arbitrary: ctx work) (auto split: prod.splits option.splits)

lemma emit_nodes_eq:
  assumes aut: "automaton b L ns ac" and outs: "outs_ok lab b L ps"
  shows "set ms \<subseteq> {..<length L} \<Longrightarrow> emit_nodes emit ac ms e ctx work =
    emit_outputs emit (map (out_of ps) (concat (map (\<lambda>m. equal_to lab ps (L ! m)) ms))) e ctx work"
proof (induction ms arbitrary: ctx work)
  case (Cons m ms)
  then show ?case
    by (simp add: emit_node_eq [OF aut outs] emit_outputs_append split: prod.splits option.splits)
qed simp

lemma emit_state_eq:
  assumes aut: "automaton b L ns ac" and outs: "outs_ok lab b L ps" and ne: "\<forall>p \<in> set ps. lab p \<noteq> []"
    and t: "is_longest L u t"
  shows "emit_nodes emit ac (dict_nodes ac t) e ctx work =
    emit_outputs emit (map (out_of ps) (hits lab ps u)) e ctx work"
proof -
  have n: "t < length L" using t by (simp add: is_longest_def)
  have sub: "\<forall>p \<in> set ps. lab p \<in> set L" using outs by (auto simp: outs_ok_def in_set_conv_nth)
  have "length (L ! t) < Suc (length (ac_nodes ac))"
    using label_length [OF automatonD(3) [OF aut] nth_mem [OF n]] automatonD(5) [OF aut] by simp
  note chain = chain_hits [OF aut outs ne n this]
  show ?thesis
    using emit_nodes_eq [OF aut outs, of "dict_nodes ac t"] chain hits_longest [OF sub ne t]
    by (simp add: dict_nodes_def del: chain_upto.simps)
qed

section \<open>The scan\<close>

text \<open>An emit function is tracked by a pure one when, as long as it returns 0, its effect on the
  context is that of the pure function, whatever the budget.\<close>

definition tracks :: "'c emit_fn \<Rightarrow> ('c \<Rightarrow> nat \<times> nat \<times> nat \<times> nat \<Rightarrow> 'c) \<Rightarrow> bool" where
  "tracks emit f \<longleftrightarrow> (\<forall>ctx r st s e work ctx' work'.
     emit ctx r st s e work = (None, ctx', work') \<longrightarrow> ctx' = f ctx (r, st, s, e))"

lemma tracksD: "tracks emit f \<Longrightarrow> emit ctx r st s e work = (None, ctx', work') \<Longrightarrow> ctx' = f ctx (r, st, s, e)"
  unfolding tracks_def by blast

lemma emit_outputs_tracks:
  assumes "tracks emit f" and "\<forall>i \<in> set is. pat_len (ps ! i) \<le> e"
  shows "emit_outputs emit (map (out_of ps) is) e ctx work = (None, ctx', work') \<Longrightarrow>
    ctx' = foldl f ctx (map (call ps e) is)"
  using assms(2)
proof (induction "is" arbitrary: ctx work)
  case (Cons i "is")
  obtain r c w where em: "emit ctx (ao_rule_index (out_of ps i)) (ao_step_index (out_of ps i))
      (e - ao_pattern_len (out_of ps i)) e (work - 1) = (r, c, w)"
    by (metis prod_cases3)
  have le: "\<not> e < ao_pattern_len (out_of ps i)" using Cons.prems(2) by (simp add: out_of_def)
  then have w0: "work \<noteq> 0" and rN: "r = None"
    and rest: "emit_outputs emit (map (out_of ps) is) e c w = (None, ctx', work')"
    using Cons.prems(1) em by (auto split: if_splits option.splits)
  have "c = f ctx (call ps e i)" 
    using tracksD [OF assms(1) em [unfolded rN]] by (simp add: out_of_def call_def)
  then show ?case using Cons.IH [OF rest] Cons.prems(2) by simp
qed simp

lemma hits_len:
  assumes "\<forall>p \<in> set ps. length (folded p) = pat_len p" and "i \<in> set (hits folded ps u)"
  shows "i < length ps \<and> pat_len (ps ! i) \<le> length u"
  using assms(2)
proof (induction u)
  case (Cons c u)
  show ?case
  proof (cases "i \<in> set (hits folded ps u)")
    case True
    then show ?thesis using Cons.IH by simp
  next
    case False
    then have "i < length ps" "folded (ps ! i) = c # u" using Cons.prems by (auto simp: equal_to_def)
    then show ?thesis using assms(1) nth_mem by (metis order_refl)
  qed
qed simp

lemma occurrences_split:
  "occurrences ps (text @ [c]) =
    occurrences ps text @ map (call ps (Suc (length text))) (hits folded ps (map v3_fold (text @ [c])))"
proof -
  have "map (\<lambda>e. map (call ps e) (hits folded ps (take e (map v3_fold (text @ [c]))))) [1..<Suc (length text)] =
      map (\<lambda>e. map (call ps e) (hits folded ps (take e (map v3_fold text)))) [1..<Suc (length text)]"
    by (rule map_cong) auto
  moreover have "[1..<Suc (length (text @ [c]))] = [1..<Suc (length text)] @ [Suc (length text)]" by simp
  ultimately show ?thesis unfolding occurrences_def by (simp only: map_append concat_append) simp
qed

lemma scan_bytes_tracks:
  assumes aut: "automaton b L ns ac" and outs: "outs_ok folded b L ps"
    and len: "\<forall>p \<in> set ps. length (folded p) = pat_len p \<and> folded p \<noteq> []"
    and em: "tracks emit f"
  shows "is_longest L (map v3_fold pre) s \<Longrightarrow> ctx = foldl f c0 (occurrences ps pre) \<Longrightarrow>
    scan_bytes emit ac rest (length pre) s ctx work = (None, ctx', work') \<Longrightarrow>
    ctx' = foldl f c0 (occurrences ps (pre @ rest))"
proof (induction rest arbitrary: pre s ctx work)
  case (Cons raw rest)
  have ne: "\<forall>p \<in> set ps. folded p \<noteq> []" and lens: "\<forall>p \<in> set ps. length (folded p) = pat_len p"
    using len by simp_all
  obtain t w where t: "next_state ac s (v3_fold raw) (work - 1) = Inr (t, w)"
    using Cons.prems(3) by (auto split: if_splits sum.splits)
  have lt: "is_longest L (map v3_fold (pre @ [raw])) t"
    using next_state_ok [OF aut longest_cand [OF Cons.prems(1)] t] by simp
  note emit = emit_state_eq [OF aut outs ne lt]
  obtain r c w' where e: "emit_outputs emit (map (out_of ps) (hits folded ps (map v3_fold (pre @ [raw])))) (length pre + 1) ctx w = (r, c, w')"
    by (metis prod_cases3)
  have rN: "r = None" and rest: "scan_bytes emit ac rest (length (pre @ [raw])) t c w' = (None, ctx', work')"
    using Cons.prems(3) t e by (auto simp: emit split: if_splits option.splits)
  have "\<forall>i \<in> set (hits folded ps (map v3_fold (pre @ [raw]))). pat_len (ps ! i) \<le> length pre + 1"
    using hits_len [OF lens] by fastforce
  from emit_outputs_tracks [OF em this] e rN
  have "c = foldl f ctx (map (call ps (length pre + 1)) (hits folded ps (map v3_fold (pre @ [raw]))))" by blast
  then have "c = foldl f c0 (occurrences ps (pre @ [raw]))"
    using Cons.prems(2) by (simp add: occurrences_split del: map_append)
  then show ?case using Cons.IH [OF lt _ rest] by simp
qed simp

section \<open>Work\<close>

definition costs :: "'c emit_fn \<Rightarrow> nat \<Rightarrow> bool" where
  "costs emit k \<longleftrightarrow> (\<forall>ctx r st s e work. k \<le> work \<longrightarrow>
     (\<exists>ctx' work'. emit ctx r st s e work = (None, ctx', work') \<and> work \<le> work' + k))"

lemma costsD:
  "costs emit k \<Longrightarrow> k \<le> work \<Longrightarrow> \<exists>ctx' work'. emit ctx r st s e work = (None, ctx', work') \<and> work \<le> work' + k"
  unfolding costs_def by blast

lemma emit_outputs_cost:
  assumes "costs emit k"
  shows "Suc k * length outs \<le> work \<Longrightarrow>
    \<exists>ctx' work'. emit_outputs emit outs e ctx work = (None, ctx', work') \<and> work \<le> work' + Suc k * length outs"
proof (induction outs arbitrary: ctx work)
  case (Cons out outs)
  show ?case
  proof (cases "e < ao_pattern_len out")
    case True
    have "Suc k * length outs \<le> work" using Cons.prems by simp
    then show ?thesis using Cons.IH [of work ctx] True by fastforce
  next
    case False
    have "k \<le> work - 1" using Cons.prems by simp
    then obtain c w where e: "emit ctx (ao_rule_index out) (ao_step_index out) (e - ao_pattern_len out) e (work - 1) = (None, c, w)"
      and w: "work - 1 \<le> w + k"
      using costsD [OF assms] by blast
    have "Suc k * length outs \<le> w" using w Cons.prems by simp
    then obtain c' w' where "emit_outputs emit outs e c w = (None, c', w')" "w \<le> w' + Suc k * length outs"
      using Cons.IH by blast
    then show ?thesis using False e w Cons.prems by simp
  qed
qed simp

lemma scan_bytes_cost:
  assumes aut: "automaton b L ns ac" and outs: "outs_ok folded b L ps" and ne: "\<forall>p \<in> set ps. folded p \<noteq> []"
    and em: "costs emit k"
  shows "is_longest L (map v3_fold pre) s \<Longrightarrow>
    10 * length (L ! s) + 20 * length rest + Suc k * length (occurrences ps (pre @ rest)) \<le>
      work + Suc k * length (occurrences ps pre) \<Longrightarrow>
    \<exists>ctx' work'. scan_bytes emit ac rest (length pre) s ctx work = (None, ctx', work')"
proof (induction rest arbitrary: pre s ctx work)
  case (Cons raw rest)
  let ?pre = "pre @ [raw]"
  let ?h = "hits folded ps (map v3_fold ?pre)"
  have grow: "length (occurrences ps ?pre) = length (occurrences ps pre) + length ?h"
    by (simp only: occurrences_split length_append length_map)
  have mono: "length (occurrences ps ?pre) \<le> length (occurrences ps (?pre @ xs))" for xs
  proof (induction xs rule: rev_induct)
    case (snoc x xs)
    then show ?case using occurrences_split [of ps "?pre @ xs" x] by simp
  qed simp
  define n where "n = length (occurrences ps (?pre @ rest)) - length (occurrences ps ?pre)"
  have total: "length (occurrences ps (pre @ raw # rest)) = length (occurrences ps pre) + length ?h + n"
    using mono [of rest] grow by (simp add: n_def)
  have budget: "10 * length (L ! s) + 20 + 20 * length rest + Suc k * length ?h + Suc k * n \<le> work"
    using Cons.prems(2) unfolding total by (simp add: algebra_simps)
  have sl: "s < length L" using Cons.prems(1) by (simp add: is_longest_def)
  obtain t w where t: "next_state ac s (v3_fold raw) (work - 1) = Inr (t, w)"
    and w: "work - 1 + 10 * length (L ! t) \<le> w + 10 * length (L ! s) + 19"
  proof -
    have "10 * length (L ! s) + 20 \<le> work" using budget by (metis add_leD1)
    then have "10 * length (L ! s) + 9 \<le> work - 1" by arith
    then show ?thesis using that next_state_cost [OF aut sl, of "work - 1"] by blast
  qed
  have lt: "is_longest L (map v3_fold ?pre) t"
    using next_state_ok [OF aut longest_cand [OF Cons.prems(1)] t] by simp
  have after: "10 * length (L ! t) + 20 * length rest + Suc k * length ?h + Suc k * n \<le> w"
    using budget w by linarith
  have "Suc k * length (map (out_of ps) ?h) \<le> w" using after by simp
  then obtain c w' where e: "emit_outputs emit (map (out_of ps) ?h) (length pre + 1) ctx w = (None, c, w')"
    and w': "w \<le> w' + Suc k * length (map (out_of ps) ?h)"
    using emit_outputs_cost [OF em] by blast
  have "10 * length (L ! t) + 20 * length rest + Suc k * length (occurrences ps (?pre @ rest)) \<le>
      w' + Suc k * length (occurrences ps ?pre)"
    using after w' total grow by (simp add: algebra_simps)
  then obtain c' w'' where "scan_bytes emit ac rest (length ?pre) t c w' = (None, c', w'')"
    using Cons.IH [OF lt] by blast
  then show ?case using budget t e by (simp add: emit_state_eq [OF aut outs ne lt])
qed simp

section \<open>What building gives\<close>

text \<open>The patterns the kernel passes: arrays of 64 bytes with a length from 1 to 64, at most as many as
  rules.\<close>

definition patterns_ok :: "ac_pattern list \<Rightarrow> bool" where
  "patterns_ok ps \<longleftrightarrow> ps \<noteq> [] \<and> length ps \<le> 65535 \<and>
     (\<forall>p \<in> set ps. length (pat_bytes p) = 64 \<and> 1 \<le> pat_len p \<and> pat_len p \<le> 64)"

lemma patterns_folded:
  "patterns_ok ps \<Longrightarrow> p \<in> set ps \<Longrightarrow> length (folded p) = pat_len p \<and> folded p \<noteq> []"
  by (auto simp: patterns_ok_def folded_def)

lemma sum_lens:
  assumes "\<forall>p \<in> set ps. pat_len p \<le> 64"
  shows "sum_list (map pat_len ps) \<le> 64 * length ps"
  using assms by (induction ps) auto

lemma build_trie:
  assumes ps: "patterns_ok ps"
  shows "\<exists>b L. insert_patterns (trie_start (1 + sum_list (map pat_len ps))) ps = Inr b \<and> trie_ok b L \<and>
    outs_ok folded b L ps \<and> bn_output_count (b_nodes b ! 0) = 0 \<and>
    count_nodes ps 1 = Inr (1 + sum_list (map pat_len ps))"
proof -
  let ?m = "1 + sum_list (map pat_len ps)"
  have "sum_list (map pat_len ps) \<le> 64 * length ps" using ps by (intro sum_lens) (simp add: patterns_ok_def)
  then have "?m < 2 ^ 32" using ps by (simp add: patterns_ok_def)
  then have count: "count_nodes ps 1 = Inr ?m" using count_nodes_ok [of ps 1] ps by (simp add: patterns_ok_def)
  obtain b K where b: "insert_patterns (trie_start ?m) ps = Inr b" "trie_ok b ([[]] @ K)" "outs_ok folded b ([[]] @ K) ([] @ ps)"
  proof -
    have "length (b_nodes (trie_start ?m)) + sum_list (map pat_len ps) \<le> b_max_nodes (trie_start ?m)"
      by (simp add: trie_start_def)
    moreover have "length ([] :: ac_pattern list) + length ps \<le> 65535" using ps by (simp add: patterns_ok_def)
    ultimately show ?thesis using that insert_patterns_ok [OF trie_start_ok] by blast
  qed
  have "filter (\<lambda>i. folded (ps ! i) = []) [0..<length ps] = []"
    using patterns_folded [OF ps] by (auto simp: filter_empty_conv)
  then have "bn_output_count (b_nodes b ! 0) = 0" using b(3) by (auto simp: outs_ok_def)
  then show ?thesis using b count by auto
qed

lemma build_automaton:
  assumes ps: "patterns_ok ps" and built: "jmx_v3_ac_build mem ps = Inr (ac, stats)"
  shows "\<exists>b L ns. automaton b L ns ac \<and> outs_ok folded b L ps"
proof -
  obtain b L where b: "insert_patterns (trie_start (1 + sum_list (map pat_len ps))) ps = Inr b" "trie_ok b L"
    "outs_ok folded b L ps" "bn_output_count (b_nodes b ! 0) = 0" "count_nodes ps 1 = Inr (1 + sum_list (map pat_len ps))"
    using build_trie [OF ps] by blast
  then have "ac = flatten b (link_nodes b)"
    using built unfolding jmx_v3_ac_build_def trie_start_def by (simp add: Let_def split: if_splits)
  then have "automaton b L (link_nodes b) ac"
    using b(2) link_nodes_ok [OF b(2,4)] flatten_ok by (simp add: automaton_def)
  then show ?thesis using b(3) by blast
qed

lemma scan_start: "automaton b L ns ac \<Longrightarrow> is_longest L (map v3_fold []) 0"
  using longest_root automatonD(3) by simp

lemma occurrences_Nil [simp]: "occurrences ps [] = []"
  by (simp add: occurrences_def)

lemma ac_scan_tracks:
  assumes ps: "patterns_ok ps" and built: "jmx_v3_ac_build mem ps = Inr (ac, stats)"
    and em: "tracks emit f" and res: "jmx_v3_ac_scan ac text emit ctx work = (None, ctx', work')"
  shows "ctx' = foldl f ctx (occurrences ps text)"
proof -
  obtain b L ns where aut: "automaton b L ns ac" and outs: "outs_ok folded b L ps"
    using build_automaton [OF ps built] by blast
  have "scan_bytes emit ac text (length []) 0 ctx work = (None, ctx', work')"
    using res by (simp add: jmx_v3_ac_scan_def split: if_splits)
  from scan_bytes_tracks [OF aut outs _ em scan_start [OF aut] _ this]
  show ?thesis using patterns_folded [OF ps] by simp
qed

lemma ac_scan_completes:
  assumes ps: "patterns_ok ps" and built: "jmx_v3_ac_build mem ps = Inr (ac, stats)"
    and em: "costs emit k" and nonempty: "text \<noteq> []"
    and work: "20 * length text + Suc k * length (occurrences ps text) \<le> work"
  shows "\<exists>ctx' work'. jmx_v3_ac_scan ac text emit ctx work = (None, ctx', work')"
proof -
  obtain b L ns where aut: "automaton b L ns ac" and outs: "outs_ok folded b L ps"
    using build_automaton [OF ps built] by blast
  have "L ! 0 = []" using labels_root [OF automatonD(3) [OF aut]] by simp
  moreover have "\<forall>p \<in> set ps. folded p \<noteq> []" using patterns_folded [OF ps] by blast
  ultimately have "\<exists>ctx' work'. scan_bytes emit ac text (length ([] :: bytes)) 0 ctx work = (None, ctx', work')"
    using scan_bytes_cost [OF aut outs _ em scan_start [OF aut], of "text"] work by simp
  then show ?thesis using nonempty by (simp add: jmx_v3_ac_scan_def)
qed

lemma build_total:
  assumes ps: "patterns_ok ps" and mem: "\<forall>site. mem site"
  shows "\<exists>ac stats. jmx_v3_ac_build mem ps = Inr (ac, stats) \<and>
    st_patterns stats = length ps \<and> st_nodes stats = length (ac_nodes ac)"
proof -
  obtain b where b: "insert_patterns (trie_start (1 + sum_list (map pat_len ps))) ps = Inr b"
    "count_nodes ps 1 = Inr (1 + sum_list (map pat_len ps))"
    using build_trie [OF ps] by blast
  then show ?thesis
    using mem ps unfolding jmx_v3_ac_build_def trie_start_def by (simp add: Let_def patterns_ok_def)
qed

section \<open>Occurrences, declaratively\<close>

definition occurs :: "ac_pattern \<Rightarrow> bytes \<Rightarrow> nat \<Rightarrow> nat \<Rightarrow> bool" where
  "occurs p text s e \<longleftrightarrow> s + pat_len p = e \<and> e \<le> length text \<and>
     map v3_fold (take (pat_len p) (drop s text)) = map v3_fold (take (pat_len p) (pat_bytes p))"

lemma hits_iff: "i \<in> set (hits folded ps u) \<longleftrightarrow> i < length ps \<and> suffix (folded (ps ! i)) u \<and> folded (ps ! i) \<noteq> []"
proof (induction u)
  case (Cons c u)
  then show ?case by (auto simp: equal_to_def suffix_Cons)
qed simp

lemma suffix_iff_drop: "suffix s w \<longleftrightarrow> length s \<le> length w \<and> drop (length w - length s) w = s"
proof
  assume "suffix s w"
  then show "length s \<le> length w \<and> drop (length w - length s) w = s" by (auto simp: suffix_def)
next
  assume "length s \<le> length w \<and> drop (length w - length s) w = s"
  then show "suffix s w" by (metis suffix_drop)
qed

lemma suffix_take:
  assumes "e \<le> length t"
  shows "suffix s (take e t) \<longleftrightarrow> length s \<le> e \<and> take (length s) (drop (e - length s) t) = s"
  using assms unfolding suffix_iff_drop by (auto simp: drop_take)

lemma occurrences_iff:
  assumes ps: "patterns_ok ps"
  shows "(r, st, s, e) \<in> set (occurrences ps text) \<longleftrightarrow>
    (\<exists>p \<in> set ps. r = pat_rule_index p \<and> st = pat_step_index p \<and> occurs p text s e)"
proof -
  have one: "e \<in> set [1..<Suc (length text)] \<and> (r, st, s, e) \<in> set (map (call ps e) (hits folded ps (take e (map v3_fold text)))) \<longleftrightarrow>
      (\<exists>i < length ps. r = pat_rule_index (ps ! i) \<and> st = pat_step_index (ps ! i) \<and> occurs (ps ! i) text s e)"
  proof -
    have hit: "i \<in> set (hits folded ps (take e (map v3_fold text))) \<and> s = e - pat_len (ps ! i) \<longleftrightarrow> occurs (ps ! i) text s e"
      if "i < length ps" "e \<le> length text" for i
    proof -
      have p: "length (folded (ps ! i)) = pat_len (ps ! i)" "folded (ps ! i) \<noteq> []"
        using patterns_folded [OF ps] that(1) by simp_all
      show ?thesis
        unfolding hits_iff occurs_def folded_def [symmetric]
        using that p suffix_take [of e "map v3_fold text" "folded (ps ! i)"]
        by (auto simp: take_map drop_map simp del: map_eq_conv)
    qed
    have pos: "1 \<le> e" if "i < length ps" "occurs (ps ! i) text s e" for i
      using ps nth_mem [OF that(1)] that(2) by (fastforce simp: patterns_ok_def occurs_def)
    show ?thesis
    proof
      assume l: "e \<in> set [1..<Suc (length text)] \<and> (r, st, s, e) \<in> set (map (call ps e) (hits folded ps (take e (map v3_fold text))))"
      then obtain i where "i \<in> set (hits folded ps (take e (map v3_fold text)))" "(r, st, s, e) = call ps e i" by auto
      then show "\<exists>i < length ps. r = pat_rule_index (ps ! i) \<and> st = pat_step_index (ps ! i) \<and> occurs (ps ! i) text s e"
        using l hit [of i] hits_iff [of i ps] by (auto simp: call_def)
    next
      assume "\<exists>i < length ps. r = pat_rule_index (ps ! i) \<and> st = pat_step_index (ps ! i) \<and> occurs (ps ! i) text s e"
      then obtain i where i: "i < length ps" "r = pat_rule_index (ps ! i)" "st = pat_step_index (ps ! i)"
        "occurs (ps ! i) text s e" by blast
      have "e \<le> length text" using i(4) by (simp add: occurs_def)
      then show "e \<in> set [1..<Suc (length text)] \<and> (r, st, s, e) \<in> set (map (call ps e) (hits folded ps (take e (map v3_fold text))))"
        using i hit [of i] pos [OF i(1,4)] by (force simp: call_def image_iff)
    qed
  qed
  have "(r, st, s, e) \<in> set (occurrences ps text) \<longleftrightarrow>
      e \<in> set [1..<Suc (length text)] \<and> (r, st, s, e) \<in> set (map (call ps e) (hits folded ps (take e (map v3_fold text))))"
    by (auto simp: occurrences_def call_def simp del: upt_Suc)
  then show ?thesis unfolding one by (auto simp: in_set_conv_nth) (metis nth_mem)
qed

section \<open>Errors\<close>

text \<open>A scan of a payload fails only when the budget is spent, if the emit function does.\<close>

definition only_exhausts :: "'c emit_fn \<Rightarrow> bool" where
  "only_exhausts emit \<longleftrightarrow> (\<forall>ctx r st s e work err ctx' work'.
     emit ctx r st s e work = (Some err, ctx', work') \<longrightarrow> err = E2BIG)"

lemma only_exhaustsD: "only_exhausts emit \<Longrightarrow> emit ctx r st s e work = (Some err, ctx', work') \<Longrightarrow> err = E2BIG"
  unfolding only_exhausts_def by blast

lemma find_probe_error: "find_probe edges ebegin byte lo hi work = Inl e \<Longrightarrow> e = E2BIG"
proof (induction edges ebegin byte lo hi work rule: find_probe.induct)
  case (1 edges ebegin byte lo hi work)
  note eq = "1.prems" [unfolded find_probe.simps [of edges ebegin byte lo hi work] Let_def]
  show ?case using eq "1.IH" [OF _ _ refl refl] by (fastforce split: if_splits)
qed

lemma next_state_error: "next_state ac state byte work = Inl e \<Longrightarrow> e = E2BIG"
proof (induction ac state byte work rule: next_state.induct)
  case (1 ac state byte work)
  note eq = "1.prems" [unfolded next_state.simps [of ac state byte work]]
  show ?case
  proof (cases "find_child ac state byte work")
    case (Inl e')
    then have "e' = E2BIG" by (auto simp: find_child_def Let_def dest: find_probe_error)
    then show ?thesis using eq Inl by (simp split: if_splits)
  next
    case (Inr r)
    then show ?thesis using eq "1.IH" [OF _ Inr] by (cases r) (auto split: if_splits option.splits)
  qed
qed

lemma emit_outputs_error:
  "only_exhausts emit \<Longrightarrow> emit_outputs emit outs e ctx work = (Some err, ctx', work') \<Longrightarrow> err = E2BIG"
proof (induction outs arbitrary: ctx work)
  case (Cons out outs)
  then show ?case
    by (auto split: if_splits prod.splits option.splits dest: only_exhaustsD)
qed simp

lemma emit_nodes_error:
  "only_exhausts emit \<Longrightarrow> emit_nodes emit ac ns e ctx work = (Some err, ctx', work') \<Longrightarrow> err = E2BIG"
proof (induction ns arbitrary: ctx work)
  case (Cons n ns)
  then show ?case
    by (auto split: prod.splits option.splits simp: emit_node_def Let_def dest: emit_outputs_error)
qed simp

lemma scan_bytes_error:
  "only_exhausts emit \<Longrightarrow> scan_bytes emit ac bs pos state ctx work = (Some err, ctx', work') \<Longrightarrow> err = E2BIG"
proof (induction bs arbitrary: pos state ctx work)
  case (Cons b bs)
  then show ?case
    by (auto split: if_splits prod.splits option.splits sum.splits dest: next_state_error emit_nodes_error)
qed simp

section \<open>The interface for clients\<close>

text \<open>What a matcher may rely on: building answers or fails, a completed scan has folded the emit
  function over the occurrences, and enough work completes it.\<close>

locale pattern_engine =
  fixes build :: "ac_pattern list \<Rightarrow> 'ac option"
    and scan :: "'ac \<Rightarrow> bytes \<Rightarrow> 'c emit_fn \<Rightarrow> 'c \<Rightarrow> nat \<Rightarrow> krc \<times> 'c \<times> nat"
  assumes scan_tracks: "patterns_ok ps \<Longrightarrow> build ps = Some ac \<Longrightarrow> tracks emit f \<Longrightarrow>
      scan ac payload emit ctx work = (None, ctx', work') \<Longrightarrow> ctx' = foldl f ctx (occurrences ps payload)"
    and scan_completes: "patterns_ok ps \<Longrightarrow> build ps = Some ac \<Longrightarrow> costs emit k \<Longrightarrow> payload \<noteq> [] \<Longrightarrow>
      20 * length payload + Suc k * length (occurrences ps payload) \<le> work \<Longrightarrow>
      \<exists>ctx' work'. scan ac payload emit ctx work = (None, ctx', work')"
    and scan_error: "only_exhausts emit \<Longrightarrow> payload \<noteq> [] \<Longrightarrow>
      scan ac payload emit ctx work = (Some e, ctx', work') \<Longrightarrow> e = E2BIG"
begin

text \<open>A scan ends with the fold of the emit function, or with a spent budget.\<close>

lemma scan_outcome:
  assumes "patterns_ok ps" and "build ps = Some ac" and "tracks emit f" and "only_exhausts emit" and "payload \<noteq> []"
    and "scan ac payload emit ctx work = (rc, ctx', work')"
  shows "(rc = None \<and> ctx' = foldl f ctx (occurrences ps payload)) \<or> rc = Some E2BIG"
  using scan_tracks [OF assms(1-3)] scan_error [OF assms(4,5)] assms(6) by (cases rc) auto

text \<open>The two laws together: with enough work the scan returns the fold.\<close>

lemma scan_total:
  assumes "patterns_ok ps" and "build ps = Some ac" and "tracks emit f" and "costs emit k" and "payload \<noteq> []"
    and "20 * length payload + Suc k * length (occurrences ps payload) \<le> work"
  shows "\<exists>work'. scan ac payload emit ctx work = (None, foldl f ctx (occurrences ps payload), work')"
  using scan_completes [OF assms(1,2,4-6)] scan_tracks [OF assms(1-3)] by metis

end

definition ac_of :: "(alloc_site \<Rightarrow> bool) \<Rightarrow> ac_pattern list \<Rightarrow> ac option" where
  "ac_of mem ps = (case jmx_v3_ac_build mem ps of Inl e \<Rightarrow> None | Inr (ac, stats) \<Rightarrow> Some ac)"

lemma ac_of_Some: "ac_of mem ps = Some ac \<longleftrightarrow> (\<exists>stats. jmx_v3_ac_build mem ps = Inr (ac, stats))"
  by (auto simp: ac_of_def split: sum.splits)

interpretation v3_engine: pattern_engine "ac_of mem" jmx_v3_ac_scan for mem
proof
  fix ps ac emit f payload ctx work ctx' work'
  assume "patterns_ok ps" "ac_of mem ps = Some ac" "tracks emit f"
    "jmx_v3_ac_scan ac payload emit ctx work = (None, ctx', work')"
  then show "ctx' = foldl f ctx (occurrences ps payload)"
    unfolding ac_of_Some by (elim exE) (rule ac_scan_tracks)
next
  fix ps ac and emit :: "'c emit_fn" and k payload work ctx
  assume "patterns_ok ps" "ac_of mem ps = Some ac" "costs emit k" "payload \<noteq> []"
    "20 * length payload + Suc k * length (occurrences ps payload) \<le> work"
  then show "\<exists>ctx' work'. jmx_v3_ac_scan ac payload emit ctx work = (None, ctx', work')"
    unfolding ac_of_Some by (elim exE) (rule ac_scan_completes)
next
  fix emit :: "'c emit_fn" and ac payload ctx work e ctx' work'
  assume "only_exhausts emit" "payload \<noteq> []" "jmx_v3_ac_scan ac payload emit ctx work = (Some e, ctx', work')"
  then show "e = E2BIG" by (auto simp: jmx_v3_ac_scan_def dest: scan_bytes_error)
qed

section \<open>Properties\<close>

text \<open>An emit function that records its calls.\<close>

definition record_call :: "(nat \<times> nat \<times> nat \<times> nat) list emit_fn" where
  "record_call calls r st s e work = (None, calls @ [(r, st, s, e)], work)"

lemma record_call_tracks: "tracks record_call (\<lambda>calls c. calls @ [c])" and record_call_costs: "costs record_call 0"
  by (simp_all add: tracks_def costs_def record_call_def)

lemma foldl_snoc: "foldl (\<lambda>cs c. cs @ [c]) ys xs = ys @ xs"
  by (induction xs arbitrary: ys) simp_all

text \<open>building never fails for want of space in its own tables: with memory, any non-empty list of at
  most 65535 patterns of 1 to 64 bytes is compiled, and no overflow branch is taken.\<close>

theorem ac_build_total:
  assumes "patterns_ok ps" and "\<forall>site. mem site"
  shows "\<exists>ac stats. jmx_v3_ac_build mem ps = Inr (ac, stats) \<and> st_patterns stats = length ps"
  using build_total [OF assms] by blast

theorem ac_build_total_witness:
  "\<exists>ac stats. jmx_v3_ac_build (\<lambda>_. True)
     [\<lparr>pat_rule_index = 0, pat_step_index = 0, pat_len = 2, pat_bytes = [97, 98] @ replicate 62 0\<rparr>] = Inr (ac, stats) \<and>
     st_patterns stats = 1"
  using ac_build_total [of "[\<lparr>pat_rule_index = 0, pat_step_index = 0, pat_len = 2, pat_bytes = [97, 98] @ replicate 62 0\<rparr>]"
    "\<lambda>_. True"] by (simp add: patterns_ok_def)

text \<open>C13: the compiled automaton finds exactly the occurrences: given 20 units of work per byte and one
  per occurrence, the scan of a payload returns 0 and its calls are those triples of rule, start and
  end at which the case-folded bytes of a pattern occur in the case-folded payload.\<close>

theorem ac_scan_exact:
  assumes "patterns_ok ps" and "jmx_v3_ac_build mem ps = Inr (ac, stats)" and "payload \<noteq> []"
    and "20 * length payload + length (occurrences ps payload) \<le> work"
  shows "\<exists>calls work'. jmx_v3_ac_scan ac payload record_call [] work = (None, calls, work') \<and>
    (\<forall>r st s e. (r, st, s, e) \<in> set calls \<longleftrightarrow>
      (\<exists>p \<in> set ps. r = pat_rule_index p \<and> st = pat_step_index p \<and> occurs p payload s e))"
proof -
  have "ac_of mem ps = Some ac" using assms(2) by (auto simp: ac_of_Some)
  from v3_engine.scan_total [OF assms(1) this record_call_tracks record_call_costs assms(3), of work "[]"]
  obtain work' where "jmx_v3_ac_scan ac payload record_call [] work = (None, occurrences ps payload, work')"
    using assms(4) by (auto simp: foldl_snoc)
  then show ?thesis using occurrences_iff [OF assms(1)] by blast
qed

theorem ac_scan_exact_witness:
  "\<exists>ac stats calls work'. jmx_v3_ac_build (\<lambda>_. True)
     [\<lparr>pat_rule_index = 7, pat_step_index = 0, pat_len = 2, pat_bytes = [97, 98] @ replicate 62 0\<rparr>] = Inr (ac, stats) \<and>
     jmx_v3_ac_scan ac [120, 65, 98] record_call [] 65536 = (None, calls, work') \<and> (7, 0, 1, 3) \<in> set calls"
proof -
  let ?p = "\<lparr>pat_rule_index = 7, pat_step_index = 0, pat_len = 2, pat_bytes = [97, 98] @ replicate 62 0\<rparr> :: ac_pattern"
  have ok: "patterns_ok [?p]" by (simp add: patterns_ok_def)
  obtain ac stats where b: "jmx_v3_ac_build (\<lambda>_. True) [?p] = Inr (ac, stats)"
    using build_total [OF ok, of "\<lambda>_. True"] by auto
  have work: "20 * length [120 :: u8, 65, 98] + length (occurrences [?p] [120, 65, 98]) \<le> 65536"
    by (simp add: occurrences_def upt_rec equal_to_def folded_def v3_fold_def)
  have "occurs ?p [120, 65, 98] 1 3" by (simp add: occurs_def v3_fold_def)
  then show ?thesis using ac_scan_exact [OF ok b _ work] b by fastforce
qed

end
