(* ===== verification/V3Rules.thy ===== *)
theory V3Rules
  imports V3AC_Scan
begin

text \<open>
  The rule-set transactions of the kernel module (\<open>jmx/src/jmx_v3_rules.c\<close>): one staged rule set owned
  by a netlink port, filled by batches, published by COMMIT, dropped by ABORT, by a newer request
  after its deadline, or by the expiry work.

  A C array with a count is the list of its first \<open>count\<close> entries; the entries beyond are all zero in
  the C code (zeroed allocation, zeroed again on rollback).  \<open>v3_update_lock\<close> makes every operation one
  step on the state.  An \<open>int\<close> result with its \<open>reason\<close> and \<open>detail\<close> out-parameters is a triple; a
  function that may leave them untouched returns an option of it.
\<close>

unbundle bit_operations_syntax

abbreviation (input) JMX_V3_MAX_RULES :: u32 where "JMX_V3_MAX_RULES \<equiv> 16384"
abbreviation (input) JMX_V3_MAX_STEPS :: u32 where "JMX_V3_MAX_STEPS \<equiv> 262144"
abbreviation (input) JMX_V3_MAX_PORTS :: u32 where "JMX_V3_MAX_PORTS \<equiv> 131072"
abbreviation (input) JMX_V3_PACKET_WORK_BUDGET :: nat where "JMX_V3_PACKET_WORK_BUDGET \<equiv> 65536"

definition JMX_V3_TX_TIMEOUT :: "kernel_env \<Rightarrow> u64" where
  "JMX_V3_TX_TIMEOUT env = 30 * hz env"

section \<open>State\<close>

record rule_k =
  rk_signature_rule_id :: u32
  rk_appid :: u32
  rk_priority :: u32
  rk_required_caps :: u32
  rk_first_step :: nat
  rk_first_port :: nat
  rk_step_count :: u16
  rk_port_count :: u16
  rk_proto :: u8
  rk_dir :: u8
  rk_flags :: u8

record step_k =
  sk_signature_rule_id :: u32
  sk_depth :: u32
  sk_offset :: u32
  sk_distance :: u32
  sk_within :: u32
  sk_step_index :: u16
  sk_payload_len :: u16
  sk_matcher_type :: u8
  sk_condition :: u8
  sk_case_mode :: u8
  sk_input_view :: u8
  sk_position_flags :: u8
  sk_literal_option :: u8
  sk_payload :: bytes

record port_k =
  pk_signature_rule_id :: u32
  pk_min_port :: u16
  pk_max_port :: u16
  pk_endpoint :: u8

record rule_set =
  rs_generation :: u32
  rs_mode :: u32
  rs_rule_capacity :: u32
  rs_step_capacity :: u32
  rs_port_capacity :: u32
  rs_declared_caps :: u32
  rs_catalog_digest :: bytes
  rs_rules :: "rule_k list"
  rs_steps :: "step_k list"
  rs_ports :: "port_k list"
  rs_ac :: "ac option"
  rs_ac_stats :: ac_stats
  rs_match_cnt :: "u64 list"

record transaction =
  tx_owner_portid :: u32
  tx_generation :: u32
  tx_failed_reason :: u32
  tx_failed_detail :: u32
  tx_started :: u64
  tx_deadline :: u64
  tx_set :: "rule_set option"
  tx_failed :: bool

text \<open>The file-scope variables.  \<open>v3_expire_due\<close> is the time for which the delayed work is queued.\<close>

record v3_state =
  v3_tx :: transaction
  v3_active :: "rule_set option"
  v3_expire_due :: "u64 option"
  v3_budget_exhausted :: u64
  v3_running :: bool

definition rule_count :: "rule_set \<Rightarrow> u32" where "rule_count s = word_of_nat (length (rs_rules s))"
definition step_count :: "rule_set \<Rightarrow> u32" where "step_count s = word_of_nat (length (rs_steps s))"
definition port_count :: "rule_set \<Rightarrow> u32" where "port_count s = word_of_nat (length (rs_ports s))"

definition tx_zero :: transaction where
  "tx_zero = \<lparr>tx_owner_portid = 0, tx_generation = 0, tx_failed_reason = 0, tx_failed_detail = 0,
     tx_started = 0, tx_deadline = 0, tx_set = None, tx_failed = False\<rparr>"

type_synonym outcome = "krc \<times> u32 \<times> u32"

definition jmx_v3_capabilities :: u32 where
  "jmx_v3_capabilities = JMX_V3_CAP_PHASE1_MASK"

definition bytes_zero :: "bytes \<Rightarrow> bool" where
  "bytes_zero bs \<longleftrightarrow> list_all (\<lambda>b. b = 0) bs"

section \<open>Life of the staged set\<close>

definition jmx_v3_rules_init :: v3_state where
  "jmx_v3_rules_init = \<lparr>v3_tx = tx_zero, v3_active = None, v3_expire_due = None,
     v3_budget_exhausted = 0, v3_running = True\<rparr>"

definition jmx_v3_rules_exit :: "v3_state \<Rightarrow> v3_state" where
  "jmx_v3_rules_exit st =
     (let st = st\<lparr>v3_running := False\<rparr>;
          st = st\<lparr>v3_expire_due := None\<rparr>
      in st\<lparr>v3_tx := tx_zero, v3_active := None\<rparr>)"

text \<open>The work function runs when its timer is due; queueing again is for the rest of the time.\<close>

definition v3_expire_work_fn :: "kernel_env \<Rightarrow> v3_state \<Rightarrow> v3_state" where
  "v3_expire_work_fn env st =
     (let now = jiffies env; deadline = tx_deadline (v3_tx st); st = st\<lparr>v3_expire_due := None\<rparr>
      in if \<not> v3_running st then st
         else if tx_set (v3_tx st) \<noteq> None \<and> time_after_eq now deadline then st\<lparr>v3_tx := tx_zero\<rparr>
         else if tx_set (v3_tx st) \<noteq> None then st\<lparr>v3_expire_due := Some (now + (deadline - now))\<rparr>
         else st)"

definition expire_staging_locked :: "kernel_env \<Rightarrow> v3_state \<Rightarrow> v3_state" where
  "expire_staging_locked env st =
     (if tx_set (v3_tx st) \<noteq> None \<and> time_after_eq (jiffies env) (tx_deadline (v3_tx st))
      then st\<lparr>v3_tx := tx_zero\<rparr> else st)"

definition check_owner_locked ::
  "kernel_env \<Rightarrow> u32 \<Rightarrow> u32 \<Rightarrow> bool \<Rightarrow> v3_state \<Rightarrow> (errno \<times> u32 \<times> u32) option \<times> v3_state" where
  "check_owner_locked env owner_portid generation allow_failed st =
     (if \<not> v3_running st then (Some (ESHUTDOWN, JMX_V3_REASON_BAD_GENERATION, generation), st)
      else let st = expire_staging_locked env st; tx = v3_tx st
      in case tx_set tx of
           None \<Rightarrow> (Some (ENOENT, JMX_V3_REASON_BAD_GENERATION, generation), st)
         | Some rset \<Rightarrow>
             if tx_owner_portid tx \<noteq> owner_portid
             then (Some (EPERM, JMX_V3_REASON_NOT_OWNER, owner_portid), st)
             else if tx_generation tx \<noteq> generation \<or> rs_generation rset \<noteq> generation
             then (Some (EINVAL, JMX_V3_REASON_BAD_GENERATION, generation), st)
             else if tx_failed tx \<and> \<not> allow_failed
             then (Some (ECANCELED, tx_failed_reason tx, tx_failed_detail tx), st)
             else (None, st))"

definition fail_transaction_locked :: "u32 \<Rightarrow> u32 \<Rightarrow> v3_state \<Rightarrow> v3_state" where
  "fail_transaction_locked reason detail st =
     (let tx = v3_tx st
      in if tx_set tx = None \<or> tx_failed tx then st
         else st\<lparr>v3_tx := tx\<lparr>tx_failed := True,
                tx_failed_reason := (if reason \<noteq> 0 then reason else JMX_V3_REASON_BAD_RECORD),
                tx_failed_detail := detail\<rparr>\<rparr>)"

definition renew_transaction_locked :: "kernel_env \<Rightarrow> v3_state \<Rightarrow> v3_state" where
  "renew_transaction_locked env st =
     st\<lparr>v3_tx := (v3_tx st)\<lparr>tx_deadline := jiffies env + JMX_V3_TX_TIMEOUT env\<rparr>,
        v3_expire_due := Some (jiffies env + JMX_V3_TX_TIMEOUT env)\<rparr>"

definition jmx_v3_tx_fail :: "kernel_env \<Rightarrow> u32 \<Rightarrow> u32 \<Rightarrow> u32 \<Rightarrow> u32 \<Rightarrow> v3_state \<Rightarrow> v3_state" where
  "jmx_v3_tx_fail env owner_portid generation reason detail st =
     (case check_owner_locked env owner_portid generation True st of
        (None, st') \<Rightarrow> fail_transaction_locked reason detail st'
      | (Some _, st') \<Rightarrow> st')"

definition begin_bad :: "u32 \<Rightarrow> u32 \<Rightarrow> u32 \<Rightarrow> u32 \<Rightarrow> u32 \<Rightarrow> bool" where
  "begin_bad flags rules steps ports caps \<longleftrightarrow>
     (let mode = flags AND JMX_V3_TX_MODE_MASK
      in flags AND NOT JMX_V3_TX_KNOWN_FLAGS \<noteq> 0 \<or> JMX_V3_MODE_ACTIVE < mode \<or>
         JMX_V3_MAX_RULES < rules \<or> JMX_V3_MAX_STEPS < steps \<or> JMX_V3_MAX_PORTS < ports \<or>
         (rules = 0 \<and> (steps \<noteq> 0 \<or> ports \<noteq> 0 \<or> caps \<noteq> 0 \<or> mode \<noteq> JMX_V3_MODE_OFF)) \<or>
         (rules \<noteq> 0 \<and> (steps = 0 \<or> mode = JMX_V3_MODE_OFF)) \<or>
         caps AND NOT jmx_v3_capabilities \<noteq> 0)"

definition begin_set :: "u32 \<Rightarrow> u32 \<Rightarrow> v3_begin \<Rightarrow> rule_set" where
  "begin_set generation flags b =
     \<lparr>rs_generation = generation, rs_mode = flags AND JMX_V3_TX_MODE_MASK,
      rs_rule_capacity = bg_expected_rules b, rs_step_capacity = bg_expected_steps b,
      rs_port_capacity = bg_expected_ports b, rs_declared_caps = bg_required_capabilities b,
      rs_catalog_digest = bg_catalog_digest b, rs_rules = [], rs_steps = [], rs_ports = [],
      rs_ac = None, rs_ac_stats = ac_stats_zero,
      rs_match_cnt = replicate (unat (bg_expected_rules b)) 0\<rparr>"

definition begin_alloc_fails :: "kernel_env \<Rightarrow> v3_begin \<Rightarrow> bool" where
  "begin_alloc_fails env b \<longleftrightarrow> \<not> alloc_ok env A_SET \<or>
     (bg_expected_rules b \<noteq> 0 \<and> (\<not> alloc_ok env A_RULES \<or> \<not> alloc_ok env A_MATCH_CNT)) \<or>
     (bg_expected_steps b \<noteq> 0 \<and> \<not> alloc_ok env A_STEPS) \<or>
     (bg_expected_ports b \<noteq> 0 \<and> \<not> alloc_ok env A_PORTS)"

definition jmx_v3_tx_begin ::
  "kernel_env \<Rightarrow> u32 \<Rightarrow> u32 \<Rightarrow> v3_begin option \<Rightarrow> u32 \<Rightarrow> v3_state \<Rightarrow> outcome \<times> v3_state" where
  "jmx_v3_tx_begin env owner_portid generation wire flags st =
     (case wire of None \<Rightarrow> ((Some EINVAL, JMX_V3_REASON_BAD_RECORD, 0), st)
      | Some b \<Rightarrow>
        let caps = bg_required_capabilities b; extra = caps AND NOT jmx_v3_capabilities
        in if owner_portid = 0 \<or> generation = 0 then ((Some EINVAL, JMX_V3_REASON_BAD_RECORD, 0), st)
           else if bytes_zero (bg_catalog_digest b) then ((Some EINVAL, JMX_V3_REASON_BAD_RECORD, 0), st)
           else if begin_bad flags (bg_expected_rules b) (bg_expected_steps b) (bg_expected_ports b) caps
           then ((Some EINVAL, (if extra \<noteq> 0 then JMX_V3_REASON_CAPABILITY else JMX_V3_REASON_BAD_RECORD), extra), st)
           else if begin_alloc_fails env b then ((Some ENOMEM, JMX_V3_REASON_NO_MEMORY, 0), st)
           else if \<not> v3_running st then ((Some ESHUTDOWN, JMX_V3_REASON_BAD_GENERATION, generation), st)
           else let st = expire_staging_locked env st
                in if tx_set (v3_tx st) \<noteq> None
                   then ((Some EBUSY, JMX_V3_REASON_BUSY, tx_owner_portid (v3_tx st)), st)
                   else if (case v3_active st of None \<Rightarrow> False | Some a \<Rightarrow> rs_generation a = generation)
                   then ((Some EALREADY, JMX_V3_REASON_BAD_GENERATION, generation), st)
                   else let tx = (v3_tx st)\<lparr>tx_owner_portid := owner_portid, tx_generation := generation,
                              tx_started := jiffies env, tx_set := Some (begin_set generation flags b)\<rparr>
                        in ((None, JMX_V3_REASON_NONE, 0), renew_transaction_locked env (st\<lparr>v3_tx := tx\<rparr>)))"

section \<open>Batches\<close>

definition rule_wire_bad :: "u32 \<Rightarrow> rule_k list \<Rightarrow> v3_rule_wire \<Rightarrow> bool" where
  "rule_wire_bad declared rules w \<longleftrightarrow>
     rw_signature_rule_id w = 0 \<or> rw_appid w = 0 \<or> rw_step_count w = 0 \<or>
     JMX_V3_MAX_STEPS_PER_RULE < rw_step_count w \<or> rw_flags w \<noteq> 0 \<or> \<not> bytes_zero (rw_reserved w) \<or>
     JMX_V3_PROTO_UDP < rw_proto w \<or> JMX_V3_DIR_BIDIRECTIONAL < rw_dir w \<or>
     rw_required_caps w AND NOT declared \<noteq> 0 \<or>
     (rules \<noteq> [] \<and> rw_signature_rule_id w \<le> rk_signature_rule_id (last rules))"

definition rule_of_wire :: "v3_rule_wire \<Rightarrow> rule_k" where
  "rule_of_wire w = \<lparr>rk_signature_rule_id = rw_signature_rule_id w, rk_appid = rw_appid w,
     rk_priority = rw_priority w, rk_required_caps = rw_required_caps w, rk_first_step = 0,
     rk_first_port = 0, rk_step_count = rw_step_count w, rk_port_count = 0, rk_proto = rw_proto w,
     rk_dir = rw_dir w, rk_flags = 0\<rparr>"

text \<open>The loops return the reason and index of the first bad record, or the grown array.\<close>

fun append_rules :: "u32 \<Rightarrow> rule_k list \<Rightarrow> v3_rule_wire list \<Rightarrow> u32 \<Rightarrow> (errno \<times> u32 \<times> u32) + rule_k list" where
  "append_rules declared rules [] at = Inr rules"
| "append_rules declared rules (w # ws) at =
     (if rule_wire_bad declared rules w then Inl (EINVAL, JMX_V3_REASON_BAD_RECORD, at)
      else append_rules declared (rules @ [rule_of_wire w]) ws (at + 1))"

definition set_staged :: "rule_set \<Rightarrow> v3_state \<Rightarrow> v3_state" where
  "set_staged rset st = st\<lparr>v3_tx := (v3_tx st)\<lparr>tx_set := Some rset\<rparr>\<rparr>"

definition fail_with :: "errno \<times> u32 \<times> u32 \<Rightarrow> v3_state \<Rightarrow> outcome \<times> v3_state" where
  "fail_with e st = (case e of (err, reason, detail) \<Rightarrow>
     ((Some err, reason, detail), fail_transaction_locked reason detail st))"

definition jmx_v3_tx_add_rules ::
  "kernel_env \<Rightarrow> u32 \<Rightarrow> u32 \<Rightarrow> v3_rule_wire list \<Rightarrow> v3_state \<Rightarrow> outcome \<times> v3_state" where
  "jmx_v3_tx_add_rules env owner_portid generation records st =
     (case check_owner_locked env owner_portid generation False st of
        (Some (err, reason, detail), st) \<Rightarrow> ((Some err, reason, detail), st)
      | (None, st) \<Rightarrow>
          let rset = the (tx_set (v3_tx st)); count = word_of_nat (length records) :: u32; start = rule_count rset
          in if rs_rule_capacity rset - start < count
             then fail_with (E2BIG, JMX_V3_REASON_COUNT_MISMATCH, count) st
             else case append_rules (rs_declared_caps rset) (rs_rules rset) records start of
                    Inl e \<Rightarrow> fail_with e st
                  | Inr rules \<Rightarrow>
                      let rset = rset\<lparr>rs_rules := rules\<rparr>
                      in ((None, JMX_V3_REASON_NONE, rule_count rset),
                          renew_transaction_locked env (set_staged rset st)))"

definition pos_flag :: "u8 \<Rightarrow> u8 \<Rightarrow> bool" where
  "pos_flag flags flag \<longleftrightarrow> flags AND flag \<noteq> 0"

definition step_of_wire :: "v3_step_wire \<Rightarrow> step_k" where
  "step_of_wire w = \<lparr>sk_signature_rule_id = sw_signature_rule_id w, sk_depth = sw_depth w,
     sk_offset = sw_offset w, sk_distance = sw_distance w, sk_within = sw_within w,
     sk_step_index = sw_step_index w, sk_payload_len = sw_payload_len w,
     sk_matcher_type = sw_matcher_type w, sk_condition = sw_condition w, sk_case_mode = sw_case_mode w,
     sk_input_view = sw_input_view w, sk_position_flags = sw_position_flags w,
     sk_literal_option = sw_literal_option w,
     sk_payload = take (unat (sw_payload_len w)) (sw_payload w) @ replicate (64 - unat (sw_payload_len w)) 0\<rparr>"

definition valid_step_wire :: "v3_step_wire \<Rightarrow> errno + step_k" where
  "valid_step_wire w =
     (if sw_signature_rule_id w = 0 \<or> sw_condition w \<noteq> JMX_V3_CONDITION_POSITIVE \<or>
         sw_input_view w \<noteq> JMX_V3_VIEW_RAW \<or> sw_position_flags w AND NOT JMX_V3_POS_KNOWN_MASK \<noteq> 0 \<or>
         sw_payload_len w = 0 \<or> 64 < sw_payload_len w \<or>
         \<not> bytes_zero (drop (unat (sw_payload_len w)) (sw_payload w)) \<or> \<not> bytes_zero (sw_reserved w) \<or>
         sw_numeric_encoding w \<noteq> 0 \<or> sw_reference_source w \<noteq> 0 \<or> sw_comparison w \<noteq> 0 \<or>
         sw_adjust_mode w \<noteq> 0 \<or> sw_width w \<noteq> 0 \<or> sw_jump_multiplier w \<noteq> 0 \<or>
         sw_inline_operand w \<noteq> 0 \<or> sw_adjustment_operand w \<noteq> 0 \<or> sw_jump_base w \<noteq> 0
      then Inl EINVAL
      else if \<not> (sw_matcher_type w = JMX_V3_MATCH_LITERAL_NOCASE \<or>
                 sw_matcher_type w = JMX_V3_MATCH_LITERAL_EXACT_1 \<or>
                 sw_matcher_type w = JMX_V3_MATCH_LITERAL_EXACT_2)
      then Inl EOPNOTSUPP
      else if sw_case_mode w \<noteq> (if sw_matcher_type w = JMX_V3_MATCH_LITERAL_NOCASE
                                   then JMX_V3_CASE_NOCASE else JMX_V3_CASE_EXACT)
      then Inl EINVAL
      else if \<not> (sw_literal_option w = 0 \<or> sw_literal_option w = 1 \<or> sw_literal_option w = 4)
      then Inl EINVAL
      else let step = step_of_wire w; has = pos_flag (sk_position_flags step)
      in if has JMX_V3_POS_DEPTH \<and> sint (sk_depth step) < 0 then Inl EINVAL
         else if has JMX_V3_POS_OFFSET \<and> sint (sk_offset step) < 0 then Inl EINVAL
         else if \<not> has JMX_V3_POS_DEPTH \<and> sk_depth step \<noteq> 0 then Inl EINVAL
         else if \<not> has JMX_V3_POS_OFFSET \<and> sk_offset step \<noteq> 0 then Inl EINVAL
         else if \<not> has JMX_V3_POS_DISTANCE \<and> sk_distance step \<noteq> 0 then Inl EINVAL
         else if \<not> has JMX_V3_POS_WITHIN \<and> sk_within step \<noteq> 0 then Inl EINVAL
         else if sk_step_index step = 0 \<and> has (JMX_V3_POS_DISTANCE OR JMX_V3_POS_WITHIN) then Inl EINVAL
         else Inr step)"

definition step_out_of_order :: "step_k list \<Rightarrow> step_k \<Rightarrow> bool" where
  "step_out_of_order steps step \<longleftrightarrow> steps \<noteq> [] \<and>
     (sk_signature_rule_id step < sk_signature_rule_id (last steps) \<or>
      (sk_signature_rule_id step = sk_signature_rule_id (last steps) \<and>
       sk_step_index step \<le> sk_step_index (last steps)))"

fun append_steps :: "step_k list \<Rightarrow> v3_step_wire list \<Rightarrow> u32 \<Rightarrow> (errno \<times> u32 \<times> u32) + step_k list" where
  "append_steps steps [] at = Inr steps"
| "append_steps steps (w # ws) at =
     (case valid_step_wire w of
        Inl e \<Rightarrow> Inl (e, (if e = EOPNOTSUPP then JMX_V3_REASON_CAPABILITY else JMX_V3_REASON_BAD_RECORD), at)
      | Inr step \<Rightarrow>
          if step_out_of_order steps step then Inl (EINVAL, JMX_V3_REASON_STEP_SEQUENCE, at)
          else append_steps (steps @ [step]) ws (at + 1))"

definition jmx_v3_tx_add_steps ::
  "kernel_env \<Rightarrow> u32 \<Rightarrow> u32 \<Rightarrow> v3_step_wire list \<Rightarrow> v3_state \<Rightarrow> outcome \<times> v3_state" where
  "jmx_v3_tx_add_steps env owner_portid generation records st =
     (case check_owner_locked env owner_portid generation False st of
        (Some (err, reason, detail), st) \<Rightarrow> ((Some err, reason, detail), st)
      | (None, st) \<Rightarrow>
          let rset = the (tx_set (v3_tx st)); count = word_of_nat (length records) :: u32; start = step_count rset
          in if rs_step_capacity rset - start < count
             then fail_with (E2BIG, JMX_V3_REASON_COUNT_MISMATCH, count) st
             else case append_steps (rs_steps rset) records start of
                    Inl e \<Rightarrow> fail_with e st
                  | Inr steps \<Rightarrow>
                      let rset = rset\<lparr>rs_steps := steps\<rparr>
                      in ((None, JMX_V3_REASON_NONE, step_count rset),
                          renew_transaction_locked env (set_staged rset st)))"

definition port_of_wire :: "v3_port_wire \<Rightarrow> port_k" where
  "port_of_wire w = \<lparr>pk_signature_rule_id = pw_signature_rule_id w, pk_min_port = pw_min_port w,
     pk_max_port = pw_max_port w, pk_endpoint = pw_endpoint w\<rparr>"

definition port_wire_bad :: "port_k list \<Rightarrow> v3_port_wire \<Rightarrow> bool" where
  "port_wire_bad ports w \<longleftrightarrow>
     pw_signature_rule_id w = 0 \<or> pw_endpoint w < JMX_V3_PORT_SOURCE \<or> JMX_V3_PORT_EITHER < pw_endpoint w \<or>
     pw_max_port w < pw_min_port w \<or> \<not> bytes_zero (pw_reserved w) \<or>
     (ports \<noteq> [] \<and> pw_signature_rule_id w < pk_signature_rule_id (last ports))"

fun append_ports :: "port_k list \<Rightarrow> v3_port_wire list \<Rightarrow> u32 \<Rightarrow> (errno \<times> u32 \<times> u32) + port_k list" where
  "append_ports ports [] at = Inr ports"
| "append_ports ports (w # ws) at =
     (if port_wire_bad ports w then Inl (EINVAL, JMX_V3_REASON_BAD_RECORD, at)
      else append_ports (ports @ [port_of_wire w]) ws (at + 1))"

definition jmx_v3_tx_add_ports ::
  "kernel_env \<Rightarrow> u32 \<Rightarrow> u32 \<Rightarrow> v3_port_wire list \<Rightarrow> v3_state \<Rightarrow> outcome \<times> v3_state" where
  "jmx_v3_tx_add_ports env owner_portid generation records st =
     (case check_owner_locked env owner_portid generation False st of
        (Some (err, reason, detail), st) \<Rightarrow> ((Some err, reason, detail), st)
      | (None, st) \<Rightarrow>
          let rset = the (tx_set (v3_tx st)); count = word_of_nat (length records) :: u32; start = port_count rset
          in if rs_port_capacity rset - start < count
             then fail_with (E2BIG, JMX_V3_REASON_COUNT_MISMATCH, count) st
             else case append_ports (rs_ports rset) records start of
                    Inl e \<Rightarrow> fail_with e st
                  | Inr ports \<Rightarrow>
                      let rset = rset\<lparr>rs_ports := ports\<rparr>
                      in ((None, JMX_V3_REASON_NONE, port_count rset),
                          renew_transaction_locked env (set_staged rset st)))"

section \<open>Validation and commit\<close>

definition step_caps :: "step_k \<Rightarrow> u32" where
  "step_caps step =
     (JMX_V3_CAP_RAW_LITERAL_CHAIN OR
      (if sk_matcher_type step = JMX_V3_MATCH_LITERAL_NOCASE then JMX_V3_CAP_NOCASE else 0) OR
      (if pos_flag (sk_position_flags step) (JMX_V3_POS_DEPTH OR JMX_V3_POS_OFFSET)
       then JMX_V3_CAP_POSITION_ABSOLUTE else 0) OR
      (if pos_flag (sk_position_flags step) (JMX_V3_POS_DISTANCE OR JMX_V3_POS_WITHIN)
       then JMX_V3_CAP_POSITION_RELATIVE else 0))"

text \<open>How the validation ends early: the two \<open>goto\<close> targets and the capability mismatch.\<close>

datatype index_error = BadSequence | BadReference | BadCaps u32

text \<open>The steps of one rule: the cursor moves over \<open>step_count\<close> entries and collects capabilities.
  On an error the cursor is where the loop stopped.\<close>

fun index_steps ::
  "step_k list \<Rightarrow> u32 \<Rightarrow> nat \<Rightarrow> nat \<Rightarrow> nat \<Rightarrow> u32 \<Rightarrow> (index_error \<times> nat) + (nat \<times> u32)" where
  "index_steps steps rid 0 j cursor inferred = Inr (cursor, inferred)"
| "index_steps steps rid (Suc left) j cursor inferred =
     (if length steps \<le> cursor then Inl (BadReference, cursor)
      else let step = steps ! cursor
           in if sk_signature_rule_id step \<noteq> rid \<or> unat (sk_step_index step) \<noteq> j
              then Inl (BadSequence, cursor)
              else index_steps steps rid left (j + 1) (cursor + 1) (inferred OR step_caps step))"

text \<open>The run of ports with the rule's id; more than 64 is an error.  The rule's counter stays at what
  was counted.\<close>

function index_ports :: "port_k list \<Rightarrow> u32 \<Rightarrow> nat \<Rightarrow> u16 \<Rightarrow> index_error option \<times> nat \<times> u16" where
  "index_ports ports rid cursor cnt =
     (if cursor < length ports \<and> pk_signature_rule_id (ports ! cursor) = rid
      then if JMX_V3_MAX_PORTS_PER_RULE \<le> cnt then (Some BadReference, cursor, cnt)
           else index_ports ports rid (cursor + 1) (cnt + 1)
      else (None, cursor, cnt))"
  by pat_completeness auto
termination by (relation "measure (\<lambda>(ports, _, cursor, _). length ports - cursor)") auto

declare index_ports.simps [simp del]

definition first_pattern :: "step_k list \<Rightarrow> nat \<Rightarrow> nat \<Rightarrow> ac_pattern" where
  "first_pattern steps i first =
     (let step = steps ! first; len = unat (sk_payload_len step)
      in \<lparr>pat_rule_index = i, pat_step_index = 0, pat_len = len,
          pat_bytes = take len (sk_payload step) @ replicate (64 - len) 0\<rparr>)"

text \<open>One pass over the rules.  The result carries the cursors, the union of capabilities, and the
  rules and patterns written so far; \<open>done\<close> holds the rules already indexed.\<close>

record index_state =
  ix_rules :: "rule_k list"
  ix_step_cursor :: nat
  ix_port_cursor :: nat
  ix_union_caps :: u32
  ix_patterns :: "ac_pattern list"

fun index_rules :: "step_k list \<Rightarrow> port_k list \<Rightarrow> rule_k list \<Rightarrow> index_state \<Rightarrow> index_error option \<times> index_state" where
  "index_rules steps ports [] ix = (None, ix)"
| "index_rules steps ports (rule # rest) ix =
     (let rule = rule\<lparr>rk_first_step := ix_step_cursor ix\<rparr>; rid = rk_signature_rule_id rule
      in case index_steps steps rid (unat (rk_step_count rule)) 0 (ix_step_cursor ix) JMX_V3_CAP_PROTOCOL_MAPPING of
           Inl (e, cursor) \<Rightarrow>
             (Some e, ix\<lparr>ix_step_cursor := cursor, ix_rules := ix_rules ix @ rule # rest\<rparr>)
         | Inr (cursor, inferred) \<Rightarrow>
             let ix = ix\<lparr>ix_step_cursor := cursor\<rparr>; caps = rk_required_caps rule
             in if caps AND inferred \<noteq> inferred \<or> caps AND NOT jmx_v3_capabilities \<noteq> 0
                then (Some (BadCaps rid), ix\<lparr>ix_rules := ix_rules ix @ rule # rest\<rparr>)
                else let ix = ix\<lparr>ix_union_caps := ix_union_caps ix OR caps\<rparr>;
                         rule = rule\<lparr>rk_first_port := ix_port_cursor ix\<rparr>
                     in case index_ports ports rid (ix_port_cursor ix) (rk_port_count rule) of
                          (err, pcursor, cnt) \<Rightarrow>
                            let rule = rule\<lparr>rk_port_count := cnt\<rparr>; ix = ix\<lparr>ix_port_cursor := pcursor\<rparr>
                            in case err of
                                 Some e \<Rightarrow> (Some e, ix\<lparr>ix_rules := ix_rules ix @ rule # rest\<rparr>)
                               | None \<Rightarrow> index_rules steps ports rest
                                   (ix\<lparr>ix_patterns := ix_patterns ix @
                                         [first_pattern steps (length (ix_rules ix)) (rk_first_step rule)],
                                       ix_rules := ix_rules ix @ [rule]\<rparr>))"

definition bad_reference :: "rule_set \<Rightarrow> index_state \<Rightarrow> outcome" where
  "bad_reference rset ix = (Some EINVAL, JMX_V3_REASON_BAD_REFERENCE,
     (if ix_step_cursor ix \<noteq> length (rs_steps rset) then word_of_nat (ix_step_cursor ix)
      else word_of_nat (ix_port_cursor ix)))"

definition index_set :: "rule_set \<Rightarrow> index_error option \<times> index_state" where
  "index_set rset = index_rules (rs_steps rset) (rs_ports rset) (rs_rules rset)
     \<lparr>ix_rules = [], ix_step_cursor = 0, ix_port_cursor = 0, ix_union_caps = 0, ix_patterns = []\<rparr>"

definition validate_and_index_set :: "kernel_env \<Rightarrow> rule_set \<Rightarrow> outcome \<times> rule_set" where
  "validate_and_index_set env rset =
     (if rule_count rset \<noteq> rs_rule_capacity rset \<or> step_count rset \<noteq> rs_step_capacity rset \<or>
         port_count rset \<noteq> rs_port_capacity rset
      then ((Some EINVAL, JMX_V3_REASON_COUNT_MISMATCH, rule_count rset), rset)
      else if rs_rules rset \<noteq> [] \<and> \<not> alloc_ok env A_PATTERNS
      then ((Some ENOMEM, JMX_V3_REASON_NO_MEMORY, 0), rset)
      else let (err, ix) = index_set rset; rset' = rset\<lparr>rs_rules := ix_rules ix\<rparr>
      in case err of
           Some BadSequence \<Rightarrow>
             ((Some EINVAL, JMX_V3_REASON_STEP_SEQUENCE, word_of_nat (ix_step_cursor ix)), rset')
         | Some BadReference \<Rightarrow> (bad_reference rset ix, rset')
         | Some (BadCaps rid) \<Rightarrow> ((Some EINVAL, JMX_V3_REASON_CAPABILITY, rid), rset')
         | None \<Rightarrow>
             if ix_step_cursor ix \<noteq> length (rs_steps rset) \<or> ix_port_cursor ix \<noteq> length (rs_ports rset)
             then (bad_reference rset ix, rset')
             else if ix_union_caps ix \<noteq> rs_declared_caps rset
             then ((Some EINVAL, JMX_V3_REASON_CAPABILITY, ix_union_caps ix), rset')
             else if rs_rules rset = []
             then ((None, JMX_V3_REASON_NONE, rule_count rset), rset')
             else case jmx_v3_ac_build (alloc_ok env) (ix_patterns ix) of
                    Inl e \<Rightarrow> ((Some e, JMX_V3_REASON_BUILD_FAILED, errno_code e), rset')
                  | Inr (ac, stats) \<Rightarrow>
                      ((None, JMX_V3_REASON_NONE, rule_count rset),
                       rset'\<lparr>rs_ac := Some ac, rs_ac_stats := stats\<rparr>))"

definition jmx_v3_tx_commit :: "kernel_env \<Rightarrow> u32 \<Rightarrow> u32 \<Rightarrow> v3_state \<Rightarrow> outcome \<times> v3_state" where
  "jmx_v3_tx_commit env owner_portid generation st =
     (case check_owner_locked env owner_portid generation False st of
        (Some (err, reason, detail), st) \<Rightarrow> ((Some err, reason, detail), st)
      | (None, st) \<Rightarrow>
          (case validate_and_index_set env (the (tx_set (v3_tx st))) of
             ((Some err, reason, detail), rset) \<Rightarrow> fail_with (err, reason, detail) (set_staged rset st)
           | ((None, reason, detail), rset) \<Rightarrow>
               ((None, reason, detail), st\<lparr>v3_tx := tx_zero, v3_active := Some rset\<rparr>)))"

definition jmx_v3_tx_abort :: "kernel_env \<Rightarrow> u32 \<Rightarrow> u32 \<Rightarrow> v3_state \<Rightarrow> outcome \<times> v3_state" where
  "jmx_v3_tx_abort env owner_portid generation st =
     (case check_owner_locked env owner_portid generation True st of
        (Some (err, reason, detail), st) \<Rightarrow> ((Some err, reason, detail), st)
      | (None, st) \<Rightarrow> ((None, JMX_V3_REASON_NONE, 0), st\<lparr>v3_tx := tx_zero\<rparr>))"

section \<open>Snapshot\<close>

record v3_snapshot =
  sn_capabilities :: u32
  sn_active_generation :: u32
  sn_active_rules :: u32
  sn_active_steps :: u32
  sn_active_ports :: u32
  sn_active_mode :: u32
  sn_active_catalog_digest :: bytes
  sn_staging_generation :: u32
  sn_staging_state :: u32

definition jmx_v3_get_snapshot :: "v3_state \<Rightarrow> v3_snapshot" where
  "jmx_v3_get_snapshot st =
     (let sn = \<lparr>sn_capabilities = jmx_v3_capabilities, sn_active_generation = 0, sn_active_rules = 0,
            sn_active_steps = 0, sn_active_ports = 0, sn_active_mode = 0,
            sn_active_catalog_digest = replicate 32 0, sn_staging_generation = 0, sn_staging_state = 0\<rparr>;
          sn = (case v3_active st of None \<Rightarrow> sn
                | Some a \<Rightarrow> sn\<lparr>sn_active_generation := rs_generation a, sn_active_rules := rule_count a,
                    sn_active_steps := step_count a, sn_active_ports := port_count a,
                    sn_active_mode := rs_mode a, sn_active_catalog_digest := rs_catalog_digest a\<rparr>)
      in if tx_set (v3_tx st) = None then sn
         else sn\<lparr>sn_staging_generation := tx_generation (v3_tx st),
                sn_staging_state := (if tx_failed (v3_tx st) then JMX_V3_STAGING_FAILED
                                     else JMX_V3_STAGING_LOADING)\<rparr>)"

end
