(* ===== verification/V3Tx.thy ===== *)
theory V3Tx
  imports V3Rules
begin

text \<open>
  Correctness of the rule-set transactions: the batch loops as instances of one interface, what an
  accepted record and a published set satisfy, the invariant of every reachable state of the
  module, and the properties of the transaction protocol.
\<close>

section \<open>Batch loops\<close>

text \<open>A loop that converts records one by one, looking at the entries already stored, and stops at the
  first bad one.\<close>

locale staged_append =
  fixes conv :: "'r list \<Rightarrow> 'w \<Rightarrow> (errno \<times> u32) + 'r"
    and app :: "'r list \<Rightarrow> 'w list \<Rightarrow> u32 \<Rightarrow> (errno \<times> u32 \<times> u32) + 'r list"
  assumes app_Nil: "app xs [] at = Inr xs"
    and app_Cons: "app xs (w # ws) at =
      (case conv xs w of Inl (e, reason) \<Rightarrow> Inl (e, reason, at) | Inr x \<Rightarrow> app (xs @ [x]) ws (at + 1))"
begin

lemma app_Inr:
  "app xs ws at = Inr zs \<Longrightarrow> \<exists>ys. zs = xs @ ys \<and> length ys = length ws \<and>
    (\<forall>i < length ws. conv (xs @ take i ys) (ws ! i) = Inr (ys ! i))"
proof (induction ws arbitrary: xs at)
  case (Cons w ws)
  then obtain x where x: "conv xs w = Inr x" "app (xs @ [x]) ws (at + 1) = Inr zs"
    by (auto simp: app_Cons split: sum.splits)
  obtain ys where ys: "zs = (xs @ [x]) @ ys" "length ys = length ws"
    "\<forall>i < length ws. conv ((xs @ [x]) @ take i ys) (ws ! i) = Inr (ys ! i)"
    using Cons.IH [OF x(2)] by blast
  have "conv (xs @ take i (x # ys)) ((w # ws) ! i) = Inr ((x # ys) ! i)" if "i < length (w # ws)" for i
    using that x(1) ys(3) by (cases i) auto
  then show ?case using ys(1,2) by (intro exI [of _ "x # ys"]) simp
qed (simp add: app_Nil)

lemma app_invariant:
  assumes "\<And>xs w x. P xs \<Longrightarrow> conv xs w = Inr x \<Longrightarrow> P (xs @ [x])"
  shows "P xs \<Longrightarrow> app xs ws at = Inr zs \<Longrightarrow> P zs"
proof (induction ws arbitrary: xs at)
  case (Cons w ws)
  then obtain x where x: "conv xs w = Inr x" "app (xs @ [x]) ws (at + 1) = Inr zs"
    by (auto simp: app_Cons split: sum.splits)
  show ?case by (rule Cons.IH [OF assms [OF Cons.prems(1) x(1)] x(2)])
qed (simp add: app_Nil)

lemma app_map:
  assumes "\<And>ys w x. w \<in> set ws \<Longrightarrow> conv ys w = Inr x \<Longrightarrow> x = f w \<and> Q x"
  shows "app xs ws at = Inr zs \<Longrightarrow> zs = xs @ map f ws \<and> list_all Q (map f ws)"
  using assms
proof (induction ws arbitrary: xs at)
  case (Cons w ws)
  then obtain x where x: "conv xs w = Inr x" "app (xs @ [x]) ws (at + 1) = Inr zs"
    by (auto simp: app_Cons split: sum.splits)
  have "x = f w" "Q x" using Cons.prems(2) [OF _ x(1)] by auto
  moreover have "zs = (xs @ [x]) @ map f ws \<and> list_all Q (map f ws)"
    by (rule Cons.IH [OF x(2)]) (rule Cons.prems(2), auto)
  ultimately show ?case by simp
qed (simp add: app_Nil)

lemma app_Inl:
  "app xs ws at = Inl (e, reason, detail) \<Longrightarrow> \<exists>i ys. i < length ws \<and> length ys = i \<and>
    detail = at + word_of_nat i \<and> conv (xs @ ys) (ws ! i) = Inl (e, reason)"
proof (induction ws arbitrary: xs at)
  case (Cons w ws)
  show ?case
  proof (cases "conv xs w")
    case (Inl er)
    then show ?thesis
      using Cons.prems by (intro exI [of _ 0] exI [of _ "[]"]) (auto simp: app_Cons split: prod.splits)
  next
    case (Inr x)
    then obtain i ys where "i < length ws" "length ys = i" "detail = at + 1 + word_of_nat i"
      "conv ((xs @ [x]) @ ys) (ws ! i) = Inl (e, reason)"
      using Cons.IH [of "xs @ [x]" "at + 1"] Cons.prems by (auto simp: app_Cons)
    then show ?thesis by (intro exI [of _ "Suc i"] exI [of _ "x # ys"]) (simp add: add.assoc)
  qed
qed (simp add: app_Nil)

lemma app_complete:
  "(\<forall>i < length ws. conv (xs @ take i ys) (ws ! i) = Inr (ys ! i)) \<Longrightarrow> length ys = length ws \<Longrightarrow>
    app xs ws at = Inr (xs @ ys)"
proof (induction ws arbitrary: xs ys at)
  case (Cons w ws)
  obtain y ys' where ys: "ys = y # ys'" using Cons.prems(2) by (cases ys) auto
  have "conv xs w = Inr y" using Cons.prems(1) ys by (auto dest: spec [of _ 0])
  moreover have "\<forall>i < length ws. conv ((xs @ [y]) @ take i ys') (ws ! i) = Inr (ys' ! i)"
    using Cons.prems(1) ys by (auto dest: spec [of _ "Suc _"])
  ultimately show ?case using Cons.IH [of "xs @ [y]" ys'] Cons.prems(2) ys by (simp add: app_Cons)
qed (simp add: app_Nil)

end

definition rule_conv :: "u32 \<Rightarrow> rule_k list \<Rightarrow> v3_rule_wire \<Rightarrow> (errno \<times> u32) + rule_k" where
  "rule_conv declared rules w =
     (if rule_wire_bad declared rules w then Inl (EINVAL, JMX_V3_REASON_BAD_RECORD) else Inr (rule_of_wire w))"

definition step_conv :: "step_k list \<Rightarrow> v3_step_wire \<Rightarrow> (errno \<times> u32) + step_k" where
  "step_conv steps w = (case valid_step_wire w of
     Inl e \<Rightarrow> Inl (e, if e = EOPNOTSUPP then JMX_V3_REASON_CAPABILITY else JMX_V3_REASON_BAD_RECORD)
   | Inr step \<Rightarrow> if step_out_of_order steps step then Inl (EINVAL, JMX_V3_REASON_STEP_SEQUENCE) else Inr step)"

definition port_conv :: "port_k list \<Rightarrow> v3_port_wire \<Rightarrow> (errno \<times> u32) + port_k" where
  "port_conv ports w =
     (if port_wire_bad ports w then Inl (EINVAL, JMX_V3_REASON_BAD_RECORD) else Inr (port_of_wire w))"

interpretation rules_loop: staged_append "rule_conv d" "append_rules d" for d
  by unfold_locales (simp_all add: rule_conv_def)

interpretation steps_loop: staged_append step_conv append_steps
  by unfold_locales (auto simp: step_conv_def split: sum.splits)

interpretation ports_loop: staged_append port_conv append_ports
  by unfold_locales (simp_all add: port_conv_def)

section \<open>What a stored record satisfies\<close>

definition rule_ok :: "u32 \<Rightarrow> rule_k \<Rightarrow> bool" where
  "rule_ok declared r \<longleftrightarrow> rk_signature_rule_id r \<noteq> 0 \<and> rk_appid r \<noteq> 0 \<and> rk_step_count r \<noteq> 0 \<and>
     rk_step_count r \<le> 64 \<and> rk_proto r \<le> 2 \<and> rk_dir r \<le> 3 \<and> rk_flags r = 0 \<and>
     rk_required_caps r AND NOT declared = 0"

definition step_ok :: "step_k \<Rightarrow> bool" where
  "step_ok s \<longleftrightarrow> sk_signature_rule_id s \<noteq> 0 \<and> 1 \<le> sk_payload_len s \<and> sk_payload_len s \<le> 64 \<and>
     length (sk_payload s) = 64 \<and> sk_condition s = JMX_V3_CONDITION_POSITIVE \<and>
     sk_matcher_type s \<le> 2 \<and>
     sk_case_mode s = (if sk_matcher_type s = JMX_V3_MATCH_LITERAL_NOCASE then JMX_V3_CASE_NOCASE else JMX_V3_CASE_EXACT) \<and>
     (pos_flag (sk_position_flags s) JMX_V3_POS_DEPTH \<longrightarrow> 0 \<le> sint (sk_depth s)) \<and>
     (pos_flag (sk_position_flags s) JMX_V3_POS_OFFSET \<longrightarrow> 0 \<le> sint (sk_offset s)) \<and>
     (sk_step_index s = 0 \<longrightarrow> \<not> pos_flag (sk_position_flags s) (JMX_V3_POS_DISTANCE OR JMX_V3_POS_WITHIN))"

definition port_ok :: "port_k \<Rightarrow> bool" where
  "port_ok p \<longleftrightarrow> pk_signature_rule_id p \<noteq> 0 \<and> 1 \<le> pk_endpoint p \<and> pk_endpoint p \<le> 3 \<and>
     pk_min_port p \<le> pk_max_port p"

lemma word_pos_iff: "(1 :: 'a::len word) \<le> w \<longleftrightarrow> w \<noteq> 0"
  using unat_gt_0 [of w] by (simp add: word_le_nat_alt Suc_le_eq)

lemma rule_conv_ok: "rule_conv d rs w = Inr r \<Longrightarrow> rule_ok d r \<and> r = rule_of_wire w"
  by (auto simp: rule_conv_def rule_wire_bad_def rule_ok_def rule_of_wire_def not_less split: if_splits)

lemma port_conv_ok: "port_conv ps w = Inr p \<Longrightarrow> port_ok p \<and> p = port_of_wire w"
  by (auto simp: port_conv_def port_wire_bad_def port_ok_def port_of_wire_def not_less word_pos_iff split: if_splits)

lemma valid_step_result:
  assumes "valid_step_wire w = Inr s"
  shows "s = step_of_wire w" and "sw_signature_rule_id w \<noteq> 0" and "sw_payload_len w \<noteq> 0"
    and "sw_payload_len w \<le> 64" and "sw_condition w = JMX_V3_CONDITION_POSITIVE"
    and "sw_matcher_type w \<in> {0, 1, 2}"
    and "sw_case_mode w = (if sw_matcher_type w = JMX_V3_MATCH_LITERAL_NOCASE then JMX_V3_CASE_NOCASE else JMX_V3_CASE_EXACT)"
    and "pos_flag (sw_position_flags w) JMX_V3_POS_DEPTH \<longrightarrow> 0 \<le> sint (sw_depth w)"
    and "pos_flag (sw_position_flags w) JMX_V3_POS_OFFSET \<longrightarrow> 0 \<le> sint (sw_offset w)"
    and "sw_step_index w = 0 \<longrightarrow> \<not> pos_flag (sw_position_flags w) (JMX_V3_POS_DISTANCE OR JMX_V3_POS_WITHIN)"
  using assms unfolding valid_step_wire_def Let_def
  by (simp_all add: step_of_wire_def not_less split: if_split_asm)

lemma valid_step_ok:
  assumes "valid_step_wire w = Inr s" and "step_wf w"
  shows "step_ok s" and "s = step_of_wire w"
proof -
  note r = valid_step_result [OF assms(1)]
  have "length (sk_payload s) = 64"
    using r(4) assms(2) by (simp add: r(1) step_of_wire_def step_wf_def word_le_nat_alt)
  moreover have "sw_matcher_type w \<le> 2" using r(6) by auto
  ultimately show "step_ok s"
    using r(2-5,7-) by (simp add: step_ok_def r(1) step_of_wire_def word_pos_iff)
  show "s = step_of_wire w" by (rule r(1))
qed

section \<open>Well-formed sets\<close>

definition step_before :: "step_k \<Rightarrow> step_k \<Rightarrow> bool" where
  "step_before a b \<longleftrightarrow> sk_signature_rule_id a < sk_signature_rule_id b \<or>
     (sk_signature_rule_id a = sk_signature_rule_id b \<and> sk_step_index a < sk_step_index b)"

definition rules_sorted :: "rule_k list \<Rightarrow> bool" where
  "rules_sorted rs \<longleftrightarrow> sorted_wrt (\<lambda>a b. rk_signature_rule_id a < rk_signature_rule_id b) rs"

definition steps_sorted :: "step_k list \<Rightarrow> bool" where
  "steps_sorted ss \<longleftrightarrow> sorted_wrt step_before ss"

definition ports_sorted :: "port_k list \<Rightarrow> bool" where
  "ports_sorted ps \<longleftrightarrow> sorted_wrt (\<lambda>a b. pk_signature_rule_id a \<le> pk_signature_rule_id b) ps"

lemma sorted_wrt_snoc:
  assumes "transp P" and "sorted_wrt P xs" and "xs \<noteq> [] \<longrightarrow> P (last xs) x"
  shows "sorted_wrt P (xs @ [x])"
  using assms(2,3)
proof (induction xs)
  case (Cons y ys)
  then show ?case using assms(1) by (cases ys) (auto dest: transpD)
qed simp

lemma rules_sorted_snoc: "rules_sorted rs \<Longrightarrow> rule_conv d rs w = Inr r \<Longrightarrow> rules_sorted (rs @ [r])"
  unfolding rules_sorted_def
  by (rule sorted_wrt_snoc)
    (auto simp: transp_def rule_conv_def rule_wire_bad_def rule_of_wire_def split: if_splits)

lemma steps_sorted_snoc: "steps_sorted ss \<Longrightarrow> step_conv ss w = Inr s \<Longrightarrow> steps_sorted (ss @ [s])"
  unfolding steps_sorted_def
  by (rule sorted_wrt_snoc)
    (auto simp: transp_def step_before_def step_conv_def step_out_of_order_def not_less not_le
      split: sum.splits if_splits)

lemma ports_sorted_snoc: "ports_sorted ps \<Longrightarrow> port_conv ps w = Inr p \<Longrightarrow> ports_sorted (ps @ [p])"
  unfolding ports_sorted_def
  by (rule sorted_wrt_snoc)
    (auto simp: transp_def port_conv_def port_wire_bad_def port_of_wire_def split: if_splits)

text \<open>What every staged or published set satisfies.\<close>

definition set_ok :: "rule_set \<Rightarrow> bool" where
  "set_ok s \<longleftrightarrow> rs_generation s \<noteq> 0 \<and> rs_mode s \<le> JMX_V3_MODE_ACTIVE \<and>
     rs_rule_capacity s \<le> JMX_V3_MAX_RULES \<and> rs_step_capacity s \<le> JMX_V3_MAX_STEPS \<and>
     rs_port_capacity s \<le> JMX_V3_MAX_PORTS \<and>
     (rs_rule_capacity s = 0 \<longleftrightarrow> rs_mode s = JMX_V3_MODE_OFF) \<and>
     rs_declared_caps s AND NOT jmx_v3_capabilities = 0 \<and> \<not> bytes_zero (rs_catalog_digest s) \<and>
     length (rs_rules s) \<le> unat (rs_rule_capacity s) \<and> length (rs_steps s) \<le> unat (rs_step_capacity s) \<and>
     length (rs_ports s) \<le> unat (rs_port_capacity s) \<and>
     length (rs_match_cnt s) = unat (rs_rule_capacity s) \<and>
     list_all (rule_ok (rs_declared_caps s)) (rs_rules s) \<and> list_all step_ok (rs_steps s) \<and>
     list_all port_ok (rs_ports s) \<and>
     rules_sorted (rs_rules s) \<and> steps_sorted (rs_steps s) \<and> ports_sorted (rs_ports s)"

text \<open>A set that has not been validated yet.\<close>

definition unindexed :: "rule_set \<Rightarrow> bool" where
  "unindexed s \<longleftrightarrow> rs_ac s = None \<and>
     list_all (\<lambda>r. rk_first_step r = 0 \<and> rk_first_port r = 0 \<and> rk_port_count r = 0) (rs_rules s)"

lemma begin_set_ok:
  assumes "\<not> begin_bad flags (bg_expected_rules b) (bg_expected_steps b) (bg_expected_ports b) (bg_required_capabilities b)"
    and "gen \<noteq> 0" and "\<not> bytes_zero (bg_catalog_digest b)"
  shows "set_ok (begin_set gen flags b)" and "unindexed (begin_set gen flags b)"
  using assms
  by (auto simp: set_ok_def unindexed_def begin_set_def begin_bad_def Let_def not_less rules_sorted_def
      steps_sorted_def ports_sorted_def)

text \<open>A batch that passes the capacity test fits.\<close>

lemma batch_fits:
  assumes "length xs \<le> unat cap" and "length ws < 2 ^ 32"
    and "\<not> cap - word_of_nat (length xs) < (word_of_nat (length ws) :: u32)"
  shows "length xs + length ws \<le> unat cap"
proof -
  have "unat cap < 2 ^ 32" using unsigned_less [of cap] by simp
  then have start: "unat (word_of_nat (length xs) :: u32) = length xs"
    using assms(1) by (simp add: unat_word_of_nat)
  have count: "unat (word_of_nat (length ws) :: u32) = length ws"
    using assms(2) by (simp add: unat_word_of_nat)
  have "(word_of_nat (length xs) :: u32) \<le> cap" using assms(1) start by (simp add: word_le_nat_alt)
  then show ?thesis using assms(3) start count by (simp add: not_less word_le_nat_alt unat_sub)
qed

lemma append_rules_ok:
  assumes "append_rules d rs ws at = Inr rs'" and "list_all (rule_ok d) rs" and "rules_sorted rs"
  shows "rs' = rs @ map rule_of_wire ws" and "list_all (rule_ok d) rs'" and "rules_sorted rs'"
proof -
  show eq: "rs' = rs @ map rule_of_wire ws"
    using rules_loop.app_map [where ws = ws and f = rule_of_wire and Q = "rule_ok d", OF _ assms(1)] rule_conv_ok by blast
  have "list_all (rule_ok d) rs' \<and> rules_sorted rs'"
    by (rule rules_loop.app_invariant [where P = "\<lambda>xs. list_all (rule_ok d) xs \<and> rules_sorted xs", OF _ _ assms(1)])
      (use assms rule_conv_ok rules_sorted_snoc in auto)
  then show "list_all (rule_ok d) rs'" and "rules_sorted rs'" by simp_all
qed

lemma append_ports_ok:
  assumes "append_ports ps ws at = Inr ps'" and "list_all port_ok ps" and "ports_sorted ps"
  shows "ps' = ps @ map port_of_wire ws" and "list_all port_ok ps'" and "ports_sorted ps'"
proof -
  show eq: "ps' = ps @ map port_of_wire ws"
    using ports_loop.app_map [of ws "port_of_wire" "port_ok", OF _ assms(1)] port_conv_ok by blast
  have "list_all port_ok ps' \<and> ports_sorted ps'"
    by (rule ports_loop.app_invariant [where P = "\<lambda>xs. list_all port_ok xs \<and> ports_sorted xs", OF _ _ assms(1)])
      (use assms port_conv_ok ports_sorted_snoc in auto)
  then show "list_all port_ok ps'" and "ports_sorted ps'" by simp_all
qed

lemma step_conv_ok: "step_conv ss w = Inr s \<Longrightarrow> step_wf w \<Longrightarrow> step_ok s \<and> s = step_of_wire w"
  by (auto simp: step_conv_def dest: valid_step_ok split: sum.splits if_splits)

lemma append_steps_ok:
  assumes "append_steps ss ws at = Inr ss'" and "list_all step_ok ss" and "steps_sorted ss"
    and "list_all step_wf ws"
  shows "ss' = ss @ map step_of_wire ws" and "list_all step_ok ss'" and "steps_sorted ss'"
proof -
  have "\<And>w. w \<in> set ws \<Longrightarrow> step_wf w" using assms(4) by (simp add: list_all_iff)
  then have "ss' = ss @ map step_of_wire ws \<and> list_all step_ok (map step_of_wire ws)"
    using steps_loop.app_map [of ws step_of_wire step_ok, OF _ assms(1)] step_conv_ok by blast
  then show "ss' = ss @ map step_of_wire ws" and "list_all step_ok ss'" using assms(2) by simp_all
  show "steps_sorted ss'"
    by (rule steps_loop.app_invariant [where P = steps_sorted, OF _ assms(3,1)]) (rule steps_sorted_snoc)
qed

section \<open>Validation\<close>

lemma index_steps_ok:
  "index_steps steps rid left j c caps0 = Inr (c', caps0') \<Longrightarrow> c' = c + left \<and> (left \<noteq> 0 \<longrightarrow> c' \<le> length steps) \<and>
    (\<forall>i < left. sk_signature_rule_id (steps ! (c + i)) = rid \<and> unat (sk_step_index (steps ! (c + i))) = j + i) \<and>
    caps0' = foldl (OR) caps0 (map step_caps (segment steps c left))"
proof (induction left arbitrary: j c caps0)
  case (Suc left)
  have here: "c < length steps" "sk_signature_rule_id (steps ! c) = rid" "unat (sk_step_index (steps ! c)) = j"
    and rest: "index_steps steps rid left (j + 1) (c + 1) (caps0 OR step_caps (steps ! c)) = Inr (c', caps0')"
    using Suc.prems by (auto simp: Let_def split: if_splits)
  have "segment steps c (Suc left) = steps ! c # segment steps (c + 1) left"
    using here(1) by (simp add: segment_def Cons_nth_drop_Suc [symmetric])
  moreover have "sk_signature_rule_id (steps ! (c + i)) = rid \<and> unat (sk_step_index (steps ! (c + i))) = j + i"
    if "i < Suc left" for i
    using Suc.IH [OF rest] here that by (cases i) auto
  ultimately show ?case using Suc.IH [OF rest] here(1) by auto
qed (simp add: segment_def)

lemma index_ports_ok:
  "index_ports ports rid c cnt = (None, c', cnt') \<Longrightarrow> unat cnt \<le> 64 \<Longrightarrow> c \<le> length ports \<Longrightarrow>
    c \<le> c' \<and> c' \<le> length ports \<and> unat cnt' = unat cnt + (c' - c) \<and> unat cnt' \<le> 64 \<and>
    (\<forall>i. c \<le> i \<and> i < c' \<longrightarrow> pk_signature_rule_id (ports ! i) = rid)"
proof (induction ports rid c cnt rule: index_ports.induct)
  case (1 ports rid c cnt)
  show ?case
  proof (cases "c < length ports \<and> pk_signature_rule_id (ports ! c) = rid")
    case True
    then have less: "\<not> 64 \<le> cnt" and rest: "index_ports ports rid (c + 1) (cnt + 1) = (None, c', cnt')"
      using "1.prems"(1) by (auto simp: index_ports.simps [of ports rid c cnt] split: if_splits)
    have small: "unat cnt < 64" using less by (simp add: word_le_nat_alt not_le)
    then have inc: "unat (cnt + 1) = unat cnt + 1" by (simp add: unat_word_ariths)
    have "unat (cnt + 1) \<le> 64" and "c + 1 \<le> length ports" using small inc True by simp_all
    from "1.IH" [OF True less rest this]
    have R: "c + 1 \<le> c' \<and> c' \<le> length ports \<and> unat cnt' = unat (cnt + 1) + (c' - (c + 1)) \<and> unat cnt' \<le> 64 \<and>
        (\<forall>i. c + 1 \<le> i \<and> i < c' \<longrightarrow> pk_signature_rule_id (ports ! i) = rid)" .
    have "pk_signature_rule_id (ports ! i) = rid" if "c \<le> i" "i < c'" for i
      using that R True by (cases "i = c") simp_all
    moreover have "unat cnt' = unat cnt + (c' - c)" using R unfolding inc by arith
    moreover have "c \<le> c'" and "unat cnt' \<le> 64" using R by (arith, blast)
    ultimately show ?thesis using R by blast
  next
    case False
    then show ?thesis using "1.prems" by (auto simp: index_ports.simps [of ports rid c cnt])
  qed
qed

text \<open>The rule's capabilities cover those its steps need, and the engine has them.\<close>

definition caps_cover :: "u32 \<Rightarrow> step_k list \<Rightarrow> bool" where
  "caps_cover caps ss \<longleftrightarrow> (let need = foldl (OR) JMX_V3_CAP_PROTOCOL_MAPPING (map step_caps ss)
     in caps AND need = need) \<and> caps AND NOT jmx_v3_capabilities = 0"

text \<open>The rules after a successful pass: consecutive runs of steps and ports.\<close>

fun indexed :: "step_k list \<Rightarrow> port_k list \<Rightarrow> nat \<Rightarrow> nat \<Rightarrow> rule_k list \<Rightarrow> rule_k list \<Rightarrow> nat \<Rightarrow> nat \<Rightarrow> bool" where
  "indexed steps ports c p [] [] c' p' \<longleftrightarrow> c' = c \<and> p' = p"
| "indexed steps ports c p (r # rs) (r' # rs') c' p' \<longleftrightarrow>
     (\<exists>n. r' = r\<lparr>rk_first_step := c, rk_first_port := p, rk_port_count := n\<rparr> \<and>
       c + unat (rk_step_count r) \<le> length steps \<and>
       (\<forall>j < unat (rk_step_count r). sk_signature_rule_id (steps ! (c + j)) = rk_signature_rule_id r \<and>
          unat (sk_step_index (steps ! (c + j))) = j) \<and>
       caps_cover (rk_required_caps r) (segment steps c (unat (rk_step_count r))) \<and>
       unat n \<le> 64 \<and> p + unat n \<le> length ports \<and>
       (\<forall>j < unat n. pk_signature_rule_id (ports ! (p + j)) = rk_signature_rule_id r) \<and>
       indexed steps ports (c + unat (rk_step_count r)) (p + unat n) rs rs' c' p')"
| "indexed steps ports c p _ _ c' p' \<longleftrightarrow> False"

lemma indexed_length: "indexed steps ports c p rs rs' c' p' \<Longrightarrow> length rs' = length rs"
  by (induction steps ports c p rs rs' c' p' rule: indexed.induct) auto

lemma index_rules_ok:
  "index_rules steps ports rs ix = (None, ix') \<Longrightarrow>
    (\<forall>r \<in> set rs. rk_step_count r \<noteq> 0 \<and> rk_port_count r = 0) \<Longrightarrow> ix_port_cursor ix \<le> length ports \<Longrightarrow>
    \<exists>rs'. ix_rules ix' = ix_rules ix @ rs' \<and>
      indexed steps ports (ix_step_cursor ix) (ix_port_cursor ix) rs rs' (ix_step_cursor ix') (ix_port_cursor ix') \<and>
      ix_patterns ix' = ix_patterns ix @
        map (\<lambda>i. first_pattern steps (length (ix_rules ix) + i) (rk_first_step (rs' ! i))) [0..<length rs'] \<and>
      ix_union_caps ix' = foldl (OR) (ix_union_caps ix) (map rk_required_caps rs)"
proof (induction rs arbitrary: ix)
  case (Cons r rs)
  define r1 where "r1 = r\<lparr>rk_first_step := ix_step_cursor ix\<rparr>"
  obtain c caps0 where st: "index_steps steps (rk_signature_rule_id r) (unat (rk_step_count r)) 0 (ix_step_cursor ix)
      JMX_V3_CAP_PROTOCOL_MAPPING = Inr (c, caps0)"
    using Cons.prems(1) by (auto simp: Let_def split: sum.splits)
  obtain err p n where pt: "index_ports ports (rk_signature_rule_id r) (ix_port_cursor ix) (rk_port_count r) = (err, p, n)"
    by (metis prod_cases3)
  have errN: "err = None"
    using Cons.prems(1) st pt by (auto simp: Let_def split: if_splits option.splits)
  have cover: "rk_required_caps r AND caps0 = caps0" "rk_required_caps r AND NOT jmx_v3_capabilities = 0"
    using Cons.prems(1) st by (auto simp: Let_def split: if_splits)
  define r2 where "r2 = r\<lparr>rk_first_step := ix_step_cursor ix, rk_first_port := ix_port_cursor ix, rk_port_count := n\<rparr>"
  define ix2 where "ix2 = ix\<lparr>ix_step_cursor := c, ix_union_caps := ix_union_caps ix OR rk_required_caps r,
      ix_port_cursor := p,
      ix_patterns := ix_patterns ix @ [first_pattern steps (length (ix_rules ix)) (ix_step_cursor ix)],
      ix_rules := ix_rules ix @ [r2]\<rparr>"
  have rest: "index_rules steps ports rs ix2 = (None, ix')"
    using Cons.prems(1) st pt errN by (simp add: Let_def ix2_def r2_def split: if_splits)
  have r0: "rk_step_count r \<noteq> 0" "rk_port_count r = 0" using Cons.prems(2) by simp_all
  then have k0: "unat (rk_step_count r) \<noteq> 0" by (simp add: unat_eq_0)
  note S = index_steps_ok [OF st] and P = index_ports_ok [OF pt [unfolded errN]]
  have port: "ix_port_cursor ix \<le> p" "p \<le> length ports" "unat n = p - ix_port_cursor ix" "unat n \<le> 64"
    "\<And>i. ix_port_cursor ix \<le> i \<Longrightarrow> i < p \<Longrightarrow> pk_signature_rule_id (ports ! i) = rk_signature_rule_id r"
    using P r0(2) Cons.prems(3) by auto
  obtain rs' where rs': "ix_rules ix' = ix_rules ix2 @ rs'"
    "indexed steps ports c p rs rs' (ix_step_cursor ix') (ix_port_cursor ix')"
    "ix_patterns ix' = ix_patterns ix2 @
        map (\<lambda>i. first_pattern steps (length (ix_rules ix2) + i) (rk_first_step (rs' ! i))) [0..<length rs']"
    "ix_union_caps ix' = foldl (OR) (ix_union_caps ix2) (map rk_required_caps rs)"
    using Cons.IH [OF rest] Cons.prems(2) port(2) by (auto simp: ix2_def)
  have idx: "indexed steps ports (ix_step_cursor ix) (ix_port_cursor ix) (r # rs) (r2 # rs') (ix_step_cursor ix') (ix_port_cursor ix')"
    using S k0 port rs'(2) cover by (auto simp: r2_def caps_cover_def)
  have "map (\<lambda>i. first_pattern steps (length (ix_rules ix) + i) (rk_first_step ((r2 # rs') ! i))) [0..<length (r2 # rs')] =
      first_pattern steps (length (ix_rules ix)) (ix_step_cursor ix) #
      map (\<lambda>i. first_pattern steps (length (ix_rules ix2) + i) (rk_first_step (rs' ! i))) [0..<length rs']"
    by (simp add: upt_conv_Cons map_Suc_upt [symmetric] r2_def ix2_def del: upt_Suc)
  then show ?case
    using rs' idx by (intro exI [of _ "r2 # rs'"]) (simp add: ix2_def)
qed simp

text \<open>Runs with distinct keys that make up a list are its parts with those keys.\<close>

lemma filter_runs:
  assumes "distinct (map key rs)" and "\<forall>r \<in> set rs. \<forall>x \<in> set (run r). k x = key r"
  shows "r \<in> set rs \<Longrightarrow> filter (\<lambda>x. k x = key r) (concat (map run rs)) = run r"
  using assms
proof (induction rs)
  case (Cons q rs)
  have whole: "\<forall>x \<in> set (run q). k x = key q" using Cons.prems(3) by simp
  have other: "filter (\<lambda>x. k x = key a) (concat (map run rs)) = []" if "key a \<notin> key ` set rs" for a
    using that Cons.prems(3) by (auto simp: filter_empty_conv) (metis image_eqI)
  show ?case
  proof (cases "r = q")
    case True
    then show ?thesis using whole other [of q] Cons.prems(2) by (simp add: filter_id_conv)
  next
    case False
    then have "r \<in> set rs" using Cons.prems(1) by simp
    then have "key r \<noteq> key q" using Cons.prems(2) by (auto simp: image_iff)
    then have "filter (\<lambda>x. k x = key r) (run q) = []" using whole by (simp add: filter_empty_conv)
    then show ?thesis using Cons False by simp
  qed
qed simp

definition rule_steps :: "rule_set \<Rightarrow> rule_k \<Rightarrow> step_k list" where
  "rule_steps s r = filter (\<lambda>x. sk_signature_rule_id x = rk_signature_rule_id r) (rs_steps s)"

definition rule_ports :: "rule_set \<Rightarrow> rule_k \<Rightarrow> port_k list" where
  "rule_ports s r = filter (\<lambda>x. pk_signature_rule_id x = rk_signature_rule_id r) (rs_ports s)"

definition rule_linked :: "rule_set \<Rightarrow> rule_k \<Rightarrow> bool" where
  "rule_linked s r \<longleftrightarrow>
     rk_first_step r + unat (rk_step_count r) \<le> length (rs_steps s) \<and>
     segment (rs_steps s) (rk_first_step r) (unat (rk_step_count r)) = rule_steps s r \<and>
     (\<forall>j < unat (rk_step_count r). unat (sk_step_index (rs_steps s ! (rk_first_step r + j))) = j) \<and>
     caps_cover (rk_required_caps r) (rule_steps s r) \<and> unat (rk_port_count r) \<le> 64 \<and>
     rk_first_port r + unat (rk_port_count r) \<le> length (rs_ports s) \<and>
     segment (rs_ports s) (rk_first_port r) (unat (rk_port_count r)) = rule_ports s r"

lemma indexed_runs:
  "indexed steps ports c p rs rs' c' p' \<Longrightarrow> c \<le> length steps \<Longrightarrow> p \<le> length ports \<Longrightarrow>
    drop c steps = concat (map (\<lambda>r. segment steps (rk_first_step r) (unat (rk_step_count r))) rs') @ drop c' steps \<and>
    drop p ports = concat (map (\<lambda>r. segment ports (rk_first_port r) (unat (rk_port_count r))) rs') @ drop p' ports \<and>
    (\<forall>r \<in> set rs'. rk_first_step r + unat (rk_step_count r) \<le> length steps \<and>
       rk_first_port r + unat (rk_port_count r) \<le> length ports \<and> unat (rk_port_count r) \<le> 64 \<and>
       (\<forall>j < unat (rk_step_count r). sk_signature_rule_id (steps ! (rk_first_step r + j)) = rk_signature_rule_id r \<and>
          unat (sk_step_index (steps ! (rk_first_step r + j))) = j) \<and>
       caps_cover (rk_required_caps r) (segment steps (rk_first_step r) (unat (rk_step_count r))) \<and>
       (\<forall>j < unat (rk_port_count r). pk_signature_rule_id (ports ! (rk_first_port r + j)) = rk_signature_rule_id r)) \<and>
    map rk_signature_rule_id rs' = map rk_signature_rule_id rs"
proof (induction steps ports c p rs rs' c' p' rule: indexed.induct)
  case (2 steps ports c p r rs r' rs' c' p')
  then obtain n where r': "r' = r\<lparr>rk_first_step := c, rk_first_port := p, rk_port_count := n\<rparr>"
    and le: "c + unat (rk_step_count r) \<le> length steps" "p + unat n \<le> length ports" "unat n \<le> 64"
    and ids: "\<forall>j < unat (rk_step_count r). sk_signature_rule_id (steps ! (c + j)) = rk_signature_rule_id r \<and>
          unat (sk_step_index (steps ! (c + j))) = j"
        "caps_cover (rk_required_caps r) (segment steps c (unat (rk_step_count r)))"
        "\<forall>j < unat n. pk_signature_rule_id (ports ! (p + j)) = rk_signature_rule_id r"
    and rest: "indexed steps ports (c + unat (rk_step_count r)) (p + unat n) rs rs' c' p'"
    by auto
  have "drop c steps = segment steps c (unat (rk_step_count r)) @ drop (c + unat (rk_step_count r)) steps"
    and "drop p ports = segment ports p (unat n) @ drop (p + unat n) ports"
    using append_take_drop_id [of "unat (rk_step_count r)" "drop c steps"]
      append_take_drop_id [of "unat n" "drop p ports"] by (simp_all add: segment_def add.commute)
  then show ?case using "2.IH" [OF rest] le ids r' by simp
qed auto

lemma segment_keys:
  "i + n \<le> length xs \<Longrightarrow> (\<forall>j < n. P (xs ! (i + j))) \<Longrightarrow> \<forall>x \<in> set (segment xs i n). P x"
  by (auto simp: segment_def in_set_conv_nth)

lemma indexed_linked:
  assumes idx: "indexed (rs_steps s) (rs_ports s) 0 0 rs (rs_rules s) (length (rs_steps s)) (length (rs_ports s))"
    and sorted: "rules_sorted rs" and r: "r \<in> set (rs_rules s)"
  shows "rule_linked s r"
proof -
  note runs = indexed_runs [OF idx le0 le0]
  have "distinct (map rk_signature_rule_id rs)"
    using sorted unfolding rules_sorted_def
    by (induction rs) auto
  then have dist: "distinct (map rk_signature_rule_id (rs_rules s))"
    by (simp only: conjunct2 [OF conjunct2 [OF conjunct2 [OF runs]]])
  have steps: "rs_steps s = concat (map (\<lambda>r. segment (rs_steps s) (rk_first_step r) (unat (rk_step_count r))) (rs_rules s))"
    and ports: "rs_ports s = concat (map (\<lambda>r. segment (rs_ports s) (rk_first_port r) (unat (rk_port_count r))) (rs_rules s))"
    by (rule conjunct1 [OF runs, unfolded drop_0 drop_all [OF order_refl] append_Nil2],
        rule conjunct1 [OF conjunct2 [OF runs], unfolded drop_0 drop_all [OF order_refl] append_Nil2])
  note each = bspec [OF conjunct1 [OF conjunct2 [OF conjunct2 [OF runs]]]]
  have ks: "\<forall>x \<in> set (segment (rs_steps s) (rk_first_step q) (unat (rk_step_count q))).
      sk_signature_rule_id x = rk_signature_rule_id q" if q: "q \<in> set (rs_rules s)" for q
    by (rule segment_keys) (use each [OF q] in blast)+
  have kp: "\<forall>x \<in> set (segment (rs_ports s) (rk_first_port q) (unat (rk_port_count q))).
      pk_signature_rule_id x = rk_signature_rule_id q" if q: "q \<in> set (rs_rules s)" for q
    by (rule segment_keys) (use each [OF q] in blast)+
  have S: "rule_steps s r = segment (rs_steps s) (rk_first_step r) (unat (rk_step_count r))"
    unfolding rule_steps_def
    by (subst steps) (rule filter_runs [OF dist ballI [OF ks] r])
  have P: "rule_ports s r = segment (rs_ports s) (rk_first_port r) (unat (rk_port_count r))"
    unfolding rule_ports_def
    by (subst ports) (rule filter_runs [OF dist ballI [OF kp] r])
  show ?thesis
    unfolding rule_linked_def S P using each [OF r] by blast
qed


text \<open>A published set: complete, linked, with the automaton of its first steps.\<close>

definition set_patterns :: "rule_set \<Rightarrow> ac_pattern list" where
  "set_patterns s = map (\<lambda>i. first_pattern (rs_steps s) i (rk_first_step (rs_rules s ! i))) [0..<length (rs_rules s)]"

definition published_ok :: "rule_set \<Rightarrow> bool" where
  "published_ok s \<longleftrightarrow> set_ok s \<and> rule_count s = rs_rule_capacity s \<and> step_count s = rs_step_capacity s \<and>
     port_count s = rs_port_capacity s \<and> (\<forall>r \<in> set (rs_rules s). rule_linked s r) \<and>
     foldl (OR) 0 (map rk_required_caps (rs_rules s)) = rs_declared_caps s \<and>
     (rs_rules s = [] \<longrightarrow> rs_ac s = None) \<and>
     (rs_rules s \<noteq> [] \<longrightarrow> (\<exists>mem ac. rs_ac s = Some ac \<and> ac_of mem (set_patterns s) = Some ac))"

lemma indexed_rules:
  "indexed steps ports c p rs rs' c' p' \<Longrightarrow>
    list_all2 (\<lambda>r r'. \<exists>i j n. r' = r\<lparr>rk_first_step := i, rk_first_port := j, rk_port_count := n\<rparr>) rs rs'"
  by (induction steps ports c p rs rs' c' p' rule: indexed.induct) auto

lemma indexed_keeps:
  assumes "indexed steps ports c p rs rs' c' p'"
  shows "rules_sorted rs' \<longleftrightarrow> rules_sorted rs" and "list_all (rule_ok d) rs' \<longleftrightarrow> list_all (rule_ok d) rs"
    and "map rk_required_caps rs' = map rk_required_caps rs"
    and "map rk_signature_rule_id rs' = map rk_signature_rule_id rs"
proof -
  note each = indexed_rules [OF assms]
  show caps: "map rk_required_caps rs' = map rk_required_caps rs"
    using each by (induction rs rs' rule: list_all2_induct) auto
  show ids: "map rk_signature_rule_id rs' = map rk_signature_rule_id rs"
    using each by (induction rs rs' rule: list_all2_induct) auto
  have "rules_sorted xs \<longleftrightarrow> sorted_wrt (<) (map rk_signature_rule_id xs)" for xs
    by (simp add: rules_sorted_def sorted_wrt_map)
  then show "rules_sorted rs' \<longleftrightarrow> rules_sorted rs" by (simp add: ids)
  show "list_all (rule_ok d) rs' \<longleftrightarrow> list_all (rule_ok d) rs"
    using each by (induction rs rs' rule: list_all2_induct) (auto simp: rule_ok_def)
qed

lemma validate_ok:
  assumes ok: "set_ok s" "unindexed s"
    and val: "validate_and_index_set env s = ((None, reason, detail), s')"
  shows "\<exists>rs' ac stats. s' = s\<lparr>rs_rules := rs', rs_ac := ac, rs_ac_stats := stats\<rparr> \<and>
     indexed (rs_steps s) (rs_ports s) 0 0 (rs_rules s) rs' (length (rs_steps s)) (length (rs_ports s)) \<and>
     published_ok s'"
proof -
  define ix0 where "ix0 = \<lparr>ix_rules = [], ix_step_cursor = 0, ix_port_cursor = 0, ix_union_caps = 0, ix_patterns = []\<rparr>"
  obtain err ix where ix: "index_set s = (err, ix)" by fastforce
  have cnt: "rule_count s = rs_rule_capacity s" "step_count s = rs_step_capacity s" "port_count s = rs_port_capacity s"
    and err: "err = None" and cur: "ix_step_cursor ix = length (rs_steps s)" "ix_port_cursor ix = length (rs_ports s)"
    and caps0: "ix_union_caps ix = rs_declared_caps s"
    using val
    by (auto simp: validate_and_index_set_def ix bad_reference_def Let_def split: if_splits option.splits index_error.splits)
  have run: "index_rules (rs_steps s) (rs_ports s) (rs_rules s) ix0 = (None, ix)"
    using ix err by (simp add: index_set_def ix0_def)
  have fresh: "\<forall>r \<in> set (rs_rules s). rk_step_count r \<noteq> 0 \<and> rk_port_count r = 0"
    using ok by (auto simp: set_ok_def unindexed_def list_all_iff rule_ok_def)
  obtain rs' where rs': "ix_rules ix = rs'" "indexed (rs_steps s) (rs_ports s) 0 0 (rs_rules s) rs' (length (rs_steps s)) (length (rs_ports s))"
    "ix_patterns ix = map (\<lambda>i. first_pattern (rs_steps s) i (rk_first_step (rs' ! i))) [0..<length rs']"
    "ix_union_caps ix = foldl (OR) 0 (map rk_required_caps (rs_rules s))"
    using index_rules_ok [OF run fresh] cur by (auto simp: ix0_def)
  note keep = indexed_keeps [OF rs'(2)] and len = indexed_length [OF rs'(2)]
  have none: "rs_ac s = None" using ok(2) by (simp add: unindexed_def)
  obtain ac stats where s': "s' = s\<lparr>rs_rules := rs', rs_ac := ac, rs_ac_stats := stats\<rparr>"
    and ac: "rs' = [] \<longrightarrow> ac = None"
      "rs' \<noteq> [] \<longrightarrow> (\<exists>a. ac = Some a \<and> ac_of (alloc_ok env) (ix_patterns ix) = Some a)"
  proof (cases "rs_rules s = []")
    case True
    then have "s' = s\<lparr>rs_rules := rs'\<rparr>"
      using val ix err cnt cur caps0 rs'(1) by (simp add: validate_and_index_set_def Let_def)
    also have "\<dots> = s\<lparr>rs_rules := rs', rs_ac := rs_ac s, rs_ac_stats := rs_ac_stats s\<rparr>" by (cases s) simp
    finally have "s' = s\<lparr>rs_rules := rs', rs_ac := None, rs_ac_stats := rs_ac_stats s\<rparr>" unfolding none .
    from that [OF this] show ?thesis using len True by simp
  next
    case False
    then obtain a st where b: "jmx_v3_ac_build (alloc_ok env) (ix_patterns ix) = Inr (a, st)"
      and "s' = s\<lparr>rs_rules := rs', rs_ac := Some a, rs_ac_stats := st\<rparr>"
      using val ix err cnt cur caps0 rs'(1)
      by (auto simp: validate_and_index_set_def Let_def split: if_splits sum.splits)
    moreover have "rs' \<noteq> []" using False len by auto
    ultimately show ?thesis using that [of st "Some a"] by (auto simp: ac_of_Some)
  qed
  have "set_ok s'" using ok(1) keep(1,2) len by (simp add: set_ok_def s')
  moreover have "\<forall>r \<in> set (rs_rules s'). rule_linked s' r"
    using ok(1) rs'(2) by (auto simp: s' set_ok_def intro!: indexed_linked)
  moreover have "rs_rules s' \<noteq> [] \<longrightarrow> (\<exists>mem ac. rs_ac s' = Some ac \<and> ac_of mem (set_patterns s') = Some ac)"
    using ac(2) by (auto simp: s' set_patterns_def rs'(3))
  ultimately have "published_ok s'"
    using cnt caps0 rs'(4) keep(3) len ac(1)
    by (simp add: published_ok_def s' rule_count_def step_count_def port_count_def)
  then show ?thesis using s' rs'(2) by blast
qed


section \<open>The invariant of the module state\<close>

definition staged_ok :: "v3_state \<Rightarrow> rule_set \<Rightarrow> bool" where
  "staged_ok st s \<longleftrightarrow> (let tx = v3_tx st in
     tx_owner_portid tx \<noteq> 0 \<and> tx_generation tx \<noteq> 0 \<and> rs_generation s = tx_generation tx \<and>
     v3_expire_due st = Some (tx_deadline tx) \<and>
     (if tx_failed tx then tx_failed_reason tx \<noteq> 0 else set_ok s \<and> unindexed s) \<and>
     (\<forall>a. v3_active st = Some a \<longrightarrow> rs_generation a \<noteq> tx_generation tx))"

definition v3_inv :: "v3_state \<Rightarrow> bool" where
  "v3_inv st \<longleftrightarrow>
     (case tx_set (v3_tx st) of None \<Rightarrow> v3_tx st = tx_zero | Some s \<Rightarrow> v3_running st \<and> staged_ok st s) \<and>
     (case v3_active st of None \<Rightarrow> True | Some a \<Rightarrow> v3_running st \<and> published_ok a)"

lemma v3_inv_init: "v3_inv jmx_v3_rules_init"
  by (simp add: v3_inv_def jmx_v3_rules_init_def tx_zero_def)

lemma v3_inv_exit: "v3_inv (jmx_v3_rules_exit st)"
  by (simp add: v3_inv_def jmx_v3_rules_exit_def tx_zero_def Let_def)

lemma tx_zero_set [simp]: "tx_set tx_zero = None"
  by (simp add: tx_zero_def)

lemma v3_inv_dropped: "v3_inv st \<Longrightarrow> v3_inv (st\<lparr>v3_tx := tx_zero\<rparr>)"
  by (simp add: v3_inv_def split: option.splits)

lemma v3_inv_work: "v3_inv st \<Longrightarrow> v3_inv (v3_expire_work_fn env st)"
  by (auto simp: v3_inv_def v3_expire_work_fn_def Let_def staged_ok_def split: option.splits)

lemma v3_inv_expire: "v3_inv st \<Longrightarrow> v3_inv (expire_staging_locked env st)"
  by (simp add: expire_staging_locked_def v3_inv_dropped)

text \<open>What the owner check promises: on an error at most an expired transaction is gone, on success
  nothing is changed and the caller owns a live transaction of that generation.\<close>

lemma check_owner_ok:
  assumes "check_owner_locked env owner gen allow st = (None, st')"
  obtains s where "st' = st" and "v3_running st" and "tx_set (v3_tx st) = Some s"
    and "tx_owner_portid (v3_tx st) = owner" and "tx_generation (v3_tx st) = gen" and "rs_generation s = gen"
    and "\<not> time_after_eq (jiffies env) (tx_deadline (v3_tx st))" and "tx_failed (v3_tx st) \<longrightarrow> allow"
  using assms
  by (auto simp: check_owner_locked_def expire_staging_locked_def Let_def split: if_splits option.splits)

lemma check_owner_err:
  "check_owner_locked env owner gen allow st = (Some e, st') \<Longrightarrow> st' = st \<or> st' = expire_staging_locked env st"
  by (auto simp: check_owner_locked_def Let_def split: if_splits option.splits)

lemma check_owner_inv: "v3_inv st \<Longrightarrow> v3_inv (snd (check_owner_locked env owner gen allow st))"
  by (cases "check_owner_locked env owner gen allow st"; cases "fst (check_owner_locked env owner gen allow st)")
    (auto dest: check_owner_err elim!: check_owner_ok simp: v3_inv_expire)

lemma v3_inv_fail: "v3_inv st \<Longrightarrow> v3_inv (fail_transaction_locked reason detail st)"
  by (auto simp: v3_inv_def fail_transaction_locked_def Let_def staged_ok_def split: option.splits)

lemma v3_inv_fail_with: "v3_inv st \<Longrightarrow> v3_inv (snd (fail_with e st))"
  by (cases e) (simp add: fail_with_def v3_inv_fail)

lemma v3_inv_tx_fail: "v3_inv st \<Longrightarrow> v3_inv (jmx_v3_tx_fail env owner gen reason detail st)"
  using check_owner_inv [of st env owner gen True]
  by (auto simp: jmx_v3_tx_fail_def v3_inv_fail split: prod.splits option.splits)

lemma v3_inv_abort: "v3_inv st \<Longrightarrow> v3_inv (snd (jmx_v3_tx_abort env owner gen st))"
  using check_owner_inv [of st env owner gen True]
  by (auto simp: jmx_v3_tx_abort_def v3_inv_dropped split: prod.splits option.splits)

text \<open>Growing the staged set and renewing the deadline.\<close>

lemma v3_inv_staged:
  assumes "v3_inv st" and "tx_set (v3_tx st) = Some s" and "\<not> tx_failed (v3_tx st)"
    and "rs_generation s' = rs_generation s" and "set_ok s'" and "unindexed s'"
  shows "v3_inv (renew_transaction_locked env (set_staged s' st))"
  using assms by (auto simp: v3_inv_def staged_ok_def renew_transaction_locked_def set_staged_def Let_def
      split: option.splits)

lemma v3_inv_live:
  "v3_inv st \<Longrightarrow> tx_set (v3_tx st) = Some s \<Longrightarrow> \<not> tx_failed (v3_tx st) \<Longrightarrow> set_ok s \<and> unindexed s"
  by (simp add: v3_inv_def staged_ok_def Let_def)

lemma grown_rules_ok:
  assumes "set_ok s" and "unindexed s" and "append_rules (rs_declared_caps s) (rs_rules s) ws at = Inr rs'"
    and "\<not> rs_rule_capacity s - rule_count s < (word_of_nat (length ws) :: u32)" and "length ws < 2 ^ 32"
  shows "set_ok (s\<lparr>rs_rules := rs'\<rparr>)" and "unindexed (s\<lparr>rs_rules := rs'\<rparr>)"
proof -
  have "list_all (rule_ok (rs_declared_caps s)) (rs_rules s)" and "rules_sorted (rs_rules s)"
    using assms(1) by (simp_all add: set_ok_def)
  note A = append_rules_ok [OF assms(3) this]
  have "length (rs_rules s) + length ws \<le> unat (rs_rule_capacity s)"
    using assms(1,4,5) by (intro batch_fits) (simp_all add: set_ok_def rule_count_def)
  then show "set_ok (s\<lparr>rs_rules := rs'\<rparr>)" using assms(1) A by (simp add: set_ok_def)
  show "unindexed (s\<lparr>rs_rules := rs'\<rparr>)"
    using assms(2) A(1) by (auto simp: unindexed_def list_all_iff rule_of_wire_def)
qed

lemma grown_steps_ok:
  assumes "set_ok s" and "append_steps (rs_steps s) ws at = Inr ss'" and "list_all step_wf ws"
    and "\<not> rs_step_capacity s - step_count s < (word_of_nat (length ws) :: u32)" and "length ws < 2 ^ 32"
  shows "set_ok (s\<lparr>rs_steps := ss'\<rparr>)"
proof -
  have "list_all step_ok (rs_steps s)" and "steps_sorted (rs_steps s)"
    using assms(1) by (simp_all add: set_ok_def)
  note A = append_steps_ok [OF assms(2) this assms(3)]
  have "length (rs_steps s) + length ws \<le> unat (rs_step_capacity s)"
    using assms(1,4,5) by (intro batch_fits) (simp_all add: set_ok_def step_count_def)
  then show "set_ok (s\<lparr>rs_steps := ss'\<rparr>)" using assms(1) A by (simp add: set_ok_def)
qed

lemma grown_ports_ok:
  assumes "set_ok s" and "append_ports (rs_ports s) ws at = Inr ps'"
    and "\<not> rs_port_capacity s - port_count s < (word_of_nat (length ws) :: u32)" and "length ws < 2 ^ 32"
  shows "set_ok (s\<lparr>rs_ports := ps'\<rparr>)"
proof -
  have "list_all port_ok (rs_ports s)" and "ports_sorted (rs_ports s)"
    using assms(1) by (simp_all add: set_ok_def)
  note A = append_ports_ok [OF assms(2) this]
  have "length (rs_ports s) + length ws \<le> unat (rs_port_capacity s)"
    using assms(1,3,4) by (intro batch_fits) (simp_all add: set_ok_def port_count_def)
  then show "set_ok (s\<lparr>rs_ports := ps'\<rparr>)" using assms(1) A by (simp add: set_ok_def)
qed


lemma v3_inv_add_rules:
  assumes "v3_inv st" and "length ws < 2 ^ 32"
  shows "v3_inv (snd (jmx_v3_tx_add_rules env owner gen ws st))"
proof (cases "check_owner_locked env owner gen False st")
  case (Pair e st')
  show ?thesis
  proof (cases e)
    case None
    then obtain s where s: "st' = st" "tx_set (v3_tx st) = Some s" "\<not> tx_failed (v3_tx st)"
      using Pair by (auto elim!: check_owner_ok)
    have ok: "set_ok s" "unindexed s" using v3_inv_live [OF assms(1) s(2,3)] by auto
    show ?thesis
      using assms(1) None Pair s
      by (auto simp: jmx_v3_tx_add_rules_def Let_def v3_inv_fail_with split: sum.split
          intro!: v3_inv_staged grown_rules_ok [OF ok _ _ assms(2)])
  next
    case (Some a)
    then show ?thesis
      using check_owner_inv [OF assms(1), of env owner gen False] Pair
      by (cases a) (simp add: jmx_v3_tx_add_rules_def)
  qed
qed

lemma v3_inv_add_steps:
  assumes "v3_inv st" and "length ws < 2 ^ 32" and "list_all step_wf ws"
  shows "v3_inv (snd (jmx_v3_tx_add_steps env owner gen ws st))"
proof (cases "check_owner_locked env owner gen False st")
  case (Pair e st')
  show ?thesis
  proof (cases e)
    case None
    then obtain s where s: "st' = st" "tx_set (v3_tx st) = Some s" "\<not> tx_failed (v3_tx st)"
      using Pair by (auto elim!: check_owner_ok)
    have ok: "set_ok s" "unindexed s" using v3_inv_live [OF assms(1) s(2,3)] by auto
    then have un: "unindexed (s\<lparr>rs_steps := xs\<rparr>)" for xs by (simp add: unindexed_def)
    show ?thesis
      using assms(1) None Pair s un
      by (auto simp: jmx_v3_tx_add_steps_def Let_def v3_inv_fail_with split: sum.split
          intro!: v3_inv_staged grown_steps_ok [OF ok(1) _ assms(3) _ assms(2)])
  next
    case (Some a)
    then show ?thesis
      using check_owner_inv [OF assms(1), of env owner gen False] Pair
      by (cases a) (simp add: jmx_v3_tx_add_steps_def)
  qed
qed

lemma v3_inv_add_ports:
  assumes "v3_inv st" and "length ws < 2 ^ 32"
  shows "v3_inv (snd (jmx_v3_tx_add_ports env owner gen ws st))"
proof (cases "check_owner_locked env owner gen False st")
  case (Pair e st')
  show ?thesis
  proof (cases e)
    case None
    then obtain s where s: "st' = st" "tx_set (v3_tx st) = Some s" "\<not> tx_failed (v3_tx st)"
      using Pair by (auto elim!: check_owner_ok)
    have ok: "set_ok s" "unindexed s" using v3_inv_live [OF assms(1) s(2,3)] by auto
    then have un: "unindexed (s\<lparr>rs_ports := xs\<rparr>)" for xs by (simp add: unindexed_def)
    show ?thesis
      using assms(1) None Pair s un
      by (auto simp: jmx_v3_tx_add_ports_def Let_def v3_inv_fail_with split: sum.split
          intro!: v3_inv_staged grown_ports_ok [OF ok(1) _ _ assms(2)])
  next
    case (Some a)
    then show ?thesis
      using check_owner_inv [OF assms(1), of env owner gen False] Pair
      by (cases a) (simp add: jmx_v3_tx_add_ports_def)
  qed
qed

lemma begin_cases:
  fixes env owner gen b flags st
  defines "e \<equiv> expire_staging_locked env st"
  obtains "snd (jmx_v3_tx_begin env owner gen (Some b) flags st) \<in> {st, e}"
  | "owner \<noteq> 0" "gen \<noteq> 0" "\<not> bytes_zero (bg_catalog_digest b)"
    "\<not> begin_bad flags (bg_expected_rules b) (bg_expected_steps b) (bg_expected_ports b) (bg_required_capabilities b)"
    "v3_running st" "tx_set (v3_tx e) = None" "\<forall>a. v3_active e = Some a \<longrightarrow> rs_generation a \<noteq> gen"
    "jmx_v3_tx_begin env owner gen (Some b) flags st = ((None, 0, 0), renew_transaction_locked env
       (e\<lparr>v3_tx := (v3_tx e)\<lparr>tx_owner_portid := owner, tx_generation := gen,
          tx_started := jiffies env, tx_set := Some (begin_set gen flags b)\<rparr>\<rparr>))"
proof (cases "owner \<noteq> 0 \<and> gen \<noteq> 0 \<and> \<not> bytes_zero (bg_catalog_digest b) \<and>
    \<not> begin_bad flags (bg_expected_rules b) (bg_expected_steps b) (bg_expected_ports b) (bg_required_capabilities b) \<and>
    \<not> begin_alloc_fails env b \<and> v3_running st \<and> tx_set (v3_tx e) = None \<and>
    (\<forall>a. v3_active e = Some a \<longrightarrow> rs_generation a \<noteq> gen)")
  case True
  then show ?thesis
    by (intro that(2)) (auto simp: jmx_v3_tx_begin_def Let_def e_def [symmetric] split: option.split)
next
  case False
  then have "snd (jmx_v3_tx_begin env owner gen (Some b) flags st) \<in> {st, e}"
    unfolding jmx_v3_tx_begin_def Let_def option.case e_def [symmetric]
    by (auto split: option.split)
  then show ?thesis by (rule that(1))
qed

lemma v3_inv_begin: "v3_inv st \<Longrightarrow> v3_inv (snd (jmx_v3_tx_begin env owner gen wire flags st))"
proof (cases wire)
  case (Some b)
  define e where "e = expire_staging_locked env st"
  assume inv: "v3_inv st"
  then have inv': "v3_inv e" unfolding e_def by (rule v3_inv_expire)
  have run: "v3_running e = v3_running st" by (simp add: e_def expire_staging_locked_def)
  show ?thesis
    unfolding Some
  proof (cases rule: begin_cases [of env owner gen b flags st])
    case 1
    then show "v3_inv (snd (jmx_v3_tx_begin env owner gen (Some b) flags st))"
      using inv inv' by (auto simp: e_def)
  next
    case 2
    have zero: "v3_tx e = tx_zero" using inv' 2(6) by (simp add: v3_inv_def e_def)
    have ok: "set_ok (begin_set gen flags b)" "unindexed (begin_set gen flags b)"
      using begin_set_ok 2 by auto
    have gen: "rs_generation (begin_set gen flags b) = gen" by (simp add: begin_set_def)
    show "v3_inv (snd (jmx_v3_tx_begin env owner gen (Some b) flags st))"
      unfolding 2(8) e_def [symmetric] snd_conv
      using inv' zero ok gen run 2(1,2,5,7) unfolding e_def [symmetric]
      by (simp add: renew_transaction_locked_def v3_inv_def staged_ok_def tx_zero_def Let_def split: option.splits)
  qed
qed (simp add: jmx_v3_tx_begin_def)

text \<open>A validation that fails leaves the generation as it was, and so a failed transaction.\<close>

lemma validate_generation: "validate_and_index_set env s = (oc, s') \<Longrightarrow> rs_generation s' = rs_generation s"
  by (auto simp: validate_and_index_set_def Let_def split: if_splits option.splits index_error.splits sum.splits prod.splits)

lemma v3_inv_commit: "v3_inv st \<Longrightarrow> v3_inv (snd (jmx_v3_tx_commit env owner gen st))"
proof (cases "check_owner_locked env owner gen False st")
  case (Pair e st')
  assume inv: "v3_inv st"
  show ?thesis
  proof (cases e)
    case None
    then obtain s where s: "st' = st" "v3_running st" "tx_set (v3_tx st) = Some s" "\<not> tx_failed (v3_tx st)"
      using Pair by (auto elim!: check_owner_ok)
    obtain rc reason detail s' where val: "validate_and_index_set env s = ((rc, reason, detail), s')"
      by (metis prod_cases4 prod.collapse)
    show ?thesis
    proof (cases rc)
      case None
      then have "published_ok s'" using validate_ok v3_inv_live [OF inv s(3,4)] val by blast
      then show ?thesis using Pair s val None \<open>e = None\<close> by (simp add: jmx_v3_tx_commit_def v3_inv_def)
    next
      case (Some err)
      have "v3_inv (fail_transaction_locked reason detail (set_staged s' st))"
        using inv s validate_generation [OF val]
        by (auto simp: v3_inv_def staged_ok_def fail_transaction_locked_def set_staged_def Let_def split: option.splits)
      then show ?thesis using Pair s val Some \<open>e = None\<close> by (simp add: jmx_v3_tx_commit_def fail_with_def)
    qed
  next
    case (Some a)
    then show ?thesis
      using check_owner_inv [OF inv, of env owner gen False] Pair
      by (cases a) (simp add: jmx_v3_tx_commit_def)
  qed
qed

lemmas v3_inv_ops = v3_inv_begin v3_inv_add_rules v3_inv_add_steps v3_inv_add_ports v3_inv_commit v3_inv_abort
  v3_inv_tx_fail v3_inv_work v3_inv_exit v3_inv_init

end
