(* ===== verification/V3Commit.thy ===== *)
theory V3Commit
  imports V3Tx
begin

text \<open>
  When a commit succeeds: the validation of \<open>jmx_v3_rules.c\<close> against a declarative description of a
  complete catalogue, and the properties of the transaction protocol.
\<close>

section \<open>Complete catalogues\<close>

text \<open>A rule of a complete catalogue: its steps are numbered from 0 to its count, it has at most 64
  ports, and it declares what its steps need.\<close>

definition rule_complete :: "rule_set \<Rightarrow> rule_k \<Rightarrow> bool" where
  "rule_complete s r \<longleftrightarrow>
     map (unat \<circ> sk_step_index) (rule_steps s r) = [0..<unat (rk_step_count r)] \<and>
     length (rule_ports s r) \<le> 64 \<and> caps_cover (rk_required_caps r) (rule_steps s r)"

definition catalog_complete :: "rule_set \<Rightarrow> bool" where
  "catalog_complete s \<longleftrightarrow>
     rule_count s = rs_rule_capacity s \<and> step_count s = rs_step_capacity s \<and> port_count s = rs_port_capacity s \<and>
     sk_signature_rule_id ` set (rs_steps s) \<subseteq> rk_signature_rule_id ` set (rs_rules s) \<and>
     pk_signature_rule_id ` set (rs_ports s) \<subseteq> rk_signature_rule_id ` set (rs_rules s) \<and>
     (\<forall>r \<in> set (rs_rules s). rule_complete s r) \<and>
     foldl (OR) 0 (map rk_required_caps (rs_rules s)) = rs_declared_caps s"

subsection \<open>The passes succeed on complete runs\<close>

lemma index_steps_complete:
  "c + left \<le> length steps \<Longrightarrow>
    (\<forall>i < left. sk_signature_rule_id (steps ! (c + i)) = rid \<and> unat (sk_step_index (steps ! (c + i))) = j + i) \<Longrightarrow>
    index_steps steps rid left j c caps0 = Inr (c + left, foldl (OR) caps0 (map step_caps (segment steps c left)))"
proof (induction left arbitrary: j c caps0)
  case (Suc left)
  have "segment steps c (Suc left) = steps ! c # segment steps (c + 1) left"
    using Suc.prems(1) by (simp add: segment_def Cons_nth_drop_Suc [symmetric])
  moreover have "\<forall>i < left. sk_signature_rule_id (steps ! (c + 1 + i)) = rid \<and>
      unat (sk_step_index (steps ! (c + 1 + i))) = j + 1 + i"
    using Suc.prems(2) by (auto dest: spec [of _ "Suc _"])
  ultimately show ?case
    using Suc.IH [of "c + 1" "j + 1"] Suc.prems by (auto dest: spec [of _ 0] simp: Let_def)
qed (simp add: segment_def)

lemma index_ports_complete:
  "c + n \<le> length ports \<Longrightarrow> (\<forall>i < n. pk_signature_rule_id (ports ! (c + i)) = rid) \<Longrightarrow>
    (c + n < length ports \<longrightarrow> pk_signature_rule_id (ports ! (c + n)) \<noteq> rid) \<Longrightarrow> unat cnt + n \<le> 64 \<Longrightarrow>
    index_ports ports rid c cnt = (None, c + n, cnt + word_of_nat n)"
proof (induction n arbitrary: c cnt)
  case 0
  then show ?case by (auto simp: index_ports.simps [of ports rid c cnt])
next
  case (Suc n)
  have "\<not> 64 \<le> cnt" using Suc.prems(4) by (simp add: word_le_nat_alt)
  moreover have "unat (cnt + 1) = unat cnt + 1" using Suc.prems(4) by (simp add: unat_word_ariths)
  moreover have "\<forall>i < n. pk_signature_rule_id (ports ! (c + 1 + i)) = rid"
    using Suc.prems(2) by (auto dest: spec [of _ "Suc _"])
  ultimately show ?case
    using Suc.IH [of "c + 1" "cnt + 1"] Suc.prems
    by (auto dest: spec [of _ 0] simp: index_ports.simps [of ports rid c cnt])
qed

lemma index_rules_complete:
  assumes "\<forall>r \<in> set rs. rk_step_count r \<noteq> 0 \<and> rk_port_count r = 0 \<and>
      length (srun r) = unat (rk_step_count r) \<and>
      (\<forall>i < length (srun r). sk_signature_rule_id (srun r ! i) = rk_signature_rule_id r \<and> unat (sk_step_index (srun r ! i)) = i) \<and>
      (\<forall>p \<in> set (prun r). pk_signature_rule_id p = rk_signature_rule_id r) \<and> length (prun r) \<le> 64 \<and>
      caps_cover (rk_required_caps r) (srun r)"
    and "distinct (map rk_signature_rule_id rs)"
    and "drop (ix_step_cursor ix) steps = concat (map srun rs)" and "ix_step_cursor ix \<le> length steps"
    and "drop (ix_port_cursor ix) ports = concat (map prun rs)" and "ix_port_cursor ix \<le> length ports"
  shows "\<exists>ix'. index_rules steps ports rs ix = (None, ix') \<and>
    ix_step_cursor ix' = length steps \<and> ix_port_cursor ix' = length ports"
  using assms
proof (induction rs arbitrary: ix)
  case Nil
  then show ?case by simp
next
  case (Cons r rs)
  define c p where "c = ix_step_cursor ix" and "p = ix_port_cursor ix"
  define n m where "n = length (srun r)" and "m = length (prun r)"
  have cur: "drop c steps = srun r @ concat (map srun rs)" "drop p ports = prun r @ concat (map prun rs)"
    using Cons.prems(3,5) by (simp_all add: c_def p_def)
  have le: "c + n \<le> length steps" "p + m \<le> length ports"
    using arg_cong [OF cur(1), of length] arg_cong [OF cur(2), of length] Cons.prems(4,6)
    by (simp_all add: n_def m_def c_def p_def)
  have at: "steps ! (c + i) = srun r ! i" if "i < n" for i
    using that le arg_cong [OF cur(1), of "\<lambda>xs. xs ! i"] by (simp add: n_def nth_append)
  have pat: "ports ! (p + i) = prun r ! i" if "i < m" for i
    using that le arg_cong [OF cur(2), of "\<lambda>xs. xs ! i"] by (simp add: m_def nth_append)
  have rest: "drop (c + n) steps = concat (map srun rs)" "drop (p + m) ports = concat (map prun rs)"
    using cur by (simp_all add: n_def m_def add.commute [of c] add.commute [of p] flip: drop_drop)
  have seg: "segment steps c n = srun r" by (simp add: segment_def cur(1) n_def)
  have r: "rk_step_count r \<noteq> 0" "rk_port_count r = 0" "n = unat (rk_step_count r)" "m \<le> 64"
    "caps_cover (rk_required_caps r) (srun r)"
    using Cons.prems(1) by (simp_all add: n_def m_def)
  have st: "index_steps steps (rk_signature_rule_id r) n 0 c JMX_V3_CAP_PROTOCOL_MAPPING =
      Inr (c + n, foldl (OR) JMX_V3_CAP_PROTOCOL_MAPPING (map step_caps (srun r)))"
    unfolding seg [symmetric] by (rule index_steps_complete [OF le(1)]) (use at Cons.prems(1) in \<open>simp add: n_def\<close>)
  have past: "pk_signature_rule_id (ports ! (p + m)) \<noteq> rk_signature_rule_id r" if "p + m < length ports"
  proof -
    have "ports ! (p + m) \<in> set (drop (p + m) ports)"
      using that by (metis hd_drop_conv_nth drop_eq_Nil hd_in_set not_le)
    then obtain q where "q \<in> set rs" "ports ! (p + m) \<in> set (prun q)" unfolding rest(2) by auto
    then have "pk_signature_rule_id (ports ! (p + m)) = rk_signature_rule_id q" and "rk_signature_rule_id r \<noteq> rk_signature_rule_id q"
      using Cons.prems(1,2) by (simp_all add: image_iff)
    then show ?thesis by simp
  qed
  then have pt: "index_ports ports (rk_signature_rule_id r) p 0 = (None, p + m, word_of_nat m)"
    using index_ports_complete [OF le(2), of "rk_signature_rule_id r" 0] pat Cons.prems(1) r(4) past
    by (simp add: m_def)
  define ix2 where "ix2 = ix\<lparr>ix_step_cursor := c + n, ix_union_caps := ix_union_caps ix OR rk_required_caps r,
      ix_port_cursor := p + m, ix_patterns := ix_patterns ix @ [first_pattern steps (length (ix_rules ix)) c],
      ix_rules := ix_rules ix @ [r\<lparr>rk_first_step := c, rk_first_port := p, rk_port_count := word_of_nat m\<rparr>]\<rparr>"
  have "index_rules steps ports (r # rs) ix = index_rules steps ports rs ix2"
    using st pt r by (simp add: Let_def caps_cover_def ix2_def c_def [symmetric] p_def [symmetric])
  moreover have "\<exists>ix'. index_rules steps ports rs ix2 = (None, ix') \<and>
      ix_step_cursor ix' = length steps \<and> ix_port_cursor ix' = length ports"
    by (rule Cons.IH) (use Cons.prems(1,2) rest le in \<open>simp_all add: ix2_def\<close>)
  ultimately show ?case by simp
qed

text \<open>A list sorted by its keys is the runs of the distinct keys in order.\<close>

lemma runs_of_sorted:
  fixes key :: "'a \<Rightarrow> 'k::linorder"
  assumes "sorted_wrt (\<lambda>a b. key a \<le> key b) xs" and "sorted_wrt (<) ks" and "key ` set xs \<subseteq> set ks"
  shows "xs = concat (map (\<lambda>k. filter (\<lambda>x. key x = k) xs) ks)"
  using assms
proof (induction ks arbitrary: xs)
  case (Cons k ks)
  define ys where "ys = dropWhile (\<lambda>x. key x = k) xs"
  have xs: "takeWhile (\<lambda>x. key x = k) xs @ ys = xs" by (simp add: ys_def)
  have sub: "set ys \<subseteq> set xs" unfolding ys_def by (auto dest: set_dropWhileD)
  have "sorted_wrt (\<lambda>a b. key a \<le> key b) (takeWhile (\<lambda>x. key x = k) xs @ ys)"
    unfolding xs by (rule Cons.prems(1))
  then have sorted: "sorted_wrt (\<lambda>a b. key a \<le> key b) ys" by (simp add: sorted_wrt_append)
  have ge: "k \<le> key x" if "x \<in> set xs" for x
    using that Cons.prems(2,3) by (auto simp: image_subset_iff dest!: bspec intro: less_imp_le)
  have ys_ne: "key y \<noteq> k" if y: "y \<in> set ys" for y
  proof (cases ys)
    case (Cons z zs)
    have "key z \<noteq> k" using Cons by (simp add: ys_def dropWhile_eq_Cons_conv)
    moreover have "k \<le> key z" using ge sub Cons by simp
    moreover have "key z \<le> key y" using sorted y Cons by auto
    ultimately show ?thesis by simp
  qed (use y in simp)
  have split: "xs = filter (\<lambda>x. key x = k) xs @ ys"
  proof -
    have "filter (\<lambda>x. key x = k) (takeWhile (\<lambda>x. key x = k) xs @ ys) = takeWhile (\<lambda>x. key x = k) xs"
      using ys_ne by (auto simp: filter_id_conv filter_empty_conv dest: set_takeWhileD)
    then show ?thesis unfolding xs by (simp add: ys_def)
  qed
  have keys: "key ` set ys \<subseteq> set ks" using Cons.prems(3) ys_ne sub by auto
  have "ys = concat (map (\<lambda>k. filter (\<lambda>x. key x = k) ys) ks)"
    by (rule Cons.IH [OF sorted _ keys]) (use Cons.prems(2) in simp)
  also have "map (\<lambda>k. filter (\<lambda>x. key x = k) ys) ks = map (\<lambda>k. filter (\<lambda>x. key x = k) xs) ks"
  proof (rule map_cong [OF refl])
    fix q assume "q \<in> set ks"
    then have "q \<noteq> k" using Cons.prems(2) by auto
    then show "filter (\<lambda>x. key x = q) ys = filter (\<lambda>x. key x = q) xs"
      by (subst split) (auto simp: filter_empty_conv)
  qed
  finally show ?case using split by simp
qed simp


lemma steps_sorted_ids: "steps_sorted ss \<Longrightarrow> sorted_wrt (\<lambda>a b. sk_signature_rule_id a \<le> sk_signature_rule_id b) ss"
  unfolding steps_sorted_def by (induction ss) (auto simp: step_before_def)

lemma index_set_complete:
  assumes ok: "set_ok s" "unindexed s" and full: "catalog_complete s"
  shows "\<exists>ix. index_set s = (None, ix) \<and> ix_step_cursor ix = length (rs_steps s) \<and> ix_port_cursor ix = length (rs_ports s)"
proof -
  define ids where "ids = map rk_signature_rule_id (rs_rules s)"
  have ids: "sorted_wrt (<) ids"
    using ok(1) by (simp add: set_ok_def rules_sorted_def ids_def sorted_wrt_map)
  have keys: "sk_signature_rule_id ` set (rs_steps s) \<subseteq> set ids" "pk_signature_rule_id ` set (rs_ports s) \<subseteq> set ids"
    using full by (simp_all add: catalog_complete_def ids_def)
  have steps: "concat (map (rule_steps s) (rs_rules s)) = rs_steps s"
    using runs_of_sorted [OF steps_sorted_ids ids keys(1)] ok(1)
    by (simp add: set_ok_def ids_def rule_steps_def [abs_def] comp_def)
  have ports: "concat (map (rule_ports s) (rs_rules s)) = rs_ports s"
    using runs_of_sorted [of pk_signature_rule_id "rs_ports s", OF _ ids keys(2)] ok(1)
    by (simp add: set_ok_def ports_sorted_def ids_def rule_ports_def [abs_def] comp_def)
  have each: "rk_step_count r \<noteq> 0 \<and> rk_port_count r = 0 \<and> length (rule_steps s r) = unat (rk_step_count r) \<and>
      (\<forall>i < length (rule_steps s r). sk_signature_rule_id (rule_steps s r ! i) = rk_signature_rule_id r \<and>
         unat (sk_step_index (rule_steps s r ! i)) = i) \<and>
      (\<forall>p \<in> set (rule_ports s r). pk_signature_rule_id p = rk_signature_rule_id r) \<and>
      length (rule_ports s r) \<le> 64 \<and> caps_cover (rk_required_caps r) (rule_steps s r)" if r: "r \<in> set (rs_rules s)" for r
  proof -
    have c: "rule_complete s r" using full r by (simp add: catalog_complete_def)
    have "rule_ok (rs_declared_caps s) r" "rk_port_count r = 0"
      using ok r by (auto simp: set_ok_def unindexed_def list_all_iff)
    moreover from c have m: "map (unat \<circ> sk_step_index) (rule_steps s r) = [0..<unat (rk_step_count r)]"
      by (simp add: rule_complete_def)
    moreover have len: "length (rule_steps s r) = unat (rk_step_count r)"
      using arg_cong [OF m, of length] by simp
    moreover have "unat (sk_step_index (rule_steps s r ! i)) = i" if "i < length (rule_steps s r)" for i
      using arg_cong [OF m, of "\<lambda>xs. xs ! i"] that len by simp
    moreover have "\<forall>x \<in> set (rule_steps s r). sk_signature_rule_id x = rk_signature_rule_id r"
      by (simp add: rule_steps_def)
    ultimately show ?thesis
      using c by (simp add: rule_complete_def rule_ok_def rule_ports_def)
  qed
  have "distinct (map rk_signature_rule_id (rs_rules s))"
    using ids unfolding ids_def by (simp add: strict_sorted_iff)
  then show ?thesis
    unfolding index_set_def
    by (intro index_rules_complete [where srun = "rule_steps s" and prun = "rule_ports s"])
      (use each steps ports in simp_all)
qed


text \<open>The patterns of linked rules are what the automaton builder takes.\<close>

lemma set_patterns_ok:
  assumes "set_ok s" and "\<forall>r \<in> set (rs_rules s). rule_linked s r" and "rs_rules s \<noteq> []"
  shows "patterns_ok (set_patterns s)"
proof -
  have "length (rs_rules s) \<le> unat (rs_rule_capacity s)" and "unat (rs_rule_capacity s) \<le> 16384"
    using assms(1) by (simp_all add: set_ok_def word_le_nat_alt)
  then have count: "length (rs_rules s) \<le> 65535" by linarith
  have "length (pat_bytes p) = 64 \<and> 1 \<le> pat_len p \<and> pat_len p \<le> 64" if "p \<in> set (set_patterns s)" for p
  proof -
    obtain i where i: "i < length (rs_rules s)" "p = first_pattern (rs_steps s) i (rk_first_step (rs_rules s ! i))"
      using \<open>p \<in> set (set_patterns s)\<close> by (auto simp: set_patterns_def)
    let ?r = "rs_rules s ! i"
    have r: "?r \<in> set (rs_rules s)" using i(1) by simp
    have "rule_ok (rs_declared_caps s) ?r" and "rule_linked s ?r"
      using assms(1,2) r by (auto simp: set_ok_def list_all_iff)
    then have "unat (rk_step_count ?r) \<noteq> 0" "rk_first_step ?r + unat (rk_step_count ?r) \<le> length (rs_steps s)"
      by (simp_all add: rule_ok_def rule_linked_def unat_eq_0)
    then have "rk_first_step ?r < length (rs_steps s)" by linarith
    then have "step_ok (rs_steps s ! rk_first_step ?r)" using assms(1) by (simp add: set_ok_def list_all_length)
    then show ?thesis
      by (simp add: i(2) first_pattern_def Let_def step_ok_def word_le_nat_alt)
  qed
  then show ?thesis using assms(3) count by (simp add: patterns_ok_def set_patterns_def)
qed

lemma validate_complete:
  assumes ok: "set_ok s" "unindexed s" and full: "catalog_complete s" and mem: "\<forall>site. alloc_ok env site"
  shows "\<exists>detail s'. validate_and_index_set env s = ((None, JMX_V3_REASON_NONE, detail), s')"
proof -
  obtain ix where ix: "index_set s = (None, ix)" "ix_step_cursor ix = length (rs_steps s)"
    "ix_port_cursor ix = length (rs_ports s)"
    using index_set_complete [OF ok full] by blast
  have fresh: "\<forall>r \<in> set (rs_rules s). rk_step_count r \<noteq> 0 \<and> rk_port_count r = 0"
    using ok by (auto simp: set_ok_def unindexed_def list_all_iff rule_ok_def)
  obtain rs' where rs': "indexed (rs_steps s) (rs_ports s) 0 0 (rs_rules s) rs' (length (rs_steps s)) (length (rs_ports s))"
    "ix_patterns ix = map (\<lambda>i. first_pattern (rs_steps s) i (rk_first_step (rs' ! i))) [0..<length rs']"
    "ix_union_caps ix = foldl (OR) 0 (map rk_required_caps (rs_rules s))"
    using index_rules_ok [OF ix(1) [unfolded index_set_def] fresh] ix(2,3) by auto
  define s1 where "s1 = s\<lparr>rs_rules := rs'\<rparr>"
  note keep = indexed_keeps [OF rs'(1)] and len = indexed_length [OF rs'(1)]
  have "set_ok s1" using ok(1) keep(1,2) len by (simp add: set_ok_def s1_def)
  moreover have "\<forall>r \<in> set (rs_rules s1). rule_linked s1 r"
    using ok(1) rs'(1) by (auto simp: s1_def set_ok_def intro!: indexed_linked)
  moreover have "ix_patterns ix = set_patterns s1" by (simp add: set_patterns_def s1_def rs'(2))
  ultimately have pats: "patterns_ok (ix_patterns ix)" if "rs_rules s \<noteq> []"
    using set_patterns_ok [of s1] that len by (cases rs') (auto simp: s1_def)
  show ?thesis
  proof (cases "rs_rules s = []")
    case True
    then show ?thesis
      using full ix rs'(3) by (simp add: validate_and_index_set_def catalog_complete_def Let_def)
  next
    case False
    then obtain a st where "jmx_v3_ac_build (alloc_ok env) (ix_patterns ix) = Inr (a, st)"
      using build_total [OF pats mem] by blast
    then show ?thesis
      using full ix rs'(3) mem False by (simp add: validate_and_index_set_def catalog_complete_def Let_def)
  qed
qed

lemma published_complete:
  assumes "published_ok s'" and "s' = s\<lparr>rs_rules := rs', rs_ac := ac, rs_ac_stats := stats\<rparr>"
    and idx: "indexed (rs_steps s) (rs_ports s) 0 0 (rs_rules s) rs' (length (rs_steps s)) (length (rs_ports s))"
  shows "catalog_complete s"
proof -
  note keep = indexed_keeps [OF idx] and len = indexed_length [OF idx] and runs = indexed_runs [OF idx le0 le0]
  have cat: "rs_steps s = concat (map (\<lambda>r. segment (rs_steps s) (rk_first_step r) (unat (rk_step_count r))) rs')"
    "rs_ports s = concat (map (\<lambda>r. segment (rs_ports s) (rk_first_port r) (unat (rk_port_count r))) rs')"
    by (rule conjunct1 [OF runs, unfolded drop_0 drop_all [OF order_refl] append_Nil2],
        rule conjunct1 [OF conjunct2 [OF runs], unfolded drop_0 drop_all [OF order_refl] append_Nil2])
  have link: "rule_linked s' r" if "r \<in> set rs'" for r
    using assms(1,2) that by (simp add: published_ok_def)
  have seg: "segment (rs_steps s) (rk_first_step r) (unat (rk_step_count r)) = rule_steps s r"
    "segment (rs_ports s) (rk_first_port r) (unat (rk_port_count r)) = rule_ports s r" if "r \<in> set rs'" for r
    using link [OF that] by (simp_all add: rule_linked_def rule_steps_def rule_ports_def assms(2))
  have "\<exists>r \<in> set rs'. x \<in> set (rule_steps s r)" if "x \<in> set (rs_steps s)" for x
    using that seg(1) by (subst (asm) cat(1)) auto
  then have stepids: "sk_signature_rule_id ` set (rs_steps s) \<subseteq> rk_signature_rule_id ` set rs'"
    by (force simp: rule_steps_def)
  have "\<exists>r \<in> set rs'. x \<in> set (rule_ports s r)" if "x \<in> set (rs_ports s)" for x
    using that seg(2) by (subst (asm) cat(2)) auto
  then have portids: "pk_signature_rule_id ` set (rs_ports s) \<subseteq> rk_signature_rule_id ` set rs'"
    by (force simp: rule_ports_def)
  have ids: "rk_signature_rule_id ` set rs' = rk_signature_rule_id ` set (rs_rules s)"
    using arg_cong [OF keep(4), of set] by simp
  have "rule_complete s r" if r: "r \<in> set (rs_rules s)" for r
  proof -
    obtain i where i: "i < length (rs_rules s)" "r = rs_rules s ! i" using r by (metis in_set_conv_nth)
    obtain a b n where q: "rs' ! i = r\<lparr>rk_first_step := a, rk_first_port := b, rk_port_count := n\<rparr>"
      using list_all2_nthD [OF indexed_rules [OF idx] i(1)] i(2) by blast
    have L: "rule_linked s' (rs' ! i)" using link i(1) len by simp
    have same: "rule_steps s' (rs' ! i) = rule_steps s r" "rule_ports s' (rs' ! i) = rule_ports s r"
      by (simp_all add: rule_steps_def rule_ports_def q assms(2))
    have le: "a + unat (rk_step_count r) \<le> length (rs_steps s)"
      and sg: "segment (rs_steps s) a (unat (rk_step_count r)) = rule_steps s r"
      and ix: "\<forall>j < unat (rk_step_count r). unat (sk_step_index (rs_steps s ! (a + j))) = j"
      and pl: "segment (rs_ports s) b (unat n) = rule_ports s r" "unat n \<le> 64" "b + unat n \<le> length (rs_ports s)"
      and cv: "caps_cover (rk_required_caps r) (rule_steps s r)"
      using L unfolding rule_linked_def same by (simp_all add: q assms(2))
    have "map (unat \<circ> sk_step_index) (segment (rs_steps s) a (unat (rk_step_count r))) = [0..<unat (rk_step_count r)]"
      using ix le by (intro nth_equalityI) (simp_all add: segment_def)
    moreover have "length (rule_ports s r) \<le> 64"
      using pl by (simp add: segment_def flip: pl(1))
    ultimately show ?thesis using cv by (simp add: rule_complete_def sg)
  qed
  then show ?thesis
    using assms(1,2) stepids portids ids keep(3) len
    by (simp add: catalog_complete_def published_ok_def rule_count_def step_count_def port_count_def)
qed

lemma validate_needs_complete:
  assumes "set_ok s" and "unindexed s" and none: "fst (fst (validate_and_index_set env s)) = None"
  shows "catalog_complete s"
proof -
  obtain rc reason detail s' where v: "validate_and_index_set env s = ((rc, reason, detail), s')"
    by (metis prod_cases4 prod.collapse)
  with none have "validate_and_index_set env s = ((None, reason, detail), s')" by simp
  then show "catalog_complete s" using validate_ok [OF assms(1,2)] published_complete by blast
qed

text \<open>With memory, the validation of a live staged set succeeds exactly on complete catalogues.\<close>

lemma validate_iff:
  assumes "set_ok s" and "unindexed s" and "\<forall>site. alloc_ok env site"
  shows "fst (fst (validate_and_index_set env s)) = None \<longleftrightarrow> catalog_complete s"
proof
  assume "fst (fst (validate_and_index_set env s)) = None"
  then show "catalog_complete s" by (rule validate_needs_complete [OF assms(1,2)])
next
  assume "catalog_complete s"
  then show "fst (fst (validate_and_index_set env s)) = None"
    using validate_complete [OF assms(1,2) _ assms(3)] by fastforce
qed


section \<open>Requests of the owner of a live transaction\<close>

definition live :: "kernel_env \<Rightarrow> u32 \<Rightarrow> u32 \<Rightarrow> v3_state \<Rightarrow> rule_set \<Rightarrow> bool" where
  "live env owner gen st s \<longleftrightarrow> v3_running st \<and> tx_set (v3_tx st) = Some s \<and> tx_owner_portid (v3_tx st) = owner \<and>
     tx_generation (v3_tx st) = gen \<and> rs_generation s = gen \<and> \<not> time_after_eq (jiffies env) (tx_deadline (v3_tx st))"

lemma live_not_expired: "live env owner gen st s \<Longrightarrow> expire_staging_locked env st = st"
  by (simp add: live_def expire_staging_locked_def)

lemma live_check:
  "live env owner gen st s \<Longrightarrow> check_owner_locked env owner gen allow st =
    (if tx_failed (v3_tx st) \<and> \<not> allow
     then (Some (ECANCELED, tx_failed_reason (v3_tx st), tx_failed_detail (v3_tx st)), st) else (None, st))"
  by (frule live_not_expired) (auto simp: check_owner_locked_def Let_def live_def)

lemma live_foreign:
  "live env owner gen st s \<Longrightarrow> other \<noteq> owner \<Longrightarrow>
    check_owner_locked env other gen' allow st = (Some (EPERM, JMX_V3_REASON_NOT_OWNER, other), st)"
  by (frule live_not_expired) (auto simp: check_owner_locked_def Let_def live_def)

lemma live_staged: "live env owner gen st s \<Longrightarrow> tx_set (v3_tx st) = Some s"
  by (simp add: live_def)

definition unlinked :: "rule_k \<Rightarrow> rule_k" where
  "unlinked r = r\<lparr>rk_first_step := 0, rk_first_port := 0, rk_port_count := 0\<rparr>"

text \<open>The published set holds the staged catalogue: the same rules but for their links.\<close>

definition publishes :: "rule_set \<Rightarrow> rule_set \<Rightarrow> bool" where
  "publishes s s' \<longleftrightarrow> published_ok s' \<and> map unlinked (rs_rules s') = rs_rules s \<and>
     (\<exists>ac stats. s' = s\<lparr>rs_rules := rs_rules s', rs_ac := ac, rs_ac_stats := stats\<rparr>)"

lemma indexed_unlinked:
  assumes "indexed steps ports c p rs rs' c' p'"
    and "list_all (\<lambda>r. rk_first_step r = 0 \<and> rk_first_port r = 0 \<and> rk_port_count r = 0) rs"
  shows "map unlinked rs' = rs"
  using indexed_rules [OF assms(1)] assms(2)
  by (induction rs rs' rule: list_all2_induct) (auto simp: unlinked_def)

lemma validate_publishes:
  assumes "set_ok s" and "unindexed s" and "validate_and_index_set env s = ((None, reason, detail), s')"
  shows "publishes s s'"
proof -
  obtain rs' ac stats where v: "s' = s\<lparr>rs_rules := rs', rs_ac := ac, rs_ac_stats := stats\<rparr>"
    "indexed (rs_steps s) (rs_ports s) 0 0 (rs_rules s) rs' (length (rs_steps s)) (length (rs_ports s))" "published_ok s'"
    using validate_ok [OF assms] by blast
  have "map unlinked rs' = rs_rules s" using indexed_unlinked [OF v(2)] assms(2) by (simp add: unindexed_def)
  moreover have "rs_rules s' = rs'" by (simp add: v(1))
  ultimately show ?thesis using v unfolding publishes_def by metis
qed

section \<open>A concrete transaction\<close>

definition demo_env :: kernel_env where
  "demo_env = \<lparr>jiffies = 1000, hz = 250, alloc_ok = \<lambda>_. True, jhash_1word = \<lambda>a _. a\<rparr>"

definition demo_step :: step_k where
  "demo_step = \<lparr>sk_signature_rule_id = 5, sk_depth = 0, sk_offset = 0, sk_distance = 0, sk_within = 0,
     sk_step_index = 0, sk_payload_len = 2, sk_matcher_type = 1, sk_condition = 1, sk_case_mode = 2,
     sk_input_view = 0, sk_position_flags = 0, sk_literal_option = 0,
     sk_payload = [97, 98] @ replicate 62 0\<rparr>"

definition demo_rule :: rule_k where
  "demo_rule = \<lparr>rk_signature_rule_id = 5, rk_appid = 77, rk_priority = 10, rk_required_caps = 0x401,
     rk_first_step = 0, rk_first_port = 0, rk_step_count = 1, rk_port_count = 0, rk_proto = 0, rk_dir = 0,
     rk_flags = 0\<rparr>"

definition demo_set :: rule_set where
  "demo_set = \<lparr>rs_generation = 9, rs_mode = 2, rs_rule_capacity = 1, rs_step_capacity = 1, rs_port_capacity = 0,
     rs_declared_caps = 0x401, rs_catalog_digest = replicate 32 7, rs_rules = [demo_rule], rs_steps = [demo_step],
     rs_ports = [], rs_ac = None, rs_ac_stats = ac_stats_zero, rs_match_cnt = [0]\<rparr>"

definition demo_state :: "bool \<Rightarrow> v3_state" where
  "demo_state failed = \<lparr>v3_tx = \<lparr>tx_owner_portid = 4, tx_generation = 9, tx_failed_reason = (if failed then 12 else 0),
       tx_failed_detail = 0, tx_started = 900, tx_deadline = 8400, tx_set = Some demo_set, tx_failed = failed\<rparr>,
     v3_active = None, v3_expire_due = Some 8400, v3_budget_exhausted = 0, v3_running = True\<rparr>"

lemma demo_caps [simp]: "jmx_v3_capabilities = 0x40f"
  by (simp add: jmx_v3_capabilities_def JMX_V3_CAP_PHASE1_MASK_def)

lemma demo_set_ok: "set_ok demo_set" "unindexed demo_set"
  by (simp_all add: set_ok_def unindexed_def demo_set_def demo_rule_def demo_step_def rule_ok_def step_ok_def
      bytes_zero_def pos_flag_def rules_sorted_def steps_sorted_def ports_sorted_def list_all_iff)

lemma demo_complete: "catalog_complete demo_set"
  by (simp add: catalog_complete_def demo_set_def demo_rule_def demo_step_def rule_count_def step_count_def
      port_count_def rule_complete_def rule_steps_def rule_ports_def caps_cover_def step_caps_def pos_flag_def)

lemma demo_inv: "v3_inv (demo_state failed)"
  using demo_set_ok by (simp add: v3_inv_def demo_state_def staged_ok_def demo_set_def)

lemma demo_live: "live demo_env 4 9 (demo_state failed) demo_set"
  by (simp add: live_def demo_state_def demo_env_def demo_set_def time_after_eq_def)


lemma demo_check: "check_owner_locked demo_env 4 9 False (demo_state False) = (None, demo_state False)"
  unfolding live_check [OF demo_live] by (simp add: demo_state_def)

section \<open>Properties\<close>



text \<open>C16: a batch of a live transaction is all or nothing.  Accepted, the staged list is the old one
  followed by the batch, field by field; refused (space, a bad record, a bad order), the staged set is
  exactly what it was and the transaction is marked failed, so that it can no longer be committed.\<close>

theorem batch_atomic:
  assumes live: "live env owner gen st s" and ok: "\<not> tx_failed (v3_tx st)" and inv: "v3_inv st"
    and wf: "list_all step_wf steps"
  shows "(case jmx_v3_tx_add_rules env owner gen rules st of ((rc, _), st') \<Rightarrow>
      tx_set (v3_tx st') = Some (if rc = None then s\<lparr>rs_rules := rs_rules s @ map rule_of_wire rules\<rparr> else s) \<and>
      (tx_failed (v3_tx st') \<longleftrightarrow> rc \<noteq> None) \<and> v3_active st' = v3_active st) \<and>
    (case jmx_v3_tx_add_steps env owner gen steps st of ((rc, _), st') \<Rightarrow>
      tx_set (v3_tx st') = Some (if rc = None then s\<lparr>rs_steps := rs_steps s @ map step_of_wire steps\<rparr> else s) \<and>
      (tx_failed (v3_tx st') \<longleftrightarrow> rc \<noteq> None) \<and> v3_active st' = v3_active st) \<and>
    (case jmx_v3_tx_add_ports env owner gen ports st of ((rc, _), st') \<Rightarrow>
      tx_set (v3_tx st') = Some (if rc = None then s\<lparr>rs_ports := rs_ports s @ map port_of_wire ports\<rparr> else s) \<and>
      (tx_failed (v3_tx st') \<longleftrightarrow> rc \<noteq> None) \<and> v3_active st' = v3_active st)"
proof (intro conjI)
  have s: "set_ok s" using v3_inv_live [OF inv live_staged [OF live] ok] by auto
  have tx: "check_owner_locked env owner gen False st = (None, st)" "tx_set (v3_tx st) = Some s"
    using live_check [OF live] ok live_staged [OF live] by auto
  note defs = tx ok fail_with_def fail_transaction_locked_def renew_transaction_locked_def set_staged_def Let_def
  show "case jmx_v3_tx_add_rules env owner gen rules st of ((rc, _), st') \<Rightarrow>
      tx_set (v3_tx st') = Some (if rc = None then s\<lparr>rs_rules := rs_rules s @ map rule_of_wire rules\<rparr> else s) \<and>
      (tx_failed (v3_tx st') \<longleftrightarrow> rc \<noteq> None) \<and> v3_active st' = v3_active st"
    using append_rules_ok [of "rs_declared_caps s" "rs_rules s" rules] s
    by (auto simp: jmx_v3_tx_add_rules_def defs set_ok_def split: sum.split)
  show "case jmx_v3_tx_add_steps env owner gen steps st of ((rc, _), st') \<Rightarrow>
      tx_set (v3_tx st') = Some (if rc = None then s\<lparr>rs_steps := rs_steps s @ map step_of_wire steps\<rparr> else s) \<and>
      (tx_failed (v3_tx st') \<longleftrightarrow> rc \<noteq> None) \<and> v3_active st' = v3_active st"
    using append_steps_ok [of "rs_steps s" steps] s wf
    by (auto simp: jmx_v3_tx_add_steps_def defs set_ok_def split: sum.split)
  show "case jmx_v3_tx_add_ports env owner gen ports st of ((rc, _), st') \<Rightarrow>
      tx_set (v3_tx st') = Some (if rc = None then s\<lparr>rs_ports := rs_ports s @ map port_of_wire ports\<rparr> else s) \<and>
      (tx_failed (v3_tx st') \<longleftrightarrow> rc \<noteq> None) \<and> v3_active st' = v3_active st"
    using append_ports_ok [of "rs_ports s" ports] s
    by (auto simp: jmx_v3_tx_add_ports_def defs set_ok_def split: sum.split)
qed

definition demo_port_wire :: v3_port_wire where
  "demo_port_wire = \<lparr>pw_signature_rule_id = 5, pw_endpoint = 3, pw_reserved = [0, 0, 0], pw_min_port = 80, pw_max_port = 90\<rparr>"

theorem batch_atomic_witness:
  "case jmx_v3_tx_add_ports demo_env 4 9 [demo_port_wire] (demo_state False) of ((rc, _), st') \<Rightarrow>
      rc = Some E2BIG \<and> tx_set (v3_tx st') = Some demo_set \<and> tx_failed (v3_tx st')"
proof -
  have "fst (fst (jmx_v3_tx_add_ports demo_env 4 9 [demo_port_wire] (demo_state False))) = Some E2BIG"
    unfolding jmx_v3_tx_add_ports_def demo_check
    by (simp add: demo_state_def demo_set_def port_count_def fail_with_def Let_def)
  moreover note batch_atomic [OF demo_live _ demo_inv, of False "[]" "[]" "[demo_port_wire]"]
  ultimately show ?thesis by (auto simp: demo_state_def split: prod.splits)
qed

text \<open>C18: a failed transaction can only be aborted.  Every batch and the commit of its owner are refused
  with ECANCELED and the stored reason and detail, with no effect; the abort succeeds and empties the
  staging slot.\<close>

theorem failed_only_aborts:
  assumes live: "live env owner gen st s" and failed: "tx_failed (v3_tx st)"
  shows "let refused = ((Some ECANCELED, tx_failed_reason (v3_tx st), tx_failed_detail (v3_tx st)), st) in
      jmx_v3_tx_add_rules env owner gen rules st = refused \<and> jmx_v3_tx_add_steps env owner gen steps st = refused \<and>
      jmx_v3_tx_add_ports env owner gen ports st = refused \<and> jmx_v3_tx_commit env owner gen st = refused \<and>
      jmx_v3_tx_abort env owner gen st = ((None, JMX_V3_REASON_NONE, 0), st\<lparr>v3_tx := tx_zero\<rparr>)"
  using live_check [OF live] failed
  by (simp add: jmx_v3_tx_add_rules_def jmx_v3_tx_add_steps_def jmx_v3_tx_add_ports_def jmx_v3_tx_commit_def
      jmx_v3_tx_abort_def)

theorem failed_only_aborts_witness:
  "jmx_v3_tx_commit demo_env 4 9 (demo_state True) = ((Some ECANCELED, 12, 0), demo_state True)"
  using failed_only_aborts [OF demo_live, of True] by (simp add: Let_def) (simp add: demo_state_def)

text \<open>C19: a live transaction is isolated from every other netlink port: batches, commit and abort of
  another port are refused with EPERM, a failure report of it is ignored, and a BEGIN of it is refused;
  none of them changes the state of the module.\<close>

theorem owner_isolation:
  assumes live: "live env owner gen st s" and foreign: "other \<noteq> owner"
  shows "let refused = ((Some EPERM, JMX_V3_REASON_NOT_OWNER, other), st) in
      jmx_v3_tx_add_rules env other gen' rules st = refused \<and> jmx_v3_tx_add_steps env other gen' steps st = refused \<and>
      jmx_v3_tx_add_ports env other gen' ports st = refused \<and> jmx_v3_tx_commit env other gen' st = refused \<and>
      jmx_v3_tx_abort env other gen' st = refused \<and> jmx_v3_tx_fail env other gen' reason detail st = st \<and>
      fst (fst (jmx_v3_tx_begin env other gen' wire flags st)) \<noteq> None \<and>
      snd (jmx_v3_tx_begin env other gen' wire flags st) = st"
  using live_foreign [OF live foreign] live_not_expired [OF live] live_staged [OF live]
  by (simp add: jmx_v3_tx_add_rules_def jmx_v3_tx_add_steps_def jmx_v3_tx_add_ports_def jmx_v3_tx_commit_def
      jmx_v3_tx_abort_def jmx_v3_tx_fail_def jmx_v3_tx_begin_def Let_def split: option.split)

theorem owner_isolation_witness:
  "jmx_v3_tx_abort demo_env 7 9 (demo_state False) = ((Some EPERM, 15, 7), demo_state False)"
  using owner_isolation [OF demo_live, of 7 False] by (simp add: Let_def)



end
