(* ===== verification/V3Match.thy ===== *)
theory V3Match
  imports V3Commit
begin

text \<open>
  The packet matcher of \<open>jmx/src/jmx_v3_rules.c\<close>: the automaton reports occurrences of first steps,
  and for each the rule's gate, the position window of the step, and the remaining steps of the chain
  are tested, all paid for from one work budget per packet.

  Positions are natural numbers: a payload is shorter than \<open>2 ^ 32\<close> bytes and every position the code
  computes lies inside it or is rejected.  The fields that the C code reads as \<open>s32\<close> are words read with
  \<open>sint\<close>.  A test returns whether it holds and the remaining budget, or \<open>E2BIG\<close> when the budget is spent.
\<close>

unbundle bit_operations_syntax

type_synonym test_result = "errno + (bool \<times> nat)"

record packet =
  pk_payload :: bytes
  pk_proto :: u8
  pk_dir :: u8
  pk_sport :: u16
  pk_dport :: u16

section \<open>Comparing bytes\<close>

definition fold_byte :: "u8 \<Rightarrow> u8" where
  "fold_byte byte = (if 65 \<le> byte \<and> byte \<le> 90 then byte + (97 - 65) else byte)"

fun exact_loop :: "step_k \<Rightarrow> bytes \<Rightarrow> nat \<Rightarrow> nat \<Rightarrow> nat \<Rightarrow> nat \<Rightarrow> test_result" where
  "exact_loop step payload start 0 i work = Inr (True, work)"
| "exact_loop step payload start (Suc left) i work =
     (if work = 0 then Inl E2BIG
      else let l = payload ! (start + i); r = sk_payload step ! i;
               nocase = (sk_case_mode step = JMX_V3_CASE_NOCASE);
               l = (if nocase then fold_byte l else l); r = (if nocase then fold_byte r else r)
           in if l \<noteq> r then Inr (False, work - 1)
              else exact_loop step payload start left (i + 1) (work - 1))"

definition exact_at :: "step_k \<Rightarrow> bytes \<Rightarrow> nat \<Rightarrow> nat \<Rightarrow> test_result" where
  "exact_at step payload start work =
     (if length payload < start \<or> length payload - start < unat (sk_payload_len step) then Inr (False, work)
      else exact_loop step payload start (unat (sk_payload_len step)) 0 work)"

section \<open>Position windows\<close>

definition add_signed_offset :: "nat \<Rightarrow> u32 \<Rightarrow> nat option" where
  "add_signed_offset base delta =
     (let value = int base + sint delta in if value < 0 \<or> 2 ^ 32 - 1 < value then None else Some (nat value))"

definition step_window :: "step_k \<Rightarrow> nat \<Rightarrow> nat \<Rightarrow> (nat \<times> nat) option" where
  "step_window step payload_len previous_end =
     (let has = pos_flag (sk_position_flags step); off = unat (sk_offset step); start = 0; wend = payload_len;
          start = (if has JMX_V3_POS_OFFSET \<and> start < off then off else start);
          wend = (if has JMX_V3_POS_DEPTH \<and> unat (sk_depth step) < wend then unat (sk_depth step) else wend)
      in case (if has JMX_V3_POS_DISTANCE then add_signed_offset previous_end (sk_distance step) else Some start) of
           None \<Rightarrow> None
         | Some value \<Rightarrow>
             let start = (if has JMX_V3_POS_DISTANCE \<and> has JMX_V3_POS_OFFSET \<and> value < off then off else value)
             in case (if has JMX_V3_POS_WITHIN then add_signed_offset previous_end (sk_within step) else Some wend) of
                  None \<Rightarrow> None
                | Some value \<Rightarrow>
                    let wend = (if value < wend then value else wend)
                    in if wend < start \<or> payload_len < start then None
                       else Some (start, if payload_len < wend then payload_len else wend))"

definition occurrence_valid :: "step_k \<Rightarrow> bytes \<Rightarrow> nat \<Rightarrow> nat \<Rightarrow> nat \<Rightarrow> nat \<Rightarrow> test_result" where
  "occurrence_valid step payload previous_end start end work =
     (case step_window step (length payload) previous_end of
        None \<Rightarrow> Inr (False, work)
      | Some (window_start, window_end) \<Rightarrow>
          if start < window_start \<or> window_end < end then Inr (False, work)
          else exact_at step payload start work)"

section \<open>The remaining steps of a chain\<close>

text \<open>The \<open>for\<close> loop over positions: the first one at which the step matches.\<close>

function find_from ::
  "step_k \<Rightarrow> bytes \<Rightarrow> nat \<Rightarrow> nat \<Rightarrow> nat \<Rightarrow> nat \<Rightarrow> errno + (nat option \<times> nat)" where
  "find_from step payload wend prev pos work =
     (if pos \<le> wend \<and> unat (sk_payload_len step) \<le> wend - pos
      then if pos + unat (sk_payload_len step) < prev then find_from step payload wend prev (pos + 1) work
           else case exact_at step payload pos work of
                  Inl e \<Rightarrow> Inl e
                | Inr (True, work') \<Rightarrow> Inr (Some pos, work')
                | Inr (False, work') \<Rightarrow> find_from step payload wend prev (pos + 1) work'
      else Inr (None, work))"
  by pat_completeness auto
termination by (relation "measure (\<lambda>(_, _, wend, _, pos, _). Suc wend - pos)") auto

declare find_from.simps [simp del]

text \<open>The local arrays of the backtracking loop; \<open>next_pos[level] == U32_MAX\<close> is \<open>None\<close>.\<close>

record chain_state =
  cs_level :: nat
  cs_ends :: "nat \<Rightarrow> nat"
  cs_next_pos :: "nat \<Rightarrow> nat option"
  cs_window_end :: "nat \<Rightarrow> nat"

definition chain_back :: "chain_state \<Rightarrow> chain_state" where
  "chain_back c = c\<lparr>cs_next_pos := (cs_next_pos c)(cs_level c := None), cs_level := cs_level c - 1\<rparr>"

text \<open>One pass of the \<open>while\<close> loop: a final result, or the state for the next pass.\<close>

definition chain_search ::
  "rule_set \<Rightarrow> rule_k \<Rightarrow> bytes \<Rightarrow> chain_state \<Rightarrow> nat \<Rightarrow> test_result + (chain_state \<times> nat)" where
  "chain_search s rule payload c work =
     (let level = cs_level c; step = rs_steps s ! (rk_first_step rule + level)
      in case find_from step payload (cs_window_end c level) (cs_ends c (level - 1)) (the (cs_next_pos c level)) work of
           Inl e \<Rightarrow> Inl (Inl e)
         | Inr (None, work') \<Rightarrow> Inr (chain_back c, work')
         | Inr (Some pos, work') \<Rightarrow>
             let c = c\<lparr>cs_next_pos := (cs_next_pos c)(level := Some (pos + 1)),
                       cs_ends := (cs_ends c)(level := pos + unat (sk_payload_len step))\<rparr>
             in if level + 1 = unat (rk_step_count rule) then Inl (Inr (True, work'))
                else Inr (c\<lparr>cs_level := level + 1, cs_next_pos := (cs_next_pos c)(level + 1 := None)\<rparr>, work'))"

definition chain_pass ::
  "rule_set \<Rightarrow> rule_k \<Rightarrow> bytes \<Rightarrow> chain_state \<Rightarrow> nat \<Rightarrow> test_result + (chain_state \<times> nat)" where
  "chain_pass s rule payload c work =
     (let level = cs_level c; step = rs_steps s ! (rk_first_step rule + level)
      in case cs_next_pos c level of
           Some _ \<Rightarrow> chain_search s rule payload c work
         | None \<Rightarrow>
             (case step_window step (length payload) (cs_ends c (level - 1)) of
                None \<Rightarrow> Inr (chain_back c, work)
              | Some (wstart, wend) \<Rightarrow>
                  if wend - wstart < unat (sk_payload_len step) then Inr (chain_back c, work)
                  else chain_search s rule payload
                         (c\<lparr>cs_next_pos := (cs_next_pos c)(level := Some wstart),
                            cs_window_end := (cs_window_end c)(level := wend)\<rparr>) work))"

fun chain_loop :: "nat \<Rightarrow> rule_set \<Rightarrow> rule_k \<Rightarrow> bytes \<Rightarrow> chain_state \<Rightarrow> nat \<Rightarrow> test_result option" where
  "chain_loop 0 s rule payload c work = None"
| "chain_loop (Suc fuel) s rule payload c work =
     (if cs_level c = 0 then Some (Inr (False, work))
      else case chain_pass s rule payload c work of
             Inl result \<Rightarrow> Some result
           | Inr (c', work') \<Rightarrow> chain_loop fuel s rule payload c' work')"

definition chain_start :: "nat \<Rightarrow> chain_state" where
  "chain_start first_end = \<lparr>cs_level = 1, cs_ends = (\<lambda>_. 0)(0 := first_end), cs_next_pos = \<lambda>_. None,
     cs_window_end = \<lambda>_. 0\<rparr>"

text \<open>Every pass spends work or goes back a level, so twice the budget plus the level bounds the passes.\<close>

definition complete_chain :: "rule_set \<Rightarrow> rule_k \<Rightarrow> bytes \<Rightarrow> nat \<Rightarrow> nat \<Rightarrow> test_result" where
  "complete_chain s rule payload first_end work =
     (if rk_step_count rule = 1 then Inr (True, work)
      else case chain_loop (2 * work + 2) s rule payload (chain_start first_end) work of
             Some result \<Rightarrow> result
           | None \<Rightarrow> Inl E2BIG)"

section \<open>The gate\<close>

definition port_hit :: "port_k \<Rightarrow> u16 \<Rightarrow> u16 \<Rightarrow> bool" where
  "port_hit port sport dport \<longleftrightarrow>
     ((pk_endpoint port = JMX_V3_PORT_SOURCE \<or> pk_endpoint port = JMX_V3_PORT_EITHER) \<and>
      pk_min_port port \<le> sport \<and> sport \<le> pk_max_port port) \<or>
     ((pk_endpoint port = JMX_V3_PORT_DESTINATION \<or> pk_endpoint port = JMX_V3_PORT_EITHER) \<and>
      pk_min_port port \<le> dport \<and> dport \<le> pk_max_port port)"

fun gate_ports :: "port_k list \<Rightarrow> u16 \<Rightarrow> u16 \<Rightarrow> nat \<Rightarrow> test_result" where
  "gate_ports [] sport dport work = Inr (False, work)"
| "gate_ports (port # ports) sport dport work =
     (if work = 0 then Inl E2BIG
      else if port_hit port sport dport then Inr (True, work - 1)
      else gate_ports ports sport dport (work - 1))"

definition rule_gate :: "rule_set \<Rightarrow> rule_k \<Rightarrow> packet \<Rightarrow> nat \<Rightarrow> test_result" where
  "rule_gate s rule pkt work =
     (if work = 0 then Inl E2BIG
      else if rk_proto rule \<noteq> JMX_V3_PROTO_ANY \<and> rk_proto rule \<noteq> pk_proto pkt then Inr (False, work - 1)
      else if rk_dir rule \<noteq> JMX_V3_DIR_ANY \<and> rk_dir rule \<noteq> JMX_V3_DIR_BIDIRECTIONAL \<and> rk_dir rule \<noteq> pk_dir pkt
      then Inr (False, work - 1)
      else if rk_port_count rule = 0 then Inr (True, work - 1)
      else gate_ports (map (\<lambda>i. rs_ports s ! (rk_first_port rule + i)) [0..<unat (rk_port_count rule)])
             (pk_sport pkt) (pk_dport pkt) (work - 1))"

section \<open>Evaluating an occurrence\<close>

text \<open>The mutable part of \<open>struct match_context\<close>, with the counters of the set it points to.\<close>

record match_context =
  mc_best_appid :: u32
  mc_best_priority :: u32
  mc_best_rule_id :: u32
  mc_match_cnt :: "u64 list"

definition count_match :: "nat \<Rightarrow> match_context \<Rightarrow> match_context" where
  "count_match i ctx = ctx\<lparr>mc_match_cnt := (mc_match_cnt ctx)[i := mc_match_cnt ctx ! i + 1]\<rparr>"

definition prefer_rule :: "rule_k \<Rightarrow> match_context \<Rightarrow> match_context" where
  "prefer_rule rule ctx =
     (if rk_priority rule < mc_best_priority ctx \<or>
         (rk_priority rule = mc_best_priority ctx \<and> rk_signature_rule_id rule < mc_best_rule_id ctx)
      then ctx\<lparr>mc_best_appid := rk_appid rule, mc_best_priority := rk_priority rule,
               mc_best_rule_id := rk_signature_rule_id rule\<rparr>
      else ctx)"

definition evaluate_first :: "rule_set \<Rightarrow> packet \<Rightarrow> match_context emit_fn" where
  "evaluate_first s pkt ctx rule_index step_index start end work =
     (if step_index \<noteq> 0 \<or> length (rs_rules s) \<le> rule_index then (None, ctx, work)
      else let rule = rs_rules s ! rule_index
      in case rule_gate s rule pkt work of
           Inl e \<Rightarrow> (Some e, ctx, 0)
         | Inr (False, work) \<Rightarrow> (None, ctx, work)
         | Inr (True, work) \<Rightarrow>
             (case occurrence_valid (rs_steps s ! rk_first_step rule) (pk_payload pkt) 0 start end work of
                Inl e \<Rightarrow> (Some e, ctx, 0)
              | Inr (False, work) \<Rightarrow> (None, ctx, work)
              | Inr (True, work) \<Rightarrow>
                  (case complete_chain s rule (pk_payload pkt) end work of
                     Inl e \<Rightarrow> (Some e, ctx, 0)
                   | Inr (False, work) \<Rightarrow> (None, ctx, work)
                   | Inr (True, work) \<Rightarrow> (None, prefer_rule rule (count_match rule_index ctx), work))))"

record match_verdict =
  mv_appid :: u32
  mv_priority :: u32
  mv_mode :: u8

definition jmx_v3_match_payload :: "packet \<Rightarrow> v3_state \<Rightarrow> match_verdict \<times> v3_state" where
  "jmx_v3_match_payload pkt st =
     (if pk_payload pkt = [] then (\<lparr>mv_appid = 0, mv_priority = U32_MAX, mv_mode = 0\<rparr>, st)
      else case v3_active st of
        None \<Rightarrow> (\<lparr>mv_appid = 0, mv_priority = U32_MAX, mv_mode = 0\<rparr>, st)
      | Some s \<Rightarrow>
          if rs_mode s = JMX_V3_MODE_OFF then (\<lparr>mv_appid = 0, mv_priority = U32_MAX, mv_mode = 0\<rparr>, st)
          else case rs_ac s of
            None \<Rightarrow> (\<lparr>mv_appid = 0, mv_priority = U32_MAX, mv_mode = 0\<rparr>, st)
          | Some ac \<Rightarrow>
              let ctx = \<lparr>mc_best_appid = 0, mc_best_priority = U32_MAX, mc_best_rule_id = U32_MAX,
                    mc_match_cnt = rs_match_cnt s\<rparr>
              in case jmx_v3_ac_scan ac (pk_payload pkt) (evaluate_first s pkt) ctx JMX_V3_PACKET_WORK_BUDGET of
                   (rc, ctx, work) \<Rightarrow>
                     let st = st\<lparr>v3_active := Some (s\<lparr>rs_match_cnt := mc_match_cnt ctx\<rparr>)\<rparr>
                     in case rc of
                          None \<Rightarrow> (\<lparr>mv_appid = mc_best_appid ctx, mv_priority = mc_best_priority ctx,
                                    mv_mode = ucast (rs_mode s)\<rparr>, st)
                        | Some e \<Rightarrow> (\<lparr>mv_appid = 0, mv_priority = U32_MAX, mv_mode = ucast (rs_mode s)\<rparr>,
                                     if e = E2BIG then st\<lparr>v3_budget_exhausted := v3_budget_exhausted st + 1\<rparr> else st))"

definition jmx_v3_appid_for_commit :: "u32 \<Rightarrow> u8 \<Rightarrow> u32" where
  "jmx_v3_appid_for_commit appid mode = (if mode = ucast JMX_V3_MODE_ACTIVE then appid else 0)"

section \<open>Counters\<close>

record rule_row =
  rr_signature_rule_id :: u32
  rr_appid :: u32
  rr_priority :: u32
  rr_match_cnt :: u64

definition rule_row_of :: "rule_set \<Rightarrow> nat \<Rightarrow> rule_row" where
  "rule_row_of s i = (let rule = rs_rules s ! i in
     \<lparr>rr_signature_rule_id = rk_signature_rule_id rule, rr_appid = rk_appid rule, rr_priority = rk_priority rule,
      rr_match_cnt = rs_match_cnt s ! i\<rparr>)"

text \<open>The number returned, the rows written and the generation.  Without storage for rows the number is
  that of all rules.\<close>

definition jmx_v3_rule_match_snapshot :: "nat option \<Rightarrow> v3_state \<Rightarrow> nat \<times> rule_row list \<times> u32" where
  "jmx_v3_rule_match_snapshot max_rows st =
     (case v3_active st of
        None \<Rightarrow> (0, [], 0)
      | Some s \<Rightarrow>
          let n = length (rs_rules s)
          in case max_rows of
               None \<Rightarrow> (n, [], rs_generation s)
             | Some m \<Rightarrow> let n = (if m < n then m else n) in (n, map (rule_row_of s) [0..<n], rs_generation s))"

end
