(* ===== verification/V3Search.thy ===== *)
theory V3Search
  imports V3Match
begin

text \<open>
  Correctness of the matcher's parts: the byte comparison, the search for the next position and the
  backtracking over the steps of a chain decide the declarative notion of a matching chain.
\<close>

section \<open>What a chain is\<close>

definition step_equal :: "step_k \<Rightarrow> bytes \<Rightarrow> nat \<Rightarrow> bool" where
  "step_equal step payload pos \<longleftrightarrow> pos + unat (sk_payload_len step) \<le> length payload \<and>
     (let f = (if sk_case_mode step = JMX_V3_CASE_NOCASE then map fold_byte else id)
      in f (segment payload pos (unat (sk_payload_len step))) = f (take (unat (sk_payload_len step)) (sk_payload step)))"

definition step_at :: "step_k \<Rightarrow> bytes \<Rightarrow> nat \<Rightarrow> nat \<Rightarrow> bool" where
  "step_at step payload prev pos \<longleftrightarrow>
     (case step_window step (length payload) prev of
        None \<Rightarrow> False
      | Some (a, b) \<Rightarrow> a \<le> pos \<and> pos + unat (sk_payload_len step) \<le> b \<and>
          prev \<le> pos + unat (sk_payload_len step) \<and> step_equal step payload pos)"

text \<open>The steps can be placed one after another, each in its window relative to the end of the one before.\<close>

fun chain_from :: "step_k list \<Rightarrow> bytes \<Rightarrow> nat \<Rightarrow> bool" where
  "chain_from [] payload prev \<longleftrightarrow> True"
| "chain_from (step # steps) payload prev \<longleftrightarrow>
     (\<exists>pos. step_at step payload prev pos \<and> chain_from steps payload (pos + unat (sk_payload_len step)))"

section \<open>Comparing bytes\<close>

lemma exact_loop_ok:
  assumes "length (sk_payload step) = 64"
  shows "exact_loop step payload start left i work = Inr (m, work') \<Longrightarrow>
    start + i + left \<le> length payload \<Longrightarrow> i + left \<le> 64 \<Longrightarrow>
    (m \<longleftrightarrow> (let f = (if sk_case_mode step = JMX_V3_CASE_NOCASE then map fold_byte else id)
       in f (segment payload (start + i) left) = f (segment (sk_payload step) i left))) \<and>
    work' \<le> work \<and> work \<le> work' + left \<and> (m \<longrightarrow> work' + left = work)"
proof (induction left arbitrary: i work)
  case (Suc left)
  have seg: "segment payload (start + i) (Suc left) = payload ! (start + i) # segment payload (start + (i + 1)) left"
    "segment (sk_payload step) i (Suc left) = sk_payload step ! i # segment (sk_payload step) (i + 1) left"
    using Suc.prems(2,3) assms by (simp_all add: segment_def Cons_nth_drop_Suc [symmetric])
  have w: "work \<noteq> 0" using Suc.prems(1) by (auto split: if_splits)
  define f where "f = (if sk_case_mode step = JMX_V3_CASE_NOCASE then fold_byte else id)"
  have F: "(if sk_case_mode step = JMX_V3_CASE_NOCASE then map fold_byte else id) = map f"
    by (simp add: f_def)
  show ?case
  proof (cases "f (payload ! (start + i)) = f (sk_payload step ! i)")
    case True
    then have "exact_loop step payload start left (i + 1) (work - 1) = Inr (m, work')"
      using Suc.prems(1) w by (auto simp: f_def Let_def split: if_splits)
    from Suc.IH [OF this] Suc.prems(2,3) show ?thesis
      using True w unfolding seg Let_def F by auto
  next
    case False
    then have "m = False" "work' = work - 1"
      using Suc.prems(1) w by (auto simp: f_def Let_def split: if_splits)
    then show ?thesis using False w unfolding seg Let_def F by auto
  qed
qed (simp add: segment_def)

lemma exact_loop_enough: "left \<le> work \<Longrightarrow> \<exists>r. exact_loop step payload start left i work = Inr r"
  by (induction left arbitrary: i work) (auto simp: Let_def)

lemma exact_at_ok:
  assumes "step_ok step" and "exact_at step payload pos work = Inr (m, work')"
  shows "m \<longleftrightarrow> step_equal step payload pos" and "work' \<le> work" and "work \<le> work' + 64" and "m \<longrightarrow> work' < work"
proof -
  have len: "length (sk_payload step) = 64" "unat (sk_payload_len step) \<le> 64" "1 \<le> unat (sk_payload_len step)"
    using assms(1) by (simp_all add: step_ok_def word_le_nat_alt)
  have "(m \<longleftrightarrow> step_equal step payload pos) \<and> work' \<le> work \<and> work \<le> work' + 64 \<and> (m \<longrightarrow> work' < work)"
  proof (cases "pos + unat (sk_payload_len step) \<le> length payload")
    case True
    then have "exact_loop step payload pos (unat (sk_payload_len step)) 0 work = Inr (m, work')"
      using assms(2) by (auto simp: exact_at_def split: if_splits)
    from exact_loop_ok [OF len(1) this] True len show ?thesis
      by (auto simp: step_equal_def Let_def segment_def)
  next
    case False
    then show ?thesis using assms(2) by (auto simp: exact_at_def step_equal_def split: if_splits)
  qed
  then show "m \<longleftrightarrow> step_equal step payload pos" and "work' \<le> work" and "work \<le> work' + 64" and "m \<longrightarrow> work' < work"
    by simp_all
qed

lemma exact_at_enough: "step_ok step \<Longrightarrow> 64 \<le> work \<Longrightarrow> \<exists>r. exact_at step payload pos work = Inr r"
  unfolding exact_at_def
  using exact_loop_enough [of "unat (sk_payload_len step)" work] by (auto simp: step_ok_def word_le_nat_alt)

section \<open>The search for a position\<close>

definition first_from :: "(nat \<Rightarrow> bool) \<Rightarrow> nat \<Rightarrow> nat option \<Rightarrow> bool" where
  "first_from P pos r \<longleftrightarrow>
     (case r of None \<Rightarrow> \<forall>q \<ge> pos. \<not> P q | Some p \<Rightarrow> pos \<le> p \<and> P p \<and> (\<forall>q. pos \<le> q \<and> q < p \<longrightarrow> \<not> P q))"

lemma first_from_skip: "\<not> P pos \<Longrightarrow> first_from P (pos + 1) r \<Longrightarrow> first_from P pos r"
  unfolding first_from_def by (cases r) (simp_all add: Suc_le_eq, (metis le_neq_implies_less)+)

lemma first_from_here: "P pos \<Longrightarrow> first_from P pos (Some pos)"
  by (auto simp: first_from_def)

lemma first_split:
  fixes p :: nat
  assumes "n \<le> p" and "A p" and "\<And>q. n \<le> q \<Longrightarrow> q < p \<Longrightarrow> \<not> A q"
  shows "(\<exists>pos \<ge> n. A pos \<and> B pos) \<longleftrightarrow> B p \<or> (\<exists>pos \<ge> p + 1. A pos \<and> B pos)"
proof
  assume "\<exists>pos \<ge> n. A pos \<and> B pos"
  then obtain pos where pos: "n \<le> pos" "A pos" "B pos" by blast
  then have "\<not> pos < p" using assms(3) by blast
  then show "B p \<or> (\<exists>pos \<ge> p + 1. A pos \<and> B pos)" using pos by (cases "pos = p") auto
next
  assume "B p \<or> (\<exists>pos \<ge> p + 1. A pos \<and> B pos)"
  then show "\<exists>pos \<ge> n. A pos \<and> B pos" using assms(1,2) by (meson add_leD1 order_trans)
qed

definition fits :: "step_k \<Rightarrow> bytes \<Rightarrow> nat \<Rightarrow> nat \<Rightarrow> nat \<Rightarrow> bool" where
  "fits step payload wend prev q \<longleftrightarrow> q + unat (sk_payload_len step) \<le> wend \<and>
     prev \<le> q + unat (sk_payload_len step) \<and> step_equal step payload q"

lemma find_from_ok:
  "find_from step payload wend prev pos work = Inr (r, work') \<Longrightarrow> step_ok step \<Longrightarrow>
    first_from (fits step payload wend prev) pos r \<and> work' \<le> work \<and> (r \<noteq> None \<longrightarrow> work' < work)"
proof (induction step payload wend prev pos work rule: find_from.induct)
  case (1 step payload wend prev pos work)
  let ?n = "unat (sk_payload_len step)"
  note unfold = find_from.simps [of step payload wend prev pos work]
  show ?case
  proof (cases "pos \<le> wend \<and> ?n \<le> wend - pos")
    case True
    show ?thesis
    proof (cases "pos + ?n < prev")
      case before: True
      then have rest: "find_from step payload wend prev (pos + 1) work = Inr (r, work')"
        using "1.prems"(1) True by (simp add: unfold)
      have "\<not> fits step payload wend prev pos" using before by (simp add: fits_def)
      then show ?thesis using "1.IH"(1) [OF True before rest "1.prems"(2)] first_from_skip by blast
    next
      case after: False
      obtain m w where e: "exact_at step payload pos work = Inr (m, w)"
        using "1.prems"(1) True after by (cases "exact_at step payload pos work") (auto simp: unfold)
      note x = exact_at_ok [OF "1.prems"(2) e]
      show ?thesis
      proof (cases m)
        case found: True
        then have "r = Some pos" "work' = w" using "1.prems"(1) True after e by (simp_all add: unfold)
        moreover have "fits step payload wend prev pos" using x(1) found True after by (auto simp: fits_def)
        ultimately show ?thesis using x(2,4) found by (auto intro: first_from_here)
      next
        case no: False
        then have rest: "find_from step payload wend prev (pos + 1) w = Inr (r, work')"
          using "1.prems"(1) True after e by (simp add: unfold)
        have "\<not> fits step payload wend prev pos" using x(1) no by (simp add: fits_def)
        then show ?thesis
          using "1.IH"(2) [OF True after e _ _ rest "1.prems"(2)] no x(2) first_from_skip by fastforce
      qed
    qed
  next
    case False
    then have "r = None" "work' = work" using "1.prems"(1) by (auto simp: unfold)
    then show ?thesis using False by (auto simp: first_from_def fits_def)
  qed
qed

section \<open>Backtracking\<close>

text \<open>What the steps from \<open>level\<close> on still offer: at a level not yet entered any placement, at an entered
  one a placement of its step from the next position on.\<close>

definition pending :: "rule_set \<Rightarrow> rule_k \<Rightarrow> bytes \<Rightarrow> chain_state \<Rightarrow> nat \<Rightarrow> bool" where
  "pending s rule payload c level \<longleftrightarrow>
     (let steps = segment (rs_steps s) (rk_first_step rule) (unat (rk_step_count rule))
      in case cs_next_pos c level of
           None \<Rightarrow> chain_from (drop level steps) payload (cs_ends c (level - 1))
         | Some n \<Rightarrow> \<exists>pos \<ge> n. fits (steps ! level) payload (cs_window_end c level) (cs_ends c (level - 1)) pos \<and>
             chain_from (drop (level + 1) steps) payload (pos + unat (sk_payload_len (steps ! level))))"

definition chain_open :: "rule_set \<Rightarrow> rule_k \<Rightarrow> bytes \<Rightarrow> chain_state \<Rightarrow> bool" where
  "chain_open s rule payload c \<longleftrightarrow> (\<exists>level. 1 \<le> level \<and> level \<le> cs_level c \<and> pending s rule payload c level)"

lemma pending_cong:
  assumes "cs_next_pos c' level = cs_next_pos c level" and "cs_ends c' (level - 1) = cs_ends c (level - 1)"
    and "cs_window_end c' level = cs_window_end c level"
  shows "pending s rule payload c' level = pending s rule payload c level"
  unfolding pending_def assms ..

lemma chain_open_split:
  "1 \<le> cs_level c \<Longrightarrow> chain_open s rule payload c \<longleftrightarrow>
    (\<exists>level. 1 \<le> level \<and> level < cs_level c \<and> pending s rule payload c level) \<or> pending s rule payload c (cs_level c)"
  unfolding chain_open_def by (auto simp: le_less)

lemma chain_open_back:
  assumes "1 \<le> cs_level c" and "\<not> pending s rule payload c (cs_level c)"
  shows "chain_open s rule payload (chain_back c) \<longleftrightarrow> chain_open s rule payload c"
proof -
  have "pending s rule payload (chain_back c) level = pending s rule payload c level" if "level < cs_level c" for level
    by (rule pending_cong) (use that in \<open>simp_all add: chain_back_def\<close>)
  then have "chain_open s rule payload (chain_back c) \<longleftrightarrow>
      (\<exists>level. 1 \<le> level \<and> level < cs_level c \<and> pending s rule payload c level)"
    unfolding chain_open_def chain_back_def using assms(1)
    by simp (metis One_nat_def Suc_le_eq Suc_pred less_Suc_eq_le)
  then show ?thesis using chain_open_split [OF assms(1)] assms(2) by blast
qed


text \<open>A rule whose steps lie in the set.\<close>

definition steps_within :: "rule_set \<Rightarrow> rule_k \<Rightarrow> bool" where
  "steps_within s rule \<longleftrightarrow> list_all step_ok (rs_steps s) \<and>
     rk_first_step rule + unat (rk_step_count rule) \<le> length (rs_steps s) \<and> rk_step_count rule \<noteq> 0"

lemma steps_within_nth:
  assumes "steps_within s rule" and "level < unat (rk_step_count rule)"
  shows "segment (rs_steps s) (rk_first_step rule) (unat (rk_step_count rule)) ! level = rs_steps s ! (rk_first_step rule + level)"
    and "step_ok (rs_steps s ! (rk_first_step rule + level))"
    and "drop level (segment (rs_steps s) (rk_first_step rule) (unat (rk_step_count rule))) =
      rs_steps s ! (rk_first_step rule + level) #
      drop (level + 1) (segment (rs_steps s) (rk_first_step rule) (unat (rk_step_count rule)))"
proof -
  show nth: "segment (rs_steps s) (rk_first_step rule) (unat (rk_step_count rule)) ! level = rs_steps s ! (rk_first_step rule + level)"
    using assms by (intro segment_nth) (simp_all add: steps_within_def)
  show "step_ok (rs_steps s ! (rk_first_step rule + level))"
    using assms by (simp add: steps_within_def list_all_length)
  have "level < length (segment (rs_steps s) (rk_first_step rule) (unat (rk_step_count rule)))"
    using assms unfolding steps_within_def segment_def length_take length_drop by linarith
  from Cons_nth_drop_Suc [OF this] show "drop level (segment (rs_steps s) (rk_first_step rule) (unat (rk_step_count rule))) =
      rs_steps s ! (rk_first_step rule + level) #
      drop (level + 1) (segment (rs_steps s) (rk_first_step rule) (unat (rk_step_count rule)))"
    unfolding nth by simp
qed

text \<open>The outcome of a pass agrees with what was open before it, and costs budget or a level.\<close>

definition pass_ok :: "rule_set \<Rightarrow> rule_k \<Rightarrow> bytes \<Rightarrow> chain_state \<Rightarrow> nat \<Rightarrow> test_result + (chain_state \<times> nat) \<Rightarrow> bool" where
  "pass_ok s rule payload c work result \<longleftrightarrow>
     (case result of
        Inl (Inl e) \<Rightarrow> True
      | Inl (Inr (m, work')) \<Rightarrow> (m \<longleftrightarrow> chain_open s rule payload c) \<and> work' \<le> work
      | Inr (c', work') \<Rightarrow> (chain_open s rule payload c' \<longleftrightarrow> chain_open s rule payload c) \<and> work' \<le> work \<and>
          2 * work' + cs_level c' < 2 * work + cs_level c \<and> cs_level c' < unat (rk_step_count rule))"

lemma chain_search_ok:
  assumes within: "steps_within s rule" and level: "1 \<le> cs_level c" "cs_level c < unat (rk_step_count rule)"
    and n: "cs_next_pos c (cs_level c) = Some n"
  shows "pass_ok s rule payload c work (chain_search s rule payload c work)"
proof -
  define l step where "l = cs_level c" and "step = rs_steps s ! (rk_first_step rule + cs_level c)"
  define steps where "steps = segment (rs_steps s) (rk_first_step rule) (unat (rk_step_count rule))"
  define plen where "plen = unat (sk_payload_len step)"
  have st: "steps ! l = step" "step_ok step"
    using steps_within_nth [OF within level(2)] by (simp_all add: l_def step_def steps_def)
  have pend: "pending s rule payload c l \<longleftrightarrow>
      (\<exists>pos \<ge> n. fits step payload (cs_window_end c l) (cs_ends c (l - 1)) pos \<and> chain_from (drop (l + 1) steps) payload (pos + plen))"
    using n st(1) by (simp add: pending_def l_def steps_def plen_def)
  have ne: "cs_level c - Suc 0 \<noteq> cs_level c" using level(1) by linarith
  show ?thesis
  proof (cases "find_from step payload (cs_window_end c l) (cs_ends c (l - 1)) n work")
    case (Inl e)
    then show ?thesis using n by (simp add: chain_search_def pass_ok_def Let_def step_def l_def)
  next
    case (Inr rw)
    obtain r w where rw: "rw = (r, w)" by (cases rw)
    note F = find_from_ok [OF Inr [unfolded rw] st(2)]
    show ?thesis
    proof (cases r)
      case None
      then have "\<not> pending s rule payload c l" using F pend by (auto simp: first_from_def)
      then have "chain_open s rule payload (chain_back c) \<longleftrightarrow> chain_open s rule payload c"
        using chain_open_back [OF level(1)] by (simp add: l_def)
      moreover have "chain_search s rule payload c work = Inr (chain_back c, w)"
        using Inr rw None n by (simp add: chain_search_def Let_def step_def l_def)
      moreover have "2 * w + (cs_level c - 1) < 2 * work + cs_level c" "cs_level c - 1 < unat (rk_step_count rule)" "w \<le> work"
        using F level by linarith+
      ultimately show ?thesis by (simp add: pass_ok_def chain_back_def)
    next
      case (Some p)
      define c1 where "c1 = c\<lparr>cs_next_pos := (cs_next_pos c)(l := Some (p + 1)), cs_ends := (cs_ends c)(l := p + plen)\<rparr>"
      have p: "n \<le> p" "fits step payload (cs_window_end c l) (cs_ends c (l - 1)) p"
        and less: "\<And>q. n \<le> q \<Longrightarrow> q < p \<Longrightarrow> \<not> fits step payload (cs_window_end c l) (cs_ends c (l - 1)) q" and w: "w < work"
        using F Some by (auto simp: first_from_def)
      have here: "pending s rule payload c l \<longleftrightarrow> chain_from (drop (l + 1) steps) payload (p + plen) \<or> pending s rule payload c1 l"
      proof -
        have "pending s rule payload c1 l \<longleftrightarrow>
          (\<exists>pos \<ge> p + 1. fits step payload (cs_window_end c l) (cs_ends c (l - 1)) pos \<and> chain_from (drop (l + 1) steps) payload (pos + plen))"
          using st(1) ne by (simp add: pending_def c1_def steps_def plen_def l_def)
        then show ?thesis unfolding pend using first_split [where A = "fits step payload (cs_window_end c l) (cs_ends c (l - 1))", OF p less] by simp
      qed
      show ?thesis
      proof (cases "l + 1 = unat (rk_step_count rule)")
        case True
        then have "length steps \<le> l + 1" by (simp add: steps_def segment_def)
        then have "chain_open s rule payload c"
          using here chain_open_split [OF level(1)] by (simp add: l_def)
        moreover have "chain_search s rule payload c work = Inl (Inr (True, w))"
          using Inr rw Some n True by (simp add: chain_search_def Let_def step_def l_def)
        ultimately show ?thesis using w by (simp add: pass_ok_def)
      next
        case False
        define c2 where "c2 = c1\<lparr>cs_level := l + 1, cs_next_pos := (cs_next_pos c1)(l + 1 := None)\<rparr>"
        have run: "chain_search s rule payload c work = Inr (c2, w)"
          using Inr rw Some n False by (simp add: chain_search_def Let_def step_def l_def plen_def c1_def c2_def)
        have top: "pending s rule payload c2 (l + 1) \<longleftrightarrow> chain_from (drop (l + 1) steps) payload (p + plen)"
          by (simp add: pending_def c2_def c1_def steps_def)
        have at: "pending s rule payload c2 l = pending s rule payload c1 l"
          by (rule pending_cong) (use level(1) in \<open>simp_all add: c2_def l_def\<close>)
        have below: "pending s rule payload c2 k = pending s rule payload c k" if "k < l" for k
          by (rule pending_cong) (use that in \<open>auto simp: c2_def c1_def\<close>)
        have "chain_open s rule payload c2 \<longleftrightarrow> (\<exists>k. 1 \<le> k \<and> k < l \<and> pending s rule payload c k) \<or>
            pending s rule payload c1 l \<or> chain_from (drop (l + 1) steps) payload (p + plen)"
        proof -
          have "chain_open s rule payload c2 \<longleftrightarrow> (\<exists>k. 1 \<le> k \<and> k < l + 1 \<and> pending s rule payload c2 k) \<or> pending s rule payload c2 (l + 1)"
            using chain_open_split [of c2 s rule payload] by (simp add: c2_def)
          also have "(\<exists>k. 1 \<le> k \<and> k < l + 1 \<and> pending s rule payload c2 k) \<longleftrightarrow>
              (\<exists>k. 1 \<le> k \<and> k < l \<and> pending s rule payload c2 k) \<or> pending s rule payload c2 l"
            using level(1) unfolding l_def [symmetric] by (auto simp: less_Suc_eq)
          finally show ?thesis using top at below by auto
        qed
        also have "\<dots> \<longleftrightarrow> chain_open s rule payload c"
          unfolding chain_open_split [OF level(1)] l_def [symmetric] here by blast
        finally show ?thesis using run w level False by (simp add: pass_ok_def c2_def l_def)
      qed
    qed
  qed
qed


lemma pass_ok_cong:
  "chain_open s rule payload c' = chain_open s rule payload c \<Longrightarrow> cs_level c' = cs_level c \<Longrightarrow>
    pass_ok s rule payload c' work result = pass_ok s rule payload c work result"
  by (simp only: pass_ok_def)

lemma chain_pass_ok:
  assumes within: "steps_within s rule" and level: "1 \<le> cs_level c" "cs_level c < unat (rk_step_count rule)"
  shows "pass_ok s rule payload c work (chain_pass s rule payload c work)"
proof (cases "cs_next_pos c (cs_level c)")
  case (Some n)
  then show ?thesis using chain_search_ok [OF within level Some] by (simp add: chain_pass_def Let_def)
next
  case None
  define l step where "l = cs_level c" and "step = rs_steps s ! (rk_first_step rule + cs_level c)"
  define steps where "steps = segment (rs_steps s) (rk_first_step rule) (unat (rk_step_count rule))"
  define plen where "plen = unat (sk_payload_len step)"
  have st: "steps ! l = step" "drop l steps = step # drop (l + 1) steps"
    using steps_within_nth [OF within level(2)] by (simp_all add: l_def step_def steps_def)
  have pend: "pending s rule payload c l \<longleftrightarrow>
      (\<exists>pos. step_at step payload (cs_ends c (l - 1)) pos \<and> chain_from (drop (l + 1) steps) payload (pos + plen))"
    using None st by (simp add: pending_def l_def [symmetric] steps_def [symmetric] plen_def)
  have backs: "pass_ok s rule payload c work (chain_pass s rule payload c work)"
    if closed: "\<not> pending s rule payload c l" and run: "chain_pass s rule payload c work = Inr (chain_back c, work)"
  proof -
    have "chain_open s rule payload (chain_back c) \<longleftrightarrow> chain_open s rule payload c"
      using chain_open_back [OF level(1)] closed by (simp add: l_def)
    moreover have "cs_level c - 1 < cs_level c" "cs_level c - 1 < unat (rk_step_count rule)" using level by linarith+
    ultimately show ?thesis by (simp add: run pass_ok_def chain_back_def)
  qed
  show ?thesis
  proof (cases "step_window step (length payload) (cs_ends c (l - 1))")
    case none: None
    then have "\<not> pending s rule payload c l" unfolding pend by (simp add: step_at_def)
    then show ?thesis
      by (rule backs) (use none None in \<open>simp add: chain_pass_def Let_def l_def step_def\<close>)
  next
    case (Some ab)
    obtain a b where ab: "ab = (a, b)" by (cases ab)
    show ?thesis
    proof (cases "b - a < plen")
      case True
      moreover have "plen \<noteq> 0" using True by simp
      ultimately have "\<not> (a \<le> pos \<and> pos + plen \<le> b)" for pos by linarith
      then have "\<not> pending s rule payload c l"
        unfolding pend using Some ab by (auto simp: step_at_def plen_def)
      then show ?thesis
        by (rule backs) (use Some ab True None in \<open>simp add: chain_pass_def Let_def l_def step_def plen_def\<close>)
    next
      case False
      define c1 where "c1 = c\<lparr>cs_next_pos := (cs_next_pos c)(l := Some a), cs_window_end := (cs_window_end c)(l := b)\<rparr>"
      have run: "chain_pass s rule payload c work = chain_search s rule payload c1 work"
        using Some ab False None by (simp add: chain_pass_def Let_def l_def step_def plen_def c1_def)
      have lev: "cs_level c1 = cs_level c" by (simp add: c1_def)
      have "pending s rule payload c1 l \<longleftrightarrow> pending s rule payload c l"
      proof -
        have "step_at step payload (cs_ends c (l - 1)) pos \<longleftrightarrow> a \<le> pos \<and> fits step payload b (cs_ends c (l - 1)) pos" for pos
          using Some ab by (auto simp: step_at_def fits_def)
        then show ?thesis
          unfolding pend using st(1) by (simp add: pending_def c1_def steps_def [symmetric] plen_def conj_assoc)
      qed
      moreover have "pending s rule payload c1 k \<longleftrightarrow> pending s rule payload c k" if "k < l" for k
        by (rule pending_cong) (use that in \<open>simp_all add: c1_def\<close>)
      ultimately have opn: "chain_open s rule payload c1 = chain_open s rule payload c"
        using level(1) by (simp add: chain_open_split lev) (use l_def in blast)
      show ?thesis
        unfolding run pass_ok_cong [OF opn lev, symmetric]
        by (rule chain_search_ok [OF within]) (use level in \<open>simp_all add: lev\<close>, simp add: c1_def l_def)
    qed
  qed
qed

text \<open>The loop decides whether the state is open, and the fuel suffices.\<close>

lemma chain_loop_ok:
  assumes within: "steps_within s rule"
  shows "cs_level c < unat (rk_step_count rule) \<Longrightarrow> 2 * work + cs_level c < fuel \<Longrightarrow>
    \<exists>result. chain_loop fuel s rule payload c work = Some result \<and>
      (case result of Inl e \<Rightarrow> True | Inr (m, work') \<Rightarrow> (m \<longleftrightarrow> chain_open s rule payload c) \<and> work' \<le> work)"
proof (induction fuel arbitrary: c work)
  case (Suc fuel)
  show ?case
  proof (cases "cs_level c = 0")
    case True
    then show ?thesis by (simp add: chain_open_def)
  next
    case False
    then have "1 \<le> cs_level c" by simp
    note P = chain_pass_ok [OF within this Suc.prems(1), of payload work]
    show ?thesis
    proof (cases "chain_pass s rule payload c work")
      case (Inl result)
      then show ?thesis using P False by (auto simp: pass_ok_def split: sum.splits)
    next
      case (Inr cw)
      obtain c' work' where cw: "cw = (c', work')" by (cases cw)
      have "cs_level c' < unat (rk_step_count rule)" "2 * work' + cs_level c' < fuel" "work' \<le> work"
        and opn: "chain_open s rule payload c' \<longleftrightarrow> chain_open s rule payload c"
        using P Inr cw Suc.prems(2) by (auto simp: pass_ok_def)
      from Suc.IH [OF this(1,2)] this(3) show ?thesis
        using False Inr cw opn by (fastforce split: sum.splits)
    qed
  qed
qed simp

lemma unat_is_1: "unat w = Suc 0 \<longleftrightarrow> w = (1 :: 'a::len word)"
  by (metis One_nat_def unsigned_1 word_unat_eq_iff)

lemma complete_chain_ok:
  assumes within: "steps_within s rule" and run: "complete_chain s rule payload first_end work = Inr (m, work')"
  shows "m \<longleftrightarrow> chain_from (drop 1 (segment (rs_steps s) (rk_first_step rule) (unat (rk_step_count rule)))) payload first_end"
    and "work' \<le> work"
proof -
  let ?steps = "segment (rs_steps s) (rk_first_step rule) (unat (rk_step_count rule))"
  have "(m \<longleftrightarrow> chain_from (drop 1 ?steps) payload first_end) \<and> work' \<le> work"
  proof (cases "rk_step_count rule = 1")
    case True
    then have "drop 1 ?steps = []" by (simp add: segment_def)
    then show ?thesis using run True by (simp add: complete_chain_def)
  next
    case False
    have "unat (rk_step_count rule) \<noteq> 0" "unat (rk_step_count rule) \<noteq> 1"
      using within False by (auto simp: steps_within_def unat_eq_0 unat_is_1)
    then have lev: "cs_level (chain_start first_end) < unat (rk_step_count rule)" by (simp add: chain_start_def)
    have "2 * work + cs_level (chain_start first_end) < 2 * work + 2" by (simp add: chain_start_def)
    from chain_loop_ok [OF within lev this, of payload]
    have "(m \<longleftrightarrow> chain_open s rule payload (chain_start first_end)) \<and> work' \<le> work"
      using run False by (auto simp: complete_chain_def)
    moreover have "chain_open s rule payload (chain_start first_end) \<longleftrightarrow> chain_from (drop 1 ?steps) payload first_end"
      by (simp add: chain_open_split chain_start_def pending_def)
    ultimately show ?thesis by simp
  qed
  then show "m \<longleftrightarrow> chain_from (drop 1 ?steps) payload first_end" and "work' \<le> work" by simp_all
qed

text \<open>The loop itself never gives up: whatever the steps, it ends with an answer or with a spent budget.\<close>

lemma complete_chain_total:
  assumes "steps_within s rule" and "rk_step_count rule \<noteq> 1"
  shows "chain_loop (2 * work + 2) s rule payload (chain_start first_end) work = Some (complete_chain s rule payload first_end work)"
proof -
  have "unat (rk_step_count rule) \<noteq> 0" "unat (rk_step_count rule) \<noteq> 1"
    using assms by (auto simp: steps_within_def unat_eq_0 unat_is_1)
  then have "cs_level (chain_start first_end) < unat (rk_step_count rule)" by (simp add: chain_start_def)
  from chain_loop_ok [OF assms(1) this, of work "2 * work + 2" payload] show ?thesis
    using assms(2) by (auto simp: complete_chain_def chain_start_def)
qed

end
