(* ===== verification/V3Verdict.thy ===== *)
theory V3Verdict
  imports V3Search
begin

text \<open>
  The verdict on a packet: the pure function that \<open>evaluate_first\<close> computes on the match context, what
  it comes to over all occurrences, and the properties of the matcher.
\<close>

section \<open>Preference\<close>

text \<open>Rules are preferred by priority, then by id; the lower rank wins.\<close>

datatype rank = Rank (rank_priority: u32) (rank_id: u32)

instantiation rank :: linorder
begin

definition less_eq_rank :: "rank \<Rightarrow> rank \<Rightarrow> bool" where
  "less_eq_rank a b \<longleftrightarrow> rank_priority a < rank_priority b \<or> (rank_priority a = rank_priority b \<and> rank_id a \<le> rank_id b)"

definition less_rank :: "rank \<Rightarrow> rank \<Rightarrow> bool" where
  "less_rank a b \<longleftrightarrow> rank_priority a < rank_priority b \<or> (rank_priority a = rank_priority b \<and> rank_id a < rank_id b)"

instance
  by standard (auto simp: less_eq_rank_def less_rank_def intro: rank.expand)

end

definition rule_rank :: "rule_k \<Rightarrow> rank" where
  "rule_rank r = Rank (rk_priority r) (rk_signature_rule_id r)"

definition ctx_rank :: "match_context \<Rightarrow> rank" where
  "ctx_rank ctx = Rank (mc_best_priority ctx) (mc_best_rule_id ctx)"

lemma prefer_rule_rank:
  "prefer_rule r ctx = (if rule_rank r < ctx_rank ctx
     then ctx\<lparr>mc_best_appid := rk_appid r, mc_best_priority := rk_priority r, mc_best_rule_id := rk_signature_rule_id r\<rparr>
     else ctx)"
  by (simp add: prefer_rule_def rule_rank_def ctx_rank_def less_rank_def)

section \<open>The gate\<close>

definition gate_ok :: "rule_set \<Rightarrow> packet \<Rightarrow> rule_k \<Rightarrow> bool" where
  "gate_ok s pkt r \<longleftrightarrow> (rk_proto r = JMX_V3_PROTO_ANY \<or> rk_proto r = pk_proto pkt) \<and>
     (rk_dir r = JMX_V3_DIR_ANY \<or> rk_dir r = JMX_V3_DIR_BIDIRECTIONAL \<or> rk_dir r = pk_dir pkt) \<and>
     (rule_ports s r = [] \<or> (\<exists>p \<in> set (rule_ports s r). port_hit p (pk_sport pkt) (pk_dport pkt)))"

lemma gate_ports_ok:
  "gate_ports ports sport dport work = Inr (m, work') \<Longrightarrow>
    (m \<longleftrightarrow> (\<exists>p \<in> set ports. port_hit p sport dport)) \<and> work' \<le> work"
proof (induction ports arbitrary: work)
  case (Cons p ports)
  then show ?case by (fastforce split: if_splits)
qed simp

lemma gate_ports_cost:
  "length ports \<le> work \<Longrightarrow> \<exists>m work'. gate_ports ports sport dport work = Inr (m, work') \<and> work \<le> work' + length ports"
proof (induction ports arbitrary: work)
  case (Cons p ports)
  show ?case
  proof (cases "port_hit p sport dport")
    case False
    have "length ports \<le> work - 1" using Cons.prems by simp
    from Cons.IH [OF this] obtain m work' where
      "gate_ports ports sport dport (work - 1) = Inr (m, work')" "work - 1 \<le> work' + length ports" by blast
    then show ?thesis using False Cons.prems by (intro exI [of _ m] exI [of _ work']) auto
  next
    case True
    then show ?thesis using Cons.prems by (intro exI [of _ True] exI [of _ "work - 1"]) auto
  qed
qed (simp add: ex_bool_eq)

lemma linked_ports:
  assumes "rule_linked s r"
  shows "map (\<lambda>i. rs_ports s ! (rk_first_port r + i)) [0..<unat (rk_port_count r)] = rule_ports s r"
    and "rk_port_count r = 0 \<longleftrightarrow> rule_ports s r = []" and "length (rule_ports s r) \<le> 64"
proof -
  have le: "rk_first_port r + unat (rk_port_count r) \<le> length (rs_ports s)"
    and seg: "segment (rs_ports s) (rk_first_port r) (unat (rk_port_count r)) = rule_ports s r"
    and small: "unat (rk_port_count r) \<le> 64"
    using assms by (simp_all add: rule_linked_def)
  have len: "length (rule_ports s r) = unat (rk_port_count r)"
    unfolding seg [symmetric] using le by (simp add: segment_def)
  show "map (\<lambda>i. rs_ports s ! (rk_first_port r + i)) [0..<unat (rk_port_count r)] = rule_ports s r"
    unfolding seg [symmetric] using le by (intro nth_equalityI) (simp_all add: segment_def)
  show "rk_port_count r = 0 \<longleftrightarrow> rule_ports s r = []"
    using len by (metis length_0_conv unat_eq_0)
  show "length (rule_ports s r) \<le> 64" using len small by simp
qed

lemma rule_gate_ok:
  assumes "rule_linked s r" and "rule_gate s r pkt work = Inr (m, work')"
  shows "(m \<longleftrightarrow> gate_ok s pkt r) \<and> work' \<le> work"
proof -
  note P = linked_ports [OF assms(1)]
  show ?thesis
    using assms(2) gate_ports_ok [of "rule_ports s r" "pk_sport pkt" "pk_dport pkt" "work - 1" m work']
    unfolding rule_gate_def P(1) gate_ok_def P(2) by (auto split: if_splits)
qed

lemma rule_gate_cost:
  assumes "rule_linked s r" and "65 \<le> work"
  shows "\<exists>m work'. rule_gate s r pkt work = Inr (m, work') \<and> work \<le> work' + 65"
proof -
  note P = linked_ports [OF assms(1)]
  have "length (rule_ports s r) \<le> work - 1" using P(3) assms(2) by simp
  from gate_ports_cost [OF this, of "pk_sport pkt" "pk_dport pkt"] obtain m work' where
    "gate_ports (rule_ports s r) (pk_sport pkt) (pk_dport pkt) (work - 1) = Inr (m, work')"
    "work - 1 \<le> work' + length (rule_ports s r)" by blast
  then show ?thesis using assms(2) P(3) unfolding rule_gate_def P(1) by auto
qed

section \<open>What one occurrence does\<close>

definition rule_hit :: "rule_set \<Rightarrow> packet \<Rightarrow> nat \<Rightarrow> nat \<Rightarrow> nat \<Rightarrow> bool" where
  "rule_hit s pkt i st e \<longleftrightarrow> i < length (rs_rules s) \<and>
     (let r = rs_rules s ! i; step = rs_steps s ! rk_first_step r; payload = pk_payload pkt
      in gate_ok s pkt r \<and>
         (case step_window step (length payload) 0 of None \<Rightarrow> False | Some (a, b) \<Rightarrow> a \<le> st \<and> e \<le> b \<and> step_equal step payload st) \<and>
         chain_from (drop 1 (rule_steps s r)) payload e)"

definition eval_pure :: "rule_set \<Rightarrow> packet \<Rightarrow> match_context \<Rightarrow> nat \<times> nat \<times> nat \<times> nat \<Rightarrow> match_context" where
  "eval_pure s pkt ctx c = (case c of (i, sx, st, e) \<Rightarrow>
     if sx = 0 \<and> rule_hit s pkt i st e then prefer_rule (rs_rules s ! i) (count_match i ctx) else ctx)"

lemma published_rule:
  assumes "published_ok s" and "r \<in> set (rs_rules s)"
  shows "rule_linked s r" and "steps_within s r" and "rule_ok (rs_declared_caps s) r"
    and "segment (rs_steps s) (rk_first_step r) (unat (rk_step_count r)) = rule_steps s r"
    and "step_ok (rs_steps s ! rk_first_step r)"
    and "rule_steps s r = rs_steps s ! rk_first_step r # drop 1 (rule_steps s r)"
proof -
  show L: "rule_linked s r" using assms by (simp add: published_ok_def)
  show R: "rule_ok (rs_declared_caps s) r" using assms by (simp add: published_ok_def set_ok_def list_all_iff)
  show W: "steps_within s r"
    using assms(1) L R by (simp add: steps_within_def published_ok_def set_ok_def rule_linked_def rule_ok_def)
  show seg: "segment (rs_steps s) (rk_first_step r) (unat (rk_step_count r)) = rule_steps s r"
    using L by (simp add: rule_linked_def)
  have "0 < unat (rk_step_count r)" using R by (simp add: rule_ok_def unat_gt_0)
  note N = steps_within_nth [OF W this]
  show "step_ok (rs_steps s ! rk_first_step r)" using N(2) by simp
  show "rule_steps s r = rs_steps s ! rk_first_step r # drop 1 (rule_steps s r)" using N(3) by (simp add: seg)
qed

lemma evaluate_first_tracks:
  assumes "published_ok s"
  shows "tracks (evaluate_first s pkt) (eval_pure s pkt)"
  unfolding tracks_def
proof (intro allI impI)
  fix ctx i sx st e work ctx' work'
  assume run: "evaluate_first s pkt ctx i sx st e work = (None, ctx', work')"
  show "ctx' = eval_pure s pkt ctx (i, sx, st, e)"
  proof (cases "sx \<noteq> 0 \<or> length (rs_rules s) \<le> i")
    case True
    then show ?thesis using run by (auto simp: evaluate_first_def eval_pure_def rule_hit_def)
  next
    case False
    define r where "r = rs_rules s ! i"
    have i: "i < length (rs_rules s)" "sx = 0" using False by auto
    then have r: "r \<in> set (rs_rules s)" by (simp add: r_def)
    note pub = published_rule [OF assms r]
    let ?step = "rs_steps s ! rk_first_step r" and ?p = "pk_payload pkt"
    obtain g w1 where g: "rule_gate s r pkt work = Inr (g, w1)"
      using run i by (cases "rule_gate s r pkt work") (auto simp: evaluate_first_def r_def [symmetric])
    note G = rule_gate_ok [OF pub(1) g]
    define occ where "occ \<longleftrightarrow> (case step_window ?step (length ?p) 0 of
        None \<Rightarrow> False | Some (a, b) \<Rightarrow> a \<le> st \<and> e \<le> b \<and> step_equal ?step ?p st)"
    have pure: "eval_pure s pkt ctx (i, sx, st, e) =
        (if gate_ok s pkt r \<and> occ \<and> chain_from (drop 1 (rule_steps s r)) ?p e then prefer_rule r (count_match i ctx) else ctx)"
      unfolding eval_pure_def rule_hit_def r_def occ_def Let_def using i by simp
    show ?thesis
    proof (cases g)
      case False
      then show ?thesis using run i g G pure by (auto simp: evaluate_first_def r_def [symmetric])
    next
      case gate: True
      obtain o1 w2 where o: "occurrence_valid ?step ?p 0 st e w1 = Inr (o1, w2)"
        using run i g gate
        by (cases "occurrence_valid ?step ?p 0 st e w1") (auto simp: evaluate_first_def r_def [symmetric])
      have O: "o1 \<longleftrightarrow> occ"
        using o exact_at_ok(1) [OF pub(5), of ?p st w1] unfolding occurrence_valid_def occ_def
        by (auto split: option.splits if_splits)
      show ?thesis
      proof (cases o1)
        case False
        then show ?thesis using run i g gate o O pure by (auto simp: evaluate_first_def r_def [symmetric])
      next
        case occurs: True
        obtain m w3 where m: "complete_chain s r ?p e w2 = Inr (m, w3)"
          using run i g gate o occurs
          by (cases "complete_chain s r ?p e w2") (auto simp: evaluate_first_def r_def [symmetric])
        from complete_chain_ok(1) [OF pub(2) m] have "m \<longleftrightarrow> chain_from (drop 1 (rule_steps s r)) ?p e"
          by (simp add: pub(4))
        then show ?thesis
          using run i g gate G o occurs O m pure
          by (cases m) (auto simp: evaluate_first_def r_def [symmetric])
      qed
    qed
  qed
qed


section \<open>Over all occurrences\<close>

text \<open>A rule matches a packet: its gate is open and its chain of steps can be placed in the payload.\<close>

definition rule_matches :: "rule_set \<Rightarrow> packet \<Rightarrow> rule_k \<Rightarrow> bool" where
  "rule_matches s pkt r \<longleftrightarrow> gate_ok s pkt r \<and> chain_from (rule_steps s r) (pk_payload pkt) 0"

lemma fold_byte_eq: "fold_byte = v3_fold"
  by (rule ext) (simp add: fold_byte_def v3_fold_def)

lemma set_patterns_nth: "i < length (rs_rules s) \<Longrightarrow>
    set_patterns s ! i = first_pattern (rs_steps s) i (rk_first_step (rs_rules s ! i))"
  by (simp add: set_patterns_def)

lemma pattern_mem:
  "p \<in> set (set_patterns s) \<longleftrightarrow> (\<exists>i < length (rs_rules s). p = first_pattern (rs_steps s) i (rk_first_step (rs_rules s ! i)))"
  by (auto simp: set_patterns_def)

text \<open>The automaton folds case: where a first step is found, its pattern occurs.\<close>

lemma step_equal_occurs:
  assumes "step_ok (steps ! first)" and "step_equal (steps ! first) payload st"
  shows "occurs (first_pattern steps i first) payload st (st + unat (sk_payload_len (steps ! first)))"
proof -
  let ?step = "steps ! first"
  let ?n = "unat (sk_payload_len ?step)"
  have len: "?n \<le> length (sk_payload ?step)" and fits: "st + ?n \<le> length payload"
    using assms by (simp_all add: step_ok_def word_le_nat_alt step_equal_def)
  have "map v3_fold (segment payload st ?n) = map v3_fold (take ?n (sk_payload ?step))"
    using assms(2) by (auto simp: step_equal_def Let_def fold_byte_eq split: if_splits)
  then show ?thesis using len fits by (simp add: occurs_def first_pattern_def Let_def segment_def)
qed

lemma occurrence_of:
  assumes pub: "published_ok s" and ne: "rs_rules s \<noteq> []"
  shows "(i, 0, st, e) \<in> set (occurrences (set_patterns s) payload) \<Longrightarrow>
      i < length (rs_rules s) \<and> e = st + unat (sk_payload_len (rs_steps s ! rk_first_step (rs_rules s ! i)))"
    and "i < length (rs_rules s) \<Longrightarrow> step_equal (rs_steps s ! rk_first_step (rs_rules s ! i)) payload st \<Longrightarrow>
      (i, 0, st, st + unat (sk_payload_len (rs_steps s ! rk_first_step (rs_rules s ! i)))) \<in> set (occurrences (set_patterns s) payload)"
proof -
  have ps: "patterns_ok (set_patterns s)"
    using pub ne by (intro set_patterns_ok) (simp_all add: published_ok_def)
  show "(i, 0, st, e) \<in> set (occurrences (set_patterns s) payload) \<Longrightarrow>
      i < length (rs_rules s) \<and> e = st + unat (sk_payload_len (rs_steps s ! rk_first_step (rs_rules s ! i)))"
    unfolding occurrences_iff [OF ps] by (auto simp: pattern_mem first_pattern_def Let_def occurs_def)
  assume i: "i < length (rs_rules s)" and eq: "step_equal (rs_steps s ! rk_first_step (rs_rules s ! i)) payload st"
  have "rs_rules s ! i \<in> set (rs_rules s)" using i by simp
  note at = step_equal_occurs [OF published_rule(5) [OF pub this] eq, of i]
  have "first_pattern (rs_steps s) i (rk_first_step (rs_rules s ! i)) \<in> set (set_patterns s)"
    using i by (auto simp: pattern_mem)
  with at show "(i, 0, st, st + unat (sk_payload_len (rs_steps s ! rk_first_step (rs_rules s ! i)))) \<in> set (occurrences (set_patterns s) payload)"
    unfolding occurrences_iff [OF ps]
    by (intro bexI [of _ "first_pattern (rs_steps s) i (rk_first_step (rs_rules s ! i))"])
      (simp_all add: first_pattern_def Let_def)
qed

lemma matches_iff_hit:
  assumes pub: "published_ok s" and i: "i < length (rs_rules s)"
  shows "rule_matches s pkt (rs_rules s ! i) \<longleftrightarrow>
    (\<exists>st e. (i, 0, st, e) \<in> set (occurrences (set_patterns s) (pk_payload pkt)) \<and> rule_hit s pkt i st e)"
proof -
  define r where "r = rs_rules s ! i"
  define step where "step = rs_steps s ! rk_first_step r"
  have r: "r \<in> set (rs_rules s)" and ne: "rs_rules s \<noteq> []" using i by (auto simp: r_def)
  have chain: "chain_from (rule_steps s r) payload 0 \<longleftrightarrow>
      (\<exists>st. step_at step payload 0 st \<and> chain_from (drop 1 (rule_steps s r)) payload (st + unat (sk_payload_len step)))" for payload
    by (subst published_rule(6) [OF pub r]) (simp add: step_def)
  have hit: "rule_hit s pkt i st (st + unat (sk_payload_len step)) \<longleftrightarrow> gate_ok s pkt r \<and>
      step_at step (pk_payload pkt) 0 st \<and> chain_from (drop 1 (rule_steps s r)) (pk_payload pkt) (st + unat (sk_payload_len step))" for st
    unfolding rule_hit_def step_at_def Let_def r_def [symmetric] step_def [symmetric]
    using i by (auto split: option.splits)
  have eq: "step_at step (pk_payload pkt) 0 st \<Longrightarrow> step_equal step (pk_payload pkt) st" for st
    by (auto simp: step_at_def split: option.splits)
  show ?thesis
    unfolding rule_matches_def r_def [symmetric] chain
    using hit eq occurrence_of [OF pub ne, of i] i unfolding r_def [symmetric] step_def [symmetric] by blast
qed

text \<open>Folding the pure function keeps the least rank seen.\<close>

definition best_of :: "rule_k set \<Rightarrow> match_context \<Rightarrow> match_context \<Rightarrow> bool" where
  "best_of rs start ctx \<longleftrightarrow>
     (if \<exists>r \<in> rs. rule_rank r < ctx_rank start
      then \<exists>r \<in> rs. ctx_rank ctx = rule_rank r \<and> mc_best_appid ctx = rk_appid r \<and> (\<forall>q \<in> rs. rule_rank r \<le> rule_rank q)
      else ctx_rank ctx = ctx_rank start \<and> mc_best_appid ctx = mc_best_appid start)"

lemma best_of_skip: "best_of rs start ctx \<Longrightarrow> ctx_rank ctx' = ctx_rank ctx \<Longrightarrow> mc_best_appid ctx' = mc_best_appid ctx \<Longrightarrow>
    best_of rs start ctx'"
  by (simp add: best_of_def)

lemma ctx_rank_count [simp]: "ctx_rank (count_match i ctx) = ctx_rank ctx" "mc_best_appid (count_match i ctx) = mc_best_appid ctx"
  by (simp_all add: ctx_rank_def count_match_def)

lemma best_of_le: "best_of rs start ctx \<Longrightarrow> q \<in> rs \<Longrightarrow> ctx_rank ctx \<le> rule_rank q"
  by (auto simp: best_of_def split: if_splits)

lemma best_of_le_start: "best_of rs start ctx \<Longrightarrow> ctx_rank ctx \<le> ctx_rank start"
  by (auto simp: best_of_def split: if_splits dest: order_trans)

lemma best_of_insert:
  assumes "best_of rs start ctx"
  shows "best_of (insert r rs) start (prefer_rule r ctx)"
proof (cases "rule_rank r < ctx_rank ctx")
  case True
  have new: "ctx_rank (prefer_rule r ctx) = rule_rank r" "mc_best_appid (prefer_rule r ctx) = rk_appid r"
    using True by (simp_all add: prefer_rule_rank) (simp add: ctx_rank_def rule_rank_def)
  have "rule_rank r \<le> rule_rank q" if "q \<in> insert r rs" for q
    using that True best_of_le [OF assms] by fastforce
  moreover have "rule_rank r < ctx_rank start" using True best_of_le_start [OF assms] by simp
  ultimately show ?thesis using new unfolding best_of_def by auto
next
  case False
  then have same: "prefer_rule r ctx = ctx" by (simp add: prefer_rule_rank)
  show ?thesis
  proof (cases "\<exists>q \<in> rs. rule_rank q < ctx_rank start")
    case True
    then obtain q where "q \<in> rs" "ctx_rank ctx = rule_rank q" "mc_best_appid ctx = rk_appid q" "\<forall>x \<in> rs. rule_rank q \<le> rule_rank x"
      using assms by (auto simp: best_of_def)
    then show ?thesis using True False unfolding same best_of_def by auto
  next
    case none: False
    then have "ctx_rank ctx = ctx_rank start" "mc_best_appid ctx = mc_best_appid start"
      using assms by (simp_all add: best_of_def)
    then show ?thesis using none False unfolding same best_of_def by auto
  qed
qed

lemma best_of_foldl:
  "best_of rs start ctx \<Longrightarrow>
    best_of (rs \<union> {rs_rules s ! i | i st e. (i, 0, st, e) \<in> set calls \<and> rule_hit s pkt i st e}) start
      (foldl (eval_pure s pkt) ctx calls)"
proof (induction calls arbitrary: rs ctx)
  case (Cons c calls)
  obtain i sx st e where c: "c = (i, sx, st, e)" by (metis prod_cases4)
  show ?case
  proof (cases "sx = 0 \<and> rule_hit s pkt i st e")
    case True
    have "best_of rs start (count_match i ctx)" by (rule best_of_skip [OF Cons.prems]) simp_all
    then have "best_of (insert (rs_rules s ! i) rs) start (prefer_rule (rs_rules s ! i) (count_match i ctx))"
      by (rule best_of_insert)
    have step: "eval_pure s pkt ctx c = prefer_rule (rs_rules s ! i) (count_match i ctx)"
      using True by (simp add: c eval_pure_def)
    from Cons.IH [OF \<open>best_of (insert (rs_rules s ! i) rs) start _\<close>] have "best_of (insert (rs_rules s ! i) rs \<union> {rs_rules s ! i | i st e. (i, 0, st, e) \<in> set calls \<and> rule_hit s pkt i st e})
        start (foldl (eval_pure s pkt) ctx (c # calls))"
      using True step by simp
    moreover have "insert (rs_rules s ! i) rs \<union> {rs_rules s ! i | i st e. (i, 0, st, e) \<in> set calls \<and> rule_hit s pkt i st e} =
        rs \<union> {rs_rules s ! i | i st e. (i, 0, st, e) \<in> set (c # calls) \<and> rule_hit s pkt i st e}"
      using True by (auto simp: c)
    ultimately show ?thesis by metis
  next
    case False
    have "{rs_rules s ! i | i st e. (i, 0, st, e) \<in> set (c # calls) \<and> rule_hit s pkt i st e} =
        {rs_rules s ! i | i st e. (i, 0, st, e) \<in> set calls \<and> rule_hit s pkt i st e}"
      using False by (auto simp: c)
    moreover have "eval_pure s pkt ctx c = ctx" using False by (auto simp: c eval_pure_def)
    ultimately show ?thesis using Cons.IH [OF Cons.prems] by simp
  qed
qed simp

section \<open>The scan of a packet\<close>

text \<open>Every test fails only for want of budget.\<close>

lemma exact_at_error: "exact_at step payload pos work = Inl e \<Longrightarrow> e = E2BIG"
proof -
  have "exact_loop step payload st left i w = Inl e \<Longrightarrow> e = E2BIG" for st left i w
    by (induction left arbitrary: i w) (auto simp: Let_def split: if_splits)
  then show "exact_at step payload pos work = Inl e \<Longrightarrow> e = E2BIG" by (auto simp: exact_at_def split: if_splits)
qed

lemma occurrence_error: "occurrence_valid step payload prev st en work = Inl e \<Longrightarrow> e = E2BIG"
  by (auto simp: occurrence_valid_def dest: exact_at_error split: if_splits option.splits)

lemma find_from_error: "find_from step payload wend prev pos work = Inl e \<Longrightarrow> e = E2BIG"
proof (induction step payload wend prev pos work rule: find_from.induct)
  case (1 step payload wend prev pos work)
  show ?case
    using "1.prems" [unfolded find_from.simps [of step payload wend prev pos work]] "1.IH"
    by (fastforce split: if_splits sum.splits bool.splits dest: exact_at_error)
qed

lemma chain_pass_error: "chain_pass s rule payload c work = Inl (Inl e) \<Longrightarrow> e = E2BIG"
  by (auto simp: chain_pass_def chain_search_def Let_def dest!: find_from_error
      split: option.splits sum.splits if_splits prod.splits)

lemma complete_chain_error: "complete_chain s rule payload first work = Inl e \<Longrightarrow> e = E2BIG"
proof -
  have "chain_loop fuel s rule payload c w = Some (Inl e) \<Longrightarrow> e = E2BIG" for fuel c w
    by (induction fuel arbitrary: c w) (auto split: if_splits sum.splits prod.splits dest: chain_pass_error)
  then show "complete_chain s rule payload first work = Inl e \<Longrightarrow> e = E2BIG"
    by (auto simp: complete_chain_def simp del: chain_loop.simps split: if_splits option.splits)
qed

lemma rule_gate_error: "rule_gate s rule pkt work = Inl e \<Longrightarrow> e = E2BIG"
proof -
  have "gate_ports ports sport dport w = Inl e \<Longrightarrow> e = E2BIG" for ports sport dport w
    by (induction ports arbitrary: w) (auto split: if_splits)
  then show "rule_gate s rule pkt work = Inl e \<Longrightarrow> e = E2BIG" by (auto simp: rule_gate_def split: if_splits)
qed

lemma evaluate_first_exhausts: "only_exhausts (evaluate_first s pkt)"
  unfolding only_exhausts_def evaluate_first_def Let_def
  by (auto split: if_splits sum.splits bool.splits prod.splits
      dest: rule_gate_error occurrence_error complete_chain_error)

definition start_context :: "rule_set \<Rightarrow> match_context" where
  "start_context s = \<lparr>mc_best_appid = 0, mc_best_priority = U32_MAX, mc_best_rule_id = U32_MAX,
     mc_match_cnt = rs_match_cnt s\<rparr>"

definition final_context :: "rule_set \<Rightarrow> packet \<Rightarrow> match_context" where
  "final_context s pkt = foldl (eval_pure s pkt) (start_context s) (occurrences (set_patterns s) (pk_payload pkt))"

lemma published_nonempty: "published_ok s \<Longrightarrow> rs_mode s \<noteq> JMX_V3_MODE_OFF \<Longrightarrow> rs_rules s \<noteq> []"
  by (auto simp: published_ok_def set_ok_def rule_count_def)

lemma packet_scan:
  assumes pub: "published_ok s" and mode: "rs_mode s \<noteq> JMX_V3_MODE_OFF" and payload: "pk_payload pkt \<noteq> []"
    and ac: "rs_ac s = Some ac"
    and run: "jmx_v3_ac_scan ac (pk_payload pkt) (evaluate_first s pkt) (start_context s) work = (rc, ctx, work')"
  shows "(rc = None \<and> ctx = final_context s pkt) \<or> rc = Some E2BIG"
proof -
  note ne = published_nonempty [OF pub mode]
  have ps: "patterns_ok (set_patterns s)"
    using pub ne by (intro set_patterns_ok) (simp_all add: published_ok_def)
  obtain mem where "ac_of mem (set_patterns s) = Some ac" using pub ne ac by (auto simp: published_ok_def)
  from v3_engine.scan_outcome [OF ps this evaluate_first_tracks [OF pub] evaluate_first_exhausts payload run]
  show ?thesis by (simp add: final_context_def)
qed

lemma final_context_best:
  assumes pub: "published_ok s"
  shows "best_of {r \<in> set (rs_rules s). rule_matches s pkt r} (start_context s) (final_context s pkt)"
proof -
  define calls where "calls = occurrences (set_patterns s) (pk_payload pkt)"
  have all: "{rs_rules s ! i | i st e. (i, 0, st, e) \<in> set calls \<and> rule_hit s pkt i st e} =
      {r \<in> set (rs_rules s). rule_matches s pkt r}"
    using matches_iff_hit [OF pub, of _ pkt] by (auto simp: in_set_conv_nth rule_hit_def calls_def)
  have "best_of {} (start_context s) (start_context s)" by (simp add: best_of_def)
  from best_of_foldl [OF this, of s calls pkt]
  have "best_of {r \<in> set (rs_rules s). rule_matches s pkt r} (start_context s) (foldl (eval_pure s pkt) (start_context s) calls)"
    unfolding all Un_empty_left .
  then show ?thesis by (simp only: final_context_def calls_def)
qed

text \<open>The rule that wins: of the matching rules the one of least rank.  Rank \<open>U32_MAX, U32_MAX\<close> is where
  the contest starts, so a rule of that rank cannot win.\<close>

definition winner :: "rule_set \<Rightarrow> packet \<Rightarrow> rule_k \<Rightarrow> bool" where
  "winner s pkt r \<longleftrightarrow> r \<in> set (rs_rules s) \<and> rule_matches s pkt r \<and> rule_rank r < Rank U32_MAX U32_MAX \<and>
     (\<forall>q \<in> set (rs_rules s). rule_matches s pkt q \<longrightarrow> rule_rank r \<le> rule_rank q)"

lemma final_context_winner:
  assumes "published_ok s"
  shows "(\<exists>r. winner s pkt r \<and> mc_best_appid (final_context s pkt) = rk_appid r \<and>
       mc_best_priority (final_context s pkt) = rk_priority r) \<or>
     ((\<nexists>r. winner s pkt r) \<and> mc_best_appid (final_context s pkt) = 0 \<and> mc_best_priority (final_context s pkt) = U32_MAX)"
proof (cases "\<exists>r \<in> {r \<in> set (rs_rules s). rule_matches s pkt r}. rule_rank r < ctx_rank (start_context s)")
  case True
  then obtain r where r: "r \<in> set (rs_rules s)" "rule_matches s pkt r" "ctx_rank (final_context s pkt) = rule_rank r"
    "mc_best_appid (final_context s pkt) = rk_appid r"
    "\<forall>q \<in> {r \<in> set (rs_rules s). rule_matches s pkt r}. rule_rank r \<le> rule_rank q"
    using final_context_best [OF assms, of pkt] by (auto simp: best_of_def)
  moreover have "rule_rank r < Rank U32_MAX U32_MAX"
    using True r(5) le_less_trans by (fastforce simp: start_context_def ctx_rank_def)
  moreover have "mc_best_priority (final_context s pkt) = rk_priority r"
    using r(3) by (simp add: ctx_rank_def rule_rank_def)
  ultimately show ?thesis unfolding winner_def by blast
next
  case False
  then have "ctx_rank (final_context s pkt) = ctx_rank (start_context s)" "mc_best_appid (final_context s pkt) = 0"
    using final_context_best [OF assms, of pkt] by (auto simp: best_of_def start_context_def)
  moreover have "\<nexists>r. winner s pkt r" using False by (auto simp: winner_def start_context_def ctx_rank_def)
  ultimately show ?thesis by (simp add: ctx_rank_def start_context_def)
qed

section \<open>How often a rule is counted\<close>

lemma hits_distinct: "distinct (hits folded ps u)"
proof (induction u)
  case (Cons c u)
  have "i \<notin> set (hits folded ps u)" if "i \<in> set (equal_to folded ps (c # u))" for i
  proof
    assume "i \<in> set (hits folded ps u)"
    then have "length (folded (ps ! i)) \<le> length u" by (auto simp: hits_iff dest: suffix_length_le)
    then show False using that by (auto simp: equal_to_def)
  qed
  then show ?case using Cons by (auto simp: equal_to_def)
qed simp

lemma occurrences_distinct:
  assumes "\<forall>i < length ps. pat_rule_index (ps ! i) = i"
  shows "distinct (occurrences ps payload)"
proof -
  have "distinct (concat (map (\<lambda>e. map (call ps e) (hits folded ps (take e (map v3_fold payload)))) es))" if "distinct es" for es
    using that
  proof (induction es)
    case (Cons e es)
    have "inj_on (\<lambda>a. (pat_rule_index (ps ! a), pat_step_index (ps ! a), e - pat_len (ps ! a), e))
        (set (hits folded ps (take e (map v3_fold payload))))"
      using assms by (auto simp: inj_on_def hits_iff)
    then show ?case using Cons by (auto simp: distinct_map hits_distinct call_def)
  qed simp
  then show ?thesis unfolding occurrences_def by simp
qed

text \<open>The positions at which a rule's chain starts.\<close>

definition chain_starts :: "rule_set \<Rightarrow> packet \<Rightarrow> rule_k \<Rightarrow> nat set" where
  "chain_starts s pkt r = {st. gate_ok s pkt r \<and> step_at (rs_steps s ! rk_first_step r) (pk_payload pkt) 0 st \<and>
     chain_from (drop 1 (rule_steps s r)) (pk_payload pkt) (st + unat (sk_payload_len (rs_steps s ! rk_first_step r)))}"

lemma hit_iff_start:
  assumes pub: "published_ok s" and i: "i < length (rs_rules s)"
  shows "(i, 0, st, e) \<in> set (occurrences (set_patterns s) (pk_payload pkt)) \<and> rule_hit s pkt i st e \<longleftrightarrow>
    st \<in> chain_starts s pkt (rs_rules s ! i) \<and> e = st + unat (sk_payload_len (rs_steps s ! rk_first_step (rs_rules s ! i)))"
proof -
  define r step where "r = rs_rules s ! i" and "step = rs_steps s ! rk_first_step r"
  have ne: "rs_rules s \<noteq> []" using i by auto
  have hit: "rule_hit s pkt i st (st + unat (sk_payload_len step)) \<longleftrightarrow> st \<in> chain_starts s pkt r" for st
    unfolding rule_hit_def step_at_def Let_def chain_starts_def r_def [symmetric] step_def [symmetric]
    using i by (auto split: option.splits)
  have eq: "step_at step (pk_payload pkt) 0 st \<Longrightarrow> step_equal step (pk_payload pkt) st" for st
    by (auto simp: step_at_def split: option.splits)
  note occ = occurrence_of [OF pub ne, of i, folded r_def, folded step_def]
  show ?thesis
    unfolding r_def [symmetric] unfolding step_def [symmetric]
  proof
    assume A: "(i, 0, st, e) \<in> set (occurrences (set_patterns s) (pk_payload pkt)) \<and> rule_hit s pkt i st e"
    then have "e = st + unat (sk_payload_len step)" using occ(1) by blast
    then show "st \<in> chain_starts s pkt r \<and> e = st + unat (sk_payload_len step)" using A hit by blast
  next
    assume A: "st \<in> chain_starts s pkt r \<and> e = st + unat (sk_payload_len step)"
    then have "step_equal step (pk_payload pkt) st" using eq by (simp add: chain_starts_def step_def r_def)
    then show "(i, 0, st, e) \<in> set (occurrences (set_patterns s) (pk_payload pkt)) \<and> rule_hit s pkt i st e"
      using A hit occ(2) [OF i] by blast
  qed
qed

lemma count_foldl:
  "i < length (mc_match_cnt ctx) \<Longrightarrow>
    length (mc_match_cnt (foldl (eval_pure s pkt) ctx calls)) = length (mc_match_cnt ctx) \<and>
    mc_match_cnt (foldl (eval_pure s pkt) ctx calls) ! i = mc_match_cnt ctx ! i +
      word_of_nat (length (filter (\<lambda>(j, sx, st, e). j = i \<and> sx = 0 \<and> rule_hit s pkt j st e) calls))"
proof (induction calls arbitrary: ctx)
  case (Cons c calls)
  obtain j sx st e where c: "c = (j, sx, st, e)" by (metis prod_cases4)
  have keep: "mc_match_cnt (prefer_rule r x) = mc_match_cnt x" for r x by (simp add: prefer_rule_def)
  have "length (mc_match_cnt (eval_pure s pkt ctx c)) = length (mc_match_cnt ctx)"
    and "mc_match_cnt (eval_pure s pkt ctx c) ! i = mc_match_cnt ctx ! i +
      (if j = i \<and> sx = 0 \<and> rule_hit s pkt j st e then 1 else 0)"
    using Cons.prems by (cases "j = i"; auto simp: c eval_pure_def keep count_match_def)+
  then show ?case using Cons.IH [of "eval_pure s pkt ctx c"] Cons.prems by (simp add: c)
qed simp

lemma final_context_counts:
  assumes pub: "published_ok s" and i: "i < length (rs_rules s)"
  shows "mc_match_cnt (final_context s pkt) ! i = rs_match_cnt s ! i + word_of_nat (card (chain_starts s pkt (rs_rules s ! i)))"
    and "length (mc_match_cnt (final_context s pkt)) = length (rs_match_cnt s)"
proof -
  define P where "P = (\<lambda>(j, sx :: nat, st, e). j = i \<and> sx = 0 \<and> rule_hit s pkt j st e)"
  define occ where "occ = occurrences (set_patterns s) (pk_payload pkt)"
  define plen where "plen = unat (sk_payload_len (rs_steps s ! rk_first_step (rs_rules s ! i)))"
  have "unat (rs_rule_capacity s) = length (rs_rules s)"
  proof -
    have "unat (rs_rule_capacity s) < 2 ^ 32" using unsigned_less [of "rs_rule_capacity s"] by simp
    then have "length (rs_rules s) < 2 ^ 32" using pub by (simp add: published_ok_def set_ok_def)
    then have "unat (rule_count s) = length (rs_rules s)" by (simp add: rule_count_def unat_word_of_nat)
    then show ?thesis using pub by (simp add: published_ok_def)
  qed
  then have len: "length (mc_match_cnt (start_context s)) = length (rs_rules s)"
    using pub by (simp add: start_context_def published_ok_def set_ok_def)
  have dist: "distinct occ"
    unfolding occ_def by (rule occurrences_distinct) (simp add: set_patterns_def first_pattern_def Let_def)
  have "set (filter P occ) = (\<lambda>st. (i, 0, st, st + plen)) ` chain_starts s pkt (rs_rules s ! i)"
    using hit_iff_start [OF pub i, of _ _ pkt] by (auto simp: P_def occ_def plen_def)
  then have "card (set (filter P occ)) = card (chain_starts s pkt (rs_rules s ! i))"
    by (simp add: card_image inj_on_def)
  then have "length (filter P occ) = card (chain_starts s pkt (rs_rules s ! i))"
    using distinct_card [of "filter P occ"] dist by simp
  then show "mc_match_cnt (final_context s pkt) ! i = rs_match_cnt s ! i + word_of_nat (card (chain_starts s pkt (rs_rules s ! i)))"
    and "length (mc_match_cnt (final_context s pkt)) = length (rs_match_cnt s)"
    using count_foldl [of i "start_context s" s pkt occ] i len
    by (simp_all add: final_context_def occ_def P_def start_context_def)
qed

section \<open>Budget\<close>

lemma occurrence_cost:
  assumes "step_ok step" and "64 \<le> work"
  shows "\<exists>m work'. occurrence_valid step payload prev st e work = Inr (m, work') \<and> work \<le> work' + 64"
proof -
  obtain m w where x: "exact_at step payload st work = Inr (m, w)"
    using exact_at_enough [OF assms] by (metis prod.collapse)
  note exact_at_ok(3) [OF assms(1) x]
  then show ?thesis
    using x by (cases "step_window step (length payload) prev") (auto simp: occurrence_valid_def ex_bool_eq)
qed

text \<open>A rule of one step costs at most its gate, its ports and one comparison.\<close>

lemma evaluate_first_costs:
  assumes pub: "published_ok s" and single: "\<forall>r \<in> set (rs_rules s). rk_step_count r = 1"
  shows "costs (evaluate_first s pkt) 129"
  unfolding costs_def
proof (intro allI impI)
  fix ctx i sx st e work
  assume work: "129 \<le> (work :: nat)"
  show "\<exists>ctx' work'. evaluate_first s pkt ctx i sx st e work = (None, ctx', work') \<and> work \<le> work' + 129"
  proof (cases "sx \<noteq> 0 \<or> length (rs_rules s) \<le> i")
    case True
    then show ?thesis by (auto simp: evaluate_first_def)
  next
    case False
    define r where "r = rs_rules s ! i"
    have r: "r \<in> set (rs_rules s)" using False by (simp add: r_def)
    note pub = published_rule [OF pub r]
    obtain g w1 where g: "rule_gate s r pkt work = Inr (g, w1)" "work \<le> w1 + 65"
      using rule_gate_cost [OF pub(1), of work pkt] work by auto
    have "64 \<le> w1" using g(2) work by linarith
    from occurrence_cost [OF pub(5) this] obtain o1 w2 where
      o: "occurrence_valid (rs_steps s ! rk_first_step r) (pk_payload pkt) 0 st e w1 = Inr (o1, w2)" "w1 \<le> w2 + 64"
      by blast
    have "complete_chain s r (pk_payload pkt) e w2 = Inr (True, w2)"
      using single r by (simp add: complete_chain_def)
    then show ?thesis
      using False g o by (cases g; cases o1) (auto simp: evaluate_first_def r_def [symmetric])
  qed
qed

section \<open>Properties\<close>

subsection \<open>A published catalogue and a packet\<close>

definition demo_packet :: packet where
  "demo_packet = \<lparr>pk_payload = [120, 97, 98], pk_proto = 1, pk_dir = 1, pk_sport = 1000, pk_dport = 443\<rparr>"

definition demo_active :: "rule_set \<Rightarrow> v3_state" where
  "demo_active s = (demo_state False)\<lparr>v3_tx := tx_zero, v3_active := Some s\<rparr>"

lemma demo_published: "\<exists>s. publishes demo_set s"
proof -
  have "\<forall>site. alloc_ok demo_env site" by (simp add: demo_env_def)
  then show ?thesis
    using validate_complete [OF demo_set_ok demo_complete] validate_publishes [OF demo_set_ok] by blast
qed

lemma demo_published_facts:
  assumes "publishes demo_set s"
  shows "published_ok s" and "rs_mode s = 2" and "rs_steps s = [demo_step]"
    and "rs_rules s = [demo_rule]" and "set_patterns s = [first_pattern [demo_step] 0 0]"
proof -
  show pub: "published_ok s" using assms by (simp add: publishes_def)
  obtain rs ac stats where s: "s = demo_set\<lparr>rs_rules := rs, rs_ac := ac, rs_ac_stats := stats\<rparr>" and rs: "map unlinked rs = [demo_rule]"
    using assms by (auto simp: publishes_def demo_set_def)
  show "rs_mode s = 2" "rs_steps s = [demo_step]" by (simp_all add: s demo_set_def)
  obtain r where r: "rs = [r]" "unlinked r = demo_rule" using rs by auto
  have L: "rule_linked s r" using pub r by (simp add: published_ok_def s)
  have cnt: "rk_step_count r = 1" using arg_cong [OF r(2), of rk_step_count] by (simp add: unlinked_def demo_rule_def)
  have first: "rk_first_step r = 0" using L cnt by (simp add: rule_linked_def s demo_set_def)
  have port: "rk_first_port r = 0 \<and> unat (rk_port_count r) = 0" using L by (simp add: rule_linked_def s demo_set_def)
  then have "unlinked r = r" using first by (cases r) (simp add: unlinked_def unat_eq_0)
  then show "rs_rules s = [demo_rule]" by (simp add: s r(1) r(2) [symmetric])
  then show "set_patterns s = [first_pattern [demo_step] 0 0]"
    by (simp add: set_patterns_def s demo_set_def r(1)) (simp add: demo_rule_def)
qed

lemma demo_winner:
  assumes "publishes demo_set s"
  shows "winner s demo_packet r \<longleftrightarrow> r = demo_rule" and "chain_starts s demo_packet demo_rule = {1}"
proof -
  note f = demo_published_facts [OF assms]
  have ports: "rs_ports s = []"
    using assms by (auto simp: publishes_def demo_set_def)
  have at: "step_at demo_step [120, 97, 98] 0 pos \<longleftrightarrow> pos = 1" for pos
  proof -
    have "pos \<in> {0, 1}" if "pos + 2 \<le> 3" using that by auto
    then show ?thesis
      by (auto simp: step_at_def step_window_def demo_step_def pos_flag_def step_equal_def segment_def Let_def)
  qed
  have gate: "gate_ok s demo_packet demo_rule" by (simp add: gate_ok_def demo_rule_def rule_ports_def ports)
  have steps: "rule_steps s demo_rule = [demo_step]" by (simp add: rule_steps_def f(3) demo_step_def demo_rule_def)
  then have "rule_matches s demo_packet demo_rule"
    using gate at by (simp add: rule_matches_def demo_packet_def)
  then show "winner s demo_packet r \<longleftrightarrow> r = demo_rule"
    by (auto simp: winner_def f(4) rule_rank_def less_rank_def demo_rule_def)
  show "chain_starts s demo_packet demo_rule = {1}"
  proof -
    have "rs_steps s ! rk_first_step demo_rule = demo_step" by (simp add: f(3) demo_rule_def)
    then show ?thesis using gate by (simp add: chain_starts_def steps at [simplified] demo_packet_def)
  qed
qed

text \<open>The verdict of a packet whose budget sufficed: the winner's application, or none.\<close>

definition verdict_of :: "rule_set \<Rightarrow> packet \<Rightarrow> match_verdict \<Rightarrow> bool" where
  "verdict_of s pkt mv \<longleftrightarrow> mv_mode mv = ucast (rs_mode s) \<and>
     ((\<exists>r. winner s pkt r \<and> mv_appid mv = rk_appid r \<and> mv_priority mv = rk_priority r) \<or>
      ((\<nexists>r. winner s pkt r) \<and> mv_appid mv = 0 \<and> mv_priority mv = U32_MAX))"

definition packet_result :: "v3_state \<Rightarrow> rule_set \<Rightarrow> packet \<Rightarrow> match_verdict \<Rightarrow> v3_state \<Rightarrow> krc \<Rightarrow> match_context \<Rightarrow> bool" where
  "packet_result st s pkt mv st' rc ctx \<longleftrightarrow> (case rc of
       None \<Rightarrow> verdict_of s pkt mv \<and> st' = st\<lparr>v3_active := Some (s\<lparr>rs_match_cnt := mc_match_cnt (final_context s pkt)\<rparr>)\<rparr>
     | Some e \<Rightarrow> mv = \<lparr>mv_appid = 0, mv_priority = U32_MAX, mv_mode = ucast (rs_mode s)\<rparr> \<and>
         st' = st\<lparr>v3_active := Some (s\<lparr>rs_match_cnt := mc_match_cnt ctx\<rparr>), v3_budget_exhausted := v3_budget_exhausted st + 1\<rparr>)"

lemma match_payload_scan:
  assumes "v3_active st = Some s" and "published_ok s" and "rs_mode s \<noteq> JMX_V3_MODE_OFF" and "pk_payload pkt \<noteq> []"
    and "jmx_v3_match_payload pkt st = (mv, st')"
  shows "\<exists>ac rc ctx work. rs_ac s = Some ac \<and>
    jmx_v3_ac_scan ac (pk_payload pkt) (evaluate_first s pkt) (start_context s) JMX_V3_PACKET_WORK_BUDGET = (rc, ctx, work) \<and>
    packet_result st s pkt mv st' rc ctx"
proof -
  note ne = published_nonempty [OF assms(2,3)]
  obtain ac where ac: "rs_ac s = Some ac" using assms(2) ne by (auto simp: published_ok_def)
  obtain rc ctx work where run: "jmx_v3_ac_scan ac (pk_payload pkt) (evaluate_first s pkt) (start_context s) JMX_V3_PACKET_WORK_BUDGET = (rc, ctx, work)"
    by (metis prod_cases3)
  note S = packet_scan [OF assms(2-4) ac run]
  have eq: "(mv, st') = (let st = st\<lparr>v3_active := Some (s\<lparr>rs_match_cnt := mc_match_cnt ctx\<rparr>)\<rparr> in
      case rc of None \<Rightarrow> (\<lparr>mv_appid = mc_best_appid ctx, mv_priority = mc_best_priority ctx, mv_mode = ucast (rs_mode s)\<rparr>, st)
      | Some e \<Rightarrow> (\<lparr>mv_appid = 0, mv_priority = U32_MAX, mv_mode = ucast (rs_mode s)\<rparr>,
          if e = E2BIG then st\<lparr>v3_budget_exhausted := v3_budget_exhausted st + 1\<rparr> else st))"
    using assms(1,3-5) ac run by (simp add: jmx_v3_match_payload_def start_context_def [symmetric])
  have "verdict_of s pkt mv \<and> st' = st\<lparr>v3_active := Some (s\<lparr>rs_match_cnt := mc_match_cnt (final_context s pkt)\<rparr>)\<rparr>"
    if "rc = None"
    using eq S that final_context_winner [OF assms(2), of pkt] by (simp add: verdict_of_def)
  moreover have "mv = \<lparr>mv_appid = 0, mv_priority = U32_MAX, mv_mode = ucast (rs_mode s)\<rparr> \<and>
      st' = st\<lparr>v3_active := Some (s\<lparr>rs_match_cnt := mc_match_cnt ctx\<rparr>), v3_budget_exhausted := v3_budget_exhausted st + 1\<rparr>"
    if "rc = Some e" for e
    using eq S that by auto
  ultimately have "packet_result st s pkt mv st' rc ctx" by (simp add: packet_result_def split: option.split)
  then show ?thesis using ac run by blast
qed

text \<open>When every rule has one step and the budget covers the bytes and occurrences, the scan completes.\<close>

lemma match_payload_completes:
  assumes "v3_active st = Some s" and "published_ok s" and "rs_mode s \<noteq> JMX_V3_MODE_OFF" and "pk_payload pkt \<noteq> []"
    and "jmx_v3_match_payload pkt st = (mv, st')"
    and "\<forall>r \<in> set (rs_rules s). rk_step_count r = 1"
    and "20 * length (pk_payload pkt) + 130 * length (occurrences (set_patterns s) (pk_payload pkt)) \<le> 65536"
  shows "\<exists>ctx. packet_result st s pkt mv st' None ctx"
proof -
  obtain ac rc ctx work where ac: "rs_ac s = Some ac"
    and run: "jmx_v3_ac_scan ac (pk_payload pkt) (evaluate_first s pkt) (start_context s) JMX_V3_PACKET_WORK_BUDGET = (rc, ctx, work)"
    and R: "packet_result st s pkt mv st' rc ctx"
    using match_payload_scan [OF assms(1-5)] by blast
  note ne = published_nonempty [OF assms(2,3)]
  have ps: "patterns_ok (set_patterns s)"
    using assms(2) ne by (intro set_patterns_ok) (simp_all add: published_ok_def)
  obtain mem where built: "ac_of mem (set_patterns s) = Some ac" using assms(2) ne ac by (auto simp: published_ok_def)
  have "\<exists>ctx' work'. jmx_v3_ac_scan ac (pk_payload pkt) (evaluate_first s pkt) (start_context s) 65536 = (None, ctx', work')"
    by (rule v3_engine.scan_completes [OF ps built evaluate_first_costs [OF assms(2,6)] assms(4)]) (use assms(7) in simp)
  then have "rc = None" using run by auto
  then show ?thesis using R by blast
qed

lemma demo_run:
  assumes "publishes demo_set s"
  shows "v3_active (demo_active s) = Some s" and "rs_mode s \<noteq> JMX_V3_MODE_OFF" and "pk_payload demo_packet \<noteq> []"
    and "\<forall>r \<in> set (rs_rules s). rk_step_count r = 1"
    and "20 * length (pk_payload demo_packet) + 130 * length (occurrences (set_patterns s) (pk_payload demo_packet)) \<le> 65536"
proof -
  note f = demo_published_facts [OF assms]
  show "v3_active (demo_active s) = Some s" "rs_mode s \<noteq> JMX_V3_MODE_OFF" "pk_payload demo_packet \<noteq> []"
    "\<forall>r \<in> set (rs_rules s). rk_step_count r = 1"
    by (simp_all add: demo_active_def f demo_packet_def) (simp add: demo_rule_def)
  show "20 * length (pk_payload demo_packet) + 130 * length (occurrences (set_patterns s) (pk_payload demo_packet)) \<le> 65536"
    unfolding f(5)
    by (simp add: demo_packet_def occurrences_def upt_rec equal_to_def folded_def v3_fold_def first_pattern_def demo_step_def Let_def)
qed

text \<open>C7: the matcher decides the rules: against a published set that is not off, a non-empty payload
  either spends its budget (no application is reported and the event is counted), or the verdict is the
  application and priority of the winning rule: of the rules whose gate is open and whose chain of
  steps can be placed in the payload, the one of least priority and then least id; with no such rule
  the verdict is 0.\<close>

theorem match_verdict:
  assumes "v3_active st = Some s" and "published_ok s" and "rs_mode s \<noteq> JMX_V3_MODE_OFF" and "pk_payload pkt \<noteq> []"
    and "jmx_v3_match_payload pkt st = (mv, st')"
  shows "(verdict_of s pkt mv \<and> v3_budget_exhausted st' = v3_budget_exhausted st) \<or>
    (mv_appid mv = 0 \<and> mv_priority mv = U32_MAX \<and> v3_budget_exhausted st' = v3_budget_exhausted st + 1)"
proof -
  obtain rc ctx where "packet_result st s pkt mv st' rc ctx"
    using match_payload_scan [OF assms] by blast
  then show ?thesis by (cases rc) (simp_all add: packet_result_def)
qed

theorem match_verdict_witness:
  "\<exists>s mv st'. publishes demo_set s \<and> jmx_v3_match_payload demo_packet (demo_active s) = (mv, st') \<and>
     (mv_appid mv = 77 \<or> (mv_appid mv = 0 \<and> v3_budget_exhausted st' = 1))"
proof -
  obtain s where s: "publishes demo_set s" using demo_published by blast
  note f = demo_published_facts [OF s] and d = demo_run [OF s]
  obtain mv st' where run: "jmx_v3_match_payload demo_packet (demo_active s) = (mv, st')" by fastforce
  from match_verdict [OF d(1) f(1) d(2,3) run] have "mv_appid mv = 77 \<or> (mv_appid mv = 0 \<and> v3_budget_exhausted st' = 1)"
    by (auto simp: verdict_of_def demo_winner [OF s] demo_rule_def demo_active_def demo_state_def)
  then show ?thesis using s run by blast
qed

text \<open>A rule's counter counts placements, not packets: when the budget suffices, each counter grows by
  the number of positions at which that rule's chain starts, the loser's counters included, and nothing
  else of the module state changes.\<close>

theorem match_counts:
  assumes "v3_active st = Some s" and "published_ok s" and "rs_mode s \<noteq> JMX_V3_MODE_OFF" and "pk_payload pkt \<noteq> []"
    and "jmx_v3_match_payload pkt st = (mv, st')" and "v3_budget_exhausted st' = v3_budget_exhausted st"
  shows "\<exists>cnt. st' = st\<lparr>v3_active := Some (s\<lparr>rs_match_cnt := cnt\<rparr>)\<rparr> \<and> length cnt = length (rs_match_cnt s) \<and>
    (\<forall>i < length (rs_rules s). cnt ! i = rs_match_cnt s ! i + word_of_nat (card (chain_starts s pkt (rs_rules s ! i))))"
proof -
  obtain rc ctx where "packet_result st s pkt mv st' rc ctx"
    using match_payload_scan [OF assms(1-5)] by blast
  then have "st' = st\<lparr>v3_active := Some (s\<lparr>rs_match_cnt := mc_match_cnt (final_context s pkt)\<rparr>)\<rparr>"
    using assms(6) by (cases rc) (simp_all add: packet_result_def)
  moreover have "length (mc_match_cnt (final_context s pkt)) = length (rs_match_cnt s)"
    using published_nonempty [OF assms(2,3)] final_context_counts(2) [OF assms(2), of 0] by simp
  ultimately show ?thesis using final_context_counts(1) [OF assms(2)] by blast
qed

theorem match_counts_witness:
  "\<exists>s mv st' cnt. publishes demo_set s \<and> jmx_v3_match_payload demo_packet (demo_active s) = (mv, st') \<and>
     st' = demo_active (s\<lparr>rs_match_cnt := cnt\<rparr>) \<and> cnt ! 0 = rs_match_cnt s ! 0 + 1"
proof -
  obtain s where s: "publishes demo_set s" using demo_published by blast
  note f = demo_published_facts [OF s] and d = demo_run [OF s]
  obtain mv st' where run: "jmx_v3_match_payload demo_packet (demo_active s) = (mv, st')" by fastforce
  obtain ctx where "packet_result (demo_active s) s demo_packet mv st' None ctx"
    using match_payload_completes [OF d(1) f(1) d(2,3) run d(4,5)] by blast
  then have "v3_budget_exhausted st' = v3_budget_exhausted (demo_active s)" by (simp add: packet_result_def)
  from match_counts [OF d(1) f(1) d(2,3) run this] obtain cnt where
    "st' = (demo_active s)\<lparr>v3_active := Some (s\<lparr>rs_match_cnt := cnt\<rparr>)\<rparr>"
    "cnt ! 0 = rs_match_cnt s ! 0 + word_of_nat (card (chain_starts s demo_packet demo_rule))"
    by (auto simp: f(4))
  then have "st' = demo_active (s\<lparr>rs_match_cnt := cnt\<rparr>) \<and> cnt ! 0 = rs_match_cnt s ! 0 + 1"
    by (simp add: demo_winner(2) [OF s] demo_active_def)
  then show ?thesis using s run by blast
qed

text \<open>C38: the budget of 65536 suffices for rules of one step: if 20 units per byte and 130 per occurrence
  of a first step fit, the packet is decided, never given up.\<close>

theorem match_within_budget:
  assumes "v3_active st = Some s" and "published_ok s" and "rs_mode s \<noteq> JMX_V3_MODE_OFF" and "pk_payload pkt \<noteq> []"
    and "jmx_v3_match_payload pkt st = (mv, st')"
    and "\<forall>r \<in> set (rs_rules s). rk_step_count r = 1"
    and "20 * length (pk_payload pkt) + 130 * length (occurrences (set_patterns s) (pk_payload pkt)) \<le> 65536"
  shows "verdict_of s pkt mv \<and> v3_budget_exhausted st' = v3_budget_exhausted st"
  using match_payload_completes [OF assms] by (auto simp: packet_result_def)

theorem match_within_budget_witness:
  "\<exists>s mv st'. publishes demo_set s \<and> jmx_v3_match_payload demo_packet (demo_active s) = (mv, st') \<and>
     mv_appid mv = 77 \<and> v3_budget_exhausted st' = 0"
proof -
  obtain s where s: "publishes demo_set s" using demo_published by blast
  note f = demo_published_facts [OF s] and d = demo_run [OF s]
  obtain mv st' where run: "jmx_v3_match_payload demo_packet (demo_active s) = (mv, st')" by fastforce
  from match_within_budget [OF d(1) f(1) d(2,3) run d(4,5)]
  have "mv_appid mv = 77 \<and> v3_budget_exhausted st' = 0"
    by (auto simp: verdict_of_def demo_winner [OF s] demo_rule_def demo_active_def demo_state_def)
  then show ?thesis using s run by blast
qed

end
