(* ===== verification/V3Handler.thy ===== *)
theory V3Handler
  imports V3Verdict
begin

text \<open>
  The netlink handler of the v3 rule engine (\<open>jmx/src/jmx_v3_nl_handler.c\<close>): it checks a message's
  header, runs one transaction operation, and answers with a status message built from a snapshot.
  \<open>v3_nl_lock\<close> makes the request and its answer one step.

  A message is the bytes of its buffer (\<open>len\<close> is their number, a NULL pointer is no bytes); the reply
  callback is represented by whether it is there, and a call to it by the message handed to it.  The
  result of the callback only decides whether a warning is printed.
\<close>

unbundle bit_operations_syntax

section \<open>The answer\<close>

record nl_reply =
  rp_portid :: u32
  rp_seq :: u32
  rp_data :: bytes

definition status_of :: "u32 \<Rightarrow> u32 \<Rightarrow> u32 \<Rightarrow> u32 \<Rightarrow> v3_snapshot \<Rightarrow> v3_status" where
  "status_of request_action status reason detail snapshot =
     \<lparr>ss_request_action = request_action, ss_status = status, ss_reason = reason, ss_detail = detail,
      ss_engine_capabilities = sn_capabilities snapshot,
      ss_active_generation = sn_active_generation snapshot, ss_active_rules = sn_active_rules snapshot,
      ss_active_steps = sn_active_steps snapshot, ss_active_ports = sn_active_ports snapshot,
      ss_active_mode = sn_active_mode snapshot, ss_active_catalog_digest = sn_active_catalog_digest snapshot,
      ss_staging_generation = sn_staging_generation snapshot, ss_staging_state = sn_staging_state snapshot\<rparr>"

definition status_header :: "u32 \<Rightarrow> bytes \<Rightarrow> v3_hdr" where
  "status_header generation status =
     \<lparr>h_action = JMX_NL_ACT_RULESET_STATUS_V3, h_abi_version = JMX_RULE_ABI_V3, h_header_size = 32,
      h_record_size = 80, h_generation = generation, h_count = 1, h_payload_bytes = 80, h_flags = 0,
      h_crc32 = payload_crc32 status\<rparr>"

definition send_status ::
  "bool \<Rightarrow> u32 \<Rightarrow> u32 \<Rightarrow> u32 \<Rightarrow> u32 \<Rightarrow> u32 \<Rightarrow> u32 \<Rightarrow> u32 \<Rightarrow> v3_state \<Rightarrow> errno + nl_reply" where
  "send_status reply portid nlmsg_seq generation request_action status reason detail st =
     (if \<not> reply \<or> portid = 0 then Inl EINVAL
      else let body = enc_status (status_of request_action status reason detail (jmx_v3_get_snapshot st))
           in Inr \<lparr>rp_portid = portid, rp_seq = nlmsg_seq,
                   rp_data = enc_hdr (status_header generation body) @ body\<rparr>)"

section \<open>The request\<close>

definition action_is_v3 :: "u32 \<Rightarrow> bool" where
  "action_is_v3 action \<longleftrightarrow> JMX_NL_ACT_RULESET_BEGIN_V3 \<le> action \<and> action \<le> JMX_NL_ACT_CAPABILITY_V3"

definition action_is_batch :: "u32 \<Rightarrow> bool" where
  "action_is_batch action \<longleftrightarrow> action = JMX_NL_ACT_RULE_V3_BATCH \<or> action = JMX_NL_ACT_STEP_V3_BATCH \<or>
     action = JMX_NL_ACT_PORT_V3_BATCH"

definition expected_record_size :: "u32 \<Rightarrow> u32" where
  "expected_record_size action =
     (if action = JMX_NL_ACT_RULESET_BEGIN_V3 then 48
      else if action = JMX_NL_ACT_RULE_V3_BATCH then 24
      else if action = JMX_NL_ACT_STEP_V3_BATCH then 116
      else if action = JMX_NL_ACT_PORT_V3_BATCH then 12
      else 0)"

text \<open>\<open>check_add_overflow\<close> and \<open>check_mul_overflow\<close> of \<open>linux/overflow.h\<close> on \<open>u32\<close>: \<open>None\<close> on overflow.\<close>

definition check_add :: "u32 \<Rightarrow> u32 \<Rightarrow> u32 option" where
  "check_add a b = (if unat a + unat b < 2 ^ 32 then Some (a + b) else None)"

definition check_mul :: "u32 \<Rightarrow> u32 \<Rightarrow> u32 option" where
  "check_mul a b = (if unat a * unat b < 2 ^ 32 then Some (a * b) else None)"

text \<open>The checks of a header that is complete: the reason of the first that fails.\<close>

definition header_reason :: "v3_hdr \<Rightarrow> bytes \<Rightarrow> u32 option" where
  "header_reason h data =
     (if h_abi_version h \<noteq> JMX_RULE_ABI_V3 then Some JMX_V3_REASON_BAD_ABI
      else if h_header_size h \<noteq> 32 then Some JMX_V3_REASON_BAD_HEADER
      else if check_add 32 (h_payload_bytes h) \<noteq> Some (word_of_nat (length data)) then Some JMX_V3_REASON_BAD_SIZE
      else if payload_crc32 (take (unat (h_payload_bytes h)) (drop 32 data)) \<noteq> h_crc32 h
      then Some JMX_V3_REASON_BAD_CRC
      else None)"

definition bad_request :: "u32 \<Rightarrow> v3_state \<Rightarrow> outcome \<times> v3_state" where
  "bad_request reason st = ((Some EINVAL, reason, 0), st)"

text \<open>The requests without a payload.\<close>

definition is_control :: "u32 \<Rightarrow> bool" where
  "is_control action \<longleftrightarrow> action = JMX_NL_ACT_CAPABILITY_V3 \<or> action = JMX_NL_ACT_RULESET_STATUS_V3 \<or>
     action = JMX_NL_ACT_RULESET_COMMIT_V3 \<or> action = JMX_NL_ACT_RULESET_ABORT_V3"

definition control_request :: "kernel_env \<Rightarrow> u32 \<Rightarrow> v3_hdr \<Rightarrow> v3_state \<Rightarrow> outcome \<times> v3_state" where
  "control_request env portid h st =
     (let action = h_action h; generation = h_generation h
      in if h_record_size h \<noteq> 0 \<or> h_count h \<noteq> 0 \<or> h_payload_bytes h \<noteq> 0 \<or> h_flags h \<noteq> 0 \<or>
            (action = JMX_NL_ACT_CAPABILITY_V3 \<and> generation \<noteq> 0) \<or>
            ((action = JMX_NL_ACT_RULESET_COMMIT_V3 \<or> action = JMX_NL_ACT_RULESET_ABORT_V3) \<and> generation = 0)
         then bad_request JMX_V3_REASON_BAD_SIZE st
         else if action = JMX_NL_ACT_CAPABILITY_V3 \<or> action = JMX_NL_ACT_RULESET_STATUS_V3
         then ((None, JMX_V3_REASON_NONE, 0), st)
         else if action = JMX_NL_ACT_RULESET_COMMIT_V3 then jmx_v3_tx_commit env portid generation st
         else jmx_v3_tx_abort env portid generation st)"

text \<open>The requests with records: BEGIN and the three batches.\<close>

definition record_request :: "kernel_env \<Rightarrow> u32 \<Rightarrow> v3_hdr \<Rightarrow> bytes \<Rightarrow> v3_state \<Rightarrow> outcome \<times> v3_state" where
  "record_request env portid h payload st =
     (let action = h_action h; generation = h_generation h; count = h_count h;
          expected = expected_record_size action
      in if expected = 0 \<or> h_record_size h \<noteq> expected \<or> count = 0 \<or>
            check_mul count (h_record_size h) \<noteq> Some (h_payload_bytes h) \<or> generation = 0
         then bad_request JMX_V3_REASON_BAD_SIZE st
         else if action = JMX_NL_ACT_RULESET_BEGIN_V3
         then if count \<noteq> 1 then bad_request JMX_V3_REASON_BAD_SIZE st
              else jmx_v3_tx_begin env portid generation (Some (dec_begin payload)) (h_flags h) st
         else if h_flags h \<noteq> 0 then bad_request JMX_V3_REASON_BAD_HEADER st
         else if action = JMX_NL_ACT_RULE_V3_BATCH
         then jmx_v3_tx_add_rules env portid generation (rule_codec.records (unat count) payload) st
         else if action = JMX_NL_ACT_STEP_V3_BATCH
         then jmx_v3_tx_add_steps env portid generation (step_codec.records (unat count) payload) st
         else if action = JMX_NL_ACT_PORT_V3_BATCH
         then jmx_v3_tx_add_ports env portid generation (port_codec.records (unat count) payload) st
         else bad_request JMX_V3_REASON_UNSUPPORTED_ACTION st)"

text \<open>Everything before the label \<open>status\<close>, with the generation that the label reads.\<close>

definition run_request :: "kernel_env \<Rightarrow> u32 \<Rightarrow> bytes \<Rightarrow> v3_state \<Rightarrow> u32 \<times> outcome \<times> v3_state" where
  "run_request env portid data st =
     (if length data < 32 then (0, bad_request JMX_V3_REASON_BAD_HEADER st)
      else let h = dec_hdr data
      in (h_generation h,
          case header_reason h data of
            Some reason \<Rightarrow> bad_request reason st
          | None \<Rightarrow> if is_control (h_action h) then control_request env portid h st
                    else record_request env portid h (drop 32 data) st))"

text \<open>Whether the message was a v3 message, the message handed to the reply callback, and the new state.\<close>

definition jmx_v3_nl_handle ::
  "kernel_env \<Rightarrow> bytes \<Rightarrow> u32 \<Rightarrow> u32 \<Rightarrow> bool \<Rightarrow> v3_state \<Rightarrow> bool \<times> nl_reply option \<times> v3_state" where
  "jmx_v3_nl_handle env data portid nlmsg_seq reply st =
     (if length data < 4 then (False, None, st)
      else let action = get_le32 data 0
      in if \<not> action_is_v3 action then (False, None, st)
         else if portid = 0 \<or> nlmsg_seq = 0 then (True, None, st)
         else case run_request env portid data st of
           (generation, (rc, reason, detail), st) \<Rightarrow>
             let st = (if rc \<noteq> None \<and> generation \<noteq> 0 \<and> action_is_batch action
                       then jmx_v3_tx_fail env portid generation reason detail st else st)
             in (True,
                 (case send_status reply portid nlmsg_seq generation action
                         (if rc = None then JMX_V3_STATUS_OK else JMX_V3_STATUS_ERROR) reason detail st of
                    Inl _ \<Rightarrow> None | Inr r \<Rightarrow> Some r), st))"

end
