(* ===== verification/V3Engine.thy ===== *)
theory V3Engine
  imports V3Handler
begin

text \<open>
  The v3 engine as a state machine: netlink messages, the expiry timer, packets, and unloading are its
  steps.  The invariant of the transactions holds in every reachable state, whatever bytes arrive; with
  it the matcher's correctness needs no assumption on the published set.  Only a well-formed COMMIT of
  a live transaction changes the active set.
\<close>

section \<open>What a scan keeps\<close>

definition keeps :: "'c emit_fn \<Rightarrow> ('c \<Rightarrow> bool) \<Rightarrow> bool" where
  "keeps emit P \<longleftrightarrow> (\<forall>ctx r st s e work. P ctx \<longrightarrow> P (fst (snd (emit ctx r st s e work))))"

lemma keepsD: "keeps emit P \<Longrightarrow> P ctx \<Longrightarrow> emit ctx r st s e work = (rc, ctx', work') \<Longrightarrow> P ctx'"
  unfolding keeps_def by (metis fst_conv snd_conv)

lemma emit_outputs_keeps:
  assumes "keeps emit P"
  shows "P ctx \<Longrightarrow> emit_outputs emit outs e ctx work = (rc, ctx', work') \<Longrightarrow> P ctx'"
proof (induction outs arbitrary: ctx work)
  case (Cons out outs)
  then show ?case
    by (auto split: if_splits prod.splits option.splits dest: keepsD [OF assms Cons.prems(1)])
qed simp

lemma emit_nodes_keeps:
  assumes "keeps emit P"
  shows "P ctx \<Longrightarrow> emit_nodes emit ac ns e ctx work = (rc, ctx', work') \<Longrightarrow> P ctx'"
proof (induction ns arbitrary: ctx work)
  case (Cons n ns)
  then show ?case
    by (auto simp: emit_node_def Let_def split: prod.splits option.splits
        dest: emit_outputs_keeps [OF assms Cons.prems(1)])
qed simp

lemma scan_bytes_keeps:
  assumes "keeps emit P"
  shows "P ctx \<Longrightarrow> scan_bytes emit ac bs pos state ctx work = (rc, ctx', work') \<Longrightarrow> P ctx'"
proof (induction bs arbitrary: pos state ctx work)
  case (Cons b bs)
  show ?case
  proof (cases "work = 0 \<or> (\<exists>e. next_state ac state (v3_fold b) (work - 1) = Inl e)")
    case True
    then have "ctx' = ctx" using Cons.prems(2) by (cases "work = 0") auto
    then show ?thesis using Cons.prems(1) by simp
  next
    case False
    then obtain t w where n: "work \<noteq> 0" "next_state ac state (v3_fold b) (work - 1) = Inr (t, w)"
      by (cases "next_state ac state (v3_fold b) (work - 1)") auto
    obtain r c v where e: "emit_nodes emit ac (dict_nodes ac t) (pos + 1) ctx w = (r, c, v)" by (metis prod_cases3)
    have "P c" by (rule emit_nodes_keeps [OF assms Cons.prems(1) e])
    then show ?thesis using Cons.prems(2) Cons.IH n e by (cases r) auto
  qed
qed simp

lemma ac_scan_keeps:
  "keeps emit P \<Longrightarrow> P ctx \<Longrightarrow> jmx_v3_ac_scan ac payload emit ctx work = (rc, ctx', work') \<Longrightarrow> P ctx'"
  by (auto simp: jmx_v3_ac_scan_def split: if_splits dest: scan_bytes_keeps)

lemma evaluate_first_keeps: "keeps (evaluate_first s pkt) (\<lambda>ctx. length (mc_match_cnt ctx) = n)"
  unfolding keeps_def
  by (auto simp: evaluate_first_def Let_def count_match_def prefer_rule_def split: sum.split prod.split bool.split)

lemma published_counts:
  "length cnt = length (rs_match_cnt s) \<Longrightarrow> published_ok (s\<lparr>rs_match_cnt := cnt\<rparr>) \<longleftrightarrow> published_ok s"
  by (simp add: published_ok_def set_ok_def rule_linked_def set_patterns_def rule_count_def step_count_def port_count_def
      rule_steps_def rule_ports_def)

text \<open>A packet changes counters only.\<close>

lemma match_payload_effect:
  assumes "jmx_v3_match_payload pkt st = (mv, st')"
  shows "v3_tx st' = v3_tx st" and "v3_expire_due st' = v3_expire_due st" and "v3_running st' = v3_running st"
    and "v3_active st' = v3_active st \<or> (\<exists>s cnt. v3_active st = Some s \<and> length cnt = length (rs_match_cnt s) \<and>
      v3_active st' = Some (s\<lparr>rs_match_cnt := cnt\<rparr>))"
proof -
  have "v3_tx st' = v3_tx st \<and> v3_expire_due st' = v3_expire_due st \<and> v3_running st' = v3_running st \<and>
    (v3_active st' = v3_active st \<or> (\<exists>s cnt. v3_active st = Some s \<and> length cnt = length (rs_match_cnt s) \<and>
      v3_active st' = Some (s\<lparr>rs_match_cnt := cnt\<rparr>)))"
  proof (cases "\<exists>s ac. pk_payload pkt \<noteq> [] \<and> v3_active st = Some s \<and> rs_mode s \<noteq> JMX_V3_MODE_OFF \<and> rs_ac s = Some ac")
    case True
    then obtain s ac where s: "pk_payload pkt \<noteq> []" "v3_active st = Some s" "rs_mode s \<noteq> JMX_V3_MODE_OFF" "rs_ac s = Some ac"
      by blast
    define c0 where "c0 = \<lparr>mc_best_appid = 0, mc_best_priority = U32_MAX, mc_best_rule_id = U32_MAX,
        mc_match_cnt = rs_match_cnt s\<rparr>"
    obtain rc ctx work where run: "jmx_v3_ac_scan ac (pk_payload pkt) (evaluate_first s pkt) c0 JMX_V3_PACKET_WORK_BUDGET = (rc, ctx, work)"
      by (metis prod_cases3)
    have "length (mc_match_cnt ctx) = length (rs_match_cnt s)"
      by (rule ac_scan_keeps [OF evaluate_first_keeps _ run]) (simp add: c0_def)
    then show ?thesis
      using assms s run by (auto simp: jmx_v3_match_payload_def c0_def [symmetric] Let_def split: option.splits if_splits)
  next
    case False
    then show ?thesis
      using assms by (auto simp: jmx_v3_match_payload_def split: option.splits if_splits)
  qed
  then show "v3_tx st' = v3_tx st" "v3_expire_due st' = v3_expire_due st" "v3_running st' = v3_running st"
    "v3_active st' = v3_active st \<or> (\<exists>s cnt. v3_active st = Some s \<and> length cnt = length (rs_match_cnt s) \<and>
      v3_active st' = Some (s\<lparr>rs_match_cnt := cnt\<rparr>))"
    by blast+
qed

lemma v3_inv_packet:
  assumes "v3_inv st" and "jmx_v3_match_payload pkt st = (mv, st')"
  shows "v3_inv st'"
  using assms(1) match_payload_effect [OF assms(2)]
  by (auto simp: v3_inv_def staged_ok_def Let_def published_counts split: option.splits)

section \<open>Catalogue digests\<close>

text \<open>The digests of the staged and the active set.\<close>

definition digests_of :: "v3_state \<Rightarrow> bytes set" where
  "digests_of st = rs_catalog_digest ` (set_option (tx_set (v3_tx st)) \<union> set_option (v3_active st))"

lemma digests_expire: "digests_of (expire_staging_locked env st) \<subseteq> digests_of st"
  by (auto simp: digests_of_def expire_staging_locked_def)

lemma digests_owner: "check_owner_locked env owner gen allow st = (e, st') \<Longrightarrow> digests_of st' \<subseteq> digests_of st"
  by (cases e) (auto elim!: check_owner_ok dest!: check_owner_err dest: subsetD [OF digests_expire])

lemma digests_fail: "digests_of (fail_transaction_locked reason detail st) = digests_of st"
  by (simp add: digests_of_def fail_transaction_locked_def Let_def)

lemma digests_fail_with: "digests_of (snd (fail_with e st)) = digests_of st"
  by (cases e) (simp add: fail_with_def digests_fail)

lemma digests_tx_fail: "digests_of (jmx_v3_tx_fail env owner gen reason detail st) \<subseteq> digests_of st"
  by (auto simp: jmx_v3_tx_fail_def digests_fail split: prod.split option.split dest!: digests_owner)

lemma digests_staged:
  "tx_set (v3_tx st) = Some s \<Longrightarrow> rs_catalog_digest s' = rs_catalog_digest s \<Longrightarrow>
    digests_of (set_staged s' st) = digests_of st"
  by (simp add: digests_of_def set_staged_def)

lemma digests_renew [simp]: "digests_of (renew_transaction_locked env st) = digests_of st"
  by (simp add: digests_of_def renew_transaction_locked_def)

lemma validate_digest: "validate_and_index_set env s = (out, s') \<Longrightarrow> rs_catalog_digest s' = rs_catalog_digest s"
  by (auto simp: validate_and_index_set_def Let_def split: if_splits prod.splits option.splits index_error.splits sum.splits)

lemma digests_batches:
  "digests_of (snd (jmx_v3_tx_add_rules env owner gen rules st)) \<subseteq> digests_of st"
  "digests_of (snd (jmx_v3_tx_add_steps env owner gen steps st)) \<subseteq> digests_of st"
  "digests_of (snd (jmx_v3_tx_add_ports env owner gen ports st)) \<subseteq> digests_of st"
proof -
  obtain e st1 where chk: "check_owner_locked env owner gen False st = (e, st1)" by fastforce
  have "digests_of (snd (jmx_v3_tx_add_rules env owner gen rules st)) \<subseteq> digests_of st \<and>
    digests_of (snd (jmx_v3_tx_add_steps env owner gen steps st)) \<subseteq> digests_of st \<and>
    digests_of (snd (jmx_v3_tx_add_ports env owner gen ports st)) \<subseteq> digests_of st"
  proof (cases e)
    case None
    with chk obtain s where s: "st1 = st" "tx_set (v3_tx st) = Some s" by (auto elim: check_owner_ok)
    show ?thesis
      using chk None s
      by (simp add: jmx_v3_tx_add_rules_def jmx_v3_tx_add_steps_def jmx_v3_tx_add_ports_def Let_def digests_fail_with
          digests_staged split: sum.split)
  next
    case (Some err)
    then show ?thesis
      using chk digests_owner [OF chk]
      by (cases err) (simp add: jmx_v3_tx_add_rules_def jmx_v3_tx_add_steps_def jmx_v3_tx_add_ports_def)
  qed
  then show "digests_of (snd (jmx_v3_tx_add_rules env owner gen rules st)) \<subseteq> digests_of st"
    "digests_of (snd (jmx_v3_tx_add_steps env owner gen steps st)) \<subseteq> digests_of st"
    "digests_of (snd (jmx_v3_tx_add_ports env owner gen ports st)) \<subseteq> digests_of st" by simp_all
qed

lemma digests_commit: "digests_of (snd (jmx_v3_tx_commit env owner gen st)) \<subseteq> digests_of st"
proof -
  obtain e st1 where chk: "check_owner_locked env owner gen False st = (e, st1)" by fastforce
  show ?thesis
  proof (cases e)
    case None
    with chk obtain s where s: "st1 = st" "tx_set (v3_tx st) = Some s" by (auto elim: check_owner_ok)
    obtain out s' where v: "validate_and_index_set env s = (out, s')" by fastforce
    have "digests_of (set_staged s' st) = digests_of st" by (rule digests_staged [OF s(2) validate_digest [OF v]])
    moreover have "digests_of (st\<lparr>v3_tx := tx_zero, v3_active := Some s'\<rparr>) \<subseteq> digests_of st"
      using s validate_digest [OF v] by (simp add: digests_of_def)
    ultimately show ?thesis
      using chk None s v by (simp add: jmx_v3_tx_commit_def digests_fail_with split: prod.split option.split)
  next
    case (Some err)
    then show ?thesis using chk digests_owner [OF chk] by (cases err) (simp add: jmx_v3_tx_commit_def)
  qed
qed

lemma digests_abort: "digests_of (snd (jmx_v3_tx_abort env owner gen st)) \<subseteq> digests_of st"
  by (auto simp: jmx_v3_tx_abort_def digests_of_def split: prod.split option.split
      dest!: digests_owner [unfolded digests_of_def])

lemma digests_begin:
  "digests_of (snd (jmx_v3_tx_begin env owner gen (Some b) flags st)) \<subseteq> insert (bg_catalog_digest b) (digests_of st)"
  using digests_expire [of env st]
  by (auto simp: jmx_v3_tx_begin_def Let_def digests_of_def renew_transaction_locked_def begin_set_def split: option.split)

text \<open>A message is given as bytes; a digest is read from 32 of them.\<close>

definition digests_wf :: "v3_state \<Rightarrow> bool" where
  "digests_wf st \<longleftrightarrow> (\<forall>d \<in> digests_of st. length d = 32)"

lemma digests_wf_mono: "digests_wf st \<Longrightarrow> digests_of st' \<subseteq> digests_of st \<Longrightarrow> digests_wf st'"
  by (auto simp: digests_wf_def)

lemma snapshot_wf: "digests_wf st \<Longrightarrow> status_wf (status_of action status reason detail (jmx_v3_get_snapshot st))"
  by (auto simp: status_wf_def status_of_def jmx_v3_get_snapshot_def digests_wf_def digests_of_def Let_def split: option.split)

section \<open>The invariant under messages\<close>

definition engine_ok :: "v3_state \<Rightarrow> bool" where
  "engine_ok st \<longleftrightarrow> v3_inv st \<and> digests_wf st"

lemma engine_okI [inv_intros]:
  "v3_inv st' \<Longrightarrow> digests_of st' \<subseteq> digests_of st \<Longrightarrow> engine_ok st \<Longrightarrow> engine_ok st'"
  by (auto simp: engine_ok_def intro: digests_wf_mono)

lemma header_size_ok:
  assumes "header_reason h data = None" and "length data < 2 ^ 32"
  shows "length data = 32 + unat (h_payload_bytes h)" and "length (drop 32 data) = unat (h_payload_bytes h)"
proof -
  have add: "check_add 32 (h_payload_bytes h) = Some (word_of_nat (length data))"
    using assms(1) by (simp add: header_reason_def split: if_splits)
  then have lim: "32 + unat (h_payload_bytes h) < 2 ^ 32" and eq: "32 + h_payload_bytes h = word_of_nat (length data)"
    by (simp_all add: check_add_def split: if_splits)
  have "unat (32 + h_payload_bytes h) = (32 + unat (h_payload_bytes h)) mod 2 ^ 32"
    by (simp add: unat_word_ariths)
  also have "\<dots> = 32 + unat (h_payload_bytes h)" by (rule mod_less [OF lim])
  finally have "unat (32 + h_payload_bytes h) = 32 + unat (h_payload_bytes h)" .
  moreover have "unat (word_of_nat (length data) :: u32) = length data" using assms(2) by (simp add: unat_word_of_nat)
  ultimately show "length data = 32 + unat (h_payload_bytes h)" unfolding eq by (simp only:)
  then show "length (drop 32 data) = unat (h_payload_bytes h)" by simp
qed

lemma check_mul_Some: "check_mul a b = Some c \<Longrightarrow> unat c = unat a * unat b"
  by (auto simp: check_mul_def unat_word_ariths split: if_splits)

lemma control_request_inv: "engine_ok st \<Longrightarrow> engine_ok (snd (control_request env portid h st))"
  unfolding control_request_def Let_def bad_request_def
  by (auto simp: engine_ok_def v3_inv_commit v3_inv_abort
      intro: digests_wf_mono [OF _ digests_commit] digests_wf_mono [OF _ digests_abort])

lemma record_request_inv:
  assumes ok: "engine_ok st" and len: "length payload = unat (h_payload_bytes h)"
  shows "engine_ok (snd (record_request env portid h payload st))"
proof (cases "expected_record_size (h_action h) = 0 \<or> h_record_size h \<noteq> expected_record_size (h_action h) \<or>
    check_mul (h_count h) (h_record_size h) \<noteq> Some (h_payload_bytes h)")
  case True
  then have "record_request env portid h payload st = bad_request JMX_V3_REASON_BAD_SIZE st"
    unfolding record_request_def Let_def by auto
  then show ?thesis using ok by (simp add: bad_request_def)
next
  case False
  then have size: "length payload = unat (h_count h) * unat (expected_record_size (h_action h))"
    using len check_mul_Some by auto
  have small: "unat (h_count h) < 2 ^ 32" using unsigned_less [of "h_count h"] by simp
  have inv: "v3_inv st" and wf: "digests_wf st" using ok by (simp_all add: engine_ok_def)
  have step: "list_all step_wf (step_codec.records (unat (h_count h)) payload)" if "h_action h = 52"
    using size that by (intro step_codec.wf_records) (simp add: expected_record_size_def)
  have beg: "engine_ok (snd (jmx_v3_tx_begin env portid (h_generation h) (Some (dec_begin payload)) (h_flags h) st))"
    if "h_action h = 50" "h_count h = 1"
  proof -
    have "length payload = 48" using size that by (simp add: expected_record_size_def)
    then have "length (bg_catalog_digest (dec_begin payload)) = 32" by (simp add: dec_begin_def)
    then show ?thesis
      using wf digests_begin [of env portid "h_generation h" "dec_begin payload" "h_flags h" st] v3_inv_begin [OF inv]
      by (auto simp: engine_ok_def digests_wf_def)
  qed
  show ?thesis
    unfolding record_request_def Let_def bad_request_def
    using ok beg step small
      engine_okI [OF v3_inv_add_rules [OF inv] digests_batches(1) ok]
      engine_okI [OF v3_inv_add_steps [OF inv] digests_batches(2) ok]
      engine_okI [OF v3_inv_add_ports [OF inv] digests_batches(3) ok]
    by auto
qed

lemma run_request_inv:
  assumes "engine_ok st" and "length data < 2 ^ 32" and "run_request env portid data st = (gen, out, st')"
  shows "engine_ok st'"
proof -
  have "engine_ok (snd (snd (run_request env portid data st)))"
    using assms(1) control_request_inv record_request_inv header_size_ok(2) [OF _ assms(2)]
    by (auto simp: run_request_def Let_def bad_request_def split: option.split)
  then show ?thesis using assms(3) by simp
qed

lemma tx_fail_inv: "engine_ok st \<Longrightarrow> engine_ok (jmx_v3_tx_fail env owner gen reason detail st)"
  by (auto simp: engine_ok_def v3_inv_tx_fail intro: digests_wf_mono [OF _ digests_tx_fail])

lemma handle_inv:
  assumes "engine_ok st" and "length data < 2 ^ 32"
    and "jmx_v3_nl_handle env data portid seq reply st = (handled, out, st')"
  shows "engine_ok st'"
proof -
  obtain gen out1 st1 where run0: "run_request env portid data st = (gen, out1, st1)" by (metis prod_cases3)
  obtain rc reason detail where "out1 = (rc, reason, detail)" by (metis prod_cases3)
  with run0 have run: "run_request env portid data st = (gen, (rc, reason, detail), st1)" by simp
  have "engine_ok st1" by (rule run_request_inv [OF assms(1,2) run])
  then show ?thesis
    using assms(1,3) run
    by (auto simp: jmx_v3_nl_handle_def Let_def tx_fail_inv split: if_splits)
qed

section \<open>What changes the active set\<close>

lemma active_expire [simp]: "v3_active (expire_staging_locked env st) = v3_active st"
  by (simp add: expire_staging_locked_def)

lemma active_owner: "check_owner_locked env owner gen allow st = (e, st') \<Longrightarrow> v3_active st' = v3_active st"
  by (cases e) (auto elim!: check_owner_ok dest!: check_owner_err)

lemma active_fail [simp]: "v3_active (fail_transaction_locked reason detail st) = v3_active st"
  by (simp add: fail_transaction_locked_def Let_def)

lemma active_fail_with [simp]: "v3_active (snd (fail_with e st)) = v3_active st"
  by (cases e) (simp add: fail_with_def)

lemma active_tx_fail [simp]: "v3_active (jmx_v3_tx_fail env owner gen reason detail st) = v3_active st"
  by (auto simp: jmx_v3_tx_fail_def split: prod.split option.split dest: active_owner)

lemma active_renew [simp]: "v3_active (renew_transaction_locked env st) = v3_active st"
  by (simp add: renew_transaction_locked_def)

lemma active_staged [simp]: "v3_active (set_staged s st) = v3_active st"
  by (simp add: set_staged_def)

lemma active_batches [simp]:
  "v3_active (snd (jmx_v3_tx_add_rules env owner gen rules st)) = v3_active st"
  "v3_active (snd (jmx_v3_tx_add_steps env owner gen steps st)) = v3_active st"
  "v3_active (snd (jmx_v3_tx_add_ports env owner gen ports st)) = v3_active st"
  by (auto simp: jmx_v3_tx_add_rules_def jmx_v3_tx_add_steps_def jmx_v3_tx_add_ports_def Let_def
      split: prod.split option.split sum.split dest: active_owner)

lemma active_abort [simp]: "v3_active (snd (jmx_v3_tx_abort env owner gen st)) = v3_active st"
  by (auto simp: jmx_v3_tx_abort_def split: prod.split option.split dest: active_owner)

lemma active_begin [simp]: "v3_active (snd (jmx_v3_tx_begin env owner gen wire flags st)) = v3_active st"
  by (auto simp: jmx_v3_tx_begin_def Let_def split: option.split)

lemma active_commit:
  assumes inv: "v3_inv st" and changed: "v3_active (snd (jmx_v3_tx_commit env owner gen st)) \<noteq> v3_active st"
  shows "\<exists>s s'. live env owner gen st s \<and> \<not> tx_failed (v3_tx st) \<and> catalog_complete s \<and> publishes s s' \<and>
    snd (jmx_v3_tx_commit env owner gen st) = st\<lparr>v3_tx := tx_zero, v3_active := Some s'\<rparr>"
proof -
  obtain e st1 where chk: "check_owner_locked env owner gen False st = (e, st1)" by fastforce
  have e: "e = None"
    using changed chk by (cases e) (auto simp: jmx_v3_tx_commit_def dest: active_owner)
  with chk obtain s where s: "st1 = st" "v3_running st" "tx_set (v3_tx st) = Some s" "tx_owner_portid (v3_tx st) = owner"
    "tx_generation (v3_tx st) = gen" "rs_generation s = gen" "\<not> time_after_eq (jiffies env) (tx_deadline (v3_tx st))"
    "\<not> tx_failed (v3_tx st)"
    by (auto elim!: check_owner_ok)
  have ok: "set_ok s" "unindexed s" using v3_inv_live [OF inv s(3,8)] by auto
  obtain out s' where v: "validate_and_index_set env s = (out, s')" by fastforce
  obtain rc reason detail where out: "out = (rc, reason, detail)" by (metis prod_cases3)
  have rc: "rc = None"
    using changed chk e s v out by (cases rc) (auto simp: jmx_v3_tx_commit_def)
  have pub: "publishes s s'" using validate_publishes [OF ok] v out rc by blast
  then have "catalog_complete s" using validate_needs_complete [OF ok, of env] v out rc by simp
  then show ?thesis
    using pub chk e s v out rc by (auto simp: jmx_v3_tx_commit_def live_def)
qed

section \<open>Steps and reachable states\<close>

inductive v3_step :: "v3_state \<Rightarrow> v3_state \<Rightarrow> bool" where
  message: "length data < 2 ^ 32 \<Longrightarrow> jmx_v3_nl_handle env data portid seq reply st = (handled, out, st') \<Longrightarrow> v3_step st st'"
| timer: "v3_expire_due st = Some due \<Longrightarrow> time_after_eq (jiffies env) due \<Longrightarrow> v3_step st (v3_expire_work_fn env st)"
| packet: "jmx_v3_match_payload pkt st = (mv, st') \<Longrightarrow> v3_step st st'"
| unload: "v3_step st (jmx_v3_rules_exit st)"

inductive v3_reachable :: "v3_state \<Rightarrow> bool" where
  loaded: "v3_reachable jmx_v3_rules_init"
| next_state: "v3_reachable st \<Longrightarrow> v3_step st st' \<Longrightarrow> v3_reachable st'"

inductive_cases v3_stepE: "v3_step st st'"

lemma digests_work: "digests_of (v3_expire_work_fn env st) \<subseteq> digests_of st"
  by (auto simp: digests_of_def v3_expire_work_fn_def Let_def)

lemma digests_exit: "digests_of (jmx_v3_rules_exit st) = {}"
  by (simp add: digests_of_def jmx_v3_rules_exit_def Let_def)

lemma digests_packet: "jmx_v3_match_payload pkt st = (mv, st') \<Longrightarrow> digests_of st' \<subseteq> digests_of st"
  using match_payload_effect(1,4) [of pkt st mv st'] by (auto simp: digests_of_def)

lemma step_inv: "v3_step st st' \<Longrightarrow> engine_ok st \<Longrightarrow> engine_ok st'"
proof (induction rule: v3_step.induct)
  case (message data env portid seq reply st handled out st')
  show ?case by (rule handle_inv [OF message.prems message.hyps])
next
  case (timer st due env)
  have "v3_inv st" using timer.prems by (simp add: engine_ok_def)
  then show ?case by (rule engine_okI [OF v3_inv_work digests_work timer.prems])
next
  case (packet pkt st mv st')
  have "v3_inv st" using packet.prems by (simp add: engine_ok_def)
  then show ?case by (rule engine_okI [OF v3_inv_packet [OF _ packet.hyps] digests_packet [OF packet.hyps] packet.prems])
next
  case (unload st)
  then show ?case by (simp add: engine_ok_def v3_inv_exit digests_wf_def digests_exit)
qed

lemma reachable_ok: "v3_reachable st \<Longrightarrow> engine_ok st"
proof (induction rule: v3_reachable.induct)
  case loaded
  then show ?case using v3_inv_init by (simp add: engine_ok_def digests_wf_def digests_of_def jmx_v3_rules_init_def)
next
  case (next_state st st')
  then show ?case by (blast intro: step_inv)
qed

text \<open>A message that the handler answers, in terms of the request it ran.\<close>

lemma handle_run:
  assumes "4 \<le> length data" and "action_is_v3 (get_le32 data 0)" and "portid \<noteq> 0" and "seq \<noteq> 0"
    and "run_request env portid data st = (gen, (rc, reason, detail), st1)"
    and "st2 = (if rc \<noteq> None \<and> gen \<noteq> 0 \<and> action_is_batch (get_le32 data 0)
      then jmx_v3_tx_fail env portid gen reason detail st1 else st1)"
  shows "jmx_v3_nl_handle env data portid seq True st = (True,
    Some \<lparr>rp_portid = portid, rp_seq = seq, rp_data =
      (let body = enc_status (status_of (get_le32 data 0) (if rc = None then JMX_V3_STATUS_OK else JMX_V3_STATUS_ERROR)
         reason detail (jmx_v3_get_snapshot st2)) in enc_hdr (status_header gen body) @ body)\<rparr>, st2)"
  using assms by (simp add: jmx_v3_nl_handle_def send_status_def Let_def)

lemma dec_hdr_action: "h_action (dec_hdr data) = get_le32 data 0"
  by (simp add: dec_hdr_def)

lemma control_active:
  "v3_active (snd (control_request env portid h st)) \<noteq> v3_active st \<Longrightarrow>
    h_action h = JMX_NL_ACT_RULESET_COMMIT_V3 \<and> h_payload_bytes h = 0 \<and>
    control_request env portid h st = jmx_v3_tx_commit env portid (h_generation h) st"
  by (auto simp: control_request_def bad_request_def Let_def split: if_splits)

lemma record_active: "v3_active (snd (record_request env portid h payload st)) = v3_active st"
  by (simp add: record_request_def bad_request_def Let_def)

lemma run_request_active:
  assumes "run_request env portid data st = (gen, out, st')" and "v3_active st' \<noteq> v3_active st"
  shows "32 \<le> length data \<and> header_reason (dec_hdr data) data = None \<and> get_le32 data 0 = JMX_NL_ACT_RULESET_COMMIT_V3 \<and>
    h_payload_bytes (dec_hdr data) = 0 \<and> gen = h_generation (dec_hdr data) \<and>
    (out, st') = jmx_v3_tx_commit env portid (h_generation (dec_hdr data)) st"
proof (cases "length data < 32 \<or> header_reason (dec_hdr data) data \<noteq> None \<or> \<not> is_control (get_le32 data 0)")
  case True
  then have "v3_active (snd (snd (run_request env portid data st))) = v3_active st"
    by (auto simp: run_request_def bad_request_def Let_def record_active dec_hdr_action split: option.split)
  then show ?thesis using assms by simp
next
  case False
  then have run: "run_request env portid data st =
      (h_generation (dec_hdr data), control_request env portid (dec_hdr data) st)"
    by (simp add: run_request_def Let_def dec_hdr_action)
  then have "control_request env portid (dec_hdr data) st = (out, st')" using assms(1) by simp
  then have "v3_active (snd (control_request env portid (dec_hdr data) st)) \<noteq> v3_active st"
    using assms(2) by simp
  from control_active [OF this] show ?thesis
    using False run assms(1) by (simp add: dec_hdr_action)
qed

section \<open>Properties\<close>

text \<open>C22: every state the module can reach, by any sequence of messages of any bytes and any port, timer
  runs, packets, and unloading, satisfies the invariant: a staged set belongs to a port, has a generation
  different from the active one and its expiry work queued for its deadline, and is well formed unless
  the transaction failed; an active set is published, that is complete, linked and compiled.\<close>

theorem engine_invariant:
  assumes "v3_reachable st"
  shows "v3_inv st \<and> digests_wf st"
  using reachable_ok [OF assms] by (simp add: engine_ok_def)

theorem engine_invariant_witness:
  "v3_inv (snd (snd (jmx_v3_nl_handle demo_env [50, 0, 0, 0, 3] 4 1 True jmx_v3_rules_init)))"
proof -
  obtain h out st' where run: "jmx_v3_nl_handle demo_env [50, 0, 0, 0, 3] 4 1 True jmx_v3_rules_init = (h, out, st')"
    by (metis prod_cases3)
  have "v3_reachable st'"
    by (rule v3_reachable.next_state [OF v3_reachable.loaded v3_step.message [OF _ run]]) simp
  from engine_invariant [OF this] show ?thesis by (simp add: run)
qed

text \<open>C23: only a COMMIT changes what packets are matched against.  If a message changes the active set, it is
  a header without payload, well formed and with a correct checksum, from the owner of a live unfailed
  transaction of that generation whose staged catalogue is complete; the new active set is that
  catalogue, linked and compiled, and the staging slot is empty.\<close>

theorem active_only_by_commit:
  assumes inv: "v3_inv st" and len: "length data < 2 ^ 32"
    and run: "jmx_v3_nl_handle env data portid seq reply st = (handled, out, st')"
    and changed: "v3_active st' \<noteq> v3_active st"
  shows "length data = 32 \<and> header_reason (dec_hdr data) data = None \<and>
    h_action (dec_hdr data) = JMX_NL_ACT_RULESET_COMMIT_V3 \<and>
    (\<exists>s s'. live env portid (h_generation (dec_hdr data)) st s \<and> \<not> tx_failed (v3_tx st) \<and> catalog_complete s \<and>
      publishes s s' \<and> st' = st\<lparr>v3_tx := tx_zero, v3_active := Some s'\<rparr>)"
proof -
  obtain gen out1 st1 where req: "run_request env portid data st = (gen, out1, st1)" by (metis prod_cases3)
  have "st' = st \<or> v3_active st' = v3_active st1" and st': "\<not> action_is_batch (get_le32 data 0) \<Longrightarrow> st' = st \<or> st' = st1"
    using run req by (auto simp: jmx_v3_nl_handle_def Let_def split: if_splits prod.splits)
  then have "v3_active st1 \<noteq> v3_active st" using changed by auto
  note R = run_request_active [OF req this]
  then have "st' = st1" using changed st' by (auto simp: action_is_batch_def)
  then have "st' = snd (jmx_v3_tx_commit env portid (h_generation (dec_hdr data)) st)" using R by (metis snd_conv)
  then show ?thesis
    using R active_commit [OF inv, of env portid "h_generation (dec_hdr data)"] changed header_size_ok(1) [OF _ len, of "dec_hdr data"]
    by (simp add: dec_hdr_action)
qed

text \<open>A request as bytes: its header, with the checksum of its payload, and the payload.\<close>

lemma dec_hdr_enc [simp]: "dec_hdr (enc_hdr h @ bs) = h"
  by (simp add: dec_hdr_def enc_hdr_def wire_simps)

lemma length_enc_hdr [simp]: "length (enc_hdr h) = 32"
  by (simp add: enc_hdr_def)

lemma action_enc_hdr [simp]: "get_le32 (enc_hdr h @ bs) 0 = h_action h" "get_le32 (enc_hdr h) 0 = h_action h"
  by (simp_all add: enc_hdr_def)

definition request_header :: "u32 \<Rightarrow> u32 \<Rightarrow> u32 \<Rightarrow> u32 \<Rightarrow> u32 \<Rightarrow> bytes \<Rightarrow> v3_hdr" where
  "request_header action generation flags record_size count payload =
     \<lparr>h_action = action, h_abi_version = JMX_RULE_ABI_V3, h_header_size = 32, h_record_size = record_size,
      h_generation = generation, h_count = count, h_payload_bytes = word_of_nat (length payload), h_flags = flags,
      h_crc32 = payload_crc32 payload\<rparr>"

lemma request_header_sel [simp]:
  "h_action (request_header action generation flags record_size count payload) = action"
  "h_generation (request_header action generation flags record_size count payload) = generation"
  "h_flags (request_header action generation flags record_size count payload) = flags"
  "h_record_size (request_header action generation flags record_size count payload) = record_size"
  "h_count (request_header action generation flags record_size count payload) = count"
  "h_payload_bytes (request_header action generation flags record_size count payload) = word_of_nat (length payload)"
  by (simp_all add: request_header_def)

lemma request_header_ok:
  assumes "length payload + 32 < 2 ^ 32"
  shows "header_reason (request_header action generation flags record_size count payload)
    (enc_hdr h @ payload) = None"
proof -
  have "unat (word_of_nat (length payload) :: u32) = length payload" using assms by (simp add: unat_word_of_nat)
  then show ?thesis using assms by (simp add: header_reason_def request_header_def check_add_def)
qed

lemma demo_commit:
  "\<exists>reason detail s'. jmx_v3_tx_commit demo_env 4 9 (demo_state False) =
     ((None, reason, detail), (demo_state False)\<lparr>v3_tx := tx_zero, v3_active := Some s'\<rparr>) \<and> publishes demo_set s'"
proof -
  have "\<forall>site. alloc_ok demo_env site" by (simp add: demo_env_def)
  then obtain detail s' where v: "validate_and_index_set demo_env demo_set = ((None, JMX_V3_REASON_NONE, detail), s')"
    using validate_complete [OF demo_set_ok demo_complete] by blast
  have "the (tx_set (v3_tx (demo_state False))) = demo_set" by (simp add: demo_state_def)
  then have "jmx_v3_tx_commit demo_env 4 9 (demo_state False) =
      ((None, JMX_V3_REASON_NONE, detail), (demo_state False)\<lparr>v3_tx := tx_zero, v3_active := Some s'\<rparr>)"
    using v by (simp add: jmx_v3_tx_commit_def demo_check)
  then show ?thesis using validate_publishes [OF demo_set_ok v] by blast
qed

theorem active_only_by_commit_witness:
  "\<exists>out st'. jmx_v3_nl_handle demo_env (enc_hdr (request_header 54 9 0 0 0 [])) 4 1 True (demo_state False) = (True, out, st') \<and>
     v3_active st' \<noteq> None \<and> live demo_env 4 9 (demo_state False) demo_set"
proof -
  obtain reason detail s' where c: "jmx_v3_tx_commit demo_env 4 9 (demo_state False) =
      ((None, reason, detail), (demo_state False)\<lparr>v3_tx := tx_zero, v3_active := Some s'\<rparr>)"
    using demo_commit by blast
  define data where "data = enc_hdr (request_header 54 9 0 0 0 [])"
  have hdr: "dec_hdr data = request_header 54 9 0 0 0 []" using dec_hdr_enc [of _ "[]"] by (simp add: data_def)
  have "control_request demo_env 4 (request_header 54 9 0 0 0 []) (demo_state False) =
      jmx_v3_tx_commit demo_env 4 9 (demo_state False)"
    by (simp add: control_request_def Let_def)
  then have "run_request demo_env 4 data (demo_state False) =
      (9, (None, reason, detail), (demo_state False)\<lparr>v3_tx := tx_zero, v3_active := Some s'\<rparr>)"
    using c request_header_ok [of "[]" 54 9 0 0 0]
    by (simp add: run_request_def hdr is_control_def Let_def) (simp add: data_def)
  from handle_run [OF _ _ _ _ this refl, of 1] obtain out where
    run: "jmx_v3_nl_handle demo_env data 4 1 True (demo_state False) =
      (True, out, (demo_state False)\<lparr>v3_tx := tx_zero, v3_active := Some s'\<rparr>)"
    by (auto simp: data_def action_is_v3_def)
  have "v3_active ((demo_state False)\<lparr>v3_tx := tx_zero, v3_active := Some s'\<rparr>) \<noteq> v3_active (demo_state False)"
    by (simp add: demo_state_def)
  from active_only_by_commit [OF demo_inv _ run this] have "live demo_env 4 9 (demo_state False) demo_set"
    using demo_live by simp
  then show ?thesis using run by (auto simp: data_def)
qed

text \<open>C34: a message corrupted on its way is refused.  If up to four consecutive payload bytes of a message with
  a correct header differ from what was sent, the module answers with the reason BAD_CRC, no set is
  changed, and if it was a batch, a live transaction of its port and generation is marked failed.\<close>

theorem corrupt_payload_refused:
  assumes ok: "engine_ok st" and hl: "length hb = 32" and good: "header_reason (dec_hdr hb) (hb @ before @ old @ after) = None"
    and burst: "length old = length new" "length old \<le> 4" "old \<noteq> new" and len: "length (hb @ before @ new @ after) < 2 ^ 32"
    and sender: "action_is_v3 (h_action (dec_hdr hb))" "portid \<noteq> 0" "seq \<noteq> 0"
  shows "\<exists>r st'. jmx_v3_nl_handle env (hb @ before @ new @ after) portid seq True st = (True, Some r, st') \<and>
    dec_status (drop 32 (rp_data r)) =
      status_of (h_action (dec_hdr hb)) JMX_V3_STATUS_ERROR JMX_V3_REASON_BAD_CRC 0 (jmx_v3_get_snapshot st') \<and>
    v3_active st' = v3_active st \<and>
    st' = (if h_generation (dec_hdr hb) \<noteq> 0 \<and> action_is_batch (h_action (dec_hdr hb))
      then jmx_v3_tx_fail env portid (h_generation (dec_hdr hb)) JMX_V3_REASON_BAD_CRC 0 st else st)"
proof -
  define data where "data = hb @ before @ new @ after"
  define st' where "st' = (if h_generation (dec_hdr hb) \<noteq> 0 \<and> action_is_batch (h_action (dec_hdr hb))
      then jmx_v3_tx_fail env portid (h_generation (dec_hdr hb)) JMX_V3_REASON_BAD_CRC 0 st else st)"
  have hdr: "dec_hdr data = dec_hdr hb"
    using hl by (simp add: data_def dec_hdr_def get_le32_def get_le16_def nth_append)
  have pb: "unat (h_payload_bytes (dec_hdr hb)) = length (before @ old @ after)"
    using header_size_ok(1) [OF good] len hl burst(1) by simp
  have "payload_crc32 (before @ new @ after) \<noteq> payload_crc32 (before @ old @ after)"
    using crc_burst [OF burst] by metis
  then have "header_reason (dec_hdr hb) data = Some JMX_V3_REASON_BAD_CRC"
    using good pb hl burst(1) by (simp add: header_reason_def data_def split: if_splits)
  then have run: "run_request env portid data st = (h_generation (dec_hdr hb), bad_request JMX_V3_REASON_BAD_CRC st)"
    using hl by (simp add: run_request_def hdr Let_def) (simp add: data_def)
  have act: "get_le32 data 0 = h_action (dec_hdr hb)" unfolding hdr [symmetric] dec_hdr_action ..
  have "engine_ok st'" using ok by (simp add: st'_def tx_fail_inv)
  then have wf: "status_wf (status_of a b c d (jmx_v3_get_snapshot st'))" for a b c d
    by (simp add: engine_ok_def snapshot_wf)
  have "4 \<le> length data" "action_is_v3 (get_le32 data 0)" using hl sender(1) by (simp_all add: data_def act [unfolded data_def])
  from handle_run [OF this sender(2,3) run [unfolded bad_request_def] refl]
  have "jmx_v3_nl_handle env data portid seq True st = (True, Some \<lparr>rp_portid = portid, rp_seq = seq, rp_data =
      (let body = enc_status (status_of (h_action (dec_hdr hb)) JMX_V3_STATUS_ERROR JMX_V3_REASON_BAD_CRC 0 (jmx_v3_get_snapshot st'))
       in enc_hdr (status_header (h_generation (dec_hdr hb)) body) @ body)\<rparr>, st')"
    by (simp add: act st'_def)
  moreover have "v3_active st' = v3_active st" by (simp add: st'_def)
  ultimately show ?thesis
    unfolding data_def [symmetric] st'_def [symmetric]
    by (auto simp: Let_def status_codec.dec_enc [OF wf])
qed

theorem corrupt_payload_refused_witness:
  "v3_active (snd (snd (jmx_v3_nl_handle demo_env (enc_hdr (request_header 51 9 0 24 1 [7]) @ [8]) 4 1 True (demo_state False)))) = None \<and>
   tx_failed_reason (v3_tx (snd (snd (jmx_v3_nl_handle demo_env (enc_hdr (request_header 51 9 0 24 1 [7]) @ [8]) 4 1 True (demo_state False))))) = 4"
proof -
  define hb where "hb = enc_hdr (request_header 51 9 0 24 1 [7])"
  have hdr: "dec_hdr hb = request_header 51 9 0 24 1 [7]" using dec_hdr_enc [of _ "[]"] by (simp add: hb_def)
  have "digests_wf (demo_state False)"
    by (simp add: digests_wf_def digests_of_def demo_state_def demo_set_def)
  with demo_inv have ok: "engine_ok (demo_state False)" by (simp add: engine_ok_def)
  have good: "header_reason (dec_hdr hb) (hb @ [] @ [7] @ []) = None"
    unfolding hdr unfolding hb_def by (simp add: request_header_ok)
  have "jmx_v3_tx_fail demo_env 4 9 4 0 (demo_state False) = fail_transaction_locked 4 0 (demo_state False)"
    using live_check [OF demo_live, of True] by (simp add: jmx_v3_tx_fail_def)
  then have fail: "tx_failed_reason (v3_tx (jmx_v3_tx_fail demo_env 4 9 4 0 (demo_state False))) = 4"
    by (simp add: fail_transaction_locked_def demo_state_def)
  have "v3_active (demo_state False) = None" by (simp add: demo_state_def)
  moreover have "\<exists>r. jmx_v3_nl_handle demo_env (hb @ [8]) 4 1 True (demo_state False) =
      (True, Some r, jmx_v3_tx_fail demo_env 4 9 4 0 (demo_state False))"
    using corrupt_payload_refused [OF ok _ good, of "[8]" 4 1 demo_env]
    by (auto simp: hdr action_is_v3_def action_is_batch_def) (auto simp: hb_def)
  ultimately show ?thesis using fail unfolding hb_def [symmetric] by auto
qed

end
