(* ===== verification/V2AC.thy ===== *)
theory V2AC
  imports V3AC
begin

text \<open>
  The Aho-Corasick engine of the v2 rules (\<open>jmx/src/jmx_v2_ac.c\<close>).  Its construction is the one of the v3
  engine, over unfolded bytes and with an output entry that names the pattern; the trie, its links and
  the sorting of edges are the definitions of V3AC, whose build entry carries the pattern index as rule
  index.  The scan has no budget: it applies the gates of each pattern that ends at a position and keeps
  the one with the smallest priority.

  \<open>AC_NONE\<close> is \<open>None\<close>, the counts of \<open>struct jmx_v2_ac\<close> are the lengths of its arrays, and the arrays of
  port and length ranges hold the entries in use.
\<close>

unbundle bit_operations_syntax

section \<open>Data\<close>

record v2_pattern =
  vp_appid :: u32
  vp_priority :: u32
  vp_proto :: u8
  vp_dir :: u8
  vp_method :: u8
  vp_ports_min :: "u16 list"
  vp_ports_max :: "u16 list"
  vp_lens_min :: "u16 list"
  vp_lens_max :: "u16 list"
  vp_pkt_seq :: u32
  vp_offset :: u32
  vp_match_len :: u16
  vp_match_str :: bytes

record v2_ac =
  va_nodes :: "ac_node list"
  va_edges :: "ac_edge list"
  va_outputs :: "nat list"
  va_pats :: "v2_pattern list"

section \<open>Construction\<close>

fun v2_count_nodes :: "v2_pattern list \<Rightarrow> nat \<Rightarrow> errno + nat" where
  "v2_count_nodes [] max_nodes = Inr max_nodes"
| "v2_count_nodes (p # ps) max_nodes =
     (if vp_match_len p = 0 then Inl EINVAL
      else if 2 ^ 32 \<le> max_nodes + unat (vp_match_len p) then Inl EOVERFLOW
      else v2_count_nodes ps (max_nodes + unat (vp_match_len p)))"

text \<open>The entry that the build arrays hold for pattern \<open>i\<close>.\<close>

definition v2_entry :: "nat \<Rightarrow> v2_pattern \<Rightarrow> ac_pattern" where
  "v2_entry i p = \<lparr>pat_rule_index = i, pat_step_index = 0, pat_len = unat (vp_match_len p), pat_bytes = vp_match_str p\<rparr>"

fun v2_insert_patterns :: "build \<Rightarrow> nat \<Rightarrow> v2_pattern list \<Rightarrow> errno + build" where
  "v2_insert_patterns b i [] = Inr b"
| "v2_insert_patterns b i (p # ps) =
     (case insert_bytes b 0 (take (unat (vp_match_len p)) (vp_match_str p)) of
        Inl e \<Rightarrow> Inl e
      | Inr (b, node) \<Rightarrow>
          (case add_output b node (v2_entry i p) of Inl e \<Rightarrow> Inl e | Inr b \<Rightarrow> v2_insert_patterns b (i + 1) ps))"

definition v2_link_nodes :: "build \<Rightarrow> build_node list" where
  "v2_link_nodes b =
     (let es = edge_chain (b_edges b) (bn_first_edge (b_nodes b ! 0));
          queue = map (\<lambda>e. be_target (b_edges b ! e)) es;
          nodes = foldl (\<lambda>ns c. ns[c := (ns ! c)\<lparr>bn_fail := 0, bn_dict_suffix := None\<rparr>]) (b_nodes b) queue
      in fst (bfs (length (b_nodes b)) (b_edges b) nodes queue 0))"

definition v2_flatten_node :: "build \<Rightarrow> v2_ac \<Rightarrow> build_node \<Rightarrow> v2_ac" where
  "v2_flatten_node b ac n =
     ac\<lparr>va_nodes := va_nodes ac @ [\<lparr>an_fail = bn_fail n, an_dict_suffix = bn_dict_suffix n,
          an_edge_begin = length (va_edges ac), an_output_begin = length (va_outputs ac),
          an_edge_count = bn_edge_count n, an_output_count = bn_output_count n\<rparr>],
        va_edges := va_edges ac @ flat_edges b n,
        va_outputs := va_outputs ac @
          map (\<lambda>i. bo_rule_index (b_outputs b ! i)) (output_chain (b_outputs b) (bn_first_output n))\<rparr>"

definition v2_flatten :: "build \<Rightarrow> v2_pattern list \<Rightarrow> build_node list \<Rightarrow> v2_ac" where
  "v2_flatten b pats nodes =
     foldl (v2_flatten_node b) \<lparr>va_nodes = [], va_edges = [], va_outputs = [], va_pats = pats\<rparr> nodes"

definition jmx_v2_ac_build :: "(alloc_site \<Rightarrow> bool) \<Rightarrow> v2_pattern list \<Rightarrow> errno + (v2_ac \<times> ac_stats)" where
  "jmx_v2_ac_build mem pats =
     (if pats = [] then Inl EINVAL
      else case v2_count_nodes pats 1 of
        Inl e \<Rightarrow> Inl e
      | Inr max_nodes \<Rightarrow>
          if \<not> mem A_BNODES \<or> \<not> mem A_BEDGES \<or> \<not> mem A_BOUTPUTS then Inl ENOMEM
          else case v2_insert_patterns \<lparr>b_max_nodes = max_nodes, b_nodes = [fresh_node], b_edges = [],
                      b_outputs = [], b_duplicates = 0\<rparr> 0 pats of
                 Inl e \<Rightarrow> Inl e
               | Inr b \<Rightarrow>
                   if \<not> mem A_QUEUE \<or> \<not> mem A_AC then Inl ENOMEM
                   else if \<not> mem A_AC_NODES \<or> \<not> mem A_AC_EDGES \<or> \<not> mem A_AC_OUTPUTS \<or> \<not> mem A_AC_PATS
                   then Inl ENOMEM
                   else let ac = v2_flatten b pats (v2_link_nodes b)
                        in Inr (ac, \<lparr>st_patterns = length pats, st_nodes = length (va_nodes ac),
                             st_edges = length (va_edges ac), st_outputs = length (va_outputs ac),
                             st_duplicate_payloads = b_duplicates b\<rparr>))"

definition jmx_v2_ac_count :: "v2_ac option \<Rightarrow> nat" where
  "jmx_v2_ac_count ac = (case ac of None \<Rightarrow> 0 | Some ac \<Rightarrow> length (va_pats ac))"

section \<open>Scanning\<close>

function v2_find_probe :: "ac_edge list \<Rightarrow> nat \<Rightarrow> u8 \<Rightarrow> int \<Rightarrow> int \<Rightarrow> nat option" where
  "v2_find_probe edges ebegin byte lo hi =
     (if hi < lo then None
      else let mid = (lo + hi) div 2; edge = edges ! nat (int ebegin + mid)
           in if ae_byte edge = byte then Some (ae_target edge)
              else if ae_byte edge < byte then v2_find_probe edges ebegin byte (mid + 1) hi
              else v2_find_probe edges ebegin byte lo (mid - 1))"
  by pat_completeness auto
termination by (relation "measure (\<lambda>(_, _, _, lo, hi). nat (hi - lo + 1))") auto

declare v2_find_probe.simps [simp del]

definition v2_find_child :: "v2_ac \<Rightarrow> nat \<Rightarrow> u8 \<Rightarrow> nat option" where
  "v2_find_child ac node byte =
     (let n = va_nodes ac ! node
      in v2_find_probe (va_edges ac) (an_edge_begin n) byte 0 (int (an_edge_count n) - 1))"

text \<open>The loop \<open>while (state != 0)\<close>: a failure link leads to a shorter label, so the number of nodes bounds it.\<close>

fun v2_next_state :: "nat \<Rightarrow> v2_ac \<Rightarrow> nat \<Rightarrow> u8 \<Rightarrow> nat" where
  "v2_next_state 0 ac state byte = 0"
| "v2_next_state (Suc fuel) ac state byte =
     (case v2_find_child ac state byte of
        Some t \<Rightarrow> t
      | None \<Rightarrow> if state = 0 then 0 else v2_next_state fuel ac (an_fail (va_nodes ac ! state)) byte)"

text \<open>What a packet is asked besides its bytes.\<close>

record v2_packet =
  vk_proto :: u8
  vk_dir :: u8
  vk_dport :: u16
  vk_pkt_seq :: u32

definition in_ranges :: "u16 list \<Rightarrow> u16 list \<Rightarrow> u16 \<Rightarrow> bool" where
  "in_ranges mins maxs x \<longleftrightarrow> mins = [] \<or> list_ex (\<lambda>(lo, hi). lo \<le> x \<and> x \<le> hi) (zip mins maxs)"

text \<open>The tests of \<open>emit_node\<close> on a pattern that ends at index \<open>pos\<close> of a payload of \<open>len\<close> bytes.\<close>

definition v2_gates :: "v2_pattern \<Rightarrow> v2_packet \<Rightarrow> u16 \<Rightarrow> u32 \<Rightarrow> bool" where
  "v2_gates p pk len pos \<longleftrightarrow>
     (let start = pos + 1 - ucast (vp_match_len p); seq = vk_pkt_seq pk
      in \<not> pos + 1 < ucast (vp_match_len p) \<and>
         (vp_proto p = 0 \<or> vp_proto p AND vk_proto pk \<noteq> 0) \<and>
         (vp_dir p = 0 \<or> vp_dir p = vk_dir pk) \<and>
         \<not> (vp_method p = 0 \<and> vp_match_len p \<noteq> len) \<and>
         \<not> (0 \<le> sint (vp_offset p) \<and> start \<noteq> vp_offset p) \<and>
         \<not> (vp_pkt_seq p \<noteq> 0 \<and> (seq = 0 \<or> 32 < seq \<or> vp_pkt_seq p AND push_bit (unat (seq - 1)) 1 = 0)) \<and>
         in_ranges (vp_ports_min p) (vp_ports_max p) (vk_dport pk) \<and>
         in_ranges (vp_lens_min p) (vp_lens_max p) len)"

definition v2_consider :: "v2_packet \<Rightarrow> u16 \<Rightarrow> u32 \<Rightarrow> u32 \<times> u32 \<Rightarrow> v2_pattern \<Rightarrow> u32 \<times> u32" where
  "v2_consider pk len pos best p =
     (if v2_gates p pk len pos \<and> vp_priority p < snd best then (vp_appid p, vp_priority p) else best)"

definition v2_emit_node :: "v2_ac \<Rightarrow> v2_packet \<Rightarrow> u16 \<Rightarrow> u32 \<Rightarrow> u32 \<times> u32 \<Rightarrow> nat \<Rightarrow> u32 \<times> u32" where
  "v2_emit_node ac pk len pos best node =
     (let n = va_nodes ac ! node
      in foldl (v2_consider pk len pos) best
           (map (\<lambda>i. va_pats ac ! i) (take (an_output_count n) (drop (an_output_begin n) (va_outputs ac)))))"

definition v2_dict_nodes :: "v2_ac \<Rightarrow> nat \<Rightarrow> nat list" where
  "v2_dict_nodes ac state =
     chain_upto (Suc (length (va_nodes ac))) (\<lambda>n. an_dict_suffix (va_nodes ac ! n)) (Some state)"

fun v2_scan_bytes :: "v2_ac \<Rightarrow> v2_packet \<Rightarrow> u16 \<Rightarrow> bytes \<Rightarrow> nat \<Rightarrow> nat \<Rightarrow> u32 \<times> u32 \<Rightarrow> u32 \<times> u32" where
  "v2_scan_bytes ac pk len [] pos state best = best"
| "v2_scan_bytes ac pk len (byte # rest) pos state best =
     (let state = v2_next_state (Suc (length (va_nodes ac))) ac state byte
      in v2_scan_bytes ac pk len rest (pos + 1) state
           (foldl (v2_emit_node ac pk len (word_of_nat pos)) best (v2_dict_nodes ac state)))"

text \<open>The payload has \<open>len\<close> bytes.  The result is the application and, when the scan runs, its priority.\<close>

definition jmx_v2_ac_scan :: "v2_ac option \<Rightarrow> bytes \<Rightarrow> v2_packet \<Rightarrow> u32 \<times> u32 option" where
  "jmx_v2_ac_scan ac payload pk =
     (case ac of None \<Rightarrow> (0, None)
      | Some ac \<Rightarrow>
          if va_pats ac = [] then (0, None)
          else (case v2_scan_bytes ac pk (word_of_nat (length payload)) payload 0 0 (0, 0xffffffff) of
                  (best, best_pri) \<Rightarrow> (best, Some best_pri)))"

end
