(* ===== verification/V2Rules.thy ===== *)
theory V2Rules
  imports V2AC
begin

text \<open>
  The rule sets of the v2 engine (\<open>jmx/src/jmx_v2_rules.c\<close>): two sets of hashed rules, one active and
  one staging.  A netlink port begins a transaction, which clears the staging set, adds rules, and commits:
  a commit that finds no rejected rule builds the automaton and swaps the sets, any other drops the staging
  set.  A transaction ends after 30 seconds without a request.

  \<open>rules_update_lock\<close> makes every operation one step on the state.  An array with a count is the list of
  its first entries; a hash chain is the list from its head.  Messages to the log and the statistics of
  the memory pools are left out.
\<close>

unbundle bit_operations_syntax

abbreviation (input) JMX_V2_MATCH_EXACT :: u8 where "JMX_V2_MATCH_EXACT \<equiv> 0"
abbreviation (input) JMX_V2_MATCH_BM_STR :: u8 where "JMX_V2_MATCH_BM_STR \<equiv> 1"
abbreviation (input) JMX_V2_MATCH_REGEX :: u8 where "JMX_V2_MATCH_REGEX \<equiv> 2"
abbreviation (input) JMX_V2_MATCH_NO_FIXED :: u8 where "JMX_V2_MATCH_NO_FIXED \<equiv> 3"
abbreviation (input) JMX_V2_PROTO_UDP :: u8 where "JMX_V2_PROTO_UDP \<equiv> 2"
abbreviation (input) JMX_V2_DIR_REPLY :: u8 where "JMX_V2_DIR_REPLY \<equiv> 2"
abbreviation (input) JMX_V2_MAX_PORTS :: u8 where "JMX_V2_MAX_PORTS \<equiv> 8"
abbreviation (input) JMX_V2_MAX_LEN_RNG :: u8 where "JMX_V2_MAX_LEN_RNG \<equiv> 4"
abbreviation (input) JMX_V2_MAX_MATCH :: u16 where "JMX_V2_MAX_MATCH \<equiv> 256"
abbreviation (input) JMX_V2_HASH_BUCKETS :: nat where "JMX_V2_HASH_BUCKETS \<equiv> 256"

definition JMX_V2_TX_TIMEOUT :: "kernel_env \<Rightarrow> u64" where
  "JMX_V2_TX_TIMEOUT env = 30 * hz env"

section \<open>State\<close>

text \<open>A rule as it is handed in, with the whole arrays, and as it is kept, with the entries in use.\<close>

record v2_rule =
  vr_appid :: u32
  vr_rule_id :: u32
  vr_priority :: u32
  vr_method :: u8
  vr_proto :: u8
  vr_dir :: u8
  vr_port_count :: u8
  vr_len_count :: u8
  vr_pkt_seq :: u32
  vr_offset :: u32
  vr_match_len :: u16
  vr_match_str :: bytes
  vr_ports :: "(u16 \<times> u16) list"
  vr_len_range :: "(u16 \<times> u16) list"

record v2_set =
  vs_buckets :: "v2_rule list list"
  vs_count :: u32
  vs_version :: u32
  vs_attempted :: u32
  vs_rejected_invalid :: u32
  vs_rejected_nomem :: u32
  vs_ac :: "v2_ac option"

record v2_state =
  v2_rule_sets :: "v2_set list"
  v2_active_idx :: nat
  v2_staging_owner :: u32
  v2_staging_deadline :: u64
  v2_expire_due :: "u64 option"

definition ACTIVE_SET :: "v2_state \<Rightarrow> v2_set" where
  "ACTIVE_SET st = v2_rule_sets st ! v2_active_idx st"

definition STAGING_SET :: "v2_state \<Rightarrow> v2_set" where
  "STAGING_SET st = v2_rule_sets st ! (1 - v2_active_idx st)"

definition put_staging :: "v2_set \<Rightarrow> v2_state \<Rightarrow> v2_state" where
  "put_staging s st = st\<lparr>v2_rule_sets := (v2_rule_sets st)[1 - v2_active_idx st := s]\<rparr>"

definition jmx_v2_rule_live_count :: "v2_state \<Rightarrow> u32" where
  "jmx_v2_rule_live_count st = vs_count (ACTIVE_SET st)"

definition hash_appid :: "kernel_env \<Rightarrow> u32 \<Rightarrow> nat" where
  "hash_appid env appid = unat (jhash_1word env appid 0) mod JMX_V2_HASH_BUCKETS"

section \<open>Life of the staging set\<close>

text \<open>What clearing leaves, and what the module starts with.\<close>

definition v2_set_empty :: v2_set where
  "v2_set_empty = \<lparr>vs_buckets = replicate JMX_V2_HASH_BUCKETS [], vs_count = 0, vs_version = 0, vs_attempted = 0,
     vs_rejected_invalid = 0, vs_rejected_nomem = 0, vs_ac = None\<rparr>"

definition jmx_v2_rule_set_clear :: "v2_set \<Rightarrow> v2_set" where
  "jmx_v2_rule_set_clear s =
     s\<lparr>vs_ac := None, vs_buckets := replicate JMX_V2_HASH_BUCKETS [], vs_count := 0, vs_version := 0, vs_attempted := 0,
       vs_rejected_invalid := 0, vs_rejected_nomem := 0\<rparr>"

definition jmx_v2_tx_reset_locked :: "bool \<Rightarrow> v2_state \<Rightarrow> v2_state" where
  "jmx_v2_tx_reset_locked clear_staging st =
     (let st = (if clear_staging then put_staging (jmx_v2_rule_set_clear (STAGING_SET st)) st else st)
      in st\<lparr>v2_staging_owner := 0, v2_staging_deadline := 0\<rparr>)"

definition jmx_v2_tx_expire_locked :: "kernel_env \<Rightarrow> v2_state \<Rightarrow> bool \<times> v2_state" where
  "jmx_v2_tx_expire_locked env st =
     (if v2_staging_owner st = 0 \<or> \<not> time_after_eq (jiffies env) (v2_staging_deadline st) then (False, st)
      else (True, jmx_v2_tx_reset_locked True st))"

text \<open>The work item is no longer pending when its function runs.\<close>

definition jmx_v2_tx_expire_workfn :: "kernel_env \<Rightarrow> v2_state \<Rightarrow> v2_state" where
  "jmx_v2_tx_expire_workfn env st = snd (jmx_v2_tx_expire_locked env (st\<lparr>v2_expire_due := None\<rparr>))"

definition jmx_v2_tx_check_owner_locked :: "kernel_env \<Rightarrow> u32 \<Rightarrow> v2_state \<Rightarrow> krc \<times> v2_state" where
  "jmx_v2_tx_check_owner_locked env owner_portid st =
     (if owner_portid = 0 then (Some EINVAL, st)
      else case jmx_v2_tx_expire_locked env st of
        (True, st) \<Rightarrow> (Some ETIMEDOUT, st)
      | (False, st) \<Rightarrow>
          if v2_staging_owner st = 0 then (Some ENOENT, st)
          else if v2_staging_owner st \<noteq> owner_portid then (Some EPERM, st)
          else (None, st))"

definition jmx_v2_tx_refresh_locked :: "kernel_env \<Rightarrow> v2_state \<Rightarrow> v2_state" where
  "jmx_v2_tx_refresh_locked env st =
     st\<lparr>v2_staging_deadline := jiffies env + JMX_V2_TX_TIMEOUT env,
        v2_expire_due := Some (jiffies env + JMX_V2_TX_TIMEOUT env)\<rparr>"

definition jmx_v2_rules_init :: v2_state where
  "jmx_v2_rules_init = \<lparr>v2_rule_sets = [v2_set_empty, v2_set_empty], v2_active_idx = 0, v2_staging_owner = 0,
     v2_staging_deadline = 0, v2_expire_due = None\<rparr>"

definition jmx_v2_rules_exit :: "v2_state \<Rightarrow> v2_state" where
  "jmx_v2_rules_exit st =
     st\<lparr>v2_expire_due := None, v2_rule_sets := map jmx_v2_rule_set_clear (v2_rule_sets st),
        v2_staging_owner := 0, v2_staging_deadline := 0\<rparr>"

definition jmx_v2_rules_begin :: "kernel_env \<Rightarrow> u32 \<Rightarrow> v2_state \<Rightarrow> krc \<times> v2_state" where
  "jmx_v2_rules_begin env owner_portid st =
     (if owner_portid = 0 then (Some EINVAL, st)
      else let st = snd (jmx_v2_tx_expire_locked env st)
      in if v2_staging_owner st \<noteq> 0 \<and> v2_staging_owner st \<noteq> owner_portid then (Some EBUSY, st)
         else let st = put_staging (jmx_v2_rule_set_clear (STAGING_SET st)) st
              in (None, jmx_v2_tx_refresh_locked env (st\<lparr>v2_staging_owner := owner_portid\<rparr>)))"

section \<open>Adding a rule\<close>

definition v2_rule_invalid :: "v2_rule \<Rightarrow> bool" where
  "v2_rule_invalid r \<longleftrightarrow>
     JMX_V2_MAX_MATCH < vr_match_len r \<or> JMX_V2_MAX_PORTS < vr_port_count r \<or> JMX_V2_MAX_LEN_RNG < vr_len_count r \<or>
     JMX_V2_MATCH_NO_FIXED < vr_method r \<or> JMX_V2_PROTO_UDP < vr_proto r \<or> JMX_V2_DIR_REPLY < vr_dir r"

definition v2_node_of :: "v2_rule \<Rightarrow> v2_rule" where
  "v2_node_of r =
     r\<lparr>vr_match_str := take (unat (vr_match_len r)) (vr_match_str r),
       vr_ports := take (unat (vr_port_count r)) (vr_ports r),
       vr_len_range := take (unat (vr_len_count r)) (vr_len_range r)\<rparr>"

definition hlist_add_head :: "nat \<Rightarrow> v2_rule \<Rightarrow> v2_rule list list \<Rightarrow> v2_rule list list" where
  "hlist_add_head bkt r buckets = buckets[bkt := r # buckets ! bkt]"

text \<open>\<open>site\<close> is the allocation that this call makes; a NULL rule is \<open>None\<close>.\<close>

definition jmx_v2_rule_add_locked :: "kernel_env \<Rightarrow> alloc_site \<Rightarrow> v2_rule option \<Rightarrow> v2_set \<Rightarrow> krc \<times> v2_set" where
  "jmx_v2_rule_add_locked env site r s =
     (let s = s\<lparr>vs_attempted := vs_attempted s + 1\<rparr>; invalid = (Some EINVAL, s\<lparr>vs_rejected_invalid := vs_rejected_invalid s + 1\<rparr>)
      in case r of
           None \<Rightarrow> invalid
         | Some r \<Rightarrow>
             if v2_rule_invalid r then invalid
             else if \<not> alloc_ok env site then (Some ENOMEM, s\<lparr>vs_rejected_nomem := vs_rejected_nomem s + 1\<rparr>)
             else (None, s\<lparr>vs_buckets := hlist_add_head (hash_appid env (vr_appid r)) (v2_node_of r) (vs_buckets s),
                           vs_count := vs_count s + 1\<rparr>))"

definition jmx_v2_rule_add :: "kernel_env \<Rightarrow> alloc_site \<Rightarrow> u32 \<Rightarrow> v2_rule option \<Rightarrow> v2_state \<Rightarrow> krc \<times> v2_state" where
  "jmx_v2_rule_add env site owner_portid r st =
     (case jmx_v2_tx_check_owner_locked env owner_portid st of
        (Some e, st) \<Rightarrow> (Some e, st)
      | (None, st) \<Rightarrow>
          (case jmx_v2_rule_add_locked env site r (STAGING_SET st) of
             (rc, s) \<Rightarrow> (rc, jmx_v2_tx_refresh_locked env (put_staging s st))))"

section \<open>Commit\<close>

text \<open>The rules in the order in which the loops over the buckets visit them.\<close>

definition v2_nodes :: "v2_set \<Rightarrow> v2_rule list" where
  "v2_nodes s = concat (vs_buckets s)"

definition v2_scannable :: "v2_rule \<Rightarrow> bool" where
  "v2_scannable r \<longleftrightarrow> vr_method r = JMX_V2_MATCH_BM_STR \<or> vr_method r = JMX_V2_MATCH_EXACT"

definition v2_pattern_of :: "v2_rule \<Rightarrow> v2_pattern" where
  "v2_pattern_of r =
     \<lparr>vp_appid = vr_appid r, vp_priority = vr_priority r, vp_proto = vr_proto r, vp_dir = vr_dir r, vp_method = vr_method r,
      vp_ports_min = map fst (vr_ports r), vp_ports_max = map snd (vr_ports r), vp_lens_min = map fst (vr_len_range r),
      vp_lens_max = map snd (vr_len_range r), vp_pkt_seq = vr_pkt_seq r, vp_offset = vr_offset r,
      vp_match_len = vr_match_len r, vp_match_str = vr_match_str r\<rparr>"

definition v2_eligible :: "v2_set \<Rightarrow> v2_rule list" where
  "v2_eligible s = filter (\<lambda>r. v2_scannable r \<and> vr_match_len r \<noteq> 0) (v2_nodes s)"

text \<open>The checks and the construction up to the swap: the error, or the automaton if any rule needs one.\<close>

definition v2_commit_build :: "kernel_env \<Rightarrow> v2_set \<Rightarrow> errno + v2_ac option" where
  "v2_commit_build env s =
     (let empty_rejected = word_of_nat (length (filter (\<lambda>r. v2_scannable r \<and> vr_match_len r = 0) (v2_nodes s))) :: u32;
          eligible = word_of_nat (length (v2_eligible s)) :: u32;
          pats = map v2_pattern_of (v2_eligible s)
      in if vs_rejected_invalid s \<noteq> 0 \<or> vs_rejected_nomem s \<noteq> 0 \<or> empty_rejected \<noteq> 0
         then Inl (if vs_rejected_nomem s \<noteq> 0 then ENOMEM else EINVAL)
         else if eligible = 0 then Inr None
         else if \<not> alloc_ok env A_V2_PATS then Inl ENOMEM
         else if word_of_nat (length pats) \<noteq> eligible then Inl EIO
         else case jmx_v2_ac_build (alloc_ok env) pats of
                Inl e \<Rightarrow> Inl e
              | Inr (ac, stats) \<Rightarrow> Inr (Some ac))"

text \<open>The swap, and the clearing of the set that was active.\<close>

definition v2_swap :: "v2_ac option \<Rightarrow> u32 \<Rightarrow> v2_state \<Rightarrow> v2_state" where
  "v2_swap ac version st =
     (let old = v2_active_idx st; new = 1 - old;
          sets = (v2_rule_sets st)[new := (v2_rule_sets st ! new)\<lparr>vs_ac := ac, vs_version := version\<rparr>]
      in st\<lparr>v2_active_idx := new, v2_rule_sets := sets[old := jmx_v2_rule_set_clear (sets ! old)]\<rparr>)"

definition jmx_v2_rules_commit :: "kernel_env \<Rightarrow> u32 \<Rightarrow> u32 \<Rightarrow> v2_state \<Rightarrow> krc \<times> v2_state" where
  "jmx_v2_rules_commit env owner_portid version st =
     (case jmx_v2_tx_check_owner_locked env owner_portid st of
        (Some e, st) \<Rightarrow> (Some e, st)
      | (None, st) \<Rightarrow>
          (case v2_commit_build env (STAGING_SET st) of
             Inl e \<Rightarrow> (Some e, (jmx_v2_tx_reset_locked True st)\<lparr>v2_expire_due := None\<rparr>)
           | Inr ac \<Rightarrow> (None, (jmx_v2_tx_reset_locked False (v2_swap ac version st))\<lparr>v2_expire_due := None\<rparr>)))"

definition jmx_v2_rules_count :: "v2_state \<Rightarrow> u32" where
  "jmx_v2_rules_count st = vs_count (ACTIVE_SET st)"

definition jmx_v2_rules_get_status :: "v2_state \<Rightarrow> u32 \<times> u32" where
  "jmx_v2_rules_get_status st = (vs_version (ACTIVE_SET st), vs_count (ACTIVE_SET st))"

section \<open>Matching\<close>

text \<open>The application and what is written to \<open>out_priority\<close>, if anything.\<close>

definition jmx_v2_match_payload :: "v2_state \<Rightarrow> bytes \<Rightarrow> v2_packet \<Rightarrow> u32 \<times> u32 option" where
  "jmx_v2_match_payload st payload pk =
     (let s = ACTIVE_SET st
      in if vs_count s = 0 then (0, None)
         else case vs_ac s of
           None \<Rightarrow> (0, Some U32_MAX)
         | Some ac \<Rightarrow>
             (case jmx_v2_ac_scan (Some ac) payload pk of
                (ac_app, ac_pri) \<Rightarrow>
                  if ac_app \<noteq> 0 \<and> the ac_pri < U32_MAX then (ac_app, ac_pri) else (0, Some U32_MAX)))"

definition jmx_v2_has_regex_rules :: "v2_state \<Rightarrow> bool" where
  "jmx_v2_has_regex_rules st \<longleftrightarrow> list_ex (\<lambda>r. vr_method r = JMX_V2_MATCH_REGEX) (v2_nodes (ACTIVE_SET st))"

end
