(* ===== verification/V2Handler.thy ===== *)
theory V2Handler
  imports V2Rules V3Handler
begin

text \<open>
  The netlink handler of the v2 rules (\<open>jmx/src/jmx_v2_nl_handler.c\<close>): the packed messages that it shares
  with the control plane (\<open>jmxd/src/jmx_nl_rule.h\<close>), and the actions FLUSH, ADD, ADD_BATCH and VERSION.  A
  message of the v3 protocol goes to the v3 handler.  The actions of WANs, routes, carriers and regex results
  never reply; whether one of them handles a message is a parameter.
\<close>

unbundle bit_operations_syntax

abbreviation (input) JMX_NL_ACT_RULE_FLUSH :: u32 where "JMX_NL_ACT_RULE_FLUSH \<equiv> 10"
abbreviation (input) JMX_NL_ACT_RULE_ADD :: u32 where "JMX_NL_ACT_RULE_ADD \<equiv> 11"
abbreviation (input) JMX_NL_ACT_RULE_ADD_BATCH :: u32 where "JMX_NL_ACT_RULE_ADD_BATCH \<equiv> 12"
abbreviation (input) JMX_NL_ACT_RULE_VERSION :: u32 where "JMX_NL_ACT_RULE_VERSION \<equiv> 13"
abbreviation (input) JMX_NL_ACT_RULE_STATUS :: u32 where "JMX_NL_ACT_RULE_STATUS \<equiv> 14"

section \<open>The packed rule\<close>

record v2_nl_rule =
  nr_appid :: u32
  nr_rule_id :: u32
  nr_priority :: u32
  nr_method :: u8
  nr_proto :: u8
  nr_dir :: u8
  nr_port_count :: u8
  nr_len_count :: u8
  nr_pad :: bytes
  nr_pkt_seq :: u32
  nr_offset :: u32
  nr_match_len :: u16
  nr_match_str :: bytes
  nr_ports :: "(u16 \<times> u16) list"
  nr_len_range :: "(u16 \<times> u16) list"

definition v2_nl_rule_wf :: "v2_nl_rule \<Rightarrow> bool" where
  "v2_nl_rule_wf r \<longleftrightarrow> length (nr_pad r) = 3 \<and> length (nr_match_str r) = 256 \<and> length (nr_ports r) = 8 \<and>
     length (nr_len_range r) = 4"

text \<open>A range of ports or lengths.\<close>

definition enc_range :: "u16 \<times> u16 \<Rightarrow> bytes" where
  "enc_range r = le16 (fst r) @ le16 (snd r)"

definition dec_range :: "bytes \<Rightarrow> u16 \<times> u16" where
  "dec_range bs = (get_le16 bs 0, get_le16 bs 2)"

interpretation range_codec: record_codec enc_range dec_range "\<lambda>_. True" 4
proof
  show "dec_range (enc_range r) = r" for r by (simp add: dec_range_def enc_range_def wire_simps)
  show "enc_range (dec_range bs) = bs" if "length bs = 4" for bs
    using that by (simp add: dec_range_def enc_range_def wire_simps)
qed (simp_all add: enc_range_def)

definition enc_v2_rule :: "v2_nl_rule \<Rightarrow> bytes" where
  "enc_v2_rule r =
     le32 (nr_appid r) @ le32 (nr_rule_id r) @ le32 (nr_priority r) @
     [nr_method r, nr_proto r, nr_dir r, nr_port_count r, nr_len_count r] @ nr_pad r @
     le32 (nr_pkt_seq r) @ le32 (nr_offset r) @ le16 (nr_match_len r) @ nr_match_str r @
     range_codec.image (nr_ports r) @ range_codec.image (nr_len_range r)"

definition dec_v2_rule :: "bytes \<Rightarrow> v2_nl_rule" where
  "dec_v2_rule bs =
     \<lparr>nr_appid = get_le32 bs 0, nr_rule_id = get_le32 bs 4, nr_priority = get_le32 bs 8, nr_method = bs ! 12,
      nr_proto = bs ! 13, nr_dir = bs ! 14, nr_port_count = bs ! 15, nr_len_count = bs ! 16,
      nr_pad = take 3 (drop 17 bs), nr_pkt_seq = get_le32 bs 20, nr_offset = get_le32 bs 24,
      nr_match_len = get_le16 bs 28, nr_match_str = take 256 (drop 30 bs),
      nr_ports = range_codec.records 8 (take 32 (drop 286 bs)),
      nr_len_range = range_codec.records 4 (take 16 (drop 318 bs))\<rparr>"

lemma range_image [simp]: "length (range_codec.image rs) = 4 * length rs" "range_codec.records (length rs) (range_codec.image rs) = rs"
  using range_codec.length_image [of rs] range_codec.records_image [of rs] by (simp_all add: list_all_iff mult.commute)

interpretation v2_codec: record_codec enc_v2_rule dec_v2_rule v2_nl_rule_wf 334
proof
  show "dec_v2_rule (enc_v2_rule r) = r" if wf: "v2_nl_rule_wf r" for r
  proof -
    have "range_codec.records 8 (range_codec.image (nr_ports r)) = nr_ports r"
      "range_codec.records 4 (range_codec.image (nr_len_range r)) = nr_len_range r"
      using wf range_image(2) by (metis v2_nl_rule_wf_def)+
    then show ?thesis using wf by (simp add: dec_v2_rule_def enc_v2_rule_def wire_simps v2_nl_rule_wf_def)
  qed
  show "enc_v2_rule (dec_v2_rule bs) = bs" if len: "length bs = 334" for bs
  proof -
    have "range_codec.image (range_codec.records 8 (take 32 (drop 286 bs))) = take 32 (drop 286 bs)"
      "range_codec.image (range_codec.records 4 (take 16 (drop 318 bs))) = take 16 (drop 318 bs)"
      using len by (simp_all add: range_codec.image_records)
    then show ?thesis using len by (simp add: dec_v2_rule_def enc_v2_rule_def wire_simps)
  qed
qed (simp_all add: enc_v2_rule_def dec_v2_rule_def v2_nl_rule_wf_def)

section \<open>Acknowledgement\<close>

record v2_status =
  vt_request_action :: u32
  vt_version :: u32
  vt_status :: u32
  vt_active_version :: u32
  vt_active_rules :: u32

definition enc_v2_status :: "v2_status \<Rightarrow> bytes" where
  "enc_v2_status s = le32 JMX_NL_ACT_RULE_STATUS @ le32 (vt_request_action s) @ le32 (vt_version s) @
     le32 (vt_status s) @ le32 (vt_active_version s) @ le32 (vt_active_rules s)"

text \<open>A kernel result as the signed number in a message.\<close>

definition krc_word :: "krc \<Rightarrow> u32" where
  "krc_word rc = (case rc of None \<Rightarrow> 0 | Some e \<Rightarrow> - errno_code e)"

text \<open>The data handed to the reply callback, if it is called.\<close>

definition v2_send_version_ack :: "u32 \<Rightarrow> u32 \<Rightarrow> u32 \<Rightarrow> krc \<Rightarrow> v2_state \<Rightarrow> bytes option" where
  "v2_send_version_ack portid nlmsg_seq version status st =
     (if portid = 0 \<or> nlmsg_seq = 0 then None
      else case jmx_v2_rules_get_status st of (active_version, active_count) \<Rightarrow>
        Some (enc_v2_status \<lparr>vt_request_action = JMX_NL_ACT_RULE_VERSION, vt_version = version, vt_status = krc_word status,
          vt_active_version = active_version, vt_active_rules = active_count\<rparr>))"

section \<open>Requests\<close>

text \<open>An array of the kernel's rule: what is copied, and zeros behind it.\<close>

definition v2_copy_rule :: "v2_nl_rule \<Rightarrow> v2_rule option" where
  "v2_copy_rule nr =
     (let len = unat (nr_match_len nr); ports = unat (nr_port_count nr); lens = unat (nr_len_count nr)
      in if 256 < len \<or> 8 < ports \<or> 4 < lens then None
         else Some \<lparr>vr_appid = nr_appid nr, vr_rule_id = nr_rule_id nr, vr_priority = nr_priority nr, vr_method = nr_method nr,
           vr_proto = nr_proto nr, vr_dir = nr_dir nr, vr_port_count = nr_port_count nr, vr_len_count = nr_len_count nr,
           vr_pkt_seq = nr_pkt_seq nr, vr_offset = nr_offset nr, vr_match_len = nr_match_len nr,
           vr_match_str = take len (nr_match_str nr) @ replicate (256 - len) 0,
           vr_ports = take ports (nr_ports nr) @ replicate (8 - ports) (0, 0),
           vr_len_range = take lens (nr_len_range nr) @ replicate (4 - lens) (0, 0)\<rparr>)"

text \<open>The loop over the records of a batch; \<open>i\<close> numbers the allocations of the message.\<close>

fun v2_add_records :: "kernel_env \<Rightarrow> u32 \<Rightarrow> nat \<Rightarrow> v2_nl_rule list \<Rightarrow> v2_state \<Rightarrow> v2_state" where
  "v2_add_records env portid i [] st = st"
| "v2_add_records env portid i (nr # nrs) st =
     v2_add_records env portid (i + 1) nrs (snd (jmx_v2_rule_add env (A_V2_RULE i) portid (v2_copy_rule nr) st))"

definition v2_rule_version :: "kernel_env \<Rightarrow> bytes \<Rightarrow> u32 \<Rightarrow> u32 \<Rightarrow> v2_state \<Rightarrow> bytes option \<times> v2_state" where
  "v2_rule_version env data portid nlmsg_seq st =
     (if length data \<noteq> 8 then (v2_send_version_ack portid nlmsg_seq 0 (Some EMSGSIZE) st, st)
      else if portid = 0 \<or> nlmsg_seq = 0 then (None, st)
      else let version = get_le32 data 4
           in case jmx_v2_rules_commit env portid version st of
                (rc, st) \<Rightarrow> (v2_send_version_ack portid nlmsg_seq version rc st, st))"

definition v2_rule_add_msg :: "kernel_env \<Rightarrow> bytes \<Rightarrow> u32 \<Rightarrow> v2_state \<Rightarrow> v2_state" where
  "v2_rule_add_msg env data portid st =
     (if length data < 4 + 334 then st
      else snd (jmx_v2_rule_add env (A_V2_RULE 0) portid (v2_copy_rule (dec_v2_rule (take 334 (drop 4 data)))) st))"

definition v2_rule_add_batch :: "kernel_env \<Rightarrow> bytes \<Rightarrow> u32 \<Rightarrow> v2_state \<Rightarrow> v2_state" where
  "v2_rule_add_batch env data portid st =
     (let count = unat (get_le32 data 4)
      in if length data < 12 then st
         else if 1024 < count \<or> length data < 12 + 334 * count
         then snd (jmx_v2_rule_add env (A_V2_RULE 0) portid None st)
         else v2_add_records env portid 0 (v2_codec.records count (drop 12 data)) st)"

text \<open>Whether the message was handled, the data for the reply callback, and the states.\<close>

definition jmx_v2_nl_handle ::
  "kernel_env \<Rightarrow> (bytes \<Rightarrow> bool) \<Rightarrow> bytes \<Rightarrow> u32 \<Rightarrow> u32 \<Rightarrow> v3_state \<times> v2_state \<Rightarrow>
   bool \<times> bytes option \<times> v3_state \<times> v2_state" where
  "jmx_v2_nl_handle env others data portid nlmsg_seq s =
     (case s of (v3, v2) \<Rightarrow>
        let action = get_le32 data 0
        in if length data < 4 then (False, None, v3, v2)
           else if action = JMX_NL_ACT_RULE_VERSION
           then (case v2_rule_version env data portid nlmsg_seq v2 of (ack, v2) \<Rightarrow> (True, ack, v3, v2))
           else case jmx_v3_nl_handle env data portid nlmsg_seq True v3 of
             (True, reply, v3) \<Rightarrow> (True, map_option rp_data reply, v3, v2)
           | (False, _, v3) \<Rightarrow>
               if action = JMX_NL_ACT_RULE_FLUSH then (True, None, v3, snd (jmx_v2_rules_begin env portid v2))
               else if action = JMX_NL_ACT_RULE_ADD then (True, None, v3, v2_rule_add_msg env data portid v2)
               else if action = JMX_NL_ACT_RULE_ADD_BATCH then (True, None, v3, v2_rule_add_batch env data portid v2)
               else (others data, None, v3, v2))"

end
