(* ===== verification/V3Channel.thy ===== *)
theory V3Channel
  imports V3Engine DirKernel V2Handler
begin

text \<open>
  The netlink channel between control plane and kernel module, byte by byte.  Control plane side
  (\<open>jmxd/src/jmx_nl_push.c\<close>): framing and sending a request, waiting for and decoding its status.
  Kernel side (\<open>jmx_netlink_msg_rcv\<close>, \<open>jmx_user_msg_handle\<close>, \<open>jmx_v3_reply_to_portid\<close> of
  \<open>jmx/src/jmx_main.c\<close>): receiving, dispatching, replying.  Hosts are little-endian, \<open>size_t\<close> has 64 bits.

  The operating system is a record \<open>net\<close> of the calls that the code makes, over a state of any type.
  \<open>errno\<close> is part of the state of the caller.  The waiting loop is a partial function: \<open>None\<close> means that
  it never returns.
\<close>

unbundle bit_operations_syntax

section \<open>Framing\<close>

record nlmsghdr =
  nlmsg_len :: u32
  nlmsg_type :: u16
  nlmsg_flags :: u16
  nlmsg_seq :: u32
  nlmsg_pid :: u32

definition enc_nlh :: "nlmsghdr \<Rightarrow> bytes" where
  "enc_nlh h = le32 (nlmsg_len h) @ le16 (nlmsg_type h) @ le16 (nlmsg_flags h) @ le32 (nlmsg_seq h) @ le32 (nlmsg_pid h)"

definition dec_nlh :: "bytes \<Rightarrow> nlmsghdr" where
  "dec_nlh bs = \<lparr>nlmsg_len = get_le32 bs 0, nlmsg_type = get_le16 bs 4, nlmsg_flags = get_le16 bs 6,
     nlmsg_seq = get_le32 bs 8, nlmsg_pid = get_le32 bs 12\<rparr>"

abbreviation (input) JMX_NL_MAGIC :: u32 where "JMX_NL_MAGIC \<equiv> 0xa0b0c0d0"
abbreviation (input) MAX_JMX_NETLINK_MSG_LEN :: nat where "MAX_JMX_NETLINK_MSG_LEN \<equiv> 131072"

text \<open>The outer header \<open>af_msg_hdr\<close> and what it carries.\<close>

definition af_frame :: "bytes \<Rightarrow> bytes" where
  "af_frame data = le32 JMX_NL_MAGIC @ le32 (word_of_nat (length data)) @ data"

definition SIZE_MAX :: nat where "SIZE_MAX = 2 ^ 64 - 1"
definition INT_MAX :: nat where "INT_MAX = 2 ^ 31 - 1"
definition UINT32_MAX :: nat where "UINT32_MAX = 2 ^ 32 - 1"

definition v3_size_add :: "nat \<Rightarrow> nat \<Rightarrow> nat option" where
  "v3_size_add a b = (if SIZE_MAX - b < a then None else Some (a + b))"

definition v3_size_mul :: "u32 \<Rightarrow> nat \<Rightarrow> u32 option" where
  "v3_size_mul count record_bytes =
     (if record_bytes \<noteq> 0 \<and> SIZE_MAX div record_bytes < unat count then None
      else let len = unat count * record_bytes in if UINT32_MAX < len then None else Some (word_of_nat len))"

section \<open>The operating system as the control plane sees it\<close>

datatype poll_result = Poll_failed errno | Poll_timeout | Poll_events bool bool   \<comment> \<open>error, readable\<close>

record datagram =
  dg_peer :: u32
  dg_truncated :: bool
  dg_bytes :: bytes

record 'w net =
  nt_calloc :: "nat \<Rightarrow> 'w \<Rightarrow> bool \<times> 'w"
  nt_sendmsg :: "bytes \<Rightarrow> 'w \<Rightarrow> (errno + nat) \<times> 'w"
  nt_clock :: "'w \<Rightarrow> (errno + int) \<times> 'w"
  nt_poll :: "int \<Rightarrow> 'w \<Rightarrow> poll_result \<times> 'w"
  nt_recvmsg :: "'w \<Rightarrow> (errno + datagram) \<times> 'w"

record kernel_status =
  ks_engine_capabilities :: u32
  ks_active_generation :: u32
  ks_active_rules :: u32
  ks_active_steps :: u32
  ks_active_ports :: u32
  ks_active_mode :: u32
  ks_active_catalog_digest :: bytes
  ks_staging_generation :: u32
  ks_staging_state :: u32
  ks_reason :: u32
  ks_detail :: u32

definition kernel_status_zero :: kernel_status where
  "kernel_status_zero = \<lparr>ks_engine_capabilities = 0, ks_active_generation = 0, ks_active_rules = 0, ks_active_steps = 0,
     ks_active_ports = 0, ks_active_mode = 0, ks_active_catalog_digest = replicate 32 0, ks_staging_generation = 0,
     ks_staging_state = 0, ks_reason = 0, ks_detail = 0\<rparr>"

text \<open>The caller: \<open>errno\<close>, the sequence counters \<open>g_v3_next_seq\<close> and \<open>g_v2_next_seq\<close>, the status buffer that the current call
  fills, and the operating system.\<close>

record 'w user =
  us_errno :: krc
  us_seq :: u32
  us_seq_v2 :: u32
  us_status :: kernel_status
  us_world :: 'w

definition set_errno :: "errno \<Rightarrow> 'w user \<Rightarrow> 'w user" where
  "set_errno e u = u\<lparr>us_errno := Some e\<rparr>"

definition v3_calloc :: "'w net \<Rightarrow> nat \<Rightarrow> 'w user \<Rightarrow> bool \<times> 'w user" where
  "v3_calloc net n u =
     (case nt_calloc net n (us_world u) of
        (True, w) \<Rightarrow> (True, u\<lparr>us_world := w\<rparr>)
      | (False, w) \<Rightarrow> (False, set_errno ENOMEM (u\<lparr>us_world := w\<rparr>)))"

definition v3_next_seq_locked :: "'w user \<Rightarrow> u32 \<times> 'w user" where
  "v3_next_seq_locked u =
     (let seq = us_seq u + 1; seq = (if seq = 0 then 1 else seq) in (seq, u\<lparr>us_seq := seq\<rparr>))"

definition v3_monotonic_ms :: "'w net \<Rightarrow> 'w user \<Rightarrow> int \<times> 'w user" where
  "v3_monotonic_ms net u =
     (case nt_clock net (us_world u) of
        (Inl e, w) \<Rightarrow> (-1, set_errno e (u\<lparr>us_world := w\<rparr>))
      | (Inr ms, w) \<Rightarrow> (ms, u\<lparr>us_world := w\<rparr>))"

definition v3_action_timeout_ms :: "u32 \<Rightarrow> int" where
  "v3_action_timeout_ms action =
     (if action = JMX_NL_ACT_CAPABILITY_V3 \<or> action = JMX_NL_ACT_RULESET_STATUS_V3 then 2000
      else if action = JMX_NL_ACT_RULESET_COMMIT_V3 then 30000
      else 5000)"

section \<open>Sending\<close>

text \<open>\<open>NLMSG_LENGTH\<close> and \<open>NLMSG_SPACE\<close>; none of the sums can wrap below \<open>INT_MAX\<close>.\<close>

definition NLMSG_LENGTH :: "nat \<Rightarrow> nat" where "NLMSG_LENGTH n = n + 16"
definition NLMSG_SPACE :: "nat \<Rightarrow> nat" where "NLMSG_SPACE n = (NLMSG_LENGTH n + 3) div 4 * 4"

definition request_frame :: "u32 \<Rightarrow> bytes \<Rightarrow> bytes" where
  "request_frame seq data =
     enc_nlh \<lparr>nlmsg_len = word_of_nat (NLMSG_LENGTH (8 + length data)), nlmsg_type = 0, nlmsg_flags = 1,
              nlmsg_seq = seq, nlmsg_pid = 0\<rparr> @ af_frame data"

definition v3_nl_send_locked :: "'w net \<Rightarrow> bytes \<Rightarrow> u32 \<Rightarrow> 'w user \<Rightarrow> bool \<times> 'w user" where
  "v3_nl_send_locked net data seq u =
     (case v3_size_add 8 (length data) of
        None \<Rightarrow> (False, set_errno EOVERFLOW u)
      | Some len \<Rightarrow>
          if INT_MAX < len then (False, set_errno EOVERFLOW u)
          else if NLMSG_SPACE len < NLMSG_LENGTH len \<or> UINT32_MAX < NLMSG_LENGTH len
          then (False, set_errno EOVERFLOW u)
          else (case v3_calloc net (NLMSG_SPACE len) u of
                  (False, u) \<Rightarrow> (False, u)
                | (True, u) \<Rightarrow>
                    (case nt_sendmsg net (request_frame seq data) (us_world u) of
                       (Inl e, w) \<Rightarrow> (False, set_errno e (u\<lparr>us_world := w\<rparr>))
                     | (Inr sent, w) \<Rightarrow>
                         if sent \<noteq> NLMSG_LENGTH len then (False, set_errno EIO (u\<lparr>us_world := w\<rparr>))
                         else (True, u\<lparr>us_world := w\<rparr>))))"

section \<open>Waiting for the status\<close>

datatype v3_ack_result = V3_ACK_OK | V3_ACK_NACK | V3_RESULT_UNKNOWN

definition kernel_status_of :: "v3_status \<Rightarrow> kernel_status" where
  "kernel_status_of wire =
     \<lparr>ks_engine_capabilities = ss_engine_capabilities wire, ks_active_generation = ss_active_generation wire,
      ks_active_rules = ss_active_rules wire, ks_active_steps = ss_active_steps wire, ks_active_ports = ss_active_ports wire,
      ks_active_mode = ss_active_mode wire, ks_active_catalog_digest = ss_active_catalog_digest wire,
      ks_staging_generation = ss_staging_generation wire, ks_staging_state = ss_staging_state wire,
      ks_reason = ss_reason wire, ks_detail = ss_detail wire\<rparr>"

text \<open>What is decoded: nothing usable, or the acknowledgement and the status.\<close>

definition v3_decode_status :: "bytes \<Rightarrow> u32 \<Rightarrow> u32 \<Rightarrow> u32 \<Rightarrow> (v3_ack_result \<times> kernel_status) option" where
  "v3_decode_status buffer seq request_action generation =
     (let nlh = dec_nlh buffer; nl_payload = unat (nlmsg_len nlh) - 16; outer_len = unat (get_le32 buffer 20);
          inner = drop 24 buffer; header = dec_hdr inner; body = take 80 (drop 32 inner); wire = dec_status body
      in if length buffer < 16 \<or> unat (nlmsg_len nlh) < 16 \<or> length buffer < unat (nlmsg_len nlh) then None
         else if nlmsg_seq nlh \<noteq> seq \<or> nlmsg_pid nlh \<noteq> 0 then None
         else if nl_payload < 8 + 32 + 80 then None
         else if get_le32 buffer 16 \<noteq> JMX_NL_MAGIC \<or> outer_len = 0 \<or> outer_len \<noteq> nl_payload - 8 then None
         else if outer_len \<noteq> 32 + 80 \<or> h_action header \<noteq> JMX_NL_ACT_RULESET_STATUS_V3 \<or>
                 h_abi_version header \<noteq> JMX_RULE_ABI_V3 \<or> h_header_size header \<noteq> 32 \<or> h_record_size header \<noteq> 80 \<or>
                 h_count header \<noteq> 1 \<or> h_payload_bytes header \<noteq> 80 \<or> h_flags header \<noteq> 0 \<or>
                 h_generation header \<noteq> generation
         then None
         else if payload_crc32 body \<noteq> h_crc32 header \<or> ss_request_action wire \<noteq> request_action then None
         else Some (if ss_status wire = JMX_V3_STATUS_OK then V3_ACK_OK else V3_ACK_NACK, kernel_status_of wire))"

text \<open>One round of the loop: \<open>None\<close> is \<open>continue\<close>.\<close>

definition wait_round ::
  "'w net \<Rightarrow> u32 \<Rightarrow> u32 \<Rightarrow> u32 \<Rightarrow> int \<Rightarrow> 'w user \<Rightarrow> v3_ack_result option \<times> 'w user" where
  "wait_round net request_action generation seq deadline u =
     (case v3_monotonic_ms net u of (now, u) \<Rightarrow>
        if now < 0 \<or> deadline \<le> now then (Some V3_RESULT_UNKNOWN, set_errno ETIMEDOUT u)
        else (case nt_poll net (deadline - now) (us_world u) of
           (Poll_failed e, w) \<Rightarrow>
             (if e = EINTR then None else Some V3_RESULT_UNKNOWN, set_errno e (u\<lparr>us_world := w\<rparr>))
         | (Poll_timeout, w) \<Rightarrow> (Some V3_RESULT_UNKNOWN, set_errno ETIMEDOUT (u\<lparr>us_world := w\<rparr>))
         | (Poll_events err readable, w) \<Rightarrow>
             if err then (Some V3_RESULT_UNKNOWN, set_errno EIO (u\<lparr>us_world := w\<rparr>))
             else if \<not> readable then (None, u\<lparr>us_world := w\<rparr>)
             else (case nt_recvmsg net w of
                (Inl e, w) \<Rightarrow>
                  (if e = EINTR \<or> e = EAGAIN then None else Some V3_RESULT_UNKNOWN, set_errno e (u\<lparr>us_world := w\<rparr>))
              | (Inr d, w) \<Rightarrow>
                  let u = u\<lparr>us_world := w\<rparr>
                  in if dg_peer d \<noteq> 0 then (None, u)
                     else if dg_truncated d then (Some V3_RESULT_UNKNOWN, set_errno EMSGSIZE u)
                     else (case v3_decode_status (dg_bytes d) seq request_action generation of
                             None \<Rightarrow> (None, u)
                           | Some (ack, status) \<Rightarrow>
                               let u = u\<lparr>us_status := status\<rparr>
                               in (Some ack, if ack = V3_ACK_NACK then set_errno EPROTO u else u)))))"

partial_function (option) v3_wait_loop ::
  "'w net \<Rightarrow> u32 \<Rightarrow> u32 \<Rightarrow> u32 \<Rightarrow> int \<Rightarrow> 'w user \<Rightarrow> (v3_ack_result \<times> 'w user) option" where
  "v3_wait_loop net request_action generation seq deadline u =
     (case wait_round net request_action generation seq deadline u of
        (Some ack, u) \<Rightarrow> Some (ack, u)
      | (None, u) \<Rightarrow> v3_wait_loop net request_action generation seq deadline u)"

definition v3_wait_status_locked ::
  "'w net \<Rightarrow> u32 \<Rightarrow> u32 \<Rightarrow> u32 \<Rightarrow> 'w user \<Rightarrow> (v3_ack_result \<times> 'w user) option" where
  "v3_wait_status_locked net request_action generation seq u =
     (case v3_monotonic_ms net u of (deadline, u) \<Rightarrow>
        if deadline < 0 then Some (V3_RESULT_UNKNOWN, u)
        else v3_wait_loop net request_action generation seq (deadline + v3_action_timeout_ms request_action) u)"

definition v3_send_request_locked ::
  "'w net \<Rightarrow> u32 \<Rightarrow> u32 \<Rightarrow> u32 \<Rightarrow> u32 \<Rightarrow> u32 \<Rightarrow> bytes \<Rightarrow> 'w user \<Rightarrow> (v3_ack_result \<times> 'w user) option" where
  "v3_send_request_locked net action generation flags record_size count payload u =
     (case v3_size_add 32 (length payload) of
        None \<Rightarrow> Some (V3_RESULT_UNKNOWN, set_errno EOVERFLOW u)
      | Some len \<Rightarrow>
          if UINT32_MAX < len then Some (V3_RESULT_UNKNOWN, set_errno EOVERFLOW u)
          else (case v3_calloc net len u of
                  (False, u) \<Rightarrow> Some (V3_RESULT_UNKNOWN, u)
                | (True, u) \<Rightarrow>
                    let message = enc_hdr (request_header action generation flags record_size count payload) @ payload
                    in case v3_next_seq_locked u of (seq, u) \<Rightarrow>
                         (case v3_nl_send_locked net message seq u of
                            (False, u) \<Rightarrow> Some (V3_RESULT_UNKNOWN, u)
                          | (True, u) \<Rightarrow> v3_wait_status_locked net action generation seq u)))"

section \<open>The kernel's end\<close>

text \<open>What the dispatcher calls besides the direction and rule handlers: the license module, which is not
  part of the repository, and the handlers of the actions of WANs, routes and regex results.\<close>

record dispatch =
  dp_license :: "bytes \<Rightarrow> bool"
  dp_others :: "bytes \<Rightarrow> bool"

abbreviation (input) JMX_NL_MSG_INIT :: u32 where "JMX_NL_MSG_INIT \<equiv> 0"
abbreviation (input) JMX_NL_MSG_ADD_FEATURE :: u32 where "JMX_NL_MSG_ADD_FEATURE \<equiv> 1"
abbreviation (input) JMX_NL_MSG_CLEAN_FEATURE :: u32 where "JMX_NL_MSG_CLEAN_FEATURE \<equiv> 2"

definition reply_frame :: "u32 \<Rightarrow> bytes \<Rightarrow> bytes" where
  "reply_frame seq data =
     enc_nlh \<lparr>nlmsg_len = word_of_nat (NLMSG_LENGTH (8 + length data)), nlmsg_type = 29, nlmsg_flags = 0,
              nlmsg_seq = seq, nlmsg_pid = 0\<rparr> @ af_frame data"

text \<open>The message handed to \<open>netlink_unicast\<close>; the padding behind it is left out.\<close>

definition jmx_v3_reply_to_portid :: "kernel_env \<Rightarrow> u32 \<Rightarrow> u32 \<Rightarrow> bytes \<Rightarrow> errno + bytes" where
  "jmx_v3_reply_to_portid env portid seq data =
     (if portid = 0 \<or> seq = 0 \<or> data = [] \<or> MAX_JMX_NETLINK_MSG_LEN \<le> length data + 8 then Inl EINVAL
      else if \<not> alloc_ok env A_NL_REPLY then Inl ENOMEM
      else Inr (reply_frame seq data))"

definition jmx_user_msg_handle ::
  "kernel_env \<Rightarrow> dispatch \<Rightarrow> bytes \<Rightarrow> u32 \<Rightarrow> u32 \<Rightarrow> v3_state \<times> v2_state \<Rightarrow> bytes option \<times> v3_state \<times> v2_state" where
  "jmx_user_msg_handle env disp data portid seq s =
     (let action = get_le32 data 0; send = (\<lambda>d. case jmx_v3_reply_to_portid env portid seq d of Inl _ \<Rightarrow> None | Inr m \<Rightarrow> Some m)
      in if length data < 4 then (None, s)
         else if action = JMX_NL_MSG_INIT \<or> action = JMX_NL_MSG_ADD_FEATURE \<or> action = JMX_NL_MSG_CLEAN_FEATURE then (None, s)
         else case jmx_v2_nl_handle env (dp_others disp) data portid seq s of
                (_, reply, s) \<Rightarrow> (Option.bind reply send, s))"

definition jmx_netlink_msg_rcv ::
  "kernel_env \<Rightarrow> dispatch \<Rightarrow> bool \<Rightarrow> u32 \<Rightarrow> bytes \<Rightarrow> dir_runtime \<times> v3_state \<times> v2_state \<Rightarrow>
   bytes option \<times> dir_runtime \<times> v3_state \<times> v2_state" where
  "jmx_netlink_msg_rcv env disp capable portid skb s =
     (let nlh = dec_nlh skb; outer_len = unat (nlmsg_len nlh) - 16; af_len = get_le32 skb 20;
          udata = take (unat af_len) (drop 24 skb)
      in if \<not> capable \<or> length skb < 16 then (None, s)
         else if unat (nlmsg_len nlh) < 24 \<or> length skb < unat (nlmsg_len nlh) then (None, s)
         else if get_le32 skb 16 \<noteq> JMX_NL_MAGIC then (None, s)
         else if sint af_len \<le> 0 \<or> int MAX_JMX_NETLINK_MSG_LEN \<le> sint af_len then (None, s)
         else if unat af_len \<noteq> outer_len - 8 then (None, s)
         else (case jmx_direction_nl_handle env udata (fst s) of
                 (True, rt) \<Rightarrow> (None, rt, snd s)
               | (False, rt) \<Rightarrow>
                   if dp_license disp udata then (None, rt, snd s)
                   else (case jmx_user_msg_handle env disp udata portid (nlmsg_seq nlh) (snd s) of
                           (reply, st) \<Rightarrow> (reply, rt, st))))"

end
