(* ===== verification/V3Push.thy ===== *)
theory V3Push
  imports V3Channel "HOL-Library.Monad_Syntax"
begin

text \<open>
  Pushing a compiled rule catalogue from the control plane to the kernel
  (\<open>jmxd/src/jmx_nl_push.c\<close>, the functions of protocol v3): the checks before anything is sent, the
  conversion of rules, steps and ports to wire records, the batches of at most 128 records, and the
  transaction BEGIN, batches, COMMIT with the reconciliation of an unknown result, or ABORT.

  An array pointer with its count is a list; the code's tests for a NULL array with a count of 0 or
  more concern no list.  Signed fields are integers that the conversion casts to \<open>u32\<close>.
\<close>

unbundle bit_operations_syntax

section \<open>The catalogue\<close>

record chain_rule =
  cr_signature_rule_id :: u32
  cr_appid :: u32
  cr_priority :: u32
  cr_required_caps :: u32
  cr_first_step :: u32
  cr_first_port :: u32
  cr_step_count :: u16
  cr_port_count :: u16
  cr_proto :: u8
  cr_dir :: u8
  cr_flags :: u8
  cr_active :: u8

record chain_step =
  cs_signature_rule_id :: u32
  cs_step_index :: u16
  cs_matcher_type :: u8
  cs_condition :: u8
  cs_case_mode :: u8
  cs_input_view :: u8
  cs_position_flags :: u8
  cs_numeric_encoding :: u8
  cs_literal_option :: u8
  cs_depth :: int
  cs_offset :: int
  cs_distance :: int
  cs_within :: int
  cs_payload_len :: u16
  cs_reference_source :: u16
  cs_comparison :: u8
  cs_adjust_mode :: u8
  cs_width :: u8
  cs_jump_multiplier :: u8
  cs_inline_operand :: u32
  cs_adjustment_operand :: u32
  cs_jump_base :: int
  cs_payload :: bytes

record chain_port =
  cp_signature_rule_id :: u32
  cp_min_port :: u16
  cp_max_port :: u16
  cp_endpoint :: u8

record chain_set =
  ch_rules :: "chain_rule list"
  ch_steps :: "chain_step list"
  ch_ports :: "chain_port list"
  ch_catalog_digest :: bytes

text \<open>The index \<open>first + j\<close> is computed in 32 bits.\<close>

definition chain_steps_of :: "chain_set \<Rightarrow> chain_rule \<Rightarrow> chain_step list" where
  "chain_steps_of rs rule = map (\<lambda>j. ch_steps rs ! unat (cr_first_step rule + word_of_nat j)) [0..<unat (cr_step_count rule)]"

definition chain_ports_of :: "chain_set \<Rightarrow> chain_rule \<Rightarrow> chain_port list" where
  "chain_ports_of rs rule = map (\<lambda>j. ch_ports rs ! unat (cr_first_port rule + word_of_nat j)) [0..<unat (cr_port_count rule)]"

definition active_rules :: "chain_set \<Rightarrow> chain_rule list" where
  "active_rules rs = filter (\<lambda>rule. cr_active rule \<noteq> 0) (ch_rules rs)"

definition active_steps :: "chain_set \<Rightarrow> chain_step list" where
  "active_steps rs = concat (map (chain_steps_of rs) (active_rules rs))"

definition active_ports :: "chain_set \<Rightarrow> chain_port list" where
  "active_ports rs = concat (map (chain_ports_of rs) (active_rules rs))"

section \<open>Records\<close>

definition v3_rule_to_wire :: "chain_rule \<Rightarrow> errno + v3_rule_wire" where
  "v3_rule_to_wire src =
     (if JMX_V3_MAX_STEPS_PER_RULE < cr_step_count src then Inl EINVAL
      else Inr \<lparr>rw_signature_rule_id = cr_signature_rule_id src, rw_appid = cr_appid src, rw_priority = cr_priority src,
             rw_required_caps = cr_required_caps src, rw_step_count = cr_step_count src, rw_proto = cr_proto src,
             rw_dir = cr_dir src, rw_flags = cr_flags src, rw_reserved = replicate 3 0\<rparr>)"

definition v3_step_to_wire :: "chain_step \<Rightarrow> errno + v3_step_wire" where
  "v3_step_to_wire src =
     (if JMX_V3_PAYLOAD_MAX < unat (cs_payload_len src) then Inl EINVAL
      else Inr \<lparr>sw_signature_rule_id = cs_signature_rule_id src, sw_step_index = cs_step_index src,
             sw_matcher_type = cs_matcher_type src, sw_condition = cs_condition src, sw_case_mode = cs_case_mode src,
             sw_input_view = cs_input_view src, sw_position_flags = cs_position_flags src,
             sw_numeric_encoding = cs_numeric_encoding src, sw_literal_option = cs_literal_option src,
             sw_reserved = replicate 3 0, sw_depth = word_of_int (cs_depth src), sw_offset = word_of_int (cs_offset src),
             sw_distance = word_of_int (cs_distance src), sw_within = word_of_int (cs_within src),
             sw_payload_len = cs_payload_len src, sw_reference_source = cs_reference_source src,
             sw_comparison = cs_comparison src, sw_adjust_mode = cs_adjust_mode src, sw_width = cs_width src,
             sw_jump_multiplier = cs_jump_multiplier src, sw_inline_operand = cs_inline_operand src,
             sw_adjustment_operand = cs_adjustment_operand src, sw_jump_base = word_of_int (cs_jump_base src),
             sw_payload = take (unat (cs_payload_len src)) (cs_payload src) @ replicate (64 - unat (cs_payload_len src)) 0\<rparr>)"

definition v3_port_to_wire :: "chain_port \<Rightarrow> errno + v3_port_wire" where
  "v3_port_to_wire src =
     Inr \<lparr>pw_signature_rule_id = cp_signature_rule_id src, pw_endpoint = cp_endpoint src, pw_reserved = replicate 3 0,
          pw_min_port = cp_min_port src, pw_max_port = cp_max_port src\<rparr>"

definition v3_digest_is_zero :: "bytes \<Rightarrow> bool" where
  "v3_digest_is_zero digest \<longleftrightarrow> list_all (\<lambda>b. b = 0) (take 32 digest)"

section \<open>Checks before sending\<close>

text \<open>The checks of one active rule; the counts are 64 bits wide and cannot wrap.\<close>

definition check_rule :: "chain_set \<Rightarrow> chain_rule \<Rightarrow> errno option" where
  "check_rule rs rule =
     (let first_step = unat (cr_first_step rule); first_port = unat (cr_first_port rule);
          step_end = first_step + unat (cr_step_count rule); port_end = first_port + unat (cr_port_count rule)
      in if JMX_V3_MAX_STEPS_PER_RULE < cr_step_count rule \<or> JMX_V3_MAX_PORTS_PER_RULE < cr_port_count rule then Some EINVAL
         else if length (ch_steps rs) < first_step \<or> length (ch_steps rs) < step_end \<or>
                 length (ch_ports rs) < first_port \<or> length (ch_ports rs) < port_end then Some ERANGE
         else if \<not> list_all (\<lambda>s. cs_signature_rule_id s = cr_signature_rule_id rule \<and> unat (cs_payload_len s) \<le> JMX_V3_PAYLOAD_MAX)
                   (chain_steps_of rs rule) then Some EINVAL
         else if \<not> list_all (\<lambda>p. cp_signature_rule_id p = cr_signature_rule_id rule) (chain_ports_of rs rule) then Some EINVAL
         else None)"

fun preflight_loop :: "chain_set \<Rightarrow> chain_rule list \<Rightarrow> nat \<times> nat \<times> nat \<times> u32 \<Rightarrow> errno + (nat \<times> nat \<times> nat \<times> u32)" where
  "preflight_loop rs [] counts = Inr counts"
| "preflight_loop rs (rule # rest) (nrules, nsteps, nports, required) =
     (if cr_active rule = 0 then preflight_loop rs rest (nrules, nsteps, nports, required)
      else case check_rule rs rule of Some e \<Rightarrow> Inl e
      | None \<Rightarrow>
          let nrules = nrules + 1; nsteps = nsteps + unat (cr_step_count rule);
              nports = nports + unat (cr_port_count rule); required = required OR cr_required_caps rule
          in if UINT32_MAX < nrules \<or> UINT32_MAX < nsteps \<or> UINT32_MAX < nports then Inl EOVERFLOW
             else preflight_loop rs rest (nrules, nsteps, nports, required))"

definition v3_preflight_ruleset :: "chain_set \<Rightarrow> errno + (u32 \<times> u32 \<times> u32 \<times> u32)" where
  "v3_preflight_ruleset rs =
     (case preflight_loop rs (ch_rules rs) (0, 0, 0, 0) of
        Inl e \<Rightarrow> Inl e
      | Inr (nrules, nsteps, nports, required) \<Rightarrow>
          if nrules \<noteq> 0 \<and> v3_digest_is_zero (ch_catalog_digest rs) then Inl EINVAL
          else Inr (word_of_nat nrules, word_of_nat nsteps, word_of_nat nports, required))"

section \<open>Batches\<close>

text \<open>The three functions that send batches are the same loop over different records; each fills an array
  of 128 and sends it when it is full, and what is left at the end.\<close>

definition send_batch ::
  "'w net \<Rightarrow> u32 \<Rightarrow> u32 \<Rightarrow> nat \<Rightarrow> ('r \<Rightarrow> bytes) \<Rightarrow> 'r list \<Rightarrow> 'w user \<Rightarrow> (bool \<times> 'w user) option" where
  "send_batch net action generation record_bytes enc batch u =
     (let count = word_of_nat (length batch)
      in case v3_size_mul count record_bytes of
           None \<Rightarrow> Some (False, set_errno EOVERFLOW u)
         | Some payload_bytes \<Rightarrow> do {
             (ack, u) \<leftarrow> v3_send_request_locked net action generation 0 (word_of_nat record_bytes) count (concat (map enc batch)) u;
             Some (ack = V3_ACK_OK, u)
           })"

fun batch_loop ::
  "('r list \<Rightarrow> 'w user \<Rightarrow> (bool \<times> 'w user) option) \<Rightarrow> ('s \<Rightarrow> errno + 'r) \<Rightarrow> 's list \<Rightarrow> 'r list \<Rightarrow> 'w user \<Rightarrow>
   (bool \<times> 'w user) option" where
  "batch_loop send to_wire [] batch u = (if batch = [] then Some (True, u) else send batch u)"
| "batch_loop send to_wire (src # rest) batch u =
     (case to_wire src of
        Inl e \<Rightarrow> Some (False, set_errno e u)
      | Inr wire \<Rightarrow>
          if length batch + 1 = 128
          then do {
            (ok, u) \<leftarrow> send (batch @ [wire]) u;
            if ok then batch_loop send to_wire rest [] u else Some (False, u)
          }
          else batch_loop send to_wire rest (batch @ [wire]) u)"

definition v3_send_rule_batches_locked :: "'w net \<Rightarrow> chain_set \<Rightarrow> u32 \<Rightarrow> 'w user \<Rightarrow> (bool \<times> 'w user) option" where
  "v3_send_rule_batches_locked net rs generation =
     batch_loop (send_batch net JMX_NL_ACT_RULE_V3_BATCH generation 24 enc_rule) v3_rule_to_wire (active_rules rs) []"

definition v3_send_step_batches_locked :: "'w net \<Rightarrow> chain_set \<Rightarrow> u32 \<Rightarrow> 'w user \<Rightarrow> (bool \<times> 'w user) option" where
  "v3_send_step_batches_locked net rs generation =
     batch_loop (send_batch net JMX_NL_ACT_STEP_V3_BATCH generation 116 enc_step) v3_step_to_wire (active_steps rs) []"

definition v3_send_port_batches_locked :: "'w net \<Rightarrow> chain_set \<Rightarrow> u32 \<Rightarrow> 'w user \<Rightarrow> (bool \<times> 'w user) option" where
  "v3_send_port_batches_locked net rs generation =
     batch_loop (send_batch net JMX_NL_ACT_PORT_V3_BATCH generation 12 enc_port) v3_port_to_wire (active_ports rs) []"

section \<open>Status requests\<close>

definition v3_ack_to_errno :: "v3_ack_result \<Rightarrow> 'w user \<Rightarrow> bool \<times> 'w user" where
  "v3_ack_to_errno result u =
     (if result = V3_ACK_OK then (True, u)
      else if result = V3_ACK_NACK \<and> us_errno u = None then (False, set_errno EPROTO u)
      else (False, u))"

definition jmx_nl_v3_probe :: "'w net \<Rightarrow> 'w user \<Rightarrow> (bool \<times> 'w user) option" where
  "jmx_nl_v3_probe net u = do {
     (result, u) \<leftarrow> v3_send_request_locked net JMX_NL_ACT_CAPABILITY_V3 0 0 0 0 [] (u\<lparr>us_status := kernel_status_zero\<rparr>);
     Some (v3_ack_to_errno result u)
   }"

definition jmx_nl_v3_status :: "'w net \<Rightarrow> u32 \<Rightarrow> 'w user \<Rightarrow> (bool \<times> 'w user) option" where
  "jmx_nl_v3_status net generation u = do {
     (result, u) \<leftarrow> v3_send_request_locked net JMX_NL_ACT_RULESET_STATUS_V3 generation 0 0 0 [] (u\<lparr>us_status := kernel_status_zero\<rparr>);
     Some (v3_ack_to_errno result u)
   }"

definition v3_status_matches :: "kernel_status \<Rightarrow> u32 \<Rightarrow> u32 \<Rightarrow> u32 \<Rightarrow> u32 \<Rightarrow> u8 \<Rightarrow> bytes \<Rightarrow> bool" where
  "v3_status_matches status generation rules steps ports mode catalog_digest \<longleftrightarrow>
     ks_active_generation status = generation \<and> ks_active_rules status = rules \<and> ks_active_steps status = steps \<and>
     ks_active_ports status = ports \<and> ks_active_mode status = ucast mode \<and>
     take 32 (ks_active_catalog_digest status) = take 32 catalog_digest"

definition v3_reconcile_status_locked ::
  "'w net \<Rightarrow> u32 \<Rightarrow> u32 \<Rightarrow> u32 \<Rightarrow> u32 \<Rightarrow> u8 \<Rightarrow> bytes \<Rightarrow> 'w user \<Rightarrow> (bool \<times> 'w user) option" where
  "v3_reconcile_status_locked net generation rules steps ports mode catalog_digest u = do {
     (result, u) \<leftarrow> v3_send_request_locked net JMX_NL_ACT_RULESET_STATUS_V3 generation 0 0 0 [] u;
     if result \<noteq> V3_ACK_OK then Some (False, u)
     else if \<not> v3_status_matches (us_status u) generation rules steps ports mode catalog_digest
     then Some (False, set_errno EPROTO u)
     else Some (True, u)
   }"

section \<open>The push\<close>

definition empty_digest :: bytes where
  "empty_digest =
     [0x95, 0xe4, 0x80, 0x9a, 0x4a, 0xb2, 0xd9, 0x1c, 0xc2, 0x37, 0x57, 0xae, 0xb0, 0x10, 0x9a, 0xac,
      0x65, 0xe7, 0x19, 0x24, 0x96, 0xda, 0xb5, 0xb3, 0x46, 0x6d, 0x5e, 0x8c, 0x93, 0x22, 0x64, 0xdc]"

text \<open>What is pushed: mode, counts and digest after the replacement of an empty or switched-off catalogue.\<close>

definition push_begin :: "chain_set \<Rightarrow> u8 \<Rightarrow> u32 \<times> u32 \<times> u32 \<times> u32 \<Rightarrow> u8 \<times> v3_begin" where
  "push_begin rs mode counts =
     (case counts of (rules, steps, ports, caps) \<Rightarrow>
        if mode = 0 \<or> rules = 0
        then (0, \<lparr>bg_expected_rules = 0, bg_expected_steps = 0, bg_expected_ports = 0, bg_required_capabilities = 0,
                  bg_catalog_digest = empty_digest\<rparr>)
        else (mode, \<lparr>bg_expected_rules = rules, bg_expected_steps = steps, bg_expected_ports = ports,
                     bg_required_capabilities = caps, bg_catalog_digest = take 32 (ch_catalog_digest rs)\<rparr>))"

text \<open>The labels \<open>abort\<close> and \<open>abort_preserve\<close>: the status buffer of the caller is not touched.\<close>

definition push_abort_preserve :: "'w net \<Rightarrow> u32 \<Rightarrow> 'w user \<Rightarrow> (bool \<times> 'w user) option" where
  "push_abort_preserve net generation u = do {
     let saved_errno = (case us_errno u of None \<Rightarrow> EPROTO | Some e \<Rightarrow> e);
     let status = us_status u;
     (ack, u) \<leftarrow> v3_send_request_locked net JMX_NL_ACT_RULESET_ABORT_V3 generation 0 0 0 [] u;
     Some (False, set_errno saved_errno (u\<lparr>us_status := status\<rparr>))
   }"

definition push_abort :: "'w net \<Rightarrow> u32 \<Rightarrow> 'w user \<Rightarrow> (bool \<times> 'w user) option" where
  "push_abort net generation u =
     push_abort_preserve net generation (if us_errno u = None then set_errno EPROTO u else u)"

definition send_all_batches :: "'w net \<Rightarrow> chain_set \<Rightarrow> u32 \<Rightarrow> 'w user \<Rightarrow> (bool \<times> 'w user) option" where
  "send_all_batches net rs generation u = do {
     (ok, u) \<leftarrow> v3_send_rule_batches_locked net rs generation u;
     if \<not> ok then Some (False, u)
     else do {
       (ok, u) \<leftarrow> v3_send_step_batches_locked net rs generation u;
       if \<not> ok then Some (False, u) else v3_send_port_batches_locked net rs generation u
     }
   }"

text \<open>From COMMIT to the label \<open>out\<close>.\<close>

definition push_commit :: "'w net \<Rightarrow> u32 \<Rightarrow> u8 \<Rightarrow> v3_begin \<Rightarrow> 'w user \<Rightarrow> (bool \<times> 'w user) option" where
  "push_commit net generation mode b u = do {
     let reconcile = v3_reconcile_status_locked net generation (bg_expected_rules b) (bg_expected_steps b)
       (bg_expected_ports b) mode (bg_catalog_digest b);
     (ack, u) \<leftarrow> v3_send_request_locked net JMX_NL_ACT_RULESET_COMMIT_V3 generation 0 0 0 [] u;
     if ack = V3_ACK_NACK then push_abort net generation u
     else if ack = V3_RESULT_UNKNOWN
     then do {
       (ok, u) \<leftarrow> reconcile u;
       if ok then Some (True, u) else push_abort_preserve net generation u
     }
     else if \<not> v3_status_matches (us_status u) generation (bg_expected_rules b) (bg_expected_steps b)
       (bg_expected_ports b) mode (bg_catalog_digest b)
     then do {
       (ok, u) \<leftarrow> reconcile u;
       if ok then Some (True, u) else push_abort net generation u
     }
     else Some (True, u)
   }"

definition jmx_nl_push_chain_rules :: "'w net \<Rightarrow> chain_set \<Rightarrow> u32 \<Rightarrow> u8 \<Rightarrow> 'w user \<Rightarrow> (bool \<times> 'w user) option" where
  "jmx_nl_push_chain_rules net rs generation mode u =
     (if generation = 0 \<or> 2 < mode then Some (False, set_errno EINVAL u)
      else let u = u\<lparr>us_status := kernel_status_zero\<rparr>
      in case v3_preflight_ruleset rs of
           Inl e \<Rightarrow> Some (False, set_errno e u)
         | Inr counts \<Rightarrow>
             (case push_begin rs mode counts of (mode, b) \<Rightarrow> do {
                (ack, u) \<leftarrow> v3_send_request_locked net JMX_NL_ACT_RULESET_BEGIN_V3 generation (ucast mode) 48 1 (enc_begin b) u;
                if ack \<noteq> V3_ACK_OK then push_abort net generation u
                else do {
                  (ok, u) \<leftarrow> (if bg_expected_rules b \<noteq> 0 then send_all_batches net rs generation u else Some (True, u));
                  if \<not> ok then push_abort net generation u else push_commit net generation mode b u
                }
              }))"

end
