(* ===== verification/ChainSet.thy ===== *)
theory ChainSet
  imports V3Push
begin

text \<open>
  The sets of chain rules of the control plane (second half of \<open>jmxd/src/jmx_rule.c\<close>): three arrays that grow by
  doubling, and the search for a rule by its identifier.

  \<open>V3Push\<close> reads the rules, steps, ports and the digest of such a set; the record here adds the rest of the C
  structure to them.  A count is the length of its list; a capacity is kept as the code keeps it, for the size of
  the next allocation depends on it.  \<open>mem n\<close> says whether an allocation of \<open>n\<close> bytes succeeds.
\<close>

section \<open>Data\<close>

record chain_stats =
  st_legacy_db_rules :: u32
  st_legacy_kernel_rules :: u32
  st_legacy_regex_inactive :: u32
  st_chain_db_rules :: u32
  st_chain_verified_rules :: u32
  st_chain_enabled_rules :: u32
  st_chain_ready_rules :: u32
  st_chain_inactive_by_capability :: u32
  st_chain_unresolved_rules :: u32
  st_chain_steps :: u32
  st_unique_raw_patterns :: u32
  st_unique_uri_patterns :: u32
  st_zero_step_rules :: u32
  st_rejected_records :: u32

record chain_db = chain_set +
  cd_rule_capacity :: nat
  cd_step_capacity :: nat
  cd_port_capacity :: nat
  cd_engine_capabilities :: u32
  cd_required_capabilities :: u32
  cd_schema_v2_present :: bool
  cd_stats :: chain_stats

definition chain_stats_zero :: chain_stats where
  "chain_stats_zero =
     \<lparr>st_legacy_db_rules = 0, st_legacy_kernel_rules = 0, st_legacy_regex_inactive = 0, st_chain_db_rules = 0,
      st_chain_verified_rules = 0, st_chain_enabled_rules = 0, st_chain_ready_rules = 0, st_chain_inactive_by_capability = 0,
      st_chain_unresolved_rules = 0, st_chain_steps = 0, st_unique_raw_patterns = 0, st_unique_uri_patterns = 0,
      st_zero_step_rules = 0, st_rejected_records = 0\<rparr>"

definition jmx_chain_rule_set_init :: "u32 \<Rightarrow> chain_db" where
  "jmx_chain_rule_set_init engine_caps =
     \<lparr>ch_rules = [], ch_steps = [], ch_ports = [], ch_catalog_digest = replicate 32 0, cd_rule_capacity = 0,
      cd_step_capacity = 0, cd_port_capacity = 0, cd_engine_capabilities = engine_caps, cd_required_capabilities = 0,
      cd_schema_v2_present = False, cd_stats = chain_stats_zero\<rparr>"

definition jmx_chain_rule_set_free :: "chain_db \<Rightarrow> chain_db" where
  "jmx_chain_rule_set_free rs = jmx_chain_rule_set_init (cd_engine_capabilities rs)"

section \<open>Growing\<close>

text \<open>The loop that doubles the capacity.  It starts with a capacity above 0, so 64 rounds are more than a 64-bit
  size can take (\<open>chain_grow_enough\<close> with \<open>rounds = 64\<close>).\<close>

fun chain_grow :: "nat \<Rightarrow> nat \<Rightarrow> nat \<Rightarrow> nat option" where
  "chain_grow 0 cap needed = None"
| "chain_grow (Suc rounds) cap needed =
     (if cap < needed then if SIZE_MAX div 2 < cap then None else chain_grow rounds (cap * 2) needed
      else Some cap)"

definition chain_reserve :: "(nat \<Rightarrow> bool) \<Rightarrow> nat \<Rightarrow> nat \<Rightarrow> nat \<Rightarrow> nat option" where
  "chain_reserve mem item_size capacity needed =
     (if needed \<le> capacity then Some capacity
      else case chain_grow 65 (if capacity \<noteq> 0 then capacity else 32) needed of
             None \<Rightarrow> None
           | Some cap \<Rightarrow> if SIZE_MAX div item_size < cap then None else if mem (cap * item_size) then Some cap else None)"

text \<open>\<open>None\<close> is -1, which leaves the set as it is.  The sizes are those of the C structures.\<close>

definition jmx_chain_rule_set_add_rule :: "(nat \<Rightarrow> bool) \<Rightarrow> chain_rule \<Rightarrow> chain_db \<Rightarrow> chain_db option" where
  "jmx_chain_rule_set_add_rule mem rule rs =
     (if cr_signature_rule_id rule = 0 then None
      else case chain_reserve mem 32 (cd_rule_capacity rs) (length (ch_rules rs) + 1) of
             None \<Rightarrow> None
           | Some capacity \<Rightarrow> Some (rs\<lparr>ch_rules := ch_rules rs @ [rule], cd_rule_capacity := capacity\<rparr>))"

definition jmx_chain_rule_set_add_step :: "(nat \<Rightarrow> bool) \<Rightarrow> chain_step \<Rightarrow> chain_db \<Rightarrow> chain_db option" where
  "jmx_chain_rule_set_add_step mem step rs =
     (if cs_signature_rule_id step = 0 then None
      else case chain_reserve mem 116 (cd_step_capacity rs) (length (ch_steps rs) + 1) of
             None \<Rightarrow> None
           | Some capacity \<Rightarrow> Some (rs\<lparr>ch_steps := ch_steps rs @ [step], cd_step_capacity := capacity\<rparr>))"

definition jmx_chain_rule_set_add_port :: "(nat \<Rightarrow> bool) \<Rightarrow> chain_port \<Rightarrow> chain_db \<Rightarrow> chain_db option" where
  "jmx_chain_rule_set_add_port mem port rs =
     (if cp_signature_rule_id port = 0 then None
      else case chain_reserve mem 12 (cd_port_capacity rs) (length (ch_ports rs) + 1) of
             None \<Rightarrow> None
           | Some capacity \<Rightarrow> Some (rs\<lparr>ch_ports := ch_ports rs @ [port], cd_port_capacity := capacity\<rparr>))"

section \<open>Finding\<close>

text \<open>The pointer to a rule is its index; \<open>None\<close> is NULL.\<close>

function chain_probe :: "chain_rule list \<Rightarrow> u32 \<Rightarrow> nat \<Rightarrow> nat \<Rightarrow> nat option" where
  "chain_probe rules rid lo hi =
     (if lo < hi then
        let mid = lo + (hi - lo) div 2; found = cr_signature_rule_id (rules ! mid)
        in if found = rid then Some mid
           else if found < rid then chain_probe rules rid (mid + 1) hi
           else chain_probe rules rid lo mid
      else None)"
  by pat_completeness auto
termination
  by (relation "measure (\<lambda>(rules, rid, lo, hi). hi - lo)") auto

declare chain_probe.simps [simp del]

definition jmx_chain_rule_find :: "('a) chain_set_scheme \<Rightarrow> u32 \<Rightarrow> nat option" where
  "jmx_chain_rule_find rs rid = chain_probe (ch_rules rs) rid 0 (length (ch_rules rs))"

definition jmx_chain_rule_find_const :: "('a) chain_set_scheme \<Rightarrow> u32 \<Rightarrow> chain_rule option" where
  "jmx_chain_rule_find_const rs rid = map_option (\<lambda>i. ch_rules rs ! i) (jmx_chain_rule_find rs rid)"

section \<open>Properties\<close>

lemma chain_grow_least:
  "chain_grow rounds cap needed = Some n \<Longrightarrow> needed \<le> n \<and> cap \<le> n \<and> (n = cap \<or> n div 2 < needed)"
  by (induction rounds cap needed rule: chain_grow.induct) (auto split: if_splits)

lemma chain_grow_enough:
  "SIZE_MAX div 2 < cap * 2 ^ rounds \<Longrightarrow> chain_grow (Suc rounds + k) cap needed = chain_grow (Suc rounds) cap needed"
proof (induction rounds arbitrary: cap)
  case (Suc rounds)
  then show ?case using Suc.IH [of "cap * 2"] by (simp add: mult.assoc)
qed simp

text \<open>The binary search finds a rule exactly if it is there, when the identifiers ascend.\<close>

lemma chain_probe_exact:
  assumes "sorted_wrt (<) (map cr_signature_rule_id rules)" and "hi \<le> length rules"
    and "\<And>i. i < length rules \<Longrightarrow> cr_signature_rule_id (rules ! i) = rid \<Longrightarrow> lo \<le> i \<and> i < hi"
  shows "case chain_probe rules rid lo hi of
      Some i \<Rightarrow> i < length rules \<and> cr_signature_rule_id (rules ! i) = rid
    | None \<Rightarrow> rid \<notin> cr_signature_rule_id ` set rules"
  using assms
proof (induction rules rid lo hi rule: chain_probe.induct)
  case (1 rules rid lo hi)
  let ?key = "\<lambda>i. cr_signature_rule_id (rules ! i)" and ?mid = "lo + (hi - lo) div 2"
  have mono: "?key i < ?key j" if "i < j" "j < length rules" for i j
    using sorted_wrt_nth_less [OF "1.prems"(1), of i j] that by simp
  show ?case
  proof (cases "lo < hi")
    case False
    then have "rid \<notin> cr_signature_rule_id ` set rules" using "1.prems"(3) by (fastforce simp: in_set_conv_nth)
    then show ?thesis using False by (simp add: chain_probe.simps [of rules rid lo hi])
  next
    case True
    then have mid: "lo \<le> ?mid" "?mid < hi" "?mid < length rules" using "1.prems"(2) by auto
    consider "?key ?mid = rid" | "?key ?mid < rid" | "rid < ?key ?mid" by (rule linorder_cases)
    then show ?thesis
    proof cases
      case 1
      then show ?thesis using True mid by (simp add: chain_probe.simps [of rules rid lo hi])
    next
      case 2
      have "?mid + 1 \<le> i" if "i < length rules" "?key i = rid" for i
        using mono [of i ?mid] 2 that mid by (cases "i < ?mid"; cases "i = ?mid") auto
      then show ?thesis
        using "1.IH"(1) [OF True refl refl less_imp_neq [OF 2] 2 "1.prems"(1,2)] 2 less_imp_neq [OF 2] "1.prems"(3) True
        by (simp add: chain_probe.simps [of rules rid lo hi] Let_def)
    next
      case 3
      have "i < ?mid" if "i < length rules" "?key i = rid" for i
        using mono [of ?mid i] 3 that mid by (cases "?mid < i"; cases "i = ?mid") auto
      then show ?thesis
        using "1.IH"(2) [OF True refl refl less_imp_neq [OF 3, THEN not_sym] less_not_sym [OF 3] "1.prems"(1)] 3
          less_imp_neq [OF 3] less_not_sym [OF 3] "1.prems"(3) True mid(3)
        by (simp add: chain_probe.simps [of rules rid lo hi] Let_def)
    qed
  qed
qed

lemma chain_find_exact:
  assumes "sorted_wrt (<) (map cr_signature_rule_id (ch_rules rs))"
  shows "jmx_chain_rule_find rs rid = Some i \<longleftrightarrow> i < length (ch_rules rs) \<and> cr_signature_rule_id (ch_rules rs ! i) = rid"
proof -
  have found: "case jmx_chain_rule_find rs rid of
      Some i \<Rightarrow> i < length (ch_rules rs) \<and> cr_signature_rule_id (ch_rules rs ! i) = rid
    | None \<Rightarrow> rid \<notin> cr_signature_rule_id ` set (ch_rules rs)"
    unfolding jmx_chain_rule_find_def by (rule chain_probe_exact [OF assms]) simp_all
  moreover have "i = j" if "i < length (ch_rules rs)" "j < length (ch_rules rs)"
      "cr_signature_rule_id (ch_rules rs ! i) = cr_signature_rule_id (ch_rules rs ! j)" for i j
    using sorted_wrt_nth_less [OF assms, of i j] sorted_wrt_nth_less [OF assms, of j i] that
    by (cases i j rule: linorder_cases) auto
  ultimately show ?thesis by (auto simp: image_iff split: option.splits)
qed

end
