(* ===== verification/RuleSet.thy ===== *)
theory RuleSet
  imports Prelude "HOL-Library.Multiset"
begin

text \<open>
  The rule sets of the control plane (\<open>jmxd/src/jmx_rule.c\<close>): rules with one match text, hashed by
  application and filtered when they are added, the table of application names, and the rules that
  recognise account numbers.

  A hash chain is the list from its head.  A call with a NULL argument is not modelled; \<open>mem\<close> says whether
  \<open>malloc\<close> succeeds.
\<close>

unbundle bit_operations_syntax

abbreviation (input) JMX_MATCH_EXACT :: u32 where "JMX_MATCH_EXACT \<equiv> 0"
abbreviation (input) JMX_MATCH_BM_STR :: u32 where "JMX_MATCH_BM_STR \<equiv> 1"
abbreviation (input) JMX_MATCH_REGEX :: u32 where "JMX_MATCH_REGEX \<equiv> 2"
abbreviation (input) JMX_MATCH_NO_FIXED :: u32 where "JMX_MATCH_NO_FIXED \<equiv> 3"
abbreviation (input) JMX_HASH_BUCKETS :: nat where "JMX_HASH_BUCKETS \<equiv> 256"
abbreviation (input) JMX_MAX_RULES :: u32 where "JMX_MAX_RULES \<equiv> 16384"
abbreviation (input) JMX_MAX_NR_RULES :: u32 where "JMX_MAX_NR_RULES \<equiv> 2048"
abbreviation (input) JMX_MAX_APP_INFOS :: nat where "JMX_MAX_APP_INFOS \<equiv> 8192"
abbreviation (input) JMX_MAX_APP_NAME_LEN :: nat where "JMX_MAX_APP_NAME_LEN \<equiv> 64"

section \<open>Data\<close>

record match_rule =
  mr_appid :: u32
  mr_rule_id :: u32
  mr_method :: u32
  mr_proto :: u32
  mr_dir :: u32
  mr_priority :: u32
  mr_pkt_seq :: u32
  mr_min_pkt_seq :: u32
  mr_port_count :: u8
  mr_ports :: "(u16 \<times> u16) list"
  mr_len_count :: u8
  mr_len_range :: "(u16 \<times> u16) list"
  mr_match_len :: u16
  mr_match_str :: bytes
  mr_offset :: u32

record nr_extract =
  ne_proto :: u8
  ne_type :: u8
  ne_is_header :: u8
  ne_is_reply :: u8
  ne_prefix_len :: u16
  ne_prefix :: bytes

record nr_rule =
  nx_appid :: u32
  nx_enabled :: u8
  nx_extract_count :: u8
  nx_char_range_count :: u8
  nx_max_account_len :: u16
  nx_extracts :: "nr_extract list"
  nx_char_ranges :: "(u8 \<times> u8) list"
  nx_app_name :: bytes

record match_set =
  ms_buckets :: "match_rule list list"
  ms_match_count :: u32
  ms_nr_buckets :: "nr_rule list list"
  ms_nr_count :: u32
  ms_app_info :: "(u32 \<times> bytes) list"
  ms_fast_rules :: u32
  ms_slow_rules :: u32
  ms_total_rules :: u32

definition ms_hash_appid :: "u32 \<Rightarrow> nat" where
  "ms_hash_appid appid = unat appid mod JMX_HASH_BUCKETS"

definition jmx_rule_set_init :: match_set where
  "jmx_rule_set_init = \<lparr>ms_buckets = replicate JMX_HASH_BUCKETS [], ms_match_count = 0,
     ms_nr_buckets = replicate JMX_HASH_BUCKETS [], ms_nr_count = 0, ms_app_info = [], ms_fast_rules = 0,
     ms_slow_rules = 0, ms_total_rules = 0\<rparr>"

definition jmx_rule_set_free :: "match_set \<Rightarrow> match_set" where
  "jmx_rule_set_free rs = rs\<lparr>ms_buckets := replicate JMX_HASH_BUCKETS [], ms_nr_buckets := replicate JMX_HASH_BUCKETS [],
     ms_match_count := 0, ms_nr_count := 0, ms_app_info := [], ms_fast_rules := 0, ms_slow_rules := 0, ms_total_rules := 0\<rparr>"

section \<open>Rules that are left out\<close>

text \<open>The loop over a short alternation: the number of alternatives, the longest one before the current, and
  the length of the current one.\<close>

fun alternatives :: "bytes \<Rightarrow> nat \<times> nat \<times> nat \<Rightarrow> nat \<times> nat \<times> nat" where
  "alternatives [] s = s"
| "alternatives (c # cs) (alts, longest, cur) =
     (if c = 0x7c then alternatives cs (alts + 1, (if longest < cur then cur else longest), 0)
      else alternatives cs (alts, longest, cur + 1))"

definition regex_special :: "u8 \<Rightarrow> bool" where
  "regex_special c \<longleftrightarrow> c \<in> {0x2e, 0x2a, 0x2b, 0x3f, 0x5b, 0x5d, 0x28, 0x29, 0x7b, 0x7d, 0x7c, 0x5e, 0x24}"

text \<open>Characters that are not special; a backslash takes the next character with it.\<close>

fun literal_chars :: "bytes \<Rightarrow> nat" where
  "literal_chars [] = 0"
| "literal_chars [c] = (if regex_special c then 0 else 1)"
| "literal_chars (c # d # cs) =
     (if c = 0x5c then literal_chars cs
      else if regex_special c then literal_chars (d # cs) else literal_chars (d # cs) + 1)"

definition is_catchall_pattern :: "bytes \<Rightarrow> bool" where
  "is_catchall_pattern str \<longleftrightarrow>
     (let len = length str;
          has_neg_null = list_ex (\<lambda>i. take 5 (drop i str) = [0x5b, 0x5e, 0x5c, 0x78, 0x30]) [0..<len - 4];
          has_dot_star = list_ex (\<lambda>i. take 2 (drop i str) = [0x2e, 0x2a]) [0..<len - 4];
          (alt_count, max_alt_len, cur_len) = alternatives (butlast (tl str)) (1, 0, 0)
      in if str = [] then False
         else str = [0x2e] \<or> str = [0x2e, 0x2a] \<or> str = [0x2e, 0x2e, 0x2e] \<or>
              8 \<le> len \<and> has_neg_null \<and> has_dot_star \<or>
              3 \<le> len \<and> len \<le> 12 \<and> str ! 0 = 0x28 \<and> str ! (len - 1) = 0x29 \<and>
                2 \<le> alt_count \<and> (if max_alt_len < cur_len then cur_len else max_alt_len) \<le> 2 \<or>
              literal_chars str < 3)"

definition unsafe_range :: "u16 \<times> u16 \<Rightarrow> bool" where
  "unsafe_range r \<longleftrightarrow> (case r of (lo, hi) \<Rightarrow>
     lo = 0 \<and> hi = 0 \<or> lo < hi \<and> 16 < (ucast hi - ucast lo :: u32) \<or> lo = 80 \<or> lo = 443 \<or> hi = 80 \<or> hi = 443)"

definition is_unsafe_nofix_rule :: "match_rule \<Rightarrow> bool" where
  "is_unsafe_nofix_rule r \<longleftrightarrow> mr_method r = JMX_MATCH_NO_FIXED \<and>
     (mr_port_count r = 0 \<or> mr_len_count r = 0 \<or> list_ex unsafe_range (take (unat (mr_port_count r)) (mr_ports r)))"

section \<open>Adding\<close>

definition jmx_rule_is_fast_path :: "match_rule \<Rightarrow> bool" where
  "jmx_rule_is_fast_path r \<longleftrightarrow>
     mr_method r = JMX_MATCH_EXACT \<or> mr_method r = JMX_MATCH_BM_STR \<or> mr_method r = JMX_MATCH_NO_FIXED"

text \<open>The rules that the function accepts without keeping them.\<close>

definition match_rule_skipped :: "match_rule \<Rightarrow> bool" where
  "match_rule_skipped r \<longleftrightarrow>
     (mr_method r = JMX_MATCH_EXACT \<or> mr_method r = JMX_MATCH_BM_STR) \<and> mr_match_len r = 0 \<or>
     is_unsafe_nofix_rule r \<or>
     mr_method r = JMX_MATCH_REGEX \<and> 0 < mr_match_len r \<and>
       is_catchall_pattern (take (unat (mr_match_len r)) (mr_match_str r))"

definition jmx_rule_set_add_match :: "bool \<Rightarrow> match_rule \<Rightarrow> match_set \<Rightarrow> int \<times> match_set" where
  "jmx_rule_set_add_match mem r rs =
     (if JMX_MAX_RULES \<le> ms_match_count rs then (-2, rs)
      else if match_rule_skipped r then (0, rs)
      else if \<not> mem then (-3, rs)
      else let bucket = ms_hash_appid (mr_appid r);
               rs = rs\<lparr>ms_buckets := (ms_buckets rs)[bucket := r # ms_buckets rs ! bucket],
                       ms_match_count := ms_match_count rs + 1, ms_total_rules := ms_total_rules rs + 1\<rparr>
           in (0, if jmx_rule_is_fast_path r then rs\<lparr>ms_fast_rules := ms_fast_rules rs + 1\<rparr>
                  else rs\<lparr>ms_slow_rules := ms_slow_rules rs + 1\<rparr>))"

definition jmx_rule_set_add_nr :: "bool \<Rightarrow> nr_rule \<Rightarrow> match_set \<Rightarrow> int \<times> match_set" where
  "jmx_rule_set_add_nr mem r rs =
     (if JMX_MAX_NR_RULES \<le> ms_nr_count rs then (-2, rs)
      else if \<not> mem then (-3, rs)
      else let bucket = ms_hash_appid (nx_appid r)
           in (0, rs\<lparr>ms_nr_buckets := (ms_nr_buckets rs)[bucket := r # ms_nr_buckets rs ! bucket],
                     ms_nr_count := ms_nr_count rs + 1\<rparr>))"

text \<open>A name is the bytes before its terminator.\<close>

definition jmx_rule_set_add_app_info :: "u32 \<Rightarrow> bytes \<Rightarrow> match_set \<Rightarrow> int \<times> match_set" where
  "jmx_rule_set_add_app_info appid name rs =
     (if JMX_MAX_APP_INFOS \<le> length (ms_app_info rs) then (-2, rs)
      else (0, rs\<lparr>ms_app_info := ms_app_info rs @ [(appid, take (JMX_MAX_APP_NAME_LEN - 1) name)]\<rparr>))"

fun app_name_loop :: "(u32 \<times> bytes) list \<Rightarrow> u32 \<Rightarrow> bytes option" where
  "app_name_loop [] appid = None"
| "app_name_loop ((a, name) # infos) appid = (if a = appid then Some name else app_name_loop infos appid)"

text \<open>\<open>None\<close> is the name "unknown".\<close>

definition jmx_rule_set_app_name :: "match_set \<Rightarrow> u32 \<Rightarrow> bytes option" where
  "jmx_rule_set_app_name rs appid = app_name_loop (ms_app_info rs) appid"

section \<open>Invariant\<close>

text \<open>The rules in the order in which the loops over the buckets visit them.\<close>

definition ms_rules :: "match_set \<Rightarrow> match_rule list" where
  "ms_rules rs = concat (ms_buckets rs)"

text \<open>The C arrays have their declared lengths, and the enumerations the values of their types.\<close>

definition match_rule_wf :: "match_rule \<Rightarrow> bool" where
  "match_rule_wf r \<longleftrightarrow> length (mr_match_str r) = 256 \<and> length (mr_ports r) = 8 \<and> length (mr_len_range r) = 4 \<and>
     mr_method r \<le> 3 \<and> mr_proto r \<le> 2 \<and> mr_dir r \<le> 2"

definition match_set_inv :: "match_set \<Rightarrow> bool" where
  "match_set_inv rs \<longleftrightarrow> length (ms_buckets rs) = JMX_HASH_BUCKETS \<and>
     (\<forall>b < JMX_HASH_BUCKETS. \<forall>r \<in> set (ms_buckets rs ! b). ms_hash_appid (mr_appid r) = b) \<and>
     list_all (\<lambda>r. match_rule_wf r \<and> \<not> match_rule_skipped r) (ms_rules rs) \<and>
     length (ms_rules rs) \<le> 16384 \<and>
     ms_match_count rs = word_of_nat (length (ms_rules rs)) \<and> ms_total_rules rs = word_of_nat (length (ms_rules rs)) \<and>
     ms_fast_rules rs = word_of_nat (length (filter jmx_rule_is_fast_path (ms_rules rs))) \<and>
     ms_slow_rules rs = word_of_nat (length (filter (Not \<circ> jmx_rule_is_fast_path) (ms_rules rs)))"

lemma mset_bucket_add:
  "i < length bs \<Longrightarrow> mset (concat (bs[i := x # bs ! i])) = add_mset x (mset (concat bs))"
proof (induction bs arbitrary: i)
  case (Cons b bs)
  then show ?case by (cases i) simp_all
qed simp

lemma size_filter_mset: "length (filter P xs) = size (filter_mset P (mset xs))"
  by (simp flip: mset_filter)

lemma ms_hash_less: "ms_hash_appid a < JMX_HASH_BUCKETS"
  by (simp add: ms_hash_appid_def)

lemma match_set_init_inv: "match_set_inv jmx_rule_set_init"
  by (simp add: match_set_inv_def jmx_rule_set_init_def ms_rules_def)

text \<open>What one call does: the rules grow by exactly the given one, or the set stays as it is.\<close>

lemma add_match_cases:
  assumes inv: "match_set_inv rs" and wf: "match_rule_wf r" and add: "jmx_rule_set_add_match mem r rs = (rc, rs')"
  shows "match_set_inv rs' \<and>
    (if rc = 0 \<and> \<not> match_rule_skipped r then mset (ms_rules rs') = add_mset r (mset (ms_rules rs)) else rs' = rs)"
proof (cases "rc = 0 \<and> \<not> match_rule_skipped r")
  case False
  then have "rs' = rs" using add by (auto simp: jmx_rule_set_add_match_def Let_def split: if_splits)
  then show ?thesis using inv False by simp
next
  case True
  let ?h = "ms_hash_appid (mr_appid r)"
  from True add have acc: "rc = 0" "\<not> match_rule_skipped r" "\<not> JMX_MAX_RULES \<le> ms_match_count rs"
    and rs': "ms_buckets rs' = (ms_buckets rs)[?h := r # ms_buckets rs ! ?h]"
      "ms_match_count rs' = ms_match_count rs + 1" "ms_total_rules rs' = ms_total_rules rs + 1"
      "ms_fast_rules rs' = ms_fast_rules rs + (if jmx_rule_is_fast_path r then 1 else 0)"
      "ms_slow_rules rs' = ms_slow_rules rs + (if jmx_rule_is_fast_path r then 0 else 1)"
    by (auto simp: jmx_rule_set_add_match_def Let_def split: if_splits)
  have b: "length (ms_buckets rs) = JMX_HASH_BUCKETS" using inv by (simp add: match_set_inv_def)
  have rules: "mset (ms_rules rs') = add_mset r (mset (ms_rules rs))"
    unfolding ms_rules_def rs'(1) using b ms_hash_less [of "mr_appid r"] by (intro mset_bucket_add) simp
  have len: "length (ms_rules rs') = Suc (length (ms_rules rs))" using arg_cong [OF rules, of size] by simp
  have set: "set (ms_rules rs') = insert r (set (ms_rules rs))" using arg_cong [OF rules, of set_mset] by simp
  have room: "length (ms_rules rs) < 16384"
    using acc(3) inv by (simp add: match_set_inv_def not_le word_less_nat_alt unat_of_nat)
  have hashed: "\<forall>b < JMX_HASH_BUCKETS. \<forall>r \<in> set (ms_buckets rs' ! b). ms_hash_appid (mr_appid r) = b"
    using inv b ms_hash_less [of "mr_appid r"] by (auto simp: rs'(1) match_set_inv_def nth_list_update split: if_splits)
  have filter: "length (filter P (ms_rules rs')) = length (filter P (ms_rules rs)) + (if P r then 1 else 0)" for P
    using rules by (simp add: size_filter_mset)
  have counts: "ms_fast_rules rs' = word_of_nat (length (filter jmx_rule_is_fast_path (ms_rules rs')))"
    "ms_slow_rules rs' = word_of_nat (length (filter (Not \<circ> jmx_rule_is_fast_path) (ms_rules rs')))"
    "ms_match_count rs' = word_of_nat (length (ms_rules rs'))" "ms_total_rules rs' = word_of_nat (length (ms_rules rs'))"
    using inv rs' len unfolding match_set_inv_def filter by simp_all
  have kept: "list_all (\<lambda>r. match_rule_wf r \<and> \<not> match_rule_skipped r) (ms_rules rs')"
    using inv wf acc set by (simp add: match_set_inv_def list_all_iff)
  have "length (ms_buckets rs') = JMX_HASH_BUCKETS" "length (ms_rules rs') \<le> 16384" using b rs'(1) len room by simp_all
  with hashed counts kept have "match_set_inv rs'" unfolding match_set_inv_def by blast
  then show ?thesis using acc rules by simp
qed

text \<open>The names: the first entry of an application, cut to 63 bytes.\<close>

lemma app_name_append:
  "app_name_loop (infos @ [(a, n)]) appid = (case app_name_loop infos appid of None \<Rightarrow> if a = appid then Some n else None | s \<Rightarrow> s)"
  by (induction infos) auto

section \<open>Loading\<close>

text \<open>What a loader does with the set it has initialised.\<close>

datatype load_op = Load_match bool match_rule | Load_nr bool nr_rule | Load_app u32 bytes

fun load_step :: "load_op \<Rightarrow> match_set \<Rightarrow> int \<times> match_set" where
  "load_step (Load_match mem r) rs = jmx_rule_set_add_match mem r rs"
| "load_step (Load_nr mem r) rs = jmx_rule_set_add_nr mem r rs"
| "load_step (Load_app appid name) rs = jmx_rule_set_add_app_info appid name rs"

definition load_all :: "load_op list \<Rightarrow> match_set" where
  "load_all ops = fold (\<lambda>q rs. snd (load_step q rs)) ops jmx_rule_set_init"

fun load_wf :: "load_op \<Rightarrow> bool" where
  "load_wf (Load_match mem r) = match_rule_wf r"
| "load_wf q = True"

lemma match_set_inv_other:
  "match_set_inv (ms_nr_buckets_update f rs) = match_set_inv rs" "match_set_inv (ms_nr_count_update g rs) = match_set_inv rs"
  "match_set_inv (ms_app_info_update h rs) = match_set_inv rs"
  by (simp_all add: match_set_inv_def ms_rules_def)

lemma load_step_inv: "match_set_inv rs \<Longrightarrow> load_wf q \<Longrightarrow> match_set_inv (snd (load_step q rs))"
proof (cases q)
  case (Load_match mem r)
  assume "match_set_inv rs" "load_wf q"
  with Load_match show ?thesis using add_match_cases [of rs r mem] by (cases "jmx_rule_set_add_match mem r rs") auto
next
  case (Load_nr mem r)
  then show "match_set_inv rs \<Longrightarrow> load_wf q \<Longrightarrow> ?thesis"
    by (simp add: jmx_rule_set_add_nr_def Let_def match_set_inv_other)
next
  case (Load_app a n)
  then show "match_set_inv rs \<Longrightarrow> load_wf q \<Longrightarrow> ?thesis"
    by (simp add: jmx_rule_set_add_app_info_def match_set_inv_other)
qed

lemma load_all_inv: "list_all load_wf ops \<Longrightarrow> match_set_inv (load_all ops)"
proof -
  have "match_set_inv rs \<Longrightarrow> list_all load_wf ops \<Longrightarrow> match_set_inv (fold (\<lambda>q rs. snd (load_step q rs)) ops rs)" for rs
    by (induction ops arbitrary: rs) (simp_all add: load_step_inv)
  then show "list_all load_wf ops \<Longrightarrow> ?thesis" using match_set_init_inv by (simp add: load_all_def)
qed


definition get_match :: match_rule where
  "get_match = \<lparr>mr_appid = 77, mr_rule_id = 1, mr_method = 1, mr_proto = 1, mr_dir = 0, mr_priority = 10, mr_pkt_seq = 0,
     mr_min_pkt_seq = 0, mr_port_count = 1, mr_ports = (80, 90) # replicate 7 (0, 0), mr_len_count = 0,
     mr_len_range = replicate 4 (0, 0), mr_match_len = 2, mr_match_str = [0x47, 0x45] @ replicate 254 0, mr_offset = 0\<rparr>"


end
