(* ===== verification/SignatureDb.thy ===== *)
theory SignatureDb
  imports ChainSet RuleSet "HOL-Library.Monad_Syntax"
begin

text \<open>
  The loader of the signature database (\<open>jmxd/src/jmx_signature_db.c\<close>): the names of applications, the v2 rules
  and, if the schema has them, the chain rules of v3 with their steps and ports.

  SQLite is the environment.  A query is the list of rows that \<open>sqlite3_step\<close> delivers and whether the last step
  says \<open>SQLITE_DONE\<close>; a cell is what the column functions answer for it.  \<open>sqlite3_column_int\<close> is the low half of
  \<open>sqlite3_column_int64\<close>; a text or blob that is NULL or has no bytes is \<open>None\<close> where the code tests the pointer.
  The digest of OpenSSL is a function from bytes; \<open>None\<close> says that one of its calls failed.  Messages to
  \<open>stderr\<close> are left out.
\<close>

unbundle bit_operations_syntax

section \<open>The database\<close>

datatype sql_type = SQLITE_NULL | SQLITE_INTEGER | SQLITE_OTHER

record cell =
  c_type :: sql_type
  c_int64 :: int
  c_text :: "bytes option"
  c_blob :: "bytes option"

type_synonym row = "nat \<Rightarrow> cell"

definition c_int :: "cell \<Rightarrow> u32" where
  "c_int c = word_of_int (c_int64 c)"

text \<open>A text as a C string: up to its first NUL.\<close>

definition c_str :: "cell \<Rightarrow> bytes option" where
  "c_str c = map_option (takeWhile (\<lambda>b. b \<noteq> 0)) (c_text c)"

datatype query = Not_prepared | Rows "row list" bool

record signature_db =
  sd_begin :: bool
  sd_apps :: query
  sd_rules :: query
  sd_rule_ports :: "u32 \<Rightarrow> query"
  sd_table :: "string \<Rightarrow> query"
  sd_foreign_keys_on :: bool
  sd_foreign_key_check :: query
  sd_count_rules :: query
  sd_count_unverified :: query
  sd_count_zero_steps :: query
  sd_count_raw_patterns :: query
  sd_count_uri_patterns :: query
  sd_catalogs :: query
  sd_chain_rules :: query
  sd_chain_steps :: query
  sd_chain_ports :: query

text \<open>What the loader needs besides: memory for the \<open>i\<close>-th v2 rule, memory for an array of so many bytes, the digest.\<close>

record loader_env =
  le_rule_mem :: "nat \<Rightarrow> bool"
  le_realloc :: "nat \<Rightarrow> bool"
  le_sha256 :: "bytes \<Rightarrow> bytes option"

section \<open>Words\<close>

definition ascii :: "string \<Rightarrow> bytes" where
  "ascii s = map of_char s"

definition streq :: "bytes option \<Rightarrow> string \<Rightarrow> bool" where
  "streq a b \<longleftrightarrow> a = Some (ascii b)"

definition parse_proto :: "bytes option \<Rightarrow> u32" where
  "parse_proto s = (if streq s ''tcp'' then 1 else if streq s ''udp'' then 2 else 0)"

definition parse_dir :: "bytes option \<Rightarrow> u32" where
  "parse_dir s =
     (if streq s ''original'' \<or> streq s ''orig'' \<or> streq s ''request'' then 1
      else if streq s ''reply'' \<or> streq s ''response'' then 2 else 0)"

definition parse_method :: "bytes option \<Rightarrow> u32" where
  "parse_method s =
     (if streq s ''exact'' then JMX_MATCH_EXACT
      else if streq s ''bm'' \<or> streq s ''bm_str'' \<or> streq s ''contains'' then JMX_MATCH_BM_STR
      else if streq s ''regex'' then JMX_MATCH_REGEX
      else if streq s ''no_fixed'' \<or> streq s ''nofixed'' then JMX_MATCH_NO_FIXED
      else JMX_MATCH_REGEX)"

definition hex_nibble :: "u8 \<Rightarrow> u8 option" where
  "hex_nibble c =
     (if 0x30 \<le> c \<and> c \<le> 0x39 then Some (c - 0x30)
      else if 0x61 \<le> c \<and> c \<le> 0x66 then Some (c - 0x61 + 10)
      else if 0x41 \<le> c \<and> c \<le> 0x46 then Some (c - 0x41 + 10) else None)"

text \<open>The pairs of digits, as long as there is room and they are digits.\<close>

fun hex_pairs :: "nat \<Rightarrow> bytes \<Rightarrow> bytes" where
  "hex_pairs (Suc room) (h # l # rest) =
     (case (hex_nibble h, hex_nibble l) of
        (Some hi, Some lo) \<Rightarrow> (push_bit 4 hi OR lo) # hex_pairs room rest
      | _ \<Rightarrow> [])"
| "hex_pairs _ _ = []"

definition copy_pattern :: "bytes option \<Rightarrow> bytes option \<Rightarrow> bytes option \<Rightarrow> match_rule \<Rightarrow> match_rule" where
  "copy_pattern fmt text hex r =
     (let put = (\<lambda>p. r\<lparr>mr_match_str := p @ 0 # drop (length p + 1) (mr_match_str r), mr_match_len := word_of_nat (length p)\<rparr>)
      in if streq fmt ''hex'' \<and> hex \<noteq> None \<and> the hex \<noteq> [] then put (hex_pairs 255 (the hex))
         else if text \<noteq> None \<and> the text \<noteq> [] then put (take 255 (the text))
         else r)"

section \<open>Applications and v2 rules\<close>

text \<open>The number of rows taken, or \<open>None\<close> for -1.\<close>

fun load_app_rows :: "row list \<Rightarrow> nat \<Rightarrow> match_set \<Rightarrow> nat option \<times> match_set" where
  "load_app_rows [] n rs = (Some n, rs)"
| "load_app_rows (r # rows) n rs =
     (let appid = c_int (r 0)
      in case c_str (r 1) of
           None \<Rightarrow> load_app_rows rows n rs
         | Some name \<Rightarrow>
             if appid = 0 then load_app_rows rows n rs
             else case jmx_rule_set_add_app_info appid name rs of
                    (rc, rs) \<Rightarrow> if rc \<noteq> 0 then (None, rs) else load_app_rows rows (n + 1) rs)"

definition load_apps :: "signature_db \<Rightarrow> match_set \<Rightarrow> nat option \<times> match_set" where
  "load_apps db rs =
     (case sd_apps db of
        Not_prepared \<Rightarrow> (None, rs)
      | Rows rows finished \<Rightarrow>
          (case load_app_rows rows 0 rs of
             (None, rs) \<Rightarrow> (None, rs)
           | (Some n, rs) \<Rightarrow> (if finished then Some n else None, rs)))"

fun load_port_rows :: "row list \<Rightarrow> match_rule \<Rightarrow> match_rule" where
  "load_port_rows [] rule = rule"
| "load_port_rows (r # rows) rule =
     (if mr_port_count rule < 8
      then load_port_rows rows
        (rule\<lparr>mr_ports := (mr_ports rule)[unat (mr_port_count rule) := (ucast (c_int (r 0)), ucast (c_int (r 1)))],
              mr_port_count := mr_port_count rule + 1\<rparr>)
      else rule)"

definition load_ports :: "signature_db \<Rightarrow> match_rule \<Rightarrow> match_rule" where
  "load_ports db rule =
     (case sd_rule_ports db (mr_rule_id rule) of Not_prepared \<Rightarrow> rule | Rows rows finished \<Rightarrow> load_port_rows rows rule)"

definition match_rule_zero :: match_rule where
  "match_rule_zero =
     \<lparr>mr_appid = 0, mr_rule_id = 0, mr_method = 0, mr_proto = 0, mr_dir = 0, mr_priority = 0, mr_pkt_seq = 0,
      mr_min_pkt_seq = 0, mr_port_count = 0, mr_ports = replicate 8 (0, 0), mr_len_count = 0,
      mr_len_range = replicate 4 (0, 0), mr_match_len = 0, mr_match_str = replicate 256 0, mr_offset = 0\<rparr>"

definition match_rule_of_row :: "signature_db \<Rightarrow> row \<Rightarrow> match_rule" where
  "match_rule_of_row db r =
     load_ports db (copy_pattern (c_str (r 5)) (c_str (r 6)) (c_str (r 7))
       (match_rule_zero\<lparr>mr_rule_id := c_int (r 0), mr_appid := c_int (r 1), mr_proto := parse_proto (c_str (r 2)),
          mr_dir := parse_dir (c_str (r 3)), mr_method := parse_method (c_str (r 4)),
          mr_offset := (if c_type (r 8) = SQLITE_NULL then - 1 else c_int (r 8)),
          mr_priority := (if c_type (r 9) = SQLITE_NULL then 50 else c_int (r 9)),
          mr_pkt_seq := (if c_type (r 10) = SQLITE_NULL then 0 else c_int (r 10))\<rparr>))"

fun load_rule_rows :: "loader_env \<Rightarrow> signature_db \<Rightarrow> row list \<Rightarrow> nat \<Rightarrow> nat \<Rightarrow> match_set \<Rightarrow> nat option \<times> match_set" where
  "load_rule_rows le db [] i seen rs = (Some seen, rs)"
| "load_rule_rows le db (r # rows) i seen rs =
     (let rule = match_rule_of_row db r
      in if (mr_method rule = JMX_MATCH_EXACT \<or> mr_method rule = JMX_MATCH_BM_STR) \<and> mr_match_len rule = 0
         then load_rule_rows le db rows (i + 1) seen rs
         else case jmx_rule_set_add_match (le_rule_mem le i) rule rs of
                (rc, rs') \<Rightarrow>
                  if rc < 0 then (None, rs')
                  else load_rule_rows le db rows (i + 1)
                         (if sint (ms_total_rules rs) < sint (ms_total_rules rs') then seen + 1 else seen) rs')"

definition load_rules :: "loader_env \<Rightarrow> signature_db \<Rightarrow> match_set \<Rightarrow> nat option \<times> match_set" where
  "load_rules le db rs =
     (case sd_rules db of
        Not_prepared \<Rightarrow> (None, rs)
      | Rows rows finished \<Rightarrow>
          (case load_rule_rows le db rows 0 0 rs of
             (None, rs) \<Rightarrow> (None, rs)
           | (Some seen, rs) \<Rightarrow> (if finished then Some seen else None, rs)))"

text \<open>\<open>None\<close> for the database is a failure to open it; the result \<open>True\<close> is 0.\<close>

definition jmx_load_signature_db :: "loader_env \<Rightarrow> signature_db option \<Rightarrow> bool \<times> match_set" where
  "jmx_load_signature_db le file =
     (let rs = jmx_rule_set_init
      in case file of
           None \<Rightarrow> (False, rs)
         | Some db \<Rightarrow>
             let (apps, rs) = load_apps db rs; (rules, rs) = load_rules le db rs
             in if apps = None \<or> rules = None then (False, jmx_rule_set_free rs) else (True, rs))"

section \<open>Reading columns\<close>

definition first_step :: "query \<Rightarrow> row option" where
  "first_step q = (case q of Rows (r # rows) finished \<Rightarrow> Some r | _ \<Rightarrow> None)"

definition table_exists :: "signature_db \<Rightarrow> string \<Rightarrow> bool option" where
  "table_exists db name =
     (case sd_table db name of Not_prepared \<Rightarrow> None | q \<Rightarrow> Some (first_step q \<noteq> None))"

definition u32_of :: "int \<Rightarrow> u32 option" where
  "u32_of v = (if v < 0 \<or> 2 ^ 32 - 1 < v then None else Some (word_of_int v))"

definition query_u32 :: "query \<Rightarrow> u32 option" where
  "query_u32 q = do { r \<leftarrow> first_step q; u32_of (c_int64 (r 0)) }"

definition column_u32 :: "cell \<Rightarrow> u32 option" where
  "column_u32 c = (if c_type c = SQLITE_NULL then None else u32_of (c_int64 c))"

definition column_i32 :: "cell \<Rightarrow> int option" where
  "column_i32 c =
     (if c_type c = SQLITE_NULL then None
      else if c_int64 c < - (2 ^ 31) \<or> 2 ^ 31 - 1 < c_int64 c then None else Some (c_int64 c))"

definition u8_of :: "u32 \<Rightarrow> u8 option" where
  "u8_of v = (if 255 < v then None else Some (ucast v))"

definition u16_of :: "u32 \<Rightarrow> u16 option" where
  "u16_of v = (if 65535 < v then None else Some (ucast v))"

abbreviation (input) JMX_V3_DIR_ORIGINAL :: u8 where "JMX_V3_DIR_ORIGINAL \<equiv> 1"
abbreviation (input) JMX_V3_DIR_REPLY :: u8 where "JMX_V3_DIR_REPLY \<equiv> 2"
abbreviation (input) JMX_V3_MATCH_NORMALIZED_URI :: u8 where "JMX_V3_MATCH_NORMALIZED_URI \<equiv> 0x04"
abbreviation (input) JMX_V3_MATCH_BYTE_TEST :: u8 where "JMX_V3_MATCH_BYTE_TEST \<equiv> 0x20"
abbreviation (input) JMX_V3_MATCH_BYTE_JUMP :: u8 where "JMX_V3_MATCH_BYTE_JUMP \<equiv> 0x40"
abbreviation (input) JMX_V3_CONDITION_NEGATIVE :: u8 where "JMX_V3_CONDITION_NEGATIVE \<equiv> 2"
abbreviation (input) JMX_V3_CONDITION_NUMERIC :: u8 where "JMX_V3_CONDITION_NUMERIC \<equiv> 3"
abbreviation (input) JMX_V3_CONDITION_JUMP :: u8 where "JMX_V3_CONDITION_JUMP \<equiv> 4"
abbreviation (input) JMX_V3_CASE_NOT_APPLICABLE :: u8 where "JMX_V3_CASE_NOT_APPLICABLE \<equiv> 0"
abbreviation (input) JMX_V3_VIEW_NORMALIZED_URI :: u8 where "JMX_V3_VIEW_NORMALIZED_URI \<equiv> 1"
abbreviation (input) JMX_V3_CAP_NORMALIZED_URI :: u32 where "JMX_V3_CAP_NORMALIZED_URI \<equiv> 0x010"
abbreviation (input) JMX_V3_CAP_NEGATIVE :: u32 where "JMX_V3_CAP_NEGATIVE \<equiv> 0x020"
abbreviation (input) JMX_V3_CAP_BYTE_TEST :: u32 where "JMX_V3_CAP_BYTE_TEST \<equiv> 0x040"
abbreviation (input) JMX_V3_CAP_BYTE_JUMP :: u32 where "JMX_V3_CAP_BYTE_JUMP \<equiv> 0x080"
abbreviation (input) JMX_V3_CAP_KNOWN_MASK :: u32 where "JMX_V3_CAP_KNOWN_MASK \<equiv> 0x7ff"

definition parse_chain_proto :: "bytes option \<Rightarrow> u8 option" where
  "parse_chain_proto s =
     (if streq s ''any'' then Some JMX_V3_PROTO_ANY else if streq s ''tcp'' then Some JMX_V3_PROTO_TCP
      else if streq s ''udp'' then Some JMX_V3_PROTO_UDP else None)"

definition parse_chain_dir :: "bytes option \<Rightarrow> u8 option" where
  "parse_chain_dir s =
     (if streq s ''any'' then Some JMX_V3_DIR_ANY else if streq s ''original'' then Some JMX_V3_DIR_ORIGINAL
      else if streq s ''reply'' then Some JMX_V3_DIR_REPLY
      else if streq s ''bidirectional'' then Some JMX_V3_DIR_BIDIRECTIONAL else None)"

definition parse_condition :: "bytes option \<Rightarrow> u8 option" where
  "parse_condition s =
     (if streq s ''positive'' then Some JMX_V3_CONDITION_POSITIVE
      else if streq s ''negative'' then Some JMX_V3_CONDITION_NEGATIVE
      else if streq s ''numeric'' then Some JMX_V3_CONDITION_NUMERIC
      else if streq s ''jump'' then Some JMX_V3_CONDITION_JUMP else None)"

definition parse_case_mode :: "bytes option \<Rightarrow> u8 option" where
  "parse_case_mode s =
     (if streq s ''not_applicable'' then Some JMX_V3_CASE_NOT_APPLICABLE
      else if streq s ''nocase'' then Some JMX_V3_CASE_NOCASE
      else if streq s ''exact'' then Some JMX_V3_CASE_EXACT else None)"

definition parse_input_view :: "bytes option \<Rightarrow> u8 option" where
  "parse_input_view s =
     (if streq s ''raw'' then Some JMX_V3_VIEW_RAW
      else if streq s ''normalized_uri'' then Some JMX_V3_VIEW_NORMALIZED_URI else None)"

definition parse_endpoint :: "bytes option \<Rightarrow> u8 option" where
  "parse_endpoint s =
     (if streq s ''source'' then Some JMX_V3_PORT_SOURCE
      else if streq s ''destination'' then Some JMX_V3_PORT_DESTINATION
      else if streq s ''either'' then Some JMX_V3_PORT_EITHER else None)"

text \<open>A column with a number or one of several names; absent, it is 0.\<close>

definition parse_coded :: "(bytes option \<Rightarrow> u8 option) \<Rightarrow> cell \<Rightarrow> u8 option" where
  "parse_coded names c =
     (case c_type c of
        SQLITE_NULL \<Rightarrow> Some 0
      | SQLITE_INTEGER \<Rightarrow> do { v \<leftarrow> column_u32 c; u8_of v }
      | SQLITE_OTHER \<Rightarrow> names (c_str c))"

definition parse_numeric_encoding :: "cell \<Rightarrow> u8 option" where
  "parse_numeric_encoding = parse_coded (\<lambda>s.
     if streq s ''binary_be'' \<or> streq s ''binary_big_endian'' then Some 0x01
     else if streq s ''binary_le'' \<or> streq s ''binary_little_endian'' then Some 0x02
     else if streq s ''ascii_hex'' then Some 0x04
     else if streq s ''ascii_decimal'' then Some 0x08
     else if streq s ''ascii_octal'' then Some 0x10
     else if streq s ''ipv4'' \<or> streq s ''dotted_decimal_ipv4'' then Some 0x20 else None)"

definition parse_comparison :: "cell \<Rightarrow> u8 option" where
  "parse_comparison = parse_coded (\<lambda>s.
     if streq s ''eq'' \<or> streq s ''=='' then Some 0x01
     else if streq s ''ne'' \<or> streq s ''!='' then Some 0x02
     else if streq s ''gt'' \<or> streq s ''>'' then Some 0x04
     else if streq s ''lt'' \<or> streq s ''<'' then Some 0x08
     else if streq s ''bit_set'' then Some 0x10
     else if streq s ''bit_clear'' then Some 0x20 else None)"

section \<open>Chain records\<close>

definition cd_stat :: "(chain_stats \<Rightarrow> chain_stats) \<Rightarrow> chain_db \<Rightarrow> chain_db" where
  "cd_stat f rs = rs\<lparr>cd_stats := f (cd_stats rs)\<rparr>"

definition reject_record :: "chain_db \<Rightarrow> chain_db" where
  "reject_record = cd_stat (\<lambda>st. st\<lparr>st_rejected_records := st_rejected_records st + 1\<rparr>)"

definition step_required_caps :: "chain_step \<Rightarrow> u32" where
  "step_required_caps s =
     (let flags = cs_position_flags s
      in (if cs_matcher_type s = JMX_V3_MATCH_LITERAL_NOCASE \<or> cs_matcher_type s = JMX_V3_MATCH_LITERAL_EXACT_1 \<or>
             cs_matcher_type s = JMX_V3_MATCH_LITERAL_EXACT_2 then JMX_V3_CAP_RAW_LITERAL_CHAIN else 0) OR
         (if cs_case_mode s = JMX_V3_CASE_NOCASE then JMX_V3_CAP_NOCASE else 0) OR
         (if cs_input_view s = JMX_V3_VIEW_NORMALIZED_URI \<or> cs_matcher_type s = JMX_V3_MATCH_NORMALIZED_URI
          then JMX_V3_CAP_NORMALIZED_URI else 0) OR
         (if cs_condition s = JMX_V3_CONDITION_NEGATIVE then JMX_V3_CAP_NEGATIVE else 0) OR
         (if cs_matcher_type s = JMX_V3_MATCH_BYTE_TEST then JMX_V3_CAP_BYTE_TEST else 0) OR
         (if cs_matcher_type s = JMX_V3_MATCH_BYTE_JUMP then JMX_V3_CAP_BYTE_JUMP else 0) OR
         (if flags AND (JMX_V3_POS_DEPTH OR JMX_V3_POS_OFFSET) \<noteq> 0 then JMX_V3_CAP_POSITION_ABSOLUTE else 0) OR
         (if flags AND (JMX_V3_POS_DISTANCE OR JMX_V3_POS_WITHIN) \<noteq> 0 then JMX_V3_CAP_POSITION_RELATIVE else 0))"

definition validate_literal_step :: "chain_step \<Rightarrow> bool" where
  "validate_literal_step s \<longleftrightarrow>
     cs_payload_len s \<noteq> 0 \<and> unat (cs_payload_len s) \<le> JMX_V3_PAYLOAD_MAX \<and>
     (cs_condition s = JMX_V3_CONDITION_POSITIVE \<or> cs_condition s = JMX_V3_CONDITION_NEGATIVE) \<and>
     (cs_literal_option s = 0x00 \<or> cs_literal_option s = 0x01 \<or> cs_literal_option s = 0x04) \<and>
     (if cs_matcher_type s = JMX_V3_MATCH_LITERAL_NOCASE
      then cs_input_view s = JMX_V3_VIEW_RAW \<and> cs_case_mode s = JMX_V3_CASE_NOCASE
      else if cs_matcher_type s = JMX_V3_MATCH_LITERAL_EXACT_1 \<or> cs_matcher_type s = JMX_V3_MATCH_LITERAL_EXACT_2
      then cs_input_view s = JMX_V3_VIEW_RAW \<and> cs_case_mode s = JMX_V3_CASE_EXACT
      else cs_matcher_type s = JMX_V3_MATCH_NORMALIZED_URI \<and>
           cs_input_view s = JMX_V3_VIEW_NORMALIZED_URI \<and> cs_case_mode s = JMX_V3_CASE_NOCASE)"

text \<open>The payload of a numeric step repeats its fields in network order.\<close>

definition byte_test_ok :: "chain_step \<Rightarrow> bool" where
  "byte_test_ok s \<longleftrightarrow>
     cs_condition s = JMX_V3_CONDITION_NUMERIC \<and> cs_case_mode s = JMX_V3_CASE_NOT_APPLICABLE \<and>
     cs_input_view s = JMX_V3_VIEW_RAW \<and> cs_payload_len s = 12 \<and> cs_width s \<noteq> 0 \<and> cs_width s \<le> 11 \<and>
     cs_comparison s \<in> {0x01, 0x02, 0x04, 0x08, 0x10, 0x20} \<and>
     cs_numeric_encoding s \<in> {0x01, 0x02, 0x04, 0x08, 0x10, 0x20} \<and>
     take 12 (cs_payload s) =
       be16 (cs_reference_source s) @ [cs_adjust_mode s, cs_width s] @ be32 (cs_inline_operand s) @ be32 (cs_adjustment_operand s)"

definition byte_jump_ok :: "chain_step \<Rightarrow> bool" where
  "byte_jump_ok s \<longleftrightarrow>
     cs_condition s = JMX_V3_CONDITION_JUMP \<and> cs_case_mode s = JMX_V3_CASE_NOT_APPLICABLE \<and>
     cs_input_view s = JMX_V3_VIEW_RAW \<and> cs_payload_len s = 4 \<and> cs_width s \<noteq> 0 \<and>
     take 4 (cs_payload s) = be16 (word_of_int (cs_jump_base s)) @ [cs_jump_multiplier s, cs_width s]"

definition validate_step_semantics :: "chain_step \<Rightarrow> bool" where
  "validate_step_semantics s \<longleftrightarrow>
     cs_position_flags s AND NOT JMX_V3_POS_KNOWN_MASK = 0 \<and>
     \<not> (cs_position_flags s AND JMX_V3_POS_DEPTH \<noteq> 0 \<and> cs_depth s < 0) \<and>
     \<not> (cs_position_flags s AND JMX_V3_POS_OFFSET \<noteq> 0 \<and> cs_offset s < 0) \<and>
     (if cs_matcher_type s = JMX_V3_MATCH_BYTE_TEST then byte_test_ok s
      else if cs_matcher_type s = JMX_V3_MATCH_BYTE_JUMP then byte_jump_ok s
      else validate_literal_step s)"

section \<open>Statistics and digest\<close>

definition stat_query :: "query \<Rightarrow> (u32 \<Rightarrow> chain_stats \<Rightarrow> chain_stats) \<Rightarrow> bool \<times> chain_db \<Rightarrow> bool \<times> chain_db" where
  "stat_query q put x =
     (case x of (ok, rs) \<Rightarrow>
        if ok then (case query_u32 q of None \<Rightarrow> (False, rs) | Some v \<Rightarrow> (True, cd_stat (put v) rs)) else (ok, rs))"

definition load_chain_stats :: "signature_db \<Rightarrow> chain_db \<Rightarrow> bool \<times> chain_db" where
  "load_chain_stats db rs =
     stat_query (sd_count_uri_patterns db) (\<lambda>v st. st\<lparr>st_unique_uri_patterns := v\<rparr>)
      (stat_query (sd_count_raw_patterns db) (\<lambda>v st. st\<lparr>st_unique_raw_patterns := v\<rparr>)
       (stat_query (sd_count_zero_steps db) (\<lambda>v st. st\<lparr>st_zero_step_rules := v\<rparr>)
        (stat_query (sd_count_unverified db) (\<lambda>v st. st\<lparr>st_chain_unresolved_rules := v\<rparr>)
         (stat_query (sd_count_rules db) (\<lambda>v st. st\<lparr>st_chain_db_rules := v\<rparr>) (True, rs)))))"

definition validate_foreign_keys :: "signature_db \<Rightarrow> bool" where
  "validate_foreign_keys db \<longleftrightarrow> sd_foreign_keys_on db \<and> sd_foreign_key_check db = Rows [] True"

text \<open>What the digest is computed of: for every catalogue its number as the host has it (little-endian), and three texts.\<close>

definition catalog_text :: "cell \<Rightarrow> bytes option" where
  "catalog_text c = (case c_text c of None \<Rightarrow> None | Some t \<Rightarrow> if t = [] then None else Some t)"

fun catalog_bytes :: "row list \<Rightarrow> bytes option" where
  "catalog_bytes [] = Some []"
| "catalog_bytes (r # rows) =
     (if c_int64 (r 0) \<le> 0 then None
      else do {
        source \<leftarrow> catalog_text (r 1);
        version \<leftarrow> catalog_text (r 2);
        digest \<leftarrow> catalog_text (r 3);
        rest \<leftarrow> catalog_bytes rows;
        let number = (word_of_int (c_int64 (r 0)) :: u64);
        Some (le32 (ucast number) @ le32 (ucast (drop_bit 32 number)) @ source @ version @ digest @ rest)
      })"

definition load_catalog_digest :: "loader_env \<Rightarrow> signature_db \<Rightarrow> bytes option" where
  "load_catalog_digest le db =
     (case sd_catalogs db of
        Rows rows True \<Rightarrow>
          if rows = [] then None
          else do {
            data \<leftarrow> catalog_bytes rows;
            digest \<leftarrow> le_sha256 le data;
            if length digest = JMX_V3_CATALOG_DIGEST_LEN then Some digest else None
          }
      | _ \<Rightarrow> None)"

section \<open>Chain rules\<close>

text \<open>The result is the set, left (-1) or right (0).\<close>

definition chain_rule_of_row :: "row \<Rightarrow> chain_rule list \<Rightarrow> chain_rule option" where
  "chain_rule_of_row r rules = do {
     signature_rule_id \<leftarrow> column_u32 (r 0);
     appid \<leftarrow> column_u32 (r 1);
     priority \<leftarrow> column_u32 (r 2);
     required_caps \<leftarrow> column_u32 (r 3);
     step_count \<leftarrow> column_u32 (r 4);
     proto \<leftarrow> parse_chain_proto (c_str (r 5));
     dir \<leftarrow> parse_chain_dir (c_str (r 6));
     if appid = 0 \<or> step_count = 0 \<or> ucast JMX_V3_MAX_STEPS_PER_RULE < step_count \<or>
        required_caps AND NOT JMX_V3_CAP_KNOWN_MASK \<noteq> 0 \<or>
        rules \<noteq> [] \<and> signature_rule_id \<le> cr_signature_rule_id (last rules)
     then None
     else Some \<lparr>cr_signature_rule_id = signature_rule_id, cr_appid = appid, cr_priority = priority,
            cr_required_caps = required_caps, cr_first_step = U32_MAX, cr_first_port = U32_MAX,
            cr_step_count = ucast step_count, cr_port_count = 0, cr_proto = proto, cr_dir = dir, cr_flags = 0, cr_active = 0\<rparr>
   }"

fun load_chain_rule_rows :: "loader_env \<Rightarrow> row list \<Rightarrow> chain_db \<Rightarrow> chain_db + chain_db" where
  "load_chain_rule_rows le [] rs = Inr rs"
| "load_chain_rule_rows le (r # rows) rs =
     (case chain_rule_of_row r (ch_rules rs) of
        None \<Rightarrow> Inl (reject_record rs)
      | Some rule \<Rightarrow>
          (case jmx_chain_rule_set_add_rule (le_realloc le) rule rs of
             None \<Rightarrow> Inl rs
           | Some rs \<Rightarrow> load_chain_rule_rows le rows rs))"

text \<open>The frame of the three loops: no statement, a row refused, or the status of the last step.\<close>

definition run_rows :: "query \<Rightarrow> (row list \<Rightarrow> chain_db + chain_db) \<Rightarrow> chain_db \<Rightarrow> chain_db + chain_db" where
  "run_rows q loop rs =
     (case q of
        Not_prepared \<Rightarrow> Inl rs
      | Rows rows finished \<Rightarrow> (case loop rows of Inl rs \<Rightarrow> Inl rs | Inr rs \<Rightarrow> if finished then Inr rs else Inl rs))"

definition load_chain_rules :: "loader_env \<Rightarrow> signature_db \<Rightarrow> chain_db \<Rightarrow> chain_db + chain_db" where
  "load_chain_rules le db rs = run_rows (sd_chain_rules db) (\<lambda>rows. load_chain_rule_rows le rows rs) rs"

section \<open>Steps\<close>

text \<open>A position column must be there exactly if its flag is set.\<close>

definition position_column :: "u8 \<Rightarrow> u8 \<Rightarrow> cell \<Rightarrow> int option" where
  "position_column flags flag c =
     (if flags AND flag \<noteq> 0 then column_i32 c else if c_type c \<noteq> SQLITE_NULL then None else Some 0)"

definition optional_u32 :: "cell \<Rightarrow> u32 option" where
  "optional_u32 c = (if c_type c = SQLITE_NULL then Some 0 else column_u32 c)"

definition optional_u16 :: "cell \<Rightarrow> u16 option" where
  "optional_u16 c = do { v \<leftarrow> optional_u32 c; u16_of v }"

definition optional_u8 :: "cell \<Rightarrow> u8 option" where
  "optional_u8 c = do { v \<leftarrow> optional_u32 c; u8_of v }"

definition optional_i32 :: "cell \<Rightarrow> int option" where
  "optional_i32 c = (if c_type c = SQLITE_NULL then Some 0 else column_i32 c)"

definition payload_column :: "cell \<Rightarrow> bytes option" where
  "payload_column c =
     (case c_blob c of None \<Rightarrow> None | Some p \<Rightarrow> if p = [] \<or> JMX_V3_PAYLOAD_MAX < length p then None else Some p)"

definition chain_step_of_row :: "row \<Rightarrow> chain_step option" where
  "chain_step_of_row r = do {
     signature_rule_id \<leftarrow> column_u32 (r 0);
     v \<leftarrow> column_u32 (r 1);
     if ucast JMX_V3_MAX_STEPS_PER_RULE \<le> v then None else do {
       m \<leftarrow> column_u32 (r 2);
       matcher_type \<leftarrow> u8_of m;
       condition \<leftarrow> parse_condition (c_str (r 3));
       case_mode \<leftarrow> parse_case_mode (c_str (r 4));
       input_view \<leftarrow> parse_input_view (c_str (r 5));
       f \<leftarrow> column_u32 (r 6);
       flags \<leftarrow> u8_of f;
       depth \<leftarrow> position_column flags JMX_V3_POS_DEPTH (r 7);
       offset \<leftarrow> position_column flags JMX_V3_POS_OFFSET (r 8);
       distance \<leftarrow> position_column flags JMX_V3_POS_DISTANCE (r 9);
       within \<leftarrow> position_column flags JMX_V3_POS_WITHIN (r 10);
       payload \<leftarrow> payload_column (r 11);
       literal_option \<leftarrow> optional_u8 (r 12);
       numeric_encoding \<leftarrow> parse_numeric_encoding (r 13);
       comparison \<leftarrow> parse_comparison (r 14);
       reference_source \<leftarrow> optional_u16 (r 15);
       adjust_mode \<leftarrow> optional_u8 (r 16);
       inline_operand \<leftarrow> optional_u32 (r 17);
       adjustment_operand \<leftarrow> optional_u32 (r 18);
       jump_base \<leftarrow> optional_i32 (r 19);
       jump_multiplier \<leftarrow> optional_u8 (r 20);
       width \<leftarrow> optional_u8 (r 21);
       Some \<lparr>cs_signature_rule_id = signature_rule_id, cs_step_index = ucast (c_int (r 1)), cs_matcher_type = matcher_type,
             cs_condition = condition, cs_case_mode = case_mode, cs_input_view = input_view, cs_position_flags = flags,
             cs_numeric_encoding = numeric_encoding, cs_literal_option = literal_option, cs_depth = depth,
             cs_offset = offset, cs_distance = distance, cs_within = within, cs_payload_len = word_of_nat (length payload),
             cs_reference_source = reference_source, cs_comparison = comparison, cs_adjust_mode = adjust_mode,
             cs_width = width, cs_jump_multiplier = jump_multiplier, cs_inline_operand = inline_operand,
             cs_adjustment_operand = adjustment_operand, cs_jump_base = jump_base,
             cs_payload = payload @ replicate (64 - length payload) 0\<rparr>
     }
   }"

text \<open>\<open>current\<close> is the rule of the last step (its index), \<open>expected\<close> the index its next step must have.  A step of
  another rule looks the rule up and notes where its steps begin.\<close>

definition other_rule :: "nat option \<Rightarrow> u32 \<Rightarrow> chain_db \<Rightarrow> bool" where
  "other_rule current rid rs =
     (case current of None \<Rightarrow> True | Some c \<Rightarrow> cr_signature_rule_id (ch_rules rs ! c) \<noteq> rid)"

definition update_rule :: "nat \<Rightarrow> (chain_rule \<Rightarrow> chain_rule) \<Rightarrow> chain_db \<Rightarrow> chain_db" where
  "update_rule c f rs = rs\<lparr>ch_rules := (ch_rules rs)[c := f (ch_rules rs ! c)]\<rparr>"

definition enter_steps :: "u32 \<Rightarrow> nat option \<times> u16 \<times> chain_db \<Rightarrow> nat option \<times> u16 \<times> chain_db" where
  "enter_steps rid x =
     (case x of (current, expected, rs) \<Rightarrow>
        if other_rule current rid rs
        then (case jmx_chain_rule_find rs rid of
                None \<Rightarrow> (None, 0, rs)
              | Some c \<Rightarrow>
                  (Some c, 0,
                   if cr_first_step (ch_rules rs ! c) = U32_MAX
                   then update_rule c (\<lambda>rule. rule\<lparr>cr_first_step := word_of_nat (length (ch_steps rs))\<rparr>) rs else rs))
        else x)"

fun load_chain_step_rows :: "loader_env \<Rightarrow> row list \<Rightarrow> nat option \<Rightarrow> u16 \<Rightarrow> chain_db \<Rightarrow> chain_db + chain_db" where
  "load_chain_step_rows le [] current expected rs = Inr rs"
| "load_chain_step_rows le (r # rows) current expected rs =
     (case chain_step_of_row r of
        None \<Rightarrow> Inl (reject_record rs)
      | Some s \<Rightarrow>
          (case enter_steps (cs_signature_rule_id s) (current, expected, rs) of
             (None, expected, rs) \<Rightarrow> Inl (reject_record rs)
           | (Some c, expected, rs) \<Rightarrow>
               if cs_step_index s \<noteq> expected \<or> cr_step_count (ch_rules rs ! c) \<le> cs_step_index s \<or>
                  (cs_step_index s = 0 \<and> cs_position_flags s AND (JMX_V3_POS_DISTANCE OR JMX_V3_POS_WITHIN) \<noteq> 0) \<or>
                  \<not> validate_step_semantics s
               then Inl (reject_record rs)
               else (case jmx_chain_rule_set_add_step (le_realloc le) s rs of
                       None \<Rightarrow> Inl rs
                     | Some rs \<Rightarrow> load_chain_step_rows le rows (Some c) (expected + 1) rs)))"

definition load_chain_steps :: "loader_env \<Rightarrow> signature_db \<Rightarrow> chain_db \<Rightarrow> chain_db + chain_db" where
  "load_chain_steps le db rs = run_rows (sd_chain_steps db) (\<lambda>rows. load_chain_step_rows le rows None 0 rs) rs"

section \<open>Ports\<close>

definition chain_port_of_row :: "row \<Rightarrow> chain_port option" where
  "chain_port_of_row r = do {
     signature_rule_id \<leftarrow> column_u32 (r 0);
     endpoint \<leftarrow> parse_endpoint (c_str (r 1));
     v \<leftarrow> column_u32 (r 2);
     min_port \<leftarrow> u16_of v;
     v \<leftarrow> column_u32 (r 3);
     max_port \<leftarrow> u16_of v;
     if max_port < min_port then None
     else Some \<lparr>cp_signature_rule_id = signature_rule_id, cp_min_port = min_port, cp_max_port = max_port, cp_endpoint = endpoint\<rparr>
   }"

definition enter_ports :: "u32 \<Rightarrow> nat option \<Rightarrow> chain_db \<Rightarrow> (nat \<times> chain_db) option" where
  "enter_ports rid current rs =
     (if other_rule current rid rs
      then (case jmx_chain_rule_find rs rid of
              None \<Rightarrow> None
            | Some c \<Rightarrow> Some (c, update_rule c (\<lambda>rule. rule\<lparr>cr_first_port := word_of_nat (length (ch_ports rs))\<rparr>) rs))
      else Some (the current, rs))"

fun load_chain_port_rows :: "loader_env \<Rightarrow> row list \<Rightarrow> nat option \<Rightarrow> chain_db \<Rightarrow> chain_db + chain_db" where
  "load_chain_port_rows le [] current rs = Inr rs"
| "load_chain_port_rows le (r # rows) current rs =
     (case chain_port_of_row r of
        None \<Rightarrow> Inl (reject_record rs)
      | Some p \<Rightarrow>
          (case enter_ports (cp_signature_rule_id p) current rs of
             None \<Rightarrow> Inl (reject_record rs)
           | Some (c, rs) \<Rightarrow>
               if JMX_V3_MAX_PORTS_PER_RULE \<le> cr_port_count (ch_rules rs ! c) then Inl (reject_record rs)
               else (case jmx_chain_rule_set_add_port (le_realloc le) p rs of
                       None \<Rightarrow> Inl rs
                     | Some rs \<Rightarrow> load_chain_port_rows le rows (Some c)
                         (update_rule c (\<lambda>rule. rule\<lparr>cr_port_count := cr_port_count rule + 1\<rparr>) rs))))"

definition load_chain_ports :: "loader_env \<Rightarrow> signature_db \<Rightarrow> chain_db \<Rightarrow> chain_db + chain_db" where
  "load_chain_ports le db rs = run_rows (sd_chain_ports db) (\<lambda>rows. load_chain_port_rows le rows None rs) rs"

section \<open>Finishing\<close>

definition inferred_caps :: "chain_db \<Rightarrow> chain_rule \<Rightarrow> u32" where
  "inferred_caps rs rule =
     foldl (OR) JMX_V3_CAP_PROTOCOL_MAPPING (map step_required_caps (chain_steps_of (chain_set.truncate rs) rule))"

definition steps_contiguous :: "chain_db \<Rightarrow> chain_rule \<Rightarrow> bool" where
  "steps_contiguous rs rule \<longleftrightarrow>
     list_all (\<lambda>(j, s). cs_signature_rule_id s = cr_signature_rule_id rule \<and> unat (cs_step_index s) = j)
       (enumerate 0 (chain_steps_of (chain_set.truncate rs) rule))"

definition finalize_rule :: "nat \<Rightarrow> chain_db \<Rightarrow> chain_db + chain_db" where
  "finalize_rule i rs =
     (let rule = ch_rules rs ! i; steps = unat (cr_step_count rule); inferred = inferred_caps rs rule; caps = cr_required_caps rule;
          port = (if cr_port_count rule = 0 then word_of_nat (length (ch_ports rs)) else cr_first_port rule);
          rs' = update_rule i (\<lambda>rule. rule\<lparr>cr_first_port := port\<rparr>) rs
      in if cr_first_step rule = U32_MAX \<or> length (ch_steps rs) < unat (cr_first_step rule) + steps
         then Inl (reject_record rs)
         else if \<not> steps_contiguous rs rule \<or> caps AND inferred \<noteq> inferred then Inl (reject_record rs')
         else let rs' = rs'\<lparr>cd_required_capabilities := cd_required_capabilities rs' OR caps\<rparr>
              in Inr (if caps AND NOT (cd_engine_capabilities rs') = 0
                      then cd_stat (\<lambda>st. st\<lparr>st_chain_ready_rules := st_chain_ready_rules st + 1,
                                            st_chain_steps := st_chain_steps st + ucast (cr_step_count rule)\<rparr>)
                             (update_rule i (\<lambda>rule. rule\<lparr>cr_active := 1\<rparr>) rs')
                      else cd_stat (\<lambda>st. st\<lparr>st_chain_inactive_by_capability := st_chain_inactive_by_capability st + 1\<rparr>) rs'))"

fun finalize_loop :: "nat list \<Rightarrow> chain_db \<Rightarrow> chain_db + chain_db" where
  "finalize_loop [] rs = Inr rs"
| "finalize_loop (i # is) rs = (case finalize_rule i rs of Inl rs \<Rightarrow> Inl rs | Inr rs \<Rightarrow> finalize_loop is rs)"

definition finalize_chain_rules :: "chain_db \<Rightarrow> chain_db + chain_db" where
  "finalize_chain_rules rs = finalize_loop [0..<length (ch_rules rs)] rs"

section \<open>The schema\<close>

definition chain_tables :: "string list" where
  "chain_tables = [''dpi_source_catalog'', ''dpi_signature_rule'', ''dpi_signature_step'', ''dpi_signature_port'']"

text \<open>The rules, the steps, the ports, the checks; the first that fails ends it.\<close>

definition load_chain_records :: "loader_env \<Rightarrow> signature_db \<Rightarrow> chain_db \<Rightarrow> chain_db + chain_db" where
  "load_chain_records le db rs =
     (case load_chain_rules le db rs of
        Inl rs \<Rightarrow> Inl rs
      | Inr rs \<Rightarrow> (case load_chain_steps le db rs of
          Inl rs \<Rightarrow> Inl rs
        | Inr rs \<Rightarrow> (case load_chain_ports le db rs of Inl rs \<Rightarrow> Inl rs | Inr rs \<Rightarrow> finalize_chain_rules rs)))"

definition load_chain_schema :: "loader_env \<Rightarrow> signature_db \<Rightarrow> chain_db \<Rightarrow> bool \<times> chain_db" where
  "load_chain_schema le db rs =
     (let found = map (table_exists db) chain_tables
      in if None \<in> set found then (False, rs)
         else if \<not> list_ex (\<lambda>f. f = Some True) found then (True, rs)
         else let rs = rs\<lparr>cd_schema_v2_present := True\<rparr>
              in if \<not> list_all (\<lambda>f. f = Some True) found \<or> \<not> validate_foreign_keys db then (False, rs)
                 else case load_chain_stats db rs of
                        (False, rs) \<Rightarrow> (False, rs)
                      | (True, rs) \<Rightarrow>
                          (case load_catalog_digest le db of
                             None \<Rightarrow> (False, rs)
                           | Some digest \<Rightarrow>
                               (case load_chain_records le db (rs\<lparr>ch_catalog_digest := digest\<rparr>) of
                                  Inl rs \<Rightarrow> (False, rs)
                                | Inr rs \<Rightarrow> (True, rs))))"

definition legacy_stats :: "match_set \<Rightarrow> chain_stats \<Rightarrow> chain_stats" where
  "legacy_stats legacy st = st\<lparr>st_legacy_db_rules := ms_total_rules legacy, st_legacy_kernel_rules := ms_fast_rules legacy,
     st_legacy_regex_inactive := ms_slow_rules legacy\<rparr>"

text \<open>The result (\<open>True\<close> for 0), the two sets and what is written to \<open>chain_status\<close>, if anything.\<close>

definition jmx_load_signature_db_with_chain ::
  "loader_env \<Rightarrow> signature_db option \<Rightarrow> u32 \<Rightarrow> bool \<times> match_set \<times> chain_db \<times> bool option" where
  "jmx_load_signature_db_with_chain le file engine_capabilities =
     (let legacy = jmx_rule_set_init; chain = jmx_chain_rule_set_init (engine_capabilities AND JMX_V3_CAP_KNOWN_MASK)
      in case file of
           None \<Rightarrow> (False, legacy, chain, None)
         | Some db \<Rightarrow>
             if \<not> sd_begin db then (False, legacy, chain, None)
             else let (apps, legacy) = load_apps db legacy; (rules, legacy) = load_rules le db legacy
             in if apps = None \<or> rules = None
                then (False, jmx_rule_set_free legacy, jmx_chain_rule_set_free chain, None)
                else let chain = cd_stat (legacy_stats legacy) chain; (ok, chain) = load_chain_schema le db chain
                in if ok then (True, legacy, chain, Some True)
                   else let rejected = st_rejected_records (cd_stats chain);
                            freed = (jmx_chain_rule_set_free chain)\<lparr>cd_schema_v2_present := cd_schema_v2_present chain\<rparr>
                        in (True, legacy,
                            cd_stat (\<lambda>st. (legacy_stats legacy st)\<lparr>st_rejected_records := if rejected \<noteq> 0 then rejected else 1\<rparr>) freed,
                            Some False))"

end
