(* ===== verification/V2Push.thy ===== *)
theory V2Push
  imports V3Channel RuleSet "HOL-Library.Monad_Syntax"
begin

text \<open>
  The push of the v2 rules by the control plane (\<open>jmxd/src/jmx_nl_push.c\<close>): FLUSH, the rules in batches of
  64, and VERSION, of which the kernel's acknowledgement is awaited.  FLUSH and the batches are sent without
  a sequence number and have no answer.

  \<open>malloc\<close> and \<open>calloc\<close> are \<open>nt_calloc\<close>; both set \<open>errno\<close> when they fail.  \<open>ret\<close> is \<open>True\<close> for 0.
\<close>

unbundle bit_operations_syntax

section \<open>Sending\<close>

definition v2_frame :: "u32 \<Rightarrow> bytes \<Rightarrow> bytes" where
  "v2_frame seq data =
     enc_nlh \<lparr>nlmsg_len = word_of_nat (NLMSG_LENGTH (8 + length data)), nlmsg_type = 0,
              nlmsg_flags = (if seq \<noteq> 0 then 1 else 0), nlmsg_seq = seq, nlmsg_pid = 0\<rparr> @ af_frame data"

definition nl_send_seq :: "'w net \<Rightarrow> bytes \<Rightarrow> u32 \<Rightarrow> 'w user \<Rightarrow> bool \<times> 'w user" where
  "nl_send_seq net data seq u =
     (if INT_MAX < length data then (False, set_errno EINVAL u)
      else let total = length data + 8
      in if NLMSG_SPACE total < NLMSG_LENGTH total \<or> UINT32_MAX < NLMSG_LENGTH total then (False, set_errno EOVERFLOW u)
         else (case v3_calloc net (NLMSG_SPACE total) u of
                 (False, u) \<Rightarrow> (False, u)
               | (True, u) \<Rightarrow>
                   (case nt_sendmsg net (v2_frame seq data) (us_world u) of
                      (Inl e, w) \<Rightarrow> (False, set_errno e (u\<lparr>us_world := w\<rparr>))
                    | (Inr sent, w) \<Rightarrow>
                        if sent \<noteq> NLMSG_LENGTH total then (False, set_errno EIO (u\<lparr>us_world := w\<rparr>))
                        else (True, u\<lparr>us_world := w\<rparr>))))"

definition nl_send :: "'w net \<Rightarrow> bytes \<Rightarrow> 'w user \<Rightarrow> bool \<times> 'w user" where
  "nl_send net data u = nl_send_seq net data 0 u"

definition v2_next_seq_locked :: "'w user \<Rightarrow> u32 \<times> 'w user" where
  "v2_next_seq_locked u =
     (let seq = us_seq_v2 u + 1; seq = (if seq = 0 then 1 else seq) in (seq, u\<lparr>us_seq_v2 := seq\<rparr>))"

section \<open>Waiting for the acknowledgement\<close>

datatype v2_ack_result = V2_ACK_OK | V2_ACK_NACK | V2_RESULT_UNKNOWN

text \<open>The result, and what is written to \<open>errno\<close>, if anything.\<close>

definition v2_decode_commit_ack :: "bytes \<Rightarrow> u32 \<Rightarrow> u32 \<Rightarrow> u32 \<Rightarrow> v2_ack_result \<times> krc" where
  "v2_decode_commit_ack buffer seq version expected_count =
     (let nlh = dec_nlh buffer; nl_payload = unat (nlmsg_len nlh) - 16; ack = drop 24 buffer; status = get_le32 ack 12
      in if length buffer < 16 \<or> unat (nlmsg_len nlh) < 16 \<or> length buffer < unat (nlmsg_len nlh) then (V2_RESULT_UNKNOWN, None)
         else if nlmsg_seq nlh \<noteq> seq \<or> nlmsg_pid nlh \<noteq> 0 then (V2_RESULT_UNKNOWN, None)
         else if nl_payload \<noteq> 8 + 24 then (V2_ACK_NACK, Some EMSGSIZE)
         else if get_le32 buffer 16 \<noteq> JMX_NL_MAGIC \<or> get_le32 buffer 20 \<noteq> 24 then (V2_ACK_NACK, Some EPROTO)
         else if get_le32 ack 0 \<noteq> JMX_NL_ACT_RULE_STATUS \<or> get_le32 ack 4 \<noteq> JMX_NL_ACT_RULE_VERSION \<or>
                 get_le32 ack 8 \<noteq> version
         then (V2_ACK_NACK, Some EPROTO)
         else if status \<noteq> 0 then (V2_ACK_NACK, Some (if sint status < 0 then errno_of_code (- status) else EPROTO))
         else if get_le32 ack 16 \<noteq> version \<or> get_le32 ack 20 \<noteq> expected_count then (V2_ACK_NACK, Some EPROTO)
         else (V2_ACK_OK, None))"

text \<open>One round of the loop: \<open>None\<close> is \<open>continue\<close>.\<close>

definition v2_wait_round ::
  "'w net \<Rightarrow> u32 \<Rightarrow> u32 \<Rightarrow> u32 \<Rightarrow> int \<Rightarrow> 'w user \<Rightarrow> v2_ack_result option \<times> 'w user" where
  "v2_wait_round net seq version expected_count deadline u =
     (case v3_monotonic_ms net u of (now, u) \<Rightarrow>
        if now < 0 \<or> deadline \<le> now then (Some V2_RESULT_UNKNOWN, set_errno ETIMEDOUT u)
        else (case nt_poll net (deadline - now) (us_world u) of
           (Poll_failed e, w) \<Rightarrow>
             (if e = EINTR then None else Some V2_RESULT_UNKNOWN, set_errno e (u\<lparr>us_world := w\<rparr>))
         | (Poll_timeout, w) \<Rightarrow> (Some V2_RESULT_UNKNOWN, set_errno ETIMEDOUT (u\<lparr>us_world := w\<rparr>))
         | (Poll_events err readable, w) \<Rightarrow>
             if err then (Some V2_RESULT_UNKNOWN, set_errno EIO (u\<lparr>us_world := w\<rparr>))
             else if \<not> readable then (None, u\<lparr>us_world := w\<rparr>)
             else (case nt_recvmsg net w of
                (Inl e, w) \<Rightarrow>
                  (if e = EINTR \<or> e = EAGAIN then None else Some V2_RESULT_UNKNOWN, set_errno e (u\<lparr>us_world := w\<rparr>))
              | (Inr d, w) \<Rightarrow>
                  let u = u\<lparr>us_world := w\<rparr>
                  in if dg_peer d \<noteq> 0 then (None, u)
                     else if dg_truncated d then (Some V2_RESULT_UNKNOWN, set_errno EMSGSIZE u)
                     else (case v2_decode_commit_ack (dg_bytes d) seq version expected_count of
                             (decoded, err) \<Rightarrow>
                               (if decoded = V2_RESULT_UNKNOWN then None else Some decoded,
                                case err of None \<Rightarrow> u | Some e \<Rightarrow> set_errno e u)))))"

partial_function (option) v2_wait_loop ::
  "'w net \<Rightarrow> u32 \<Rightarrow> u32 \<Rightarrow> u32 \<Rightarrow> int \<Rightarrow> 'w user \<Rightarrow> (v2_ack_result \<times> 'w user) option" where
  "v2_wait_loop net seq version expected_count deadline u =
     (case v2_wait_round net seq version expected_count deadline u of
        (Some ack, u) \<Rightarrow> Some (ack, u)
      | (None, u) \<Rightarrow> v2_wait_loop net seq version expected_count deadline u)"

definition v2_wait_commit_ack_locked ::
  "'w net \<Rightarrow> u32 \<Rightarrow> u32 \<Rightarrow> u32 \<Rightarrow> 'w user \<Rightarrow> (v2_ack_result \<times> 'w user) option" where
  "v2_wait_commit_ack_locked net seq version expected_count u =
     (case v3_monotonic_ms net u of (deadline, u) \<Rightarrow>
        if deadline < 0 then Some (V2_RESULT_UNKNOWN, u)
        else v2_wait_loop net seq version expected_count (deadline + 30000) u)"

section \<open>Messages\<close>

definition version_msg :: "u32 \<Rightarrow> bytes" where
  "version_msg version = le32 JMX_NL_ACT_RULE_VERSION @ le32 version"

definition batch_msg :: "u32 \<Rightarrow> v2_nl_rule list \<Rightarrow> bytes" where
  "batch_msg version rules =
     le32 JMX_NL_ACT_RULE_ADD_BATCH @ le32 (word_of_nat (length rules)) @ le32 version @ v2_codec.image rules"

definition nl_commit_version_locked :: "'w net \<Rightarrow> u32 \<Rightarrow> u32 \<Rightarrow> 'w user \<Rightarrow> (bool \<times> 'w user) option" where
  "nl_commit_version_locked net version expected_count u =
     (case v2_next_seq_locked u of (seq, u) \<Rightarrow>
        (case nl_send_seq net (version_msg version) seq u of
           (False, u) \<Rightarrow> Some (False, u)
         | (True, u) \<Rightarrow> do {
             (ack, u) \<leftarrow> v2_wait_commit_ack_locked net seq version expected_count u;
             if ack \<noteq> V2_ACK_OK
             then Some (False, if ack = V2_ACK_NACK \<and> us_errno u = None then set_errno EPROTO u else u)
             else Some (True, u)
           }))"

definition nl_flush_rules_locked :: "'w net \<Rightarrow> 'w user \<Rightarrow> bool \<times> 'w user" where
  "nl_flush_rules_locked net u = nl_send net (le32 JMX_NL_ACT_RULE_FLUSH) u"

text \<open>A count is cut to the size of its array.\<close>

definition rule_to_nl :: "match_rule \<Rightarrow> v2_nl_rule" where
  "rule_to_nl src =
     (let len = (if 256 < mr_match_len src then 256 else mr_match_len src);
          ports = (if 8 < mr_port_count src then 8 else mr_port_count src);
          lens = (if 4 < mr_len_count src then 4 else mr_len_count src)
      in \<lparr>nr_appid = mr_appid src, nr_rule_id = mr_rule_id src, nr_priority = mr_priority src,
          nr_method = ucast (mr_method src), nr_proto = ucast (mr_proto src), nr_dir = ucast (mr_dir src),
          nr_port_count = ports, nr_len_count = lens, nr_pad = replicate 3 0, nr_pkt_seq = mr_pkt_seq src,
          nr_offset = mr_offset src, nr_match_len = len,
          nr_match_str = take (unat len) (mr_match_str src) @ replicate (256 - unat len) 0,
          nr_ports = take (unat ports) (mr_ports src) @ replicate (8 - unat ports) (0, 0),
          nr_len_range = take (unat lens) (mr_len_range src) @ replicate (4 - unat lens) (0, 0)\<rparr>)"

section \<open>The push\<close>

text \<open>A batch is copied to a message and sent.  \<open>Inl\<close> is the jump to \<open>out_unlock\<close> with the value that
  \<open>ret\<close> has there: when the message cannot be allocated, the one it had before.\<close>

definition send_rules :: "'w net \<Rightarrow> u32 \<Rightarrow> v2_nl_rule list \<Rightarrow> bool \<Rightarrow> 'w user \<Rightarrow> (bool \<times> 'w user) + (bool \<times> 'w user)" where
  "send_rules net version batch ret u =
     (case v3_calloc net (12 + 334 * length batch) u of
        (False, u) \<Rightarrow> Inl (ret, u)
      | (True, u) \<Rightarrow>
          (case nl_send net (batch_msg version batch) u of
             (False, u) \<Rightarrow> Inl (False, u)
           | (True, u) \<Rightarrow> Inr (True, u)))"

text \<open>The loop over the rules: what is left in the batch, \<open>ret\<close> and the state.\<close>

fun push_loop ::
  "'w net \<Rightarrow> u32 \<Rightarrow> match_rule list \<Rightarrow> v2_nl_rule list \<Rightarrow> bool \<Rightarrow> 'w user \<Rightarrow>
   (bool \<times> 'w user) + (v2_nl_rule list \<times> bool \<times> 'w user)" where
  "push_loop net version [] batch ret u = Inr (batch, ret, u)"
| "push_loop net version (r # rs) batch ret u =
     (let batch = batch @ [rule_to_nl r]
      in if length batch = 64
         then (case send_rules net version batch ret u of
                 Inl stop \<Rightarrow> Inl stop
               | Inr (ret, u) \<Rightarrow> push_loop net version rs [] ret u)
         else push_loop net version rs batch ret u)"

definition push_batches :: "'w net \<Rightarrow> u32 \<Rightarrow> match_rule list \<Rightarrow> 'w user \<Rightarrow> (bool \<times> 'w user) + (bool \<times> 'w user)" where
  "push_batches net version rules u =
     (case push_loop net version rules [] False u of
        Inl stop \<Rightarrow> Inl stop
      | Inr (batch, ret, u) \<Rightarrow> if batch = [] then Inr (ret, u) else send_rules net version batch ret u)"

definition jmx_nl_push_rules :: "'w net \<Rightarrow> match_set \<Rightarrow> u32 \<Rightarrow> 'w user \<Rightarrow> (bool \<times> 'w user) option" where
  "jmx_nl_push_rules net rs version u =
     (case nl_flush_rules_locked net u of
        (False, u) \<Rightarrow> Some (False, u)
      | (True, u) \<Rightarrow>
          if ms_total_rules rs = 0 then nl_commit_version_locked net version 0 u
          else (case v3_calloc net (334 * 64) u of
             (False, u) \<Rightarrow> Some (False, u)
           | (True, u) \<Rightarrow>
               (case push_batches net version (ms_rules rs) u of
                  Inl (ret, u) \<Rightarrow> Some (ret, u)
                | Inr (ret, u) \<Rightarrow>
                    let pushed = word_of_nat (length (ms_rules rs)) :: u32
                    in if pushed \<noteq> ms_total_rules rs then Some (False, set_errno EPROTO u)
                       else nl_commit_version_locked net version pushed u)))"

definition jmx_nl_flush_rules :: "'w net \<Rightarrow> 'w user \<Rightarrow> bool \<times> 'w user" where
  "jmx_nl_flush_rules net u = nl_flush_rules_locked net u"

end
