(* ===== verification/Reload.thy ===== *)
theory Reload
  imports SignatureDb V2Push
begin

text \<open>
  The reload of the signature database (\<open>jmxd/src/main.c\<close>): load the file, push the v2 rules, restart the regex
  engine, push the chain rules, and go back to the old v2 rules when a later part fails.

  The host is the environment: which files are there, what \<open>jmx_system_db_resolve\<close> selects, the content of a
  database, whether the netlink socket can be opened, and the regex engine (\<open>jmx_regex.c\<close>, on PCRE2 and NFQUEUE):
  whether it can be initialised and started with a rule set, and how many of its rules compile.  Times, locks and
  log messages are left out; the time stamps of the status are not modelled.
\<close>

section \<open>State\<close>

datatype core_stage = PROCESS_START | BASE_TABLES | DB_INIT | UBUS_READY | FINGERPRINT_CATALOG | STARTUP_SIGNATURE_MATCH |
  AUXILIARY_PROBES | HOSTTYPE_OUI | SIGNATURE_LOADING | CORE_READY | CORE_FAILED

record core_runtime =
  co_stage :: core_stage
  co_ready :: bool
  co_degraded :: bool
  co_signature_loading :: bool
  co_signature_loaded :: bool
  co_signature_failed :: bool
  co_signature_unavailable :: bool
  co_signature_rules :: u32
  co_signature_regex_rules :: nat
  co_last_error_code :: int
  co_last_error :: string
  co_signature_path :: string

record 'w runtime =
  rt_rules :: match_set
  rt_rules_loaded :: bool
  rt_version :: u32
  rt_fd :: bool
  rt_chain :: chain_db
  rt_chain_loaded :: bool
  rt_probe_state :: int
  rt_probe_attempts :: u32
  rt_next_generation :: u32
  rt_kernel_status :: kernel_status
  rt_mode :: "u8 option"
  rt_regex :: "match_set option"
  rt_core :: core_runtime
  rt_user :: "'w user"

record 'w host =
  ho_net :: "'w net"
  ho_netlink_init :: "'w \<Rightarrow> bool"
  ho_mode_variable :: "bytes option"
  ho_exists :: "string \<Rightarrow> bool"
  ho_readable :: "string \<Rightarrow> bool"
  ho_resolve :: "string + string"
  ho_loader :: loader_env
  ho_open :: "string \<Rightarrow> signature_db option"
  ho_regex_init :: "match_set \<Rightarrow> bool"
  ho_regex_count :: "match_set \<Rightarrow> nat"
  ho_regex_start :: "match_set \<Rightarrow> bool"

section \<open>Status\<close>

definition jmx_core_note_signature_start :: "string \<Rightarrow> 'w runtime \<Rightarrow> 'w runtime" where
  "jmx_core_note_signature_start path rt =
     rt\<lparr>rt_core := (rt_core rt)\<lparr>co_stage := SIGNATURE_LOADING, co_ready := False, co_signature_loading := True,
       co_signature_loaded := False, co_signature_failed := False, co_signature_unavailable := False,
       co_signature_path := take 511 path\<rparr>\<rparr>"

definition jmx_core_note_signature_unavailable :: "'w runtime \<Rightarrow> 'w runtime" where
  "jmx_core_note_signature_unavailable rt =
     rt\<lparr>rt_core := (rt_core rt)\<lparr>co_stage := CORE_READY, co_ready := True, co_degraded := True, co_signature_loading := False,
       co_signature_loaded := False, co_signature_failed := False, co_signature_unavailable := True,
       co_last_error_code := -2, co_last_error := ''signature_database_unavailable''\<rparr>\<rparr>"

definition regex_count :: "'w host \<Rightarrow> 'w runtime \<Rightarrow> nat" where
  "regex_count host rt = (case rt_regex rt of None \<Rightarrow> 0 | Some rules \<Rightarrow> ho_regex_count host rules)"

definition jmx_core_note_signature_done :: "'w host \<Rightarrow> string option \<Rightarrow> int \<Rightarrow> 'w runtime \<Rightarrow> 'w runtime" where
  "jmx_core_note_signature_done host path rc rt =
     (let core = (rt_core rt)\<lparr>co_signature_loading := False, co_signature_loaded := (rc = 0), co_signature_failed := (rc \<noteq> 0),
            co_signature_rules := ms_total_rules (rt_rules rt), co_signature_regex_rules := regex_count host rt\<rparr>;
          core = (if path \<noteq> None \<and> path \<noteq> Some [] then core\<lparr>co_signature_path := take 511 (the path)\<rparr> else core)
      in rt\<lparr>rt_core :=
           if rc \<noteq> 0
           then core\<lparr>co_degraded := True, co_last_error_code := rc, co_last_error := ''signature_runtime_load_failed'',
                     co_stage := CORE_FAILED, co_ready := False\<rparr>
           else core\<lparr>co_stage := CORE_READY, co_ready := True\<rparr>\<rparr>)"

section \<open>Mode, generation and probe\<close>

definition jmx_v3_effective_mode :: "u8 \<Rightarrow> u8" where
  "jmx_v3_effective_mode requested_mode = (if 2 < requested_mode then 0 else requested_mode)"

definition to_lower :: "u8 \<Rightarrow> u8" where
  "to_lower c = (if 0x41 \<le> c \<and> c \<le> 0x5a then c + 0x20 else c)"

definition jmx_v3_configured_mode :: "'w host \<Rightarrow> 'w runtime \<Rightarrow> u8 \<times> 'w runtime" where
  "jmx_v3_configured_mode host rt =
     (case rt_mode rt of
        Some mode \<Rightarrow> (mode, rt)
      | None \<Rightarrow>
          let value = map_option (map to_lower) (ho_mode_variable host);
              requested = (if streq value ''shadow'' then 1 else if streq value ''active'' then 2 else 0);
              mode = jmx_v3_effective_mode requested
          in (mode, rt\<lparr>rt_mode := Some mode\<rparr>))"

definition jmx_v3_reserve_generation :: "'w runtime \<Rightarrow> u32 \<times> 'w runtime" where
  "jmx_v3_reserve_generation rt =
     (let generation = (if rt_next_generation rt = 0 then 1 else rt_next_generation rt)
      in (generation, rt\<lparr>rt_next_generation := if generation = U32_MAX then 1 else generation + 1\<rparr>))"

text \<open>Opening the socket, where the code finds it closed.\<close>

definition open_netlink :: "'w host \<Rightarrow> 'w runtime \<Rightarrow> 'w runtime" where
  "open_netlink host rt = (if rt_fd rt then rt else rt\<lparr>rt_fd := ho_netlink_init host (us_world (rt_user rt))\<rparr>)"

definition jmx_v3_probe_if_needed :: "'w host \<Rightarrow> 'w runtime \<Rightarrow> 'w runtime option" where
  "jmx_v3_probe_if_needed host rt =
     (if 0 < rt_probe_state rt then Some rt
      else let rt = open_netlink host rt
      in if \<not> rt_fd rt then Some rt
         else do {
           (ok, u) \<leftarrow> jmx_nl_v3_probe (ho_net host) ((rt_user rt)\<lparr>us_errno := None\<rparr>);
           let rt = rt\<lparr>rt_probe_attempts := rt_probe_attempts rt + 1, rt_user := u\<rparr>;
           let active = ks_active_generation (us_status u);
           Some (if ok
             then rt\<lparr>rt_probe_state := 1, rt_kernel_status := us_status u,
                     rt_next_generation := (if active = U32_MAX then 1 else active + 1)\<rparr>
             else rt\<lparr>rt_probe_state := -1\<rparr>)
         })"

section \<open>The parts of a reload\<close>

text \<open>\<open>True\<close> is 0.\<close>

definition jmx_v2_push_snapshot :: "'w host \<Rightarrow> match_set \<Rightarrow> 'w runtime \<Rightarrow> (bool \<times> 'w runtime) option" where
  "jmx_v2_push_snapshot host rules rt =
     (let rt = open_netlink host rt
      in if \<not> rt_fd rt then Some (False, rt)
         else let version = (if rt_version rt \<noteq> 0 then rt_version rt else 1)
         in do {
           (ok, u) \<leftarrow> jmx_nl_push_rules (ho_net host) rules version (rt_user rt);
           let rt = rt\<lparr>rt_user := u\<rparr>;
           Some (if ok then (True, rt\<lparr>rt_version := if version = U32_MAX then 1 else version + 1\<rparr>) else (False, rt))
         })"

definition jmx_regex_start_snapshot :: "'w host \<Rightarrow> match_set \<Rightarrow> 'w runtime \<Rightarrow> bool \<times> 'w runtime" where
  "jmx_regex_start_snapshot host rules rt =
     (if \<not> ho_regex_init host rules then (False, rt)
      else if 0 < ho_regex_count host rules \<and> \<not> ho_regex_start host rules then (False, rt\<lparr>rt_regex := None\<rparr>)
      else (True, rt\<lparr>rt_regex := Some rules\<rparr>))"

definition jmx_regex_stop_snapshot :: "'w runtime \<Rightarrow> 'w runtime" where
  "jmx_regex_stop_snapshot rt = rt\<lparr>rt_regex := None\<rparr>"

definition jmx_restore_legacy_snapshot :: "'w host \<Rightarrow> match_set \<Rightarrow> bool \<Rightarrow> 'w runtime \<Rightarrow> (bool \<times> 'w runtime) option" where
  "jmx_restore_legacy_snapshot host old_rules old_rules_loaded rt = do {
     let rt = (jmx_regex_stop_snapshot rt)\<lparr>rt_rules := old_rules, rt_rules_loaded := old_rules_loaded\<rparr>;
     (kernel_ok, rt) \<leftarrow> jmx_v2_push_snapshot host old_rules rt;
     let (regex_ok, rt) = jmx_regex_start_snapshot host old_rules rt;
     Some (kernel_ok \<and> regex_ok, rt)
   }"

text \<open>The candidate: the given path, or else the one that the system selects.\<close>

datatype candidate = Loaded string match_set chain_db bool | No_candidate string

definition load_from :: "'w host \<Rightarrow> u32 \<Rightarrow> string \<Rightarrow> string \<Rightarrow> candidate" where
  "load_from host engine_caps path error =
     (case jmx_load_signature_db_with_chain (ho_loader host) (ho_open host path) engine_caps of
        (True, rules, chain, status) \<Rightarrow> Loaded path rules chain (status = Some True)
      | _ \<Rightarrow> No_candidate error)"

definition find_candidate :: "'w host \<Rightarrow> string option \<Rightarrow> u32 \<Rightarrow> candidate" where
  "find_candidate host path engine_caps =
     (case path of
        Some (c # p) \<Rightarrow>
          if ho_exists host (c # p) \<and> ho_readable host (c # p) then load_from host engine_caps (c # p) [] else No_candidate []
      | _ \<Rightarrow> (case ho_resolve host of Inl error \<Rightarrow> No_candidate error | Inr p \<Rightarrow> load_from host engine_caps p []))"

text \<open>0, -1, -\<open>ENOENT\<close> (-2) or \<open>JMX_SIGNATURE_UNAVAILABLE\<close> (1).\<close>

definition no_candidate :: "'w host \<Rightarrow> string option \<Rightarrow> string \<Rightarrow> 'w runtime \<Rightarrow> int \<times> 'w runtime" where
  "no_candidate host path error rt =
     (let explicit = (path \<noteq> None \<and> path \<noteq> Some []); missing = explicit \<and> \<not> ho_exists host (the path);
          rc = (if missing then -2 else -1)
      in if \<not> explicit \<and> error = ''path_not_found'' then (1, jmx_core_note_signature_unavailable rt)
         else (rc, jmx_core_note_signature_done host path rc rt))"

text \<open>The part from the commit of the v2 rules on: the regex engine, and the chain rules.\<close>

definition push_chain :: "'w host \<Rightarrow> u8 \<Rightarrow> chain_db \<Rightarrow> 'w runtime \<Rightarrow> (bool \<times> 'w runtime) option" where
  "push_chain host mode chain rt = do {
     let (generation, rt) = jmx_v3_reserve_generation rt;
     (ok, u) \<leftarrow> jmx_nl_push_chain_rules (ho_net host) (chain_set.truncate chain) generation mode (rt_user rt);
     let rt = rt\<lparr>rt_user := u\<rparr>;
     Some (if ok then (True, rt\<lparr>rt_chain := chain, rt_chain_loaded := True, rt_kernel_status := us_status u\<rparr>) else (False, rt))
   }"

definition install_candidate ::
  "'w host \<Rightarrow> string \<Rightarrow> u8 \<Rightarrow> match_set \<Rightarrow> chain_db \<Rightarrow> 'w runtime \<Rightarrow> (int \<times> 'w runtime) option" where
  "install_candidate host path mode rules chain rt = do {
     let fail = (\<lambda>rt. (-1 :: int, jmx_core_note_signature_done host (Some path) (-1) rt));
     let old_rules = rt_rules rt;
     let old_loaded = rt_rules_loaded rt;
     (ok, rt) \<leftarrow> jmx_v2_push_snapshot host rules rt;
     if \<not> ok then Some (fail rt)
     else do {
       let rt = (jmx_regex_stop_snapshot rt)\<lparr>rt_rules := rules, rt_rules_loaded := True\<rparr>;
       let (ok, rt) = jmx_regex_start_snapshot host rules rt;
       if \<not> ok
       then do { (restored, rt) \<leftarrow> jmx_restore_legacy_snapshot host old_rules old_loaded rt; Some (fail rt) }
       else if rt_probe_state rt \<le> 0 then Some (0, jmx_core_note_signature_done host (Some path) 0 rt)
       else do {
         (ok, rt) \<leftarrow> push_chain host mode chain rt;
         if ok then Some (0, jmx_core_note_signature_done host (Some path) 0 rt)
         else do { (restored, rt) \<leftarrow> jmx_restore_legacy_snapshot host old_rules old_loaded rt; Some (fail rt) }
       }
     }
   }"

definition jmx_runtime_reload_signature_db :: "'w host \<Rightarrow> string option \<Rightarrow> 'w runtime \<Rightarrow> (int \<times> 'w runtime) option" where
  "jmx_runtime_reload_signature_db host path rt = do {
     let (mode, rt) = jmx_v3_configured_mode host rt;
     rt \<leftarrow> jmx_v3_probe_if_needed host rt;
     let engine_caps = (if 0 < rt_probe_state rt then ks_engine_capabilities (rt_kernel_status rt) else 0);
     case find_candidate host path engine_caps of
       No_candidate error \<Rightarrow> Some (no_candidate host path error rt)
     | Loaded loaded rules chain schema_ok \<Rightarrow>
         let rt = jmx_core_note_signature_start loaded rt
         in if 0 < rt_probe_state rt \<and> mode \<noteq> 0 \<and> \<not> schema_ok
            then Some (-1, jmx_core_note_signature_done host (Some loaded) (-1) rt)
            else install_candidate host loaded mode rules chain rt
   }"

definition try_load_signature_db :: "'w host \<Rightarrow> 'w runtime \<Rightarrow> (int \<times> 'w runtime) option" where
  "try_load_signature_db host rt = do {
     (rc, rt) \<leftarrow> jmx_runtime_reload_signature_db host None rt;
     Some (if rc = 1 then 0 else rc, rt)
   }"

end
