(* ===== verification/V3Delivery.thy ===== *)
theory V3Delivery
  imports V3Push
begin

text \<open>
  What the push achieves.  Messages survive their framing in both directions; a request sent to a
  kernel that answers is the call of one handler operation on the module's state (\<open>serve\<close>), so that the
  whole push can be computed on that state; and on any network the waiting loop ends once the clock
  passes its deadline.
\<close>

unbundle bit_operations_syntax

section \<open>Frames\<close>

lemma length_enc_nlh [simp]: "length (enc_nlh h) = 16"
  by (simp add: enc_nlh_def)

lemma dec_nlh_enc [simp]: "dec_nlh (enc_nlh h @ bs) = h"
  by (simp add: dec_nlh_def enc_nlh_def wire_simps)

lemma length_af_frame [simp]: "length (af_frame data) = 8 + length data"
  by (simp add: af_frame_def)

lemma drop_af_frame [simp]: "8 \<le> n \<Longrightarrow> drop n (af_frame data) = drop (n - 8) data"
  by (simp add: af_frame_def)

lemma frame_fields [simp]:
  "get_le32 (enc_nlh h @ af_frame data) 16 = JMX_NL_MAGIC"
  "get_le32 (enc_nlh h @ af_frame data) 20 = word_of_nat (length data)"
  "drop 24 (enc_nlh h @ af_frame data) = data"
  by (simp_all add: af_frame_def wire_simps)

lemma decode_reply:
  assumes wf: "status_wf s" and action: "ss_request_action s = action"
  shows "v3_decode_status (reply_frame seq (enc_hdr (status_header gen (enc_status s)) @ enc_status s)) seq action gen =
    Some (if ss_status s = JMX_V3_STATUS_OK then V3_ACK_OK else V3_ACK_NACK, kernel_status_of s)"
proof -
  have len: "length (enc_status s) = 80" by (rule status_codec.length_enc [OF wf])
  have "length (enc_hdr (status_header gen (enc_status s)) @ enc_status s) = 112" by (simp add: len)
  then show ?thesis
    using status_codec.dec_enc [OF wf]
    by (simp add: v3_decode_status_def reply_frame_def NLMSG_LENGTH_def Let_def status_header_def len action)
qed

lemma v3_actions: "action_is_v3 action \<Longrightarrow> action \<in> {50, 51, 52, 53, 54, 55, 56, 57}"
  by (simp add: action_is_v3_def word_le_nat_alt word_unat_eq_iff) linarith

lemma v3_action_not_direction:
  assumes "action_is_v3 (h_action h)"
  shows "get_be32_at (enc_hdr h @ bs) 0 \<noteq> JMX_NL_ACT_DIRECTION_SNAPSHOT"
  using v3_actions [OF assms] by (auto simp: get_be32_at_def enc_hdr_def le32_def get_be32_def)

section \<open>A request as a call\<close>

text \<open>What the module does with a request of the control plane: the handler's operation, and for a
  rejected batch the failure of the transaction.\<close>

definition serve ::
  "kernel_env \<Rightarrow> u32 \<Rightarrow> u32 \<Rightarrow> u32 \<Rightarrow> u32 \<Rightarrow> u32 \<Rightarrow> u32 \<Rightarrow> bytes \<Rightarrow> v3_state \<Rightarrow> outcome \<times> v3_state" where
  "serve env portid action generation flags record_size count payload st =
     (let h = request_header action generation flags record_size count payload;
          r = (if is_control action then control_request env portid h st else record_request env portid h payload st)
      in (fst r, if fst (fst r) \<noteq> None \<and> generation \<noteq> 0 \<and> action_is_batch action
                 then jmx_v3_tx_fail env portid generation (fst (snd (fst r))) (snd (snd (fst r))) (snd r) else snd r))"

lemma serve_run:
  assumes "length payload + 32 < 2 ^ 32"
    and "serve env portid action gen flags rsize count payload st = ((rc, reason, detail), st2)"
  shows "\<exists>st1. run_request env portid (enc_hdr (request_header action gen flags rsize count payload) @ payload) st =
      (gen, (rc, reason, detail), st1) \<and>
    st2 = (if rc \<noteq> None \<and> gen \<noteq> 0 \<and> action_is_batch action then jmx_v3_tx_fail env portid gen reason detail st1 else st1)"
proof -
  define h where "h = request_header action gen flags rsize count payload"
  define r where "r = (if is_control action then control_request env portid h st else record_request env portid h payload st)"
  have ok: "header_reason h (enc_hdr h @ payload) = None"
    unfolding h_def by (rule request_header_ok [OF assms(1)])
  have "run_request env portid (enc_hdr h @ payload) st = (gen, r)"
    using ok by (simp add: run_request_def Let_def r_def) (simp add: h_def)
  moreover have "fst r = (rc, reason, detail)"
    "st2 = (if rc \<noteq> None \<and> gen \<noteq> 0 \<and> action_is_batch action then jmx_v3_tx_fail env portid gen reason detail (snd r) else snd r)"
    using assms(2) by (auto simp: serve_def Let_def r_def h_def)
  ultimately show ?thesis unfolding h_def by (metis prod.collapse)
qed

lemma serve_inv:
  assumes "engine_ok st" and "length payload + 32 < 2 ^ 32"
    and "serve env portid action gen flags rsize count payload st = ((rc, reason, detail), st2)"
  shows "engine_ok st2"
proof -
  obtain st1 where run: "run_request env portid (enc_hdr (request_header action gen flags rsize count payload) @ payload) st =
      (gen, (rc, reason, detail), st1)"
    and st2: "st2 = (if rc \<noteq> None \<and> gen \<noteq> 0 \<and> action_is_batch action then jmx_v3_tx_fail env portid gen reason detail st1 else st1)"
    using serve_run [OF assms(2,3)] by blast
  have "engine_ok st1" by (rule run_request_inv [OF assms(1) _ run]) (use assms(2) in simp)
  then show ?thesis by (simp add: st2 tx_fail_inv)
qed

abbreviation answer :: "u32 \<Rightarrow> krc \<Rightarrow> u32 \<Rightarrow> u32 \<Rightarrow> v3_state \<Rightarrow> v3_status" where
  "answer action rc reason detail st \<equiv>
     status_of action (if rc = None then JMX_V3_STATUS_OK else JMX_V3_STATUS_ERROR) reason detail (jmx_v3_get_snapshot st)"

lemma unat_length: "n < 2 ^ 32 \<Longrightarrow> unat (word_of_nat n :: u32) = n"
  by (simp add: unat_word_of_nat)

lemma sint_length: "n < 2 ^ 31 \<Longrightarrow> sint (word_of_nat n :: u32) = int n"
  by (simp add: sint_uint uint_nat unat_length signed_take_bit_int_eq_self)

lemma rcv_request:
  assumes ok: "engine_ok st" and action: "action_is_v3 action" and len: "length payload + 32 < MAX_JMX_NETLINK_MSG_LEN"
    and ids: "portid \<noteq> 0" "seq \<noteq> 0" and mem: "alloc_ok env A_NL_REPLY"
    and data: "data = enc_hdr (request_header action gen flags rsize count payload) @ payload" and free: "\<not> dp_license disp data"
    and serve: "serve env portid action gen flags rsize count payload st = ((rc, reason, detail), st2)"
  shows "jmx_netlink_msg_rcv env disp True portid (request_frame seq data) (rt, st, v2) =
    (Some (reply_frame seq (enc_hdr (status_header gen (enc_status (answer action rc reason detail st2))) @
       enc_status (answer action rc reason detail st2))), rt, st2, v2)"
proof -
  define reply where "reply = enc_hdr (status_header gen (enc_status (answer action rc reason detail st2))) @
       enc_status (answer action rc reason detail st2)"
  have n: "length data < 2 ^ 31" "length data < MAX_JMX_NETLINK_MSG_LEN" "32 \<le> length data" using len by (simp_all add: data)
  have ok2: "engine_ok st2" by (rule serve_inv [OF ok _ serve]) (use len in simp)
  then have wf: "status_wf (answer action rc reason detail st2)" by (simp add: engine_ok_def snapshot_wf)
  have act: "get_le32 data 0 = action" by (simp add: data)
  obtain st1 where run: "run_request env portid data st = (gen, (rc, reason, detail), st1)"
    and st2: "st2 = (if rc \<noteq> None \<and> gen \<noteq> 0 \<and> action_is_batch action then jmx_v3_tx_fail env portid gen reason detail st1 else st1)"
    using serve_run [OF _ serve] len unfolding data by auto
  have "jmx_v3_nl_handle env data portid seq True st = (True, Some \<lparr>rp_portid = portid, rp_seq = seq, rp_data = reply\<rparr>, st2)"
    using handle_run [of data portid seq env st gen rc reason detail st1 st2] n ids action run st2
    by (simp add: act Let_def reply_def)
  moreover have "action \<noteq> JMX_NL_MSG_INIT \<and> action \<noteq> JMX_NL_MSG_ADD_FEATURE \<and> action \<noteq> JMX_NL_MSG_CLEAN_FEATURE \<and>
      action \<noteq> JMX_NL_ACT_RULE_VERSION"
    using v3_actions [OF action] by auto
  moreover have "jmx_v3_reply_to_portid env portid seq reply = Inr (reply_frame seq reply)"
  proof -
    have "length reply = 112" using status_codec.length_enc [OF wf] by (simp add: reply_def)
    then have "reply \<noteq> []" by auto
    with \<open>length reply = 112\<close> ids mem show ?thesis by (simp add: jmx_v3_reply_to_portid_def)
  qed
  ultimately have handle: "jmx_user_msg_handle env disp data portid seq (st, v2) = (Some (reply_frame seq reply), st2, v2)"
    using n by (simp add: jmx_user_msg_handle_def jmx_v2_nl_handle_def Let_def act)
  have "jmx_direction_nl_handle env data rt = (False, rt)"
    using v3_action_not_direction [of "request_header action gen flags rsize count payload" payload] action n
    by (simp add: jmx_direction_nl_handle_def data)
  moreover have "unat (24 + word_of_nat (length data) :: u32) = 24 + length data" "data \<noteq> []"
    using unat_length [of "24 + length data"] n by auto
  ultimately show ?thesis
    using n handle free unfolding reply_def [symmetric]
    by (simp add: jmx_netlink_msg_rcv_def request_frame_def Let_def NLMSG_LENGTH_def unat_length sint_length)
qed

section \<open>A kernel that answers\<close>

text \<open>
  The network on which every message reaches the module and every answer the control plane.  The
  module's netlink input runs inside \<open>sendmsg\<close>, so its answer waits in the socket when the call
  returns.  \<open>envs n\<close> is the kernel's environment (clock, allocations) when it handles its n-th message.
\<close>

record kworld =
  kw_state :: v3_state
  kw_v2 :: v2_state
  kw_runtime :: dir_runtime
  kw_inbox :: "datagram list"
  kw_now :: int
  kw_handled :: nat

definition kernel_net :: "(nat \<Rightarrow> kernel_env) \<Rightarrow> dispatch \<Rightarrow> u32 \<Rightarrow> kworld net" where
  "kernel_net envs disp portid =
     \<lparr>nt_calloc = \<lambda>_ w. (True, w),
      nt_sendmsg = \<lambda>m w.
        (case jmx_netlink_msg_rcv (envs (kw_handled w)) disp True portid m (kw_runtime w, kw_state w, kw_v2 w) of
           (reply, rt, st, v2) \<Rightarrow>
             (Inr (length m),
              w\<lparr>kw_runtime := rt, kw_state := st, kw_v2 := v2, kw_handled := kw_handled w + 1,
                kw_inbox := kw_inbox w @ (case reply of None \<Rightarrow> [] | Some bs \<Rightarrow> [\<lparr>dg_peer = 0, dg_truncated = False, dg_bytes = bs\<rparr>])\<rparr>)),
      nt_clock = \<lambda>w. (Inr (kw_now w), w),
      nt_poll = \<lambda>_ w. (if kw_inbox w = [] then Poll_timeout else Poll_events False True, w),
      nt_recvmsg = \<lambda>w. (case kw_inbox w of [] \<Rightarrow> (Inl EAGAIN, w) | d # ds \<Rightarrow> (Inr d, w\<lparr>kw_inbox := ds\<rparr>))\<rparr>"

text \<open>What the delivery of an answer needs: a port, memory for the answer, and a license module that
  leaves v3 messages alone.\<close>

definition answering :: "(nat \<Rightarrow> kernel_env) \<Rightarrow> dispatch \<Rightarrow> u32 \<Rightarrow> bool" where
  "answering envs disp portid \<longleftrightarrow> portid \<noteq> 0 \<and> (\<forall>n. alloc_ok (envs n) A_NL_REPLY) \<and>
     (\<forall>data. action_is_v3 (get_le32 data 0) \<longrightarrow> \<not> dp_license disp data)"

definition kernel_idle :: "kworld \<Rightarrow> bool" where
  "kernel_idle w \<longleftrightarrow> engine_ok (kw_state w) \<and> kw_inbox w = [] \<and> 0 \<le> kw_now w"

lemma next_seq_nonzero: "v3_next_seq_locked u = (seq, u') \<Longrightarrow> seq \<noteq> 0 \<and> u' = u\<lparr>us_seq := seq\<rparr>"
  by (auto simp: v3_next_seq_locked_def Let_def split: if_splits)

lemma request_delivered:
  assumes net: "answering envs disp portid" and idle: "kernel_idle (us_world u)" and action: "action_is_v3 action"
    and len: "length payload + 32 < MAX_JMX_NETLINK_MSG_LEN"
    and serve: "serve (envs (kw_handled (us_world u))) portid action gen flags rsize count payload (kw_state (us_world u)) =
      ((rc, reason, detail), st2)"
  shows "\<exists>u'. v3_send_request_locked (kernel_net envs disp portid) action gen flags rsize count payload u =
      Some (if rc = None then V3_ACK_OK else V3_ACK_NACK, u') \<and>
    us_world u' = (us_world u)\<lparr>kw_state := st2, kw_handled := kw_handled (us_world u) + 1\<rparr> \<and>
    us_status u' = kernel_status_of (answer action rc reason detail st2) \<and>
    us_errno u' = (if rc = None then us_errno u else Some EPROTO) \<and> kernel_idle (us_world u')"
proof -
  define net where "net = kernel_net envs disp portid"
  define w where "w = us_world u"
  define data where "data = enc_hdr (request_header action gen flags rsize count payload) @ payload"
  define status where "status = answer action rc reason detail st2"
  define reply where "reply = reply_frame (fst (v3_next_seq_locked u)) (enc_hdr (status_header gen (enc_status status)) @ enc_status status)"
  define seq where "seq = fst (v3_next_seq_locked u)"
  have seq: "v3_next_seq_locked u = (seq, u\<lparr>us_seq := seq\<rparr>)" "seq \<noteq> 0"
    unfolding seq_def using next_seq_nonzero [of u] by (metis prod.collapse)+
  have small: "length payload + 32 < 2 ^ 32" using len by simp
  have env: "portid \<noteq> 0" "alloc_ok (envs (kw_handled w)) A_NL_REPLY" "\<not> dp_license disp data"
    using net action by (auto simp: answering_def data_def)
  have ok: "engine_ok (kw_state w)" using idle by (simp add: kernel_idle_def w_def)
  have rcv: "jmx_netlink_msg_rcv (envs (kw_handled w)) disp True portid (request_frame seq data) (kw_runtime w, kw_state w, kw_v2 w) =
      (Some reply, kw_runtime w, st2, kw_v2 w)"
    unfolding reply_def status_def seq_def [symmetric]
    by (rule rcv_request [OF ok action len env(1) seq(2) env(2) data_def env(3)]) (use serve in \<open>simp add: w_def\<close>)
  have ok2: "engine_ok st2" by (rule serve_inv [OF _ small serve]) (use idle in \<open>simp add: kernel_idle_def\<close>)
  then have wf: "status_wf status" by (simp add: status_def engine_ok_def snapshot_wf)
  have dec: "v3_decode_status reply seq action gen = Some (if rc = None then V3_ACK_OK else V3_ACK_NACK, kernel_status_of status)"
    unfolding reply_def seq_def [symmetric] using decode_reply [OF wf, of action seq gen] by (simp add: status_def status_of_def)
  define w2 where "w2 = w\<lparr>kw_state := st2, kw_handled := kw_handled w + 1\<rparr>"
  define u2 where "u2 = u\<lparr>us_seq := seq, us_world := w2, us_status := kernel_status_of status,
      us_errno := (if rc = None then us_errno u else Some EPROTO)\<rparr>"
  have space: "\<not> NLMSG_SPACE (40 + length payload) < 56 + length payload" by (simp add: NLMSG_SPACE_def NLMSG_LENGTH_def)
  have far: "\<not> 18446744073709551583 - length payload < 8" "\<not> 18446744073709551615 - length payload < 32" using len by arith+
  have send: "v3_nl_send_locked net data seq (u\<lparr>us_seq := seq\<rparr>) =
      (True, u\<lparr>us_seq := seq, us_world := w2\<lparr>kw_inbox := [\<lparr>dg_peer = 0, dg_truncated = False, dg_bytes = reply\<rparr>]\<rparr>\<rparr>)"
    using rcv len idle space far
    by (simp add: v3_nl_send_locked_def v3_size_add_def SIZE_MAX_def INT_MAX_def UINT32_MAX_def NLMSG_LENGTH_def
        v3_calloc_def net_def kernel_net_def w_def [symmetric] w2_def kernel_idle_def data_def request_frame_def)
  have round: "wait_round net action gen seq (kw_now w + v3_action_timeout_ms action)
      (u\<lparr>us_seq := seq, us_world := w2\<lparr>kw_inbox := [\<lparr>dg_peer = 0, dg_truncated = False, dg_bytes = reply\<rparr>]\<rparr>\<rparr>) =
      (Some (if rc = None then V3_ACK_OK else V3_ACK_NACK), u2)"
    using idle dec
    by (auto simp: wait_round_def v3_monotonic_ms_def net_def kernel_net_def w2_def u2_def w_def kernel_idle_def Let_def
        v3_action_timeout_ms_def set_errno_def)
  have "v3_send_request_locked net action gen flags rsize count payload u =
      v3_wait_status_locked net action gen seq (u\<lparr>us_seq := seq, us_world := w2\<lparr>kw_inbox := [\<lparr>dg_peer = 0, dg_truncated = False, dg_bytes = reply\<rparr>]\<rparr>\<rparr>)"
    using small len seq(1) send far unfolding data_def
    by (simp add: v3_send_request_locked_def v3_size_add_def SIZE_MAX_def UINT32_MAX_def v3_calloc_def net_def kernel_net_def Let_def)
  also have "\<dots> = Some (if rc = None then V3_ACK_OK else V3_ACK_NACK, u2)"
    using round idle
    by (simp add: v3_wait_status_locked_def v3_wait_loop.simps v3_monotonic_ms_def net_def kernel_net_def w2_def w_def kernel_idle_def)
  finally show ?thesis
    using ok2 idle by (auto simp: net_def u2_def w2_def w_def status_def kernel_idle_def)
qed

section \<open>The operations behind the requests\<close>

lemma count_fits:
  assumes "n \<le> 128" and "0 < sz" and "sz \<le> 116"
  shows "check_mul (word_of_nat n) (word_of_nat sz) = Some (word_of_nat (n * sz))"
    and "unat (word_of_nat n :: u32) = n" and "n * sz + 32 < MAX_JMX_NETLINK_MSG_LEN"
    and "v3_size_mul (word_of_nat n) sz = Some (word_of_nat (n * sz))"
proof -
  have "n * sz \<le> 128 * 116" using assms by (intro mult_le_mono) auto
  then have le: "n * sz \<le> 14848" by simp
  have n: "unat (word_of_nat n :: u32) = n" "unat (word_of_nat sz :: u32) = sz" using assms by (auto intro: unat_length)
  show "check_mul (word_of_nat n) (word_of_nat sz) = Some (word_of_nat (n * sz))" using le by (simp add: check_mul_def n)
  show "n * sz + 32 < MAX_JMX_NETLINK_MSG_LEN" "unat (word_of_nat n :: u32) = n" using le n by simp_all
  have "\<not> SIZE_MAX div sz < n"
  proof -
    have "n \<le> SIZE_MAX div sz" using le assms(2) by (simp add: SIZE_MAX_def less_eq_div_iff_mult_less_eq)
    then show ?thesis by simp
  qed
  then show "v3_size_mul (word_of_nat n) sz = Some (word_of_nat (n * sz))"
    using le by (simp add: v3_size_mul_def n UINT32_MAX_def Let_def)
qed

definition served :: "kernel_env \<Rightarrow> u32 \<Rightarrow> u32 \<Rightarrow> outcome \<times> v3_state \<Rightarrow> outcome \<times> v3_state" where
  "served env portid gen r =
     (fst r, if fst (fst r) = None then snd r else jmx_v3_tx_fail env portid gen (fst (snd (fst r))) (snd (snd (fst r))) (snd r))"

lemma serve_rules:
  assumes "gen \<noteq> 0" and "ws \<noteq> []" and "length ws \<le> 128" and "list_all rule_wf ws"
  shows "serve env portid JMX_NL_ACT_RULE_V3_BATCH gen 0 24 (word_of_nat (length ws)) (concat (map enc_rule ws)) st =
    served env portid gen (jmx_v3_tx_add_rules env portid gen ws st)"
  using count_fits [OF assms(3), of 24] assms(1,2) rule_codec.records_image [OF assms(4)] rule_codec.length_image [OF assms(4)]
  by (auto simp: serve_def served_def Let_def is_control_def action_is_batch_def record_request_def expected_record_size_def
      rule_codec.image_def)

lemma serve_steps:
  assumes "gen \<noteq> 0" and "ws \<noteq> []" and "length ws \<le> 128" and "list_all step_wf ws"
  shows "serve env portid JMX_NL_ACT_STEP_V3_BATCH gen 0 116 (word_of_nat (length ws)) (concat (map enc_step ws)) st =
    served env portid gen (jmx_v3_tx_add_steps env portid gen ws st)"
  using count_fits [OF assms(3), of 116] assms(1,2) step_codec.records_image [OF assms(4)] step_codec.length_image [OF assms(4)]
  by (auto simp: serve_def served_def Let_def is_control_def action_is_batch_def record_request_def expected_record_size_def
      step_codec.image_def)

lemma serve_ports:
  assumes "gen \<noteq> 0" and "ws \<noteq> []" and "length ws \<le> 128" and "list_all port_wf ws"
  shows "serve env portid JMX_NL_ACT_PORT_V3_BATCH gen 0 12 (word_of_nat (length ws)) (concat (map enc_port ws)) st =
    served env portid gen (jmx_v3_tx_add_ports env portid gen ws st)"
  using count_fits [OF assms(3), of 12] assms(1,2) port_codec.records_image [OF assms(4)] port_codec.length_image [OF assms(4)]
  by (auto simp: serve_def served_def Let_def is_control_def action_is_batch_def record_request_def expected_record_size_def
      port_codec.image_def)

lemma serve_begin:
  assumes "gen \<noteq> 0" and "begin_wf b"
  shows "serve env portid JMX_NL_ACT_RULESET_BEGIN_V3 gen mode 48 1 (enc_begin b) st =
    jmx_v3_tx_begin env portid gen (Some b) mode st"
  using assms begin_codec.length_enc [OF assms(2)] begin_codec.dec_enc [OF assms(2)]
  by (simp add: serve_def Let_def is_control_def action_is_batch_def record_request_def expected_record_size_def check_mul_def)

lemma serve_commit: "gen \<noteq> 0 \<Longrightarrow> serve env portid JMX_NL_ACT_RULESET_COMMIT_V3 gen 0 0 0 [] st = jmx_v3_tx_commit env portid gen st"
  and serve_abort: "gen \<noteq> 0 \<Longrightarrow> serve env portid JMX_NL_ACT_RULESET_ABORT_V3 gen 0 0 0 [] st = jmx_v3_tx_abort env portid gen st"
  and serve_status: "serve env portid JMX_NL_ACT_RULESET_STATUS_V3 gen 0 0 0 [] st = ((None, JMX_V3_REASON_NONE, 0), st)"
  by (simp_all add: serve_def Let_def is_control_def action_is_batch_def control_request_def)

lemma active_served: "v3_active (snd r) = v3_active st \<Longrightarrow> v3_active (snd (served env portid gen r)) = v3_active st"
  by (simp add: served_def)

subsection \<open>Their effect when they succeed\<close>

lemma begin_effect:
  "jmx_v3_tx_begin env owner gen (Some b) flags st = ((None, x), st') \<Longrightarrow>
    tx_set (v3_tx st') = Some (begin_set gen flags b) \<and> v3_active st' = v3_active st"
  by (auto simp: jmx_v3_tx_begin_def renew_transaction_locked_def expire_staging_locked_def Let_def split: if_splits option.splits)

lemma add_rules_effect:
  assumes "v3_inv st" and "tx_set (v3_tx st) = Some s" and run: "jmx_v3_tx_add_rules env owner gen ws st = ((None, x), st')"
  shows "tx_set (v3_tx st') = Some (s\<lparr>rs_rules := rs_rules s @ map rule_of_wire ws\<rparr>)"
proof -
  obtain e st1 where chk: "check_owner_locked env owner gen False st = (e, st1)" by fastforce
  with run have e: "e = None" by (cases e) (auto simp: jmx_v3_tx_add_rules_def)
  then have ok: "st1 = st" "set_ok s" using chk assms(1,2) v3_inv_live by (auto elim!: check_owner_ok)
  show ?thesis
    using run ok assms(2) append_rules_ok [of "rs_declared_caps s" "rs_rules s" ws]
    by (auto simp: jmx_v3_tx_add_rules_def chk e fail_with_def renew_transaction_locked_def set_staged_def Let_def set_ok_def
        split: if_splits sum.splits)
qed

lemma add_steps_effect:
  assumes "v3_inv st" and "tx_set (v3_tx st) = Some s" and wf: "list_all step_wf ws"
    and run: "jmx_v3_tx_add_steps env owner gen ws st = ((None, x), st')"
  shows "tx_set (v3_tx st') = Some (s\<lparr>rs_steps := rs_steps s @ map step_of_wire ws\<rparr>)"
proof -
  obtain e st1 where chk: "check_owner_locked env owner gen False st = (e, st1)" by fastforce
  with run have e: "e = None" by (cases e) (auto simp: jmx_v3_tx_add_steps_def)
  then have ok: "st1 = st" "set_ok s" using chk assms(1,2) v3_inv_live by (auto elim!: check_owner_ok)
  show ?thesis
    using run ok assms(2) append_steps_ok [of "rs_steps s" ws] wf
    by (auto simp: jmx_v3_tx_add_steps_def chk e fail_with_def renew_transaction_locked_def set_staged_def Let_def set_ok_def
        split: if_splits sum.splits)
qed

lemma add_ports_effect:
  assumes "v3_inv st" and "tx_set (v3_tx st) = Some s" and run: "jmx_v3_tx_add_ports env owner gen ws st = ((None, x), st')"
  shows "tx_set (v3_tx st') = Some (s\<lparr>rs_ports := rs_ports s @ map port_of_wire ws\<rparr>)"
proof -
  obtain e st1 where chk: "check_owner_locked env owner gen False st = (e, st1)" by fastforce
  with run have e: "e = None" by (cases e) (auto simp: jmx_v3_tx_add_ports_def)
  then have ok: "st1 = st" "set_ok s" using chk assms(1,2) v3_inv_live by (auto elim!: check_owner_ok)
  show ?thesis
    using run ok assms(2) append_ports_ok [of "rs_ports s" ws]
    by (auto simp: jmx_v3_tx_add_ports_def chk e fail_with_def renew_transaction_locked_def set_staged_def Let_def set_ok_def
        split: if_splits sum.splits)
qed

lemma commit_effect:
  assumes "v3_inv st" and "tx_set (v3_tx st) = Some s" and run: "jmx_v3_tx_commit env owner gen st = ((None, x), st')"
  shows "\<exists>s'. v3_active st' = Some s' \<and> publishes s s' \<and> catalog_complete s \<and> rs_generation s = gen"
proof -
  obtain e st1 where chk: "check_owner_locked env owner gen False st = (e, st1)" by fastforce
  with run have e: "e = None" by (cases e) (auto simp: jmx_v3_tx_commit_def)
  then have ok: "st1 = st" "set_ok s" "unindexed s" "rs_generation s = gen"
    using chk assms(1,2) v3_inv_live by (auto elim!: check_owner_ok)
  obtain rc reason detail s' where v: "validate_and_index_set env s = ((rc, reason, detail), s')"
    by (metis prod_cases4 prod.collapse)
  have rc: "rc = None" "v3_active st' = Some s'"
    using run ok(1) assms(2) v by (cases rc; auto simp: jmx_v3_tx_commit_def chk e fail_with_def)+
  then show ?thesis
    using validate_publishes [OF ok(2,3)] validate_needs_complete [OF ok(2,3), of env] v ok(4) by auto
qed

lemma abort_effect:
  assumes "v3_inv st"
  shows "tx_set (v3_tx (snd (jmx_v3_tx_abort env owner gen st))) = None \<or>
    tx_owner_portid (v3_tx (snd (jmx_v3_tx_abort env owner gen st))) \<noteq> owner \<or>
    tx_generation (v3_tx (snd (jmx_v3_tx_abort env owner gen st))) \<noteq> gen"
proof -
  have "tx_set (v3_tx st) = Some s \<Longrightarrow> tx_generation (v3_tx st) = rs_generation s \<and> v3_running st" for s
    using assms by (auto simp: v3_inv_def staged_ok_def Let_def)
  then show ?thesis
    by (auto simp: jmx_v3_tx_abort_def check_owner_locked_def expire_staging_locked_def Let_def split: option.splits if_splits)
qed

section \<open>The push against a kernel that answers\<close>

text \<open>Between two requests: nothing in flight, and the active set is still \<open>a0\<close>.\<close>

definition unchanged :: "rule_set option \<Rightarrow> kworld user \<Rightarrow> bool" where
  "unchanged a0 u \<longleftrightarrow> kernel_idle (us_world u) \<and> v3_active (kw_state (us_world u)) = a0"

definition staged :: "rule_set \<Rightarrow> kworld user \<Rightarrow> bool" where
  "staged s u \<longleftrightarrow> tx_set (v3_tx (kw_state (us_world u))) = Some s"

definition gone :: "u32 \<Rightarrow> u32 \<Rightarrow> kworld user \<Rightarrow> bool" where
  "gone portid gen u \<longleftrightarrow> (let tx = v3_tx (kw_state (us_world u)) in
     tx_set tx = None \<or> tx_owner_portid tx \<noteq> portid \<or> tx_generation tx \<noteq> gen)"

lemma unchanged_errno [simp]: "unchanged a0 (set_errno e u) = unchanged a0 u" "staged s (set_errno e u) = staged s u"
  "us_errno (set_errno e u) = Some e"
  by (simp_all add: unchanged_def staged_def set_errno_def)

text \<open>A request whose operation leaves the active set alone.\<close>

lemma request_unchanged:
  assumes net: "answering envs disp portid" and u: "unchanged a0 u" and action: "action_is_v3 action"
    and len: "length payload + 32 < MAX_JMX_NETLINK_MSG_LEN"
    and serve: "serve (envs (kw_handled (us_world u))) portid action gen flags rsize count payload (kw_state (us_world u)) =
      ((rc, reason, detail), st2)"
    and same: "v3_active st2 = v3_active (kw_state (us_world u))"
  shows "\<exists>u'. v3_send_request_locked (kernel_net envs disp portid) action gen flags rsize count payload u =
      Some (if rc = None then V3_ACK_OK else V3_ACK_NACK, u') \<and> unchanged a0 u' \<and> kw_state (us_world u') = st2 \<and>
    (rc \<noteq> None \<longrightarrow> us_errno u' \<noteq> None)"
proof -
  have "kernel_idle (us_world u)" using u by (simp add: unchanged_def)
  from request_delivered [OF net this action len serve] u same show ?thesis by (auto simp: unchanged_def)
qed

text \<open>A batch, for any of the three kinds of records.\<close>

lemma send_batch_kernel:
  assumes net: "answering envs disp portid" and u: "unchanged a0 u" and action: "action_is_v3 action"
    and ws: "ws \<noteq> []" "length ws \<le> 128" and sz: "0 < sz" "sz \<le> 116" and enc: "length (concat (map enc ws)) = length ws * sz"
    and serve: "\<And>env st. serve env portid action gen 0 (word_of_nat sz) (word_of_nat (length ws)) (concat (map enc ws)) st =
      served env portid gen (add env st)"
    and active: "\<And>env st. v3_active (snd (add env st)) = v3_active st"
    and effect: "\<And>env st x st' s. v3_inv st \<Longrightarrow> tx_set (v3_tx st) = Some s \<Longrightarrow> add env st = ((None, x), st') \<Longrightarrow> tx_set (v3_tx st') = Some (grow s)"
  shows "\<exists>ok u'. send_batch (kernel_net envs disp portid) action gen sz enc ws u = Some (ok, u') \<and> unchanged a0 u' \<and>
    (\<not> ok \<longrightarrow> us_errno u' \<noteq> None) \<and> (ok \<longrightarrow> (\<forall>s. staged s u \<longrightarrow> staged (grow s) u'))"
proof -
  define env where "env = envs (kw_handled (us_world u))"
  define st where "st = kw_state (us_world u)"
  obtain rc reason detail st1 where add: "add env st = ((rc, reason, detail), st1)" by (metis prod_cases4 prod.collapse)
  define st2 where "st2 = snd (served env portid gen (add env st))"
  note fits = count_fits [OF ws(2) sz]
  have s: "serve env portid action gen 0 (word_of_nat sz) (word_of_nat (length ws)) (concat (map enc ws)) st = ((rc, reason, detail), st2)"
    unfolding serve by (simp add: served_def st2_def add)
  have same: "v3_active st2 = v3_active st" unfolding st2_def by (rule active_served) (rule active)
  obtain u' where u': "v3_send_request_locked (kernel_net envs disp portid) action gen 0 (word_of_nat sz) (word_of_nat (length ws))
      (concat (map enc ws)) u = Some (if rc = None then V3_ACK_OK else V3_ACK_NACK, u')"
    "unchanged a0 u'" "kw_state (us_world u') = st2" "rc \<noteq> None \<longrightarrow> us_errno u' \<noteq> None"
    using request_unchanged [OF net u action _ s [unfolded env_def st_def] same [unfolded st_def]] fits(3) enc by auto
  have "staged (grow s) u'" if "rc = None" "staged s u" for s
  proof -
    have "v3_inv st" using u by (simp add: unchanged_def kernel_idle_def engine_ok_def st_def)
    moreover have "tx_set (v3_tx st) = Some s" using that by (simp add: staged_def st_def)
    ultimately have "tx_set (v3_tx st1) = Some (grow s)" using effect add that(1) by blast
    then show ?thesis using u'(3) that(1) by (simp add: staged_def st2_def served_def add)
  qed
  then show ?thesis
    using u' by (cases rc) (auto simp: send_batch_def Let_def fits(4))
qed

text \<open>The loop that fills batches, over any way of sending one: what the batches sent so far have achieved
  is \<open>Q\<close>, of the records in them.\<close>

lemma batch_loop_total:
  assumes send: "\<And>ws u. P u \<Longrightarrow> ws \<noteq> [] \<Longrightarrow> length ws \<le> 128 \<Longrightarrow> list_all good ws \<Longrightarrow>
      \<exists>ok u'. send ws u = Some (ok, u') \<and> P u' \<and> (\<not> ok \<longrightarrow> us_errno u' \<noteq> None) \<and> (ok \<longrightarrow> (\<forall>xs. Q xs u \<longrightarrow> Q (xs @ ws) u'))"
    and keeps: "\<And>e u. P u \<Longrightarrow> P (set_errno e u)"
    and conv: "\<And>s w. s \<in> set srcs \<Longrightarrow> conv s = Inr w \<Longrightarrow> good w"
    and start: "P u" "Q xs u" "length batch < 128" "list_all good batch"
  shows "\<exists>ok u'. batch_loop send conv srcs batch u = Some (ok, u') \<and> P u' \<and> (\<not> ok \<longrightarrow> us_errno u' \<noteq> None) \<and>
    (ok \<longrightarrow> Q (xs @ batch @ map (projr \<circ> conv) srcs) u')"
  using conv start
proof (induction srcs arbitrary: batch u xs)
  case Nil
  show ?case
  proof (cases "batch = []")
    case False
    obtain ok u' where "send batch u = Some (ok, u')" "P u'" "\<not> ok \<longrightarrow> us_errno u' \<noteq> None" "ok \<longrightarrow> (\<forall>xs. Q xs u \<longrightarrow> Q (xs @ batch) u')"
      using send [OF Nil.prems(2) False _ Nil.prems(5)] Nil.prems(4) by auto
    then show ?thesis using False Nil.prems(3) by simp
  next
    case True
    then show ?thesis using Nil.prems by (intro exI [of _ True] exI [of _ u]) simp
  qed
next
  case (Cons src srcs)
  show ?case
  proof (cases "conv src")
    case (Inl e)
    moreover have "us_errno (set_errno e u) \<noteq> None" by (simp add: set_errno_def)
    ultimately show ?thesis
      using keeps [OF Cons.prems(2), of e] by (intro exI [of _ False] exI [of _ "set_errno e u"]) simp
  next
    case (Inr w)
    have wf: "list_all good (batch @ [w])" using Cons.prems(1) [OF _ Inr] Cons.prems(5) by simp
    have convs: "\<And>s w. s \<in> set srcs \<Longrightarrow> conv s = Inr w \<Longrightarrow> good w" by (rule Cons.prems(1)) simp_all
    show ?thesis
    proof (cases "length batch + 1 = 128")
      case False
      have "length (batch @ [w]) < 128" using False Cons.prems(4) by simp
      from Cons.IH [OF convs Cons.prems(2,3) this wf] show ?thesis using False Inr by simp
    next
      case True
      have "length (batch @ [w]) \<le> 128" using True by simp
      from send [OF Cons.prems(2) _ this wf] obtain ok u' where u':
        "send (batch @ [w]) u = Some (ok, u')" "P u'" "\<not> ok \<longrightarrow> us_errno u' \<noteq> None" "ok \<longrightarrow> (\<forall>xs. Q xs u \<longrightarrow> Q (xs @ batch @ [w]) u')"
        by auto
      show ?thesis
      proof (cases ok)
        case True
        then have Q: "Q (xs @ batch @ [w]) u'" using u'(4) Cons.prems(3) by blast
        have "\<exists>ok u''. batch_loop send conv srcs [] u' = Some (ok, u'') \<and> P u'' \<and> (\<not> ok \<longrightarrow> us_errno u'' \<noteq> None) \<and>
            (ok \<longrightarrow> Q ((xs @ batch @ [w]) @ [] @ map (projr \<circ> conv) srcs) u'')"
          by (rule Cons.IH) (use convs u'(2) Q in auto)
        then show ?thesis
          using u'(1) True \<open>length batch + 1 = 128\<close> Inr by (simp add: comp_def)
      next
        case False
        then show ?thesis using u' Inr \<open>length batch + 1 = 128\<close> by (intro exI [of _ False] exI [of _ u']) simp
      qed
    qed
  qed
qed

subsection \<open>Records and checks\<close>

text \<open>The arrays of the catalogue have their C sizes.\<close>

definition chain_wf :: "chain_set \<Rightarrow> bool" where
  "chain_wf rs \<longleftrightarrow> length (ch_catalog_digest rs) = 32 \<and> list_all (\<lambda>s. length (cs_payload s) = 64) (ch_steps rs)"

lemma rule_to_wire_wf: "v3_rule_to_wire s = Inr w \<Longrightarrow> rule_wf w"
  by (auto simp: v3_rule_to_wire_def rule_wf_def split: if_splits)

lemma step_to_wire_wf: "v3_step_to_wire s = Inr w \<Longrightarrow> length (cs_payload s) = 64 \<Longrightarrow> step_wf w"
  by (auto simp: v3_step_to_wire_def step_wf_def split: if_splits)

lemma port_to_wire_wf: "v3_port_to_wire s = Inr w \<Longrightarrow> port_wf w"
  by (auto simp: v3_port_to_wire_def port_wf_def)

lemma preflight_loop_ok:
  "preflight_loop rs rules (n, ns, np, req) = Inr (n', ns', np', req') \<Longrightarrow>
    n' = n + length (filter (\<lambda>r. cr_active r \<noteq> 0) rules) \<and> (n \<le> UINT32_MAX \<longrightarrow> n' \<le> UINT32_MAX) \<and>
    (\<forall>r \<in> set rules. cr_active r \<noteq> 0 \<longrightarrow> check_rule rs r = None)"
  by (induction rules arbitrary: n ns np req) (force simp: Let_def not_less split: if_splits option.splits)+

lemma chain_steps_in:
  assumes "check_rule rs r = None" and "s \<in> set (chain_steps_of rs r)"
  shows "s \<in> set (ch_steps rs)"
proof -
  obtain j where j: "s = ch_steps rs ! unat (cr_first_step r + word_of_nat j)" "j < unat (cr_step_count r)"
    using assms(2) by (auto simp: chain_steps_of_def)
  have "unat (cr_first_step r + word_of_nat j) \<le> unat (cr_first_step r) + j"
    by (simp add: unat_word_ariths(1) unat_of_nat mod_add_right_eq)
  also have "\<dots> < length (ch_steps rs)"
    using assms(1) j(2) by (simp add: check_rule_def Let_def split: if_splits)
  finally show ?thesis using j(1) by simp
qed

lemma preflight_ok:
  assumes "v3_preflight_ruleset rs = Inr (rules, steps, ports, caps)" and "chain_wf rs"
  shows "(rules = 0 \<longleftrightarrow> active_rules rs = [])" and "\<forall>s \<in> set (active_steps rs). length (cs_payload s) = 64"
proof -
  obtain n ns np req where loop: "preflight_loop rs (ch_rules rs) (0, 0, 0, 0) = Inr (n, ns, np, req)" and "rules = word_of_nat n"
    using assms(1) by (auto simp: v3_preflight_ruleset_def split: sum.splits if_splits)
  moreover note L = preflight_loop_ok [OF loop]
  ultimately show "rules = 0 \<longleftrightarrow> active_rules rs = []"
    by (auto simp: active_rules_def UINT32_MAX_def word_unat_eq_iff unat_length)
  show "\<forall>s \<in> set (active_steps rs). length (cs_payload s) = 64"
  proof
    fix s
    assume "s \<in> set (active_steps rs)"
    then obtain r where "r \<in> set (active_rules rs)" "s \<in> set (chain_steps_of rs r)" by (auto simp: active_steps_def)
    then have "s \<in> set (ch_steps rs)" using L chain_steps_in by (auto simp: active_rules_def)
    then show "length (cs_payload s) = 64" using assms(2) by (auto simp: chain_wf_def list_all_iff)
  qed
qed

subsection \<open>All batches\<close>

definition rule_records :: "chain_set \<Rightarrow> rule_k list" where
  "rule_records rs = map (\<lambda>r. rule_of_wire (projr (v3_rule_to_wire r))) (active_rules rs)"

definition step_records :: "chain_set \<Rightarrow> step_k list" where
  "step_records rs = map (\<lambda>s. step_of_wire (projr (v3_step_to_wire s))) (active_steps rs)"

definition port_records :: "chain_set \<Rightarrow> port_k list" where
  "port_records rs = map (\<lambda>p. port_of_wire (projr (v3_port_to_wire p))) (active_ports rs)"

lemma rule_batches_kernel:
  assumes net: "answering envs disp portid" and gen: "gen \<noteq> 0" and u: "unchanged a0 u" and s: "staged s u"
  shows "\<exists>ok u'. v3_send_rule_batches_locked (kernel_net envs disp portid) rs gen u = Some (ok, u') \<and> unchanged a0 u' \<and>
    (\<not> ok \<longrightarrow> us_errno u' \<noteq> None) \<and> (ok \<longrightarrow> staged (s\<lparr>rs_rules := rs_rules s @ rule_records rs\<rparr>) u')"
proof -
  define Q where "Q xs = staged (s\<lparr>rs_rules := rs_rules s @ map rule_of_wire xs\<rparr>)" for xs
  have "\<exists>ok u'. batch_loop (send_batch (kernel_net envs disp portid) JMX_NL_ACT_RULE_V3_BATCH gen 24 enc_rule) v3_rule_to_wire
      (active_rules rs) [] u = Some (ok, u') \<and> unchanged a0 u' \<and> (\<not> ok \<longrightarrow> us_errno u' \<noteq> None) \<and>
      (ok \<longrightarrow> Q ([] @ [] @ map (projr \<circ> v3_rule_to_wire) (active_rules rs)) u')"
  proof (rule batch_loop_total [where P = "unchanged a0" and good = rule_wf])
    fix ws v
    assume v: "unchanged a0 v" and ws: "ws \<noteq> []" "length ws \<le> 128" "list_all rule_wf ws"
    show "\<exists>ok u'. send_batch (kernel_net envs disp portid) JMX_NL_ACT_RULE_V3_BATCH gen 24 enc_rule ws v = Some (ok, u') \<and>
        unchanged a0 u' \<and> (\<not> ok \<longrightarrow> us_errno u' \<noteq> None) \<and> (ok \<longrightarrow> (\<forall>xs. Q xs v \<longrightarrow> Q (xs @ ws) u'))"
      using send_batch_kernel [OF net v _ ws(1,2), of JMX_NL_ACT_RULE_V3_BATCH 24 enc_rule gen
          "\<lambda>env. jmx_v3_tx_add_rules env portid gen ws" "\<lambda>s. s\<lparr>rs_rules := rs_rules s @ map rule_of_wire ws\<rparr>"]
        serve_rules [OF gen ws] add_rules_effect rule_codec.length_image [OF ws(3)]
      by (fastforce simp: Q_def action_is_v3_def rule_codec.image_def)
  qed (use u s rule_to_wire_wf in \<open>simp_all add: Q_def\<close>)
  then show ?thesis by (simp add: v3_send_rule_batches_locked_def Q_def rule_records_def comp_def)
qed

lemma step_batches_kernel:
  assumes net: "answering envs disp portid" and gen: "gen \<noteq> 0" and u: "unchanged a0 u" and s: "staged s u"
    and payloads: "\<forall>x \<in> set (active_steps rs). length (cs_payload x) = 64"
  shows "\<exists>ok u'. v3_send_step_batches_locked (kernel_net envs disp portid) rs gen u = Some (ok, u') \<and> unchanged a0 u' \<and>
    (\<not> ok \<longrightarrow> us_errno u' \<noteq> None) \<and> (ok \<longrightarrow> staged (s\<lparr>rs_steps := rs_steps s @ step_records rs\<rparr>) u')"
proof -
  define Q where "Q xs = staged (s\<lparr>rs_steps := rs_steps s @ map step_of_wire xs\<rparr>)" for xs
  have "\<exists>ok u'. batch_loop (send_batch (kernel_net envs disp portid) JMX_NL_ACT_STEP_V3_BATCH gen 116 enc_step) v3_step_to_wire
      (active_steps rs) [] u = Some (ok, u') \<and> unchanged a0 u' \<and> (\<not> ok \<longrightarrow> us_errno u' \<noteq> None) \<and>
      (ok \<longrightarrow> Q ([] @ [] @ map (projr \<circ> v3_step_to_wire) (active_steps rs)) u')"
  proof (rule batch_loop_total [where P = "unchanged a0" and good = step_wf])
    fix ws v
    assume v: "unchanged a0 v" and ws: "ws \<noteq> []" "length ws \<le> 128" "list_all step_wf ws"
    show "\<exists>ok u'. send_batch (kernel_net envs disp portid) JMX_NL_ACT_STEP_V3_BATCH gen 116 enc_step ws v = Some (ok, u') \<and>
        unchanged a0 u' \<and> (\<not> ok \<longrightarrow> us_errno u' \<noteq> None) \<and> (ok \<longrightarrow> (\<forall>xs. Q xs v \<longrightarrow> Q (xs @ ws) u'))"
      using send_batch_kernel [OF net v _ ws(1,2), of JMX_NL_ACT_STEP_V3_BATCH 116 enc_step gen
          "\<lambda>env. jmx_v3_tx_add_steps env portid gen ws" "\<lambda>s. s\<lparr>rs_steps := rs_steps s @ map step_of_wire ws\<rparr>"]
        serve_steps [OF gen ws] add_steps_effect [OF _ _ ws(3)] step_codec.length_image [OF ws(3)]
      by (fastforce simp: Q_def action_is_v3_def step_codec.image_def)
  qed (use u s step_to_wire_wf payloads in \<open>simp_all add: Q_def\<close>)
  then show ?thesis by (simp add: v3_send_step_batches_locked_def Q_def step_records_def comp_def)
qed

lemma port_batches_kernel:
  assumes net: "answering envs disp portid" and gen: "gen \<noteq> 0" and u: "unchanged a0 u" and s: "staged s u"
  shows "\<exists>ok u'. v3_send_port_batches_locked (kernel_net envs disp portid) rs gen u = Some (ok, u') \<and> unchanged a0 u' \<and>
    (\<not> ok \<longrightarrow> us_errno u' \<noteq> None) \<and> (ok \<longrightarrow> staged (s\<lparr>rs_ports := rs_ports s @ port_records rs\<rparr>) u')"
proof -
  define Q where "Q xs = staged (s\<lparr>rs_ports := rs_ports s @ map port_of_wire xs\<rparr>)" for xs
  have "\<exists>ok u'. batch_loop (send_batch (kernel_net envs disp portid) JMX_NL_ACT_PORT_V3_BATCH gen 12 enc_port) v3_port_to_wire
      (active_ports rs) [] u = Some (ok, u') \<and> unchanged a0 u' \<and> (\<not> ok \<longrightarrow> us_errno u' \<noteq> None) \<and>
      (ok \<longrightarrow> Q ([] @ [] @ map (projr \<circ> v3_port_to_wire) (active_ports rs)) u')"
  proof (rule batch_loop_total [where P = "unchanged a0" and good = port_wf])
    fix ws v
    assume v: "unchanged a0 v" and ws: "ws \<noteq> []" "length ws \<le> 128" "list_all port_wf ws"
    show "\<exists>ok u'. send_batch (kernel_net envs disp portid) JMX_NL_ACT_PORT_V3_BATCH gen 12 enc_port ws v = Some (ok, u') \<and>
        unchanged a0 u' \<and> (\<not> ok \<longrightarrow> us_errno u' \<noteq> None) \<and> (ok \<longrightarrow> (\<forall>xs. Q xs v \<longrightarrow> Q (xs @ ws) u'))"
      using send_batch_kernel [OF net v _ ws(1,2), of JMX_NL_ACT_PORT_V3_BATCH 12 enc_port gen
          "\<lambda>env. jmx_v3_tx_add_ports env portid gen ws" "\<lambda>s. s\<lparr>rs_ports := rs_ports s @ map port_of_wire ws\<rparr>"]
        serve_ports [OF gen ws] add_ports_effect port_codec.length_image [OF ws(3)]
      by (fastforce simp: Q_def action_is_v3_def port_codec.image_def)
  qed (use u s port_to_wire_wf in \<open>simp_all add: Q_def\<close>)
  then show ?thesis by (simp add: v3_send_port_batches_locked_def Q_def port_records_def comp_def)
qed

lemma all_batches_kernel:
  assumes net: "answering envs disp portid" and gen: "gen \<noteq> 0" and u: "unchanged a0 u" and s: "staged s u"
    and payloads: "\<forall>x \<in> set (active_steps rs). length (cs_payload x) = 64"
  shows "\<exists>ok u'. send_all_batches (kernel_net envs disp portid) rs gen u = Some (ok, u') \<and> unchanged a0 u' \<and>
    (\<not> ok \<longrightarrow> us_errno u' \<noteq> None) \<and>
    (ok \<longrightarrow> staged (s\<lparr>rs_rules := rs_rules s @ rule_records rs, rs_steps := rs_steps s @ step_records rs,
                    rs_ports := rs_ports s @ port_records rs\<rparr>) u')"
proof -
  obtain ok1 u1 where r: "v3_send_rule_batches_locked (kernel_net envs disp portid) rs gen u = Some (ok1, u1)" "unchanged a0 u1"
    "\<not> ok1 \<longrightarrow> us_errno u1 \<noteq> None" "ok1 \<longrightarrow> staged (s\<lparr>rs_rules := rs_rules s @ rule_records rs\<rparr>) u1"
    using rule_batches_kernel [OF net gen u s] by blast
  show ?thesis
  proof (cases ok1)
    case True
    obtain ok2 u2 where t: "v3_send_step_batches_locked (kernel_net envs disp portid) rs gen u1 = Some (ok2, u2)" "unchanged a0 u2"
      "\<not> ok2 \<longrightarrow> us_errno u2 \<noteq> None"
      "ok2 \<longrightarrow> staged (s\<lparr>rs_rules := rs_rules s @ rule_records rs, rs_steps := rs_steps s @ step_records rs\<rparr>) u2"
      using step_batches_kernel [OF net gen r(2) r(4) [rule_format, OF True] payloads] by auto
    show ?thesis
    proof (cases ok2)
      case ok2: True
      show ?thesis
        using port_batches_kernel [OF net gen t(2) t(4) [rule_format, OF ok2], of rs] r(1) t(1) True ok2
        by (auto simp: send_all_batches_def)
    qed (use r t True in \<open>auto simp: send_all_batches_def\<close>)
  qed (use r in \<open>auto simp: send_all_batches_def\<close>)
qed

subsection \<open>Abort and commit\<close>

lemma abort_kernel:
  assumes net: "answering envs disp portid" and gen: "gen \<noteq> 0" and u: "unchanged a0 u"
  shows "\<exists>u'. push_abort_preserve (kernel_net envs disp portid) gen u = Some (False, u') \<and> unchanged a0 u' \<and>
    us_errno u' \<noteq> None \<and> gone portid gen u'"
proof -
  define env where "env = envs (kw_handled (us_world u))"
  define st where "st = kw_state (us_world u)"
  obtain rc reason detail st2 where ab: "jmx_v3_tx_abort env portid gen st = ((rc, reason, detail), st2)" by (metis prod_cases4 prod.collapse)
  have "v3_inv st" using u by (simp add: unchanged_def kernel_idle_def engine_ok_def st_def)
  from abort_effect [OF this, of env portid gen] ab
  have none: "tx_set (v3_tx st2) = None \<or> tx_owner_portid (v3_tx st2) \<noteq> portid \<or> tx_generation (v3_tx st2) \<noteq> gen" by simp
  have "v3_active st2 = v3_active st" using active_abort [of env portid gen st] ab by simp
  with request_unchanged [OF net u, of JMX_NL_ACT_RULESET_ABORT_V3 "[]" gen 0 0 0 rc reason detail st2] serve_abort [OF gen] ab
  obtain ack u' where "v3_send_request_locked (kernel_net envs disp portid) JMX_NL_ACT_RULESET_ABORT_V3 gen 0 0 0 [] u = Some (ack, u')"
    "unchanged a0 u'" "kw_state (us_world u') = st2"
    by (auto simp: action_is_v3_def env_def st_def)
  then show ?thesis
    using none by (auto simp: push_abort_preserve_def gone_def Let_def set_errno_def unchanged_def)
qed

lemma push_abort_kernel:
  assumes "answering envs disp portid" and "gen \<noteq> 0" and "unchanged a0 u"
  shows "\<exists>u'. push_abort (kernel_net envs disp portid) gen u = Some (False, u') \<and> unchanged a0 u' \<and>
    us_errno u' \<noteq> None \<and> gone portid gen u'"
  using abort_kernel [OF assms(1,2), of a0] assms(3) by (simp add: push_abort_def)

lemma commit_refused: "jmx_v3_tx_commit env owner gen st = ((Some e, x), st') \<Longrightarrow> v3_active st' = v3_active st"
  using active_owner [of env owner gen False st]
  by (auto simp: jmx_v3_tx_commit_def fail_with_def split: prod.splits option.splits)

text \<open>The catalogue that a successful push makes active.\<close>

lemma publishes_fields:
  assumes "publishes s s'"
  shows "map unlinked (rs_rules s') = rs_rules s" and "rs_steps s' = rs_steps s" and "rs_ports s' = rs_ports s"
    and "rs_generation s' = rs_generation s" and "rs_mode s' = rs_mode s" and "rs_catalog_digest s' = rs_catalog_digest s"
    and "rule_count s' = rule_count s" and "step_count s' = step_count s" and "port_count s' = port_count s"
proof -
  obtain ac stats where m: "map unlinked (rs_rules s') = rs_rules s"
    and e: "s' = s\<lparr>rs_rules := rs_rules s', rs_ac := ac, rs_ac_stats := stats\<rparr>"
    using assms by (auto simp: publishes_def)
  have "length (rs_rules s') = length (rs_rules s)" using m by (metis length_map)
  moreover have "rs_steps s' = rs_steps (s\<lparr>rs_rules := rs_rules s', rs_ac := ac, rs_ac_stats := stats\<rparr>)"
    "rs_ports s' = rs_ports (s\<lparr>rs_rules := rs_rules s', rs_ac := ac, rs_ac_stats := stats\<rparr>)"
    "rs_generation s' = rs_generation (s\<lparr>rs_rules := rs_rules s', rs_ac := ac, rs_ac_stats := stats\<rparr>)"
    "rs_mode s' = rs_mode (s\<lparr>rs_rules := rs_rules s', rs_ac := ac, rs_ac_stats := stats\<rparr>)"
    "rs_catalog_digest s' = rs_catalog_digest (s\<lparr>rs_rules := rs_rules s', rs_ac := ac, rs_ac_stats := stats\<rparr>)"
    using e by metis+
  ultimately show "map unlinked (rs_rules s') = rs_rules s" and "rs_steps s' = rs_steps s" and "rs_ports s' = rs_ports s"
    and "rs_generation s' = rs_generation s" and "rs_mode s' = rs_mode s" and "rs_catalog_digest s' = rs_catalog_digest s"
    and "rule_count s' = rule_count s" and "step_count s' = step_count s" and "port_count s' = port_count s"
    using m by (simp_all add: rule_count_def step_count_def port_count_def)
qed

lemma commit_kernel:
  assumes net: "answering envs disp portid" and gen: "gen \<noteq> 0" and u: "unchanged a0 u" and s: "staged s u"
    and b: "rs_rule_capacity s = bg_expected_rules b" "rs_step_capacity s = bg_expected_steps b"
      "rs_port_capacity s = bg_expected_ports b" "rs_catalog_digest s = bg_catalog_digest b" "rs_mode s = ucast mode"
  shows "\<exists>ok u'. push_commit (kernel_net envs disp portid) gen mode b u = Some (ok, u') \<and> kernel_idle (us_world u') \<and>
    (if ok then \<exists>s'. v3_active (kw_state (us_world u')) = Some s' \<and> publishes s s' \<and> rs_generation s = gen
     else unchanged a0 u' \<and> us_errno u' \<noteq> None \<and> gone portid gen u') \<and>
    (ok \<longleftrightarrow> fst (fst (jmx_v3_tx_commit (envs (kw_handled (us_world u))) portid gen (kw_state (us_world u)))) = None)"
proof -
  define env where "env = envs (kw_handled (us_world u))"
  define st where "st = kw_state (us_world u)"
  have idle: "kernel_idle (us_world u)" and inv: "v3_inv st"
    using u by (simp_all add: unchanged_def kernel_idle_def engine_ok_def st_def)
  have tx: "tx_set (v3_tx st) = Some s" using s by (simp add: staged_def st_def)
  obtain rc reason detail st2 where co: "jmx_v3_tx_commit env portid gen st = ((rc, reason, detail), st2)" by (metis prod_cases4 prod.collapse)
  then have serve: "serve env portid JMX_NL_ACT_RULESET_COMMIT_V3 gen 0 0 0 [] st = ((rc, reason, detail), st2)"
    using serve_commit [OF gen] by simp
  obtain u' where u': "v3_send_request_locked (kernel_net envs disp portid) JMX_NL_ACT_RULESET_COMMIT_V3 gen 0 0 0 [] u =
      Some (if rc = None then V3_ACK_OK else V3_ACK_NACK, u')"
    "us_world u' = (us_world u)\<lparr>kw_state := st2, kw_handled := kw_handled (us_world u) + 1\<rparr>" "kernel_idle (us_world u')"
    "us_status u' = kernel_status_of (answer JMX_NL_ACT_RULESET_COMMIT_V3 rc reason detail st2)"
    using request_delivered [OF net idle _ _ serve [unfolded env_def st_def]] by (auto simp: action_is_v3_def)
  show ?thesis
  proof (cases rc)
    case None
    obtain s' where s': "v3_active st2 = Some s'" "publishes s s'" "catalog_complete s" "rs_generation s = gen"
      using commit_effect [OF inv tx] co None by blast
    have "v3_status_matches (us_status u') gen (bg_expected_rules b) (bg_expected_steps b) (bg_expected_ports b) mode (bg_catalog_digest b)"
      using s'(1,3,4) publishes_fields [OF s'(2)] b
      by (auto simp: u'(4) v3_status_matches_def kernel_status_of_def status_of_def jmx_v3_get_snapshot_def Let_def catalog_complete_def)
    then have "push_commit (kernel_net envs disp portid) gen mode b u = Some (True, u')"
      using u'(1) None by (simp add: push_commit_def Let_def)
    then show ?thesis using s' u'(2,3) None co by (auto simp: env_def st_def)
  next
    case (Some e)
    have "unchanged a0 u'" using commit_refused co Some u u'(2,3) by (simp add: unchanged_def st_def)
    from push_abort_kernel [OF net gen this] show ?thesis
      using u'(1) Some co by (auto simp: push_commit_def unchanged_def Let_def env_def st_def)
  qed
qed

section \<open>The outcome of a push\<close>

text \<open>What a push of \<open>rs\<close> makes active: its active rules with their steps and ports, or nothing.\<close>

definition installed :: "chain_set \<Rightarrow> u32 \<Rightarrow> u8 \<Rightarrow> rule_set \<Rightarrow> bool" where
  "installed rs gen mode a \<longleftrightarrow> rs_generation a = gen \<and> published_ok a \<and>
     (if mode = 0 \<or> active_rules rs = []
      then rs_mode a = JMX_V3_MODE_OFF \<and> rs_rules a = [] \<and> rs_steps a = [] \<and> rs_ports a = [] \<and> rs_catalog_digest a = empty_digest
      else rs_mode a = ucast mode \<and> map unlinked (rs_rules a) = rule_records rs \<and> rs_steps a = step_records rs \<and>
           rs_ports a = port_records rs \<and> rs_catalog_digest a = ch_catalog_digest rs)"

lemma installed_off:
  assumes "publishes s a" and "mode = 0 \<or> active_rules rs = []" and "rs_generation s = gen"
    and "rs_rules s = []" "rs_steps s = []" "rs_ports s = []" "rs_mode s = 0" "rs_catalog_digest s = empty_digest"
  shows "installed rs gen mode a"
  using publishes_fields [OF assms(1)] assms by (auto simp: installed_def publishes_def)

lemma installed_on:
  assumes "publishes s a" and "mode \<noteq> 0" "active_rules rs \<noteq> []" and "rs_generation s = gen"
    and "rs_rules s = rule_records rs" "rs_steps s = step_records rs" "rs_ports s = port_records rs" "rs_mode s = ucast mode"
      "rs_catalog_digest s = ch_catalog_digest rs"
  shows "installed rs gen mode a"
proof -
  have "published_ok a" using assms(1) by (simp add: publishes_def)
  then show ?thesis using publishes_fields [OF assms(1)] assms(2-) by (simp add: installed_def)
qed

lemma mode_masked: "mode \<le> 2 \<Longrightarrow> (ucast (mode :: u8) :: u32) AND JMX_V3_TX_MODE_MASK = ucast mode"
proof -
  assume "mode \<le> 2"
  then have "mode = 0 \<or> mode = 1 \<or> mode = 2" by (simp add: word_le_nat_alt word_unat_eq_iff) linarith
  then show ?thesis by auto
qed

lemma push_begin_wf:
  "push_begin rs mode counts = (mode', b) \<Longrightarrow> chain_wf rs \<Longrightarrow> begin_wf b"
  by (auto simp: push_begin_def begin_wf_def chain_wf_def empty_digest_def split: prod.splits if_splits)

text \<open>The outcome of a push that started in state \<open>st\<close>.\<close>

definition all_or_nothing :: "chain_set \<Rightarrow> u32 \<Rightarrow> u8 \<Rightarrow> u32 \<Rightarrow> rule_set option \<Rightarrow> (bool \<times> kworld user) option \<Rightarrow> bool" where
  "all_or_nothing rs gen mode portid a0 result \<longleftrightarrow> (\<exists>ok u'. result = Some (ok, u') \<and> kernel_idle (us_world u') \<and>
     (if ok then \<exists>a. v3_active (kw_state (us_world u')) = Some a \<and> installed rs gen mode a
      else us_errno u' \<noteq> None \<and> v3_active (kw_state (us_world u')) = a0 \<and> gone portid gen u'))"

lemma aborted:
  assumes "answering envs disp portid" and "gen \<noteq> 0" and "unchanged a0 u"
  shows "all_or_nothing rs gen mode portid a0 (push_abort (kernel_net envs disp portid) gen u)"
  using push_abort_kernel [OF assms] by (auto simp: all_or_nothing_def unchanged_def)

lemma committed:
  assumes net: "answering envs disp portid" and gen: "gen \<noteq> 0" and u: "unchanged a0 u" and s: "staged s u"
    and b: "rs_rule_capacity s = bg_expected_rules b" "rs_step_capacity s = bg_expected_steps b"
      "rs_port_capacity s = bg_expected_ports b" "rs_catalog_digest s = bg_catalog_digest b" "rs_mode s = ucast mode'"
    and inst: "\<And>a. publishes s a \<Longrightarrow> rs_generation s = gen \<Longrightarrow> installed rs gen mode a"
  shows "all_or_nothing rs gen mode portid a0 (push_commit (kernel_net envs disp portid) gen mode' b u)"
proof -
  obtain ok u' where "push_commit (kernel_net envs disp portid) gen mode' b u = Some (ok, u')" "kernel_idle (us_world u')"
    "if ok then \<exists>s'. v3_active (kw_state (us_world u')) = Some s' \<and> publishes s s' \<and> rs_generation s = gen
     else unchanged a0 u' \<and> us_errno u' \<noteq> None \<and> gone portid gen u'"
    using commit_kernel [OF net gen u s b] by blast
  then show ?thesis
    using inst by (cases ok) (auto simp: all_or_nothing_def unchanged_def)
qed

lemma push_refused:
  assumes "gen = 0 \<or> 2 < mode \<or> v3_preflight_ruleset rs \<notin> range Inr"
  shows "\<exists>e u'. jmx_nl_push_chain_rules net rs gen mode u = Some (False, u') \<and> us_world u' = us_world u \<and> us_errno u' = Some e"
proof (cases "v3_preflight_ruleset rs")
  case (Inl e)
  then show ?thesis by (simp add: jmx_nl_push_chain_rules_def set_errno_def)
next
  case (Inr counts)
  then have "gen = 0 \<or> 2 < mode" using assms by auto
  then show ?thesis by (simp add: jmx_nl_push_chain_rules_def set_errno_def)
qed

lemma push_sent:
  assumes net: "answering envs disp portid" and idle: "kernel_idle (us_world u)" and shape: "chain_wf rs"
    and gen: "gen \<noteq> 0" and mode: "mode \<le> 2" and pre: "v3_preflight_ruleset rs = Inr (rules, steps, ports, caps)"
  shows "all_or_nothing rs gen mode portid (v3_active (kw_state (us_world u))) (jmx_nl_push_chain_rules (kernel_net envs disp portid) rs gen mode u)"
proof -
  define u0 where "u0 = u\<lparr>us_status := kernel_status_zero\<rparr>"
  define a0 where "a0 = v3_active (kw_state (us_world u))"
  define st where "st = kw_state (us_world u)"
  define env where "env = envs (kw_handled (us_world u))"
  obtain mode' b where pb: "push_begin rs mode (rules, steps, ports, caps) = (mode', b)" by fastforce
  note checked = preflight_ok [OF pre shape]
  have wf: "begin_wf b" by (rule push_begin_wf [OF pb shape])
  have u0: "unchanged a0 u0" using idle by (simp add: unchanged_def u0_def a0_def)
  obtain rc reason detail st2 where bg: "jmx_v3_tx_begin env portid gen (Some b) (ucast mode') st = ((rc, reason, detail), st2)"
    by (metis prod_cases4 prod.collapse)
  have len: "length (enc_begin b) + 32 < MAX_JMX_NETLINK_MSG_LEN" using begin_codec.length_enc [OF wf] by simp
  have serve: "serve (envs (kw_handled (us_world u0))) portid JMX_NL_ACT_RULESET_BEGIN_V3 gen (ucast mode') 48 1 (enc_begin b)
      (kw_state (us_world u0)) = ((rc, reason, detail), st2)"
    using serve_begin [OF gen wf] bg by (simp add: u0_def env_def st_def)
  have same: "v3_active st2 = v3_active (kw_state (us_world u0))"
    using active_begin [of env portid gen "Some b" "ucast mode'" st] unfolding bg by (simp add: u0_def st_def)
  obtain u1 where u1: "v3_send_request_locked (kernel_net envs disp portid) JMX_NL_ACT_RULESET_BEGIN_V3 gen (ucast mode') 48 1
      (enc_begin b) u0 = Some (if rc = None then V3_ACK_OK else V3_ACK_NACK, u1)"
    "unchanged a0 u1" "kw_state (us_world u1) = st2" "rc \<noteq> None \<longrightarrow> us_errno u1 \<noteq> None"
    using request_unchanged [OF net u0 _ len serve same] by (auto simp: action_is_v3_def)
  have push: "jmx_nl_push_chain_rules (kernel_net envs disp portid) rs gen mode u =
      (if rc \<noteq> None then push_abort (kernel_net envs disp portid) gen u1
       else do {
         (ok, u) \<leftarrow> (if bg_expected_rules b \<noteq> 0 then send_all_batches (kernel_net envs disp portid) rs gen u1 else Some (True, u1));
         if \<not> ok then push_abort (kernel_net envs disp portid) gen u else push_commit (kernel_net envs disp portid) gen mode' b u
       })"
  proof -
    have "\<not> (gen = 0 \<or> 2 < mode)" using gen mode by auto
    then show ?thesis using u1(1) pre pb by (simp add: jmx_nl_push_chain_rules_def u0_def Let_def del: not_less)
  qed
  define s where "s = begin_set gen (ucast mode') b"
  have "mode' \<le> 2" using pb mode by (auto simp: push_begin_def split: if_splits)
  then have m: "rs_mode s = ucast mode'" by (simp add: s_def begin_set_def mode_masked)
  have bf: "rs_rule_capacity s = bg_expected_rules b" "rs_step_capacity s = bg_expected_steps b"
    "rs_port_capacity s = bg_expected_ports b" "rs_catalog_digest s = bg_catalog_digest b"
    by (simp_all add: s_def begin_set_def)
  show ?thesis
  proof (cases rc)
    case (Some e)
    then show ?thesis using push aborted [OF net gen u1(2)] by (simp add: a0_def)
  next
    case None
    have st: "staged s u1" using begin_effect bg None u1(3) by (auto simp: staged_def s_def)
    show ?thesis
    proof (cases "bg_expected_rules b = 0")
      case True
      then have off: "mode = 0 \<or> active_rules rs = []" "mode' = 0" "bg_catalog_digest b = empty_digest"
        using pb checked(1) by (auto simp: push_begin_def split: if_splits)
      have "all_or_nothing rs gen mode portid a0 (push_commit (kernel_net envs disp portid) gen mode' b u1)"
      proof (rule committed [OF net gen u1(2) st])
        fix a
        assume "publishes s a" and "rs_generation s = gen"
        moreover have "rs_rules s = []" "rs_steps s = []" "rs_ports s = []" "rs_mode s = 0" "rs_catalog_digest s = empty_digest"
          using off m by (simp_all add: s_def begin_set_def)
        ultimately show "installed rs gen mode a" by (rule installed_off [OF _ off(1)])
      qed (simp_all add: m bf)
      then show ?thesis using push None True by (simp add: a0_def)
    next
      case False
      then have on: "mode \<noteq> 0" "active_rules rs \<noteq> []" "mode' = mode" "bg_catalog_digest b = ch_catalog_digest rs"
        using pb checked(1) shape by (auto simp: push_begin_def chain_wf_def split: if_splits)
      obtain ok u2 where u2: "send_all_batches (kernel_net envs disp portid) rs gen u1 = Some (ok, u2)" "unchanged a0 u2"
        "ok \<longrightarrow> staged (s\<lparr>rs_rules := rs_rules s @ rule_records rs, rs_steps := rs_steps s @ step_records rs,
           rs_ports := rs_ports s @ port_records rs\<rparr>) u2"
        using all_batches_kernel [OF net gen u1(2) st checked(2)] by blast
      show ?thesis
      proof (cases ok)
        case True
        have "all_or_nothing rs gen mode portid a0 (push_commit (kernel_net envs disp portid) gen mode' b u2)"
        proof (rule committed [OF net gen u2(2) u2(3) [rule_format, OF True]])
          fix a
          let ?s = "s\<lparr>rs_rules := rs_rules s @ rule_records rs, rs_steps := rs_steps s @ step_records rs,
              rs_ports := rs_ports s @ port_records rs\<rparr>"
          assume "publishes ?s a" and "rs_generation ?s = gen"
          moreover have "rs_rules ?s = rule_records rs" "rs_steps ?s = step_records rs" "rs_ports ?s = port_records rs"
              "rs_mode ?s = ucast mode" "rs_catalog_digest ?s = ch_catalog_digest rs"
            using on m by (simp_all add: s_def begin_set_def)
          ultimately show "installed rs gen mode a" by (rule installed_on [OF _ on(1,2)])
        qed (simp_all add: m bf)
        then show ?thesis using push None False u2(1) True by (simp add: a0_def)
      next
        case stop: False
        then show ?thesis using push None False u2(1) aborted [OF net gen u2(2)] by (simp add: a0_def)
      qed
    qed
  qed
qed

end
