(* ===== verification/V3Install.thy ===== *)
theory V3Install
  imports V3Delivery
begin

text \<open>
  Liveness of the push.  On any network whose clock runs, every request and the whole push return; and
  a catalogue that the module's own checks accept is installed when the module answers, has memory
  and no transaction is open.
\<close>

unbundle bit_operations_syntax

section \<open>The push returns\<close>

text \<open>The clock runs: before any time \<open>d\<close> it can only be read finitely often, where \<open>m\<close> bounds the
  number of readings that are left and no other call of the loop takes one back.\<close>

definition clock_runs :: "'w net \<Rightarrow> bool" where
  "clock_runs net \<longleftrightarrow> (\<forall>d. \<exists>m :: 'w \<Rightarrow> nat. \<forall>w.
     (\<forall>ms. fst (nt_clock net w) = Inr ms \<longrightarrow> d \<le> ms \<or> m (snd (nt_clock net w)) < m w) \<and>
     (\<forall>t. m (snd (nt_poll net t w)) \<le> m w) \<and> m (snd (nt_recvmsg net w)) \<le> m w)"

lemma round_progress:
  assumes m: "\<And>w. (\<forall>ms. fst (nt_clock net w) = Inr ms \<longrightarrow> deadline \<le> ms \<or> m (snd (nt_clock net w)) < m w) \<and>
      (\<forall>t. m (snd (nt_poll net t w)) \<le> m w) \<and> m (snd (nt_recvmsg net w)) \<le> m w"
    and round: "wait_round net action gen seq deadline u = (None, u')"
  shows "m (us_world u') < (m (us_world u) :: nat)"
proof -
  obtain r w1 where clock: "nt_clock net (us_world u) = (r, w1)" by fastforce
  obtain ms where r: "r = Inr ms" "\<not> deadline \<le> ms"
    using round clock by (cases r) (auto simp: wait_round_def v3_monotonic_ms_def set_errno_def split: if_splits)
  have w1: "m w1 < m (us_world u)" using m [of "us_world u"] clock r by auto
  obtain p w2 where poll: "nt_poll net (deadline - ms) w1 = (p, w2)" by fastforce
  have w2: "m w2 \<le> m w1" using m [of w1] poll by (metis snd_conv)
  obtain d w3 where recv: "nt_recvmsg net w2 = (d, w3)" by fastforce
  have w3: "m w3 \<le> m w2" using m [of w2] recv by (metis snd_conv)
  have "us_world u' = w2 \<or> us_world u' = w3"
    using round clock r poll recv
    by (auto simp: wait_round_def v3_monotonic_ms_def set_errno_def Let_def
        split: if_splits poll_result.splits sum.splits option.splits prod.splits)
  then show ?thesis using w1 w2 w3 by auto
qed

text \<open>A loop whose every further round lowers a measure returns.\<close>

lemma loop_returns:
  assumes loop: "\<And>u. loop u = (case round u of (Some a, u') \<Rightarrow> Some (a, u') | (None, u') \<Rightarrow> loop u')"
    and lower: "\<And>u u'. round u = (None, u') \<Longrightarrow> (m u' :: nat) < m u"
  shows "\<exists>a u'. loop u = Some (a, u')"
proof (induction "m u" arbitrary: u rule: less_induct)
  case less
  obtain r u1 where round: "round u = (r, u1)" by fastforce
  show ?case
  proof (cases r)
    case None
    then show ?thesis using less [of u1] lower round loop [of u] by simp
  qed (simp add: loop [of u] round)
qed

lemma wait_returns:
  assumes "clock_runs net"
  shows "\<exists>ack u'. v3_wait_loop net action gen seq deadline u = Some (ack, u')"
proof -
  obtain m :: "'a \<Rightarrow> nat" where m: "\<And>w. (\<forall>ms. fst (nt_clock net w) = Inr ms \<longrightarrow> deadline \<le> ms \<or> m (snd (nt_clock net w)) < m w) \<and>
      (\<forall>t. m (snd (nt_poll net t w)) \<le> m w) \<and> m (snd (nt_recvmsg net w)) \<le> m w"
    using assms unfolding clock_runs_def by blast
  show ?thesis
    by (rule loop_returns [where round = "wait_round net action gen seq deadline" and m = "\<lambda>u. m (us_world u)"])
      (rule v3_wait_loop.simps, rule round_progress [OF m])
qed

lemma request_returns:
  assumes "clock_runs net"
  shows "\<exists>ack u'. v3_send_request_locked net action gen flags rsize count payload u = Some (ack, u')"
  using wait_returns [OF assms]
  by (auto simp: v3_send_request_locked_def v3_wait_status_locked_def Let_def split: option.split prod.split bool.split)

text \<open>A computation that returns, in the state-passing style of the push.\<close>

definition returns :: "('a \<times> 'w user) option \<Rightarrow> bool" where
  "returns r \<longleftrightarrow> (\<exists>x u'. r = Some (x, u'))"

lemma returns_Some [simp]: "returns (Some r)"
  by (cases r) (simp add: returns_def)

lemma returns_bind: "returns r \<Longrightarrow> (\<And>x u'. r = Some (x, u') \<Longrightarrow> returns (f (x, u'))) \<Longrightarrow> returns (Option.bind r f)"
  by (auto simp: returns_def)

lemma returns_request [simp]: "clock_runs net \<Longrightarrow> returns (v3_send_request_locked net action gen flags rsize count payload u)"
  using request_returns unfolding returns_def by blast

lemma returns_batch: "clock_runs net \<Longrightarrow> returns (send_batch net action gen sz enc batch u)"
  by (auto simp: send_batch_def Let_def split: option.split intro!: returns_bind)

lemma returns_batch_loop:
  assumes "\<And>ws v. returns (send ws v)"
  shows "returns (batch_loop send conv srcs batch u)"
proof (induction srcs arbitrary: batch u)
  case (Cons src srcs)
  then show ?case using assms by (auto split: sum.split intro!: returns_bind)
qed (use assms in simp)

lemma returns_batches [simp]:
  assumes "clock_runs net"
  shows "returns (send_all_batches net rs gen u)"
  by (auto simp: send_all_batches_def v3_send_rule_batches_locked_def v3_send_step_batches_locked_def
      v3_send_port_batches_locked_def intro!: returns_bind returns_batch_loop returns_batch [OF assms])

lemma returns_abort [simp]: "clock_runs net \<Longrightarrow> returns (push_abort_preserve net gen u)" "clock_runs net \<Longrightarrow> returns (push_abort net gen u)"
  by (auto simp: push_abort_def push_abort_preserve_def Let_def intro!: returns_bind)

lemma returns_commit: "clock_runs net \<Longrightarrow> returns (push_commit net gen mode b u)"
  by (auto simp: push_commit_def v3_reconcile_status_locked_def Let_def intro!: returns_bind)

lemma returns_push: "clock_runs net \<Longrightarrow> returns (jmx_nl_push_chain_rules net rs gen mode u)"
  by (auto simp: jmx_nl_push_chain_rules_def Let_def returns_commit split: sum.split prod.split intro!: returns_bind)

lemma returns_status: "clock_runs net \<Longrightarrow> returns (jmx_nl_v3_probe net u)" "clock_runs net \<Longrightarrow> returns (jmx_nl_v3_status net gen u)"
  by (auto simp: jmx_nl_v3_probe_def jmx_nl_v3_status_def intro!: returns_bind)

section \<open>A catalogue that the module accepts\<close>

subsection \<open>Batches of an accepted array\<close>

context staged_append
begin

text \<open>An array that the loop accepts as a whole is accepted in consecutive batches.\<close>

lemma app_chunk:
  assumes "app [] (a @ b @ c) at0 = Inr zs"
  shows "app (take (length a) zs) b at = Inr (take (length a + length b) zs)"
proof -
  have ys: "length zs = length (a @ b @ c)" "\<forall>i < length (a @ b @ c). conv (take i zs) ((a @ b @ c) ! i) = Inr (zs ! i)"
    using app_Inr [OF assms] by auto
  let ?ys = "take (length b) (drop (length a) zs)"
  have "conv (take (length a) zs @ take i ?ys) (b ! i) = Inr (?ys ! i)" if "i < length b" for i
  proof -
    have "take (length a) zs @ take i ?ys = take (length a + i) zs"
      using that by (simp add: take_add min_def)
    moreover have "(a @ b @ c) ! (length a + i) = b ! i" using that by (simp add: nth_append)
    moreover have "conv (take (length a + i) zs) ((a @ b @ c) ! (length a + i)) = Inr (zs ! (length a + i))"
      by (rule ys(2) [rule_format]) (use that in simp)
    moreover have "?ys ! i = zs ! (length a + i)" using that ys(1) by simp
    ultimately show ?thesis by simp
  qed
  then have "app (take (length a) zs) b at = Inr (take (length a) zs @ ?ys)"
    by (intro app_complete) (use ys(1) in auto)
  then show ?thesis by (simp add: take_add)
qed

end

text \<open>The environment does not change while the push runs: no time passes in the module, and it has memory.\<close>

definition steady :: "kernel_env \<Rightarrow> bool" where
  "steady env \<longleftrightarrow> (\<forall>site. alloc_ok env site) \<and> 0 < hz env \<and> hz env < 2 ^ 50"

lemma fresh_deadline: "steady env \<Longrightarrow> \<not> time_after_eq (jiffies env) (jiffies env + JMX_V3_TX_TIMEOUT env)"
proof -
  assume "steady env"
  then have h: "0 < unat (hz env)" "unat (hz env) < 2 ^ 50" by (auto simp: steady_def word_less_nat_alt)
  have t: "unat (JMX_V3_TX_TIMEOUT env) = 30 * unat (hz env)"
    using h by (simp add: JMX_V3_TX_TIMEOUT_def unat_word_ariths)
  show ?thesis by (rule time_after_eq_add) (use h in \<open>simp_all add: t\<close>)
qed

subsection \<open>Batches into a live transaction\<close>

lemma live_renewed:
  assumes "steady env" and "live env owner gen st s" and "rs_generation s' = rs_generation s"
  shows "live env owner gen (renew_transaction_locked env (set_staged s' st)) s'"
  using assms fresh_deadline [OF assms(1)] by (simp add: live_def renew_transaction_locked_def set_staged_def)

lemma room:
  assumes "n + k \<le> unat (cap :: u32)"
  shows "\<not> cap - word_of_nat n < word_of_nat k"
proof -
  have "unat cap < 2 ^ 32" using unsigned_less [of cap, where 'a = nat] by simp
  then have "unat (word_of_nat n :: u32) = n" "unat (word_of_nat k :: u32) = k"
    using assms by (auto intro!: unat_length)
  then show ?thesis using assms by (subst word_less_nat_alt) (subst unat_sub, auto simp: word_le_nat_alt)
qed

lemma add_rules_accepted:
  assumes env: "steady env" and live: "live env owner gen st s" and ok: "\<not> tx_failed (v3_tx st)"
    and all: "append_rules (rs_declared_caps s) [] (xs @ ws @ rest) 0 = Inr zs" and rules: "rs_rules s = map rule_of_wire xs"
    and cap: "length (xs @ ws @ rest) \<le> unat (rs_rule_capacity s)"
  shows "\<exists>x st'. jmx_v3_tx_add_rules env owner gen ws st = ((None, x), st') \<and>
    live env owner gen st' (s\<lparr>rs_rules := map rule_of_wire (xs @ ws)\<rparr>) \<and> \<not> tx_failed (v3_tx st')"
proof -
  have "zs = map rule_of_wire (xs @ ws @ rest)" using append_rules_ok(1) [OF all] by (simp add: rules_sorted_def)
  then have app: "append_rules (rs_declared_caps s) (rs_rules s) ws at = Inr (map rule_of_wire (xs @ ws))" for at
    using rules_loop.app_chunk [OF all, of at] rules by simp
  have fits: "\<not> rs_rule_capacity s - rule_count s < word_of_nat (length ws)"
    using room [of "length xs" "length ws" "rs_rule_capacity s"] cap rules by (simp add: rule_count_def)
  show ?thesis
    using live_check [OF live] live_staged [OF live] live_renewed [OF env live] ok app fits
    by (simp add: jmx_v3_tx_add_rules_def Let_def) (simp add: renew_transaction_locked_def set_staged_def)
qed

lemma add_steps_accepted:
  assumes env: "steady env" and live: "live env owner gen st s" and ok: "\<not> tx_failed (v3_tx st)"
    and all: "append_steps [] (xs @ ws @ rest) 0 = Inr zs" and steps: "rs_steps s = map step_of_wire xs"
    and shape: "list_all step_wf (xs @ ws @ rest)" and cap: "length (xs @ ws @ rest) \<le> unat (rs_step_capacity s)"
  shows "\<exists>x st'. jmx_v3_tx_add_steps env owner gen ws st = ((None, x), st') \<and>
    live env owner gen st' (s\<lparr>rs_steps := map step_of_wire (xs @ ws)\<rparr>) \<and> \<not> tx_failed (v3_tx st')"
proof -
  have "zs = map step_of_wire (xs @ ws @ rest)" using append_steps_ok(1) [OF all _ _ shape] by (simp add: steps_sorted_def)
  then have app: "append_steps (rs_steps s) ws at = Inr (map step_of_wire (xs @ ws))" for at
    using steps_loop.app_chunk [OF all, of at] steps by simp
  have fits: "\<not> rs_step_capacity s - step_count s < word_of_nat (length ws)"
    using room [of "length xs" "length ws" "rs_step_capacity s"] cap steps by (simp add: step_count_def)
  show ?thesis
    using live_check [OF live] live_staged [OF live] live_renewed [OF env live] ok app fits
    by (simp add: jmx_v3_tx_add_steps_def Let_def) (simp add: renew_transaction_locked_def set_staged_def)
qed

lemma add_ports_accepted:
  assumes env: "steady env" and live: "live env owner gen st s" and ok: "\<not> tx_failed (v3_tx st)"
    and all: "append_ports [] (xs @ ws @ rest) 0 = Inr zs" and ports: "rs_ports s = map port_of_wire xs"
    and cap: "length (xs @ ws @ rest) \<le> unat (rs_port_capacity s)"
  shows "\<exists>x st'. jmx_v3_tx_add_ports env owner gen ws st = ((None, x), st') \<and>
    live env owner gen st' (s\<lparr>rs_ports := map port_of_wire (xs @ ws)\<rparr>) \<and> \<not> tx_failed (v3_tx st')"
proof -
  have "zs = map port_of_wire (xs @ ws @ rest)" using append_ports_ok(1) [OF all] by (simp add: ports_sorted_def)
  then have app: "append_ports (rs_ports s) ws at = Inr (map port_of_wire (xs @ ws))" for at
    using ports_loop.app_chunk [OF all, of at] ports by simp
  have fits: "\<not> rs_port_capacity s - port_count s < word_of_nat (length ws)"
    using room [of "length xs" "length ws" "rs_port_capacity s"] cap ports by (simp add: port_count_def)
  show ?thesis
    using live_check [OF live] live_staged [OF live] live_renewed [OF env live] ok app fits
    by (simp add: jmx_v3_tx_add_ports_def Let_def) (simp add: renew_transaction_locked_def set_staged_def)
qed

text \<open>The loop of batches when each batch is accepted.\<close>

lemma batch_loop_accepted:
  assumes send: "\<And>ws u xs rest. Q xs u \<Longrightarrow> ws \<noteq> [] \<Longrightarrow> length ws \<le> 128 \<Longrightarrow> xs @ ws @ rest = goal \<Longrightarrow>
      \<exists>u'. send ws u = Some (True, u') \<and> Q (xs @ ws) u'"
    and conv: "\<forall>s \<in> set srcs. conv s = Inr (f s)"
    and start: "Q xs u" "xs @ batch @ map f srcs = goal" "length batch < 128"
  shows "\<exists>u'. batch_loop send conv srcs batch u = Some (True, u') \<and> Q goal u'"
  using conv start
proof (induction srcs arbitrary: batch u xs)
  case Nil
  then show ?case using send [of xs u batch "[]"] by (cases "batch = []") auto
next
  case (Cons src srcs)
  show ?case
  proof (cases "length batch + 1 = 128")
    case False
    then have "\<exists>u'. batch_loop send conv srcs (batch @ [f src]) u = Some (True, u') \<and> Q goal u'"
      using Cons.prems by (intro Cons.IH [of xs u]) auto
    then show ?thesis using Cons.prems(1) False by simp
  next
    case True
    obtain u' where u': "send (batch @ [f src]) u = Some (True, u')" "Q (xs @ batch @ [f src]) u'"
      using send [of xs u "batch @ [f src]" "map f srcs"] Cons.prems True by auto
    have "\<exists>u''. batch_loop send conv srcs [] u' = Some (True, u'') \<and> Q goal u''"
      using Cons.prems u'(2) by (intro Cons.IH [of "xs @ batch @ [f src]" u']) auto
    then show ?thesis using Cons.prems(1) True u'(1) by simp
  qed
qed

subsection \<open>The kernel while a catalogue is loaded\<close>

definition loading :: "kernel_env \<Rightarrow> u32 \<Rightarrow> u32 \<Rightarrow> rule_set \<Rightarrow> kworld user \<Rightarrow> bool" where
  "loading env portid gen s u \<longleftrightarrow> kernel_idle (us_world u) \<and> live env portid gen (kw_state (us_world u)) s \<and>
     \<not> tx_failed (v3_tx (kw_state (us_world u)))"

lemma send_batch_accepted:
  assumes net: "answering (\<lambda>_. env) disp portid" and u: "loading env portid gen s u" and action: "action_is_v3 action"
    and ws: "ws \<noteq> []" "length ws \<le> 128" and sz: "0 < sz" "sz \<le> 116" and enc: "length (concat (map enc ws)) = length ws * sz"
    and serve: "\<And>st. serve env portid action gen 0 (word_of_nat sz) (word_of_nat (length ws)) (concat (map enc ws)) st =
      served env portid gen (add st)"
    and accepted: "\<exists>x st'. add (kw_state (us_world u)) = ((None, x), st') \<and> live env portid gen st' s' \<and> \<not> tx_failed (v3_tx st')"
  shows "\<exists>u'. send_batch (kernel_net (\<lambda>_. env) disp portid) action gen sz enc ws u = Some (True, u') \<and> loading env portid gen s' u'"
proof -
  obtain reason detail st' where add: "add (kw_state (us_world u)) = ((None, reason, detail), st')"
    "live env portid gen st' s'" "\<not> tx_failed (v3_tx st')"
    using accepted by auto
  note fits = count_fits [OF ws(2) sz]
  have s: "serve env portid action gen 0 (word_of_nat sz) (word_of_nat (length ws)) (concat (map enc ws)) (kw_state (us_world u)) =
      ((None, reason, detail), st')"
    unfolding serve by (simp add: served_def add)
  have idle: "kernel_idle (us_world u)" using u by (simp add: loading_def)
  obtain u' where "v3_send_request_locked (kernel_net (\<lambda>_. env) disp portid) action gen 0 (word_of_nat sz) (word_of_nat (length ws))
      (concat (map enc ws)) u = Some (V3_ACK_OK, u')" "kw_state (us_world u') = st'" "kernel_idle (us_world u')"
    using request_delivered [OF net idle action _ s] fits(3) enc by auto
  then show ?thesis
    using add(2,3) by (auto simp: send_batch_def Let_def fits(4) loading_def)
qed

lemma no_records: "rs_rules s = [] \<Longrightarrow> s\<lparr>rs_rules := []\<rparr> = s" "rs_steps s = [] \<Longrightarrow> s\<lparr>rs_steps := []\<rparr> = s"
  "rs_ports s = [] \<Longrightarrow> s\<lparr>rs_ports := []\<rparr> = s"
  by (cases s; simp)+

lemma rule_batches_accepted:
  assumes net: "answering (\<lambda>_. env) disp portid" and env: "steady env" and gen: "gen \<noteq> 0" and u: "loading env portid gen s u"
    and conv: "\<forall>r \<in> set (active_rules rs). v3_rule_to_wire r = Inr (projr (v3_rule_to_wire r))" and empty: "rs_rules s = []"
    and all: "append_rules (rs_declared_caps s) [] (map (projr \<circ> v3_rule_to_wire) (active_rules rs)) 0 = Inr zs"
    and cap: "length (active_rules rs) \<le> unat (rs_rule_capacity s)"
  shows "\<exists>u'. v3_send_rule_batches_locked (kernel_net (\<lambda>_. env) disp portid) rs gen u = Some (True, u') \<and>
    loading env portid gen (s\<lparr>rs_rules := rule_records rs\<rparr>) u'"
proof -
  define goal where "goal = map (projr \<circ> v3_rule_to_wire) (active_rules rs)"
  define Q where "Q xs = loading env portid gen (s\<lparr>rs_rules := map rule_of_wire xs\<rparr>)" for xs
  have wf: "list_all rule_wf goal" using conv rule_to_wire_wf by (auto simp: goal_def list_all_iff)
  have "\<exists>u'. batch_loop (send_batch (kernel_net (\<lambda>_. env) disp portid) JMX_NL_ACT_RULE_V3_BATCH gen 24 enc_rule) v3_rule_to_wire
      (active_rules rs) [] u = Some (True, u') \<and> Q goal u'"
  proof (rule batch_loop_accepted [where Q = Q and goal = goal and f = "projr \<circ> v3_rule_to_wire" and xs = "[]"])
    fix ws v xs rest
    assume v: "Q xs v" and ws: "ws \<noteq> []" "length ws \<le> 128" and split: "xs @ ws @ rest = goal"
    let ?s = "s\<lparr>rs_rules := map rule_of_wire xs\<rparr>"
    have wfs: "list_all rule_wf ws" using wf unfolding split [symmetric] by simp
    have l: "live env portid gen (kw_state (us_world v)) ?s" "\<not> tx_failed (v3_tx (kw_state (us_world v)))"
      using v by (simp_all add: Q_def loading_def)
    have "\<exists>x st'. jmx_v3_tx_add_rules env portid gen ws (kw_state (us_world v)) = ((None, x), st') \<and>
        live env portid gen st' (?s\<lparr>rs_rules := map rule_of_wire (xs @ ws)\<rparr>) \<and> \<not> tx_failed (v3_tx st')"
      by (rule add_rules_accepted [OF env l, where rest = rest])
        (use all cap in \<open>simp_all add: split goal_def\<close>)
    with send_batch_accepted [OF net v [unfolded Q_def] _ ws, of JMX_NL_ACT_RULE_V3_BATCH 24 enc_rule "jmx_v3_tx_add_rules env portid gen ws"]
      serve_rules [OF gen ws wfs] rule_codec.length_image [OF wfs]
    show "\<exists>u'. send_batch (kernel_net (\<lambda>_. env) disp portid) JMX_NL_ACT_RULE_V3_BATCH gen 24 enc_rule ws v = Some (True, u') \<and>
        Q (xs @ ws) u'"
      by (simp add: Q_def action_is_v3_def rule_codec.image_def)
  qed (use u conv empty in \<open>simp_all add: Q_def goal_def no_records\<close>)
  then show ?thesis by (simp add: v3_send_rule_batches_locked_def Q_def goal_def rule_records_def comp_def)
qed

lemma step_batches_accepted:
  assumes net: "answering (\<lambda>_. env) disp portid" and env: "steady env" and gen: "gen \<noteq> 0" and u: "loading env portid gen s u"
    and conv: "\<forall>x \<in> set (active_steps rs). v3_step_to_wire x = Inr (projr (v3_step_to_wire x)) \<and> length (cs_payload x) = 64"
    and empty: "rs_steps s = []"
    and all: "append_steps [] (map (projr \<circ> v3_step_to_wire) (active_steps rs)) 0 = Inr zs"
    and cap: "length (active_steps rs) \<le> unat (rs_step_capacity s)"
  shows "\<exists>u'. v3_send_step_batches_locked (kernel_net (\<lambda>_. env) disp portid) rs gen u = Some (True, u') \<and>
    loading env portid gen (s\<lparr>rs_steps := step_records rs\<rparr>) u'"
proof -
  define goal where "goal = map (projr \<circ> v3_step_to_wire) (active_steps rs)"
  define Q where "Q xs = loading env portid gen (s\<lparr>rs_steps := map step_of_wire xs\<rparr>)" for xs
  have wf: "list_all step_wf goal" using conv step_to_wire_wf by (auto simp: goal_def list_all_iff)
  have "\<exists>u'. batch_loop (send_batch (kernel_net (\<lambda>_. env) disp portid) JMX_NL_ACT_STEP_V3_BATCH gen 116 enc_step) v3_step_to_wire
      (active_steps rs) [] u = Some (True, u') \<and> Q goal u'"
  proof (rule batch_loop_accepted [where Q = Q and goal = goal and f = "projr \<circ> v3_step_to_wire" and xs = "[]"])
    fix ws v xs rest
    assume v: "Q xs v" and ws: "ws \<noteq> []" "length ws \<le> 128" and split: "xs @ ws @ rest = goal"
    let ?s = "s\<lparr>rs_steps := map step_of_wire xs\<rparr>"
    have wfs: "list_all step_wf ws" using wf unfolding split [symmetric] by simp
    have l: "live env portid gen (kw_state (us_world v)) ?s" "\<not> tx_failed (v3_tx (kw_state (us_world v)))"
      using v by (simp_all add: Q_def loading_def)
    have "\<exists>x st'. jmx_v3_tx_add_steps env portid gen ws (kw_state (us_world v)) = ((None, x), st') \<and>
        live env portid gen st' (?s\<lparr>rs_steps := map step_of_wire (xs @ ws)\<rparr>) \<and> \<not> tx_failed (v3_tx st')"
      by (rule add_steps_accepted [OF env l, where rest = rest])
        (use all cap wf in \<open>simp_all add: split goal_def\<close>)
    with send_batch_accepted [OF net v [unfolded Q_def] _ ws, of JMX_NL_ACT_STEP_V3_BATCH 116 enc_step "jmx_v3_tx_add_steps env portid gen ws"]
      serve_steps [OF gen ws wfs] step_codec.length_image [OF wfs]
    show "\<exists>u'. send_batch (kernel_net (\<lambda>_. env) disp portid) JMX_NL_ACT_STEP_V3_BATCH gen 116 enc_step ws v = Some (True, u') \<and>
        Q (xs @ ws) u'"
      by (simp add: Q_def action_is_v3_def step_codec.image_def)
  qed (use u conv empty in \<open>simp_all add: Q_def goal_def no_records\<close>)
  then show ?thesis by (simp add: v3_send_step_batches_locked_def Q_def goal_def step_records_def comp_def)
qed

lemma port_batches_accepted:
  assumes net: "answering (\<lambda>_. env) disp portid" and env: "steady env" and gen: "gen \<noteq> 0" and u: "loading env portid gen s u"
    and empty: "rs_ports s = []"
    and all: "append_ports [] (map (projr \<circ> v3_port_to_wire) (active_ports rs)) 0 = Inr zs"
    and cap: "length (active_ports rs) \<le> unat (rs_port_capacity s)"
  shows "\<exists>u'. v3_send_port_batches_locked (kernel_net (\<lambda>_. env) disp portid) rs gen u = Some (True, u') \<and>
    loading env portid gen (s\<lparr>rs_ports := port_records rs\<rparr>) u'"
proof -
  define goal where "goal = map (projr \<circ> v3_port_to_wire) (active_ports rs)"
  define Q where "Q xs = loading env portid gen (s\<lparr>rs_ports := map port_of_wire xs\<rparr>)" for xs
  have wf: "list_all port_wf goal" by (auto simp: goal_def list_all_iff v3_port_to_wire_def port_wf_def)
  have "\<exists>u'. batch_loop (send_batch (kernel_net (\<lambda>_. env) disp portid) JMX_NL_ACT_PORT_V3_BATCH gen 12 enc_port) v3_port_to_wire
      (active_ports rs) [] u = Some (True, u') \<and> Q goal u'"
  proof (rule batch_loop_accepted [where Q = Q and goal = goal and f = "projr \<circ> v3_port_to_wire" and xs = "[]"])
    fix ws v xs rest
    assume v: "Q xs v" and ws: "ws \<noteq> []" "length ws \<le> 128" and split: "xs @ ws @ rest = goal"
    let ?s = "s\<lparr>rs_ports := map port_of_wire xs\<rparr>"
    have wfs: "list_all port_wf ws" using wf unfolding split [symmetric] by simp
    have l: "live env portid gen (kw_state (us_world v)) ?s" "\<not> tx_failed (v3_tx (kw_state (us_world v)))"
      using v by (simp_all add: Q_def loading_def)
    have "\<exists>x st'. jmx_v3_tx_add_ports env portid gen ws (kw_state (us_world v)) = ((None, x), st') \<and>
        live env portid gen st' (?s\<lparr>rs_ports := map port_of_wire (xs @ ws)\<rparr>) \<and> \<not> tx_failed (v3_tx st')"
      by (rule add_ports_accepted [OF env l, where rest = rest])
        (use all cap in \<open>simp_all add: split goal_def\<close>)
    with send_batch_accepted [OF net v [unfolded Q_def] _ ws, of JMX_NL_ACT_PORT_V3_BATCH 12 enc_port "jmx_v3_tx_add_ports env portid gen ws"]
      serve_ports [OF gen ws wfs] port_codec.length_image [OF wfs]
    show "\<exists>u'. send_batch (kernel_net (\<lambda>_. env) disp portid) JMX_NL_ACT_PORT_V3_BATCH gen 12 enc_port ws v = Some (True, u') \<and>
        Q (xs @ ws) u'"
      by (simp add: Q_def action_is_v3_def port_codec.image_def)
  qed (use u empty in \<open>simp_all add: Q_def goal_def v3_port_to_wire_def no_records\<close>)
  then show ?thesis by (simp add: v3_send_port_batches_locked_def Q_def goal_def port_records_def comp_def)
qed

subsection \<open>The counts of the checks\<close>

lemma preflight_loop_counts:
  "preflight_loop rs rules (n, ns, np, req) = Inr (n', ns', np', req') \<Longrightarrow>
    let act = filter (\<lambda>r. cr_active r \<noteq> 0) rules
    in ns' = ns + sum_list (map (\<lambda>r. unat (cr_step_count r)) act) \<and> np' = np + sum_list (map (\<lambda>r. unat (cr_port_count r)) act) \<and>
       req' = foldl (OR) req (map cr_required_caps act) \<and>
       (ns \<le> UINT32_MAX \<and> np \<le> UINT32_MAX \<longrightarrow> ns' \<le> UINT32_MAX \<and> np' \<le> UINT32_MAX)"
proof (induction rules arbitrary: n ns np req)
  case (Cons r rules)
  show ?case
  proof (cases "cr_active r = 0")
    case False
    with Cons.prems have "preflight_loop rs rules (n + 1, ns + unat (cr_step_count r), np + unat (cr_port_count r), req OR cr_required_caps r) =
        Inr (n', ns', np', req')" and "ns + unat (cr_step_count r) \<le> UINT32_MAX" "np + unat (cr_port_count r) \<le> UINT32_MAX"
      by (auto simp: Let_def not_less split: if_splits option.splits)
    with Cons.IH [OF this(1)] False show ?thesis by (simp add: Let_def)
  qed (use Cons in simp)
qed simp

lemma length_active:
  "length (active_steps rs) = sum_list (map (\<lambda>r. unat (cr_step_count r)) (active_rules rs))"
  "length (active_ports rs) = sum_list (map (\<lambda>r. unat (cr_port_count r)) (active_rules rs))"
  by (simp_all add: active_steps_def active_ports_def length_concat chain_steps_of_def chain_ports_of_def comp_def)

lemma preflight_counts:
  assumes "v3_preflight_ruleset rs = Inr (rules, steps, ports, caps)"
  shows "unat rules = length (active_rules rs)" and "unat steps = length (active_steps rs)"
    and "unat ports = length (active_ports rs)" and "caps = foldl (OR) 0 (map cr_required_caps (active_rules rs))"
    and "active_rules rs \<noteq> [] \<Longrightarrow> \<not> v3_digest_is_zero (ch_catalog_digest rs)"
proof -
  obtain n ns np where loop: "preflight_loop rs (ch_rules rs) (0, 0, 0, 0) = Inr (n, ns, np, caps)"
    and w: "rules = word_of_nat n" "steps = word_of_nat ns" "ports = word_of_nat np"
    and d: "n \<noteq> 0 \<longrightarrow> \<not> v3_digest_is_zero (ch_catalog_digest rs)"
    using assms by (auto simp: v3_preflight_ruleset_def split: sum.splits if_splits)
  note a = preflight_loop_ok [OF loop] and b = preflight_loop_counts [OF loop]
  have n: "n = length (active_rules rs)" "n \<le> UINT32_MAX" using a by (simp_all add: active_rules_def)
  have ns: "ns = length (active_steps rs)" "np = length (active_ports rs)" "ns \<le> UINT32_MAX" "np \<le> UINT32_MAX"
    using b by (simp_all add: Let_def length_active flip: active_rules_def)
  show "unat rules = length (active_rules rs)" "unat steps = length (active_steps rs)" "unat ports = length (active_ports rs)"
    unfolding w n(1) [symmetric] ns(1,2) [symmetric]
    by (rule unat_length, use n(2) ns(3,4) in \<open>simp add: UINT32_MAX_def\<close>)+
  show "caps = foldl (OR) 0 (map cr_required_caps (active_rules rs))" using b by (simp add: Let_def flip: active_rules_def)
  show "active_rules rs \<noteq> [] \<Longrightarrow> \<not> v3_digest_is_zero (ch_catalog_digest rs)" using d n by simp
qed

lemma checked_converts:
  assumes "v3_preflight_ruleset rs = Inr counts" and "chain_wf rs"
  shows "\<forall>r \<in> set (active_rules rs). v3_rule_to_wire r = Inr (projr (v3_rule_to_wire r))"
    and "\<forall>x \<in> set (active_steps rs). v3_step_to_wire x = Inr (projr (v3_step_to_wire x)) \<and> length (cs_payload x) = 64"
proof -
  obtain rules steps ports caps where counts: "counts = (rules, steps, ports, caps)" by (metis prod_cases4)
  obtain n ns np where loop: "preflight_loop rs (ch_rules rs) (0, 0, 0, 0) = Inr (n, ns, np, caps)"
    using assms(1) by (auto simp: v3_preflight_ruleset_def counts split: sum.splits if_splits)
  have ok: "check_rule rs r = None" if "r \<in> set (active_rules rs)" for r
    using preflight_loop_ok [OF loop] that by (simp add: active_rules_def)
  show "\<forall>r \<in> set (active_rules rs). v3_rule_to_wire r = Inr (projr (v3_rule_to_wire r))"
  proof
    fix r
    assume "r \<in> set (active_rules rs)"
    from ok [OF this] have "\<not> JMX_V3_MAX_STEPS_PER_RULE < cr_step_count r" by (simp add: check_rule_def Let_def split: if_splits)
    then show "v3_rule_to_wire r = Inr (projr (v3_rule_to_wire r))" by (simp add: v3_rule_to_wire_def)
  qed
  have "\<not> JMX_V3_PAYLOAD_MAX < unat (cs_payload_len x)" if x: "x \<in> set (active_steps rs)" for x
  proof -
    obtain r where "r \<in> set (active_rules rs)" "x \<in> set (chain_steps_of rs r)" using x by (auto simp: active_steps_def)
    moreover from this ok [of r] have "list_all (\<lambda>s. cs_signature_rule_id s = cr_signature_rule_id r \<and>
        unat (cs_payload_len s) \<le> JMX_V3_PAYLOAD_MAX) (chain_steps_of rs r)"
      by (simp add: check_rule_def Let_def split: if_splits)
    ultimately show ?thesis by (simp add: list_all_iff not_less)
  qed
  then show "\<forall>x \<in> set (active_steps rs). v3_step_to_wire x = Inr (projr (v3_step_to_wire x)) \<and> length (cs_payload x) = 64"
    using preflight_ok(2) [OF assms(1) [unfolded counts] assms(2)] by (simp add: v3_step_to_wire_def)
qed

subsection \<open>A whole push\<close>

text \<open>The set that a push stages, and what the module asks of it: counts, mode and capabilities within its
  limits, every record acceptable after the ones before it, the catalogue complete.\<close>

definition target :: "chain_set \<Rightarrow> u32 \<Rightarrow> u8 \<times> v3_begin \<Rightarrow> rule_set" where
  "target rs gen mb = (let s = begin_set gen (ucast (fst mb)) (snd mb)
     in if bg_expected_rules (snd mb) = 0 then s
        else s\<lparr>rs_rules := rule_records rs, rs_steps := step_records rs, rs_ports := port_records rs\<rparr>)"

definition records_accepted :: "chain_set \<Rightarrow> u32 \<Rightarrow> bool" where
  "records_accepted rs caps \<longleftrightarrow>
     append_rules caps [] (map (projr \<circ> v3_rule_to_wire) (active_rules rs)) 0 \<in> range Inr \<and>
     append_steps [] (map (projr \<circ> v3_step_to_wire) (active_steps rs)) 0 \<in> range Inr \<and>
     append_ports [] (map (projr \<circ> v3_port_to_wire) (active_ports rs)) 0 \<in> range Inr"

definition acceptable :: "chain_set \<Rightarrow> u32 \<Rightarrow> u8 \<Rightarrow> bool" where
  "acceptable rs gen mode \<longleftrightarrow> (case v3_preflight_ruleset rs of Inl _ \<Rightarrow> False
     | Inr counts \<Rightarrow> let mb = push_begin rs mode counts; b = snd mb
         in \<not> begin_bad (ucast (fst mb)) (bg_expected_rules b) (bg_expected_steps b) (bg_expected_ports b) (bg_required_capabilities b) \<and>
            (bg_expected_rules b = 0 \<or> records_accepted rs (bg_required_capabilities b)) \<and> catalog_complete (target rs gen mb))"

lemma request_accepted:
  assumes net: "answering (\<lambda>_. env) disp portid" and u: "kernel_idle (us_world u)" and action: "action_is_v3 action"
    and len: "length payload + 32 < MAX_JMX_NETLINK_MSG_LEN"
    and serve: "serve env portid action gen flags rsize count payload (kw_state (us_world u)) = ((None, x), st2)"
  shows "\<exists>u'. v3_send_request_locked (kernel_net (\<lambda>_. env) disp portid) action gen flags rsize count payload u = Some (V3_ACK_OK, u') \<and>
    kernel_idle (us_world u') \<and> kw_state (us_world u') = st2"
proof -
  obtain reason detail where "x = (reason, detail)" by fastforce
  with request_delivered [OF net u action len] serve show ?thesis by fastforce
qed

lemma begin_accepted:
  assumes net: "answering (\<lambda>_. env) disp portid" and env: "steady env" and u: "kernel_idle (us_world u)"
    and st: "v3_running (kw_state (us_world u))" "tx_set (v3_tx (kw_state (us_world u))) = None"
      "\<And>a. v3_active (kw_state (us_world u)) = Some a \<Longrightarrow> rs_generation a \<noteq> gen"
    and gen: "gen \<noteq> 0" and b: "begin_wf b" "\<not> bytes_zero (bg_catalog_digest b)"
      "\<not> begin_bad flags (bg_expected_rules b) (bg_expected_steps b) (bg_expected_ports b) (bg_required_capabilities b)"
  shows "\<exists>u'. v3_send_request_locked (kernel_net (\<lambda>_. env) disp portid) JMX_NL_ACT_RULESET_BEGIN_V3 gen flags 48 1 (enc_begin b) u =
      Some (V3_ACK_OK, u') \<and> loading env portid gen (begin_set gen flags b) u'"
proof -
  have portid: "portid \<noteq> 0" using net by (simp add: answering_def)
  have mem: "\<not> begin_alloc_fails env b" using env by (simp add: begin_alloc_fails_def steady_def)
  have idle: "expire_staging_locked env (kw_state (us_world u)) = kw_state (us_world u)" using st(2) by (simp add: expire_staging_locked_def)
  have inv: "v3_inv (kw_state (us_world u))" using u by (simp add: kernel_idle_def engine_ok_def)
  have failed: "\<not> tx_failed (v3_tx (kw_state (us_world u)))" using inv st(2) by (auto simp: v3_inv_def tx_zero_def)
  have active: "(case v3_active (kw_state (us_world u)) of None \<Rightarrow> False | Some a \<Rightarrow> rs_generation a = gen) = False"
    using st(3) by (auto split: option.split)
  obtain x st2 where run: "jmx_v3_tx_begin env portid gen (Some b) flags (kw_state (us_world u)) = ((None, x), st2)"
    and st2: "live env portid gen st2 (begin_set gen flags b)" "\<not> tx_failed (v3_tx st2)"
    using portid gen b(2,3) mem idle st(1,2) active failed fresh_deadline [OF env]
    by (simp add: jmx_v3_tx_begin_def Let_def live_def renew_transaction_locked_def begin_set_def del: not_gr_zero)
  have len: "length (enc_begin b) + 32 < MAX_JMX_NETLINK_MSG_LEN" using begin_codec.length_enc [OF b(1)] by simp
  have "serve env portid JMX_NL_ACT_RULESET_BEGIN_V3 gen flags 48 1 (enc_begin b) (kw_state (us_world u)) = ((None, x), st2)"
    using serve_begin [OF gen b(1)] run by simp
  from request_accepted [OF net u _ len this] show ?thesis using st2 by (auto simp: action_is_v3_def loading_def)
qed

lemma batches_accepted:
  assumes net: "answering (\<lambda>_. env) disp portid" and env: "steady env" and gen: "gen \<noteq> 0" and u: "loading env portid gen s u"
    and pre: "v3_preflight_ruleset rs = Inr counts" and shape: "chain_wf rs" and rec: "records_accepted rs (rs_declared_caps s)"
    and empty: "rs_rules s = []" "rs_steps s = []" "rs_ports s = []"
    and cap: "length (active_rules rs) \<le> unat (rs_rule_capacity s)" "length (active_steps rs) \<le> unat (rs_step_capacity s)"
      "length (active_ports rs) \<le> unat (rs_port_capacity s)"
  shows "\<exists>u'. send_all_batches (kernel_net (\<lambda>_. env) disp portid) rs gen u = Some (True, u') \<and>
    loading env portid gen (s\<lparr>rs_rules := rule_records rs, rs_steps := step_records rs, rs_ports := port_records rs\<rparr>) u'"
proof -
  obtain z1 z2 z3 where z: "append_rules (rs_declared_caps s) [] (map (projr \<circ> v3_rule_to_wire) (active_rules rs)) 0 = Inr z1"
    "append_steps [] (map (projr \<circ> v3_step_to_wire) (active_steps rs)) 0 = Inr z2"
    "append_ports [] (map (projr \<circ> v3_port_to_wire) (active_ports rs)) 0 = Inr z3"
    using rec by (auto simp: records_accepted_def)
  note conv = checked_converts [OF pre shape]
  obtain u1 where u1: "v3_send_rule_batches_locked (kernel_net (\<lambda>_. env) disp portid) rs gen u = Some (True, u1)"
    "loading env portid gen (s\<lparr>rs_rules := rule_records rs\<rparr>) u1"
    using rule_batches_accepted [OF net env gen u conv(1) empty(1) z(1) cap(1)] by blast
  obtain u2 where u2: "v3_send_step_batches_locked (kernel_net (\<lambda>_. env) disp portid) rs gen u1 = Some (True, u2)"
    "loading env portid gen (s\<lparr>rs_rules := rule_records rs, rs_steps := step_records rs\<rparr>) u2"
    using step_batches_accepted [OF net env gen u1(2) conv(2) _ z(2)] empty cap by auto
  show ?thesis
    using port_batches_accepted [OF net env gen u2(2) _ z(3)] empty cap u1(1) u2(1) by (auto simp: send_all_batches_def)
qed

lemma commit_accepted:
  assumes net: "answering (\<lambda>_. env) disp portid" and env: "steady env" and gen: "gen \<noteq> 0" and u: "loading env portid gen s u"
    and full: "catalog_complete s"
    and b: "rs_rule_capacity s = bg_expected_rules b" "rs_step_capacity s = bg_expected_steps b"
      "rs_port_capacity s = bg_expected_ports b" "rs_catalog_digest s = bg_catalog_digest b" "rs_mode s = ucast mode"
  shows "\<exists>u' a. push_commit (kernel_net (\<lambda>_. env) disp portid) gen mode b u = Some (True, u') \<and>
    v3_active (kw_state (us_world u')) = Some a \<and> publishes s a \<and> kernel_idle (us_world u')"
proof -
  let ?st = "kw_state (us_world u)"
  have live: "live env portid gen ?st s" and ok: "\<not> tx_failed (v3_tx ?st)" and idle: "kernel_idle (us_world u)"
    using u by (simp_all add: loading_def)
  have inv: "v3_inv ?st" using idle by (simp add: kernel_idle_def engine_ok_def)
  have "set_ok s" "unindexed s" using v3_inv_live [OF inv live_staged [OF live] ok] by auto
  then obtain detail s' where "validate_and_index_set env s = ((None, JMX_V3_REASON_NONE, detail), s')"
    using validate_complete full env unfolding steady_def by blast
  then have "fst (fst (jmx_v3_tx_commit env portid gen ?st)) = None"
    using live_check [OF live] ok live_staged [OF live] by (simp add: jmx_v3_tx_commit_def)
  moreover have "unchanged (v3_active ?st) u" "staged s u" using idle live_staged [OF live] by (simp_all add: unchanged_def staged_def)
  note commit_kernel [OF net gen this b]
  ultimately show ?thesis by auto
qed

lemma target_fields:
  "rs_rule_capacity (target rs gen mb) = bg_expected_rules (snd mb)" "rs_step_capacity (target rs gen mb) = bg_expected_steps (snd mb)"
  "rs_port_capacity (target rs gen mb) = bg_expected_ports (snd mb)" "rs_catalog_digest (target rs gen mb) = bg_catalog_digest (snd mb)"
  "rs_mode (target rs gen mb) = ucast (fst mb) AND JMX_V3_TX_MODE_MASK" "rs_generation (target rs gen mb) = gen"
  by (simp_all add: target_def begin_set_def Let_def)

lemma push_begin_cases:
  assumes "v3_preflight_ruleset rs = Inr counts" and "push_begin rs mode counts = (mode', b)" and "chain_wf rs" and "mode \<le> 2"
  shows "mode' \<le> 2" and "\<not> bytes_zero (bg_catalog_digest b)"
    and "bg_expected_rules b = 0 \<Longrightarrow> (mode = 0 \<or> active_rules rs = []) \<and> mode' = 0 \<and> bg_catalog_digest b = empty_digest"
    and "bg_expected_rules b \<noteq> 0 \<Longrightarrow> mode \<noteq> 0 \<and> active_rules rs \<noteq> [] \<and> mode' = mode \<and> bg_catalog_digest b = ch_catalog_digest rs \<and>
      unat (bg_expected_rules b) = length (active_rules rs) \<and> unat (bg_expected_steps b) = length (active_steps rs) \<and>
      unat (bg_expected_ports b) = length (active_ports rs)"
proof -
  obtain rules steps ports caps where counts: "counts = (rules, steps, ports, caps)" by (metis prod_cases4)
  note c = preflight_counts [OF assms(1) [unfolded counts]]
  have zero: "rules = 0 \<longleftrightarrow> active_rules rs = []" using c(1) by (metis length_0_conv unat_eq_zero)
  have full: "take 32 (ch_catalog_digest rs) = ch_catalog_digest rs" using assms(3) by (simp add: chain_wf_def)
  show "mode' \<le> 2" using assms(2,4) by (auto simp: push_begin_def counts split: if_splits)
  show "\<not> bytes_zero (bg_catalog_digest b)"
    using assms(2) c(5) zero full
    by (auto simp: push_begin_def counts empty_digest_def bytes_zero_def v3_digest_is_zero_def split: if_splits)
  show "bg_expected_rules b = 0 \<Longrightarrow> (mode = 0 \<or> active_rules rs = []) \<and> mode' = 0 \<and> bg_catalog_digest b = empty_digest"
    using assms(2) zero by (auto simp: push_begin_def counts split: if_splits)
  show "bg_expected_rules b \<noteq> 0 \<Longrightarrow> mode \<noteq> 0 \<and> active_rules rs \<noteq> [] \<and> mode' = mode \<and> bg_catalog_digest b = ch_catalog_digest rs \<and>
      unat (bg_expected_rules b) = length (active_rules rs) \<and> unat (bg_expected_steps b) = length (active_steps rs) \<and>
      unat (bg_expected_ports b) = length (active_ports rs)"
    using assms(2) zero full c(1-3) by (auto simp: push_begin_def counts split: if_splits)
qed

text \<open>What is on the wire is what is to be installed.\<close>

lemma target_installed:
  assumes pre: "v3_preflight_ruleset rs = Inr counts" and pb: "push_begin rs mode counts = (mode', b)" and shape: "chain_wf rs"
    and mode: "mode \<le> 2" and a: "publishes (target rs gen (mode', b)) a"
  shows "installed rs gen mode a"
proof (cases "bg_expected_rules b = 0")
  case True
  note c = push_begin_cases(3) [OF pre pb shape mode True]
  show ?thesis
    by (rule installed_off [OF a]) (use c True in \<open>simp_all add: target_def begin_set_def\<close>)
next
  case False
  note c = push_begin_cases(4) [OF pre pb shape mode False]
  have m: "(ucast mode' :: u32) AND JMX_V3_TX_MODE_MASK = ucast mode'" by (rule mode_masked [OF push_begin_cases(1) [OF pre pb shape mode]])
  show ?thesis
    by (rule installed_on [OF a]) (use c m False in \<open>simp_all add: target_def begin_set_def\<close>)
qed

lemma push_accepted:
  assumes net: "answering (\<lambda>_. env) disp portid" and env: "steady env" and u: "kernel_idle (us_world u)"
    and st: "v3_running (kw_state (us_world u))" "tx_set (v3_tx (kw_state (us_world u))) = None"
      "\<And>a. v3_active (kw_state (us_world u)) = Some a \<Longrightarrow> rs_generation a \<noteq> gen"
    and gen: "gen \<noteq> 0" and mode: "mode \<le> 2" and shape: "chain_wf rs" and ok: "acceptable rs gen mode"
  shows "\<exists>u' a. jmx_nl_push_chain_rules (kernel_net (\<lambda>_. env) disp portid) rs gen mode u = Some (True, u') \<and>
    v3_active (kw_state (us_world u')) = Some a \<and> installed rs gen mode a \<and> kernel_idle (us_world u')"
proof -
  define net where "net = kernel_net (\<lambda>_. env) disp portid"
  obtain counts where pre: "v3_preflight_ruleset rs = Inr counts" using ok by (auto simp: acceptable_def split: sum.splits)
  obtain mode' b where pb: "push_begin rs mode counts = (mode', b)" by fastforce
  define s where "s = target rs gen (mode', b)"
  have acc: "\<not> begin_bad (ucast mode') (bg_expected_rules b) (bg_expected_steps b) (bg_expected_ports b) (bg_required_capabilities b)"
    "bg_expected_rules b = 0 \<or> records_accepted rs (bg_required_capabilities b)" "catalog_complete s"
    using ok pre pb by (simp_all add: acceptable_def s_def Let_def)
  note c = push_begin_cases [OF pre pb shape mode]
  have "kernel_idle (us_world (u\<lparr>us_status := kernel_status_zero\<rparr>))" using u by simp
  from begin_accepted [OF assms(1) env this _ _ _ gen push_begin_wf [OF pb shape] c(2) acc(1)] st
  obtain u1 where u1: "v3_send_request_locked net JMX_NL_ACT_RULESET_BEGIN_V3 gen (ucast mode') 48 1 (enc_begin b)
      (u\<lparr>us_status := kernel_status_zero\<rparr>) = Some (V3_ACK_OK, u1)" "loading env portid gen (begin_set gen (ucast mode') b) u1"
    unfolding net_def by auto
  have "\<exists>u2. (if bg_expected_rules b \<noteq> 0 then send_all_batches net rs gen u1 else Some (True, u1)) = Some (True, u2) \<and>
      loading env portid gen s u2"
  proof (cases "bg_expected_rules b = 0")
    case False
    have "\<exists>u2. send_all_batches net rs gen u1 = Some (True, u2) \<and> loading env portid gen
        ((begin_set gen (ucast mode') b)\<lparr>rs_rules := rule_records rs, rs_steps := step_records rs, rs_ports := port_records rs\<rparr>) u2"
      unfolding net_def
      by (rule batches_accepted [OF assms(1) env gen u1(2) pre shape])
        (use False acc(2) c(4) [OF False] in \<open>simp_all add: begin_set_def\<close>)
    then show ?thesis using False by (simp add: s_def target_def)
  qed (use u1(2) in \<open>simp add: s_def target_def\<close>)
  then obtain u2 where u2: "(if bg_expected_rules b \<noteq> 0 then send_all_batches net rs gen u1 else Some (True, u1)) = Some (True, u2)"
    "loading env portid gen s u2" by blast
  obtain u' a where u': "push_commit net gen mode' b u2 = Some (True, u')" "v3_active (kw_state (us_world u')) = Some a"
    "publishes s a" "kernel_idle (us_world u')"
    using commit_accepted [OF assms(1) env gen u2(2) acc(3), of b mode'] c(1) mode_masked
    unfolding net_def by (auto simp: s_def target_fields)
  have "installed rs gen mode a" by (rule target_installed [OF pre pb shape mode]) (use u'(3) in \<open>simp add: s_def\<close>)
  moreover have "\<not> (gen = 0 \<or> 2 < mode)" using gen mode by auto
  then have "jmx_nl_push_chain_rules net rs gen mode u = Some (True, u')"
    using pre pb u1(1) u2(1) u'(1) by (simp add: jmx_nl_push_chain_rules_def Let_def del: not_less)
  ultimately show ?thesis using u'(2,4) unfolding net_def by blast
qed

section \<open>A concrete push\<close>

definition demo_chain :: chain_set where
  "demo_chain = \<lparr>ch_rules = [\<lparr>cr_signature_rule_id = 5, cr_appid = 77, cr_priority = 10, cr_required_caps = 0x401, cr_first_step = 0,
       cr_first_port = 0, cr_step_count = 1, cr_port_count = 0, cr_proto = 0, cr_dir = 0, cr_flags = 0, cr_active = 1\<rparr>],
     ch_steps = [\<lparr>cs_signature_rule_id = 5, cs_step_index = 0, cs_matcher_type = 1, cs_condition = 1, cs_case_mode = 2,
       cs_input_view = 0, cs_position_flags = 0, cs_numeric_encoding = 0, cs_literal_option = 0, cs_depth = 0, cs_offset = 0,
       cs_distance = 0, cs_within = 0, cs_payload_len = 2, cs_reference_source = 0, cs_comparison = 0, cs_adjust_mode = 0,
       cs_width = 0, cs_jump_multiplier = 0, cs_inline_operand = 0, cs_adjustment_operand = 0, cs_jump_base = 0,
       cs_payload = [97, 98] @ replicate 62 0\<rparr>],
     ch_ports = [], ch_catalog_digest = replicate 32 7\<rparr>"

definition demo_dispatch :: dispatch where
  "demo_dispatch = \<lparr>dp_license = \<lambda>_. False, dp_others = \<lambda>_. False\<rparr>"

definition demo_user :: "v3_state \<Rightarrow> kworld user" where
  "demo_user st = \<lparr>us_errno = None, us_seq = 0, us_seq_v2 = 0, us_status = kernel_status_zero,
     us_world = \<lparr>kw_state = st, kw_v2 = jmx_v2_rules_init, kw_runtime = \<lparr>dr_slots = [], dr_active_slot = 0, dr_wq = None, dr_initialized = False\<rparr>,
       kw_inbox = [], kw_now = 0, kw_handled = 0\<rparr>\<rparr>"

lemma demo_answering: "answering (\<lambda>_. demo_env) demo_dispatch 4"
  by (simp add: answering_def demo_env_def demo_dispatch_def)

lemma demo_idle: "kernel_idle (us_world (demo_user jmx_v3_rules_init))"
  by (simp add: kernel_idle_def demo_user_def engine_ok_def v3_inv_def jmx_v3_rules_init_def tx_zero_def digests_wf_def digests_of_def)

lemma demo_chain_wf: "chain_wf demo_chain"
  by (simp add: chain_wf_def demo_chain_def)

lemma demo_active: "active_rules demo_chain = ch_rules demo_chain" "active_steps demo_chain = ch_steps demo_chain"
  "active_ports demo_chain = []" "ch_rules demo_chain \<noteq> []"
  by (simp_all add: active_rules_def active_steps_def active_ports_def chain_steps_of_def chain_ports_of_def demo_chain_def)

lemma demo_rule_records: "rule_records demo_chain = [demo_rule]"
  unfolding rule_records_def demo_active
  by (simp add: demo_chain_def v3_rule_to_wire_def rule_of_wire_def demo_rule_def)

lemma demo_preflight: "v3_preflight_ruleset demo_chain = Inr (1, 1, 0, 0x401)"
  by (simp add: v3_preflight_ruleset_def demo_chain_def check_rule_def chain_steps_of_def chain_ports_of_def UINT32_MAX_def
      v3_digest_is_zero_def Let_def list_all_iff)

lemma demo_begin: "push_begin demo_chain 2 (1, 1, 0, 0x401) =
    (2, \<lparr>bg_expected_rules = 1, bg_expected_steps = 1, bg_expected_ports = 0, bg_required_capabilities = 0x401,
      bg_catalog_digest = replicate 32 7\<rparr>)"
  by (simp add: push_begin_def demo_chain_def)

lemma demo_target: "target demo_chain 9 (push_begin demo_chain 2 (1, 1, 0, 0x401)) = demo_set"
  unfolding target_def demo_begin rule_records_def step_records_def port_records_def demo_active
  by (simp add: begin_set_def demo_set_def demo_chain_def demo_rule_def demo_step_def v3_rule_to_wire_def v3_step_to_wire_def
      rule_of_wire_def step_of_wire_def)

lemma demo_acceptable: "acceptable demo_chain 9 2"
proof -
  have "records_accepted demo_chain 0x401"
    unfolding records_accepted_def demo_active
    by (simp add: demo_chain_def v3_rule_to_wire_def v3_step_to_wire_def rule_wire_bad_def valid_step_wire_def step_out_of_order_def
        step_of_wire_def pos_flag_def bytes_zero_def list_all_iff image_iff Let_def)
  moreover have "\<not> begin_bad 2 1 1 0 0x401" by (simp add: begin_bad_def)
  ultimately show ?thesis using demo_complete by (simp add: acceptable_def demo_preflight demo_target Let_def) (simp add: demo_begin)
qed

text \<open>A network on which nothing ever arrives, and whose clock counts its readings.\<close>

definition silent_net :: "nat net" where
  "silent_net = \<lparr>nt_calloc = \<lambda>_ w. (True, w), nt_sendmsg = \<lambda>m w. (Inr (length m), w), nt_clock = \<lambda>w. (Inr (int w), w + 1),
     nt_poll = \<lambda>_ w. (Poll_timeout, w), nt_recvmsg = \<lambda>w. (Inl EAGAIN, w)\<rparr>"

lemma silent_clock: "clock_runs silent_net"
  unfolding clock_runs_def
proof
  fix d
  show "\<exists>m :: nat \<Rightarrow> nat. \<forall>w. (\<forall>ms. fst (nt_clock silent_net w) = Inr ms \<longrightarrow> d \<le> ms \<or> m (snd (nt_clock silent_net w)) < m w) \<and>
      (\<forall>t. m (snd (nt_poll silent_net t w)) \<le> m w) \<and> m (snd (nt_recvmsg silent_net w)) \<le> m w"
    by (rule exI [of _ "\<lambda>w. nat (d - int w)"]) (auto simp: silent_net_def)
qed

lemma push_result:
  assumes net: "answering envs disp portid" and idle: "kernel_idle (us_world u)" and shape: "chain_wf rs"
  shows "\<exists>ok u'. jmx_nl_push_chain_rules (kernel_net envs disp portid) rs gen mode u = Some (ok, u') \<and> kernel_idle (us_world u') \<and>
    (if ok then \<exists>a. v3_active (kw_state (us_world u')) = Some a \<and> installed rs gen mode a
     else us_errno u' \<noteq> None \<and> v3_active (kw_state (us_world u')) = v3_active (kw_state (us_world u)) \<and>
       (gen \<noteq> 0 \<and> mode \<le> 2 \<and> v3_preflight_ruleset rs \<in> range Inr \<longrightarrow> gone portid gen u'))"
proof (cases "gen = 0 \<or> 2 < mode \<or> v3_preflight_ruleset rs \<notin> range Inr")
  case True
  obtain e u' where "jmx_nl_push_chain_rules (kernel_net envs disp portid) rs gen mode u = Some (False, u')"
    "us_world u' = us_world u" "us_errno u' = Some e"
    using push_refused [OF True] by blast
  then show ?thesis using idle True by (intro exI [of _ False] exI [of _ u']) (auto simp: not_le)
next
  case False
  then obtain counts where "v3_preflight_ruleset rs = Inr counts" by auto
  then obtain rules steps ports caps where "v3_preflight_ruleset rs = Inr (rules, steps, ports, caps)" by (metis prod_cases4)
  from push_sent [OF net idle shape _ _ this, of gen mode] False show ?thesis
    unfolding all_or_nothing_def by (fastforce simp: not_less)
qed

section \<open>Properties\<close>

text \<open>C1: pushing a catalogue to a kernel that answers is all or nothing, for every catalogue, every state of
  the kernel module and every clock and allocation failure in it.  The push always returns; if it reports
  success, the module matches packets against exactly the active rules of the catalogue with their steps
  and ports, in the pushed mode and generation; otherwise errno is set, the set that was active still is,
  and after a catalogue that passed the checks nothing of this generation stays staged for the port.\<close>

theorem push_all_or_nothing:
  assumes net: "answering envs disp portid" and idle: "kernel_idle (us_world u)" and shape: "chain_wf rs"
  shows "\<exists>ok u'. jmx_nl_push_chain_rules (kernel_net envs disp portid) rs gen mode u = Some (ok, u') \<and> kernel_idle (us_world u') \<and>
    (if ok then \<exists>a. v3_active (kw_state (us_world u')) = Some a \<and> installed rs gen mode a
     else us_errno u' \<noteq> None \<and> v3_active (kw_state (us_world u')) = v3_active (kw_state (us_world u)) \<and>
       (gen \<noteq> 0 \<and> mode \<le> 2 \<and> v3_preflight_ruleset rs \<in> range Inr \<longrightarrow> gone portid gen u'))"
  by (rule push_result [OF net idle shape])

theorem push_all_or_nothing_witness:
  "\<exists>ok u'. jmx_nl_push_chain_rules (kernel_net (\<lambda>_. demo_env) demo_dispatch 4) demo_chain 9 2 (demo_user jmx_v3_rules_init) = Some (ok, u') \<and>
    kernel_idle (us_world u')"
  using push_all_or_nothing [OF demo_answering demo_idle demo_chain_wf] by blast





text \<open>C28: on every network whose clock runs, and whatever it delivers, loses or forges, the push, the probe
  and the status request return.\<close>

theorem push_returns:
  assumes "clock_runs net"
  shows "(\<exists>ok u'. jmx_nl_push_chain_rules net rs gen mode u = Some (ok, u')) \<and>
    (\<exists>ok u'. jmx_nl_v3_probe net u = Some (ok, u')) \<and> (\<exists>ok u'. jmx_nl_v3_status net gen u = Some (ok, u'))"
  using returns_push [OF assms] returns_status [OF assms] unfolding returns_def by blast

theorem push_returns_witness:
  "\<exists>ok u'. jmx_nl_push_chain_rules silent_net demo_chain 9 2
     \<lparr>us_errno = None, us_seq = 0, us_seq_v2 = 0, us_status = kernel_status_zero, us_world = 0\<rparr> = Some (ok, u')"
  using push_returns [OF silent_clock] by blast



end
