(* ===== verification/SignatureLoad.thy ===== *)
theory SignatureLoad
  imports SignatureDb V3Install
begin

text \<open>
  What the loader of the signature database guarantees.  The v2 rules are a catalogue that was built by the operations
  of \<open>RuleSet\<close>, so its theorems and those of the v2 push apply to them.  What a step of a chain rule satisfies when
  its row was accepted comes last; \<open>ChainLoad\<close> follows the chain rules through the rest of the loader, and
  \<open>SignatureAccept\<close> says when the module takes them.
\<close>

unbundle bit_operations_syntax

section \<open>The v2 rules\<close>

lemma length_hex_pairs: "length (hex_pairs room s) \<le> room"
  by (induction room s rule: hex_pairs.induct) (auto split: option.split)

lemma length_put: "length p \<le> 255 \<Longrightarrow> length s = 256 \<Longrightarrow> length (p @ 0 # drop (length p + 1) s) = 256"
  by simp

lemma load_port_rows_wf: "match_rule_wf rule \<Longrightarrow> match_rule_wf (load_port_rows rows rule)"
  by (induction rows arbitrary: rule) (auto simp: match_rule_wf_def)

lemma copy_pattern_wf: "match_rule_wf rule \<Longrightarrow> match_rule_wf (copy_pattern fmt text hex rule)"
  using length_hex_pairs [of 255 "the hex"] by (auto simp: copy_pattern_def match_rule_wf_def Let_def)

lemma parse_bounds: "parse_proto s \<le> 2" "parse_dir s \<le> 2" "parse_method s \<le> 3"
  by (simp_all add: parse_proto_def parse_dir_def parse_method_def)

lemma load_ports_wf: "match_rule_wf rule \<Longrightarrow> match_rule_wf (load_ports db rule)"
  by (auto simp: load_ports_def load_port_rows_wf split: query.split)

lemma match_rule_of_row_wf: "match_rule_wf (match_rule_of_row db r)"
  unfolding match_rule_of_row_def using parse_bounds
  by (intro load_ports_wf copy_pattern_wf) (simp add: match_rule_wf_def match_rule_zero_def)

definition load_ops :: "load_op list \<Rightarrow> match_set \<Rightarrow> match_set" where
  "load_ops ops rs = fold (\<lambda>q rs. snd (load_step q rs)) ops rs"

definition grown_by_ops :: "match_set \<Rightarrow> match_set \<Rightarrow> bool" where
  "grown_by_ops rs rs' \<longleftrightarrow> (\<exists>ops. list_all load_wf ops \<and> rs' = load_ops ops rs)"

lemma grown_refl: "grown_by_ops rs rs"
  unfolding grown_by_ops_def by (rule exI [of _ "[]"]) (simp add: load_ops_def)

lemma grown_trans:
  assumes "grown_by_ops a b" and "grown_by_ops b c"
  shows "grown_by_ops a c"
proof -
  obtain ops1 ops2 where "list_all load_wf ops1" "b = load_ops ops1 a" "list_all load_wf ops2" "c = load_ops ops2 b"
    using assms by (auto simp: grown_by_ops_def)
  then show ?thesis unfolding grown_by_ops_def by (intro exI [of _ "ops1 @ ops2"]) (simp add: load_ops_def)
qed

lemma grown_step: "load_wf q \<Longrightarrow> load_step q rs = (rc, rs') \<Longrightarrow> grown_by_ops rs rs'"
  unfolding grown_by_ops_def by (rule exI [of _ "[q]"]) (simp add: load_ops_def)

lemma load_app_rows_grown: "load_app_rows rows n rs = (res, rs') \<Longrightarrow> grown_by_ops rs rs'"
proof (induction rows arbitrary: n rs)
  case (Cons r rows)
  obtain rc rs1 where add: "jmx_rule_set_add_app_info (c_int (r 0)) (the (c_str (r 1))) rs = (rc, rs1)" by fastforce
  then have "grown_by_ops rs rs1" by (intro grown_step [of "Load_app (c_int (r 0)) (the (c_str (r 1)))"]) simp_all
  then show ?case
    using Cons add by (auto simp: Let_def grown_refl split: option.splits if_splits dest: grown_trans)
qed (simp add: grown_refl)

lemma load_rule_rows_grown: "load_rule_rows le db rows i seen rs = (res, rs') \<Longrightarrow> grown_by_ops rs rs'"
proof (induction rows arbitrary: i seen rs)
  case (Cons r rows)
  obtain rc rs1 where add: "jmx_rule_set_add_match (le_rule_mem le i) (match_rule_of_row db r) rs = (rc, rs1)" by fastforce
  then have "grown_by_ops rs rs1"
    by (intro grown_step [of "Load_match (le_rule_mem le i) (match_rule_of_row db r)"]) (simp_all add: match_rule_of_row_wf)
  then show ?case
    using Cons.IH Cons.prems add by (auto simp: Let_def split: if_splits dest: grown_trans)
qed (simp add: grown_refl)

lemma load_legacy_grown:
  "load_apps db rs = (res, rs') \<Longrightarrow> grown_by_ops rs rs'" "load_rules le db rs = (res, rs') \<Longrightarrow> grown_by_ops rs rs'"
  using load_app_rows_grown load_rule_rows_grown
  by (auto simp: load_apps_def load_rules_def grown_refl split: query.splits prod.splits option.splits)

lemma grown_load_all: "grown_by_ops jmx_rule_set_init rs \<Longrightarrow> \<exists>ops. list_all load_wf ops \<and> rs = load_all ops"
  by (auto simp: grown_by_ops_def load_ops_def load_all_def)

lemma loaded_rules:
  assumes "jmx_load_signature_db_with_chain le file caps = (True, rules, chain, status)"
  shows "\<exists>ops. list_all load_wf ops \<and> rules = load_all ops"
proof -
  obtain db apps rs1 n where "load_apps db jmx_rule_set_init = (apps, rs1)" "load_rules le db rs1 = (n, rules)"
    using assms by (auto simp: jmx_load_signature_db_with_chain_def Let_def split: option.splits if_splits prod.splits)
  then have "grown_by_ops jmx_rule_set_init rules" using load_legacy_grown grown_trans by blast
  then show ?thesis by (rule grown_load_all)
qed

section \<open>The records of the chain rules\<close>

text \<open>What every rule has from its row on, and what a row of a step guarantees.\<close>

definition rule_static :: "chain_rule \<Rightarrow> bool" where
  "rule_static r \<longleftrightarrow> cr_signature_rule_id r \<noteq> 0 \<and> cr_appid r \<noteq> 0 \<and> cr_step_count r \<noteq> 0 \<and>
     cr_step_count r \<le> JMX_V3_MAX_STEPS_PER_RULE \<and> cr_proto r \<le> JMX_V3_PROTO_UDP \<and> cr_dir r \<le> JMX_V3_DIR_BIDIRECTIONAL \<and>
     cr_flags r = 0"

definition rules_static :: "chain_rule list \<Rightarrow> bool" where
  "rules_static rules \<longleftrightarrow> list_all rule_static rules \<and> sorted_wrt (<) (map cr_signature_rule_id rules)"

definition step_read :: "chain_step \<Rightarrow> bool" where
  "step_read s \<longleftrightarrow> length (cs_payload s) = 64 \<and> cs_payload_len s \<noteq> 0 \<and> cs_payload_len s \<le> 64 \<and>
     list_all (\<lambda>b. b = 0) (drop (unat (cs_payload_len s)) (cs_payload s)) \<and>
     {cs_depth s, cs_offset s, cs_distance s, cs_within s, cs_jump_base s} \<subseteq> {- (2 ^ 31)..2 ^ 31 - 1} \<and>
     (cs_position_flags s AND JMX_V3_POS_DEPTH = 0 \<longrightarrow> cs_depth s = 0) \<and>
     (cs_position_flags s AND JMX_V3_POS_OFFSET = 0 \<longrightarrow> cs_offset s = 0) \<and>
     (cs_position_flags s AND JMX_V3_POS_DISTANCE = 0 \<longrightarrow> cs_distance s = 0) \<and>
     (cs_position_flags s AND JMX_V3_POS_WITHIN = 0 \<longrightarrow> cs_within s = 0)"

definition step_loaded :: "chain_step \<Rightarrow> bool" where
  "step_loaded s \<longleftrightarrow> step_read s \<and> cs_signature_rule_id s \<noteq> 0 \<and> validate_step_semantics s \<and>
     (cs_step_index s = 0 \<longrightarrow> cs_position_flags s AND (JMX_V3_POS_DISTANCE OR JMX_V3_POS_WITHIN) = 0)"

definition port_loaded :: "chain_port \<Rightarrow> bool" where
  "port_loaded p \<longleftrightarrow> cp_signature_rule_id p \<noteq> 0 \<and> cp_min_port p \<le> cp_max_port p \<and>
     JMX_V3_PORT_SOURCE \<le> cp_endpoint p \<and> cp_endpoint p \<le> JMX_V3_PORT_EITHER"

lemma parse_chain_bounds:
  "parse_chain_proto s = Some p \<Longrightarrow> p \<le> JMX_V3_PROTO_UDP" "parse_chain_dir s = Some d \<Longrightarrow> d \<le> JMX_V3_DIR_BIDIRECTIONAL"
  "parse_endpoint s = Some e \<Longrightarrow> JMX_V3_PORT_SOURCE \<le> e \<and> e \<le> JMX_V3_PORT_EITHER"
  by (auto simp: parse_chain_proto_def parse_chain_dir_def parse_endpoint_def split: if_splits)

lemma small_count: "(v :: u32) \<noteq> 0 \<Longrightarrow> v \<le> 64 \<Longrightarrow> (ucast v :: u16) \<noteq> 0 \<and> (ucast v :: u16) \<le> 64"
  by (simp add: word_le_nat_alt word_unat_eq_iff unsigned_ucast_eq take_bit_eq_mod)

lemma chain_rule_of_row_ok:
  assumes "chain_rule_of_row r rules = Some rule"
  shows "cr_signature_rule_id rule \<noteq> 0 \<Longrightarrow> rule_static rule" "cr_port_count rule = 0" "cr_active rule = 0"
    "rules \<noteq> [] \<Longrightarrow> cr_signature_rule_id (last rules) < cr_signature_rule_id rule"
  using assms small_count
  by (auto simp: chain_rule_of_row_def rule_static_def not_less not_le split: Option.bind_splits if_splits
      dest: parse_chain_bounds)

lemma position_column_ok:
  "position_column flags flag c = Some v \<Longrightarrow> v \<in> {- (2 ^ 31)..2 ^ 31 - 1} \<and> (flags AND flag = 0 \<longrightarrow> v = 0)"
  by (auto simp: position_column_def column_i32_def split: if_splits)

lemma optional_i32_ok: "optional_i32 c = Some v \<Longrightarrow> v \<in> {- (2 ^ 31)..2 ^ 31 - 1}"
  by (auto simp: optional_i32_def column_i32_def split: if_splits)

lemma payload_column_ok:
  assumes "payload_column c = Some p"
  shows "p \<noteq> []" "length p \<le> 64"
  using assms by (auto simp: payload_column_def split: option.splits if_splits)

lemma chain_step_of_row_read:
  assumes "chain_step_of_row r = Some s"
  shows "step_read s"
proof -
  obtain p where p: "payload_column (r 11) = Some p" "cs_payload_len s = word_of_nat (length p)"
      "cs_payload s = p @ replicate (64 - length p) 0"
    using assms by (auto simp: chain_step_of_row_def split: Option.bind_splits if_splits)
  note b = payload_column_ok [OF p(1)]
  have len: "unat (cs_payload_len s) = length p" using b(2) by (simp add: p(2) unat_word_of_nat)
  have "position_column (cs_position_flags s) JMX_V3_POS_DEPTH (r 7) = Some (cs_depth s)"
    "position_column (cs_position_flags s) JMX_V3_POS_OFFSET (r 8) = Some (cs_offset s)"
    "position_column (cs_position_flags s) JMX_V3_POS_DISTANCE (r 9) = Some (cs_distance s)"
    "position_column (cs_position_flags s) JMX_V3_POS_WITHIN (r 10) = Some (cs_within s)"
    using assms by (auto simp: chain_step_of_row_def split: Option.bind_splits if_splits)
  note cols = this [THEN position_column_ok]
  have base: "optional_i32 (r 19) = Some (cs_jump_base s)"
    using assms by (auto simp: chain_step_of_row_def split: Option.bind_splits if_splits)
  have "cs_payload_len s \<noteq> 0" "cs_payload_len s \<le> 64" using b len by (auto simp: word_le_nat_alt word_unat_eq_iff)
  then show ?thesis using cols optional_i32_ok [OF base] len p(3) b by (simp add: step_read_def list_all_iff)
qed

end
