(* ===== verification/ChainLoad.thy ===== *)
theory ChainLoad
  imports SignatureLoad
begin

text \<open>
  The chain rules as the loader leaves them.  Every loop of the loader changes some fields of the rules and nothing
  else, so what a rule has from its row survives to the end; the steps have passed the checks of their rows; the
  ports of a rule, although only their first index and their number are kept, are exactly the ports with its
  identifier.  So the checks before a push (\<open>v3_preflight_ruleset\<close>) find nothing to refuse.
\<close>

unbundle bit_operations_syntax

section \<open>Frames\<close>

text \<open>Two sets that differ in the fields of rules that \<open>g\<close> clears, in steps, ports and statistics only.\<close>

definition same_but :: "(chain_rule \<Rightarrow> chain_rule) \<Rightarrow> chain_db \<Rightarrow> chain_db \<Rightarrow> bool" where
  "same_but g rs rs' \<longleftrightarrow> map g (ch_rules rs') = map g (ch_rules rs) \<and> ch_catalog_digest rs' = ch_catalog_digest rs \<and>
     cd_engine_capabilities rs' = cd_engine_capabilities rs"

lemma same_but_refl [simp]: "same_but g rs rs"
  by (simp add: same_but_def)

lemma same_but_trans: "same_but g a b \<Longrightarrow> same_but g b c \<Longrightarrow> same_but g a c"
  by (simp add: same_but_def)

lemma map_update_frame: "(\<And>r. g (f r) = g r) \<Longrightarrow> map g (xs[c := f (xs ! c)]) = map g xs"
  by (cases "c < length xs") (simp_all add: map_update list_update_same_conv list_update_beyond)

lemma same_but_update: "(\<And>r. g (f r) = g r) \<Longrightarrow> same_but g rs (update_rule c f rs)"
  by (simp add: same_but_def update_rule_def map_update_frame)

lemma same_but_weaken:
  assumes "same_but g a b" and clears: "\<And>r. h (g r) = h r"
  shows "same_but h a b"
proof -
  have "map h rules = map h (map g rules)" for rules by (simp add: clears)
  then show ?thesis using assms(1) unfolding same_but_def by metis
qed

lemma same_but_length: "same_but g a b \<Longrightarrow> length (ch_rules b) = length (ch_rules a)"
  by (auto simp: same_but_def dest: map_eq_imp_length_eq)

lemma same_but_nth:
  assumes "same_but g a b" and "i < length (ch_rules a)"
  shows "g (ch_rules b ! i) = g (ch_rules a ! i)"
proof -
  have "map g (ch_rules b) ! i = map g (ch_rules a) ! i" using assms(1) by (simp add: same_but_def)
  then show ?thesis using assms(2) same_but_length [OF assms(1)] by simp
qed

lemma update_rule_simps [simp]:
  "ch_steps (update_rule c f rs) = ch_steps rs" "ch_ports (update_rule c f rs) = ch_ports rs"
  "ch_catalog_digest (update_rule c f rs) = ch_catalog_digest rs"
  "cd_engine_capabilities (update_rule c f rs) = cd_engine_capabilities rs"
  "length (ch_rules (update_rule c f rs)) = length (ch_rules rs)"
  by (simp_all add: update_rule_def)

lemma cd_stat_simps [simp]:
  "ch_rules (cd_stat f rs) = ch_rules rs" "ch_steps (cd_stat f rs) = ch_steps rs" "ch_ports (cd_stat f rs) = ch_ports rs"
  "ch_catalog_digest (cd_stat f rs) = ch_catalog_digest rs" "cd_engine_capabilities (cd_stat f rs) = cd_engine_capabilities rs"
  by (simp_all add: cd_stat_def)

definition no_first_step :: "chain_rule \<Rightarrow> chain_rule" where
  "no_first_step r = r\<lparr>cr_first_step := 0\<rparr>"

definition no_ports :: "chain_rule \<Rightarrow> chain_rule" where
  "no_ports r = r\<lparr>cr_first_port := 0, cr_port_count := 0\<rparr>"

definition no_final :: "chain_rule \<Rightarrow> chain_rule" where
  "no_final r = r\<lparr>cr_first_port := 0, cr_active := 0\<rparr>"

definition unplaced :: "chain_rule \<Rightarrow> chain_rule" where
  "unplaced r = r\<lparr>cr_first_step := 0, cr_first_port := 0, cr_port_count := 0, cr_active := 0\<rparr>"

lemma unplaced_clears [simp]:
  "unplaced (no_first_step r) = unplaced r" "unplaced (no_ports r) = unplaced r" "unplaced (no_final r) = unplaced r"
  by (simp_all add: unplaced_def no_first_step_def no_ports_def no_final_def)

lemma rules_static_unplaced: "rules_static (map unplaced rules) \<longleftrightarrow> rules_static rules"
  by (simp add: rules_static_def list_all_iff rule_static_def unplaced_def comp_def)

lemma rules_static_same: "same_but unplaced a b \<Longrightarrow> rules_static (ch_rules b) \<longleftrightarrow> rules_static (ch_rules a)"
  by (metis rules_static_unplaced same_but_def)

lemma rules_static_distinct:
  assumes "rules_static rules"
  shows "distinct (map cr_signature_rule_id rules)"
  using assms by (auto simp: rules_static_def strict_sorted_iff)

section \<open>Rules\<close>

text \<open>A set with rules only.\<close>

definition rules_read :: "chain_db \<Rightarrow> bool" where
  "rules_read rs \<longleftrightarrow> rules_static (ch_rules rs) \<and> list_all (\<lambda>r. cr_port_count r = 0 \<and> cr_active r = 0) (ch_rules rs) \<and>
     ch_steps rs = [] \<and> ch_ports rs = []"

lemma ascending_snoc:
  "sorted_wrt (<) (map cr_signature_rule_id rules) \<Longrightarrow>
   rules \<noteq> [] \<longrightarrow> cr_signature_rule_id (last rules) < cr_signature_rule_id r \<Longrightarrow>
   sorted_wrt (<) (map cr_signature_rule_id (rules @ [r]))"
  using sorted_wrt_snoc [of "(<)" "map cr_signature_rule_id rules" "cr_signature_rule_id r"]
  by (simp add: last_map transp_on_less)

lemma load_chain_rule_rows_read:
  "load_chain_rule_rows le rows rs = Inr rs' \<Longrightarrow> rules_read rs \<Longrightarrow>
   rules_read rs' \<and> ch_catalog_digest rs' = ch_catalog_digest rs \<and> cd_engine_capabilities rs' = cd_engine_capabilities rs"
proof (induction rows arbitrary: rs)
  case (Cons r rows)
  obtain rule rs1 where rule: "chain_rule_of_row r (ch_rules rs) = Some rule"
      and add: "jmx_chain_rule_set_add_rule (le_realloc le) rule rs = Some rs1" and rest: "load_chain_rule_rows le rows rs1 = Inr rs'"
    using Cons.prems(1) by (auto split: option.splits)
  obtain capacity where rs1: "rs1 = rs\<lparr>ch_rules := ch_rules rs @ [rule], cd_rule_capacity := capacity\<rparr>"
      and rid: "cr_signature_rule_id rule \<noteq> 0"
    using add by (auto simp: jmx_chain_rule_set_add_rule_def split: if_splits option.splits)
  note row = chain_rule_of_row_ok [OF rule]
  have "rules_read rs1"
    using Cons.prems(2) row(1) [OF rid] row(2-4) ascending_snoc [of "ch_rules rs" rule]
    by (simp add: rules_read_def rules_static_def rs1)
  with Cons.IH [OF rest] show ?case by (simp add: rs1)
qed simp

lemma run_rows_Inr: "run_rows q loop rs = Inr rs' \<Longrightarrow> \<exists>rows. q = Rows rows True \<and> loop rows = Inr rs'"
  by (auto simp: run_rows_def split: query.splits sum.splits if_splits)

section \<open>Steps\<close>

lemma enter_steps_frame:
  assumes "enter_steps rid (current, expected, rs) = (current', expected', rs')"
  shows "same_but no_first_step rs rs'" "ch_steps rs' = ch_steps rs" "ch_ports rs' = ch_ports rs"
  using assms same_but_update [of no_first_step] unfolding enter_steps_def
  by (auto simp: no_first_step_def split: if_splits option.splits)

lemma load_chain_step_rows_read:
  "load_chain_step_rows le rows current expected rs = Inr rs' \<Longrightarrow>
   same_but no_first_step rs rs' \<and> ch_ports rs' = ch_ports rs \<and>
   (list_all step_loaded (ch_steps rs) \<longrightarrow> list_all step_loaded (ch_steps rs'))"
proof (induction rows arbitrary: current expected rs)
  case (Cons r rows)
  obtain s c expected1 rs1 rs2 where s: "chain_step_of_row r = Some s"
      and enter: "enter_steps (cs_signature_rule_id s) (current, expected, rs) = (Some c, expected1, rs1)"
      and ok: "cs_step_index s = 0 \<longrightarrow> cs_position_flags s AND (JMX_V3_POS_DISTANCE OR JMX_V3_POS_WITHIN) = 0"
        "validate_step_semantics s"
      and add: "jmx_chain_rule_set_add_step (le_realloc le) s rs1 = Some rs2"
      and rest: "load_chain_step_rows le rows (Some c) (expected1 + 1) rs2 = Inr rs'"
    using Cons.prems by (auto split: option.splits prod.splits if_splits)
  note frame = enter_steps_frame [OF enter]
  obtain capacity where rs2: "rs2 = rs1\<lparr>ch_steps := ch_steps rs1 @ [s], cd_step_capacity := capacity\<rparr>"
      and rid: "cs_signature_rule_id s \<noteq> 0"
    using add by (auto simp: jmx_chain_rule_set_add_step_def split: if_splits option.splits)
  have "step_loaded s" using chain_step_of_row_read [OF s] rid ok by (simp add: step_loaded_def)
  moreover have "same_but no_first_step rs rs2" using frame(1) by (simp add: rs2 same_but_def)
  ultimately show ?case using Cons.IH [OF rest] frame(2,3) same_but_trans by (auto simp: rs2)
qed simp

section \<open>Ports\<close>

text \<open>The ports ascend by rule, and every rule counts its ports; if it has some, it points to the first.\<close>

definition own_ports :: "chain_port list \<Rightarrow> u32 \<Rightarrow> chain_port list" where
  "own_ports ports rid = filter (\<lambda>p. cp_signature_rule_id p = rid) ports"

definition ports_before :: "chain_port list \<Rightarrow> u32 \<Rightarrow> nat" where
  "ports_before ports rid = length (filter (\<lambda>p. cp_signature_rule_id p < rid) ports)"

definition rule_placed :: "chain_port list \<Rightarrow> chain_rule \<Rightarrow> bool" where
  "rule_placed ports r \<longleftrightarrow> cr_port_count r \<le> JMX_V3_MAX_PORTS_PER_RULE \<and>
     unat (cr_port_count r) = length (own_ports ports (cr_signature_rule_id r)) \<and>
     (cr_port_count r \<noteq> 0 \<longrightarrow> cr_first_port r = word_of_nat (ports_before ports (cr_signature_rule_id r)))"

definition ports_placed :: "chain_db \<Rightarrow> bool" where
  "ports_placed rs \<longleftrightarrow> sorted (map cp_signature_rule_id (ch_ports rs)) \<and> list_all port_loaded (ch_ports rs) \<and>
     list_all (rule_placed (ch_ports rs)) (ch_rules rs)"

definition current_rule :: "nat option \<Rightarrow> chain_db \<Rightarrow> bool" where
  "current_rule current rs \<longleftrightarrow> (case current of None \<Rightarrow> ch_ports rs = []
     | Some c \<Rightarrow> c < length (ch_rules rs) \<and> ch_ports rs \<noteq> [] \<and>
         cr_signature_rule_id (ch_rules rs ! c) = cp_signature_rule_id (last (ch_ports rs)))"

lemma chain_port_of_row_ok:
  assumes "chain_port_of_row r = Some p"
  shows "uint (cp_signature_rule_id p) = c_int64 (r 0)" "cp_signature_rule_id p \<noteq> 0 \<Longrightarrow> port_loaded p"
proof -
  have id: "column_u32 (r 0) = Some (cp_signature_rule_id p)"
    using assms by (auto simp: chain_port_of_row_def split: Option.bind_splits if_splits)
  then have "cp_signature_rule_id p = word_of_int (c_int64 (r 0))" "0 \<le> c_int64 (r 0)" "c_int64 (r 0) < 2 ^ 32"
    by (auto simp: column_u32_def u32_of_def split: if_splits)
  then show "uint (cp_signature_rule_id p) = c_int64 (r 0)" by (simp add: unsigned_of_int take_bit_int_eq_self)
  show "cp_signature_rule_id p \<noteq> 0 \<Longrightarrow> port_loaded p"
    using assms by (auto simp: chain_port_of_row_def port_loaded_def not_less split: Option.bind_splits if_splits
        dest: parse_chain_bounds(3))
qed

text \<open>One more port, of the rule \<open>c\<close>, which is not less than those that are there.\<close>

lemma place_port:
  assumes placed: "list_all (rule_placed ports) rules" and ids: "distinct (map cr_signature_rule_id rules)"
    and c: "c < length rules" "cr_signature_rule_id (rules ! c) = cp_signature_rule_id p"
    and ascends: "\<forall>q \<in> set ports. cp_signature_rule_id q \<le> cp_signature_rule_id p"
    and room: "cr_port_count (rules ! c) < JMX_V3_MAX_PORTS_PER_RULE"
    and first: "first = word_of_nat (ports_before ports (cp_signature_rule_id p))"
  shows "list_all (rule_placed (ports @ [p]))
    (rules[c := (rules ! c)\<lparr>cr_first_port := first, cr_port_count := cr_port_count (rules ! c) + 1\<rparr>])"
proof (simp only: list_all_length length_list_update, intro allI impI)
  fix i
  assume i: "i < length rules"
  have old: "rule_placed ports (rules ! i)" using placed i by (simp add: list_all_length)
  show "rule_placed (ports @ [p])
      (rules[c := (rules ! c)\<lparr>cr_first_port := first, cr_port_count := cr_port_count (rules ! c) + 1\<rparr>] ! i)"
  proof (cases "i = c")
    case True
    have "unat (cr_port_count (rules ! c) + 1) = unat (cr_port_count (rules ! c)) + 1"
      "cr_port_count (rules ! c) + 1 \<le> JMX_V3_MAX_PORTS_PER_RULE"
      using room by (simp_all add: unat_arith_simps)
    then show ?thesis using old True i c(2) first by (simp add: rule_placed_def own_ports_def ports_before_def)
  next
    case False
    then have other: "cr_signature_rule_id (rules ! i) \<noteq> cp_signature_rule_id p"
      using ids i c by (metis length_map nth_eq_iff_index_eq nth_map)
    have "\<not> cp_signature_rule_id p < cr_signature_rule_id (rules ! i)" if "cr_port_count (rules ! i) \<noteq> 0"
    proof -
      have "own_ports ports (cr_signature_rule_id (rules ! i)) \<noteq> []" using old that by (auto simp: rule_placed_def unat_eq_zero)
      then obtain q where "q \<in> set ports" "cp_signature_rule_id q = cr_signature_rule_id (rules ! i)"
        by (auto simp: own_ports_def filter_empty_conv)
      then show ?thesis using ascends by fastforce
    qed
    then show ?thesis using old False other by (auto simp: rule_placed_def own_ports_def ports_before_def)
  qed
qed

lemma sorted_le_last: "sorted (map f xs) \<Longrightarrow> x \<in> set xs \<Longrightarrow> f x \<le> f (last xs)"
  by (induction xs) (auto simp: last_in_set)

lemma enter_ports_place:
  assumes enter: "enter_ports rid current rs = Some (c, rs')" and current: "current_rule current rs"
    and static: "rules_static (ch_rules rs)" and placed: "ports_placed rs"
    and ascends: "\<forall>q \<in> set (ch_ports rs). cp_signature_rule_id q \<le> rid"
  shows "c < length (ch_rules rs)" "cr_signature_rule_id (ch_rules rs ! c) = rid"
    and "rs' = update_rule c (\<lambda>r. r\<lparr>cr_first_port := word_of_nat (ports_before (ch_ports rs) rid)\<rparr>) rs"
proof -
  have sorted: "sorted (map cp_signature_rule_id (ch_ports rs))" using placed by (simp add: ports_placed_def)
  have "c < length (ch_rules rs) \<and> cr_signature_rule_id (ch_rules rs ! c) = rid \<and>
    rs' = update_rule c (\<lambda>r. r\<lparr>cr_first_port := word_of_nat (ports_before (ch_ports rs) rid)\<rparr>) rs"
  proof (cases "other_rule current rid rs")
    case True
    then have "jmx_chain_rule_find rs rid = Some c"
      and rs': "rs' = update_rule c (\<lambda>r. r\<lparr>cr_first_port := word_of_nat (length (ch_ports rs))\<rparr>) rs"
      using enter by (auto simp: enter_ports_def split: option.splits)
    then have c: "c < length (ch_rules rs)" "cr_signature_rule_id (ch_rules rs ! c) = rid"
      using chain_find_exact static by (auto simp: rules_static_def)
    have "cp_signature_rule_id q < rid" if q: "q \<in> set (ch_ports rs)" for q
    proof -
      have "cp_signature_rule_id (last (ch_ports rs)) \<noteq> rid" "ch_ports rs \<noteq> []"
        using True current q by (auto simp: other_rule_def current_rule_def split: option.splits)
      then have "cp_signature_rule_id (last (ch_ports rs)) < rid" using ascends by (simp add: order_less_le)
      then show ?thesis using sorted_le_last [OF sorted q] by simp
    qed
    then have "ports_before (ch_ports rs) rid = length (ch_ports rs)" by (simp add: ports_before_def)
    then show ?thesis using c rs' by simp
  next
    case False
    then have c: "current = Some c" "rs' = rs" "cr_signature_rule_id (ch_rules rs ! c) = rid"
      using enter by (auto simp: enter_ports_def other_rule_def split: option.splits)
    then have len: "c < length (ch_rules rs)" and "last (ch_ports rs) \<in> set (ch_ports rs)"
        "cp_signature_rule_id (last (ch_ports rs)) = rid"
      using current by (auto simp: current_rule_def)
    then have "own_ports (ch_ports rs) rid \<noteq> []" by (auto simp: own_ports_def filter_empty_conv)
    moreover have "rule_placed (ch_ports rs) (ch_rules rs ! c)" using placed len by (simp add: ports_placed_def list_all_length)
    ultimately have "cr_first_port (ch_rules rs ! c) = word_of_nat (ports_before (ch_ports rs) rid)"
      using c(3) by (auto simp: rule_placed_def)
    then have "(ch_rules rs ! c)\<lparr>cr_first_port := word_of_nat (ports_before (ch_ports rs) rid)\<rparr> = ch_rules rs ! c" by simp
    then show ?thesis using c len by (simp add: update_rule_def)
  qed
  then show "c < length (ch_rules rs)" "cr_signature_rule_id (ch_rules rs ! c) = rid"
    "rs' = update_rule c (\<lambda>r. r\<lparr>cr_first_port := word_of_nat (ports_before (ch_ports rs) rid)\<rparr>) rs" by blast+
qed

lemma load_chain_port_rows_placed:
  "load_chain_port_rows le rows current rs = Inr rs' \<Longrightarrow> current_rule current rs \<Longrightarrow> rules_static (ch_rules rs) \<Longrightarrow>
   ports_placed rs \<Longrightarrow> sorted (map (\<lambda>r. c_int64 (r 0)) rows) \<Longrightarrow>
   \<forall>q \<in> set (ch_ports rs). \<forall>r \<in> set rows. uint (cp_signature_rule_id q) \<le> c_int64 (r 0) \<Longrightarrow>
   ports_placed rs' \<and> same_but no_ports rs rs' \<and> ch_steps rs' = ch_steps rs"
proof (induction rows arbitrary: current rs)
  case (Cons r rows)
  obtain p c rs1 rs2 where p: "chain_port_of_row r = Some p"
      and enter: "enter_ports (cp_signature_rule_id p) current rs = Some (c, rs1)"
      and room: "\<not> JMX_V3_MAX_PORTS_PER_RULE \<le> cr_port_count (ch_rules rs1 ! c)"
      and add: "jmx_chain_rule_set_add_port (le_realloc le) p rs1 = Some rs2"
      and rest: "load_chain_port_rows le rows (Some c) (update_rule c (\<lambda>rule. rule\<lparr>cr_port_count := cr_port_count rule + 1\<rparr>) rs2) = Inr rs'"
    using Cons.prems(1) by (auto split: option.splits if_splits)
  note row = chain_port_of_row_ok [OF p]
  have ascends: "\<forall>q \<in> set (ch_ports rs). cp_signature_rule_id q \<le> cp_signature_rule_id p"
    using Cons.prems(6) by (simp add: word_le_def row(1))
  note c = enter_ports_place [OF enter Cons.prems(2-4) ascends]
  obtain capacity where rs2: "rs2 = rs1\<lparr>ch_ports := ch_ports rs1 @ [p], cd_port_capacity := capacity\<rparr>"
      and rid: "cp_signature_rule_id p \<noteq> 0"
    using add by (auto simp: jmx_chain_rule_set_add_port_def split: if_splits option.splits)
  define first where "first = (word_of_nat (ports_before (ch_ports rs) (cp_signature_rule_id p)) :: u32)"
  define rs3 where "rs3 = update_rule c (\<lambda>rule. rule\<lparr>cr_port_count := cr_port_count rule + 1\<rparr>) rs2"
  have rules3: "ch_rules rs3 = (ch_rules rs)[c := (ch_rules rs ! c)\<lparr>cr_first_port := first, cr_port_count := cr_port_count (ch_rules rs ! c) + 1\<rparr>]"
    and rest3: "ch_ports rs3 = ch_ports rs @ [p]" "ch_steps rs3 = ch_steps rs"
    using c(1) by (simp_all add: rs3_def rs2 c(3) update_rule_def first_def)
  have same: "same_but no_ports rs rs3"
    using map_update_frame [of no_ports "\<lambda>r. r\<lparr>cr_first_port := first, cr_port_count := cr_port_count r + 1\<rparr>" "ch_rules rs" c]
    by (simp add: same_but_def rules3 no_ports_def) (simp add: rs3_def rs2 c(3))
  have "rules_static (ch_rules rs3)"
    using rules_static_same [OF same_but_weaken [OF same, of unplaced]] Cons.prems(3) by simp
  moreover have "current_rule (Some c) rs3" using c(1,2) by (simp add: current_rule_def rules3 rest3)
  moreover have "ports_placed rs3"
  proof -
    have "cr_port_count (ch_rules rs ! c) < JMX_V3_MAX_PORTS_PER_RULE" using room c(1) by (simp add: c(3) update_rule_def)
    then have "list_all (rule_placed (ch_ports rs3)) (ch_rules rs3)"
      unfolding rules3 rest3(1) using Cons.prems(4) c(1,2) ascends rules_static_distinct [OF Cons.prems(3)]
      by (intro place_port) (simp_all add: ports_placed_def first_def)
    moreover have "sorted (map cp_signature_rule_id (ch_ports rs3))"
      using Cons.prems(4) ascends by (simp add: rest3 ports_placed_def sorted_append)
    ultimately show ?thesis using Cons.prems(4) row(2) [OF rid] by (simp add: ports_placed_def rest3)
  qed
  moreover have "\<forall>q \<in> set (ch_ports rs3). \<forall>r \<in> set rows. uint (cp_signature_rule_id q) \<le> c_int64 (r 0)"
    using Cons.prems(5,6) row(1) by (auto simp: rest3)
  moreover have "sorted (map (\<lambda>r. c_int64 (r 0)) rows)" using Cons.prems(5) by simp
  ultimately have "ports_placed rs' \<and> same_but no_ports rs3 rs' \<and> ch_steps rs' = ch_steps rs3"
    using Cons.IH [OF rest [folded rs3_def]] by blast
  then show ?case using same same_but_trans rest3(2) by metis
qed simp

section \<open>Finishing\<close>

lemma truncate_simps [simp]:
  "ch_rules (chain_set.truncate rs) = ch_rules rs" "ch_steps (chain_set.truncate rs) = ch_steps rs"
  "ch_ports (chain_set.truncate rs) = ch_ports rs" "ch_catalog_digest (chain_set.truncate rs) = ch_catalog_digest rs"
  by (simp_all add: chain_set.truncate_def)

definition rule_finished :: "chain_db \<Rightarrow> chain_rule \<Rightarrow> bool" where
  "rule_finished rs r \<longleftrightarrow> unat (cr_first_step r) + unat (cr_step_count r) \<le> length (ch_steps rs) \<and> steps_contiguous rs r \<and>
     cr_required_caps r AND inferred_caps rs r = inferred_caps rs r \<and>
     (cr_port_count r = 0 \<longrightarrow> cr_first_port r = word_of_nat (length (ch_ports rs))) \<and>
     (cr_active r \<noteq> 0 \<longleftrightarrow> cr_required_caps r AND NOT (cd_engine_capabilities rs) = 0)"

lemma rule_finished_same:
  "ch_steps rs' = ch_steps rs \<Longrightarrow> ch_ports rs' = ch_ports rs \<Longrightarrow> cd_engine_capabilities rs' = cd_engine_capabilities rs \<Longrightarrow>
   rule_finished rs' r = rule_finished rs r"
  by (simp add: rule_finished_def steps_contiguous_def inferred_caps_def chain_steps_of_def)

lemma finalize_rule_ok:
  assumes run: "finalize_rule i rs = Inr rs'" and i: "i < length (ch_rules rs)" and idle: "cr_active (ch_rules rs ! i) = 0"
  shows "\<exists>port active. ch_rules rs' = (ch_rules rs)[i := (ch_rules rs ! i)\<lparr>cr_first_port := port, cr_active := active\<rparr>] \<and>
      (cr_port_count (ch_rules rs ! i) \<noteq> 0 \<longrightarrow> port = cr_first_port (ch_rules rs ! i))"
    and "ch_steps rs' = ch_steps rs" "ch_ports rs' = ch_ports rs" "ch_catalog_digest rs' = ch_catalog_digest rs"
    and "cd_engine_capabilities rs' = cd_engine_capabilities rs" "rule_finished rs' (ch_rules rs' ! i)"
proof -
  define r where "r = ch_rules rs ! i"
  define port where "port = (if cr_port_count r = 0 then word_of_nat (length (ch_ports rs)) else cr_first_port r)"
  define ready where "ready \<longleftrightarrow> cr_required_caps r AND NOT (cd_engine_capabilities rs) = 0"
  have ok: "unat (cr_first_step r) + unat (cr_step_count r) \<le> length (ch_steps rs)" "steps_contiguous rs r"
    "cr_required_caps r AND inferred_caps rs r = inferred_caps rs r"
    using run by (auto simp: finalize_rule_def Let_def r_def not_less split: if_splits)
  have "(r\<lparr>cr_first_port := port\<rparr>)\<lparr>cr_active := 0\<rparr> = r\<lparr>cr_first_port := port\<rparr>" using idle by (simp add: r_def)
  then have rules: "ch_rules rs' = (ch_rules rs)[i := r\<lparr>cr_first_port := port, cr_active := if ready then 1 else 0\<rparr>]"
    using run i unfolding ready_def
    by (auto simp: finalize_rule_def Let_def update_rule_def r_def port_def split: if_splits)
  then show "\<exists>port active. ch_rules rs' = (ch_rules rs)[i := (ch_rules rs ! i)\<lparr>cr_first_port := port, cr_active := active\<rparr>] \<and>
      (cr_port_count (ch_rules rs ! i) \<noteq> 0 \<longrightarrow> port = cr_first_port (ch_rules rs ! i))"
    unfolding r_def port_def by (intro exI conjI) auto
  show same: "ch_steps rs' = ch_steps rs" "ch_ports rs' = ch_ports rs" "ch_catalog_digest rs' = ch_catalog_digest rs"
    "cd_engine_capabilities rs' = cd_engine_capabilities rs"
    using run by (auto simp: finalize_rule_def Let_def split: if_splits)
  show "rule_finished rs' (ch_rules rs' ! i)"
    using ok i by (simp add: rules rule_finished_same [OF same(1,2,4)])
      (simp add: rule_finished_def steps_contiguous_def inferred_caps_def chain_steps_of_def port_def ready_def)
qed

lemma finalize_loop_ok:
  "finalize_loop is rs = Inr rs' \<Longrightarrow> distinct is \<Longrightarrow> \<forall>i \<in> set is. i < length (ch_rules rs) \<and> cr_active (ch_rules rs ! i) = 0 \<Longrightarrow>
   list_all (rule_placed (ch_ports rs)) (ch_rules rs) \<Longrightarrow>
   same_but no_final rs rs' \<and> ch_steps rs' = ch_steps rs \<and> ch_ports rs' = ch_ports rs \<and>
   list_all (rule_placed (ch_ports rs')) (ch_rules rs') \<and> (\<forall>i \<in> set is. rule_finished rs' (ch_rules rs' ! i)) \<and>
   (\<forall>i. i \<notin> set is \<longrightarrow> ch_rules rs' ! i = ch_rules rs ! i)"
proof (induction "is" arbitrary: rs)
  case (Cons i "is")
  obtain rs1 where run: "finalize_rule i rs = Inr rs1" and rest: "finalize_loop is rs1 = Inr rs'"
    using Cons.prems(1) by (auto split: sum.splits)
  have i: "i < length (ch_rules rs)" "cr_active (ch_rules rs ! i) = 0" using Cons.prems(3) by simp_all
  note ok = finalize_rule_ok [OF run i]
  obtain port active where rules: "ch_rules rs1 = (ch_rules rs)[i := (ch_rules rs ! i)\<lparr>cr_first_port := port, cr_active := active\<rparr>]"
      and port: "cr_port_count (ch_rules rs ! i) \<noteq> 0 \<longrightarrow> port = cr_first_port (ch_rules rs ! i)"
    using ok(1) by blast
  have same: "same_but no_final rs rs1"
    using map_update_frame [of no_final "\<lambda>r. r\<lparr>cr_first_port := port, cr_active := active\<rparr>" "ch_rules rs" i]
    by (simp add: same_but_def rules no_final_def ok(4,5))
  have "rule_placed (ch_ports rs) (ch_rules rs ! i)" using Cons.prems(4) i by (simp add: list_all_length)
  then have "rule_placed (ch_ports rs) ((ch_rules rs ! i)\<lparr>cr_first_port := port, cr_active := active\<rparr>)"
    using port by (auto simp: rule_placed_def)
  then have placed: "list_all (rule_placed (ch_ports rs1)) (ch_rules rs1)"
    using Cons.prems(4) by (auto simp: rules ok(3) list_all_iff dest!: set_update_subset_insert [THEN subsetD])
  have idle: "\<forall>j \<in> set is. j < length (ch_rules rs1) \<and> cr_active (ch_rules rs1 ! j) = 0"
    using Cons.prems(2,3) by (auto simp: rules nth_list_update)
  have IH: "same_but no_final rs1 rs'" "ch_steps rs' = ch_steps rs1" "ch_ports rs' = ch_ports rs1"
    "list_all (rule_placed (ch_ports rs')) (ch_rules rs')" "\<forall>i \<in> set is. rule_finished rs' (ch_rules rs' ! i)"
    "\<And>j. j \<notin> set is \<Longrightarrow> ch_rules rs' ! j = ch_rules rs1 ! j"
    using Cons.IH [OF rest _ idle placed] Cons.prems(2) by auto
  have "cd_engine_capabilities rs' = cd_engine_capabilities rs1" using IH(1) by (simp add: same_but_def)
  then have "rule_finished rs' (ch_rules rs' ! i)"
    using rule_finished_same [OF IH(2,3)] IH(6) [of i] ok(6) Cons.prems(2) by simp
  moreover have "ch_rules rs' ! j = ch_rules rs ! j" if "j \<notin> set (i # is)" for j
    using IH(6) [of j] that by (simp add: rules)
  ultimately show ?case using IH(1-5) same_but_trans [OF same] ok(2,3) by simp
qed simp

section \<open>The loaded set\<close>

text \<open>What \<open>ORDER BY\<close> of the statement for the ports promises.\<close>

definition ports_in_order :: "signature_db \<Rightarrow> bool" where
  "ports_in_order db \<longleftrightarrow> (case sd_chain_ports db of Not_prepared \<Rightarrow> True | Rows rows finished \<Rightarrow> sorted (map (\<lambda>r. c_int64 (r 0)) rows))"

definition chain_loaded :: "chain_db \<Rightarrow> bool" where
  "chain_loaded rs \<longleftrightarrow> rules_static (ch_rules rs) \<and> list_all step_loaded (ch_steps rs) \<and> ports_placed rs \<and>
     list_all (rule_finished rs) (ch_rules rs) \<and> length (ch_catalog_digest rs) = 32"

lemma same_but_all:
  assumes "same_but g a b" and clears: "\<And>r. P (g r) = P r"
  shows "list_all P (ch_rules b) = list_all P (ch_rules a)"
proof -
  have "list_all P rules = list_all P (map g rules)" for rules by (simp add: list.pred_map comp_def clears)
  then show ?thesis using assms(1) unfolding same_but_def by metis
qed

lemma load_chain_records_loaded:
  assumes load: "load_chain_records le db rs = Inr rs'" and start: "rules_read rs" and order: "ports_in_order db"
    and digest: "length (ch_catalog_digest rs) = 32"
  shows "chain_loaded rs'" "cd_engine_capabilities rs' = cd_engine_capabilities rs" "ch_catalog_digest rs' = ch_catalog_digest rs"
proof -
  obtain rs1 rs2 rs3 where rules: "load_chain_rules le db rs = Inr rs1" and steps: "load_chain_steps le db rs1 = Inr rs2"
      and ports: "load_chain_ports le db rs2 = Inr rs3" and final: "finalize_chain_rules rs3 = Inr rs'"
    using load by (auto simp: load_chain_records_def split: sum.splits)
  have r1: "rules_read rs1" "ch_catalog_digest rs1 = ch_catalog_digest rs" "cd_engine_capabilities rs1 = cd_engine_capabilities rs"
    using run_rows_Inr [OF rules [unfolded load_chain_rules_def]] load_chain_rule_rows_read start by blast+
  obtain srows where "load_chain_step_rows le srows None 0 rs1 = Inr rs2"
    using run_rows_Inr [OF steps [unfolded load_chain_steps_def]] by blast
  from load_chain_step_rows_read [OF this] have s2: "same_but no_first_step rs1 rs2" "ch_ports rs2 = []"
    "list_all step_loaded (ch_steps rs2)" using r1(1) by (simp_all add: rules_read_def)
  have static2: "rules_static (ch_rules rs2)"
    using rules_static_same [OF same_but_weaken [OF s2(1), of unplaced]] r1(1) by (simp add: rules_read_def)
  have zero2: "list_all (\<lambda>r. cr_port_count r = 0 \<and> cr_active r = 0) (ch_rules rs2)"
    using same_but_all [OF s2(1), of "\<lambda>r. cr_port_count r = 0 \<and> cr_active r = 0"] r1(1)
    by (simp add: no_first_step_def rules_read_def)
  obtain prows where p: "load_chain_port_rows le prows None rs2 = Inr rs3" "sorted (map (\<lambda>r. c_int64 (r 0)) prows)"
    using run_rows_Inr [OF ports [unfolded load_chain_ports_def]] order by (auto simp: ports_in_order_def)
  have "ports_placed rs2" using zero2 s2(2) by (simp add: ports_placed_def list_all_iff rule_placed_def own_ports_def)
  then have p3: "ports_placed rs3" "same_but no_ports rs2 rs3" "ch_steps rs3 = ch_steps rs2"
    using load_chain_port_rows_placed [OF p(1) _ static2 _ p(2)] s2(2) by (simp_all add: current_rule_def)
  have "list_all (\<lambda>r. cr_active r = 0) (ch_rules rs3)"
    using same_but_all [OF p3(2), of "\<lambda>r. cr_active r = 0"] zero2 by (simp add: no_ports_def list_all_iff)
  then have idle: "\<forall>i \<in> set [0..<length (ch_rules rs3)]. i < length (ch_rules rs3) \<and> cr_active (ch_rules rs3 ! i) = 0"
    by (simp add: list_all_length)
  have "list_all (rule_placed (ch_ports rs3)) (ch_rules rs3)" using p3(1) by (simp add: ports_placed_def)
  note loop = finalize_loop_ok [OF final [unfolded finalize_chain_rules_def] distinct_upt idle this]
  have f: "same_but no_final rs3 rs'" "ch_steps rs' = ch_steps rs3" "ch_ports rs' = ch_ports rs3"
    "list_all (rule_placed (ch_ports rs')) (ch_rules rs')" using loop by blast+
  have finished: "\<forall>i < length (ch_rules rs3). rule_finished rs' (ch_rules rs' ! i)" using loop by simp
  have "list_all (rule_finished rs') (ch_rules rs')" using finished same_but_length [OF f(1)] by (simp add: list_all_length)
  moreover have "ports_placed rs'" using p3(1) f(3,4) by (simp add: ports_placed_def)
  moreover have all: "same_but unplaced rs2 rs'"
    by (rule same_but_trans [OF same_but_weaken [OF p3(2)] same_but_weaken [OF f(1)]]) simp_all
  ultimately show "chain_loaded rs'"
    using rules_static_same [OF all] static2 digest f(2) p3(3) s2(1,3) r1(2) by (simp add: chain_loaded_def same_but_def)
  show "cd_engine_capabilities rs' = cd_engine_capabilities rs" "ch_catalog_digest rs' = ch_catalog_digest rs"
    using all s2(1) r1(2,3) by (simp_all add: same_but_def)
qed

lemma no_rules_loaded: "ch_rules rs = [] \<Longrightarrow> ch_steps rs = [] \<Longrightarrow> ch_ports rs = [] \<Longrightarrow> length (ch_catalog_digest rs) = 32 \<Longrightarrow> chain_loaded rs"
  by (simp add: chain_loaded_def rules_static_def ports_placed_def)

lemma stat_query_frame: "stat_query q put (ok, rs) = (ok', rs') \<Longrightarrow> \<exists>f. rs' = cd_stat f rs"
  by (auto simp: stat_query_def cd_stat_def split: if_splits option.splits intro: exI [of _ "\<lambda>st. st"])

lemma cd_stat_cd_stat: "cd_stat f (cd_stat g rs) = cd_stat (f \<circ> g) rs"
  by (simp add: cd_stat_def)

lemma load_chain_stats_frame: "load_chain_stats db rs = (ok, rs') \<Longrightarrow> \<exists>f. rs' = cd_stat f rs"
  unfolding load_chain_stats_def by (metis stat_query_frame cd_stat_cd_stat surj_pair)

lemma load_chain_schema_loaded:
  assumes load: "load_chain_schema le db rs = (True, rs')" and start: "rules_read rs" "ch_rules rs = []"
    and digest: "length (ch_catalog_digest rs) = 32" and order: "ports_in_order db"
  shows "chain_loaded rs'" "cd_engine_capabilities rs' = cd_engine_capabilities rs"
proof -
  have "chain_loaded rs' \<and> cd_engine_capabilities rs' = cd_engine_capabilities rs"
  proof (cases "rs' = rs")
    case True
    then show ?thesis using start digest no_rules_loaded by (simp add: rules_read_def)
  next
    case False
    then obtain rs1 digest where stats: "load_chain_stats db (rs\<lparr>cd_schema_v2_present := True\<rparr>) = (True, rs1)"
        and cat: "load_catalog_digest le db = Some digest" and recs: "load_chain_records le db (rs1\<lparr>ch_catalog_digest := digest\<rparr>) = Inr rs'"
      using load by (auto simp: load_chain_schema_def Let_def split: if_splits prod.splits bool.splits option.splits sum.splits)
    have "length digest = 32" using cat by (auto simp: load_catalog_digest_def split: query.splits bool.splits if_splits Option.bind_splits)
    moreover have "rules_read rs1" "cd_engine_capabilities rs1 = cd_engine_capabilities rs"
      using load_chain_stats_frame [OF stats] start by (auto simp: rules_read_def)
    ultimately show ?thesis using load_chain_records_loaded [OF recs _ order] by (simp add: rules_read_def)
  qed
  then show "chain_loaded rs'" "cd_engine_capabilities rs' = cd_engine_capabilities rs" by blast+
qed

lemma loaded_chain:
  assumes load: "jmx_load_signature_db_with_chain le (Some db) caps = (True, rules, chain, status)" and order: "ports_in_order db"
  shows "chain_loaded chain" "status = Some True \<Longrightarrow> cd_engine_capabilities chain = caps AND JMX_V3_CAP_KNOWN_MASK"
proof -
  define start where "start = jmx_chain_rule_set_init (caps AND JMX_V3_CAP_KNOWN_MASK)"
  have start: "rules_read (cd_stat f start)" "length (ch_catalog_digest start) = 32" "ch_rules start = []"
      "cd_engine_capabilities start = caps AND JMX_V3_CAP_KNOWN_MASK" for f
    by (simp_all add: start_def jmx_chain_rule_set_init_def rules_read_def rules_static_def)
  obtain f ok chain1 where schema: "load_chain_schema le db (cd_stat f start) = (ok, chain1)" and status: "status = Some ok"
      and chain: "if ok then chain = chain1
        else ch_rules chain = [] \<and> ch_steps chain = [] \<and> ch_ports chain = [] \<and> length (ch_catalog_digest chain) = 32"
    using load unfolding start_def
    by (auto simp: jmx_load_signature_db_with_chain_def Let_def jmx_chain_rule_set_free_def jmx_chain_rule_set_init_def
        split: if_splits prod.splits)
  have "chain_loaded chain \<and> (status = Some True \<longrightarrow> cd_engine_capabilities chain = caps AND JMX_V3_CAP_KNOWN_MASK)"
  proof (cases ok)
    case True
    with schema have "load_chain_schema le db (cd_stat f start) = (True, chain1)" by simp
    then show ?thesis using load_chain_schema_loaded [OF _ start(1)] start order chain True by simp
  next
    case False
    then show ?thesis using chain status no_rules_loaded by simp
  qed
  then show "chain_loaded chain" "status = Some True \<Longrightarrow> cd_engine_capabilities chain = caps AND JMX_V3_CAP_KNOWN_MASK" by blast+
qed

end
