(* ===== verification/ChainAccept.thy ===== *)
theory ChainAccept
  imports ChainLoad
begin

text \<open>
  A loaded set of chain rules meets the checks of the control plane before a push, and those of the module.
\<close>

unbundle bit_operations_syntax

section \<open>The checks before a push\<close>

lemma sorted_run:
  assumes "sorted (map f xs)"
  shows "take (length (filter (\<lambda>x. f x = k) xs)) (drop (length (filter (\<lambda>x. f x < k) xs)) xs) = filter (\<lambda>x. f x = k) xs"
  using assms
proof (induction xs)
  case (Cons x xs)
  have none: "filter (\<lambda>x. f x < k) xs = []" if "k \<le> f x"
    using Cons.prems that by (auto simp: filter_empty_conv not_less)
  consider "f x < k" | "f x = k" | "k < f x" by (rule linorder_cases)
  then show ?case
  proof cases
    case 3
    then have "filter (\<lambda>x. f x = k) xs = []" using Cons.prems by (fastforce simp: filter_empty_conv)
    then show ?thesis using 3 by simp
  qed (use Cons none in auto)
qed simp

lemma run_in_words:
  fixes first :: u32
  assumes "unat first + n \<le> length xs" and "length xs < 2 ^ 32"
  shows "map (\<lambda>j. xs ! unat (first + word_of_nat j)) [0..<n] = take n (drop (unat first) xs)"
proof (rule nth_equalityI)
  fix i
  assume "i < length (map (\<lambda>j. xs ! unat (first + word_of_nat j)) [0..<n])"
  then have i: "i < n" by simp
  then have "unat (word_of_nat i :: u32) = i" using assms by (intro unat_word_of_nat) simp
  then have "unat (first + word_of_nat i) = unat first + i" using assms i by (simp add: unat_plus_if_size word_size)
  then show "map (\<lambda>j. xs ! unat (first + word_of_nat j)) [0..<n] ! i = take n (drop (unat first) xs) ! i"
    using i assms(1) by simp
qed (use assms in simp)

lemma loaded_ports:
  assumes loaded: "chain_loaded rs" and r: "r \<in> set (ch_rules rs)" and len: "length (ch_ports rs) < 2 ^ 32"
  shows "chain_ports_of (chain_set.truncate rs) r = own_ports (ch_ports rs) (cr_signature_rule_id r)"
    and "unat (cr_first_port r) + unat (cr_port_count r) \<le> length (ch_ports rs)"
proof -
  define k where "k = cr_signature_rule_id r"
  have sorted: "sorted (map cp_signature_rule_id (ch_ports rs))" and placed: "rule_placed (ch_ports rs) r"
    and finished: "rule_finished rs r"
    using loaded r by (auto simp: chain_loaded_def ports_placed_def list_all_iff)
  have "chain_ports_of (chain_set.truncate rs) r = own_ports (ch_ports rs) k \<and>
    unat (cr_first_port r) + unat (cr_port_count r) \<le> length (ch_ports rs)"
  proof (cases "cr_port_count r = 0")
    case True
    then have "own_ports (ch_ports rs) k = []" "cr_first_port r = word_of_nat (length (ch_ports rs))"
      using placed finished by (simp_all add: rule_placed_def rule_finished_def k_def)
    then show ?thesis using True len by (simp add: chain_ports_of_def unat_word_of_nat)
  next
    case False
    have before: "ports_before (ch_ports rs) k \<le> length (ch_ports rs)" by (simp add: ports_before_def)
    have first: "unat (cr_first_port r) = ports_before (ch_ports rs) k"
      using False placed before len by (simp add: rule_placed_def k_def unat_word_of_nat)
    have count: "unat (cr_port_count r) = length (own_ports (ch_ports rs) k)" using placed by (simp add: rule_placed_def k_def)
    have "ports_before ports k + length (own_ports ports k) \<le> length ports" for ports
      by (induction ports) (auto simp: ports_before_def own_ports_def)
    note room = this [of "ch_ports rs"]
    with first count run_in_words [of "cr_first_port r" "unat (cr_port_count r)" "ch_ports rs", OF _ len]
      sorted_run [OF sorted, of k]
    show ?thesis by (simp add: chain_ports_of_def ports_before_def own_ports_def)
  qed
  then show "chain_ports_of (chain_set.truncate rs) r = own_ports (ch_ports rs) (cr_signature_rule_id r)"
    "unat (cr_first_port r) + unat (cr_port_count r) \<le> length (ch_ports rs)" by (simp_all add: k_def)
qed

lemma length_chain_steps_of [simp]: "length (chain_steps_of rs r) = unat (cr_step_count r)"
  by (simp add: chain_steps_of_def)

lemma contiguous_nth:
  "steps_contiguous rs r \<longleftrightarrow> (\<forall>j < unat (cr_step_count r).
     cs_signature_rule_id (chain_steps_of (chain_set.truncate rs) r ! j) = cr_signature_rule_id r \<and>
     unat (cs_step_index (chain_steps_of (chain_set.truncate rs) r ! j)) = j)"
  by (simp add: steps_contiguous_def list_all_length nth_enumerate_eq)

lemma loaded_steps:
  assumes loaded: "chain_loaded rs" and r: "r \<in> set (ch_rules rs)" and s: "s \<in> set (chain_steps_of (chain_set.truncate rs) r)"
  shows "step_loaded s" "cs_signature_rule_id s = cr_signature_rule_id r"
proof -
  have finished: "rule_finished rs r" and steps: "list_all step_loaded (ch_steps rs)"
    using loaded r by (auto simp: chain_loaded_def list_all_iff)
  obtain j where j: "j < unat (cr_step_count r)" "s = ch_steps rs ! unat (cr_first_step r + word_of_nat j)"
    using s by (auto simp: chain_steps_of_def)
  have "unat (cr_first_step r + word_of_nat j) \<le> unat (cr_first_step r) + j"
    using unat_word_ariths(1) [of "cr_first_step r" "word_of_nat j"] by (simp add: unsigned_of_nat take_bit_eq_mod)
  then have "unat (cr_first_step r + word_of_nat j) < length (ch_steps rs)" using finished j(1) by (simp add: rule_finished_def)
  then show "step_loaded s" using steps j(2) by (simp add: list_all_length)
  show "cs_signature_rule_id s = cr_signature_rule_id r"
    using finished s by (auto simp: rule_finished_def contiguous_nth in_set_conv_nth)
qed

lemma loaded_rule_checked:
  assumes loaded: "chain_loaded rs" and r: "r \<in> set (ch_rules rs)" and len: "length (ch_ports rs) < 2 ^ 32"
  shows "check_rule (chain_set.truncate rs) r = None"
proof -
  have static: "rule_static r" and placed: "rule_placed (ch_ports rs) r" and finished: "rule_finished rs r"
    using loaded r by (auto simp: chain_loaded_def rules_static_def ports_placed_def list_all_iff)
  note ports = loaded_ports [OF loaded r len]
  have "list_all (\<lambda>s. cs_signature_rule_id s = cr_signature_rule_id r \<and> unat (cs_payload_len s) \<le> JMX_V3_PAYLOAD_MAX)
      (chain_steps_of (chain_set.truncate rs) r)"
    using loaded_steps [OF loaded r] by (auto simp: list_all_iff step_loaded_def step_read_def word_le_nat_alt)
  moreover have "list_all (\<lambda>p. cp_signature_rule_id p = cr_signature_rule_id r) (chain_ports_of (chain_set.truncate rs) r)"
    by (simp add: ports(1) own_ports_def list_all_iff)
  moreover have "\<not> JMX_V3_MAX_STEPS_PER_RULE < cr_step_count r" "\<not> JMX_V3_MAX_PORTS_PER_RULE < cr_port_count r"
    using static placed by (simp_all add: rule_static_def rule_placed_def not_less)
  ultimately show ?thesis using ports(2) finished by (simp add: check_rule_def Let_def rule_finished_def)
qed

lemma preflight_loop_checked:
  "(\<forall>r \<in> set rules. cr_active r \<noteq> 0 \<longrightarrow> check_rule rs r = None) \<Longrightarrow>
   n + length (filter (\<lambda>r. cr_active r \<noteq> 0) rules) \<le> UINT32_MAX \<Longrightarrow>
   ns + sum_list (map (\<lambda>r. unat (cr_step_count r)) (filter (\<lambda>r. cr_active r \<noteq> 0) rules)) \<le> UINT32_MAX \<Longrightarrow>
   np + sum_list (map (\<lambda>r. unat (cr_port_count r)) (filter (\<lambda>r. cr_active r \<noteq> 0) rules)) \<le> UINT32_MAX \<Longrightarrow>
   \<exists>n' ns' np' req'. preflight_loop rs rules (n, ns, np, req) = Inr (n', ns', np', req')"
proof (induction rules arbitrary: n ns np req)
  case (Cons r rules)
  then show ?case by (cases "cr_active r = 0") (simp_all add: Let_def not_less)
qed simp

text \<open>The set as the push reads it.\<close>

abbreviation pushed :: "chain_db \<Rightarrow> chain_set" where
  "pushed rs \<equiv> chain_set.truncate rs"

lemma active_loaded:
  assumes "r \<in> set (active_rules (pushed rs))"
  shows "r \<in> set (ch_rules rs)" "cr_active r \<noteq> 0"
  using assms by (simp_all add: active_rules_def)

lemma active_counts:
  assumes "chain_loaded rs"
  shows "length (active_rules (pushed rs)) \<le> length (active_steps (pushed rs))"
proof -
  have "1 \<le> unat (cr_step_count r)" if "r \<in> set (active_rules (pushed rs))" for r
    using assms active_loaded [OF that]
    by (auto simp: chain_loaded_def rules_static_def rule_static_def list_all_iff Suc_le_eq unat_gt_0)
  then have "(\<Sum>r\<leftarrow>active_rules (pushed rs). 1) \<le> (\<Sum>r\<leftarrow>active_rules (pushed rs). unat (cr_step_count r))"
    by (intro sum_list_mono)
  then show ?thesis by (simp add: length_active sum_list_triv)
qed

lemma loaded_preflight:
  assumes loaded: "chain_loaded rs" and len: "length (ch_ports rs) < 2 ^ 32"
    and counts: "length (active_steps (pushed rs)) < 2 ^ 32" "length (active_ports (pushed rs)) < 2 ^ 32"
    and digest: "active_rules (pushed rs) = [] \<or> \<not> v3_digest_is_zero (ch_catalog_digest rs)"
  shows "v3_preflight_ruleset (pushed rs) \<in> range Inr"
proof -
  have "\<forall>r \<in> set (ch_rules rs). cr_active r \<noteq> 0 \<longrightarrow> check_rule (pushed rs) r = None"
    using loaded_rule_checked [OF loaded _ len] by blast
  moreover have "length (active_rules (pushed rs)) \<le> UINT32_MAX" using active_counts [OF loaded] counts(1) by (simp add: UINT32_MAX_def)
  ultimately obtain n ns np req where loop: "preflight_loop (pushed rs) (ch_rules rs) (0, 0, 0, 0) = Inr (n, ns, np, req)"
    using preflight_loop_checked [of "ch_rules rs" "pushed rs" 0 0 0 0] counts length_active [of "pushed rs"]
    by (auto simp: active_rules_def UINT32_MAX_def)
  have "n = length (active_rules (pushed rs))" using preflight_loop_ok [OF loop] by (simp add: active_rules_def)
  then show ?thesis using loop digest by (auto simp: v3_preflight_ruleset_def)
qed

section \<open>Steps the module takes\<close>

text \<open>The columns for numeric steps, which a literal step should not use.\<close>

definition numeric_free :: "chain_step \<Rightarrow> bool" where
  "numeric_free s \<longleftrightarrow> cs_numeric_encoding s = 0 \<and> cs_reference_source s = 0 \<and> cs_comparison s = 0 \<and> cs_adjust_mode s = 0 \<and>
     cs_width s = 0 \<and> cs_jump_multiplier s = 0 \<and> cs_inline_operand s = 0 \<and> cs_adjustment_operand s = 0 \<and> cs_jump_base s = 0"

lemma or_and_zero: "(a OR b) AND m = 0 \<longleftrightarrow> a AND m = 0 \<and> b AND m = (0 :: u32)"
  by (auto simp: bit_eq_iff bit_simps)

lemma foldl_or_zero: "foldl (OR) a xs AND m = (0 :: u32) \<longleftrightarrow> a AND m = 0 \<and> (\<forall>x \<in> set xs. x AND m = 0)"
  by (induction xs arbitrary: a) (auto simp: or_and_zero)

lemma subset_trans_caps: "a AND b = b \<Longrightarrow> a AND m = 0 \<Longrightarrow> b AND m = (0 :: u32)"
  by (metis and.assoc and.commute and_zero_eq)

lemma phase1_step:
  assumes "step_required_caps s AND NOT JMX_V3_CAP_PHASE1_MASK = 0"
  shows "cs_matcher_type s \<noteq> JMX_V3_MATCH_BYTE_TEST" "cs_matcher_type s \<noteq> JMX_V3_MATCH_BYTE_JUMP"
    "cs_matcher_type s \<noteq> JMX_V3_MATCH_NORMALIZED_URI" "cs_condition s \<noteq> JMX_V3_CONDITION_NEGATIVE"
  using assms by (auto simp: step_required_caps_def Let_def or_and_zero JMX_V3_CAP_PHASE1_MASK_def)

lemma sint_of_i32: "x \<in> {- (2 ^ 31)..2 ^ 31 - 1} \<Longrightarrow> sint (word_of_int x :: u32) = x"
  by (simp add: signed_of_int signed_take_bit_int_eq_self)

lemma word_of_i32_zero: "x \<in> {- (2 ^ 31)..2 ^ 31 - 1} \<Longrightarrow> (word_of_int x :: u32) = 0 \<longleftrightarrow> x = 0"
  using sint_of_i32 [of x] by (auto simp del: sint_of_i32)

text \<open>A step within the capabilities of the module is a positive literal; the module takes it exactly if those columns are 0.\<close>

abbreviation step_wire :: "chain_step \<Rightarrow> v3_step_wire" where
  "step_wire s \<equiv> projr (v3_step_to_wire s)"

lemma step_taken:
  assumes loaded: "step_loaded s" and caps: "step_required_caps s AND NOT JMX_V3_CAP_PHASE1_MASK = 0"
  shows "valid_step_wire (step_wire s) = (if numeric_free s then Inr (step_of_wire (step_wire s)) else Inl EINVAL)"
proof -
  note kind = phase1_step [OF caps]
  have read: "step_read s" using loaded by (simp add: step_loaded_def)
  have sem: "validate_step_semantics s" using loaded by (simp add: step_loaded_def)
  have lit: "validate_literal_step s" using sem kind by (simp add: validate_step_semantics_def)
  have len: "cs_payload_len s \<noteq> 0" "\<not> 64 < cs_payload_len s" "unat (cs_payload_len s) \<le> 64" "length (cs_payload s) = 64"
    using read by (simp_all add: step_read_def not_less word_le_nat_alt)
  have zero: "bytes_zero (drop (unat (cs_payload_len s)) (take (unat (cs_payload_len s)) (cs_payload s) @
      replicate (64 - unat (cs_payload_len s)) 0))" "bytes_zero (replicate 3 0)"
    using len by (simp_all add: bytes_zero_def list_all_iff)
  have ranges: "cs_depth s \<in> {- (2 ^ 31)..2 ^ 31 - 1}" "cs_offset s \<in> {- (2 ^ 31)..2 ^ 31 - 1}"
    "cs_jump_base s \<in> {- (2 ^ 31)..2 ^ 31 - 1}" using read by (simp_all add: step_read_def)
  note ints = sint_of_i32 [OF ranges(1)] sint_of_i32 [OF ranges(2)] word_of_i32_zero [OF ranges(3)]
  have position: "pos_flag (cs_position_flags s) JMX_V3_POS_DEPTH \<longrightarrow> \<not> cs_depth s < 0"
    "pos_flag (cs_position_flags s) JMX_V3_POS_OFFSET \<longrightarrow> \<not> cs_offset s < 0"
    "cs_position_flags s AND NOT JMX_V3_POS_KNOWN_MASK = 0"
    "\<not> pos_flag (cs_position_flags s) JMX_V3_POS_DEPTH \<longrightarrow> cs_depth s = 0"
    "\<not> pos_flag (cs_position_flags s) JMX_V3_POS_OFFSET \<longrightarrow> cs_offset s = 0"
    "\<not> pos_flag (cs_position_flags s) JMX_V3_POS_DISTANCE \<longrightarrow> cs_distance s = 0"
    "\<not> pos_flag (cs_position_flags s) JMX_V3_POS_WITHIN \<longrightarrow> cs_within s = 0"
    using read sem by (auto simp: step_read_def validate_step_semantics_def pos_flag_def)
  have first: "\<not> (cs_step_index s = 0 \<and> pos_flag (cs_position_flags s) (JMX_V3_POS_DISTANCE OR JMX_V3_POS_WITHIN))"
    "cs_signature_rule_id s \<noteq> 0" using loaded by (simp_all add: step_loaded_def pos_flag_def)
  have literal: "cs_condition s = JMX_V3_CONDITION_POSITIVE" "cs_input_view s = JMX_V3_VIEW_RAW"
    "cs_matcher_type s = JMX_V3_MATCH_LITERAL_NOCASE \<or> cs_matcher_type s = JMX_V3_MATCH_LITERAL_EXACT_1 \<or>
       cs_matcher_type s = JMX_V3_MATCH_LITERAL_EXACT_2"
    "cs_case_mode s = (if cs_matcher_type s = JMX_V3_MATCH_LITERAL_NOCASE then JMX_V3_CASE_NOCASE else JMX_V3_CASE_EXACT)"
    "cs_literal_option s = 0 \<or> cs_literal_option s = 1 \<or> cs_literal_option s = 4"
    using lit kind by (auto simp: validate_literal_step_def split: if_splits)
  have wire: "v3_step_to_wire s \<in> range Inr" using len(3) by (simp add: v3_step_to_wire_def)
  show ?thesis
  proof (cases "numeric_free s")
    case True
    define w where "w = step_wire s"
    let ?has = "pos_flag (sk_position_flags (step_of_wire w))"
    have w: "sw_signature_rule_id w = cs_signature_rule_id s" "sw_condition w = cs_condition s" "sw_input_view w = cs_input_view s"
      "sw_position_flags w = cs_position_flags s" "sw_matcher_type w = cs_matcher_type s" "sw_case_mode w = cs_case_mode s"
      "sw_literal_option w = cs_literal_option s" "sw_step_index w = cs_step_index s"
      "sw_depth w = word_of_int (cs_depth s)" "sw_offset w = word_of_int (cs_offset s)"
      "sw_distance w = word_of_int (cs_distance s)" "sw_within w = word_of_int (cs_within s)"
      using len(3) by (simp_all add: w_def v3_step_to_wire_def)
    have c: "\<not> (?has JMX_V3_POS_DEPTH \<and> sint (sk_depth (step_of_wire w)) < 0)"
      "\<not> (?has JMX_V3_POS_OFFSET \<and> sint (sk_offset (step_of_wire w)) < 0)"
      "\<not> (\<not> ?has JMX_V3_POS_DEPTH \<and> sk_depth (step_of_wire w) \<noteq> 0)"
      "\<not> (\<not> ?has JMX_V3_POS_OFFSET \<and> sk_offset (step_of_wire w) \<noteq> 0)"
      "\<not> (\<not> ?has JMX_V3_POS_DISTANCE \<and> sk_distance (step_of_wire w) \<noteq> 0)"
      "\<not> (\<not> ?has JMX_V3_POS_WITHIN \<and> sk_within (step_of_wire w) \<noteq> 0)"
      "\<not> (sk_step_index (step_of_wire w) = 0 \<and> ?has (JMX_V3_POS_DISTANCE OR JMX_V3_POS_WITHIN))"
      using position ints first(1) by (auto simp: step_of_wire_def w)
    have numeric: "sw_numeric_encoding w = 0" "sw_reference_source w = 0" "sw_comparison w = 0" "sw_adjust_mode w = 0" "sw_width w = 0"
      "sw_jump_multiplier w = 0" "sw_inline_operand w = 0" "sw_adjustment_operand w = 0" "sw_jump_base w = 0"
      "sw_payload_len w = cs_payload_len s" "bytes_zero (drop (unat (sw_payload_len w)) (sw_payload w))" "bytes_zero (sw_reserved w)"
      using True len(3) zero by (simp_all add: w_def v3_step_to_wire_def numeric_free_def)
    have "valid_step_wire w = Inr (step_of_wire w)"
      unfolding valid_step_wire_def Let_def if_not_P [OF c(1)] if_not_P [OF c(2)] if_not_P [OF c(3)] if_not_P [OF c(4)]
        if_not_P [OF c(5)] if_not_P [OF c(6)] if_not_P [OF c(7)]
      using numeric len position(3) first(2) literal by (simp add: w)
    then show ?thesis using True by (simp add: w_def)
  next
    case False
    then show ?thesis using len zero ints(3)
      by (auto simp: valid_step_wire_def v3_step_to_wire_def numeric_free_def)
  qed
qed

section \<open>Records the module takes\<close>

lemma sorted_last_take:
  assumes "sorted_wrt P ys" and "i < length ys" and "take i ys \<noteq> []"
  shows "P (last (take i ys)) (ys ! i)"
proof -
  have "last (take i ys) = ys ! (i - 1)" using assms(2,3) by (simp add: last_conv_nth)
  then show ?thesis using sorted_wrt_nth_less [OF assms(1), of "i - 1" i] assms(2,3) by simp
qed

lemma sorted_wrt_concat_map:
  "sorted_wrt (\<lambda>a b. \<forall>x \<in> set (f a). \<forall>y \<in> set (f b). P x y) rs \<Longrightarrow> \<forall>r \<in> set rs. sorted_wrt P (f r) \<Longrightarrow>
   sorted_wrt P (concat (map f rs))"
  by (induction rs) (auto simp: sorted_wrt_append)

lemma filter_concat_own:
  "distinct (map k rs) \<Longrightarrow> r \<in> set rs \<Longrightarrow> \<forall>r \<in> set rs. \<forall>x \<in> set (f r). key x = k r \<Longrightarrow>
   filter (\<lambda>x. key x = k r) (concat (map f rs)) = f r"
proof (induction rs)
  case (Cons a rs)
  show ?case
  proof (cases "r = a")
    case True
    have "key x \<noteq> k r" if "b \<in> set rs" "x \<in> set (f b)" for b x
      using Cons.prems(1,3) True that by (metis distinct.simps(2) image_eqI list.set_intros(2) list.set_map list.simps(9))
    then have "filter (\<lambda>x. key x = k r) (concat (map f rs)) = []" by (auto simp: filter_empty_conv)
    then show ?thesis using True Cons.prems(3) by simp
  next
    case False
    then have "r \<in> set rs" "k a \<noteq> k r" using Cons.prems(1,2) by auto
    moreover have "filter (\<lambda>x. key x = k r) (f a) = []" using Cons.prems(3) \<open>k a \<noteq> k r\<close> by (simp add: filter_empty_conv)
    ultimately show ?thesis using Cons by simp
  qed
qed simp

lemma caps_trans: "a AND NOT b = 0 \<Longrightarrow> b AND NOT c = 0 \<Longrightarrow> a AND NOT c = (0 :: u32)"
  by (auto simp: bit_eq_iff bit_simps)

text \<open>The sets this section is about: loaded with the capabilities of the module.\<close>

definition within_module :: "chain_db \<Rightarrow> bool" where
  "within_module rs \<longleftrightarrow> chain_loaded rs \<and> cd_engine_capabilities rs AND NOT JMX_V3_CAP_PHASE1_MASK = 0 \<and> length (ch_ports rs) < 2 ^ 32"

lemma active_rule:
  assumes "within_module rs" and "r \<in> set (active_rules (pushed rs))"
  shows "rule_static r" "rule_placed (ch_ports rs) r" "rule_finished rs r" "cr_required_caps r AND NOT JMX_V3_CAP_PHASE1_MASK = 0"
proof -
  note r = active_loaded [OF assms(2)]
  show "rule_static r" "rule_placed (ch_ports rs) r" and fin: "rule_finished rs r"
    using assms(1) r(1) by (auto simp: within_module_def chain_loaded_def rules_static_def ports_placed_def list_all_iff)
  show "cr_required_caps r AND NOT JMX_V3_CAP_PHASE1_MASK = 0"
    using fin r(2) assms(1) caps_trans by (auto simp: rule_finished_def within_module_def)
qed

lemma active_step:
  assumes rs: "within_module rs" and r: "r \<in> set (active_rules (pushed rs))" and s: "s \<in> set (chain_steps_of (pushed rs) r)"
  shows "step_loaded s" "cs_signature_rule_id s = cr_signature_rule_id r" "step_required_caps s AND NOT JMX_V3_CAP_PHASE1_MASK = 0"
proof -
  show "step_loaded s" "cs_signature_rule_id s = cr_signature_rule_id r"
    using loaded_steps [OF _ active_loaded(1) [OF r] s] rs by (simp_all add: within_module_def)
  have "inferred_caps rs r AND NOT JMX_V3_CAP_PHASE1_MASK = 0"
    using active_rule(3,4) [OF rs r] subset_trans_caps unfolding rule_finished_def by blast
  then show "step_required_caps s AND NOT JMX_V3_CAP_PHASE1_MASK = 0"
    using s by (simp add: inferred_caps_def foldl_or_zero)
qed

lemma active_sorted:
  assumes "within_module rs"
  shows "sorted_wrt (\<lambda>a b. cr_signature_rule_id a < cr_signature_rule_id b) (active_rules (pushed rs))"
    "distinct (map cr_signature_rule_id (active_rules (pushed rs)))"
proof -
  show "sorted_wrt (\<lambda>a b. cr_signature_rule_id a < cr_signature_rule_id b) (active_rules (pushed rs))"
    using assms by (auto simp: within_module_def chain_loaded_def rules_static_def active_rules_def sorted_wrt_map intro: sorted_wrt_filter)
  then have "sorted_wrt (<) (map cr_signature_rule_id (active_rules (pushed rs)))" by (simp add: sorted_wrt_map)
  then show "distinct (map cr_signature_rule_id (active_rules (pushed rs)))" by (simp add: strict_sorted_iff)
qed

abbreviation rule_rec :: "chain_rule \<Rightarrow> rule_k" where
  "rule_rec r \<equiv> rule_of_wire (projr (v3_rule_to_wire r))"

abbreviation step_rec :: "chain_step \<Rightarrow> step_k" where
  "step_rec s \<equiv> step_of_wire (step_wire s)"

abbreviation port_rec :: "chain_port \<Rightarrow> port_k" where
  "port_rec p \<equiv> port_of_wire (projr (v3_port_to_wire p))"

lemma rule_rec_fields:
  assumes "rule_static r"
  shows "rk_signature_rule_id (rule_rec r) = cr_signature_rule_id r" "rk_step_count (rule_rec r) = cr_step_count r"
    "rk_required_caps (rule_rec r) = cr_required_caps r"
  using assms by (simp_all add: rule_static_def v3_rule_to_wire_def rule_of_wire_def flip: not_less)

lemma step_rec_fields:
  assumes "step_loaded s"
  shows "sk_signature_rule_id (step_rec s) = cs_signature_rule_id s" "sk_step_index (step_rec s) = cs_step_index s"
    "sk_matcher_type (step_rec s) = cs_matcher_type s" "sk_position_flags (step_rec s) = cs_position_flags s"
  using assms by (simp_all add: step_loaded_def step_read_def v3_step_to_wire_def step_of_wire_def word_le_nat_alt)

lemma port_rec_fields: "pk_signature_rule_id (port_rec p) = cp_signature_rule_id p"
  by (simp add: v3_port_to_wire_def port_of_wire_def)

lemma rules_taken:
  assumes rs: "within_module rs" and d: "\<forall>r \<in> set (active_rules (pushed rs)). cr_required_caps r AND NOT d = 0"
  shows "append_rules d [] (map (projr \<circ> v3_rule_to_wire) (active_rules (pushed rs))) 0 = Inr (rule_records (pushed rs))"
proof -
  let ?act = "active_rules (pushed rs)" and ?ws = "map (projr \<circ> v3_rule_to_wire) (active_rules (pushed rs))"
  have sorted: "sorted_wrt (\<lambda>a b. rk_signature_rule_id a < rk_signature_rule_id b) (map rule_rec ?act)"
    unfolding sorted_wrt_map
    by (rule sorted_wrt_mono_rel [OF _ active_sorted(1) [OF rs]]) (simp add: rule_rec_fields active_rule(1) [OF rs])
  have "rule_conv d ([] @ take i (map rule_rec ?act)) (?ws ! i) = Inr (map rule_rec ?act ! i)" if i: "i < length ?ws" for i
  proof -
    have r: "?act ! i \<in> set ?act" using i by simp
    have "take i (map rule_rec ?act) \<noteq> [] \<Longrightarrow>
        rk_signature_rule_id (last (take i (map rule_rec ?act))) < rk_signature_rule_id (rule_rec (?act ! i))"
      using sorted_last_take [OF sorted, of i] i by simp
    then show ?thesis
      using active_rule(1) [OF rs r] d r i rule_rec_fields(1) [OF active_rule(1) [OF rs r]]
      by (auto simp: rule_conv_def rule_wire_bad_def rule_static_def v3_rule_to_wire_def bytes_zero_def not_le list_all_iff)
  qed
  then show ?thesis using rules_loop.app_complete [of ?ws d "[]" "map rule_rec ?act" 0]
    by (simp add: rule_records_def)
qed

lemma active_steps_in:
  assumes "within_module rs" and "s \<in> set (active_steps (pushed rs))"
  shows "step_loaded s" "step_required_caps s AND NOT JMX_V3_CAP_PHASE1_MASK = 0"
proof -
  obtain r where "r \<in> set (active_rules (pushed rs))" "s \<in> set (chain_steps_of (pushed rs) r)"
    using assms(2) by (auto simp: active_steps_def)
  then show "step_loaded s" "step_required_caps s AND NOT JMX_V3_CAP_PHASE1_MASK = 0" using active_step assms(1) by blast+
qed

lemma active_steps_sorted:
  assumes rs: "within_module rs"
  shows "sorted_wrt step_before (map step_rec (active_steps (pushed rs)))"
  unfolding sorted_wrt_map active_steps_def
proof (rule sorted_wrt_concat_map)
  show "sorted_wrt (\<lambda>a b. \<forall>x \<in> set (chain_steps_of (pushed rs) a). \<forall>y \<in> set (chain_steps_of (pushed rs) b).
      step_before (step_rec x) (step_rec y)) (active_rules (pushed rs))"
    by (rule sorted_wrt_mono_rel [OF _ active_sorted(1) [OF rs]])
      (simp add: step_before_def step_rec_fields active_step [OF rs])
  show "\<forall>r \<in> set (active_rules (pushed rs)). sorted_wrt (\<lambda>x y. step_before (step_rec x) (step_rec y)) (chain_steps_of (pushed rs) r)"
  proof
    fix r
    assume r: "r \<in> set (active_rules (pushed rs))"
    let ?ss = "chain_steps_of (pushed rs) r"
    have "steps_contiguous rs r" using active_rule(3) [OF rs r] by (simp add: rule_finished_def)
    then have at: "cs_signature_rule_id (?ss ! i) = cr_signature_rule_id r" "unat (cs_step_index (?ss ! i)) = i" if "i < length ?ss" for i
      using that by (simp_all add: contiguous_nth)
    have "step_before (step_rec (?ss ! i)) (step_rec (?ss ! j))" if "i < j" "j < length ?ss" for i j
      using that at [of i] at [of j] active_step(1) [OF rs r]
      by (simp add: step_before_def step_rec_fields word_less_nat_alt)
    then show "sorted_wrt (\<lambda>x y. step_before (step_rec x) (step_rec y)) ?ss" by (simp add: sorted_wrt_iff_nth_less)
  qed
qed

lemma steps_taken:
  assumes rs: "within_module rs" and free: "list_all numeric_free (active_steps (pushed rs))"
  shows "append_steps [] (map (projr \<circ> v3_step_to_wire) (active_steps (pushed rs))) 0 = Inr (step_records (pushed rs))"
proof -
  let ?act = "active_steps (pushed rs)" and ?ws = "map (projr \<circ> v3_step_to_wire) (active_steps (pushed rs))"
  have "step_conv ([] @ take i (map step_rec ?act)) (?ws ! i) = Inr (map step_rec ?act ! i)" if i: "i < length ?ws" for i
  proof -
    have "valid_step_wire (step_wire (?act ! i)) = Inr (step_rec (?act ! i))"
      using step_taken [OF active_steps_in [OF rs]] free i by (simp add: list_all_length)
    moreover have "take i (map step_rec ?act) \<noteq> [] \<Longrightarrow> step_before (last (take i (map step_rec ?act))) (step_rec (?act ! i))"
      using sorted_last_take [OF active_steps_sorted [OF rs], of i] i by simp
    ultimately show ?thesis using i by (auto simp: step_conv_def step_out_of_order_def step_before_def)
  qed
  then show ?thesis using steps_loop.app_complete [of ?ws "[]" "map step_rec ?act" 0] by (simp add: step_records_def)
qed

lemma steps_taken_free:
  assumes rs: "within_module rs"
    and taken: "append_steps [] (map (projr \<circ> v3_step_to_wire) (active_steps (pushed rs))) 0 \<in> range Inr"
  shows "list_all numeric_free (active_steps (pushed rs))"
proof -
  let ?act = "active_steps (pushed rs)" and ?ws = "map (projr \<circ> v3_step_to_wire) (active_steps (pushed rs))"
  obtain ys where "\<forall>i < length ?ws. step_conv ([] @ take i ys) (?ws ! i) = Inr (ys ! i)"
    using taken steps_loop.app_Inr by blast
  then have "valid_step_wire (step_wire (?act ! i)) \<noteq> Inl EINVAL" if "i < length ?act" for i
    using that by (fastforce simp: step_conv_def split: sum.splits if_splits)
  then have "numeric_free (?act ! i)" if "i < length ?act" for i
    using step_taken [OF active_steps_in [OF rs], of "?act ! i"] that by (metis nth_mem)
  then show ?thesis by (simp add: list_all_length)
qed

lemma active_port:
  assumes rs: "within_module rs" and r: "r \<in> set (active_rules (pushed rs))" and p: "p \<in> set (chain_ports_of (pushed rs) r)"
  shows "port_loaded p" "cp_signature_rule_id p = cr_signature_rule_id r"
  using loaded_ports(1) [OF _ active_loaded(1) [OF r]] rs p
  by (auto simp: within_module_def chain_loaded_def ports_placed_def own_ports_def list_all_iff)

lemma ports_taken:
  assumes rs: "within_module rs"
  shows "append_ports [] (map (projr \<circ> v3_port_to_wire) (active_ports (pushed rs))) 0 = Inr (port_records (pushed rs))"
proof -
  let ?act = "active_ports (pushed rs)" and ?ws = "map (projr \<circ> v3_port_to_wire) (active_ports (pushed rs))"
  have sorted: "sorted_wrt (\<lambda>x y. pk_signature_rule_id x \<le> pk_signature_rule_id y) (map port_rec ?act)"
    unfolding sorted_wrt_map active_ports_def
  proof (rule sorted_wrt_concat_map)
    show "sorted_wrt (\<lambda>a b. \<forall>x \<in> set (chain_ports_of (pushed rs) a). \<forall>y \<in> set (chain_ports_of (pushed rs) b).
        pk_signature_rule_id (port_rec x) \<le> pk_signature_rule_id (port_rec y)) (active_rules (pushed rs))"
      by (rule sorted_wrt_mono_rel [OF _ active_sorted(1) [OF rs]]) (simp add: port_rec_fields active_port(2) [OF rs] less_imp_le)
    show "\<forall>r \<in> set (active_rules (pushed rs)). sorted_wrt (\<lambda>x y. pk_signature_rule_id (port_rec x) \<le> pk_signature_rule_id (port_rec y))
        (chain_ports_of (pushed rs) r)"
      by (auto simp: sorted_wrt_iff_nth_less port_rec_fields active_port(2) [OF rs])
  qed
  have "port_conv ([] @ take i (map port_rec ?act)) (?ws ! i) = Inr (map port_rec ?act ! i)" if i: "i < length ?ws" for i
  proof -
    have "?act ! i \<in> set ?act" using i by simp
    then have "port_loaded (?act ! i)" using active_port(1) [OF rs] by (auto simp: active_ports_def)
    moreover have "take i (map port_rec ?act) \<noteq> [] \<Longrightarrow>
        pk_signature_rule_id (last (take i (map port_rec ?act))) \<le> cp_signature_rule_id (?act ! i)"
      using sorted_last_take [OF sorted, of i] i by (simp add: port_rec_fields)
    ultimately show ?thesis
      using i by (auto simp: port_conv_def port_wire_bad_def port_loaded_def v3_port_to_wire_def bytes_zero_def not_less list_all_iff)
  qed
  then show ?thesis using ports_loop.app_complete [of ?ws "[]" "map port_rec ?act" 0] by (simp add: port_records_def)
qed

lemma records_accepted_iff:
  assumes rs: "within_module rs" and d: "\<forall>r \<in> set (active_rules (pushed rs)). cr_required_caps r AND NOT d = 0"
  shows "records_accepted (pushed rs) d \<longleftrightarrow> list_all numeric_free (active_steps (pushed rs))"
  unfolding records_accepted_def rules_taken [OF rs d] ports_taken [OF rs]
  using steps_taken [OF rs] steps_taken_free [OF rs] by (metis rangeI)

section \<open>The whole set\<close>

definition within_limits :: "chain_db \<Rightarrow> bool" where
  "within_limits rs \<longleftrightarrow> length (active_rules (pushed rs)) \<le> unat JMX_V3_MAX_RULES \<and>
     length (active_steps (pushed rs)) \<le> unat JMX_V3_MAX_STEPS \<and> length (active_ports (pushed rs)) \<le> unat JMX_V3_MAX_PORTS"

lemma records_complete:
  assumes rs: "within_module rs" and free: "list_all numeric_free (active_steps (pushed rs))"
    and s: "rs_rules s = rule_records (pushed rs)" "rs_steps s = step_records (pushed rs)" "rs_ports s = port_records (pushed rs)"
    and r: "r \<in> set (active_rules (pushed rs))"
  shows "rule_complete s (rule_rec r)"
proof -
  let ?act = "active_rules (pushed rs)" and ?ss = "chain_steps_of (pushed rs) r"
  note fields = rule_rec_fields [OF active_rule(1) [OF rs r]]
  have ids: "distinct (map cr_signature_rule_id ?act)" by (rule active_sorted(2) [OF rs])
  have "filter (\<lambda>x. cs_signature_rule_id x = cr_signature_rule_id r) (active_steps (pushed rs)) = ?ss"
    unfolding active_steps_def by (rule filter_concat_own [OF ids r]) (use active_step(2) [OF rs] in blast)
  moreover have "filter (\<lambda>x. sk_signature_rule_id (step_rec x) = cr_signature_rule_id r) (active_steps (pushed rs)) =
      filter (\<lambda>x. cs_signature_rule_id x = cr_signature_rule_id r) (active_steps (pushed rs))"
    by (rule filter_cong) (use active_steps_in(1) [OF rs] in \<open>simp_all add: step_rec_fields\<close>)
  ultimately have steps: "rule_steps s (rule_rec r) = map step_rec ?ss"
    by (simp add: rule_steps_def s step_records_def fields filter_map comp_def)
  have "filter (\<lambda>x. cp_signature_rule_id x = cr_signature_rule_id r) (active_ports (pushed rs)) = chain_ports_of (pushed rs) r"
    unfolding active_ports_def by (rule filter_concat_own [OF ids r]) (use active_port(2) [OF rs] in blast)
  then have ports: "rule_ports s (rule_rec r) = map port_rec (chain_ports_of (pushed rs) r)"
    by (simp add: rule_ports_def s port_records_def fields filter_map comp_def port_rec_fields)
  have finished: "rule_finished rs r" by (rule active_rule(3) [OF rs r])
  have at: "unat (cs_step_index (?ss ! i)) = i" if "i < length ?ss" for i
    using finished that by (simp add: rule_finished_def contiguous_nth)
  have "map (unat \<circ> sk_step_index) (map step_rec ?ss) = map (unat \<circ> cs_step_index) ?ss"
    using step_rec_fields(2) [OF active_step(1) [OF rs r]] by simp
  also have "\<dots> = [0..<unat (cr_step_count r)]" by (rule nth_equalityI) (simp_all add: at)
  finally have "map (unat \<circ> sk_step_index) (rule_steps s (rule_rec r)) = [0..<unat (rk_step_count (rule_rec r))]"
    by (simp add: steps fields)
  moreover have "length (rule_ports s (rule_rec r)) \<le> 64"
    using active_rule(2) [OF rs r] by (simp add: ports chain_ports_of_def rule_placed_def word_le_nat_alt)
  moreover have "step_caps (step_rec x) = step_required_caps x" if x: "x \<in> set ?ss" for x
  proof -
    note ok = active_step(1,3) [OF rs r x]
    have "validate_literal_step x"
      using ok(1) phase1_step [OF ok(2)] by (simp add: step_loaded_def validate_step_semantics_def)
    then show ?thesis using phase1_step [OF ok(2)] step_rec_fields [OF ok(1)]
      by (auto simp: step_caps_def step_required_caps_def validate_literal_step_def pos_flag_def split: if_splits)
  qed
  then have "map step_caps (rule_steps s (rule_rec r)) = map step_required_caps ?ss" by (simp add: steps)
  then have "caps_cover (rk_required_caps (rule_rec r)) (rule_steps s (rule_rec r))"
    using finished active_rule(4) [OF rs r]
    by (simp add: caps_cover_def rule_finished_def inferred_caps_def fields Let_def jmx_v3_capabilities_def JMX_V3_CAP_PHASE1_MASK_def)
  ultimately show ?thesis by (simp add: rule_complete_def)
qed

lemma foldl_or_covers: "x \<in> set xs \<Longrightarrow> x AND NOT (foldl (OR) a xs) = (0 :: u32)"
proof (induction xs arbitrary: a)
  case (Cons y xs)
  have "x AND NOT (foldl (OR) (a OR x) xs) = 0" for xs a
  proof (induction xs arbitrary: a)
    case (Cons z xs)
    then show ?case using Cons.IH [of "a OR z"] by (simp add: ac_simps)
  qed (auto simp: bit_eq_iff bit_simps)
  then show ?case using Cons by auto
qed simp

lemma loaded_complete:
  assumes rs: "within_module rs" and free: "list_all numeric_free (active_steps (pushed rs))"
    and pre: "v3_preflight_ruleset (pushed rs) = Inr (rules, steps, ports, caps)"
    and s: "rs_rules s = rule_records (pushed rs)" "rs_steps s = step_records (pushed rs)" "rs_ports s = port_records (pushed rs)"
      "rs_rule_capacity s = rules" "rs_step_capacity s = steps" "rs_port_capacity s = ports" "rs_declared_caps s = caps"
  shows "catalog_complete s"
proof -
  note c = preflight_counts [OF pre]
  have ids: "rk_signature_rule_id ` set (rs_rules s) = cr_signature_rule_id ` set (active_rules (pushed rs))"
    using rule_rec_fields(1) [OF active_rule(1) [OF rs]] by (simp add: s rule_records_def image_image)
  have "sk_signature_rule_id ` set (rs_steps s) \<subseteq> rk_signature_rule_id ` set (rs_rules s)"
    unfolding ids using active_step(1,2) [OF rs] by (auto simp: s step_records_def active_steps_def step_rec_fields)
  moreover have "pk_signature_rule_id ` set (rs_ports s) \<subseteq> rk_signature_rule_id ` set (rs_rules s)"
    unfolding ids using active_port(2) [OF rs] by (auto simp: s port_records_def active_ports_def port_rec_fields)
  moreover have "\<forall>r \<in> set (rs_rules s). rule_complete s r"
    using records_complete [OF rs free s(1-3)] by (auto simp: s(1) rule_records_def)
  moreover have "map rk_required_caps (rs_rules s) = map cr_required_caps (active_rules (pushed rs))"
    using rule_rec_fields(3) [OF active_rule(1) [OF rs]] by (simp add: s rule_records_def)
  moreover have "rule_count s = rules" "step_count s = steps" "port_count s = ports"
    using c(1-3) by (simp_all add: rule_count_def step_count_def port_count_def s rule_records_def step_records_def port_records_def
        flip: c(1-3))
  ultimately show ?thesis using c(4) by (simp add: catalog_complete_def s)
qed

lemma mode_flags:
  assumes "mode \<le> 2"
  shows "(ucast (mode :: u8) :: u32) AND NOT JMX_V3_TX_KNOWN_FLAGS = 0" "(ucast mode :: u32) \<le> 2" "(ucast mode :: u32) = 0 \<longleftrightarrow> mode = 0"
proof -
  have "mode = 0 \<or> mode = 1 \<or> mode = 2" using assms by (simp add: word_le_nat_alt word_unat_eq_iff) linarith
  then show "(ucast mode :: u32) AND NOT JMX_V3_TX_KNOWN_FLAGS = 0" "(ucast mode :: u32) \<le> 2" "(ucast mode :: u32) = 0 \<longleftrightarrow> mode = 0" by auto
qed

text \<open>The module takes the set exactly if no active step uses the columns of numeric steps, or nothing is switched on.\<close>

lemma loaded_acceptable:
  assumes rs: "within_module rs" and limits: "within_limits rs" and mode: "mode \<le> 2"
    and digest: "active_rules (pushed rs) = [] \<or> \<not> v3_digest_is_zero (ch_catalog_digest rs)"
  shows "acceptable (pushed rs) gen mode \<longleftrightarrow> mode = 0 \<or> list_all numeric_free (active_steps (pushed rs))"
proof -
  have loaded: "chain_loaded rs" "length (ch_ports rs) < 2 ^ 32" using rs by (simp_all add: within_module_def)
  have small: "length (active_steps (pushed rs)) < 2 ^ 32" "length (active_ports (pushed rs)) < 2 ^ 32"
    using limits by (simp_all add: within_limits_def)
  obtain rules steps ports caps where pre: "v3_preflight_ruleset (pushed rs) = Inr (rules, steps, ports, caps)"
    using loaded_preflight [OF loaded small digest] by (metis prod_cases4 rangeE)
  note c = preflight_counts [OF pre]
  have zero: "rules = 0 \<longleftrightarrow> active_rules (pushed rs) = []" using c(1) by (metis length_0_conv unat_eq_zero)
  show ?thesis
  proof (cases "mode = 0 \<or> rules = 0")
    case True
    have "\<not> begin_bad 0 0 0 0 0" by (simp add: begin_bad_def)
    moreover have "catalog_complete (target (pushed rs) gen (push_begin (pushed rs) mode (rules, steps, ports, caps)))"
      using True by (auto simp: target_def push_begin_def begin_set_def catalog_complete_def rule_count_def step_count_def port_count_def)
    ultimately have "acceptable (pushed rs) gen mode" using True by (auto simp: acceptable_def pre push_begin_def Let_def)
    moreover have "mode = 0 \<or> list_all numeric_free (active_steps (pushed rs))" using True zero by (auto simp: active_steps_def)
    ultimately show ?thesis by simp
  next
    case False
    define b where "b = \<lparr>bg_expected_rules = rules, bg_expected_steps = steps, bg_expected_ports = ports,
      bg_required_capabilities = caps, bg_catalog_digest = take 32 (ch_catalog_digest rs)\<rparr>"
    have pb: "push_begin (pushed rs) mode (rules, steps, ports, caps) = (mode, b)" using False by (simp add: push_begin_def b_def)
    have "\<forall>r \<in> set (active_rules (pushed rs)). cr_required_caps r AND NOT caps = 0" using c(4) foldl_or_covers by (metis image_eqI set_map)
    note accepted = records_accepted_iff [OF rs this]
    have "caps AND NOT JMX_V3_CAP_PHASE1_MASK = 0" using active_rule(4) [OF rs] by (simp add: c(4) foldl_or_zero)
    moreover have "rules \<le> JMX_V3_MAX_RULES" "steps \<le> JMX_V3_MAX_STEPS" "ports \<le> JMX_V3_MAX_PORTS"
      using limits by (simp_all add: within_limits_def word_le_nat_alt c(1-3))
    moreover have "steps \<noteq> 0"
      using active_counts [OF loaded(1)] False zero c(2) by (metis le_zero_eq length_0_conv unat_0)
    ultimately have "\<not> begin_bad (ucast mode) rules steps ports caps"
      using False mode_flags [OF mode] mode_masked [OF mode]
      by (auto simp: begin_bad_def Let_def not_less jmx_v3_capabilities_def JMX_V3_CAP_PHASE1_MASK_def)
    moreover have "catalog_complete (target (pushed rs) gen (mode, b))" if "list_all numeric_free (active_steps (pushed rs))"
      by (rule loaded_complete [OF rs that pre]) (use False in \<open>simp_all add: target_def begin_set_def b_def\<close>)
    ultimately show ?thesis using False accepted by (auto simp: acceptable_def pre pb Let_def b_def)
  qed
qed

end
