(* ===== verification/SignatureAccept.thy ===== *)
theory SignatureAccept
  imports ChainAccept
begin

text \<open>
  From the database to the records that the kernel takes: whether the module accepts what
  \<open>jmx_load_signature_db_with_chain\<close> of \<open>jmx_signature_db.c\<close> makes active, and a small database to try it on.
\<close>

section \<open>A small database\<close>

definition int_cell :: "int \<Rightarrow> cell" where
  "int_cell v = \<lparr>c_type = SQLITE_INTEGER, c_int64 = v, c_text = None, c_blob = None\<rparr>"

definition text_cell :: "string \<Rightarrow> cell" where
  "text_cell s = \<lparr>c_type = SQLITE_OTHER, c_int64 = 0, c_text = Some (ascii s), c_blob = Some (ascii s)\<rparr>"

definition null_cell :: cell where
  "null_cell = \<lparr>c_type = SQLITE_NULL, c_int64 = 0, c_text = None, c_blob = None\<rparr>"

definition row_of :: "cell list \<Rightarrow> row" where
  "row_of cells = (\<lambda>i. if i < length cells then cells ! i else null_cell)"

definition one_int :: "int \<Rightarrow> query" where
  "one_int v = Rows [row_of [int_cell v]] True"

text \<open>One application, one v2 rule and one chain rule with a single literal step; \<open>width\<close> is a column of numeric steps.\<close>

definition small_db :: "int \<Rightarrow> signature_db" where
  "small_db width =
     \<lparr>sd_begin = True,
      sd_apps = Rows [row_of [int_cell 77, text_cell ''demo'']] True,
      sd_rules = Rows [row_of [int_cell 5, int_cell 77, text_cell ''tcp'', text_cell ''original'', text_cell ''bm'',
        text_cell ''text'', text_cell ''GET'', null_cell, null_cell, int_cell 10, null_cell]] True,
      sd_rule_ports = (\<lambda>_. Rows [] True),
      sd_table = (\<lambda>_. one_int 1),
      sd_foreign_keys_on = True, sd_foreign_key_check = Rows [] True,
      sd_count_rules = one_int 1, sd_count_unverified = one_int 0, sd_count_zero_steps = one_int 0,
      sd_count_raw_patterns = one_int 1, sd_count_uri_patterns = one_int 0,
      sd_catalogs = Rows [row_of [int_cell 1, text_cell ''demo'', text_cell ''1'', text_cell ''0'']] True,
      sd_chain_rules = Rows [row_of [int_cell 9, int_cell 77, int_cell 3, int_cell 0x401, int_cell 1, text_cell ''tcp'', text_cell ''any'']] True,
      sd_chain_steps = Rows [row_of [int_cell 9, int_cell 0, int_cell 0x01, text_cell ''positive'', text_cell ''exact'', text_cell ''raw'',
        int_cell 0, null_cell, null_cell, null_cell, null_cell, text_cell ''GET'', int_cell 0, null_cell, null_cell, null_cell,
        null_cell, null_cell, null_cell, null_cell, null_cell, int_cell width]] True,
      sd_chain_ports = Rows [] True\<rparr>"

definition small_le :: loader_env where
  "small_le = \<lparr>le_rule_mem = \<lambda>_. True, le_realloc = \<lambda>_. True, le_sha256 = \<lambda>_. Some (replicate 32 1)\<rparr>"

lemma small_order: "ports_in_order (small_db width)"
  by (simp add: ports_in_order_def small_db_def)

definition small_step :: "int \<Rightarrow> chain_step" where
  "small_step width =
     \<lparr>cs_signature_rule_id = 9, cs_step_index = 0, cs_matcher_type = 1, cs_condition = 1, cs_case_mode = 2, cs_input_view = 0,
      cs_position_flags = 0, cs_numeric_encoding = 0, cs_literal_option = 0, cs_depth = 0, cs_offset = 0, cs_distance = 0,
      cs_within = 0, cs_payload_len = 3, cs_reference_source = 0, cs_comparison = 0, cs_adjust_mode = 0,
      cs_width = word_of_int width, cs_jump_multiplier = 0, cs_inline_operand = 0, cs_adjustment_operand = 0, cs_jump_base = 0,
      cs_payload = [0x47, 0x45, 0x54] @ replicate 61 0\<rparr>"

lemmas cell_simps = row_of_def int_cell_def text_cell_def null_cell_def one_int_def column_u32_def u32_of_def u8_of_def u16_of_def
  streq_def ascii_def c_str_def c_int_def query_u32_def first_step_def table_exists_def

lemma small_step_row:
  assumes "width = 0 \<or> width = 1"
  shows "chain_step_of_row (row_of [int_cell 9, int_cell 0, int_cell 0x01, text_cell ''positive'', text_cell ''exact'', text_cell ''raw'',
        int_cell 0, null_cell, null_cell, null_cell, null_cell, text_cell ''GET'', int_cell 0, null_cell, null_cell, null_cell,
        null_cell, null_cell, null_cell, null_cell, null_cell, int_cell width]) = Some (small_step width)"
  using assms
  by (auto simp: chain_step_of_row_def cell_simps parse_condition_def parse_case_mode_def parse_input_view_def position_column_def
      payload_column_def optional_u8_def optional_u16_def optional_u32_def optional_i32_def parse_numeric_encoding_def
      parse_comparison_def parse_coded_def small_step_def)

lemma small_rule_row:
  "chain_rule_of_row (row_of [int_cell 9, int_cell 77, int_cell 3, int_cell 0x401, int_cell 1, text_cell ''tcp'', text_cell ''any'']) [] =
     Some \<lparr>cr_signature_rule_id = 9, cr_appid = 77, cr_priority = 3, cr_required_caps = 0x401, cr_first_step = U32_MAX,
           cr_first_port = U32_MAX, cr_step_count = 1, cr_port_count = 0, cr_proto = 1, cr_dir = 0, cr_flags = 0, cr_active = 0\<rparr>"
  by (simp add: chain_rule_of_row_def cell_simps parse_chain_proto_def parse_chain_dir_def)

lemma small_rules_loaded:
  assumes "ms_match_count rs = 0"
  shows "\<exists>n rs'. load_rules small_le (small_db width) rs = (Some n, rs')"
proof -
  have one: "\<exists>n rs'. load_rule_rows small_le db [r] 0 0 rs = (Some n, rs')" for db r
    using assms by (auto simp: jmx_rule_set_add_match_def small_le_def Let_def)
  obtain r where "sd_rules (small_db width) = Rows [r] True" by (simp add: small_db_def)
  then show ?thesis using one [of "small_db width" r] by (auto simp: load_rules_def simp del: load_rule_rows.simps)
qed

lemma small_legacy:
  "\<exists>n m apps rules. load_apps (small_db width) jmx_rule_set_init = (Some n, apps) \<and> load_rules small_le (small_db width) apps = (Some m, rules)"
proof -
  have "\<exists>n apps. load_apps (small_db width) jmx_rule_set_init = (Some n, apps) \<and> ms_match_count apps = 0"
    by (simp add: load_apps_def small_db_def cell_simps jmx_rule_set_add_app_info_def jmx_rule_set_init_def)
  then show ?thesis using small_rules_loaded by blast
qed

lemma first_reserve: "chain_reserve (\<lambda>_. True) n 0 (Suc 0) = (if SIZE_MAX div n < 32 then None else Some 32)"
  using chain_grow.simps(2) [of 64 32 1] by (simp add: chain_reserve_def)

definition small_rule :: chain_rule where
  "small_rule = \<lparr>cr_signature_rule_id = 9, cr_appid = 77, cr_priority = 3, cr_required_caps = 0x401, cr_first_step = U32_MAX,
     cr_first_port = U32_MAX, cr_step_count = 1, cr_port_count = 0, cr_proto = 1, cr_dir = 0, cr_flags = 0, cr_active = 0\<rparr>"

lemma small_stages:
  assumes width: "width = 0 \<or> width = 1"
  shows "ch_rules rs = [] \<Longrightarrow> cd_rule_capacity rs = 0 \<Longrightarrow> load_chain_rules small_le (small_db width) rs =
      Inr (rs\<lparr>ch_rules := [small_rule], cd_rule_capacity := 32\<rparr>)"
    "ch_rules rs = [small_rule] \<Longrightarrow> ch_steps rs = [] \<Longrightarrow> cd_step_capacity rs = 0 \<Longrightarrow> load_chain_steps small_le (small_db width) rs =
      Inr (rs\<lparr>ch_rules := [small_rule\<lparr>cr_first_step := 0\<rparr>], ch_steps := [small_step width], cd_step_capacity := 32\<rparr>)"
    "load_chain_ports small_le (small_db width) rs = Inr rs"
proof -
  show "ch_rules rs = [] \<Longrightarrow> cd_rule_capacity rs = 0 \<Longrightarrow> load_chain_rules small_le (small_db width) rs =
      Inr (rs\<lparr>ch_rules := [small_rule], cd_rule_capacity := 32\<rparr>)"
    by (simp add: load_chain_rules_def small_db_def run_rows_def small_rule_row jmx_chain_rule_set_add_rule_def first_reserve small_le_def
      small_rule_def SIZE_MAX_def)
  have row: "sd_chain_steps (small_db width) = Rows [row_of [int_cell 9, int_cell 0, int_cell 0x01, text_cell ''positive'', text_cell ''exact'', text_cell ''raw'',
        int_cell 0, null_cell, null_cell, null_cell, null_cell, text_cell ''GET'', int_cell 0, null_cell, null_cell, null_cell,
        null_cell, null_cell, null_cell, null_cell, null_cell, int_cell width]] True" by (simp add: small_db_def)
  show "ch_rules rs = [small_rule] \<Longrightarrow> ch_steps rs = [] \<Longrightarrow> cd_step_capacity rs = 0 \<Longrightarrow> load_chain_steps small_le (small_db width) rs =
      Inr (rs\<lparr>ch_rules := [small_rule\<lparr>cr_first_step := 0\<rparr>], ch_steps := [small_step width], cd_step_capacity := 32\<rparr>)"
    unfolding load_chain_steps_def row run_rows_def
    by (simp add: small_step_row [OF width, simplified] small_step_row [OF width] enter_steps_def other_rule_def jmx_chain_rule_find_def chain_probe.simps small_rule_def
      small_step_def update_rule_def validate_step_semantics_def validate_literal_step_def jmx_chain_rule_set_add_step_def first_reserve small_le_def SIZE_MAX_def)
  show "load_chain_ports small_le (small_db width) rs = Inr rs"
    by (simp add: load_chain_ports_def run_rows_def small_db_def)
qed

lemma small_finished:
  assumes width: "width = 0 \<or> width = 1"
    and rs: "ch_rules rs = [small_rule\<lparr>cr_first_step := 0\<rparr>]" "ch_steps rs = [small_step width]" "ch_ports rs = []"
      "cd_engine_capabilities rs = 0x40f"
  shows "\<exists>rs'. finalize_chain_rules rs = Inr rs' \<and> ch_rules rs' = [small_rule\<lparr>cr_first_step := 0, cr_first_port := 0, cr_active := 1\<rparr>] \<and>
    ch_steps rs' = [small_step width] \<and> ch_ports rs' = [] \<and> ch_catalog_digest rs' = ch_catalog_digest rs"
proof -
  have steps: "chain_steps_of (pushed rs) (small_rule\<lparr>cr_first_step := 0\<rparr>) = [small_step width]"
    using rs by (simp add: chain_steps_of_def small_rule_def chain_set.defs)
  have rule: "ch_rules rs ! 0 = small_rule\<lparr>cr_first_step := 0\<rparr>" using rs by simp
  have caps: "inferred_caps rs (small_rule\<lparr>cr_first_step := 0\<rparr>) = 0x401"
    unfolding inferred_caps_def steps by (simp add: step_required_caps_def small_step_def)
  have contiguous: "steps_contiguous rs (small_rule\<lparr>cr_first_step := 0\<rparr>)"
    unfolding steps_contiguous_def steps by (simp add: small_step_def small_rule_def)
  have fields: "cr_port_count small_rule = 0" "cr_step_count small_rule = 1" "cr_required_caps small_rule = 0x401"
    by (simp_all add: small_rule_def)
  have "finalize_chain_rules rs = finalize_loop [0] rs" using rs(1) by (simp add: finalize_chain_rules_def)
  then show ?thesis
    using rs by (simp add: finalize_rule_def Let_def rule caps contiguous fields update_rule_def cd_stat_def)
qed

definition small_final :: "int \<Rightarrow> chain_set" where
  "small_final width = \<lparr>ch_rules = [small_rule\<lparr>cr_first_step := 0, cr_first_port := 0, cr_active := 1\<rparr>],
     ch_steps = [small_step width], ch_ports = [], ch_catalog_digest = replicate 32 1\<rparr>"

lemma small_records:
  assumes width: "width = 0 \<or> width = 1" and rs: "ch_rules rs = []" "ch_steps rs = []" "ch_ports rs = []" "cd_rule_capacity rs = 0"
      "cd_step_capacity rs = 0" "cd_engine_capabilities rs = 0x40f" "ch_catalog_digest rs = replicate 32 1"
  shows "\<exists>rs'. load_chain_records small_le (small_db width) rs = Inr rs' \<and> pushed rs' = small_final width"
proof -
  define rs1 where "rs1 = rs\<lparr>ch_rules := [small_rule], cd_rule_capacity := 32\<rparr>"
  define rs2 where "rs2 = rs1\<lparr>ch_rules := [small_rule\<lparr>cr_first_step := 0\<rparr>], ch_steps := [small_step width], cd_step_capacity := 32\<rparr>"
  have "load_chain_rules small_le (small_db width) rs = Inr rs1" unfolding rs1_def by (rule small_stages(1) [OF width rs(1,4)])
  moreover have "load_chain_steps small_le (small_db width) rs1 = Inr rs2"
    unfolding rs2_def by (rule small_stages(2) [OF width]) (simp_all add: rs1_def rs)
  moreover have "load_chain_ports small_le (small_db width) rs2 = Inr rs2" by (rule small_stages(3) [OF width])
  moreover obtain rs3 where "finalize_chain_rules rs2 = Inr rs3"
      "ch_rules rs3 = [small_rule\<lparr>cr_first_step := 0, cr_first_port := 0, cr_active := 1\<rparr>]" "ch_steps rs3 = [small_step width]"
      "ch_ports rs3 = []" "ch_catalog_digest rs3 = ch_catalog_digest rs2"
    using small_finished [OF width, of rs2] rs by (auto simp: rs2_def rs1_def)
  ultimately show ?thesis
    using rs by (simp add: load_chain_records_def small_final_def rs2_def rs1_def chain_set.defs)
qed

lemma small_schema:
  assumes width: "width = 0 \<or> width = 1"
  shows "\<exists>chain. load_chain_schema small_le (small_db width) (cd_stat f (jmx_chain_rule_set_init 0x40f)) = (True, chain) \<and>
    pushed chain = small_final width"
proof -
  have tables: "map (table_exists (small_db width)) chain_tables = [Some True, Some True, Some True, Some True]"
    by (simp add: chain_tables_def table_exists_def small_db_def one_int_def first_step_def)
  have keys: "validate_foreign_keys (small_db width)" by (simp add: validate_foreign_keys_def small_db_def)
  have digest: "load_catalog_digest small_le (small_db width) = Some (replicate 32 1)"
    by (simp add: load_catalog_digest_def small_db_def small_le_def cell_simps catalog_text_def)
  define start where "start = (cd_stat f (jmx_chain_rule_set_init 0x40f))\<lparr>cd_schema_v2_present := True\<rparr>"
  have "query_u32 (one_int 1) = Some 1" "query_u32 (one_int 0) = Some 0" by (simp_all add: cell_simps)
  then obtain g where stats: "load_chain_stats (small_db width) start = (True, cd_stat g start)"
    by (auto simp: load_chain_stats_def stat_query_def small_db_def cd_stat_cd_stat)
  obtain rs' where "load_chain_records small_le (small_db width) ((cd_stat g start)\<lparr>ch_catalog_digest := replicate 32 1\<rparr>) = Inr rs'"
      "pushed rs' = small_final width"
    using small_records [OF width, of "(cd_stat g start)\<lparr>ch_catalog_digest := replicate 32 1\<rparr>"]
    by (auto simp: start_def cd_stat_def jmx_chain_rule_set_init_def)
  then show ?thesis
    using tables keys digest stats by (simp add: load_chain_schema_def Let_def start_def)
qed

lemma small_load:
  assumes width: "width = 0 \<or> width = 1"
  shows "\<exists>rules chain. jmx_load_signature_db_with_chain small_le (Some (small_db width)) jmx_v3_capabilities = (True, rules, chain, Some True) \<and>
    pushed chain = small_final width"
proof -
  obtain n m apps rules where legacy: "load_apps (small_db width) jmx_rule_set_init = (Some n, apps)"
      "load_rules small_le (small_db width) apps = (Some m, rules)"
    using small_legacy by blast
  obtain chain where "load_chain_schema small_le (small_db width) (cd_stat (legacy_stats rules) (jmx_chain_rule_set_init 0x40f)) = (True, chain)"
      "pushed chain = small_final width"
    using small_schema [OF width] by blast
  moreover have "sd_begin (small_db width)" by (simp add: small_db_def)
  ultimately show ?thesis using legacy by (simp add: jmx_load_signature_db_with_chain_def Let_def)
qed

section \<open>Properties\<close>

text \<open>C5: What the loader keeps, the kernel takes, but for one gap.  Whatever database is loaded for capabilities of the module,
  the rules, steps and ports that are kept are consistent: identifiers ascend, every rule has its steps and ports in
  place, and a rule is active exactly if the capabilities cover it.  Within the module's limits such a set passes all
  checks of a transaction (preflight, BEGIN, every record, COMMIT) exactly if the mode is off or no active step, each of
  which is a literal here, has a value in one of the columns for numeric steps: the loader does not look at them.\<close>

theorem loaded_chain_acceptable:
  assumes "jmx_load_signature_db_with_chain le (Some db) caps = (True, rules, chain, Some True)" and "ports_in_order db"
    and "caps AND NOT jmx_v3_capabilities = 0" and "length (ch_ports chain) < 2 ^ 32" and "within_limits chain" and "mode \<le> 2"
    and "active_rules (pushed chain) = [] \<or> \<not> v3_digest_is_zero (ch_catalog_digest chain)"
  shows "chain_loaded chain \<and>
    (acceptable (pushed chain) gen mode \<longleftrightarrow> mode = 0 \<or> list_all numeric_free (active_steps (pushed chain)))"
proof -
  note loaded = loaded_chain [OF assms(1,2)]
  have "(caps AND JMX_V3_CAP_KNOWN_MASK) AND NOT JMX_V3_CAP_PHASE1_MASK = (caps AND NOT JMX_V3_CAP_PHASE1_MASK) AND JMX_V3_CAP_KNOWN_MASK"
    by (metis and.assoc and.commute)
  then have "(caps AND JMX_V3_CAP_KNOWN_MASK) AND NOT JMX_V3_CAP_PHASE1_MASK = 0" using assms(3) by (simp only: jmx_v3_capabilities_def and_zero_eq bit.conj_zero_left)
  then have "within_module chain" using loaded assms(4) by (simp add: within_module_def)
  then show ?thesis using loaded_acceptable [OF _ assms(5,6,7)] loaded(1) by blast
qed

theorem loaded_chain_acceptable_witness:
  "(\<exists>rules chain. jmx_load_signature_db_with_chain small_le (Some (small_db 0)) jmx_v3_capabilities = (True, rules, chain, Some True) \<and>
      acceptable (pushed chain) 9 2) \<and>
   (\<exists>rules chain. jmx_load_signature_db_with_chain small_le (Some (small_db 1)) jmx_v3_capabilities = (True, rules, chain, Some True) \<and>
      \<not> acceptable (pushed chain) 9 2)"
proof -
  have active: "length (active_rules (small_final w)) = 1" "active_steps (small_final w) = [small_step w]"
      "active_ports (small_final w) = []" for w
    by (simp_all add: active_rules_def active_steps_def active_ports_def small_final_def chain_steps_of_def chain_ports_of_def small_rule_def)
  have "\<exists>rules chain. jmx_load_signature_db_with_chain small_le (Some (small_db w)) jmx_v3_capabilities = (True, rules, chain, Some True) \<and>
      (acceptable (pushed chain) 9 2 \<longleftrightarrow> w = 0)" if w: "w = 0 \<or> w = 1" for w
  proof -
    obtain rules chain where load: "jmx_load_signature_db_with_chain small_le (Some (small_db w)) jmx_v3_capabilities = (True, rules, chain, Some True)"
        and chain: "pushed chain = small_final w" using small_load [OF w] by blast
    have "ch_ports chain = []" "\<not> v3_digest_is_zero (ch_catalog_digest chain)"
      using arg_cong [OF chain, of ch_ports] arg_cong [OF chain, of ch_catalog_digest]
      by (simp_all add: small_final_def v3_digest_is_zero_def list_all_iff)
    then have "acceptable (pushed chain) 9 2 \<longleftrightarrow> list_all numeric_free [small_step w]"
      using loaded_chain_acceptable [OF load small_order, of 2 9] active [of w]
      by (simp add: within_limits_def chain)
    moreover have "list_all numeric_free [small_step w] \<longleftrightarrow> w = 0" using w by (auto simp: numeric_free_def small_step_def)
    ultimately show ?thesis using load by blast
  qed
  from this [of 0] this [of 1] show ?thesis by auto
qed

end
