(* ===== verification/V2Match.thy ===== *)
theory V2Match
  imports V2AC V3AC_Scan
begin

text \<open>
  The automaton of the v2 rules is correct: it is the automaton of a trie whose labels are the unfolded
  patterns, so that the lemmas of the v3 engine apply to its states; the scan returns the pattern with
  the smallest priority among those that occur in the payload where their conditions allow it.
\<close>

unbundle bit_operations_syntax

section \<open>Construction\<close>

definition raw :: "ac_pattern \<Rightarrow> bytes" where
  "raw p = take (pat_len p) (pat_bytes p)"

definition v2_entries :: "nat \<Rightarrow> v2_pattern list \<Rightarrow> ac_pattern list" where
  "v2_entries i ps = map2 v2_entry [i..<i + length ps] ps"

lemma v2_entries_simps [simp]:
  "v2_entries i [] = []" "v2_entries i (p # ps) = v2_entry i p # v2_entries (Suc i) ps"
  by (simp_all add: v2_entries_def upt_conv_Cons del: upt_Suc)

lemma length_v2_entries [simp]: "length (v2_entries i ps) = length ps"
  by (simp add: v2_entries_def)

lemma nth_v2_entries: "j < length ps \<Longrightarrow> v2_entries i ps ! j = v2_entry (i + j) (ps ! j)"
  by (simp add: v2_entries_def)

abbreviation v2_lens :: "v2_pattern list \<Rightarrow> nat" where
  "v2_lens ps \<equiv> sum_list (map (\<lambda>p. unat (vp_match_len p)) ps)"

lemma v2_count_nodes_result:
  "v2_count_nodes ps m = Inr k \<Longrightarrow> k = m + v2_lens ps \<and> (\<forall>p \<in> set ps. vp_match_len p \<noteq> 0)"
proof (induction ps arbitrary: m)
  case (Cons p ps)
  then have "v2_count_nodes ps (m + unat (vp_match_len p)) = Inr k" "vp_match_len p \<noteq> 0" by (auto split: if_splits)
  then show ?case using Cons.IH by fastforce
qed simp

lemma v2_count_nodes_ok:
  "(\<forall>p \<in> set ps. vp_match_len p \<noteq> 0) \<Longrightarrow> m + v2_lens ps < 2 ^ 32 \<Longrightarrow> v2_count_nodes ps m = Inr (m + v2_lens ps)"
  by (induction ps arbitrary: m) (auto simp: not_le)

text \<open>Insertion keeps the trie; it only fails when a node gets 65535 patterns.\<close>

lemma v2_insert_step:
  assumes "trie_ok b L" and "outs_ok raw b L es" and "length (b_nodes b) + unat (vp_match_len p) \<le> b_max_nodes b"
  shows "\<exists>b1 node K. insert_bytes b 0 (take (unat (vp_match_len p)) (vp_match_str p)) = Inr (b1, node) \<and>
    trie_ok b1 (L @ K) \<and> outs_ok raw b1 (L @ K) es \<and> node < length (L @ K) \<and>
    (L @ K) ! node = raw (v2_entry i p) \<and> b_max_nodes b1 = b_max_nodes b \<and>
    length (b_nodes b1) \<le> length (b_nodes b) + unat (vp_match_len p)"
proof -
  let ?w = "take (unat (vp_match_len p)) (vp_match_str p)"
  have root: "0 < length L" "L ! 0 = []" using assms(1) by (simp_all add: trie_ok_def labels_ok_def)
  have len: "length (b_nodes b) + length ?w \<le> b_max_nodes b" using assms(3) by simp
  obtain b1 node K where ins: "insert_bytes b 0 ?w = Inr (b1, node)" "trie_ok b1 (L @ K)" "node < length (L @ K)"
    "(L @ K) ! node = L ! 0 @ ?w" "same_outputs b b1" "length (b_nodes b1) \<le> length (b_nodes b) + length ?w"
    using insert_bytes_ok [OF assms(1) root(1) len] by blast
  have "outs_ok raw b1 (L @ K) es" by (rule outs_ok_mono [OF assms(2,1) ins(2,5)])
  moreover have "(L @ K) ! node = raw (v2_entry i p)" using ins(4) root(2) by (simp add: raw_def v2_entry_def)
  moreover have "b_max_nodes b1 = b_max_nodes b" using ins(5) by (simp add: same_outputs_def)
  moreover have "length (b_nodes b1) \<le> length (b_nodes b) + unat (vp_match_len p)" using ins(6) by simp
  ultimately show ?thesis using ins(1-3) by blast
qed

lemma v2_insert_ok:
  assumes "trie_ok b L" and "outs_ok raw b L es" and "length (b_nodes b) + v2_lens ps \<le> b_max_nodes b"
    and "v2_insert_patterns b i ps = Inr b'"
  shows "\<exists>K. trie_ok b' (L @ K) \<and> outs_ok raw b' (L @ K) (es @ v2_entries i ps)"
  using assms
proof (induction ps arbitrary: b L es i)
  case Nil
  then show ?case by (intro exI [of _ "[]"]) simp
next
  case (Cons p ps)
  have "length (b_nodes b) + unat (vp_match_len p) \<le> b_max_nodes b" using Cons.prems(3) by simp
  from v2_insert_step [OF Cons.prems(1,2) this, of i] obtain b1 node K where
    b1: "insert_bytes b 0 (take (unat (vp_match_len p)) (vp_match_str p)) = Inr (b1, node)"
    "trie_ok b1 (L @ K)" "outs_ok raw b1 (L @ K) es" "node < length (L @ K)" "(L @ K) ! node = raw (v2_entry i p)"
    "b_max_nodes b1 = b_max_nodes b" "length (b_nodes b1) \<le> length (b_nodes b) + unat (vp_match_len p)" by blast
  obtain b2 where b2: "add_output b1 node (v2_entry i p) = Inr b2" "v2_insert_patterns b2 (i + 1) ps = Inr b'"
    using Cons.prems(4) b1(1) by (auto split: sum.splits)
  note out = add_output_step [OF b1(2,3,4,5) b2(1)]
  have "length (b_nodes b2) = length (b_nodes b1)" using b1(2) out by (simp add: trie_ok_def)
  then have "length (b_nodes b2) + v2_lens ps \<le> b_max_nodes b2" using Cons.prems(3) b1(6,7) out by simp
  then obtain M where "trie_ok b' ((L @ K) @ M)" "outs_ok raw b' ((L @ K) @ M) ((es @ [v2_entry i p]) @ v2_entries (i + 1) ps)"
    using Cons.IH [of b2 "L @ K" "es @ [v2_entry i p]" "i + 1"] out b2(2) by blast
  then show ?case by (intro exI [of _ "K @ M"]) simp
qed

lemma v2_insert_total:
  assumes "trie_ok b L" and "outs_ok raw b L es" and "length (b_nodes b) + v2_lens ps \<le> b_max_nodes b"
    and "length es + length ps \<le> 65535"
  shows "\<exists>b'. v2_insert_patterns b i ps = Inr b'"
  using assms
proof (induction ps arbitrary: b L es i)
  case (Cons p ps)
  have "length (b_nodes b) + unat (vp_match_len p) \<le> b_max_nodes b" using Cons.prems(3) by simp
  from v2_insert_step [OF Cons.prems(1,2) this, of i] obtain b1 node K where
    b1: "insert_bytes b 0 (take (unat (vp_match_len p)) (vp_match_str p)) = Inr (b1, node)"
    "trie_ok b1 (L @ K)" "outs_ok raw b1 (L @ K) es" "node < length (L @ K)" "(L @ K) ! node = raw (v2_entry i p)"
    "b_max_nodes b1 = b_max_nodes b" "length (b_nodes b1) \<le> length (b_nodes b) + unat (vp_match_len p)" by blast
  have few: "length es < 65535" using Cons.prems(4) by simp
  from add_output_ok [OF b1(2,3,4,5) few] obtain b2 where
    b2: "add_output b1 node (v2_entry i p) = Inr b2" "trie_ok b2 (L @ K)" "outs_ok raw b2 (L @ K) (es @ [v2_entry i p])"
    "b_max_nodes b2 = b_max_nodes b1" by blast
  have "length (b_nodes b2) = length (b_nodes b1)" using b1(2) b2(2) by (simp add: trie_ok_def)
  then have "length (b_nodes b2) + v2_lens ps \<le> b_max_nodes b2" using Cons.prems(3) b1(6,7) b2(4) by simp
  then obtain b' where "v2_insert_patterns b2 (i + 1) ps = Inr b'"
    using Cons.IH [OF b2(2,3)] Cons.prems(4) by auto
  then show ?case using b1(1) b2(1) by simp
qed simp

lemma v2_link_nodes_eq:
  assumes "trie_ok b L"
  shows "v2_link_nodes b = link_nodes b"
proof -
  have none: "bn_dict_suffix (b_nodes b ! n) = None" if "n < length (b_nodes b)" for n
    using assms that by (simp add: trie_ok_def)
  have "foldl (\<lambda>ns c. ns[c := (ns ! c)\<lparr>bn_fail := 0, bn_dict_suffix := None\<rparr>]) ns q = foldl (\<lambda>ns c. ns[c := (ns ! c)\<lparr>bn_fail := 0\<rparr>]) ns q \<and>
      (\<forall>n < length ns. bn_dict_suffix (foldl (\<lambda>ns c. ns[c := (ns ! c)\<lparr>bn_fail := 0\<rparr>]) ns q ! n) = None)"
    if "\<forall>n < length ns. bn_dict_suffix (ns ! n) = None" for ns q
    using that
  proof (induction q arbitrary: ns)
    case (Cons c q)
    have same: "ns[c := (ns ! c)\<lparr>bn_fail := 0, bn_dict_suffix := None\<rparr>] = ns[c := (ns ! c)\<lparr>bn_fail := 0\<rparr>]"
    proof (cases "c < length ns")
      case True
      then have "bn_dict_suffix (ns ! c) = None" using Cons.prems by simp
      then show ?thesis by (cases "ns ! c") simp
    qed (simp add: list_update_beyond)
    have "\<forall>n < length (ns[c := (ns ! c)\<lparr>bn_fail := 0\<rparr>]). bn_dict_suffix (ns[c := (ns ! c)\<lparr>bn_fail := 0\<rparr>] ! n) = None"
      using Cons.prems by (cases "c < length ns") (simp_all add: nth_list_update list_update_beyond)
    from Cons.IH [OF this] show ?case by (simp add: same)
  qed simp
  from this [of "b_nodes b"] none show ?thesis by (simp add: v2_link_nodes_def link_nodes_def Let_def)
qed

lemma v2_flatten_eq:
  "va_nodes (v2_flatten b pats ns) = ac_nodes (flatten b ns) \<and> va_edges (v2_flatten b pats ns) = ac_edges (flatten b ns) \<and>
   va_outputs (v2_flatten b pats ns) = map ao_rule_index (ac_outputs (flatten b ns)) \<and> va_pats (v2_flatten b pats ns) = pats"
  by (induction ns rule: rev_induct)
    (auto simp: v2_flatten_def flatten_def v2_flatten_node_def flatten_node_def flat_outputs_def)

text \<open>The arrays are long enough.\<close>

definition v2_pattern_wf :: "v2_pattern \<Rightarrow> bool" where
  "v2_pattern_wf p \<longleftrightarrow> unat (vp_match_len p) \<le> length (vp_match_str p)"

definition v2_word :: "v2_pattern \<Rightarrow> bytes" where
  "v2_word p = take (unat (vp_match_len p)) (vp_match_str p)"

lemma raw_entry [simp]: "raw (v2_entry i p) = v2_word p"
  by (simp add: raw_def v2_entry_def v2_word_def)

definition v2_automaton :: "v2_pattern list \<Rightarrow> bytes list \<Rightarrow> ac \<Rightarrow> v2_ac \<Rightarrow> build \<Rightarrow> build_node list \<Rightarrow> bool" where
  "v2_automaton pats L core ac b ns \<longleftrightarrow> automaton b L ns core \<and> outs_ok raw b L (v2_entries 0 pats) \<and>
     va_nodes ac = ac_nodes core \<and> va_edges ac = ac_edges core \<and> va_outputs ac = map ao_rule_index (ac_outputs core) \<and>
     va_pats ac = pats \<and> (\<forall>p \<in> set (v2_entries 0 pats). raw p \<noteq> [])"

lemma v2_build_automaton:
  assumes built: "jmx_v2_ac_build mem pats = Inr (ac, stats)" and wf: "list_all v2_pattern_wf pats"
  shows "\<exists>L core b ns. v2_automaton pats L core ac b ns"
proof -
  let ?m = "1 + v2_lens pats"
  obtain m where count: "v2_count_nodes pats 1 = Inr m" using built by (auto simp: jmx_v2_ac_build_def split: if_splits sum.splits)
  note m = v2_count_nodes_result [OF count]
  obtain b where b: "v2_insert_patterns (trie_start ?m) 0 pats = Inr b" "ac = v2_flatten b pats (v2_link_nodes b)"
    using built count m by (auto simp: jmx_v2_ac_build_def trie_start_def Let_def split: if_splits sum.splits)
  have "length (b_nodes (trie_start ?m)) + v2_lens pats \<le> b_max_nodes (trie_start ?m)" by (simp add: trie_start_def)
  from v2_insert_ok [OF trie_start_ok this b(1)] obtain K where
    ok: "trie_ok b ([[]] @ K)" "outs_ok raw b ([[]] @ K) (v2_entries 0 pats)" by auto
  have ne: "raw p \<noteq> []" if p: "p \<in> set (v2_entries 0 pats)" for p
  proof -
    obtain j where j: "j < length pats" "p = v2_entries 0 pats ! j" using p by (auto simp: in_set_conv_nth)
    then have "v2_pattern_wf (pats ! j)" "vp_match_len (pats ! j) \<noteq> 0" using wf m by (auto simp: list_all_length)
    then have "unat (vp_match_len (pats ! j)) \<noteq> 0" "unat (vp_match_len (pats ! j)) \<le> length (vp_match_str (pats ! j))"
      by (simp_all add: v2_pattern_wf_def unat_eq_zero)
    then show ?thesis using j by (auto simp: nth_v2_entries v2_word_def)
  qed
  then have "filter (\<lambda>i. raw (v2_entries 0 pats ! i) = []) [0..<length pats] = []" by (auto simp: filter_empty_conv)
  then have "bn_output_count (b_nodes b ! 0) = 0" using ok(2) by (auto simp: outs_ok_def)
  then have "automaton b ([[]] @ K) (link_nodes b) (flatten b (link_nodes b))"
    using ok(1) link_nodes_ok [OF ok(1)] flatten_ok by (simp add: automaton_def)
  then show ?thesis
    using ok(2) ne b(2) v2_flatten_eq [of b pats "link_nodes b"] v2_link_nodes_eq [OF ok(1)]
    unfolding v2_automaton_def by (metis)
qed

section \<open>States\<close>

lemma v2_find_probe_eq: "find_probe edges ebegin byte lo hi work = Inr (r, w) \<Longrightarrow> v2_find_probe edges ebegin byte lo hi = r"
proof (induction edges ebegin byte lo hi work rule: find_probe.induct)
  case (1 edges ebegin byte lo hi work)
  note eq = "1.prems" [unfolded find_probe.simps [of edges ebegin byte lo hi work] Let_def]
  show ?case
    unfolding v2_find_probe.simps [of edges ebegin byte lo hi] Let_def
    using eq "1.IH" [OF _ _ refl refl] by (auto split: if_splits)
qed

lemma v2_find_child_iff:
  assumes aut: "v2_automaton pats L core ac b ns" and n: "n < length L"
  shows "v2_find_child ac n c = Some t \<longleftrightarrow> t < length L \<and> L ! t = L ! n @ [c]"
proof -
  have a: "automaton b L ns core" using aut by (simp add: v2_automaton_def)
  obtain r w where r: "find_child core n c 9 = Inr (r, w)" using find_child_cost [OF a n order_refl] by blast
  then have "v2_find_child ac n c = r"
    using aut v2_find_probe_eq by (fastforce simp: v2_find_child_def find_child_def Let_def v2_automaton_def)
  then show ?thesis using find_child_ok [OF a n r] by simp
qed

lemma v2_next_ok:
  assumes aut: "v2_automaton pats L core ac b ns"
  shows "is_cand L u c s \<Longrightarrow> length (L ! s) < fuel \<Longrightarrow> is_longest L (u @ [c]) (v2_next_state fuel ac s c)"
proof (induction fuel arbitrary: s)
  case (Suc fuel)
  have a: "automaton b L ns core" using aut by (simp add: v2_automaton_def)
  note lab = automatonD(3) [OF a]
  have s: "s < length L" using Suc.prems(1) by (simp add: is_cand_def)
  show ?case
  proof (cases "v2_find_child ac s c")
    case (Some t)
    then show ?thesis using cand_child [OF lab Suc.prems(1)] v2_find_child_iff [OF aut s, of c t] by simp
  next
    case None
    then have "\<not> (t < length L \<and> L ! t = L ! s @ [c])" for t using v2_find_child_iff [OF aut s, of c t] by simp
    then have none: "L ! s @ [c] \<notin> set L" by (auto simp: in_set_conv_nth)
    show ?thesis
    proof (cases "s = 0")
      case True
      then have "[c] \<notin> set L" using none labels_root [OF lab] by simp
      then show ?thesis using cand_root [OF lab] Suc.prems(1) None True by simp
    next
      case False
      have lk: "linked L ns s" by (rule automatonD(6) [OF a s False])
      have cand: "is_cand L u c (bn_fail (ns ! s))" using cand_fail [OF Suc.prems(1) none] lk by (simp add: linked_def)
      have "length (L ! bn_fail (ns ! s)) < length (L ! s)" using linked_fail_shorter [OF lab lk s False] by simp
      moreover have "an_fail (va_nodes ac ! s) = bn_fail (ns ! s)" using automatonD(7) [OF a s] aut by (simp add: v2_automaton_def)
      ultimately show ?thesis using Suc.IH [OF cand] Suc.prems(2) None False by simp
    qed
  qed
qed simp

lemma v2_step_ok:
  assumes aut: "v2_automaton pats L core ac b ns" and s: "is_longest L u s"
  shows "is_longest L (u @ [c]) (v2_next_state (Suc (length (va_nodes ac))) ac s c)"
proof -
  have a: "automaton b L ns core" using aut by (simp add: v2_automaton_def)
  have "s < length L" using s by (simp add: is_longest_def)
  then have "length (L ! s) < length L" using label_length [OF automatonD(3) [OF a]] nth_mem by blast
  moreover have "length (va_nodes ac) = length L" using automatonD(5) [OF a] aut by (simp add: v2_automaton_def)
  ultimately show ?thesis using v2_next_ok [OF aut longest_cand [OF s]] by (simp del: v2_next_state.simps)
qed

section \<open>Emission\<close>

lemma v2_emit_node_eq:
  assumes aut: "v2_automaton pats L core ac b ns" and n: "n < length L"
  shows "v2_emit_node ac pk len pos best n =
    foldl (v2_consider pk len pos) best (map ((!) pats) (equal_to raw (v2_entries 0 pats) (L ! n)))"
proof -
  have a: "automaton b L ns core" and outs: "outs_ok raw b L (v2_entries 0 pats)" using aut by (simp_all add: v2_automaton_def)
  have len: "n < length ns" using n automatonD(4) [OF a] by simp
  have "segment (ac_outputs core) (an_output_begin (ac_nodes core ! n)) (length (flat_outputs b (ns ! n))) = flat_outputs b (ns ! n)"
    using a len unfolding automaton_def flat_ok_def by blast
  then have "take (an_output_count (va_nodes ac ! n)) (drop (an_output_begin (va_nodes ac ! n)) (va_outputs ac)) =
      map ao_rule_index (flat_outputs b (ns ! n))"
    using aut flat_outputs_eq(2) [OF a outs n] by (simp add: v2_automaton_def segment_def take_map drop_map)
  also have "\<dots> = equal_to raw (v2_entries 0 pats) (L ! n)"
    unfolding flat_outputs_eq(1) [OF a outs n]
    by (auto simp: equal_to_def out_of_def nth_v2_entries v2_entry_def intro!: map_idI)
  finally show ?thesis using aut by (simp add: v2_emit_node_def Let_def v2_automaton_def)
qed

lemma v2_emit_state_eq:
  assumes aut: "v2_automaton pats L core ac b ns" and t: "is_longest L u t"
  shows "foldl (v2_emit_node ac pk len pos) best (v2_dict_nodes ac t) =
    foldl (v2_consider pk len pos) best (map ((!) pats) (hits raw (v2_entries 0 pats) u))"
proof -
  let ?es = "v2_entries 0 pats"
  have a: "automaton b L ns core" and outs: "outs_ok raw b L ?es" and ne: "\<forall>p \<in> set ?es. raw p \<noteq> []"
    using aut by (simp_all add: v2_automaton_def)
  have n: "t < length L" using t by (simp add: is_longest_def)
  have sub: "\<forall>p \<in> set ?es. raw p \<in> set L" using outs by (auto simp: outs_ok_def in_set_conv_nth)
  have "length (L ! t) < Suc (length (ac_nodes core))"
    using label_length [OF automatonD(3) [OF a] nth_mem [OF n]] automatonD(5) [OF a] by simp
  note chain = chain_hits [OF a outs ne n this]
  have dict: "v2_dict_nodes ac t = dict_nodes core t" using aut by (simp add: v2_dict_nodes_def dict_nodes_def v2_automaton_def)
  have "foldl (v2_emit_node ac pk len pos) best ms =
      foldl (v2_consider pk len pos) best (map ((!) pats) (concat (map (\<lambda>m. equal_to raw ?es (L ! m)) ms)))"
    if "set ms \<subseteq> {..<length L}" for ms
    using that by (induction ms arbitrary: best) (simp_all add: v2_emit_node_eq [OF aut])
  then show ?thesis using chain hits_longest [OF sub ne t] by (simp add: dict dict_nodes_def del: chain_upto.simps)
qed

text \<open>Everything the scan considers: patterns and the index of their last byte, in order.\<close>

definition v2_considered :: "v2_pattern list \<Rightarrow> bytes \<Rightarrow> nat list \<Rightarrow> (nat \<times> v2_pattern) list" where
  "v2_considered pats text ends =
     concat (map (\<lambda>e. map (\<lambda>i. (e, pats ! i)) (hits raw (v2_entries 0 pats) (take (Suc e) text))) ends)"

lemma v2_scan_bytes_eq:
  assumes aut: "v2_automaton pats L core ac b ns"
  shows "is_longest L pre s \<Longrightarrow> v2_scan_bytes ac pk len rest (length pre) s best =
    foldl (\<lambda>best (e, p). v2_consider pk len (word_of_nat e) best p) best
      (v2_considered pats (pre @ rest) [length pre..<length (pre @ rest)])"
proof (induction rest arbitrary: pre s best)
  case (Cons c rest)
  let ?t = "v2_next_state (Suc (length (va_nodes ac))) ac s c"
  have t: "is_longest L (pre @ [c]) ?t" by (rule v2_step_ok [OF aut Cons.prems])
  have split: "[length pre..<Suc (length pre + length rest)] = length pre # [Suc (length pre)..<Suc (length pre + length rest)]"
    by (rule upt_conv_Cons) simp
  have "foldl (v2_emit_node ac pk len (word_of_nat (length pre))) best (v2_dict_nodes ac ?t) =
      foldl (\<lambda>best (e, p). v2_consider pk len (word_of_nat e) best p) best
        (map (\<lambda>i. (length pre, pats ! i)) (hits raw (v2_entries 0 pats) (take (Suc (length pre)) (pre @ c # rest))))"
    by (simp add: v2_emit_state_eq [OF aut t] foldl_map del: v2_next_state.simps)
  then show ?case
    using Cons.IH [OF t] by (simp add: Let_def split v2_considered_def del: upt_Suc v2_next_state.simps)
qed (simp add: v2_considered_def)

section \<open>The best match\<close>

text \<open>What it means that a pattern applies to a packet, with its first byte at index \<open>s\<close> of the payload.\<close>

definition v2_applies :: "v2_pattern \<Rightarrow> v2_packet \<Rightarrow> bytes \<Rightarrow> nat \<Rightarrow> bool" where
  "v2_applies p pk text s \<longleftrightarrow>
     (let m = unat (vp_match_len p); seq = unat (vk_pkt_seq pk)
      in s + m \<le> length text \<and> take m (drop s text) = v2_word p \<and>
         (vp_proto p \<noteq> 0 \<longrightarrow> vp_proto p AND vk_proto pk \<noteq> 0) \<and>
         (vp_dir p \<noteq> 0 \<longrightarrow> vp_dir p = vk_dir pk) \<and>
         (vp_method p = 0 \<longrightarrow> m = length text) \<and>
         (0 \<le> sint (vp_offset p) \<longrightarrow> int s = sint (vp_offset p)) \<and>
         (vp_pkt_seq p \<noteq> 0 \<longrightarrow> seq \<in> {1..32} \<and> bit (vp_pkt_seq p) (seq - 1)) \<and>
         in_ranges (vp_ports_min p) (vp_ports_max p) (vk_dport pk) \<and>
         in_ranges (vp_lens_min p) (vp_lens_max p) (word_of_nat (length text)))"

lemma fold_best:
  "let r = foldl (\<lambda>best (e, p). v2_consider pk len (word_of_nat e) best p) best cs
   in snd r \<le> snd best \<and> (\<forall>(e, p) \<in> set cs. v2_gates p pk len (word_of_nat e) \<longrightarrow> snd r \<le> vp_priority p) \<and>
      (r = best \<or> (\<exists>(e, p) \<in> set cs. v2_gates p pk len (word_of_nat e) \<and> r = (vp_appid p, vp_priority p) \<and> vp_priority p < snd best))"
proof (induction cs arbitrary: best)
  case (Cons c cs)
  obtain e p where c: "c = (e, p)" by fastforce
  define best' where "best' = v2_consider pk len (word_of_nat e) best p"
  have step: "snd best' \<le> snd best" "v2_gates p pk len (word_of_nat e) \<Longrightarrow> snd best' \<le> vp_priority p"
    "best' = best \<or> v2_gates p pk len (word_of_nat e) \<and> best' = (vp_appid p, vp_priority p) \<and> vp_priority p < snd best"
    by (auto simp: best'_def v2_consider_def)
  show ?case
    using Cons.IH [of best'] step
    by (simp add: c best'_def [symmetric] Let_def) (use order.trans order.strict_trans2 in \<open>fastforce\<close>)
qed simp

lemma bit_test: "k < 32 \<Longrightarrow> (w :: u32) AND push_bit k 1 = 0 \<longleftrightarrow> \<not> bit w k"
  by (simp add: bit_iff_and_push_bit_not_eq_0)

lemma v2_gates_applies:
  assumes len: "length text < 2 ^ 16" and e: "e < length text" and m: "unat (vp_match_len p) \<le> Suc e"
    and occ: "take (unat (vp_match_len p)) (drop (Suc e - unat (vp_match_len p)) text) = v2_word p"
  shows "v2_gates p pk (word_of_nat (length text)) (word_of_nat e) \<longleftrightarrow> v2_applies p pk text (Suc e - unat (vp_match_len p))"
proof -
  let ?m = "unat (vp_match_len p)"
  let ?s = "Suc e - ?m"
  have small: "e < 2 ^ 16" "Suc e \<le> 2 ^ 16" using len e by simp_all
  have pos: "unat (word_of_nat e + 1 :: u32) = Suc e" using small by (simp add: unat_word_ariths unat_of_nat)
  have ml: "unat (ucast (vp_match_len p) :: u32) = ?m"
    using unsigned_less [of "vp_match_len p", where 'a = nat] by (simp add: unsigned_ucast_eq take_bit_nat_eq_self)
  have start: "unat (word_of_nat e + 1 - ucast (vp_match_len p) :: u32) = ?s"
    using m pos ml by (subst unat_sub) (simp_all add: word_le_nat_alt)
  have whole: "vp_match_len p = word_of_nat (length text) \<longleftrightarrow> ?m = length text"
    using len by (auto simp: word_unat_eq_iff unat_of_nat)
  have off: "word_of_nat e + 1 - ucast (vp_match_len p) = vp_offset p \<longleftrightarrow> int ?s = sint (vp_offset p)" if "0 \<le> sint (vp_offset p)"
  proof -
    have "sint (vp_offset p) = int (unat (vp_offset p))"
      using that sint_lt [of "vp_offset p"] uint_sint [of "vp_offset p"] by (simp add: take_bit_int_eq_self)
    then show ?thesis using start by (metis of_nat_eq_iff word_unat_eq_iff)
  qed
  have seq: "unat (vk_pkt_seq pk - 1) = unat (vk_pkt_seq pk) - 1" if "vk_pkt_seq pk \<noteq> 0"
    using that by (simp add: unat_minus_one)
  have seqs: "\<not> (vk_pkt_seq pk = 0 \<or> 32 < vk_pkt_seq pk \<or> vp_pkt_seq p AND push_bit (unat (vk_pkt_seq pk - 1)) 1 = 0) \<longleftrightarrow>
      unat (vk_pkt_seq pk) \<in> {1..32} \<and> bit (vp_pkt_seq p) (unat (vk_pkt_seq pk) - 1)"
  proof (cases "vk_pkt_seq pk = 0 \<or> 32 < vk_pkt_seq pk")
    case True
    then show ?thesis by (auto simp: word_less_nat_alt)
  next
    case False
    then have "1 \<le> unat (vk_pkt_seq pk)" "unat (vk_pkt_seq pk) \<le> 32" by (auto simp: word_less_nat_alt unat_gt_0 Suc_le_eq)
    then show ?thesis using False seq bit_test [of "unat (vk_pkt_seq pk) - 1" "vp_pkt_seq p"] by simp
  qed
  have end': "?s + ?m \<le> length text" "\<not> word_of_nat e + 1 < (ucast (vp_match_len p) :: u32)"
    using e m pos ml by (simp_all add: word_less_nat_alt)
  show ?thesis
    unfolding v2_gates_def v2_applies_def Let_def
    using end' occ whole off seqs by auto
qed

lemma hits_raw_iff:
  "i \<in> set (hits raw (v2_entries 0 pats) u) \<longleftrightarrow> i < length pats \<and> suffix (v2_word (pats ! i)) u \<and> v2_word (pats ! i) \<noteq> []"
proof (induction u)
  case (Cons c u)
  have "i \<in> set (equal_to raw (v2_entries 0 pats) (c # u)) \<longleftrightarrow> i < length pats \<and> v2_word (pats ! i) = c # u"
    by (auto simp: equal_to_def nth_v2_entries)
  then show ?case using Cons by (auto simp: suffix_Cons)
qed auto

text \<open>What the scan considers at the end of an occurrence is what applies at its start.\<close>

lemma considered_applies:
  assumes wf: "list_all v2_pattern_wf pats" and ne: "\<forall>p \<in> set pats. vp_match_len p \<noteq> 0" and len: "length text < 2 ^ 16"
  shows "(\<exists>e. (e, p) \<in> set (v2_considered pats text [0..<length text]) \<and> v2_gates p pk (word_of_nat (length text)) (word_of_nat e)) \<longleftrightarrow>
    p \<in> set pats \<and> (\<exists>s. v2_applies p pk text s)"
proof -
  let ?m = "unat (vp_match_len p)"
  have word: "length (v2_word p) = ?m \<and> 0 < ?m" if "p \<in> set pats"
    using that wf ne by (auto simp: v2_word_def v2_pattern_wf_def list_all_iff unat_gt_0 min_def)
  have nonempty: "v2_word p \<noteq> []" if "p \<in> set pats" using word [OF that] by auto
  have mem: "(e, p) \<in> set (v2_considered pats text [0..<length text]) \<longleftrightarrow>
      e < length text \<and> p \<in> set pats \<and> suffix (v2_word p) (take (Suc e) text)" for e
  proof -
    have "(e, p) \<in> set (v2_considered pats text [0..<length text]) \<longleftrightarrow>
        e < length text \<and> (\<exists>i \<in> set (hits raw (v2_entries 0 pats) (take (Suc e) text)). p = pats ! i)"
      by (auto simp: v2_considered_def)
    also have "\<dots> \<longleftrightarrow> e < length text \<and> (\<exists>i < length pats. p = pats ! i \<and> suffix (v2_word p) (take (Suc e) text) \<and> v2_word p \<noteq> [])"
      by (auto simp: hits_raw_iff)
    also have "\<dots> \<longleftrightarrow> e < length text \<and> p \<in> set pats \<and> suffix (v2_word p) (take (Suc e) text)"
      using nonempty by (metis in_set_conv_nth)
    finally show ?thesis .
  qed
  have suf: "suffix (v2_word p) (take (Suc e) text) \<longleftrightarrow> ?m \<le> Suc e \<and> take ?m (drop (Suc e - ?m) text) = v2_word p"
    if "e < length text" "p \<in> set pats" for e
  proof -
    have "suffix (v2_word p) (take (Suc e) text) \<longleftrightarrow>
        length (v2_word p) \<le> Suc e \<and> drop (Suc e - length (v2_word p)) (take (Suc e) text) = v2_word p"
      using that(1) by (simp add: suffix_iff_drop)
    moreover have "drop (Suc e - ?m) (take (Suc e) text) = take ?m (drop (Suc e - ?m) text)" if "?m \<le> Suc e"
      using that by (simp add: drop_take)
    ultimately show ?thesis using word [OF that(2)] by auto
  qed
  show ?thesis
  proof
    assume "\<exists>e. (e, p) \<in> set (v2_considered pats text [0..<length text]) \<and> v2_gates p pk (word_of_nat (length text)) (word_of_nat e)"
    then obtain e where "e < length text" "p \<in> set pats" "suffix (v2_word p) (take (Suc e) text)"
      and g: "v2_gates p pk (word_of_nat (length text)) (word_of_nat e)" using mem by blast
    then show "p \<in> set pats \<and> (\<exists>s. v2_applies p pk text s)"
      using suf v2_gates_applies [OF len] by blast
  next
    assume "p \<in> set pats \<and> (\<exists>s. v2_applies p pk text s)"
    then obtain s where p: "p \<in> set pats" and s: "v2_applies p pk text s" by blast
    define e where "e = s + ?m - 1"
    have m: "0 < ?m" using word [OF p] by simp
    have "s + ?m \<le> length text" "take ?m (drop s text) = v2_word p" using s by (simp_all add: v2_applies_def Let_def)
    moreover have "Suc e - ?m = s" "Suc e = s + ?m" using m by (simp_all add: e_def)
    ultimately have e: "e < length text" "?m \<le> Suc e" "take ?m (drop (Suc e - ?m) text) = v2_word p" "Suc e - ?m = s" by simp_all
    then have "v2_gates p pk (word_of_nat (length text)) (word_of_nat e)" using v2_gates_applies [OF len e(1-3)] s by simp
    then show "\<exists>e. (e, p) \<in> set (v2_considered pats text [0..<length text]) \<and> v2_gates p pk (word_of_nat (length text)) (word_of_nat e)"
      using mem suf p e by blast
  qed
qed

text \<open>The outcome of a scan: no application, or the one of an applying pattern of least priority value.\<close>

definition v2_best :: "v2_pattern list \<Rightarrow> v2_packet \<Rightarrow> bytes \<Rightarrow> u32 \<Rightarrow> u32 \<Rightarrow> bool" where
  "v2_best pats pk text app pri \<longleftrightarrow>
     (\<forall>p \<in> set pats. (\<exists>s. v2_applies p pk text s) \<longrightarrow> pri \<le> vp_priority p) \<and>
     ((app, pri) = (0, 0xffffffff) \<or>
      (\<exists>p \<in> set pats. (\<exists>s. v2_applies p pk text s) \<and> app = vp_appid p \<and> pri = vp_priority p \<and> pri < 0xffffffff))"

lemma v2_scan_best:
  assumes built: "jmx_v2_ac_build mem pats = Inr (ac, stats)" and wf: "list_all v2_pattern_wf pats" and len: "length text < 2 ^ 16"
  shows "\<exists>app pri. jmx_v2_ac_scan (Some ac) text pk = (app, Some pri) \<and> v2_best pats pk text app pri"
proof -
  obtain L core b ns where aut: "v2_automaton pats L core ac b ns" using v2_build_automaton [OF built wf] by blast
  have a: "automaton b L ns core" and pats: "va_pats ac = pats" using aut by (simp_all add: v2_automaton_def)
  have nonempty: "pats \<noteq> []" using built by (auto simp: jmx_v2_ac_build_def)
  obtain m where "v2_count_nodes pats 1 = Inr m" using built by (auto simp: jmx_v2_ac_build_def split: if_splits sum.splits)
  from v2_count_nodes_result [OF this] have ne: "\<forall>p \<in> set pats. vp_match_len p \<noteq> 0" by simp
  define r where "r = foldl (\<lambda>best (e, p). v2_consider pk (word_of_nat (length text)) (word_of_nat e) best p) (0, 0xffffffff)
      (v2_considered pats text [0..<length text])"
  have root: "is_longest L [] 0" using longest_root [OF automatonD(3) [OF a]] by simp
  have scan: "v2_scan_bytes ac pk (word_of_nat (length text)) text 0 0 (0, 0xffffffff) = r"
    using v2_scan_bytes_eq [OF aut root] by (simp add: r_def)
  note best = fold_best [of pk "word_of_nat (length text)" "(0, 0xffffffff)" "v2_considered pats text [0..<length text]",
      folded r_def, unfolded Let_def]
  have "v2_best pats pk text (fst r) (snd r)"
    unfolding v2_best_def
  proof (intro conjI ballI impI)
    fix p
    assume "p \<in> set pats" "\<exists>s. v2_applies p pk text s"
    then show "snd r \<le> vp_priority p" using best considered_applies [OF wf ne len, of p pk] by fastforce
  next
    show "(fst r, snd r) = (0, 0xffffffff) \<or>
      (\<exists>p \<in> set pats. (\<exists>s. v2_applies p pk text s) \<and> fst r = vp_appid p \<and> snd r = vp_priority p \<and> snd r < 0xffffffff)"
    proof (cases "r = (0, 0xffffffff)")
      case False
      then obtain e p where "(e, p) \<in> set (v2_considered pats text [0..<length text])"
        "v2_gates p pk (word_of_nat (length text)) (word_of_nat e)" "r = (vp_appid p, vp_priority p)" "vp_priority p < 0xffffffff"
        using best by auto
      then show ?thesis using considered_applies [OF wf ne len, of p pk] by auto
    qed simp
  qed
  then show ?thesis using scan pats nonempty by (cases r) (simp add: jmx_v2_ac_scan_def)
qed

end
