(* ===== verification/V2Load.thy ===== *)
theory V2Load
  imports V2Rules V2Match "HOL-Library.Multiset"
begin

text \<open>
  The rule sets of the v2 engine are correct: an invariant of the two sets that every operation keeps,
  what a transaction that is not disturbed does to the staging set, and what a packet is classified as in
  any reachable state.
\<close>

unbundle bit_operations_syntax

section \<open>Rules\<close>

definition v2_rule_wf :: "v2_rule \<Rightarrow> bool" where
  "v2_rule_wf r \<longleftrightarrow> length (vr_match_str r) = 256 \<and> length (vr_ports r) = 8 \<and> length (vr_len_range r) = 4"

definition v2_node_ok :: "v2_rule \<Rightarrow> bool" where
  "v2_node_ok r \<longleftrightarrow> \<not> v2_rule_invalid r \<and> length (vr_match_str r) = unat (vr_match_len r) \<and>
     length (vr_ports r) = unat (vr_port_count r) \<and> length (vr_len_range r) = unat (vr_len_count r)"

lemma v2_node_of_ok: "v2_rule_wf r \<Longrightarrow> \<not> v2_rule_invalid r \<Longrightarrow> v2_node_ok (v2_node_of r)"
  by (auto simp: v2_rule_wf_def v2_node_ok_def v2_node_of_def v2_rule_invalid_def word_less_nat_alt not_less)

lemma v2_pattern_of_wf [simp]: "v2_node_ok r \<Longrightarrow> v2_pattern_wf (v2_pattern_of r)"
  by (simp add: v2_node_ok_def v2_pattern_wf_def v2_pattern_of_def)

section \<open>The invariant\<close>

definition v2_set_ok :: "v2_set \<Rightarrow> bool" where
  "v2_set_ok s \<longleftrightarrow> length (vs_buckets s) = JMX_V2_HASH_BUCKETS \<and> vs_count s = word_of_nat (length (v2_nodes s)) \<and>
     list_all v2_node_ok (v2_nodes s)"

text \<open>The automaton of a set is the one of its rules with a fixed text; a set without such rules has none.\<close>

definition v2_built :: "v2_set \<Rightarrow> bool" where
  "v2_built s \<longleftrightarrow> (case vs_ac s of None \<Rightarrow> v2_eligible s = []
     | Some ac \<Rightarrow> \<exists>mem stats. jmx_v2_ac_build mem (map v2_pattern_of (v2_eligible s)) = Inr (ac, stats))"

text \<open>\<open>n\<close> bounds the number of rules of a set, so that no counter has wrapped while it is below \<open>2 ^ 32\<close>.\<close>

definition v2_inv :: "nat \<Rightarrow> v2_state \<Rightarrow> bool" where
  "v2_inv n st \<longleftrightarrow> length (v2_rule_sets st) = 2 \<and> v2_active_idx st < 2 \<and> v2_set_ok (ACTIVE_SET st) \<and> v2_set_ok (STAGING_SET st) \<and>
     v2_built (ACTIVE_SET st) \<and> vs_ac (STAGING_SET st) = None \<and>
     length (v2_nodes (ACTIVE_SET st)) \<le> n \<and> length (v2_nodes (STAGING_SET st)) \<le> n"

lemma v2_inv_mono: "v2_inv n st \<Longrightarrow> n \<le> m \<Longrightarrow> v2_inv m st"
  by (auto simp: v2_inv_def)

lemma v2_idx_cases: "v2_inv n st \<Longrightarrow> v2_active_idx st = 0 \<or> v2_active_idx st = 1"
  by (auto simp: v2_inv_def)

lemma put_staging_simps [simp]:
  "v2_active_idx (put_staging s st) = v2_active_idx st" "v2_staging_owner (put_staging s st) = v2_staging_owner st"
  "v2_staging_deadline (put_staging s st) = v2_staging_deadline st" "v2_expire_due (put_staging s st) = v2_expire_due st"
  "length (v2_rule_sets (put_staging s st)) = length (v2_rule_sets st)"
  by (simp_all add: put_staging_def)

lemma put_staging_sets:
  assumes "length (v2_rule_sets st) = 2" and "v2_active_idx st < 2"
  shows "STAGING_SET (put_staging s st) = s" "ACTIVE_SET (put_staging s st) = ACTIVE_SET st"
  using assms by (auto simp: put_staging_def STAGING_SET_def ACTIVE_SET_def less_2_cases_iff)

lemma v2_inv_sets: "v2_inv n st \<Longrightarrow> length (v2_rule_sets st) = 2" "v2_inv n st \<Longrightarrow> v2_active_idx st < 2"
  by (simp_all add: v2_inv_def)

text \<open>The sets only depend on the array and the index.\<close>

lemma sets_update [simp]:
  "ACTIVE_SET (v2_staging_owner_update f st) = ACTIVE_SET st" "STAGING_SET (v2_staging_owner_update f st) = STAGING_SET st"
  "ACTIVE_SET (v2_staging_deadline_update g st) = ACTIVE_SET st" "STAGING_SET (v2_staging_deadline_update g st) = STAGING_SET st"
  "ACTIVE_SET (v2_expire_due_update h st) = ACTIVE_SET st" "STAGING_SET (v2_expire_due_update h st) = STAGING_SET st"
  by (simp_all add: ACTIVE_SET_def STAGING_SET_def)

lemma v2_inv_update [simp]:
  "v2_inv n (v2_staging_owner_update f st) = v2_inv n st" "v2_inv n (v2_staging_deadline_update g st) = v2_inv n st"
  "v2_inv n (v2_expire_due_update h st) = v2_inv n st"
  by (simp_all add: v2_inv_def)

lemma clear_eq [simp]: "jmx_v2_rule_set_clear s = v2_set_empty"
  by (simp add: jmx_v2_rule_set_clear_def v2_set_empty_def)

lemma v2_nodes_update [simp]:
  "v2_nodes (vs_ac_update f s) = v2_nodes s" "v2_nodes (vs_version_update g s) = v2_nodes s"
  "v2_eligible (vs_ac_update f s) = v2_eligible s" "v2_eligible (vs_version_update g s) = v2_eligible s"
  by (simp_all add: v2_nodes_def v2_eligible_def)

lemma v2_nodes_empty [simp]: "v2_nodes v2_set_empty = []"
  by (simp add: v2_nodes_def v2_set_empty_def)

lemma v2_set_empty_fields [simp]: "vs_ac v2_set_empty = None" "vs_count v2_set_empty = 0" "length (vs_buckets v2_set_empty) = 256"
  by (simp_all add: v2_set_empty_def)

lemma v2_set_empty_ok [simp]: "v2_set_ok v2_set_empty" "v2_built v2_set_empty"
  by (simp_all add: v2_set_ok_def v2_built_def v2_eligible_def)

lemma put_staging_inv:
  assumes inv: "v2_inv n st" and "v2_set_ok s" and "vs_ac s = None" and "length (v2_nodes s) \<le> n"
  shows "v2_inv n (put_staging s st)"
  using assms put_staging_sets [OF v2_inv_sets [OF inv]] by (simp add: v2_inv_def)

section \<open>Operations keep the invariant\<close>

named_theorems v2_steps

lemma v2_init_inv [v2_steps]: "v2_inv n jmx_v2_rules_init"
  by (simp add: v2_inv_def jmx_v2_rules_init_def ACTIVE_SET_def STAGING_SET_def)

lemma v2_exit_inv [v2_steps]: "v2_inv n st \<Longrightarrow> v2_inv n (jmx_v2_rules_exit st)"
  by (auto simp: v2_inv_def jmx_v2_rules_exit_def ACTIVE_SET_def STAGING_SET_def less_2_cases_iff)

lemma v2_reset_inv [v2_steps]: "v2_inv n st \<Longrightarrow> v2_inv n (jmx_v2_tx_reset_locked c st)"
  by (simp add: jmx_v2_tx_reset_locked_def Let_def put_staging_inv)

lemma v2_expire_inv [v2_steps]: "v2_inv n st \<Longrightarrow> v2_inv n (snd (jmx_v2_tx_expire_locked env st))"
  by (simp add: jmx_v2_tx_expire_locked_def v2_reset_inv)

lemma v2_work_inv [v2_steps]: "v2_inv n st \<Longrightarrow> v2_inv n (jmx_v2_tx_expire_workfn env st)"
  by (simp add: jmx_v2_tx_expire_workfn_def v2_expire_inv)

lemma v2_refresh_inv [v2_steps]: "v2_inv n st \<Longrightarrow> v2_inv n (jmx_v2_tx_refresh_locked env st)"
  by (simp add: jmx_v2_tx_refresh_locked_def)

lemma v2_begin_inv [v2_steps]: "v2_inv n st \<Longrightarrow> v2_inv n (snd (jmx_v2_rules_begin env owner st))"
  using v2_expire_inv [of n st env] by (simp add: jmx_v2_rules_begin_def Let_def v2_refresh_inv put_staging_inv)

lemma check_owner_cases:
  "jmx_v2_tx_check_owner_locked env owner st = (rc, st') \<Longrightarrow>
     rc = None \<and> st' = st \<and> owner \<noteq> 0 \<and> v2_staging_owner st = owner \<and> \<not> time_after_eq (jiffies env) (v2_staging_deadline st) \<or>
     rc = Some ETIMEDOUT \<and> st' = jmx_v2_tx_reset_locked True st \<and> v2_staging_owner st \<noteq> 0 \<and>
       time_after_eq (jiffies env) (v2_staging_deadline st) \<or>
     rc \<noteq> None \<and> rc \<noteq> Some ETIMEDOUT \<and> st' = st \<and> (owner = 0 \<or> v2_staging_owner st \<noteq> owner)"
  by (auto simp: jmx_v2_tx_check_owner_locked_def jmx_v2_tx_expire_locked_def split: if_splits)

lemma v2_check_owner_inv [v2_steps]: "v2_inv n st \<Longrightarrow> jmx_v2_tx_check_owner_locked env owner st = (rc, st') \<Longrightarrow> v2_inv n st'"
  using check_owner_cases [of env owner st rc st'] v2_reset_inv by auto

lemma hash_appid_less: "hash_appid env a < JMX_V2_HASH_BUCKETS"
  by (simp add: hash_appid_def)

lemma mset_concat_update:
  "i < length bs \<Longrightarrow> mset (concat (bs[i := x # bs ! i])) = add_mset x (mset (concat bs))"
proof (induction bs arbitrary: i)
  case (Cons b bs)
  then show ?case by (cases i) simp_all
qed simp

lemma hlist_add_head_nodes:
  assumes "length buckets = JMX_V2_HASH_BUCKETS" and "bkt < JMX_V2_HASH_BUCKETS"
  shows "mset (concat (hlist_add_head bkt r buckets)) = add_mset r (mset (concat buckets))"
    and "set (concat (hlist_add_head bkt r buckets)) = insert r (set (concat buckets))"
    and "length (concat (hlist_add_head bkt r buckets)) = Suc (length (concat buckets))"
proof -
  show *: "mset (concat (hlist_add_head bkt r buckets)) = add_mset r (mset (concat buckets))"
    unfolding hlist_add_head_def using assms by (intro mset_concat_update) simp
  show "set (concat (hlist_add_head bkt r buckets)) = insert r (set (concat buckets))"
    using arg_cong [OF *, of set_mset] by simp
  show "length (concat (hlist_add_head bkt r buckets)) = Suc (length (concat buckets))"
    using arg_cong [OF *, of size] by simp
qed

text \<open>What one accepted or rejected rule does to the staging set.\<close>

lemma rule_add_locked_ok:
  assumes s: "v2_set_ok s" and wf: "\<And>x. r = Some x \<Longrightarrow> v2_rule_wf x" and add: "jmx_v2_rule_add_locked env site r s = (rc, s')"
  shows "v2_set_ok s' \<and> vs_ac s' = vs_ac s \<and>
    mset (v2_nodes s') = mset (v2_nodes s) + (if rc = None then {# v2_node_of (the r) #} else {#})"
proof (cases "rc = None")
  case False
  then have "vs_buckets s' = vs_buckets s" "vs_ac s' = vs_ac s" "vs_count s' = vs_count s"
    using add by (auto simp: jmx_v2_rule_add_locked_def Let_def split: option.splits if_splits)
  then show ?thesis using s False by (simp add: v2_set_ok_def v2_nodes_def)
next
  case True
  then obtain x where x: "r = Some x" "\<not> v2_rule_invalid x" "vs_ac s' = vs_ac s" "vs_count s' = vs_count s + 1"
      "vs_buckets s' = hlist_add_head (hash_appid env (vr_appid x)) (v2_node_of x) (vs_buckets s)"
    using add by (auto simp: jmx_v2_rule_add_locked_def Let_def split: option.splits if_splits)
  have b: "length (vs_buckets s) = JMX_V2_HASH_BUCKETS" using s by (simp add: v2_set_ok_def)
  note nodes = hlist_add_head_nodes [OF b hash_appid_less [of env "vr_appid x"], of "v2_node_of x"]
  have "length (vs_buckets s') = JMX_V2_HASH_BUCKETS" using x(5) b by (simp add: hlist_add_head_def)
  then show ?thesis
    using s x nodes v2_node_of_ok [OF wf [OF x(1)] x(2)] True
    by (simp add: v2_set_ok_def v2_nodes_def list_all_iff del: set_concat)
qed

lemma rule_add_locked_length:
  assumes "v2_set_ok s" and "\<And>x. r = Some x \<Longrightarrow> v2_rule_wf x" and "jmx_v2_rule_add_locked env site r s = (rc, s')"
  shows "length (v2_nodes s') \<le> Suc (length (v2_nodes s))"
proof -
  have "size (mset (v2_nodes s')) \<le> Suc (size (mset (v2_nodes s)))"
    using rule_add_locked_ok [OF assms] by simp
  then show ?thesis by simp
qed

lemma v2_add_inv [v2_steps]:
  assumes inv: "v2_inv n st" and wf: "\<And>x. r = Some x \<Longrightarrow> v2_rule_wf x"
  shows "v2_inv (Suc n) (snd (jmx_v2_rule_add env site owner r st))"
proof -
  obtain rc st1 where check: "jmx_v2_tx_check_owner_locked env owner st = (rc, st1)" by fastforce
  have inv1: "v2_inv n st1" using v2_check_owner_inv [OF inv check] .
  obtain rc2 s where add: "jmx_v2_rule_add_locked env site r (STAGING_SET st1) = (rc2, s)" by fastforce
  have st: "v2_set_ok (STAGING_SET st1)" "vs_ac (STAGING_SET st1) = None" "length (v2_nodes (STAGING_SET st1)) \<le> n"
    using inv1 by (simp_all add: v2_inv_def)
  have "v2_inv (Suc n) (put_staging s st1)"
    using v2_inv_mono [OF inv1, of "Suc n"] rule_add_locked_ok [OF st(1) wf add] rule_add_locked_length [OF st(1) wf add] st
    by (intro put_staging_inv) auto
  then show ?thesis
    using check add v2_inv_mono [OF inv1, of "Suc n"]
    by (simp add: jmx_v2_rule_add_def v2_refresh_inv split: option.split)
qed

text \<open>The construction depends on the rules alone, so that the swapped set is built.\<close>

lemma commit_build_built:
  assumes build: "v2_commit_build env s = Inr ac" and room: "length (v2_nodes s) < 2 ^ 32"
  shows "v2_built (s\<lparr>vs_ac := ac, vs_version := v\<rparr>)"
proof -
  have "length (v2_eligible s) < 2 ^ 32"
    using room le_less_trans [OF length_filter_le] by (auto simp: v2_eligible_def)
  then have "word_of_nat (length (v2_eligible s)) = (0 :: u32) \<longleftrightarrow> v2_eligible s = []"
    by (auto simp: word_unat_eq_iff unat_of_nat)
  then consider "ac = None" "v2_eligible s = []" |
      a stats where "ac = Some a" "jmx_v2_ac_build (alloc_ok env) (map v2_pattern_of (v2_eligible s)) = Inr (a, stats)"
    using build by (auto simp: v2_commit_build_def Let_def split: if_splits sum.splits)
  then show ?thesis by cases (auto simp: v2_built_def)
qed

lemma v2_swap_sets:
  assumes "length (v2_rule_sets st) = 2" and "v2_active_idx st < 2"
  shows "ACTIVE_SET (v2_swap ac v st) = (STAGING_SET st)\<lparr>vs_ac := ac, vs_version := v\<rparr>"
    and "STAGING_SET (v2_swap ac v st) = v2_set_empty"
    and "length (v2_rule_sets (v2_swap ac v st)) = 2" and "v2_active_idx (v2_swap ac v st) < 2"
  using assms by (auto simp: v2_swap_def ACTIVE_SET_def STAGING_SET_def Let_def less_2_cases_iff)

lemma v2_commit_inv [v2_steps]:
  assumes inv: "v2_inv n st" and room: "n < 2 ^ 32"
  shows "v2_inv n (snd (jmx_v2_rules_commit env owner version st))"
proof -
  obtain rc st1 where check: "jmx_v2_tx_check_owner_locked env owner st = (rc, st1)" by fastforce
  have inv1: "v2_inv n st1" using v2_check_owner_inv [OF inv check] .
  have "v2_inv n (v2_swap ac version st1)" if b: "v2_commit_build env (STAGING_SET st1) = Inr ac" for ac
    using inv1 room v2_swap_sets [OF v2_inv_sets [OF inv1]] commit_build_built [OF b, of version]
    by (simp add: v2_inv_def v2_set_ok_def)
  then show ?thesis
    using check inv1 by (simp add: jmx_v2_rules_commit_def v2_reset_inv split: option.split sum.split)
qed

section \<open>Requests\<close>

text \<open>What the rest of the module asks of the rule sets, each at its own time.  The allocations of an ADD
  are those of its position in its message.\<close>

datatype v2_op =
  V2_Begin u32 | V2_Add alloc_site u32 "v2_rule option" | V2_Commit u32 u32 | V2_Expire | V2_Exit

fun v2_op_wf :: "v2_op \<Rightarrow> bool" where
  "v2_op_wf (V2_Add site owner (Some r)) = v2_rule_wf r"
| "v2_op_wf q = True"

fun v2_serve :: "kernel_env \<times> v2_op \<Rightarrow> v2_state \<Rightarrow> krc \<times> v2_state" where
  "v2_serve (env, V2_Begin owner) st = jmx_v2_rules_begin env owner st"
| "v2_serve (env, V2_Add site owner r) st = jmx_v2_rule_add env site owner r st"
| "v2_serve (env, V2_Commit owner version) st = jmx_v2_rules_commit env owner version st"
| "v2_serve (env, V2_Expire) st = (None, jmx_v2_tx_expire_workfn env st)"
| "v2_serve (env, V2_Exit) st = (None, jmx_v2_rules_exit st)"

definition v2_run :: "(kernel_env \<times> v2_op) list \<Rightarrow> v2_state \<Rightarrow> v2_state" where
  "v2_run = fold (\<lambda>q st. snd (v2_serve q st))"

lemma v2_serve_inv:
  assumes inv: "v2_inv n st" and wf: "v2_op_wf (snd q)" and room: "n < 2 ^ 32"
  shows "v2_inv (Suc n) (snd (v2_serve q st))"
proof -
  have mono: "v2_inv n st' \<Longrightarrow> v2_inv (Suc n) st'" for st' using v2_inv_mono by simp
  obtain env a where q: "q = (env, a)" by fastforce
  show ?thesis
  proof (cases a)
    case (V2_Add site owner r)
    then show ?thesis using wf q v2_add_inv [OF inv, of r env site owner] by (cases r) simp_all
  qed (simp_all add: q mono v2_begin_inv [OF inv] v2_commit_inv [OF inv room] v2_work_inv [OF inv] v2_exit_inv [OF inv])
qed

lemma v2_run_inv:
  "v2_inv n st \<Longrightarrow> list_all (\<lambda>q. v2_op_wf (snd q)) qs \<Longrightarrow> n + length qs < 2 ^ 32 \<Longrightarrow>
   v2_inv (n + length qs) (v2_run qs st)"
proof (induction qs arbitrary: n st)
  case (Cons q qs)
  have "v2_inv (Suc n) (snd (v2_serve q st))" using Cons.prems by (intro v2_serve_inv) simp_all
  from Cons.IH [OF this] Cons.prems show ?case by (simp add: v2_run_def)
qed (simp add: v2_run_def)

section \<open>Classification\<close>

text \<open>In every reachable state a packet is given the application of a rule that applies to it with the
  smallest priority value, among the active rules with a fixed text.\<close>

lemma v2_match_inv:
  assumes inv: "v2_inv n st" and room: "n < 2 ^ 32" and len: "length payload < 2 ^ 16"
  shows "\<exists>app pri. v2_best (map v2_pattern_of (v2_eligible (ACTIVE_SET st))) pk payload app pri \<and>
    fst (jmx_v2_match_payload st payload pk) = app"
proof -
  let ?s = "ACTIVE_SET st"
  have s: "v2_set_ok ?s" "v2_built ?s" "length (v2_nodes ?s) \<le> n" using inv by (simp_all add: v2_inv_def)
  have empty: "v2_best [] pk payload 0 U32_MAX" by (simp add: v2_best_def)
  show ?thesis
  proof (cases "vs_count ?s = 0 \<or> vs_ac ?s = None")
    case True
    have "vs_count ?s = 0 \<Longrightarrow> v2_nodes ?s = []"
      using s room by (simp add: v2_set_ok_def word_unat_eq_iff unat_of_nat)
    then have "v2_eligible ?s = []" using True s(2) by (auto simp: v2_eligible_def v2_built_def)
    then show ?thesis using True empty by (auto simp: jmx_v2_match_payload_def Let_def split: option.splits)
  next
    case False
    then obtain ac mem stats where ac: "vs_ac ?s = Some ac"
        "jmx_v2_ac_build mem (map v2_pattern_of (v2_eligible ?s)) = Inr (ac, stats)"
      using s(2) by (auto simp: v2_built_def)
    have "list_all v2_pattern_wf (map v2_pattern_of (v2_eligible ?s))"
      using s(1) by (auto simp: v2_set_ok_def v2_eligible_def list_all_iff)
    from v2_scan_best [OF ac(2) this len] obtain app pri where
      r: "jmx_v2_ac_scan (Some ac) payload pk = (app, Some pri)"
         "v2_best (map v2_pattern_of (v2_eligible ?s)) pk payload app pri" by blast
    have "fst (jmx_v2_match_payload st payload pk) = app"
      using False ac(1) r by (auto simp: jmx_v2_match_payload_def Let_def v2_best_def)
    then show ?thesis using r(2) by blast
  qed
qed

section \<open>Commit\<close>

lemma v2_reset_sets:
  assumes "length (v2_rule_sets st) = 2" and "v2_active_idx st < 2"
  shows "ACTIVE_SET (jmx_v2_tx_reset_locked c st) = ACTIVE_SET st"
    and "STAGING_SET (jmx_v2_tx_reset_locked c st) = (if c then v2_set_empty else STAGING_SET st)"
    and "v2_staging_owner (jmx_v2_tx_reset_locked c st) = 0"
  using put_staging_sets [OF assms] by (simp_all add: jmx_v2_tx_reset_locked_def Let_def)

lemma v2_commit_cases:
  assumes two: "length (v2_rule_sets st) = 2" "v2_active_idx st < 2" and commit: "jmx_v2_rules_commit env owner version st = (rc, st')"
  obtains ac where "rc = None" "v2_commit_build env (STAGING_SET st) = Inr ac" "owner \<noteq> 0" "v2_staging_owner st = owner"
      "ACTIVE_SET st' = (STAGING_SET st)\<lparr>vs_ac := ac, vs_version := version\<rparr>" "STAGING_SET st' = v2_set_empty" "v2_staging_owner st' = 0"
    | e where "rc = Some e" "v2_commit_build env (STAGING_SET st) = Inl e" "owner \<noteq> 0" "v2_staging_owner st = owner"
      "ACTIVE_SET st' = ACTIVE_SET st" "STAGING_SET st' = v2_set_empty" "v2_staging_owner st' = 0"
    | "rc = Some ETIMEDOUT" "ACTIVE_SET st' = ACTIVE_SET st" "STAGING_SET st' = v2_set_empty" "v2_staging_owner st' = 0"
      "time_after_eq (jiffies env) (v2_staging_deadline st)"
    | "rc \<noteq> None" "st' = st" "owner = 0 \<or> v2_staging_owner st \<noteq> owner"
proof (cases "jmx_v2_tx_check_owner_locked env owner st")
  case (Pair rc1 st1)
  note reset = v2_reset_sets [OF two] and swap = v2_swap_sets [OF two]
  consider "rc1 = None" | "rc1 = Some ETIMEDOUT" | "rc1 \<noteq> None" "rc1 \<noteq> Some ETIMEDOUT" by blast
  then show ?thesis
  proof cases
    case 1
    then have st1: "st1 = st" "owner \<noteq> 0" "v2_staging_owner st = owner" using check_owner_cases [OF Pair] by auto
    show ?thesis
    proof (cases "v2_commit_build env (STAGING_SET st)")
      case (Inl e)
      then show ?thesis using that(2) [of e] commit Pair 1 st1 reset by (auto simp: jmx_v2_rules_commit_def)
    next
      case (Inr ac)
      then have "rc = None" "st' = (jmx_v2_tx_reset_locked False (v2_swap ac version st))\<lparr>v2_expire_due := None\<rparr>"
        using commit Pair 1 st1 by (simp_all add: jmx_v2_rules_commit_def)
      then show ?thesis using that(1) [of ac] Inr st1 v2_reset_sets [OF swap(3,4)] swap(1,2) by simp
    qed
  next
    case 2
    then show ?thesis
      using that(3) check_owner_cases [OF Pair] commit Pair reset by (auto simp: jmx_v2_rules_commit_def)
  next
    case 3
    then have "st1 = st" "owner = 0 \<or> v2_staging_owner st \<noteq> owner"
      using check_owner_cases [OF Pair] by auto
    then show ?thesis using that(4) 3 commit Pair by (auto simp: jmx_v2_rules_commit_def split: option.splits)
  qed
qed

text \<open>What a commit that succeeds has checked.\<close>

lemma commit_build_checked:
  assumes "v2_commit_build env s = Inr ac" and "length (v2_nodes s) < 2 ^ 32"
  shows "vs_rejected_invalid s = 0 \<and> vs_rejected_nomem s = 0 \<and> list_all (\<lambda>r. v2_scannable r \<longrightarrow> vr_match_len r \<noteq> 0) (v2_nodes s)"
proof -
  let ?e = "filter (\<lambda>r. v2_scannable r \<and> vr_match_len r = 0) (v2_nodes s)"
  have "length ?e < 2 ^ 32" using assms(2) le_less_trans [OF length_filter_le] by auto
  then have "word_of_nat (length ?e) = (0 :: u32) \<longleftrightarrow> ?e = []" by (auto simp: word_unat_eq_iff unat_of_nat)
  then show ?thesis
    using assms(1) by (auto simp: v2_commit_build_def Let_def list_all_iff filter_empty_conv split: if_splits)
qed

lemma v2_reachable: "list_all (\<lambda>q. v2_op_wf (snd q)) qs \<Longrightarrow> length qs < 2 ^ 32 \<Longrightarrow> v2_inv (length qs) (v2_run qs jmx_v2_rules_init)"
  using v2_run_inv [OF v2_init_inv, of qs 0] by simp

section \<open>A transaction that is not disturbed\<close>

definition v2_alive :: "kernel_env \<Rightarrow> v2_state \<Rightarrow> bool" where
  "v2_alive env st \<longleftrightarrow> \<not> time_after_eq (jiffies env) (v2_staging_deadline st)"

definition v2_loading :: "u32 \<Rightarrow> v2_rule list \<Rightarrow> v2_state \<Rightarrow> bool" where
  "v2_loading owner rs st \<longleftrightarrow> owner \<noteq> 0 \<and> v2_staging_owner st = owner \<and>
     mset (v2_nodes (STAGING_SET st)) = mset (map v2_node_of rs) \<and>
     vs_rejected_invalid (STAGING_SET st) = 0 \<and> vs_rejected_nomem (STAGING_SET st) = 0"

lemma check_owner_alive:
  "v2_loading owner rs st \<Longrightarrow> v2_alive env st \<Longrightarrow> jmx_v2_tx_check_owner_locked env owner st = (None, st)"
  by (simp add: v2_loading_def v2_alive_def jmx_v2_tx_check_owner_locked_def jmx_v2_tx_expire_locked_def)

lemma v2_fresh: "0 < hz env \<Longrightarrow> hz env < 2 ^ 50 \<Longrightarrow> v2_alive env (jmx_v2_tx_refresh_locked env st)"
proof -
  assume "0 < hz env" "hz env < 2 ^ 50"
  then have "0 < unat (hz env)" "unat (hz env) < 2 ^ 50" by (auto simp: word_less_nat_alt)
  then have "unat (JMX_V2_TX_TIMEOUT env) = 30 * unat (hz env)" by (simp add: JMX_V2_TX_TIMEOUT_def unat_word_ariths)
  then show ?thesis
    using \<open>0 < unat (hz env)\<close> \<open>unat (hz env) < 2 ^ 50\<close> time_after_eq_add [of "JMX_V2_TX_TIMEOUT env" "jiffies env"]
    by (simp add: v2_alive_def jmx_v2_tx_refresh_locked_def)
qed

lemma v2_begin_loading:
  assumes inv: "v2_inv n st" and owner: "owner \<noteq> 0" "v2_staging_owner st = 0 \<or> v2_staging_owner st = owner \<or> \<not> v2_alive env st"
    and run: "jmx_v2_rules_begin env owner st = (rc, st')"
  shows "rc = None \<and> v2_loading owner [] st' \<and> ACTIVE_SET st' = ACTIVE_SET st \<and>
    v2_staging_deadline st' = jiffies env + JMX_V2_TX_TIMEOUT env"
proof -
  define st1 where "st1 = snd (jmx_v2_tx_expire_locked env st)"
  have st1: "v2_staging_owner st1 = 0 \<or> v2_staging_owner st1 = owner" "ACTIVE_SET st1 = ACTIVE_SET st" "v2_inv n st1"
    using owner(2) v2_reset_sets [OF v2_inv_sets [OF inv]] v2_expire_inv [OF inv, of env]
    by (auto simp: st1_def jmx_v2_tx_expire_locked_def v2_alive_def)
  then show ?thesis
    using run owner(1) put_staging_sets [OF v2_inv_sets [OF st1(3)]]
    by (auto simp: jmx_v2_rules_begin_def st1_def [symmetric] Let_def v2_loading_def jmx_v2_tx_refresh_locked_def v2_set_empty_def v2_nodes_def)
qed

lemma v2_add_loading:
  assumes inv: "v2_inv n st" and st: "v2_loading owner rs st" "v2_alive env st"
    and r: "v2_rule_wf r" "\<not> v2_rule_invalid r" "alloc_ok env site"
    and run: "jmx_v2_rule_add env site owner (Some r) st = (rc, st')"
  shows "rc = None \<and> v2_loading owner (rs @ [r]) st' \<and> ACTIVE_SET st' = ACTIVE_SET st \<and>
    v2_staging_deadline st' = jiffies env + JMX_V2_TX_TIMEOUT env"
proof -
  obtain rc1 s where add: "jmx_v2_rule_add_locked env site (Some r) (STAGING_SET st) = (rc1, s)" by fastforce
  have "rc1 = None" using add r by (simp add: jmx_v2_rule_add_locked_def Let_def)
  moreover have "v2_set_ok (STAGING_SET st)" using inv by (simp add: v2_inv_def)
  ultimately have "mset (v2_nodes s) = mset (v2_nodes (STAGING_SET st)) + {# v2_node_of r #}"
    using rule_add_locked_ok [OF _ _ add] r by simp
  moreover have "vs_rejected_invalid s = 0" "vs_rejected_nomem s = 0"
    using add r st(1) by (auto simp: jmx_v2_rule_add_locked_def Let_def v2_loading_def)
  ultimately show ?thesis
    using run check_owner_alive [OF st] add \<open>rc1 = None\<close> st(1) put_staging_sets [OF v2_inv_sets [OF inv]]
    by (auto simp: jmx_v2_rule_add_def v2_loading_def jmx_v2_tx_refresh_locked_def)
qed

text \<open>The automaton is built when there is memory and not more than 65535 patterns of at most 256 bytes.\<close>

lemma v2_lens_bound: "\<forall>p \<in> set ps. unat (vp_match_len p) \<le> 256 \<Longrightarrow> v2_lens ps \<le> 256 * length ps"
  by (induction ps) auto

lemma v2_build_succeeds:
  assumes "pats \<noteq> []" and "\<forall>p \<in> set pats. vp_match_len p \<noteq> 0 \<and> unat (vp_match_len p) \<le> 256" and "length pats \<le> 65535"
    and "\<And>site. mem site"
  shows "\<exists>ac stats. jmx_v2_ac_build mem pats = Inr (ac, stats)"
proof -
  have "v2_lens pats \<le> 256 * length pats" using assms(2) by (intro v2_lens_bound) simp
  then have count: "v2_count_nodes pats 1 = Inr (1 + v2_lens pats)" using assms(2,3) by (intro v2_count_nodes_ok) auto
  have "length (b_nodes (trie_start (1 + v2_lens pats))) + v2_lens pats \<le> b_max_nodes (trie_start (1 + v2_lens pats))"
    by (simp add: trie_start_def)
  from v2_insert_total [OF trie_start_ok this, of 0] assms(3) obtain b where
    "v2_insert_patterns (trie_start (1 + v2_lens pats)) 0 pats = Inr b" by auto
  then show ?thesis using count assms by (simp add: jmx_v2_ac_build_def trie_start_def Let_def)
qed

definition v2_rules_fit :: "v2_rule list \<Rightarrow> bool" where
  "v2_rules_fit rs \<longleftrightarrow> list_all (\<lambda>r. v2_scannable r \<longrightarrow> vr_match_len r \<noteq> 0) rs \<and> length rs \<le> 65535"

lemma v2_commit_build_ok:
  assumes s: "v2_set_ok s" and nodes: "mset (v2_nodes s) = mset (map v2_node_of rs)" and fit: "v2_rules_fit rs"
    and ok: "vs_rejected_invalid s = 0" "vs_rejected_nomem s = 0" "\<And>site. alloc_ok env site"
  shows "\<exists>ac. v2_commit_build env s = Inr ac"
proof -
  have set: "set (v2_nodes s) = v2_node_of ` set rs" and len: "length (v2_nodes s) = length rs"
    using arg_cong [OF nodes, of set_mset] arg_cong [OF nodes, of size] by simp_all
  have "\<forall>r \<in> set (v2_nodes s). v2_scannable r \<longrightarrow> vr_match_len r \<noteq> 0"
    using fit set by (auto simp: v2_rules_fit_def list_all_iff v2_scannable_def v2_node_of_def)
  then have "filter (\<lambda>r. v2_scannable r \<and> vr_match_len r = 0) (v2_nodes s) = []" by (auto simp: filter_empty_conv)
  moreover have "length (v2_eligible s) \<le> length (v2_nodes s)" by (simp add: v2_eligible_def)
  then have few: "length (v2_eligible s) \<le> 65535" using fit len by (simp add: v2_rules_fit_def)
  have "unat (vr_match_len r) \<le> 256 \<and> vr_match_len r \<noteq> 0" if "r \<in> set (v2_eligible s)" for r
    using that s by (auto simp: v2_eligible_def v2_set_ok_def list_all_iff v2_node_ok_def v2_rule_invalid_def word_less_nat_alt not_less)
  then have "v2_eligible s \<noteq> [] \<Longrightarrow> \<exists>ac stats. jmx_v2_ac_build (alloc_ok env) (map v2_pattern_of (v2_eligible s)) = Inr (ac, stats)"
    using few ok(3) by (intro v2_build_succeeds) (auto simp: v2_pattern_of_def)
  moreover have "word_of_nat (length (v2_eligible s)) = (0 :: u32) \<longleftrightarrow> v2_eligible s = []"
    using few by (auto simp: word_unat_eq_iff unat_of_nat)
  ultimately show ?thesis using ok by (auto simp: v2_commit_build_def Let_def)
qed

lemma v2_commit_loading:
  assumes inv: "v2_inv n st" and st: "v2_loading owner rs st" "v2_alive env st" and fit: "v2_rules_fit rs"
    and mem: "\<And>site. alloc_ok env site" and run: "jmx_v2_rules_commit env owner version st = (rc, st')"
  shows "rc = None \<and> mset (v2_nodes (ACTIVE_SET st')) = mset (map v2_node_of rs) \<and> vs_version (ACTIVE_SET st') = version \<and>
    v2_staging_owner st' = 0"
proof -
  have "v2_set_ok (STAGING_SET st)" using inv by (simp add: v2_inv_def)
  from v2_commit_build_ok [OF this _ fit _ _ mem] obtain ac where b: "v2_commit_build env (STAGING_SET st) = Inr ac"
    using st(1) unfolding v2_loading_def by blast
  have owner: "owner \<noteq> 0" "v2_staging_owner st = owner" using st(1) by (simp_all add: v2_loading_def)
  from v2_inv_sets [OF inv] run show ?thesis
  proof (cases rule: v2_commit_cases)
    case (1 ac)
    then show ?thesis using st(1) by (simp add: v2_loading_def)
  qed (use b owner st(2) in \<open>auto simp: v2_alive_def\<close>)
qed

definition get_rule :: v2_rule where
  "get_rule = \<lparr>vr_appid = 77, vr_rule_id = 1, vr_priority = 10, vr_method = 1, vr_proto = 1, vr_dir = 0, vr_port_count = 1,
     vr_len_count = 0, vr_pkt_seq = 0, vr_offset = 0, vr_match_len = 2, vr_match_str = [0x47, 0x45] @ replicate 254 0,
     vr_ports = (80, 90) # replicate 7 (0, 0), vr_len_range = replicate 4 (0, 0)\<rparr>"

definition v2_demo_env :: kernel_env where
  "v2_demo_env = \<lparr>jiffies = 1000, hz = 250, alloc_ok = \<lambda>_. True, jhash_1word = \<lambda>a _. a\<rparr>"

definition v2_demo_run :: "(kernel_env \<times> v2_op) list" where
  "v2_demo_run = map (Pair v2_demo_env) [V2_Begin 4, V2_Add (A_V2_RULE 0) 4 (Some get_rule)]"

lemma v2_demo_run_wf: "list_all (\<lambda>q. v2_op_wf (snd q)) v2_demo_run" "length v2_demo_run = 2"
  by (simp_all add: v2_demo_run_def v2_rule_wf_def get_rule_def)

lemma v2_demo_loading:
  "v2_loading 4 [get_rule] (v2_run v2_demo_run jmx_v2_rules_init)" "v2_alive v2_demo_env (v2_run v2_demo_run jmx_v2_rules_init)"
proof -
  obtain rc st1 where b: "jmx_v2_rules_begin v2_demo_env 4 jmx_v2_rules_init = (rc, st1)" by fastforce
  obtain rc2 st2 where a: "jmx_v2_rule_add v2_demo_env (A_V2_RULE 0) 4 (Some get_rule) st1 = (rc2, st2)" by fastforce
  have "v2_staging_owner jmx_v2_rules_init = 0" by (simp add: jmx_v2_rules_init_def)
  with v2_begin_loading [OF v2_init_inv _ _ b] have
    st1: "v2_loading 4 [] st1" "v2_staging_deadline st1 = jiffies v2_demo_env + JMX_V2_TX_TIMEOUT v2_demo_env" by simp_all
  have inv: "v2_inv 0 st1" using v2_begin_inv [OF v2_init_inv, of 0 v2_demo_env 4] b by simp
  have alive: "v2_alive v2_demo_env st" if "v2_staging_deadline st = jiffies v2_demo_env + JMX_V2_TX_TIMEOUT v2_demo_env" for st
    using v2_fresh [of v2_demo_env st] that by (simp add: v2_alive_def jmx_v2_tx_refresh_locked_def v2_demo_env_def)
  have "v2_rule_wf get_rule" "\<not> v2_rule_invalid get_rule" "alloc_ok v2_demo_env (A_V2_RULE 0)"
    by (simp_all add: v2_rule_wf_def v2_rule_invalid_def get_rule_def v2_demo_env_def)
  from v2_add_loading [OF inv st1(1) alive [OF st1(2)] this a] have
    "v2_loading 4 [get_rule] st2" "v2_alive v2_demo_env st2" using alive by simp_all
  then show "v2_loading 4 [get_rule] (v2_run v2_demo_run jmx_v2_rules_init)" "v2_alive v2_demo_env (v2_run v2_demo_run jmx_v2_rules_init)"
    using a b by (simp_all add: v2_run_def v2_demo_run_def)
qed

lemma v2_demo_commit:
  "\<exists>st'. jmx_v2_rules_commit v2_demo_env 4 9 (v2_run v2_demo_run jmx_v2_rules_init) = (None, st') \<and>
     v2_nodes (ACTIVE_SET st') = [v2_node_of get_rule]"
proof -
  obtain rc st' where run: "jmx_v2_rules_commit v2_demo_env 4 9 (v2_run v2_demo_run jmx_v2_rules_init) = (rc, st')" by fastforce
  have "v2_rules_fit [get_rule]" by (simp add: v2_rules_fit_def get_rule_def)
  moreover have "v2_inv 2 (v2_run v2_demo_run jmx_v2_rules_init)" using v2_reachable [OF v2_demo_run_wf(1)] v2_demo_run_wf(2) by simp
  ultimately show ?thesis
    using v2_commit_loading [OF _ v2_demo_loading _ _ run] run by (auto simp: v2_demo_env_def)
qed



text \<open>C14: In every state that requests lead to, a packet is classified as the active rules prescribe: the
  application returned is that of a rule with a fixed text that applies to the packet (its text occurs where its
  method and offset allow it, and protocol, direction, packet number, port and length fit) and has the smallest
  priority value among those that apply; it is 0 when no rule applies with a priority value below the largest one.\<close>

theorem v2_classify_exact:
  assumes "list_all (\<lambda>q. v2_op_wf (snd q)) qs" and "length qs < 2 ^ 32" and "st = v2_run qs jmx_v2_rules_init"
    and "length payload < 2 ^ 16"
  shows "\<exists>pri. v2_best (map v2_pattern_of (v2_eligible (ACTIVE_SET st))) pk payload (fst (jmx_v2_match_payload st payload pk)) pri"
  using v2_match_inv [OF v2_reachable [OF assms(1,2)] assms(2,4)] assms(3) by blast

theorem v2_classify_exact_witness:
  "fst (jmx_v2_match_payload (v2_run (v2_demo_run @ [(v2_demo_env, V2_Commit 4 9)]) jmx_v2_rules_init) [0x47, 0x45, 0x54]
     \<lparr>vk_proto = 1, vk_dir = 1, vk_dport = 80, vk_pkt_seq = 1\<rparr>) = 77"
proof -
  let ?qs = "v2_demo_run @ [(v2_demo_env, V2_Commit 4 9)]"
  let ?st = "v2_run ?qs jmx_v2_rules_init"
  let ?pk = "\<lparr>vk_proto = 1, vk_dir = 1, vk_dport = 80, vk_pkt_seq = 1\<rparr> :: v2_packet"
  have qs: "list_all (\<lambda>q. v2_op_wf (snd q)) ?qs" "length ?qs < 2 ^ 32" using v2_demo_run_wf by simp_all
  have "v2_nodes (ACTIVE_SET ?st) = [v2_node_of get_rule]" using v2_demo_commit by (auto simp: v2_run_def)
  then have "v2_eligible (ACTIVE_SET ?st) = [v2_node_of get_rule]"
    by (simp add: v2_eligible_def v2_scannable_def v2_node_of_def get_rule_def)
  then obtain pri where best: "v2_best [v2_pattern_of (v2_node_of get_rule)] ?pk [0x47, 0x45, 0x54]
      (fst (jmx_v2_match_payload ?st [0x47, 0x45, 0x54] ?pk)) pri"
    using v2_classify_exact [OF qs refl, of "[0x47, 0x45, 0x54]" ?pk] by auto
  have "v2_applies (v2_pattern_of (v2_node_of get_rule)) ?pk [0x47, 0x45, 0x54] 0"
    by (simp add: v2_applies_def v2_pattern_of_def v2_node_of_def get_rule_def v2_word_def in_ranges_def)
  then show ?thesis using best by (auto simp: v2_best_def v2_pattern_of_def v2_node_of_def get_rule_def)
qed

text \<open>C20: A live v2 transaction is isolated from every other netlink port: another port's FLUSH is refused with EBUSY
  and its rules and COMMIT with EPERM, and none of them changes the staged rules, the active rules, the owner or the
  deadline.\<close>

theorem v2_owner_isolated:
  assumes "v2_staging_owner st \<noteq> 0" and "\<not> time_after_eq (jiffies env) (v2_staging_deadline st)"
    and "other \<noteq> 0" and "other \<noteq> v2_staging_owner st"
  shows "jmx_v2_rules_begin env other st = (Some EBUSY, st) \<and> jmx_v2_rule_add env site other r st = (Some EPERM, st) \<and>
    jmx_v2_rules_commit env other version st = (Some EPERM, st)"
  using assms
  by (simp add: jmx_v2_rules_begin_def jmx_v2_rule_add_def jmx_v2_rules_commit_def jmx_v2_tx_check_owner_locked_def
      jmx_v2_tx_expire_locked_def)

theorem v2_owner_isolated_witness:
  "jmx_v2_rules_commit v2_demo_env 5 9 (v2_run v2_demo_run jmx_v2_rules_init) = (Some EPERM, v2_run v2_demo_run jmx_v2_rules_init)"
  using v2_owner_isolated [of "v2_run v2_demo_run jmx_v2_rules_init" v2_demo_env 5] v2_demo_loading
  by (simp add: v2_loading_def v2_alive_def)

end
