(* ===== verification/V2Delivery.thy ===== *)
theory V2Delivery
  imports V3Delivery V2Push V2Load
begin

text \<open>
  What the push of the v2 rules achieves on a kernel that receives its messages: the rules of the catalogue
  become the active set as a whole, or the active set stays what it was.
\<close>

unbundle bit_operations_syntax

section \<open>A rule on its way\<close>

text \<open>The kernel's rule for a rule of the catalogue.\<close>

definition kernel_rule :: "match_rule \<Rightarrow> v2_rule" where
  "kernel_rule r = the (v2_copy_rule (rule_to_nl r))"

lemma clamp_le: "unat (if m < x then m else (x :: 'a::len word)) \<le> unat m"
  by (simp add: word_less_nat_alt not_less)

lemma copy_rule_to_nl: "v2_copy_rule (rule_to_nl r) = Some (kernel_rule r)"
  using clamp_le [of "256 :: u16" "mr_match_len r"] clamp_le [of "8 :: u8" "mr_port_count r"] clamp_le [of "4 :: u8" "mr_len_count r"]
  by (simp add: kernel_rule_def v2_copy_rule_def rule_to_nl_def Let_def)

lemma rule_to_nl_wf: "match_rule_wf r \<Longrightarrow> v2_nl_rule_wf (rule_to_nl r)"
  using clamp_le [of "256 :: u16" "mr_match_len r"] clamp_le [of "8 :: u8" "mr_port_count r"] clamp_le [of "4 :: u8" "mr_len_count r"]
  by (simp add: v2_nl_rule_wf_def rule_to_nl_def Let_def match_rule_wf_def)

lemma ucast_small: "(x :: u32) \<le> m \<Longrightarrow> m < 256 \<Longrightarrow> unat (ucast x :: u8) \<le> unat m"
  by (simp add: word_le_nat_alt word_less_nat_alt unsigned_ucast_eq take_bit_nat_eq_self)

lemma kernel_rule_ok: "match_rule_wf r \<Longrightarrow> v2_rule_wf (kernel_rule r) \<and> \<not> v2_rule_invalid (kernel_rule r)"
  using clamp_le [of "256 :: u16" "mr_match_len r"] clamp_le [of "8 :: u8" "mr_port_count r"] clamp_le [of "4 :: u8" "mr_len_count r"]
    ucast_small [of "mr_method r" 3] ucast_small [of "mr_proto r" 2] ucast_small [of "mr_dir r" 2]
  by (auto simp: kernel_rule_def v2_copy_rule_def rule_to_nl_def Let_def match_rule_wf_def v2_rule_wf_def v2_rule_invalid_def
      word_less_nat_alt not_less)

section \<open>Messages of the v2 protocol\<close>

lemma rcv_v2:
  assumes data: "data = le32 action @ rest" and action: "action = 10 \<or> action = 12 \<or> action = 13"
    and len: "length data < MAX_JMX_NETLINK_MSG_LEN" and free: "\<not> dp_license disp data"
    and handle: "jmx_v2_nl_handle env (dp_others disp) data portid seq (st, v2) = (h, reply, s)"
  shows "jmx_netlink_msg_rcv env disp True portid (v2_frame seq data) (rt, st, v2) =
    (Option.bind reply (\<lambda>d. case jmx_v3_reply_to_portid env portid seq d of Inl _ \<Rightarrow> None | Inr m \<Rightarrow> Some m), rt, s)"
proof -
  have act: "get_le32 data 0 = action" "4 \<le> length data" by (simp_all add: data)
  have "get_be32_at data 0 \<noteq> JMX_NL_ACT_DIRECTION_SNAPSHOT"
    using action by (auto simp: data get_be32_at_def le32_def get_be32_def)
  then have dir: "jmx_direction_nl_handle env data rt = (False, rt)" by (simp add: jmx_direction_nl_handle_def)
  have handle': "jmx_user_msg_handle env disp data portid seq (st, v2) =
      (Option.bind reply (\<lambda>d. case jmx_v3_reply_to_portid env portid seq d of Inl _ \<Rightarrow> None | Inr m \<Rightarrow> Some m), s)"
    using act action handle by (auto simp: jmx_user_msg_handle_def Let_def)
  have "unat (24 + word_of_nat (length data) :: u32) = 24 + length data" "data \<noteq> []"
    using unat_length [of "24 + length data"] len act by auto
  then show ?thesis
    using len dir handle' free act
    by (simp add: jmx_netlink_msg_rcv_def v2_frame_def Let_def NLMSG_LENGTH_def unat_length sint_length)
qed

lemma v3_ignores: "\<not> action_is_v3 (get_le32 data 0) \<Longrightarrow> jmx_v3_nl_handle env data portid seq r st = (False, None, st)"
  by (simp add: jmx_v3_nl_handle_def Let_def)

lemma handle_flush:
  "jmx_v2_nl_handle env others (le32 JMX_NL_ACT_RULE_FLUSH) portid seq (st, v2) =
     (True, None, st, snd (jmx_v2_rules_begin env portid v2))"
  by (simp add: jmx_v2_nl_handle_def v3_ignores action_is_v3_def Let_def)

lemma handle_batch:
  assumes "list_all v2_nl_rule_wf rules" and "length rules \<le> 64"
  shows "jmx_v2_nl_handle env others (batch_msg version rules) portid seq (st, v2) =
     (True, None, st, v2_add_records env portid 0 rules v2)"
proof -
  have len: "length (v2_codec.image rules) = 334 * length rules" using v2_codec.length_image [OF assms(1)] by simp
  have cnt: "unat (word_of_nat (length rules) :: u32) = length rules" using assms(2) by (intro unat_length) simp
  have "v2_codec.records (length rules) (v2_codec.image rules) = rules" by (rule v2_codec.records_image [OF assms(1)])
  then show ?thesis
    using assms(2) len cnt
    by (simp add: jmx_v2_nl_handle_def v3_ignores action_is_v3_def Let_def batch_msg_def v2_rule_add_batch_def wire_simps)
qed

lemma handle_version:
  assumes "portid \<noteq> 0" and "seq \<noteq> 0"
  shows "jmx_v2_nl_handle env others (version_msg version) portid seq (st, v2) =
     (case jmx_v2_rules_commit env portid version v2 of (rc, v2') \<Rightarrow>
        (True, v2_send_version_ack portid seq version rc v2', st, v2'))"
  using assms by (simp add: jmx_v2_nl_handle_def v2_rule_version_def version_msg_def Let_def wire_simps split: prod.split)

section \<open>Sending\<close>

text \<open>The kernel's network with allocations that succeed by their size.\<close>

definition lossy_net :: "(nat \<Rightarrow> bool) \<Rightarrow> (nat \<Rightarrow> kernel_env) \<Rightarrow> dispatch \<Rightarrow> u32 \<Rightarrow> kworld net" where
  "lossy_net mem envs disp portid = (kernel_net envs disp portid)\<lparr>nt_calloc := \<lambda>n w. (mem n, w)\<rparr>"

lemma kernel_net_lossy: "kernel_net envs disp portid = lossy_net (\<lambda>_. True) envs disp portid"
  by (simp add: lossy_net_def kernel_net_def)

text \<open>What the delivery of v2 messages needs.\<close>

definition v2_answering :: "(nat \<Rightarrow> kernel_env) \<Rightarrow> dispatch \<Rightarrow> u32 \<Rightarrow> bool" where
  "v2_answering envs disp portid \<longleftrightarrow> portid \<noteq> 0 \<and> (\<forall>n. alloc_ok (envs n) A_NL_REPLY) \<and>
     (\<forall>data. get_le32 data 0 \<in> {10, 12, 13} \<longrightarrow> \<not> dp_license disp data)"

abbreviation "env_of envs u \<equiv> envs (kw_handled (us_world u))"

text \<open>The world after a message: the state of the v2 rules, and an answer if there is one.\<close>

definition after_msg :: "v2_state \<Rightarrow> bytes option \<Rightarrow> kworld \<Rightarrow> kworld" where
  "after_msg v2 reply w = w\<lparr>kw_v2 := v2, kw_handled := kw_handled w + 1,
     kw_inbox := kw_inbox w @ (case reply of None \<Rightarrow> [] | Some bs \<Rightarrow> [\<lparr>dg_peer = 0, dg_truncated = False, dg_bytes = bs\<rparr>])\<rparr>"

lemma send_v2:
  assumes data: "data = le32 action @ rest" "action = 10 \<or> action = 12 \<or> action = 13" "length data < MAX_JMX_NETLINK_MSG_LEN"
    and net: "v2_answering envs disp portid" and mem: "mem (NLMSG_SPACE (length data + 8))"
    and handle: "jmx_v2_nl_handle (env_of envs u) (dp_others disp) data portid seq (kw_state (us_world u), kw_v2 (us_world u)) =
      (h, reply, kw_state (us_world u), v2)"
  shows "nl_send_seq (lossy_net mem envs disp portid) data seq u =
    (True, u\<lparr>us_world := after_msg v2 (Option.bind reply (\<lambda>d. case jmx_v3_reply_to_portid (env_of envs u) portid seq d of
       Inl _ \<Rightarrow> None | Inr m \<Rightarrow> Some m)) (us_world u)\<rparr>)"
proof -
  have "get_le32 data 0 = action" using data(1) by simp
  then have free: "\<not> dp_license disp data" using net data(2) by (auto simp: v2_answering_def)
  note rcv = rcv_v2 [OF data free handle, of "kw_runtime (us_world u)"]
  have "\<not> NLMSG_SPACE (length data + 8) < NLMSG_LENGTH (length data + 8)" by (simp add: NLMSG_SPACE_def NLMSG_LENGTH_def)
  moreover have "length (v2_frame seq data) = length data + 24" by (simp add: v2_frame_def)
  ultimately show ?thesis
    using mem data(3) rcv
    by (simp add: nl_send_seq_def Let_def INT_MAX_def UINT32_MAX_def NLMSG_LENGTH_def v3_calloc_def lossy_net_def kernel_net_def
        after_msg_def)
qed

text \<open>A message without a sequence number changes the rules and brings no answer.\<close>

lemma flush_delivered:
  assumes net: "v2_answering envs disp portid" and mem: "mem 28"
  shows "nl_flush_rules_locked (lossy_net mem envs disp portid) u =
    (True, u\<lparr>us_world := after_msg (snd (jmx_v2_rules_begin (env_of envs u) portid (kw_v2 (us_world u)))) None (us_world u)\<rparr>)"
  using net mem send_v2 [where data = "le32 JMX_NL_ACT_RULE_FLUSH" and action = 10 and rest = "[]" and h = True and reply = None
      and seq = 0 and u = u and mem = mem and envs = envs and disp = disp and portid = portid
      and ?v2.0 = "snd (jmx_v2_rules_begin (env_of envs u) portid (kw_v2 (us_world u)))"]
  by (simp add: nl_flush_rules_locked_def nl_send_def handle_flush NLMSG_SPACE_def NLMSG_LENGTH_def)

lemma length_batch_msg: "list_all v2_nl_rule_wf rules \<Longrightarrow> length (batch_msg version rules) = 12 + 334 * length rules"
  using v2_codec.length_image [of rules] by (simp add: batch_msg_def)

lemma batch_delivered:
  assumes net: "v2_answering envs disp portid" and wf: "list_all v2_nl_rule_wf rules" "length rules \<le> 64"
    and mem: "mem (12 + 334 * length rules)" "mem (NLMSG_SPACE (20 + 334 * length rules))"
  shows "send_rules (lossy_net mem envs disp portid) version rules ret u =
    Inr (True, u\<lparr>us_world := after_msg (v2_add_records (env_of envs u) portid 0 rules (kw_v2 (us_world u))) None (us_world u)\<rparr>)"
proof -
  have len: "length (batch_msg version rules) = 12 + 334 * length rules" by (rule length_batch_msg [OF wf(1)])
  have small: "length (batch_msg version rules) < MAX_JMX_NETLINK_MSG_LEN" using wf(2) len by simp
  have "nl_send (lossy_net mem envs disp portid) (batch_msg version rules) u =
     (True, u\<lparr>us_world := after_msg (v2_add_records (env_of envs u) portid 0 rules (kw_v2 (us_world u))) None (us_world u)\<rparr>)"
    using small net mem(2) handle_batch [OF wf] len
      send_v2 [where data = "batch_msg version rules" and action = 12 and h = True and reply = None
        and rest = "le32 (word_of_nat (length rules)) @ le32 version @ v2_codec.image rules"
        and seq = 0 and u = u and mem = mem and envs = envs and disp = disp and portid = portid
        and ?v2.0 = "v2_add_records (env_of envs u) portid 0 rules (kw_v2 (us_world u))"]
    by (simp add: nl_send_def batch_msg_def)
  moreover have "v3_calloc (lossy_net mem envs disp portid) (12 + 334 * length rules) u = (True, u)"
    using mem(1) by (simp add: v3_calloc_def lossy_net_def kernel_net_def)
  ultimately show ?thesis by (simp add: send_rules_def)
qed

section \<open>The commit\<close>

lemma decode_ack:
  assumes status: "jmx_v2_rules_get_status st = (av, ac)" and rc: "rc = None \<Longrightarrow> av = version \<and> ac = expected"
    and proper: "\<And>e. rc = Some e \<Longrightarrow> errno_code e \<noteq> 0"
    and d: "d = enc_v2_status \<lparr>vt_request_action = JMX_NL_ACT_RULE_VERSION, vt_version = version, vt_status = krc_word rc,
      vt_active_version = av, vt_active_rules = ac\<rparr>"
  shows "\<exists>err. v2_decode_commit_ack (reply_frame seq d) seq version expected = (if rc = None then V2_ACK_OK else V2_ACK_NACK, err) \<and>
    (err = None \<longleftrightarrow> rc = None)"
proof -
  have len: "length d = 24" by (simp add: d enc_v2_status_def)
  have fields: "get_le32 d 0 = JMX_NL_ACT_RULE_STATUS" "get_le32 d 4 = JMX_NL_ACT_RULE_VERSION" "get_le32 d 8 = version"
    "get_le32 d 12 = krc_word rc" "get_le32 d 16 = av" "get_le32 d 20 = ac"
    by (simp_all add: d enc_v2_status_def wire_simps)
  have "krc_word rc = 0 \<longleftrightarrow> rc = None" using proper by (cases rc) (auto simp: krc_word_def)
  then show ?thesis
    using len fields rc
    by (cases rc) (auto simp: v2_decode_commit_ack_def reply_frame_def NLMSG_LENGTH_def Let_def)
qed

definition v2_idle :: "kworld \<Rightarrow> bool" where
  "v2_idle w \<longleftrightarrow> kw_inbox w = [] \<and> 0 \<le> kw_now w"

lemma commit_delivered:
  assumes net: "v2_answering envs disp portid" and mem: "mem 32" and idle: "v2_idle (us_world u)"
    and run: "jmx_v2_rules_commit (env_of envs u) portid version (kw_v2 (us_world u)) = (rc, v2)"
    and proper: "\<And>e. rc = Some e \<Longrightarrow> errno_code e \<noteq> 0"
    and status: "rc = None \<Longrightarrow> jmx_v2_rules_get_status v2 = (version, expected)"
  shows "\<exists>u'. nl_commit_version_locked (lossy_net mem envs disp portid) version expected u = Some (rc = None, u') \<and>
    us_world u' = after_msg v2 None (us_world u) \<and> (rc \<noteq> None \<longrightarrow> us_errno u' \<noteq> None)"
proof -
  define net where "net = lossy_net mem envs disp portid"
  define seq where "seq = fst (v2_next_seq_locked u)"
  have seq: "v2_next_seq_locked u = (seq, u\<lparr>us_seq_v2 := seq\<rparr>)" "seq \<noteq> 0"
    by (auto simp: seq_def v2_next_seq_locked_def Let_def)
  obtain av ac where av: "jmx_v2_rules_get_status v2 = (av, ac)" by fastforce
  define d where "d = enc_v2_status \<lparr>vt_request_action = JMX_NL_ACT_RULE_VERSION, vt_version = version, vt_status = krc_word rc,
      vt_active_version = av, vt_active_rules = ac\<rparr>"
  have portid: "portid \<noteq> 0" "alloc_ok (env_of envs u) A_NL_REPLY" using net by (simp_all add: v2_answering_def)
  have ack: "v2_send_version_ack portid seq version rc v2 = Some d" using portid seq av by (simp add: v2_send_version_ack_def d_def)
  have "length d = 24" by (simp add: d_def enc_v2_status_def)
  then have "d \<noteq> []" by auto
  then have reply: "jmx_v3_reply_to_portid (env_of envs u) portid seq d = Inr (reply_frame seq d)"
    using portid seq(2) \<open>length d = 24\<close> by (simp add: jmx_v3_reply_to_portid_def)
  define w where "w = after_msg v2 (Some (reply_frame seq d)) (us_world u)"
  have send: "nl_send_seq net (version_msg version) seq (u\<lparr>us_seq_v2 := seq\<rparr>) = (True, u\<lparr>us_seq_v2 := seq, us_world := w\<rparr>)"
    using mem handle_version [OF portid(1) seq(2)] run ack reply assms(1)
      send_v2 [where data = "version_msg version" and action = 13 and rest = "le32 version" and h = True and reply = "Some d"
        and seq = seq and u = "u\<lparr>us_seq_v2 := seq\<rparr>" and mem = mem and envs = envs and disp = disp and portid = portid and ?v2.0 = v2]
    by (simp add: net_def w_def version_msg_def NLMSG_SPACE_def NLMSG_LENGTH_def)
  obtain err where dec: "v2_decode_commit_ack (reply_frame seq d) seq version expected = (if rc = None then V2_ACK_OK else V2_ACK_NACK, err)"
      "err = None \<longleftrightarrow> rc = None"
    using decode_ack [OF av _ proper d_def, of expected] status av by auto
  define u2 where "u2 = (case err of None \<Rightarrow> u\<lparr>us_seq_v2 := seq, us_world := after_msg v2 None (us_world u)\<rparr>
      | Some e \<Rightarrow> set_errno e (u\<lparr>us_seq_v2 := seq, us_world := after_msg v2 None (us_world u)\<rparr>))"
  have round: "v2_wait_round net seq version expected (kw_now (us_world u) + 30000) (u\<lparr>us_seq_v2 := seq, us_world := w\<rparr>) =
      (Some (if rc = None then V2_ACK_OK else V2_ACK_NACK), u2)"
    using idle dec(1)
    by (simp add: v2_wait_round_def v3_monotonic_ms_def net_def lossy_net_def kernel_net_def w_def after_msg_def v2_idle_def u2_def
        Let_def split: option.split)
  have "v2_wait_commit_ack_locked net seq version expected (u\<lparr>us_seq_v2 := seq, us_world := w\<rparr>) =
      Some (if rc = None then V2_ACK_OK else V2_ACK_NACK, u2)"
    using round idle
    by (simp add: v2_wait_commit_ack_locked_def v2_wait_loop.simps v3_monotonic_ms_def net_def lossy_net_def kernel_net_def w_def
        after_msg_def v2_idle_def)
  then show ?thesis
    using seq(1) send dec(2)
    by (cases err) (auto simp: net_def [symmetric] nl_commit_version_locked_def u2_def set_errno_def)
qed

text \<open>No error of a commit has the code 0.\<close>

lemma insert_bytes_error: "insert_bytes b node w = Inl e \<Longrightarrow> e = EOVERFLOW"
  by (induction b node w rule: insert_bytes.induct) (auto split: option.splits if_splits prod.splits)

lemma v2_count_error: "v2_count_nodes ps m = Inl e \<Longrightarrow> e = EINVAL \<or> e = EOVERFLOW"
  by (induction ps arbitrary: m) (auto split: if_splits)

lemma v2_insert_error: "v2_insert_patterns b i ps = Inl e \<Longrightarrow> e = EOVERFLOW"
  by (induction b i ps rule: v2_insert_patterns.induct)
    (auto simp: add_output_def Let_def dest: insert_bytes_error split: sum.splits if_splits)

lemma commit_error_proper: "jmx_v2_rules_commit env owner version st = (Some e, st') \<Longrightarrow> errno_code e \<noteq> 0"
proof -
  have build: "e \<in> {EINVAL, ENOMEM, EOVERFLOW}" if "jmx_v2_ac_build mem pats = Inl e" for mem pats e
    using that by (auto simp: jmx_v2_ac_build_def Let_def dest: v2_count_error v2_insert_error split: if_splits sum.splits)
  have "e \<in> {EINVAL, ENOMEM, EOVERFLOW, EIO}" if "v2_commit_build env s = Inl e" for s e
    using that by (auto simp: v2_commit_build_def Let_def dest: build split: if_splits sum.splits)
  then show "jmx_v2_rules_commit env owner version st = (Some e, st') \<Longrightarrow> ?thesis"
    by (fastforce simp: jmx_v2_rules_commit_def jmx_v2_tx_check_owner_locked_def split: option.splits sum.splits prod.splits if_splits bool.splits)
qed

section \<open>What is known of a transaction\<close>

text \<open>While a port owns the transaction that it began, every rule it sent is in the staging set or was
  counted as rejected.\<close>

definition v2_tracked :: "u32 \<Rightarrow> v2_rule list \<Rightarrow> v2_state \<Rightarrow> bool" where
  "v2_tracked owner rs st \<longleftrightarrow> (v2_staging_owner st = owner \<longrightarrow>
     (let s = STAGING_SET st; rejected = unat (vs_rejected_invalid s) + unat (vs_rejected_nomem s)
      in rejected + length (v2_nodes s) = length rs \<and> (rejected = 0 \<longrightarrow> mset (v2_nodes s) = mset (map v2_node_of rs))))"

lemma begin_tracked:
  assumes inv: "v2_inv n st" and owner: "owner \<noteq> 0"
  shows "v2_tracked owner [] (snd (jmx_v2_rules_begin env owner st)) \<and>
    ACTIVE_SET (snd (jmx_v2_rules_begin env owner st)) = ACTIVE_SET st"
proof -
  define st1 where "st1 = snd (jmx_v2_tx_expire_locked env st)"
  have st1: "ACTIVE_SET st1 = ACTIVE_SET st" "v2_inv n st1"
    using v2_reset_sets [OF v2_inv_sets [OF inv]] v2_expire_inv [OF inv, of env] by (auto simp: st1_def jmx_v2_tx_expire_locked_def)
  show ?thesis
    using owner st1(1) put_staging_sets [OF v2_inv_sets [OF st1(2)]]
    by (auto simp: jmx_v2_rules_begin_def st1_def [symmetric] Let_def v2_tracked_def jmx_v2_tx_refresh_locked_def v2_set_empty_def v2_nodes_def)
qed

lemma unat_add_one: "unat (x :: u32) + 1 < 2 ^ 32 \<Longrightarrow> unat (x + 1) = unat x + 1"
  by (simp add: unat_word_ariths)

lemma add_tracked:
  assumes inv: "v2_inv n st" and owner: "owner \<noteq> 0" and tracked: "v2_tracked owner rs st" and room: "Suc (length rs) < 2 ^ 32"
    and wf: "v2_rule_wf r"
  shows "v2_tracked owner (rs @ [r]) (snd (jmx_v2_rule_add env site owner (Some r) st)) \<and>
    ACTIVE_SET (snd (jmx_v2_rule_add env site owner (Some r) st)) = ACTIVE_SET st"
proof -
  obtain rc st1 where check: "jmx_v2_tx_check_owner_locked env owner st = (rc, st1)" by fastforce
  consider "rc = None" "st1 = st" "v2_staging_owner st = owner"
    | "rc = Some ETIMEDOUT" "st1 = jmx_v2_tx_reset_locked True st" | "rc \<noteq> None" "st1 = st" "v2_staging_owner st \<noteq> owner"
    using check_owner_cases [OF check] owner by auto
  then show ?thesis
  proof cases
    case 1
    let ?s = "STAGING_SET st"
    have s: "unat (vs_rejected_invalid ?s) + unat (vs_rejected_nomem ?s) + length (v2_nodes ?s) = length rs"
      "unat (vs_rejected_invalid ?s) + unat (vs_rejected_nomem ?s) = 0 \<Longrightarrow> mset (v2_nodes ?s) = mset (map v2_node_of rs)"
      using tracked 1(3) by (auto simp: v2_tracked_def Let_def)
    obtain rc2 s' where add: "jmx_v2_rule_add_locked env site (Some r) ?s = (rc2, s')" by fastforce
    have ok: "v2_set_ok ?s" using inv by (simp add: v2_inv_def)
    note nodes = rule_add_locked_ok [OF ok _ add]
    have nodes': "mset (v2_nodes s') = mset (v2_nodes ?s) + (if rc2 = None then {# v2_node_of r #} else {#})" using nodes wf by simp
    have len: "length (v2_nodes s') = length (v2_nodes ?s) + (if rc2 = None then 1 else 0)"
      using arg_cong [OF nodes', of size] by simp
    have "unat (vs_rejected_invalid s') + unat (vs_rejected_nomem s') =
        unat (vs_rejected_invalid ?s) + unat (vs_rejected_nomem ?s) + (if rc2 = None then 0 else 1)"
      using add s(1) room by (auto simp: jmx_v2_rule_add_locked_def Let_def unat_add_one split: if_splits)
    then show ?thesis
      using 1 check add s nodes' len put_staging_sets [OF v2_inv_sets [OF inv]]
      by (auto simp: jmx_v2_rule_add_def v2_tracked_def jmx_v2_tx_refresh_locked_def Let_def)
  next
    case 2
    then show ?thesis
      using check v2_reset_sets [OF v2_inv_sets [OF inv]] owner by (auto simp: jmx_v2_rule_add_def v2_tracked_def)
  next
    case 3
    then show ?thesis using check by (auto simp: jmx_v2_rule_add_def v2_tracked_def)
  qed
qed

lemma commit_tracked:
  assumes inv: "v2_inv n st" and tracked: "v2_tracked owner rs st" and room: "n < 2 ^ 32"
    and commit: "jmx_v2_rules_commit env owner version st = (rc, st')"
  shows "if rc = None
    then mset (v2_nodes (ACTIVE_SET st')) = mset (map v2_node_of rs) \<and>
      jmx_v2_rules_get_status st' = (version, word_of_nat (length rs))
    else ACTIVE_SET st' = ACTIVE_SET st"
  using v2_inv_sets [OF inv] commit
proof (cases rule: v2_commit_cases)
  case (1 ac)
  have s: "v2_set_ok (STAGING_SET st)" "length (v2_nodes (STAGING_SET st)) < 2 ^ 32" using inv room by (auto simp: v2_inv_def)
  note checked = commit_build_checked [OF 1(2) s(2)]
  have nodes: "mset (v2_nodes (STAGING_SET st)) = mset (map v2_node_of rs)"
    using tracked 1(4) checked by (simp add: v2_tracked_def Let_def)
  then have "length (v2_nodes (STAGING_SET st)) = length rs" by (metis length_map size_mset)
  then show ?thesis using 1 nodes s by (simp add: jmx_v2_rules_get_status_def v2_set_ok_def)
qed auto

lemma add_records_tracked:
  assumes "v2_inv n st" and "owner \<noteq> 0" and "v2_tracked owner rs st" and "length rs + length xs < 2 ^ 32"
    and "list_all match_rule_wf xs"
  shows "v2_inv (n + length xs) (v2_add_records env owner i (map rule_to_nl xs) st) \<and>
    v2_tracked owner (rs @ map kernel_rule xs) (v2_add_records env owner i (map rule_to_nl xs) st) \<and>
    ACTIVE_SET (v2_add_records env owner i (map rule_to_nl xs) st) = ACTIVE_SET st"
  using assms
proof (induction xs arbitrary: n st rs i)
  case (Cons x xs)
  let ?st = "snd (jmx_v2_rule_add env (A_V2_RULE i) owner (Some (kernel_rule x)) st)"
  have x: "v2_rule_wf (kernel_rule x)" using kernel_rule_ok Cons.prems(5) by simp
  have "v2_inv (Suc n) ?st" using x by (intro v2_add_inv [OF Cons.prems(1)]) simp
  moreover have "v2_tracked owner (rs @ [kernel_rule x]) ?st \<and> ACTIVE_SET ?st = ACTIVE_SET st"
    using Cons.prems(4) by (intro add_tracked [OF Cons.prems(1-3) _ x]) simp
  ultimately show ?case
    using Cons.IH [of "Suc n" ?st "rs @ [kernel_rule x]" "i + 1"] Cons.prems by (simp add: copy_rule_to_nl)
qed simp

section \<open>Batches\<close>

text \<open>What every batch keeps holds at the end of the loop for what was sent, and of all rules after the rest.\<close>

lemma push_loop_ok:
  assumes step: "\<And>xs b u ret. P xs u \<Longrightarrow> b \<noteq> [] \<Longrightarrow> length b \<le> 64 \<Longrightarrow> list_all match_rule_wf b \<Longrightarrow> length xs + length b \<le> N \<Longrightarrow>
      \<exists>u'. send_rules net version (map rule_to_nl b) ret u = Inr (True, u') \<and> P (xs @ b) u'"
  shows "P xs u \<Longrightarrow> length b < 64 \<Longrightarrow> list_all match_rule_wf (b @ rs) \<Longrightarrow> length (xs @ b @ rs) \<le> N \<Longrightarrow>
    \<exists>b' ret' u' ys. push_loop net version rs (map rule_to_nl b) ret u = Inr (map rule_to_nl b', ret', u') \<and> P ys u' \<and>
      ys @ b' = xs @ b @ rs \<and> length b' < 64 \<and> list_all match_rule_wf b'"
proof (induction rs arbitrary: xs b u ret)
  case (Cons r rs)
  show ?case
  proof (cases "length b = 63")
    case True
    from Cons.prems True obtain u' where
      u': "send_rules net version (map rule_to_nl (b @ [r])) ret u = Inr (True, u')" "P (xs @ b @ [r]) u'"
      using step [of xs u "b @ [r]" ret] by auto
    from Cons.IH [OF u'(2), of "[]" True] Cons.prems u'(1) True show ?thesis by simp
  next
    case False
    with Cons.IH [OF Cons.prems(1), of "b @ [r]" ret] Cons.prems show ?thesis by simp
  qed
qed auto

lemma push_batches_ok:
  assumes step: "\<And>xs b u ret. P xs u \<Longrightarrow> b \<noteq> [] \<Longrightarrow> length b \<le> 64 \<Longrightarrow> list_all match_rule_wf b \<Longrightarrow> length xs + length b \<le> N \<Longrightarrow>
      \<exists>u'. send_rules net version (map rule_to_nl b) ret u = Inr (True, u') \<and> P (xs @ b) u'"
    and start: "P [] u" and rules: "list_all match_rule_wf rs" "length rs \<le> N"
  shows "\<exists>ret u'. push_batches net version rs u = Inr (ret, u') \<and> P rs u'"
proof -
  obtain b ret u1 ys where loop: "push_loop net version rs [] False u = Inr (map rule_to_nl b, ret, u1)" "P ys u1" "ys @ b = rs"
      "length b < 64" "list_all match_rule_wf b"
    using push_loop_ok [where P = P and N = N and xs = "[]" and b = "[]" and rs = rs and ret = False and u = u, OF step] start rules
    by auto
  show ?thesis
  proof (cases "b = []")
    case True
    then show ?thesis using loop by (simp add: push_batches_def)
  next
    case False
    have le: "length b \<le> 64" "length ys + length b \<le> N" using loop(3,4) rules(2) by auto
    obtain u2 where "send_rules net version (map rule_to_nl b) ret u1 = Inr (True, u2)" "P (ys @ b) u2"
      using step [OF loop(2) False le(1) loop(5) le(2), of ret] by blast
    then show ?thesis using loop False by (auto simp: push_batches_def)
  qed
qed

lemma after_msg_simps [simp]:
  "kw_v2 (after_msg v2 r w) = v2" "kw_state (after_msg v2 r w) = kw_state w" "kw_handled (after_msg v2 r w) = Suc (kw_handled w)"
  "v2_idle (after_msg v2 None w) = v2_idle w"
  by (simp_all add: after_msg_def v2_idle_def)

text \<open>The state of the kernel after the rules \<open>xs\<close> of a push.\<close>

definition v2_pushing :: "u32 \<Rightarrow> nat \<Rightarrow> v2_set \<Rightarrow> match_rule list \<Rightarrow> kworld user \<Rightarrow> bool" where
  "v2_pushing portid n active xs u \<longleftrightarrow> v2_idle (us_world u) \<and> v2_inv (n + length xs) (kw_v2 (us_world u)) \<and>
     v2_tracked portid (map kernel_rule xs) (kw_v2 (us_world u)) \<and> ACTIVE_SET (kw_v2 (us_world u)) = active"

lemma batch_pushing:
  assumes net: "v2_answering envs disp portid" and p: "v2_pushing portid n active xs u" and b: "length b \<le> 64" "list_all match_rule_wf b"
    and room: "length xs + length b < 2 ^ 32"
  shows "\<exists>u'. send_rules (kernel_net envs disp portid) version (map rule_to_nl b) ret u = Inr (True, u') \<and>
    v2_pushing portid n active (xs @ b) u'"
proof -
  have wf: "list_all v2_nl_rule_wf (map rule_to_nl b)" "length (map rule_to_nl b) \<le> 64"
    using b rule_to_nl_wf by (auto simp: list_all_iff)
  have "portid \<noteq> 0" using net by (simp add: v2_answering_def)
  then show ?thesis
    using batch_delivered [OF net wf, of "\<lambda>_. True"] p room b
      add_records_tracked [of "n + length xs" "kw_v2 (us_world u)" portid "map kernel_rule xs" b "env_of envs u" 0]
    by (simp add: kernel_net_lossy v2_pushing_def add.assoc)
qed

lemma flush_pushing:
  assumes net: "v2_answering envs disp portid" and idle: "v2_idle (us_world u)" and inv: "v2_inv n (kw_v2 (us_world u))"
  shows "\<exists>u'. nl_flush_rules_locked (kernel_net envs disp portid) u = (True, u') \<and>
    v2_pushing portid n (ACTIVE_SET (kw_v2 (us_world u))) [] u'"
proof -
  have "portid \<noteq> 0" using net by (simp add: v2_answering_def)
  then show ?thesis
    using flush_delivered [OF net, of "\<lambda>_. True" u] idle v2_begin_inv [OF inv] begin_tracked [OF inv]
    by (simp add: kernel_net_lossy v2_pushing_def)
qed

text \<open>What a rule of the catalogue is to become in the kernel: the same rule, with its counts cut to the sizes of the
  arrays and the arrays cut to their counts.\<close>

definition kernel_image :: "match_rule \<Rightarrow> v2_rule" where
  "kernel_image r =
     (let len = min 256 (mr_match_len r); ports = min 8 (mr_port_count r); lens = min 4 (mr_len_count r)
      in \<lparr>vr_appid = mr_appid r, vr_rule_id = mr_rule_id r, vr_priority = mr_priority r, vr_method = ucast (mr_method r),
          vr_proto = ucast (mr_proto r), vr_dir = ucast (mr_dir r), vr_port_count = ports, vr_len_count = lens,
          vr_pkt_seq = mr_pkt_seq r, vr_offset = mr_offset r, vr_match_len = len,
          vr_match_str = take (unat len) (mr_match_str r), vr_ports = take (unat ports) (mr_ports r),
          vr_len_range = take (unat lens) (mr_len_range r)\<rparr>)"

lemma node_of_kernel_rule:
  assumes "match_rule_wf r"
  shows "v2_node_of (kernel_rule r) = kernel_image r"
proof -
  have le: "unat (min 256 (mr_match_len r)) \<le> 256" "unat (min 8 (mr_port_count r)) \<le> 8" "unat (min 4 (mr_len_count r)) \<le> 4"
    using clamp_le [of "256 :: u16" "mr_match_len r"] clamp_le [of "8 :: u8" "mr_port_count r"] clamp_le [of "4 :: u8" "mr_len_count r"]
    by (simp_all add: min_def word_le_nat_alt)
  have cut: "(if m < x then m else x) = min m x" for m x :: "'a::len word" by (auto simp: min_def)
  show ?thesis using assms le
    by (simp add: kernel_rule_def v2_copy_rule_def rule_to_nl_def v2_node_of_def kernel_image_def Let_def match_rule_wf_def cut)
qed

text \<open>The rules of the catalogue in the kernel.\<close>

definition v2_installed :: "match_set \<Rightarrow> u32 \<Rightarrow> v2_state \<Rightarrow> bool" where
  "v2_installed rs version st \<longleftrightarrow> jmx_v2_rules_get_status st = (version, ms_total_rules rs) \<and>
     mset (v2_nodes (ACTIVE_SET st)) = mset (map kernel_image (ms_rules rs))"

lemma commit_pushing:
  assumes net: "v2_answering envs disp portid" and p: "v2_pushing portid n active (ms_rules rs) u"
    and room: "n + length (ms_rules rs) < 2 ^ 32" and rs: "match_set_inv rs"
  shows "\<exists>ok u'. nl_commit_version_locked (kernel_net envs disp portid) version (word_of_nat (length (ms_rules rs))) u = Some (ok, u') \<and>
    v2_inv (n + length (ms_rules rs)) (kw_v2 (us_world u')) \<and> v2_idle (us_world u') \<and>
    (ok \<longrightarrow> v2_staging_owner (kw_v2 (us_world u')) = 0) \<and>
    (if ok then v2_installed rs version (kw_v2 (us_world u'))
     else ACTIVE_SET (kw_v2 (us_world u')) = active \<and> us_errno u' \<noteq> None) \<and>
    (ok \<longleftrightarrow> fst (jmx_v2_rules_commit (env_of envs u) portid version (kw_v2 (us_world u))) = None)"
proof -
  obtain rc st' where commit: "jmx_v2_rules_commit (env_of envs u) portid version (kw_v2 (us_world u)) = (rc, st')" by fastforce
  have total: "ms_total_rules rs = word_of_nat (length (ms_rules rs))" using rs by (simp add: match_set_inv_def)
  have image: "image_mset (v2_node_of \<circ> kernel_rule) (mset (ms_rules rs)) = image_mset kernel_image (mset (ms_rules rs))"
    using rs by (intro image_mset_cong) (simp add: match_set_inv_def list_all_iff node_of_kernel_rule)
  have st: "v2_idle (us_world u)" "v2_inv (n + length (ms_rules rs)) (kw_v2 (us_world u))"
    "v2_tracked portid (map kernel_rule (ms_rules rs)) (kw_v2 (us_world u))" "ACTIVE_SET (kw_v2 (us_world u)) = active"
    using p by (simp_all add: v2_pushing_def)
  note result = commit_tracked [OF st(2,3) room commit]
  have "v2_inv (n + length (ms_rules rs)) st'"
    using v2_commit_inv [OF st(2) room, of "env_of envs u" portid version] commit by simp
  moreover obtain u' where "nl_commit_version_locked (kernel_net envs disp portid) version (word_of_nat (length (ms_rules rs))) u =
      Some (rc = None, u')" "us_world u' = after_msg st' None (us_world u)" "rc \<noteq> None \<Longrightarrow> us_errno u' \<noteq> None"
    using commit_delivered [OF net, of "\<lambda>_. True" u version rc st' "word_of_nat (length (ms_rules rs))"] st(1) commit result
      commit_error_proper [of "env_of envs u" portid version "kw_v2 (us_world u)"]
    by (auto simp: kernel_net_lossy split: if_splits)
  moreover have "rc = None \<longrightarrow> v2_staging_owner st' = 0"
    by (rule v2_commit_cases [OF v2_inv_sets [OF st(2)] commit]) auto
  ultimately show ?thesis using result total st(1,4) commit image by (auto simp: v2_installed_def)
qed

text \<open>The push comes to the commit, with what every batch has kept.\<close>

lemma push_reaches:
  assumes step: "\<And>xs b u ret. P xs u \<Longrightarrow> b \<noteq> [] \<Longrightarrow> length b \<le> 64 \<Longrightarrow> list_all match_rule_wf b \<Longrightarrow> length xs + length b \<le> 16384 \<Longrightarrow>
      \<exists>u'. send_rules (kernel_net envs disp portid) version (map rule_to_nl b) ret u = Inr (True, u') \<and> P (xs @ b) u'"
    and start: "nl_flush_rules_locked (kernel_net envs disp portid) u = (True, u1)" "P [] u1" and rs: "match_set_inv rs"
  shows "\<exists>u2. jmx_nl_push_rules (kernel_net envs disp portid) rs version u =
      nl_commit_version_locked (kernel_net envs disp portid) version (word_of_nat (length (ms_rules rs))) u2 \<and> P (ms_rules rs) u2"
proof -
  let ?net = "kernel_net envs disp portid"
  have total: "ms_total_rules rs = word_of_nat (length (ms_rules rs))" and wf: "list_all match_rule_wf (ms_rules rs)"
    and len: "length (ms_rules rs) \<le> 16384" using rs by (auto simp: match_set_inv_def list_all_iff)
  show ?thesis
  proof (cases "ms_rules rs = []")
    case True
    then show ?thesis using start total by (intro exI [of _ u1]) (simp add: jmx_nl_push_rules_def)
  next
    case False
    then have "ms_total_rules rs \<noteq> 0" using total len by (simp add: word_unat_eq_iff unat_of_nat)
    moreover have "v3_calloc ?net (334 * 64) u1 = (True, u1)" by (simp add: v3_calloc_def kernel_net_def)
    moreover obtain ret u2 where "push_batches ?net version (ms_rules rs) u1 = Inr (ret, u2)" "P (ms_rules rs) u2"
      using push_batches_ok [where N = 16384 and P = P, OF step start(2) wf len] by blast
    ultimately show ?thesis using start(1) total by (intro exI [of _ u2]) (simp add: jmx_nl_push_rules_def Let_def)
  qed
qed

text \<open>The whole push: its result is the one of the commit.\<close>

lemma push_kernel:
  assumes net: "v2_answering envs disp portid" and idle: "v2_idle (us_world u)" and inv: "v2_inv n (kw_v2 (us_world u))"
    and rs: "match_set_inv rs" and room: "n + length (ms_rules rs) < 2 ^ 32"
  shows "\<exists>ok u'. jmx_nl_push_rules (kernel_net envs disp portid) rs version u = Some (ok, u') \<and>
    v2_inv (n + length (ms_rules rs)) (kw_v2 (us_world u')) \<and> v2_idle (us_world u') \<and>
    (ok \<longrightarrow> v2_staging_owner (kw_v2 (us_world u')) = 0) \<and>
    (if ok then v2_installed rs version (kw_v2 (us_world u'))
     else ACTIVE_SET (kw_v2 (us_world u')) = ACTIVE_SET (kw_v2 (us_world u)) \<and> us_errno u' \<noteq> None)"
proof -
  let ?a = "ACTIVE_SET (kw_v2 (us_world u))"
  have total: "ms_total_rules rs = word_of_nat (length (ms_rules rs))" using rs by (simp add: match_set_inv_def)
  obtain u1 where u1: "nl_flush_rules_locked (kernel_net envs disp portid) u = (True, u1)" "v2_pushing portid n ?a [] u1"
    using flush_pushing [OF net idle inv] by blast
  have "\<exists>u2. jmx_nl_push_rules (kernel_net envs disp portid) rs version u =
      nl_commit_version_locked (kernel_net envs disp portid) version (word_of_nat (length (ms_rules rs))) u2 \<and>
      v2_pushing portid n ?a (ms_rules rs) u2"
    by (rule push_reaches [where P = "v2_pushing portid n ?a", OF _ u1 rs]) (rule batch_pushing [OF net], simp_all)
  then obtain u2 where u2: "jmx_nl_push_rules (kernel_net envs disp portid) rs version u =
      nl_commit_version_locked (kernel_net envs disp portid) version (word_of_nat (length (ms_rules rs))) u2"
    "v2_pushing portid n ?a (ms_rules rs) u2" by blast
  from commit_pushing [OF net u2(2) room rs] show ?thesis unfolding u2(1) by blast
qed

section \<open>A push in time\<close>

text \<open>There is memory, and no request comes later than the timeout after the one before.\<close>

definition v2_prompt :: "(nat \<Rightarrow> kernel_env) \<Rightarrow> bool" where
  "v2_prompt envs \<longleftrightarrow> (\<forall>i. (\<forall>site. alloc_ok (envs i) site) \<and> 0 < hz (envs i) \<and> hz (envs i) < 2 ^ 50 \<and>
     \<not> time_after_eq (jiffies (envs (Suc i))) (jiffies (envs i) + JMX_V2_TX_TIMEOUT (envs i)))"

lemma add_records_loading:
  assumes env: "\<forall>site. alloc_ok env site" "0 < hz env" "hz env < 2 ^ 50"
  shows "v2_inv n st \<Longrightarrow> v2_loading owner rs st \<Longrightarrow> v2_alive env st \<Longrightarrow> list_all match_rule_wf xs \<Longrightarrow>
    v2_loading owner (rs @ map kernel_rule xs) (v2_add_records env owner i (map rule_to_nl xs) st) \<and>
    (xs \<noteq> [] \<longrightarrow> v2_staging_deadline (v2_add_records env owner i (map rule_to_nl xs) st) = jiffies env + JMX_V2_TX_TIMEOUT env)"
proof (induction xs arbitrary: n st rs i)
  case (Cons x xs)
  have x: "v2_rule_wf (kernel_rule x)" "\<not> v2_rule_invalid (kernel_rule x)" using kernel_rule_ok Cons.prems(4) by simp_all
  obtain rc st' where add: "jmx_v2_rule_add env (A_V2_RULE i) owner (Some (kernel_rule x)) st = (rc, st')" by fastforce
  have mem: "alloc_ok env (A_V2_RULE i)" using env(1) by simp
  note st' = v2_add_loading [OF Cons.prems(1-3) x mem add]
  have "v2_inv (Suc n) st'" using v2_add_inv [OF Cons.prems(1), of "Some (kernel_rule x)" env "A_V2_RULE i" owner] x add by simp
  moreover have "v2_alive env st'"
    using st' v2_fresh [OF env(2,3), of st'] by (simp add: v2_alive_def jmx_v2_tx_refresh_locked_def)
  ultimately show ?case
    using Cons.IH [of "Suc n" st' "rs @ [kernel_rule x]" "i + 1"] Cons.prems st' add
    by (cases "xs = []") (simp_all add: copy_rule_to_nl)
qed simp

definition v2_in_time :: "(nat \<Rightarrow> kernel_env) \<Rightarrow> u32 \<Rightarrow> nat \<Rightarrow> match_rule list \<Rightarrow> kworld user \<Rightarrow> bool" where
  "v2_in_time envs portid n xs u \<longleftrightarrow> v2_inv (n + length xs) (kw_v2 (us_world u)) \<and>
     v2_loading portid (map kernel_rule xs) (kw_v2 (us_world u)) \<and> v2_alive (env_of envs u) (kw_v2 (us_world u))"

lemma batch_in_time:
  assumes net: "v2_answering envs disp portid" and envs: "v2_prompt envs" and p: "v2_in_time envs portid n xs u"
    and b: "length b \<le> 64" "list_all match_rule_wf b" "b \<noteq> []"
    and send: "send_rules (kernel_net envs disp portid) version (map rule_to_nl b) ret u = Inr (True, u')"
    and inv: "v2_inv (n + length (xs @ b)) (kw_v2 (us_world u'))"
  shows "v2_in_time envs portid n (xs @ b) u'"
proof -
  have wf: "list_all v2_nl_rule_wf (map rule_to_nl b)" "length (map rule_to_nl b) \<le> 64"
    using b rule_to_nl_wf by (auto simp: list_all_iff)
  have u': "u' = u\<lparr>us_world := after_msg (v2_add_records (env_of envs u) portid 0 (map rule_to_nl b) (kw_v2 (us_world u))) None (us_world u)\<rparr>"
    using batch_delivered [OF net wf, of "\<lambda>_. True"] send by (simp add: kernel_net_lossy)
  have env: "\<forall>site. alloc_ok (env_of envs u) site" "0 < hz (env_of envs u)" "hz (env_of envs u) < 2 ^ 50"
    "\<not> time_after_eq (jiffies (env_of envs u')) (jiffies (env_of envs u) + JMX_V2_TX_TIMEOUT (env_of envs u))"
    using envs by (simp_all add: v2_prompt_def u')
  show ?thesis
    using add_records_loading [OF env(1-3), of "n + length xs" "kw_v2 (us_world u)" portid "map kernel_rule xs" b 0] p b inv env(4)
    by (simp add: v2_in_time_def v2_alive_def u')
qed

lemma kernel_rule_fields:
  "vr_method (kernel_rule r) = ucast (mr_method r)" "vr_match_len (kernel_rule r) = (if 256 < mr_match_len r then 256 else mr_match_len r)"
  using clamp_le [of "256 :: u16" "mr_match_len r"] clamp_le [of "8 :: u8" "mr_port_count r"] clamp_le [of "4 :: u8" "mr_len_count r"]
  by (simp_all add: kernel_rule_def v2_copy_rule_def rule_to_nl_def Let_def)

definition fixed_text :: "match_rule \<Rightarrow> bool" where
  "fixed_text r \<longleftrightarrow> mr_method r = JMX_MATCH_EXACT \<or> mr_method r = JMX_MATCH_BM_STR"

lemma kernel_rule_fixed:
  assumes "match_rule_wf r"
  shows "v2_scannable (kernel_rule r) \<longleftrightarrow> fixed_text r"
proof -
  have "mr_method r = 0 \<or> mr_method r = 1 \<or> mr_method r = 2 \<or> mr_method r = 3"
    using assms by (simp add: match_rule_wf_def word_le_nat_alt word_unat_eq_iff) linarith
  then show ?thesis by (auto simp: v2_scannable_def kernel_rule_fields fixed_text_def)
qed

lemma kernel_rule_text:
  "match_rule_wf r \<Longrightarrow> \<not> match_rule_skipped r \<Longrightarrow> v2_scannable (kernel_rule r) \<Longrightarrow> vr_match_len (kernel_rule r) \<noteq> 0"
  by (auto simp: kernel_rule_fixed kernel_rule_fields match_rule_skipped_def fixed_text_def split: if_splits)

lemma push_in_time:
  assumes net: "v2_answering envs disp portid" and idle: "v2_idle (us_world u)" and inv: "v2_inv n (kw_v2 (us_world u))"
    and rs: "match_set_inv rs" and room: "n + length (ms_rules rs) < 2 ^ 32" and envs: "v2_prompt envs"
    and free: "v2_staging_owner (kw_v2 (us_world u)) = 0 \<or> v2_staging_owner (kw_v2 (us_world u)) = portid \<or>
      \<not> v2_alive (env_of envs u) (kw_v2 (us_world u))"
  shows "\<exists>u'. jmx_nl_push_rules (kernel_net envs disp portid) rs version u = Some (True, u') \<and>
    v2_installed rs version (kw_v2 (us_world u'))"
proof -
  let ?a = "ACTIVE_SET (kw_v2 (us_world u))"
  let ?P = "\<lambda>xs u. v2_pushing portid n ?a xs u \<and> v2_in_time envs portid n xs u"
  have total: "ms_total_rules rs = word_of_nat (length (ms_rules rs))" using rs by (simp add: match_set_inv_def)
  have portid: "portid \<noteq> 0" using net by (simp add: v2_answering_def)
  obtain u1 where u1: "nl_flush_rules_locked (kernel_net envs disp portid) u = (True, u1)" "v2_pushing portid n ?a [] u1"
    using flush_pushing [OF net idle inv] by blast
  obtain rc st1 where b: "jmx_v2_rules_begin (env_of envs u) portid (kw_v2 (us_world u)) = (rc, st1)" by fastforce
  have "u1 = u\<lparr>us_world := after_msg st1 None (us_world u)\<rparr>"
    using u1(1) flush_delivered [OF net, of "\<lambda>_. True" u] b by (simp add: kernel_net_lossy)
  then have "v2_in_time envs portid n [] u1"
    using v2_begin_loading [OF inv portid free b] u1(2) envs
    by (simp add: v2_in_time_def v2_pushing_def v2_alive_def v2_prompt_def)
  then have start: "?P [] u1" using u1(2) by simp
  have step: "\<exists>u'. send_rules (kernel_net envs disp portid) version (map rule_to_nl b) ret v = Inr (True, u') \<and> ?P (xs @ b) u'"
    if "?P xs v" "b \<noteq> []" "length b \<le> 64" "list_all match_rule_wf b" "length xs + length b \<le> 16384" for xs b v ret
  proof -
    from that batch_pushing [OF net, of n ?a xs v b version ret] obtain u' where
      "send_rules (kernel_net envs disp portid) version (map rule_to_nl b) ret v = Inr (True, u')" "v2_pushing portid n ?a (xs @ b) u'"
      by auto
    moreover from this batch_in_time [OF net envs _ that(3,4,2), of n xs v] that(1) have "v2_in_time envs portid n (xs @ b) u'"
      by (simp add: v2_pushing_def)
    ultimately show ?thesis by blast
  qed
  obtain u2 where u2: "jmx_nl_push_rules (kernel_net envs disp portid) rs version u =
      nl_commit_version_locked (kernel_net envs disp portid) version (word_of_nat (length (ms_rules rs))) u2" "?P (ms_rules rs) u2"
    using push_reaches [where P = ?P, OF step u1(1) start rs] by blast
  have "v2_rules_fit (map kernel_rule (ms_rules rs))"
    using rs kernel_rule_text by (auto simp: v2_rules_fit_def match_set_inv_def list_all_iff)
  moreover obtain rc' st' where c: "jmx_v2_rules_commit (env_of envs u2) portid version (kw_v2 (us_world u2)) = (rc', st')" by fastforce
  ultimately have "rc' = None"
    using v2_commit_loading [OF _ _ _ _ _ c] u2(2) envs by (auto simp: v2_in_time_def v2_prompt_def)
  then show ?thesis
    using commit_pushing [OF net conjunct1 [OF u2(2)] room rs, of version] c unfolding u2(1) by auto
qed

end
