(* ===== verification/V2Install.thy ===== *)
theory V2Install
  imports V2Delivery V3Install
begin

text \<open>
  The properties of the v2 rules from the catalogue to the packet: a push installs the catalogue or leaves
  the active rules alone, it succeeds when it is in time, packets are classified by the catalogue it
  installed, and the case in which it reports a success that did not happen.
\<close>

unbundle bit_operations_syntax

section \<open>A catalogue and a kernel\<close>

lemma get_match_ok: "match_rule_wf get_match" "\<not> match_rule_skipped get_match"
  by (simp_all add: match_rule_wf_def match_rule_skipped_def is_unsafe_nofix_rule_def get_match_def)

text \<open>A catalogue of \<open>n\<close> copies of a rule.\<close>

definition copies :: "nat \<Rightarrow> match_rule \<Rightarrow> load_op list" where
  "copies n r = replicate n (Load_match True r)"

lemma copies_wf: "match_rule_wf r \<Longrightarrow> list_all load_wf (copies n r)"
  by (simp add: copies_def list_all_iff)

lemma copies_rules:
  assumes r: "match_rule_wf r" "\<not> match_rule_skipped r"
  shows "n \<le> 16384 \<Longrightarrow> mset (ms_rules (load_all (copies n r))) = replicate_mset n r"
proof (induction n)
  case 0
  then show ?case by (simp add: load_all_def copies_def jmx_rule_set_init_def ms_rules_def)
next
  case (Suc n)
  let ?rs = "load_all (copies n r)"
  have inv: "match_set_inv ?rs" by (rule load_all_inv [OF copies_wf [OF r(1)]])
  have nodes: "mset (ms_rules ?rs) = replicate_mset n r" using Suc by simp
  then have "length (ms_rules ?rs) = n" by (metis size_mset size_replicate_mset)
  then have few: "\<not> JMX_MAX_RULES \<le> ms_match_count ?rs"
    using inv Suc.prems by (simp add: match_set_inv_def not_le word_less_nat_alt unat_of_nat)
  obtain rc rs' where add: "jmx_rule_set_add_match True r ?rs = (rc, rs')" by fastforce
  have "rc = 0" using add few by (auto simp: jmx_rule_set_add_match_def Let_def split: if_splits)
  then have "mset (ms_rules rs') = add_mset r (replicate_mset n r)" using add_match_cases [OF inv r(1) add] r(2) nodes by simp
  moreover have "load_all (copies (Suc n) r) = rs'"
    using add by (simp add: load_all_def copies_def replicate_append_same [symmetric] del: replicate_Suc)
  ultimately show ?case by simp
qed

definition v2_demo_dispatch :: dispatch where
  "v2_demo_dispatch = \<lparr>dp_license = \<lambda>_. False, dp_others = \<lambda>_. False\<rparr>"

definition v2_demo_user :: "kworld user" where
  "v2_demo_user = \<lparr>us_errno = None, us_seq = 0, us_seq_v2 = 0, us_status = kernel_status_zero,
     us_world = \<lparr>kw_state = jmx_v3_rules_init, kw_v2 = jmx_v2_rules_init,
       kw_runtime = \<lparr>dr_slots = [], dr_active_slot = 0, dr_wq = None, dr_initialized = False\<rparr>,
       kw_inbox = [], kw_now = 0, kw_handled = 0\<rparr>\<rparr>"

lemma v2_demo_answering: "v2_answering (\<lambda>_. v2_demo_env) v2_demo_dispatch 4"
  by (simp add: v2_answering_def v2_demo_env_def v2_demo_dispatch_def)

lemma v2_demo_prompt: "v2_prompt (\<lambda>_. v2_demo_env)"
proof -
  have "\<not> time_after_eq (1000 :: u64) (1000 + 7500)" by (rule time_after_eq_add) simp_all
  then show ?thesis by (simp add: v2_prompt_def v2_demo_env_def JMX_V2_TX_TIMEOUT_def)
qed

lemma v2_demo_user_simps [simp]: "v2_idle (us_world v2_demo_user)" "kw_v2 (us_world v2_demo_user) = v2_run [] jmx_v2_rules_init"
  by (simp_all add: v2_demo_user_def v2_idle_def v2_run_def)

section \<open>Pushing a catalogue\<close>

lemma reachable_push:
  assumes "list_all (\<lambda>q. v2_op_wf (snd q)) qs" and "length qs + 16384 < 2 ^ 32" and "list_all load_wf ops"
  shows "v2_inv (length qs) (v2_run qs jmx_v2_rules_init)" "match_set_inv (load_all ops)"
    "length qs + length (ms_rules (load_all ops)) < 2 ^ 32"
proof -
  show "v2_inv (length qs) (v2_run qs jmx_v2_rules_init)" using assms by (intro v2_reachable) simp_all
  show rs: "match_set_inv (load_all ops)" by (rule load_all_inv [OF assms(3)])
  show "length qs + length (ms_rules (load_all ops)) < 2 ^ 32" using rs assms(2) by (simp add: match_set_inv_def)
qed





section \<open>The push returns\<close>

lemma v2_round_progress:
  assumes m: "\<And>w. (\<forall>ms. fst (nt_clock net w) = Inr ms \<longrightarrow> deadline \<le> ms \<or> m (snd (nt_clock net w)) < m w) \<and>
      (\<forall>t. m (snd (nt_poll net t w)) \<le> m w) \<and> m (snd (nt_recvmsg net w)) \<le> m w"
    and round: "v2_wait_round net seq version expected deadline u = (None, u')"
  shows "m (us_world u') < (m (us_world u) :: nat)"
proof -
  obtain r w1 where clock: "nt_clock net (us_world u) = (r, w1)" by fastforce
  obtain ms where r: "r = Inr ms" "\<not> deadline \<le> ms"
    using round clock by (cases r) (auto simp: v2_wait_round_def v3_monotonic_ms_def set_errno_def split: if_splits)
  have w1: "m w1 < m (us_world u)" using m [of "us_world u"] clock r by auto
  obtain p w2 where poll: "nt_poll net (deadline - ms) w1 = (p, w2)" by fastforce
  have w2: "m w2 \<le> m w1" using m [of w1] poll by (metis snd_conv)
  obtain d w3 where recv: "nt_recvmsg net w2 = (d, w3)" by fastforce
  have w3: "m w3 \<le> m w2" using m [of w2] recv by (metis snd_conv)
  have "us_world u' = w2 \<or> us_world u' = w3"
    using round clock r poll recv
    by (auto simp: v2_wait_round_def v3_monotonic_ms_def set_errno_def Let_def
        split: if_splits poll_result.splits sum.splits option.splits prod.splits)
  then show ?thesis using w1 w2 w3 by auto
qed

lemma v2_wait_returns:
  assumes "clock_runs net"
  shows "\<exists>ack u'. v2_wait_loop net seq version expected deadline u = Some (ack, u')"
proof -
  obtain m :: "'a \<Rightarrow> nat" where m: "\<And>w. (\<forall>ms. fst (nt_clock net w) = Inr ms \<longrightarrow> deadline \<le> ms \<or> m (snd (nt_clock net w)) < m w) \<and>
      (\<forall>t. m (snd (nt_poll net t w)) \<le> m w) \<and> m (snd (nt_recvmsg net w)) \<le> m w"
    using assms unfolding clock_runs_def by blast
  show ?thesis
    by (rule loop_returns [where round = "v2_wait_round net seq version expected deadline" and m = "\<lambda>u. m (us_world u)"])
      (rule v2_wait_loop.simps, rule v2_round_progress [OF m])
qed

lemma returns_v2_commit: "clock_runs net \<Longrightarrow> returns (nl_commit_version_locked net version expected u)"
proof -
  assume net: "clock_runs net"
  then have "returns (v2_wait_loop net seq version expected deadline v)" for seq deadline v
    using v2_wait_returns unfolding returns_def by blast
  then have "returns (v2_wait_commit_ack_locked net seq version expected v)" for seq v
    by (simp add: v2_wait_commit_ack_locked_def split: prod.split)
  then show ?thesis
    by (auto simp: nl_commit_version_locked_def split: prod.split bool.split intro!: returns_bind)
qed

text \<open>C29: On every network whose clock runs, and whatever it delivers, loses or forges, the push of the v2 rules
  returns, for every catalogue.\<close>

theorem v2_push_returns:
  assumes "clock_runs net"
  shows "\<exists>ok u'. jmx_nl_push_rules net rs version u = Some (ok, u')"
  using returns_v2_commit [OF assms]
  by (auto simp: jmx_nl_push_rules_def returns_def Let_def split: prod.split bool.split sum.split)

theorem v2_push_returns_witness:
  "\<exists>ok u'. jmx_nl_push_rules silent_net (load_all []) 9
     \<lparr>us_errno = None, us_seq = 0, us_seq_v2 = 0, us_status = kernel_status_zero, us_world = 0\<rparr> = Some (ok, u')"
  by (rule v2_push_returns [OF silent_clock])

section \<open>Classifying by the catalogue\<close>

lemma v2_best_set: "set ps = set qs \<Longrightarrow> v2_best ps = v2_best qs"
  by (intro ext) (simp add: v2_best_def)

text \<open>The pattern that a rule of the catalogue is in the kernel.\<close>

definition catalogue_pattern :: "match_rule \<Rightarrow> v2_pattern" where
  "catalogue_pattern r = v2_pattern_of (kernel_image r)"

lemma served_patterns:
  assumes inst: "mset (v2_nodes (ACTIVE_SET st)) = mset (map kernel_image (ms_rules rs))" and rs: "match_set_inv rs"
  shows "set (map v2_pattern_of (v2_eligible (ACTIVE_SET st))) = set (map catalogue_pattern (filter fixed_text (ms_rules rs)))"
proof -
  have nodes: "set (v2_nodes (ACTIVE_SET st)) = kernel_image ` set (ms_rules rs)"
    using arg_cong [OF inst, of set_mset] by (simp only: set_mset_mset set_map)
  have "v2_scannable (kernel_image r) \<and> vr_match_len (kernel_image r) \<noteq> 0 \<longleftrightarrow> fixed_text r"
    if "r \<in> set (ms_rules rs)" for r
    using rs that kernel_rule_fixed [of r] kernel_rule_text [of r] node_of_kernel_rule [of r]
    by (auto simp: match_set_inv_def list_all_iff v2_scannable_def v2_node_of_def dest: sym)
  then have "set (v2_eligible (ACTIVE_SET st)) = kernel_image ` {r \<in> set (ms_rules rs). fixed_text r}"
    by (auto simp: v2_eligible_def nodes)
  then show ?thesis by (auto simp: catalogue_pattern_def image_image)
qed

lemma installed_patterns:
  "v2_installed rs version st \<Longrightarrow> match_set_inv rs \<Longrightarrow>
   set (map v2_pattern_of (v2_eligible (ACTIVE_SET st))) = set (map catalogue_pattern (filter fixed_text (ms_rules rs)))"
  by (rule served_patterns) (simp_all add: v2_installed_def)



section \<open>A lost batch\<close>

lemma push_loop_fill:
  "xs \<noteq> [] \<Longrightarrow> length batch + length xs = 64 \<Longrightarrow>
   push_loop net version (xs @ ys) batch ret u =
     (case send_rules net version (batch @ map rule_to_nl xs) ret u of
        Inl stop \<Rightarrow> Inl stop | Inr (ret, u) \<Rightarrow> push_loop net version ys [] ret u)"
proof (induction xs arbitrary: batch)
  case (Cons x xs)
  then show ?case by (cases "xs = []") (auto simp: Let_def)
qed simp

lemma push_loop_rest:
  "length batch + length xs < 64 \<Longrightarrow> push_loop net version xs batch ret u = Inr (batch @ map rule_to_nl xs, ret, u)"
  by (induction xs arbitrary: batch) (auto simp: Let_def)

text \<open>A push of one full batch and a rest that stops where the message of the rest is to be allocated.\<close>

lemma push_batches_stop:
  assumes "length xs = 64" "ys \<noteq> []" "length ys < 64"
    and send: "send_rules net version (map rule_to_nl xs) False u1 = Inr (True, u2)"
    and stop: "send_rules net version (map rule_to_nl ys) True u2 = Inl (ret, u3)"
  shows "push_batches net version (xs @ ys) u1 = Inl (ret, u3)"
proof -
  have "xs \<noteq> []" using assms(1) by auto
  then have "push_loop net version (xs @ ys) [] False u1 = push_loop net version ys [] True u2"
    using push_loop_fill [of xs "[]" net version ys False u1] assms(1) send by simp
  also have "\<dots> = Inr (map rule_to_nl ys, True, u2)" using push_loop_rest [of "[]" ys net version True u2] assms(3) by simp
  finally show ?thesis using assms(2) stop by (simp add: push_batches_def)
qed

text \<open>C17: The push can report a success that did not happen: when the catalogue needs a second batch and the
  message for it cannot be allocated, the function leaves with the result of sending the first batch.  It then returns
  0 without having sent VERSION, and the kernel's active rules are still the old ones.\<close>

theorem v2_push_lost_batch:
  assumes "v2_answering envs disp portid" and "v2_idle (us_world u)"
    and "list_all (\<lambda>q. v2_op_wf (snd q)) qs" and "length qs + 16384 < 2 ^ 32"
    and "kw_v2 (us_world u) = v2_run qs jmx_v2_rules_init" and "rs = load_all ops" and "list_all load_wf ops"
    and "64 < length (ms_rules rs)" and "length (ms_rules rs) < 128"
    and "net = (kernel_net envs disp portid)\<lparr>nt_calloc := \<lambda>n w. (n \<noteq> 12 + 334 * (length (ms_rules rs) - 64), w)\<rparr>"
  shows "\<exists>u'. jmx_nl_push_rules net rs version u = Some (True, u') \<and>
    ACTIVE_SET (kw_v2 (us_world u')) = ACTIVE_SET (kw_v2 (us_world u)) \<and> us_errno u' = Some ENOMEM"
proof -
  define mem where "mem = (\<lambda>n. n \<noteq> 12 + 334 * (length (ms_rules rs) - 64))"
  have net: "net = lossy_net mem envs disp portid" by (simp add: assms(10) lossy_net_def mem_def)
  have portid: "portid \<noteq> 0" using assms(1) by (simp add: v2_answering_def)
  note r = reachable_push [OF assms(3,4,7)]
  have inv: "v2_inv (length qs) (kw_v2 (us_world u))" using r(1) assms(5) by simp
  have total: "ms_total_rules rs = word_of_nat (length (ms_rules rs))" and wf: "list_all match_rule_wf (ms_rules rs)"
    using r(2) assms(6) by (auto simp: match_set_inv_def list_all_iff)
  define xs ys where "xs = take 64 (ms_rules rs)" and "ys = drop 64 (ms_rules rs)"
  have split: "ms_rules rs = xs @ ys" "length xs = 64" "ys \<noteq> []" "length ys < 64" "length ys = length (ms_rules rs) - 64"
    using assms(8,9) by (auto simp: xs_def ys_def)
  have wfx: "list_all match_rule_wf xs" using wf split(1) by simp
  then have wfn: "list_all v2_nl_rule_wf (map rule_to_nl xs)" "length (map rule_to_nl xs) \<le> 64"
    using rule_to_nl_wf split(2) by (auto simp: list_all_iff)
  have small: "0 < length ys" "length ys < 64" using split(3,4) by simp_all
  then have bounds: "334 * length ys \<le> 21042" "334 \<le> 334 * length ys" by linarith+
  have mem_iff: "mem n \<longleftrightarrow> n \<noteq> 12 + 334 * length ys" for n by (simp only: mem_def split(5))
  have "mem 28" "mem (334 * 64)" "mem (12 + 334 * 64)" "mem 21412" unfolding mem_iff using bounds by linarith+
  then have mem: "mem 28" "mem (334 * 64)" "mem (12 + 334 * length (map rule_to_nl xs))" "mem (NLMSG_SPACE (20 + 334 * length (map rule_to_nl xs)))"
    "\<not> mem (12 + 334 * length (map rule_to_nl ys))"
    unfolding length_map split(2) by (simp_all add: NLMSG_SPACE_def NLMSG_LENGTH_def) (simp add: mem_iff)
  define st1 where "st1 = snd (jmx_v2_rules_begin (env_of envs u) portid (kw_v2 (us_world u)))"
  define u1 where "u1 = u\<lparr>us_world := after_msg st1 None (us_world u)\<rparr>"
  have flush: "nl_flush_rules_locked net u = (True, u1)"
    using flush_delivered [where mem = mem, OF assms(1) mem(1)] by (simp add: net u1_def st1_def)
  define st2 where "st2 = v2_add_records (env_of envs u1) portid 0 (map rule_to_nl xs) st1"
  define u2 where "u2 = u1\<lparr>us_world := after_msg st2 None (us_world u1)\<rparr>"
  have send: "send_rules net version (map rule_to_nl xs) False u1 = Inr (True, u2)"
    using batch_delivered [where mem = mem, OF assms(1) wfn mem(3,4), of version False u1] by (simp add: net u2_def st2_def) (simp add: u1_def)
  have lost: "send_rules net version (map rule_to_nl ys) True u2 = Inl (True, set_errno ENOMEM u2)"
    using mem(5) by (simp add: send_rules_def v3_calloc_def net lossy_net_def)
  have batches: "push_batches net version (ms_rules rs) u1 = Inl (True, set_errno ENOMEM u2)"
    using push_batches_stop [OF split(2) split(3,4) send lost] by (simp only: split(1))
  have "v3_calloc net (334 * 64) u1 = (True, u1)" using mem(2) by (simp add: v3_calloc_def net lossy_net_def)
  moreover have "ms_total_rules rs \<noteq> 0" using total assms(8,9) by (auto simp: word_unat_eq_iff unat_of_nat)
  ultimately have push: "jmx_nl_push_rules net rs version u = Some (True, set_errno ENOMEM u2)"
    using flush batches by (simp add: jmx_nl_push_rules_def)
  have "v2_inv (length qs) st1" "v2_tracked portid [] st1" "ACTIVE_SET st1 = ACTIVE_SET (kw_v2 (us_world u))"
    using v2_begin_inv [OF inv] begin_tracked [OF inv portid] by (simp_all add: st1_def)
  then have "ACTIVE_SET st2 = ACTIVE_SET (kw_v2 (us_world u))"
    using add_records_tracked [OF _ portid _ _ wfx, of "length qs" st1 "[]"] split(2) by (simp add: st2_def)
  then show ?thesis using push by (simp add: set_errno_def u2_def)
qed

theorem v2_push_lost_batch_witness:
  "\<exists>net u'. jmx_nl_push_rules net (load_all (copies 65 get_match)) 9 v2_demo_user = Some (True, u') \<and>
     jmx_v2_rules_get_status (kw_v2 (us_world u')) = (0, 0)"
proof -
  let ?rs = "load_all (copies 65 get_match)"
  let ?net = "(kernel_net (\<lambda>_. v2_demo_env) v2_demo_dispatch 4)\<lparr>nt_calloc := \<lambda>n w. (n \<noteq> 12 + 334 * (length (ms_rules ?rs) - 64), w)\<rparr>"
  have "length (ms_rules ?rs) = 65" using arg_cong [OF copies_rules [OF get_match_ok, of 65], of size] by simp
  then obtain u' where "jmx_nl_push_rules ?net ?rs 9 v2_demo_user = Some (True, u')"
      "ACTIVE_SET (kw_v2 (us_world u')) = ACTIVE_SET (kw_v2 (us_world v2_demo_user))"
    using v2_push_lost_batch [OF v2_demo_answering v2_demo_user_simps(1) _ _ v2_demo_user_simps(2) refl
        copies_wf [OF get_match_ok(1)] _ _ refl, of 65 9] by auto
  moreover have "jmx_v2_rules_get_status (kw_v2 (us_world v2_demo_user)) = (0, 0)"
    by (simp add: jmx_v2_rules_get_status_def v2_demo_user_def jmx_v2_rules_init_def ACTIVE_SET_def v2_set_empty_def)
  ultimately have "jmx_v2_rules_get_status (kw_v2 (us_world u')) = (0, 0)" by (simp add: jmx_v2_rules_get_status_def)
  then show ?thesis using \<open>jmx_nl_push_rules ?net ?rs 9 v2_demo_user = Some (True, u')\<close> by blast
qed

end
