(* ===== verification/Frames.thy ===== *)
theory Frames
  imports V3Install V2Install
begin

text \<open>
  What a push does not touch.  A property of the operating system that the calls of a push keep, whatever they answer,
  holds after the push; so on the network to the kernel module a v3 push leaves the v2 rules alone, and a v2 push
  the v3 sets.
\<close>

unbundle bit_operations_syntax

section \<open>Computations that keep a property of the world\<close>

definition keeps :: "('w \<Rightarrow> bool) \<Rightarrow> ('a \<times> 'w user) option \<Rightarrow> bool" where
  "keeps K r \<longleftrightarrow> (\<forall>x u'. r = Some (x, u') \<longrightarrow> K (us_world u'))"

lemma keeps_Some [simp]: "keeps K (Some (x, u)) \<longleftrightarrow> K (us_world u)"
  by (simp add: keeps_def)

lemma keeps_bind:
  "keeps K r \<Longrightarrow> (\<And>x u'. r = Some (x, u') \<Longrightarrow> K (us_world u') \<Longrightarrow> keeps K (f (x, u'))) \<Longrightarrow> keeps K (Option.bind r f)"
  by (cases r) (auto simp: keeps_def)

lemma set_errno_world [simp]: "us_world (set_errno e u) = us_world u"
  by (simp add: set_errno_def)

locale kept_world =
  fixes net :: "'w net" and K :: "'w \<Rightarrow> bool"
  assumes calloc_keeps: "K w \<Longrightarrow> K (snd (nt_calloc net n w))"
    and clock_keeps: "K w \<Longrightarrow> K (snd (nt_clock net w))"
    and poll_keeps: "K w \<Longrightarrow> K (snd (nt_poll net t w))"
    and recv_keeps: "K w \<Longrightarrow> K (snd (nt_recvmsg net w))"
begin

lemma keeps_v3_calloc: "K (us_world u) \<Longrightarrow> v3_calloc net n u = (ok, u') \<Longrightarrow> K (us_world u')"
  using calloc_keeps [of "us_world u" n] by (auto simp: v3_calloc_def split: prod.splits bool.splits)

lemma keeps_monotonic: "K (us_world u) \<Longrightarrow> v3_monotonic_ms net u = (ms, u') \<Longrightarrow> K (us_world u')"
  using clock_keeps [of "us_world u"] by (auto simp: v3_monotonic_ms_def split: prod.splits sum.splits)

lemma keeps_wait_round:
  assumes "K (us_world u)" and round: "wait_round net action gen seq deadline u = (r, u')"
  shows "K (us_world u')"
proof -
  obtain now u1 where clock: "v3_monotonic_ms net u = (now, u1)" by fastforce
  obtain p w where poll: "nt_poll net (deadline - now) (us_world u1) = (p, w)" by fastforce
  obtain d w' where recv: "nt_recvmsg net w = (d, w')" by fastforce
  have "K (us_world u1)" by (rule keeps_monotonic [OF assms(1) clock])
  moreover from this have "K w" using poll_keeps [of "us_world u1" "deadline - now"] poll by simp
  moreover from this have "K w'" using recv_keeps [of w] recv by simp
  ultimately show ?thesis
    using round clock poll recv
    by (auto simp: wait_round_def Let_def split: if_splits poll_result.splits sum.splits option.splits)
qed

lemma keeps_v2_wait_round:
  assumes "K (us_world u)" and round: "v2_wait_round net seq version expected deadline u = (r, u')"
  shows "K (us_world u')"
proof -
  obtain now u1 where clock: "v3_monotonic_ms net u = (now, u1)" by fastforce
  obtain p w where poll: "nt_poll net (deadline - now) (us_world u1) = (p, w)" by fastforce
  obtain d w' where recv: "nt_recvmsg net w = (d, w')" by fastforce
  have "K (us_world u1)" by (rule keeps_monotonic [OF assms(1) clock])
  moreover from this have "K w" using poll_keeps [of "us_world u1" "deadline - now"] poll by simp
  moreover from this have "K w'" using recv_keeps [of w] recv by simp
  ultimately show ?thesis
    using round clock poll recv
    by (auto simp: v2_wait_round_def Let_def split: if_splits poll_result.splits sum.splits option.splits prod.splits)
qed

lemma wait_loop_world:
  "v3_wait_loop n action gen seq deadline u = Some y \<Longrightarrow> n = net \<longrightarrow> K (us_world u) \<longrightarrow> K (us_world (snd y))"
proof (erule v3_wait_loop.raw_induct [rotated])
  fix loop n action gen seq deadline u y
  assume IH: "\<And>n action gen seq deadline u y. loop n action gen seq deadline u = Some y \<Longrightarrow>
      n = net \<longrightarrow> K (us_world u) \<longrightarrow> K (us_world (snd y))"
    and body: "(case wait_round n action gen seq deadline u of (None, u) \<Rightarrow> loop n action gen seq deadline u
      | (Some ack, u) \<Rightarrow> Some (ack, u)) = Some y"
  show "n = net \<longrightarrow> K (us_world u) \<longrightarrow> K (us_world (snd y))"
    using body keeps_wait_round [of u action gen seq deadline] by (auto split: prod.splits option.splits dest!: IH)
qed

lemma v2_wait_loop_world:
  "v2_wait_loop n seq version expected deadline u = Some y \<Longrightarrow> n = net \<longrightarrow> K (us_world u) \<longrightarrow> K (us_world (snd y))"
proof (erule v2_wait_loop.raw_induct [rotated])
  fix loop n seq version expected deadline u y
  assume IH: "\<And>n seq version expected deadline u y. loop n seq version expected deadline u = Some y \<Longrightarrow>
      n = net \<longrightarrow> K (us_world u) \<longrightarrow> K (us_world (snd y))"
    and body: "(case v2_wait_round n seq version expected deadline u of (None, u) \<Rightarrow> loop n seq version expected deadline u
      | (Some ack, u) \<Rightarrow> Some (ack, u)) = Some y"
  show "n = net \<longrightarrow> K (us_world u) \<longrightarrow> K (us_world (snd y))"
    using body keeps_v2_wait_round [of u seq version expected deadline] by (auto split: prod.splits option.splits dest!: IH)
qed

lemma keeps_wait_status:
  assumes "K (us_world u)"
  shows "keeps K (v3_wait_status_locked net action gen seq u)"
proof -
  obtain ms u1 where clock: "v3_monotonic_ms net u = (ms, u1)" by fastforce
  then have "K (us_world u1)" using keeps_monotonic assms by blast
  then show ?thesis using clock wait_loop_world by (fastforce simp: v3_wait_status_locked_def keeps_def)
qed

lemma keeps_v2_wait_commit:
  assumes "K (us_world u)"
  shows "keeps K (v2_wait_commit_ack_locked net seq version expected u)"
proof -
  obtain ms u1 where clock: "v3_monotonic_ms net u = (ms, u1)" by fastforce
  then have "K (us_world u1)" using keeps_monotonic assms by blast
  then show ?thesis using clock v2_wait_loop_world by (fastforce simp: v2_wait_commit_ack_locked_def keeps_def)
qed

end

section \<open>The v3 push\<close>

locale kept_by_v3 = kept_world +
  assumes v3_send_keeps: "K w \<Longrightarrow> action_is_v3 (h_action h) \<Longrightarrow>
    K (snd (nt_sendmsg net (request_frame seq (enc_hdr h @ payload)) w))"
begin

lemma keeps_request:
  assumes k: "K (us_world u)" and v3: "action_is_v3 action"
  shows "keeps K (v3_send_request_locked net action gen flags rsize n payload u)"
proof -
  let ?msg = "enc_hdr (request_header action gen flags rsize n payload) @ payload"
  have send: "K (us_world u')" if "v3_nl_send_locked net ?msg seq v = (ok, u')" "K (us_world v)" for seq v ok u'
  proof -
    have "K (snd (nt_sendmsg net (request_frame seq ?msg) w))" if "K w" for w
      using v3_send_keeps [OF that, of "request_header action gen flags rsize n payload"] v3 by (simp add: request_header_def)
    then show ?thesis using that keeps_v3_calloc
      by (fastforce simp: v3_nl_send_locked_def split: option.splits if_splits prod.splits bool.splits sum.splits)
  qed
  have seq: "K (us_world u')" if "v3_next_seq_locked v = (seq, u')" "K (us_world v)" for v seq u'
    using that by (auto simp: v3_next_seq_locked_def Let_def)
  obtain len where len: "v3_size_add 32 (length payload) = Some len \<or> v3_size_add 32 (length payload) = None" by blast
  obtain ok1 u1 where calloc: "v3_calloc net len u = (ok1, u1)" by fastforce
  obtain sq u2 where next_seq: "v3_next_seq_locked u1 = (sq, u2)" by fastforce
  obtain ok3 u3 where sent: "v3_nl_send_locked net ?msg sq u2 = (ok3, u3)" by fastforce
  have u1: "K (us_world u1)" by (rule keeps_v3_calloc [OF k calloc])
  have u3: "K (us_world u3)" by (rule send [OF sent seq [OF next_seq u1]])
  show ?thesis
    using len k calloc u1 next_seq sent u3 keeps_wait_status [OF u3, of action gen sq]
    by (cases ok1; cases ok3) (auto simp: v3_send_request_locked_def Let_def)
qed

lemma keeps_batch_loop:
  assumes "\<And>ws v. K (us_world v) \<Longrightarrow> keeps K (send ws v)"
  shows "K (us_world u) \<Longrightarrow> keeps K (batch_loop send conv srcs batch u)"
proof (induction srcs arbitrary: batch u)
  case (Cons src srcs)
  then show ?case using assms by (auto split: sum.split intro!: keeps_bind)
qed (use assms in simp)

lemma keeps_batch: "K (us_world u) \<Longrightarrow> action_is_v3 action \<Longrightarrow> keeps K (send_batch net action gen sz enc batch u)"
  by (auto simp: send_batch_def Let_def split: option.split intro!: keeps_bind keeps_request)

lemma keeps_batches: "K (us_world u) \<Longrightarrow> keeps K (send_all_batches net rs gen u)"
  by (auto simp: send_all_batches_def v3_send_rule_batches_locked_def v3_send_step_batches_locked_def
      v3_send_port_batches_locked_def action_is_v3_def intro!: keeps_bind keeps_batch_loop keeps_batch)

lemma keeps_abort:
  "K (us_world u) \<Longrightarrow> keeps K (push_abort_preserve net gen u)" "K (us_world u) \<Longrightarrow> keeps K (push_abort net gen u)"
  by (auto simp: push_abort_def push_abort_preserve_def Let_def action_is_v3_def intro!: keeps_bind keeps_request)

lemma keeps_commit: "K (us_world u) \<Longrightarrow> keeps K (push_commit net gen mode b u)"
  by (auto simp: push_commit_def v3_reconcile_status_locked_def Let_def action_is_v3_def
      intro!: keeps_bind keeps_request keeps_abort)

lemma keeps_push: "K (us_world u) \<Longrightarrow> keeps K (jmx_nl_push_chain_rules net rs gen mode u)"
  by (auto simp: jmx_nl_push_chain_rules_def Let_def action_is_v3_def split: sum.split prod.split
      intro!: keeps_bind keeps_request keeps_abort keeps_batches keeps_commit)

lemma keeps_probe: "K (us_world u) \<Longrightarrow> keeps K (jmx_nl_v3_probe net u)"
  by (auto simp: jmx_nl_v3_probe_def v3_ack_to_errno_def action_is_v3_def intro!: keeps_bind keeps_request)

end

section \<open>The v2 push\<close>

abbreviation (input) v2_action :: "u32 \<Rightarrow> bool" where
  "v2_action action \<equiv> action = JMX_NL_ACT_RULE_FLUSH \<or> action = JMX_NL_ACT_RULE_ADD_BATCH \<or> action = JMX_NL_ACT_RULE_VERSION"

locale kept_by_v2 = kept_world +
  assumes v2_send_keeps: "K w \<Longrightarrow> v2_action action \<Longrightarrow> K (snd (nt_sendmsg net (v2_frame seq (le32 action @ rest)) w))"
begin

lemma keeps_send_seq:
  assumes "K (us_world u)" and action: "v2_action action" and send: "nl_send_seq net (le32 action @ rest) seq u = (ok, u')"
  shows "K (us_world u')"
proof -
  obtain ok1 u1 where calloc: "v3_calloc net (NLMSG_SPACE (length (le32 action @ rest) + 8)) u = (ok1, u1)" by fastforce
  obtain r w where sent: "nt_sendmsg net (v2_frame seq (le32 action @ rest)) (us_world u1) = (r, w)" by fastforce
  have "K (us_world u1)" by (rule keeps_v3_calloc [OF assms(1) calloc])
  moreover from this have "K w" using v2_send_keeps [of "us_world u1" action seq rest] action sent by simp
  ultimately show ?thesis
    using send calloc sent assms(1) by (auto simp: nl_send_seq_def Let_def split: if_splits bool.splits sum.splits)
qed

lemma keeps_send_rules:
  assumes "K (us_world u)" and send: "send_rules net version batch ret u = r"
  shows "K (us_world (case r of Inl (ret, v) \<Rightarrow> v | Inr (ret, v) \<Rightarrow> v))"
proof -
  obtain ok1 u1 where calloc: "v3_calloc net (12 + 334 * length batch) u = (ok1, u1)" by fastforce
  obtain ok2 u2 where sent: "nl_send net (batch_msg version batch) u1 = (ok2, u2)" by fastforce
  have u1: "K (us_world u1)" by (rule keeps_v3_calloc [OF assms(1) calloc])
  have "K (us_world u2)"
    by (rule keeps_send_seq [OF u1 _ sent [unfolded nl_send_def batch_msg_def]]) simp
  then show ?thesis using send calloc sent u1 by (auto simp: send_rules_def split: bool.splits)
qed

lemma keeps_push_loop:
  "K (us_world u) \<Longrightarrow> push_loop net version rules batch ret u = r \<Longrightarrow>
   K (us_world (case r of Inl (ret, v) \<Rightarrow> v | Inr (batch, ret, v) \<Rightarrow> v))"
proof (induction rules arbitrary: batch ret u)
  case (Cons x rules)
  show ?case
  proof (cases "length batch = 63")
    case True
    show ?thesis
      using Cons.prems True keeps_send_rules [OF Cons.prems(1) refl, of version "batch @ [rule_to_nl x]" ret] Cons.IH
      by (auto simp: Let_def split: sum.splits)
  qed (use Cons in \<open>auto simp: Let_def\<close>)
qed auto

lemma keeps_push_batches:
  assumes "K (us_world u)"
  shows "K (us_world (case push_batches net version rules u of Inl (ret, v) \<Rightarrow> v | Inr (ret, v) \<Rightarrow> v))"
proof (cases "push_loop net version rules [] False u")
  case (Inl stop)
  then show ?thesis using keeps_push_loop [OF assms Inl] by (cases stop) (simp add: push_batches_def)
next
  case (Inr rest)
  obtain batch ret v where rest: "rest = (batch, ret, v)" by (metis prod_cases3)
  then have "K (us_world v)" using keeps_push_loop [OF assms Inr] by simp
  then show ?thesis using Inr rest keeps_send_rules [OF _ refl, of v version batch ret] by (simp add: push_batches_def)
qed

lemma keeps_v2_commit:
  assumes "K (us_world u)"
  shows "keeps K (nl_commit_version_locked net version expected u)"
proof -
  obtain sq u1 where seq: "v2_next_seq_locked u = (sq, u1)" by fastforce
  obtain ok u2 where sent: "nl_send_seq net (version_msg version) sq u1 = (ok, u2)" by fastforce
  have u1: "K (us_world u1)" using seq assms by (auto simp: v2_next_seq_locked_def Let_def)
  have "K (us_world u2)" by (rule keeps_send_seq [OF u1 _ sent [unfolded version_msg_def]]) simp
  then show ?thesis
    using seq sent by (auto simp: nl_commit_version_locked_def split: bool.split intro!: keeps_bind keeps_v2_wait_commit)
qed

lemma keeps_v2_push:
  assumes "K (us_world u)"
  shows "keeps K (jmx_nl_push_rules net rs version u)"
proof -
  obtain ok1 u1 where flush: "nl_flush_rules_locked net u = (ok1, u1)" by fastforce
  obtain ok2 u2 where calloc: "v3_calloc net (334 * 64) u1 = (ok2, u2)" by fastforce
  have "nl_send_seq net (le32 JMX_NL_ACT_RULE_FLUSH @ []) 0 u = (ok1, u1)"
    using flush by (simp add: nl_flush_rules_locked_def nl_send_def)
  then have u1: "K (us_world u1)" by (rule keeps_send_seq [OF assms, rotated]) simp
  have u2: "K (us_world u2)" by (rule keeps_v3_calloc [OF u1 calloc])
  show ?thesis
    using flush u1 calloc u2 keeps_push_batches [OF u2, of version "ms_rules rs"]
    by (auto simp: jmx_nl_push_rules_def Let_def split: bool.split sum.split prod.split intro!: keeps_v2_commit)
qed

end

section \<open>The network to the module\<close>

lemma get_le32_take: "4 \<le> n \<Longrightarrow> get_le32 (take n bs) 0 = get_le32 bs 0"
  by (simp add: get_le32_def)

lemma frame_data:
  "take (unat (get_le32 (enc_nlh h @ af_frame data) 20)) (drop 24 (enc_nlh h @ af_frame data)) =
   take (unat (word_of_nat (length data) :: u32)) data"
  by simp

text \<open>A message changes the state of the handler of its action only.\<close>

lemma user_msg_other:
  assumes "jmx_user_msg_handle env disp data portid seq (st, v2) = (reply, st', v2')"
  shows "length data < 4 \<or> action_is_v3 (get_le32 data 0) \<Longrightarrow> v2' = v2"
    and "length data < 4 \<or> \<not> action_is_v3 (get_le32 data 0) \<Longrightarrow> st' = st"
proof -
  obtain h r s1 v1 where v2: "jmx_v2_nl_handle env (dp_others disp) data portid seq (st, v2) = (h, r, s1, v1)" by (metis prod_cases4)
  obtain h3 r3 s3 where v3: "jmx_v3_nl_handle env data portid seq True st = (h3, r3, s3)" by (metis prod_cases3)
  have a: "action_is_v3 (get_le32 data 0) \<Longrightarrow> \<not> length data < 4 \<Longrightarrow> h3 \<and> get_le32 data 0 \<noteq> JMX_NL_ACT_RULE_VERSION"
    using v3 v3_actions [of "get_le32 data 0"] by (auto simp: jmx_v3_nl_handle_def Let_def split: prod.splits if_splits)
  have b: "\<not> action_is_v3 (get_le32 data 0) \<Longrightarrow> \<not> h3 \<and> s3 = st"
    using v3 by (auto simp: jmx_v3_nl_handle_def split: if_splits)
  show "length data < 4 \<or> action_is_v3 (get_le32 data 0) \<Longrightarrow> v2' = v2"
    "length data < 4 \<or> \<not> action_is_v3 (get_le32 data 0) \<Longrightarrow> st' = st"
    using assms v2 v3 a b
    by (auto simp: jmx_user_msg_handle_def jmx_v2_nl_handle_def Let_def split: if_splits bool.splits prod.splits)
qed

lemma rcv_other:
  assumes rcv: "jmx_netlink_msg_rcv env disp c portid (enc_nlh h @ af_frame data) (rt, st, v2) = (reply, rt', st', v2')"
  shows "action_is_v3 (get_le32 data 0) \<Longrightarrow> v2' = v2" "\<not> action_is_v3 (get_le32 data 0) \<Longrightarrow> st' = st"
proof -
  define udata where "udata = take (unat (word_of_nat (length data) :: u32)) data"
  have same: "length udata < 4 \<or> get_le32 udata 0 = get_le32 data 0"
    by (cases "4 \<le> unat (word_of_nat (length data) :: u32)") (auto simp: udata_def get_le32_take)
  obtain handled rt1 where dir: "jmx_direction_nl_handle env udata rt = (handled, rt1)" by fastforce
  obtain reply1 st1 v1 where user: "jmx_user_msg_handle env disp udata portid (nlmsg_seq h) (st, v2) = (reply1, st1, v1)"
    by (metis prod_cases3)
  have "(st' = st \<and> v2' = v2) \<or> (st' = st1 \<and> v2' = v1)"
    using rcv dir user unfolding udata_def
    by (auto simp: jmx_netlink_msg_rcv_def Let_def split: if_splits bool.splits)
  then show "action_is_v3 (get_le32 data 0) \<Longrightarrow> v2' = v2" "\<not> action_is_v3 (get_le32 data 0) \<Longrightarrow> st' = st"
    using user_msg_other [OF user] same by auto
qed

lemma kernel_send_other:
  "action_is_v3 (get_le32 data 0) \<Longrightarrow> kw_v2 (snd (nt_sendmsg (kernel_net envs disp portid) (enc_nlh h @ af_frame data) w)) = kw_v2 w"
  "\<not> action_is_v3 (get_le32 data 0) \<Longrightarrow> kw_state (snd (nt_sendmsg (kernel_net envs disp portid) (enc_nlh h @ af_frame data) w)) = kw_state w"
  using rcv_other [of "envs (kw_handled w)" disp True portid h data "kw_runtime w" "kw_state w" "kw_v2 w"]
  by (auto simp: kernel_net_def split: prod.splits)

lemma kernel_world_kept:
  "kw_v2 (snd (nt_calloc (kernel_net envs disp portid) n w)) = kw_v2 w" "kw_state (snd (nt_calloc (kernel_net envs disp portid) n w)) = kw_state w"
  "kw_v2 (snd (nt_clock (kernel_net envs disp portid) w)) = kw_v2 w" "kw_state (snd (nt_clock (kernel_net envs disp portid) w)) = kw_state w"
  "kw_v2 (snd (nt_poll (kernel_net envs disp portid) t w)) = kw_v2 w" "kw_state (snd (nt_poll (kernel_net envs disp portid) t w)) = kw_state w"
  "kw_v2 (snd (nt_recvmsg (kernel_net envs disp portid) w)) = kw_v2 w" "kw_state (snd (nt_recvmsg (kernel_net envs disp portid) w)) = kw_state w"
  by (simp_all add: kernel_net_def split: list.split)

interpretation v2_world: kept_by_v3 "kernel_net envs disp portid" "\<lambda>w. kw_v2 w = v2" for envs disp portid v2
proof unfold_locales
  fix w :: kworld and h :: v3_hdr and seq payload
  assume "kw_v2 w = v2" and "action_is_v3 (h_action h)"
  then show "kw_v2 (snd (nt_sendmsg (kernel_net envs disp portid) (request_frame seq (enc_hdr h @ payload)) w)) = v2"
    by (simp add: request_frame_def kernel_send_other(1))
qed (simp_all add: kernel_world_kept)

interpretation v3_world: kept_by_v2 "kernel_net envs disp portid" "\<lambda>w. kw_state w = st" for envs disp portid st
proof unfold_locales
  fix w :: kworld and action seq rest
  assume "kw_state w = st" and "v2_action action"
  then show "kw_state (snd (nt_sendmsg (kernel_net envs disp portid) (v2_frame seq (le32 action @ rest)) w)) = st"
    by (auto simp: v2_frame_def wire_simps action_is_v3_def intro!: kernel_send_other(2))
qed (simp_all add: kernel_world_kept)

end
