(* ===== verification/ReloadProofs.thy ===== *)
theory ReloadProofs
  imports Reload SignatureAccept Frames
begin

text \<open>
  A reload is all or nothing over the three things it changes: the rule sets of the control plane, the v2 rules and the
  v3 set of the kernel module, with the regex engine following the v2 rules.  The two pushes are those of
  \<open>V2Delivery\<close> and \<open>V3Install\<close>; \<open>Frames\<close> says that neither touches what the other one installs.
\<close>

section \<open>The host\<close>

text \<open>The control plane talks to the module, which answers in time; SQLite delivers ports in the order that is asked for.\<close>

definition serving :: "kworld host \<Rightarrow> (nat \<Rightarrow> kernel_env) \<Rightarrow> dispatch \<Rightarrow> u32 \<Rightarrow> bool" where
  "serving host envs disp portid \<longleftrightarrow> ho_net host = kernel_net envs disp portid \<and> answering envs disp portid \<and>
     v2_answering envs disp portid \<and> v2_prompt envs \<and> (\<forall>path db. ho_open host path = Some db \<longrightarrow> ports_in_order db)"

abbreviation world_of :: "kworld runtime \<Rightarrow> kworld" where
  "world_of rt \<equiv> us_world (rt_user rt)"

text \<open>The module between two reloads: no message is under way, and no other client loads v2 rules.\<close>

definition ready :: "nat \<Rightarrow> u32 \<Rightarrow> kworld \<Rightarrow> bool" where
  "ready n portid w \<longleftrightarrow> kernel_idle w \<and> v2_inv n (kw_v2 w) \<and> (v2_staging_owner (kw_v2 w) = 0 \<or> v2_staging_owner (kw_v2 w) = portid)"

definition v2_serves :: "match_set \<Rightarrow> kworld \<Rightarrow> bool" where
  "v2_serves rules w \<longleftrightarrow> mset (v2_nodes (ACTIVE_SET (kw_v2 w))) = mset (map kernel_image (ms_rules rules))"

abbreviation v3_set :: "kworld \<Rightarrow> rule_set option" where
  "v3_set w \<equiv> v3_active (kw_state w)"

text \<open>The records that the control plane works with.\<close>

definition catalogue :: "'w runtime \<Rightarrow> match_set \<times> bool \<times> chain_db \<times> bool" where
  "catalogue rt = (rt_rules rt, rt_rules_loaded rt, rt_chain rt, rt_chain_loaded rt)"

lemma idle_iff: "kernel_idle w \<longleftrightarrow> engine_ok (kw_state w) \<and> v2_idle w"
  by (auto simp: kernel_idle_def v2_idle_def)

section \<open>The parts\<close>

lemma open_netlink_fields:
  "catalogue (open_netlink host rt) = catalogue rt" "rt_regex (open_netlink host rt) = rt_regex rt"
  "rt_user (open_netlink host rt) = rt_user rt" "rt_probe_state (open_netlink host rt) = rt_probe_state rt"
  "rt_next_generation (open_netlink host rt) = rt_next_generation rt"
  by (simp_all add: open_netlink_def catalogue_def)

lemma regex_fields:
  assumes "jmx_regex_start_snapshot host rules rt = (ok, rt')"
  shows "catalogue rt' = catalogue rt" "rt_user rt' = rt_user rt" "rt_fd rt' = rt_fd rt" "rt_probe_state rt' = rt_probe_state rt"
    "rt_next_generation rt' = rt_next_generation rt" "ok \<Longrightarrow> rt_regex rt' = Some rules"
  using assms by (auto simp: jmx_regex_start_snapshot_def catalogue_def split: if_splits)

lemma v2_snapshot:
  assumes host: "serving host envs disp portid" and ready: "ready n portid (world_of rt)"
    and rules: "match_set_inv rules" and room: "n + length (ms_rules rules) < 2 ^ 32"
  shows "\<exists>ok rt'. jmx_v2_push_snapshot host rules rt = Some (ok, rt') \<and>
    catalogue rt' = catalogue rt \<and> rt_probe_state rt' = rt_probe_state rt \<and> rt_next_generation rt' = rt_next_generation rt \<and>
    rt_fd rt' = ok \<and> (rt_fd rt \<longrightarrow> ok) \<and>
    kw_state (world_of rt') = kw_state (world_of rt) \<and> ready (n + length (ms_rules rules)) portid (world_of rt') \<and>
    (if ok then v2_serves rules (world_of rt') else rt_user rt' = rt_user rt)"
proof (cases "rt_fd (open_netlink host rt)")
  case False
  then have "jmx_v2_push_snapshot host rules rt = Some (False, rt\<lparr>rt_fd := False\<rparr>)" "\<not> rt_fd rt"
    by (auto simp: jmx_v2_push_snapshot_def open_netlink_def Let_def split: if_splits)
  then show ?thesis using ready v2_inv_mono by (intro exI [of _ False] exI [of _ "rt\<lparr>rt_fd := False\<rparr>"]) (auto simp: ready_def catalogue_def)
next
  case True
  define version where "version = (if rt_version rt \<noteq> 0 then rt_version rt else 1)"
  have opened: "open_netlink host rt = rt\<lparr>rt_fd := True\<rparr>" using True by (auto simp: open_netlink_def split: if_splits)
  have net: "ho_net host = kernel_net envs disp portid" "v2_answering envs disp portid" "v2_prompt envs"
    using host by (simp_all add: serving_def)
  have w: "v2_idle (world_of rt)" "v2_inv n (kw_v2 (world_of rt))"
    "v2_staging_owner (kw_v2 (world_of rt)) = 0 \<or> v2_staging_owner (kw_v2 (world_of rt)) = portid \<or>
       \<not> v2_alive (env_of envs (rt_user rt)) (kw_v2 (world_of rt))"
    using ready by (auto simp: ready_def idle_iff)
  obtain u where push: "jmx_nl_push_rules (kernel_net envs disp portid) rules version (rt_user rt) = Some (True, u)"
      "v2_installed rules version (kw_v2 (us_world u))"
    using push_in_time [OF net(2) w(1,2) rules room net(3) w(3)] by blast
  have kernel: "v2_inv (n + length (ms_rules rules)) (kw_v2 (us_world u))" "v2_idle (us_world u)" "v2_staging_owner (kw_v2 (us_world u)) = 0"
    using push_kernel [OF net(2) w(1,2) rules room, of version] push(1) by auto
  have state: "kw_state (us_world u) = kw_state (world_of rt)"
    using v3_world.keeps_v2_push [of "rt_user rt" "kw_state (world_of rt)" envs disp portid rules version] push(1) by (auto simp: keeps_def)
  define rt' where "rt' = rt\<lparr>rt_fd := True, rt_user := u, rt_version := if version = U32_MAX then 1 else version + 1\<rparr>"
  have "jmx_v2_push_snapshot host rules rt = Some (True, rt')"
    using push(1) opened net(1) by (cases "rt_version rt = 0") (auto simp: jmx_v2_push_snapshot_def Let_def rt'_def version_def)
  moreover have "ready (n + length (ms_rules rules)) portid (world_of rt')" "v2_serves rules (world_of rt')"
    using kernel state push(2) ready by (simp_all add: rt'_def ready_def idle_iff v2_serves_def v2_installed_def)
  ultimately show ?thesis using state by (intro exI [of _ True] exI [of _ rt']) (simp add: rt'_def catalogue_def)
qed

lemma chain_pushed:
  assumes host: "serving host envs disp portid" and ready: "ready n portid (world_of rt)" and shape: "chain_wf (pushed chain)"
  shows "\<exists>ok rt'. push_chain host mode chain rt = Some (ok, rt') \<and>
    rt_fd rt' = rt_fd rt \<and> rt_regex rt' = rt_regex rt \<and> rt_probe_state rt' = rt_probe_state rt \<and>
    kw_v2 (world_of rt') = kw_v2 (world_of rt) \<and> ready n portid (world_of rt') \<and>
    (if ok then catalogue rt' = (rt_rules rt, rt_rules_loaded rt, chain, True) \<and>
         (\<exists>gen a. v3_set (world_of rt') = Some a \<and> installed (pushed chain) gen mode a)
     else catalogue rt' = catalogue rt \<and> v3_set (world_of rt') = v3_set (world_of rt))"
proof -
  obtain gen rt1 where reserve: "jmx_v3_reserve_generation rt = (gen, rt1)" by fastforce
  then have rt1: "rt1 = rt\<lparr>rt_next_generation := rt_next_generation rt1\<rparr>" "rt_user rt1 = rt_user rt"
    by (auto simp: jmx_v3_reserve_generation_def Let_def)
  have net: "ho_net host = kernel_net envs disp portid" "answering envs disp portid" using host by (simp_all add: serving_def)
  have idle: "kernel_idle (us_world (rt_user rt))" using ready by (simp add: ready_def)
  obtain ok u where push: "jmx_nl_push_chain_rules (kernel_net envs disp portid) (pushed chain) gen mode (rt_user rt) = Some (ok, u)"
      and u: "kernel_idle (us_world u)" "if ok then \<exists>a. v3_set (us_world u) = Some a \<and> installed (pushed chain) gen mode a
        else v3_set (us_world u) = v3_set (world_of rt)"
    using push_result [OF net(2) idle shape, of gen mode] by (elim exE conjE) (rule that, assumption+, auto split: if_splits)
  have v2: "kw_v2 (us_world u) = kw_v2 (world_of rt)"
    using v2_world.keeps_push [of "rt_user rt" "kw_v2 (world_of rt)" envs disp portid "pushed chain" gen mode] push by (auto simp: keeps_def)
  define rt' where "rt' = (if ok
    then rt1\<lparr>rt_user := u, rt_chain := chain, rt_chain_loaded := True, rt_kernel_status := us_status u\<rparr> else rt1\<lparr>rt_user := u\<rparr>)"
  have "push_chain host mode chain rt = Some (ok, rt')"
    using push reserve net(1) rt1(2) by (simp add: push_chain_def rt'_def)
  moreover have "ready n portid (us_world u)" using ready u(1) v2 by (simp add: ready_def)
  moreover have "catalogue rt1 = catalogue rt" "rt_fd rt1 = rt_fd rt" "rt_regex rt1 = rt_regex rt"
    "rt_probe_state rt1 = rt_probe_state rt" by (subst rt1(1), simp add: catalogue_def)+
  ultimately show ?thesis using u(2) v2 by (intro exI [of _ ok] exI [of _ rt']) (auto simp: rt'_def catalogue_def split: if_splits)
qed

lemma loaded_chain_wf: "chain_loaded chain \<Longrightarrow> chain_wf (pushed chain)"
  by (auto simp: chain_loaded_def chain_wf_def list_all_iff step_loaded_def step_read_def chain_set.defs)

lemma serve_capability: "serve env portid JMX_NL_ACT_CAPABILITY_V3 0 0 0 0 [] st = ((None, JMX_V3_REASON_NONE, 0), st)"
  by (simp add: serve_def Let_def is_control_def action_is_batch_def control_request_def)

text \<open>The probe reads the module's capabilities; it fails only when the socket cannot be opened.\<close>

lemma probed:
  assumes host: "serving host envs disp portid" and ready: "ready n portid (world_of rt)"
  shows "\<exists>rt'. jmx_v3_probe_if_needed host rt = Some rt' \<and>
    catalogue rt' = catalogue rt \<and> (rt_fd rt' \<longrightarrow> 0 < rt_probe_state rt') \<and> (0 < rt_probe_state rt' \<and> rt_probe_state rt \<le> 0 \<longrightarrow> rt_fd rt') \<and>
    kw_v2 (world_of rt') = kw_v2 (world_of rt) \<and> v3_set (world_of rt') = v3_set (world_of rt) \<and> ready n portid (world_of rt')"
proof -
  note opened = open_netlink_fields [of host rt]
  show ?thesis
  proof (cases "0 < rt_probe_state rt \<or> \<not> rt_fd (open_netlink host rt)")
    case True
    then have "jmx_v3_probe_if_needed host rt = Some (if 0 < rt_probe_state rt then rt else open_netlink host rt)"
      by (auto simp: jmx_v3_probe_if_needed_def Let_def)
    then show ?thesis using True opened ready by (auto simp: catalogue_def)
  next
    case False
    let ?net = "kernel_net envs disp portid" and ?u = "(rt_user rt)\<lparr>us_errno := None, us_status := kernel_status_zero\<rparr>"
    have net: "ho_net host = ?net" "answering envs disp portid" using host by (simp_all add: serving_def)
    have idle: "kernel_idle (us_world ?u)" using ready by (simp add: ready_def)
    obtain u where send: "v3_send_request_locked ?net JMX_NL_ACT_CAPABILITY_V3 0 0 0 0 [] ?u = Some (V3_ACK_OK, u)"
        and u: "us_world u = (us_world ?u)\<lparr>kw_handled := kw_handled (us_world ?u) + 1\<rparr>" "kernel_idle (us_world u)"
      using request_delivered [OF net(2) idle _ _ serve_capability] by (force simp: action_is_v3_def)
    have probe: "jmx_nl_v3_probe (ho_net host) ((rt_user rt)\<lparr>us_errno := None\<rparr>) = Some (True, u)"
      using send by (simp add: jmx_nl_v3_probe_def v3_ack_to_errno_def net(1))
    define rt1 where "rt1 = open_netlink host rt"
    define rt' where "rt' = rt1\<lparr>rt_probe_attempts := rt_probe_attempts rt1 + 1, rt_user := u, rt_probe_state := 1,
      rt_kernel_status := us_status u, rt_next_generation :=
        (if ks_active_generation (us_status u) = U32_MAX then 1 else ks_active_generation (us_status u) + 1)\<rparr>"
    have "jmx_v3_probe_if_needed host rt = Some rt'"
      using False probe opened(3) by (simp add: jmx_v3_probe_if_needed_def Let_def rt'_def rt1_def)
    moreover have "ready n portid (us_world u)" using ready u by (simp add: ready_def)
    ultimately show ?thesis using False opened u by (intro exI [of _ rt']) (simp add: rt'_def rt1_def catalogue_def)
  qed
qed

text \<open>Going back to the old rules: their push succeeds when the socket is open.\<close>

lemma restored:
  assumes host: "serving host envs disp portid" and ready: "ready n portid (world_of rt)" and fd: "rt_fd rt"
    and rules: "match_set_inv old" and room: "n + length (ms_rules old) < 2 ^ 32"
  shows "\<exists>ok rt'. jmx_restore_legacy_snapshot host old loaded rt = Some (ok, rt') \<and>
    catalogue rt' = (old, loaded, rt_chain rt, rt_chain_loaded rt) \<and>
    v3_set (world_of rt') = v3_set (world_of rt) \<and> v2_serves old (world_of rt') \<and>
    ready (n + length (ms_rules old)) portid (world_of rt')"
proof -
  define rt0 where "rt0 = (jmx_regex_stop_snapshot rt)\<lparr>rt_rules := old, rt_rules_loaded := loaded\<rparr>"
  have rt0: "ready n portid (world_of rt0)" "rt_fd rt0" "catalogue rt0 = (old, loaded, rt_chain rt, rt_chain_loaded rt)"
    "world_of rt0 = world_of rt" using ready fd by (simp_all add: rt0_def jmx_regex_stop_snapshot_def catalogue_def)
  from v2_snapshot [OF host rt0(1) rules room] rt0(2)
  obtain rt1 where push: "jmx_v2_push_snapshot host old rt0 = Some (True, rt1)"
      and rt1: "catalogue rt1 = catalogue rt0" "kw_state (world_of rt1) = kw_state (world_of rt0)"
        "ready (n + length (ms_rules old)) portid (world_of rt1)" "v2_serves old (world_of rt1)"
    by (elim exE conjE) (auto split: if_splits)
  obtain ok rt2 where regex: "jmx_regex_start_snapshot host old rt1 = (ok, rt2)" by fastforce
  have "jmx_restore_legacy_snapshot host old loaded rt = Some (ok, rt2)"
    using push regex by (simp add: jmx_restore_legacy_snapshot_def Let_def rt0_def)
  then show ?thesis using regex_fields [OF regex] rt0 rt1 by auto
qed

section \<open>The candidate\<close>

lemma noted [simp]:
  "catalogue (jmx_core_note_signature_done host path rc rt) = catalogue rt"
  "rt_regex (jmx_core_note_signature_done host path rc rt) = rt_regex rt"
  "rt_user (jmx_core_note_signature_done host path rc rt) = rt_user rt"
  "rt_probe_state (jmx_core_note_signature_done host path rc rt) = rt_probe_state rt"
  "co_signature_loaded (rt_core (jmx_core_note_signature_done host path rc rt)) \<longleftrightarrow> rc = 0"
  "catalogue (jmx_core_note_signature_unavailable rt) = catalogue rt"
  "rt_user (jmx_core_note_signature_unavailable rt) = rt_user rt"
  "\<not> co_signature_loaded (rt_core (jmx_core_note_signature_unavailable rt))"
  "catalogue (jmx_core_note_signature_start p rt) = catalogue rt"
  "rt_user (jmx_core_note_signature_start p rt) = rt_user rt"
  "rt_probe_state (jmx_core_note_signature_start p rt) = rt_probe_state rt"
  by (simp_all add: jmx_core_note_signature_done_def jmx_core_note_signature_unavailable_def jmx_core_note_signature_start_def
      catalogue_def Let_def)

text \<open>What a reload leaves: the new catalogue everywhere, or the old one everywhere.\<close>

definition switched :: "match_set \<Rightarrow> chain_db \<Rightarrow> u8 \<Rightarrow> kworld runtime \<Rightarrow> kworld runtime \<Rightarrow> bool" where
  "switched rules chain mode rt rt' \<longleftrightarrow> v2_serves rules (world_of rt') \<and> rt_regex rt' = Some rules \<and>
     (if 0 < rt_probe_state rt'
      then catalogue rt' = (rules, True, chain, True) \<and> (\<exists>gen a. v3_set (world_of rt') = Some a \<and> installed (pushed chain) gen mode a)
      else catalogue rt' = (rules, True, rt_chain rt, rt_chain_loaded rt) \<and> v3_set (world_of rt') = v3_set (world_of rt))"

definition unswitched :: "kworld runtime \<Rightarrow> kworld runtime \<Rightarrow> bool" where
  "unswitched rt rt' \<longleftrightarrow> catalogue rt' = catalogue rt \<and> v3_set (world_of rt') = v3_set (world_of rt) \<and>
     (kw_v2 (world_of rt') = kw_v2 (world_of rt) \<or> v2_serves (rt_rules rt) (world_of rt'))"

lemma candidate_installed:
  assumes host: "serving host envs disp portid" and ready: "ready n portid (world_of rt)" and chain: "chain_loaded chain"
    and rules: "match_set_inv rules" and old: "match_set_inv (rt_rules rt)"
    and room: "n + length (ms_rules rules) + length (ms_rules (rt_rules rt)) < 2 ^ 32"
  shows "\<exists>rc rt'. install_candidate host path mode rules chain rt = Some (rc, rt') \<and> (co_signature_loaded (rt_core rt') \<longleftrightarrow> rc = 0) \<and>
    ready (n + length (ms_rules rules) + length (ms_rules (rt_rules rt))) portid (world_of rt') \<and>
    (if rc = 0 then switched rules chain mode rt rt' else unswitched rt rt')"
proof -
  let ?n = "n + length (ms_rules rules)" and ?fail = "\<lambda>rt. (-1 :: int, jmx_core_note_signature_done host (Some path) (-1) rt)"
  have mono: "ready m portid w \<Longrightarrow> m \<le> m' \<Longrightarrow> ready m' portid w" for m m' w by (auto simp: ready_def intro: v2_inv_mono)
  have "n + length (ms_rules rules) < 2 ^ 32" using room by simp
  from v2_snapshot [OF host ready rules this]
  obtain ok1 rt1 where push: "jmx_v2_push_snapshot host rules rt = Some (ok1, rt1)" and c1: "catalogue rt1 = catalogue rt"
      and p1: "rt_probe_state rt1 = rt_probe_state rt" "rt_fd rt1 = ok1"
      and w1: "kw_state (world_of rt1) = kw_state (world_of rt)" "ready ?n portid (world_of rt1)"
      and served: "if ok1 then v2_serves rules (world_of rt1) else rt_user rt1 = rt_user rt"
    by blast
  show ?thesis
  proof (cases ok1)
    case False
    with push have "install_candidate host path mode rules chain rt = Some (?fail rt1)" by (simp add: install_candidate_def)
    then show ?thesis using False c1 w1 served mono [OF w1(2)]
      by (intro exI [of _ "-1"] exI [of _ "jmx_core_note_signature_done host (Some path) (-1) rt1"]) (simp add: unswitched_def)
  next
    case ok1: True
    define rt2 where "rt2 = (jmx_regex_stop_snapshot rt1)\<lparr>rt_rules := rules, rt_rules_loaded := True\<rparr>"
    have rt2: "catalogue rt2 = (rules, True, rt_chain rt, rt_chain_loaded rt)" "world_of rt2 = world_of rt1" "rt_fd rt2"
        "rt_probe_state rt2 = rt_probe_state rt"
      using c1 p1 ok1 by (simp_all add: rt2_def jmx_regex_stop_snapshot_def catalogue_def)
    obtain ok3 rt3 where regex: "jmx_regex_start_snapshot host rules rt2 = (ok3, rt3)" by fastforce
    note rt3 = regex_fields [OF regex]
    have undo: "\<exists>ok rt'. jmx_restore_legacy_snapshot host (rt_rules rt) (rt_rules_loaded rt) rtx = Some (ok, rt') \<and>
        unswitched rt rt' \<and> ready (?n + length (ms_rules (rt_rules rt))) portid (world_of rt')"
      if x: "ready ?n portid (world_of rtx)" "rt_fd rtx" "rt_chain rtx = rt_chain rt" "rt_chain_loaded rtx = rt_chain_loaded rt"
        "v3_set (world_of rtx) = v3_set (world_of rt)" for rtx
      using restored [OF host x(1,2) old room, of "rt_rules_loaded rt"] x(3-5) by (auto simp: unswitched_def catalogue_def)
    have world3: "world_of rt3 = world_of rt1" using rt2(2) by (simp add: rt3)
    have old3: "rt_chain rt3 = rt_chain rt" "rt_chain_loaded rt3 = rt_chain_loaded rt" "rt_rules rt3 = rules" "rt_rules_loaded rt3"
      using rt3(1) rt2(1) by (simp_all add: catalogue_def)
    show ?thesis
    proof (cases ok3)
      case False
      obtain ok rt' where "jmx_restore_legacy_snapshot host (rt_rules rt) (rt_rules_loaded rt) rt3 = Some (ok, rt')"
          "unswitched rt rt'" "ready (?n + length (ms_rules (rt_rules rt))) portid (world_of rt')"
        using undo [of rt3] w1 world3 rt2(3) rt3(3) old3 by auto
      moreover from this(1) have "install_candidate host path mode rules chain rt = Some (?fail rt')"
        using push ok1 regex False by (simp add: install_candidate_def rt2_def)
      ultimately show ?thesis
        by (intro exI [of _ "-1"] exI [of _ "jmx_core_note_signature_done host (Some path) (-1) rt'"]) (simp add: unswitched_def)
    next
      case ok3: True
      show ?thesis
      proof (cases "0 < rt_probe_state rt")
        case False
        have "install_candidate host path mode rules chain rt = Some (0, jmx_core_note_signature_done host (Some path) 0 rt3)"
          using push ok1 regex ok3 False rt3(4) rt2(4) by (simp add: install_candidate_def rt2_def)
        then show ?thesis using served ok1 ok3 False w1 world3 rt2 rt3 mono [OF w1(2)]
          by (intro exI [of _ 0] exI [of _ "jmx_core_note_signature_done host (Some path) 0 rt3"]) (simp add: switched_def)
      next
        case probe: True
        have "ready ?n portid (world_of rt3)" using w1(2) world3 by simp
        from chain_pushed [OF host this loaded_chain_wf [OF chain], of mode]
        obtain ok rt4 where chain4: "push_chain host mode chain rt3 = Some (ok, rt4)" and f4: "rt_fd rt4 = rt_fd rt3"
            "rt_regex rt4 = rt_regex rt3" "kw_v2 (world_of rt4) = kw_v2 (world_of rt3)" "ready ?n portid (world_of rt4)"
            "rt_probe_state rt4 = rt_probe_state rt3"
          and c4: "if ok then catalogue rt4 = (rt_rules rt3, rt_rules_loaded rt3, chain, True) \<and>
              (\<exists>gen a. v3_set (world_of rt4) = Some a \<and> installed (pushed chain) gen mode a)
            else catalogue rt4 = catalogue rt3 \<and> v3_set (world_of rt4) = v3_set (world_of rt3)"
          by blast
        show ?thesis
        proof (cases ok)
          case True
          have "install_candidate host path mode rules chain rt = Some (0, jmx_core_note_signature_done host (Some path) 0 rt4)"
            using push ok1 regex ok3 probe rt3(4) rt2(4) chain4 True by (simp add: install_candidate_def rt2_def)
          moreover have "v2_serves rules (world_of rt4)" using served ok1 f4(3) world3 by (simp add: v2_serves_def)
          ultimately show ?thesis using True c4 f4 ok3 probe rt2(4) rt3(4,6) old3 mono [OF f4(4)]
            by (intro exI [of _ 0] exI [of _ "jmx_core_note_signature_done host (Some path) 0 rt4"]) (auto simp: switched_def)
        next
          case False
          then have "rt_chain rt4 = rt_chain rt" "rt_chain_loaded rt4 = rt_chain_loaded rt" "v3_set (world_of rt4) = v3_set (world_of rt)"
            using c4 old3 w1(1) world3 by (simp_all add: catalogue_def)
          then obtain ok' rt' where "jmx_restore_legacy_snapshot host (rt_rules rt) (rt_rules_loaded rt) rt4 = Some (ok', rt')"
              "unswitched rt rt'" "ready (?n + length (ms_rules (rt_rules rt))) portid (world_of rt')"
            using undo [of rt4] f4 rt2(3) rt3(3) by auto
          moreover from this(1) have "install_candidate host path mode rules chain rt = Some (?fail rt')"
            using push ok1 regex ok3 probe rt3(4) rt2(4) chain4 False by (simp add: install_candidate_def rt2_def)
          ultimately show ?thesis
            by (intro exI [of _ "-1"] exI [of _ "jmx_core_note_signature_done host (Some path) (-1) rt'"]) (simp add: unswitched_def)
        qed
      qed
    qed
  qed
qed

section \<open>The reload\<close>

lemma configured_mode:
  assumes "jmx_v3_configured_mode host rt = (mode, rt')"
  shows "catalogue rt' = catalogue rt" "rt_user rt' = rt_user rt"
  using assms by (auto simp: jmx_v3_configured_mode_def Let_def catalogue_def split: option.splits)

lemma found_candidate:
  assumes "find_candidate host path caps = Loaded p rules chain schema_ok"
  shows "\<exists>status. jmx_load_signature_db_with_chain (ho_loader host) (ho_open host p) caps = (True, rules, chain, status)"
  using assms by (auto simp: find_candidate_def load_from_def split: option.splits list.splits sum.splits prod.splits bool.splits if_splits)

lemma load_opens: "jmx_load_signature_db_with_chain le src caps = (True, rules, chain, status) \<Longrightarrow> src \<noteq> None"
  by (cases src) (auto simp: jmx_load_signature_db_with_chain_def Let_def)

definition loads_from :: "'w host \<Rightarrow> match_set \<Rightarrow> chain_db \<Rightarrow> bool" where
  "loads_from host rules chain \<longleftrightarrow>
     (\<exists>p caps status. jmx_load_signature_db_with_chain (ho_loader host) (ho_open host p) caps = (True, rules, chain, status))"

lemma reload_result:
  assumes host: "serving host envs disp portid" and ready: "ready n portid (world_of rt)"
    and old: "match_set_inv (rt_rules rt)" and room: "n + 32768 < 2 ^ 32"
  shows "\<exists>rc rt'. jmx_runtime_reload_signature_db host path rt = Some (rc, rt') \<and> (co_signature_loaded (rt_core rt') \<longleftrightarrow> rc = 0) \<and>
    ready (n + 32768) portid (world_of rt') \<and>
    (if rc = 0 then \<exists>rules chain. loads_from host rules chain \<and> switched rules chain (fst (jmx_v3_configured_mode host rt)) rt rt'
     else unswitched rt rt')"
proof -
  have mono: "ready m portid w \<Longrightarrow> m \<le> m' \<Longrightarrow> ready m' portid w" for m m' w by (auto simp: ready_def intro: v2_inv_mono)
  obtain mode rt1 where mode: "jmx_v3_configured_mode host rt = (mode, rt1)" by fastforce
  note rt1 = configured_mode [OF mode]
  obtain rt2 where probe: "jmx_v3_probe_if_needed host rt1 = Some rt2" and rt2: "catalogue rt2 = catalogue rt"
      "kw_v2 (world_of rt2) = kw_v2 (world_of rt)" "v3_set (world_of rt2) = v3_set (world_of rt)" "ready n portid (world_of rt2)"
    using probed [OF host, of n rt1] ready rt1 by auto
  define caps where "caps = (if 0 < rt_probe_state rt2 then ks_engine_capabilities (rt_kernel_status rt2) else 0)"
  have result: "jmx_runtime_reload_signature_db host path rt = (case find_candidate host path caps of
       No_candidate error \<Rightarrow> Some (no_candidate host path error rt2)
     | Loaded loaded rules chain schema_ok \<Rightarrow>
         let rt = jmx_core_note_signature_start loaded rt2
         in if 0 < rt_probe_state rt \<and> mode \<noteq> 0 \<and> \<not> schema_ok
            then Some (-1, jmx_core_note_signature_done host (Some loaded) (-1) rt)
            else install_candidate host loaded mode rules chain rt)"
    using mode probe by (simp add: jmx_runtime_reload_signature_db_def caps_def Let_def)
  have same: "unswitched rt rtx" if "catalogue rtx = catalogue rt2" "rt_user rtx = rt_user rt2" for rtx
    using that rt2 by (simp add: unswitched_def)
  show ?thesis
  proof (cases "find_candidate host path caps")
    case (No_candidate error)
    obtain rc rt' where r: "no_candidate host path error rt2 = (rc, rt')" by fastforce
    then have "rc \<noteq> 0" "catalogue rt' = catalogue rt2" "rt_user rt' = rt_user rt2" "\<not> co_signature_loaded (rt_core rt')"
      by (auto simp: no_candidate_def Let_def split: if_splits)
    then show ?thesis using same [of rt'] result r No_candidate mono [OF rt2(4)] by auto
  next
    case (Loaded p rules chain schema_ok)
    define rt3 where "rt3 = jmx_core_note_signature_start p rt2"
    show ?thesis
    proof (cases "0 < rt_probe_state rt3 \<and> mode \<noteq> 0 \<and> \<not> schema_ok")
      case True
      then show ?thesis using same [of "jmx_core_note_signature_done host (Some p) (-1) rt3"] result Loaded mono [OF rt2(4)]
        by (auto simp: rt3_def Let_def)
    next
      case False
      obtain status where load: "jmx_load_signature_db_with_chain (ho_loader host) (ho_open host p) caps = (True, rules, chain, status)"
        using found_candidate [OF Loaded] by blast
      obtain db where db: "ho_open host p = Some db" "ports_in_order db"
        using load_opens [OF load] host by (auto simp: serving_def)
      have chain: "chain_loaded chain" by (rule loaded_chain(1) [OF load [unfolded db(1)] db(2)])
      have rules: "match_set_inv rules" using loaded_rules [OF load] load_all_inv by blast
      have rt3: "rt_rules rt3 = rt_rules rt" "ready n portid (world_of rt3)" "catalogue rt3 = catalogue rt" "rt_user rt3 = rt_user rt2"
        using rt2 by (simp_all add: rt3_def) (simp add: catalogue_def jmx_core_note_signature_start_def)
      have few: "length (ms_rules rules) \<le> 16384" "length (ms_rules (rt_rules rt)) \<le> 16384"
        using rules old by (simp_all add: match_set_inv_def)
      obtain rc rt' where inst: "install_candidate host p mode rules chain rt3 = Some (rc, rt')" "co_signature_loaded (rt_core rt') \<longleftrightarrow> rc = 0"
          "ready (n + length (ms_rules rules) + length (ms_rules (rt_rules rt))) portid (world_of rt')"
          "if rc = 0 then switched rules chain mode rt3 rt' else unswitched rt3 rt'"
        using candidate_installed [OF host rt3(2) chain rules, of p mode] rt3(1) old few room by auto
      have "switched rules chain mode rt3 rt' = switched rules chain mode rt rt'" "unswitched rt3 rt' \<Longrightarrow> unswitched rt rt'"
        using rt3 rt2(2,3) by (auto simp: switched_def unswitched_def catalogue_def)
      moreover have "jmx_runtime_reload_signature_db host path rt = Some (rc, rt')"
        using result Loaded False inst(1) by (auto simp: rt3_def Let_def)
      moreover have "ready (n + 32768) portid (world_of rt')" by (rule mono [OF inst(3)]) (use few in simp)
      moreover have "loads_from host rules chain" using load by (auto simp: loads_from_def)
      ultimately show ?thesis using inst(2,4) mode by (intro exI [of _ rc] exI [of _ rt']) (cases "rc = 0"; auto)
    qed
  qed
qed

section \<open>The first load\<close>

text \<open>With the socket open the first probe always succeeds, and the generation reserved next is not the active one.\<close>

lemma first_probe:
  assumes host: "serving host envs disp portid" and ready: "ready n portid (world_of rt)"
    and first: "rt_probe_state rt \<le> 0" and socket: "\<And>w. ho_netlink_init host w"
  shows "\<exists>rt'. jmx_v3_probe_if_needed host rt = Some rt' \<and> catalogue rt' = catalogue rt \<and> rt_fd rt' \<and> 0 < rt_probe_state rt' \<and>
    ks_engine_capabilities (rt_kernel_status rt') = jmx_v3_capabilities \<and>
    kw_state (world_of rt') = kw_state (world_of rt) \<and> kw_v2 (world_of rt') = kw_v2 (world_of rt) \<and> ready n portid (world_of rt') \<and>
    rt_next_generation rt' \<noteq> 0 \<and> (\<forall>a. v3_set (world_of rt) = Some a \<longrightarrow> rs_generation a \<noteq> rt_next_generation rt')"
proof -
  let ?net = "kernel_net envs disp portid" and ?u = "(rt_user rt)\<lparr>us_errno := None, us_status := kernel_status_zero\<rparr>"
  define rt1 where "rt1 = open_netlink host rt"
  have rt1: "catalogue rt1 = catalogue rt" "rt_fd rt1" "rt_user rt1 = rt_user rt"
    using socket by (simp_all add: rt1_def open_netlink_fields) (simp add: open_netlink_def)
  have net: "ho_net host = ?net" "answering envs disp portid" using host by (simp_all add: serving_def)
  have idle: "kernel_idle (us_world ?u)" using ready by (simp add: ready_def)
  obtain u where send: "v3_send_request_locked ?net JMX_NL_ACT_CAPABILITY_V3 0 0 0 0 [] ?u = Some (V3_ACK_OK, u)"
      and u: "us_world u = (us_world ?u)\<lparr>kw_handled := kw_handled (us_world ?u) + 1\<rparr>" "kernel_idle (us_world u)"
        "us_status u = kernel_status_of (answer JMX_NL_ACT_CAPABILITY_V3 None JMX_V3_REASON_NONE 0 (kw_state (us_world ?u)))"
    using request_delivered [OF net(2) idle _ _ serve_capability] by (force simp: action_is_v3_def)
  have probe: "jmx_nl_v3_probe (ho_net host) ((rt_user rt)\<lparr>us_errno := None\<rparr>) = Some (True, u)"
    using send by (simp add: jmx_nl_v3_probe_def v3_ack_to_errno_def net(1))
  define active where "active = ks_active_generation (us_status u)"
  have active: "\<forall>a. v3_set (world_of rt) = Some a \<longrightarrow> rs_generation a = active"
    by (simp add: active_def u(3) kernel_status_of_def status_of_def jmx_v3_get_snapshot_def Let_def)
  define rt' where "rt' = rt1\<lparr>rt_probe_attempts := rt_probe_attempts rt1 + 1, rt_user := u, rt_probe_state := 1,
    rt_kernel_status := us_status u, rt_next_generation := (if active = U32_MAX then 1 else active + 1)\<rparr>"
  have "jmx_v3_probe_if_needed host rt = Some rt'"
    using first probe rt1(2,3) by (simp add: jmx_v3_probe_if_needed_def Let_def rt'_def rt1_def active_def)
  moreover have "ks_engine_capabilities (us_status u) = jmx_v3_capabilities"
    by (simp add: u(3) kernel_status_of_def status_of_def jmx_v3_get_snapshot_def Let_def split: option.split)
  moreover have "active \<noteq> U32_MAX \<Longrightarrow> active + 1 \<noteq> 0" by (auto simp flip: eq_neg_iff_add_eq_0)
  moreover have "ready n portid (us_world u)" using ready u by (simp add: ready_def)
  ultimately show ?thesis using rt1 u active by (intro exI [of _ rt']) (auto simp: rt'_def catalogue_def)
qed

lemma chain_accepted:
  assumes host: "serving host (\<lambda>_. env) disp portid" and ready: "ready n portid (world_of rt)" and chain: "chain_wf (pushed chain)"
    and st: "v3_running (kw_state (world_of rt))" "tx_set (v3_tx (kw_state (world_of rt))) = None"
    and gen: "rt_next_generation rt \<noteq> 0" "\<And>a. v3_set (world_of rt) = Some a \<Longrightarrow> rs_generation a \<noteq> rt_next_generation rt"
    and mode: "mode \<le> 2" and ok: "acceptable (pushed chain) (rt_next_generation rt) mode"
  shows "\<exists>rt'. push_chain host mode chain rt = Some (True, rt')"
proof -
  have net: "ho_net host = kernel_net (\<lambda>_. env) disp portid" "answering (\<lambda>_. env) disp portid" "steady env"
    using host by (auto simp: serving_def v2_prompt_def steady_def)
  have idle: "kernel_idle (us_world (rt_user rt))" using ready by (simp add: ready_def)
  obtain u where "jmx_nl_push_chain_rules (ho_net host) (pushed chain) (rt_next_generation rt) mode (rt_user rt) = Some (True, u)"
    using push_accepted [OF net(2,3) idle st gen(2,1) mode chain ok] net(1) by auto
  then show ?thesis using gen(1) by (simp add: push_chain_def jmx_v3_reserve_generation_def Let_def)
qed

lemma first_load:
  assumes host: "serving host (\<lambda>_. env) disp portid" and ready: "ready n portid (world_of rt)" and socket: "\<And>w. ho_netlink_init host w"
    and st: "v3_running (kw_state (world_of rt))" "tx_set (v3_tx (kw_state (world_of rt))) = None"
    and start: "rt_probe_state rt \<le> 0" "rt_mode rt = None"
    and src: "ho_resolve host = Inr p" "ho_open host p = Some db"
    and load: "jmx_load_signature_db_with_chain (ho_loader host) (Some db) jmx_v3_capabilities = (True, rules, chain, Some True)"
    and small: "length (ch_ports chain) < 2 ^ 32" "within_limits chain"
    and digest: "active_rules (pushed chain) = [] \<or> \<not> v3_digest_is_zero (ch_catalog_digest chain)"
    and free: "list_all numeric_free (active_steps (pushed chain))"
    and regex: "ho_regex_init host rules" "ho_regex_count host rules = 0 \<or> ho_regex_start host rules"
    and old: "match_set_inv (rt_rules rt)" and room: "n + 32768 < 2 ^ 32"
  shows "\<exists>rt'. jmx_runtime_reload_signature_db host None rt = Some (0, rt') \<and> co_ready (rt_core rt') \<and>
    catalogue rt' = (rules, True, chain, True) \<and> rt_regex rt' = Some rules \<and> v2_serves rules (world_of rt') \<and>
    (\<exists>gen a. v3_set (world_of rt') = Some a \<and> installed (pushed chain) gen (fst (jmx_v3_configured_mode host rt)) a)"
proof -
  obtain mode rt1 where mode: "jmx_v3_configured_mode host rt = (mode, rt1)" by fastforce
  have rt1: "rt_user rt1 = rt_user rt" "rt_probe_state rt1 = rt_probe_state rt" "mode \<le> 2" "catalogue rt1 = catalogue rt"
    using mode start(2) by (auto simp: jmx_v3_configured_mode_def jmx_v3_effective_mode_def catalogue_def Let_def split: if_splits)
  obtain rt2 where probe: "jmx_v3_probe_if_needed host rt1 = Some rt2" and rt2: "rt_fd rt2" "0 < rt_probe_state rt2"
      "ks_engine_capabilities (rt_kernel_status rt2) = jmx_v3_capabilities" "kw_state (world_of rt2) = kw_state (world_of rt)"
      "ready n portid (world_of rt2)" "rt_next_generation rt2 \<noteq> 0"
      "\<forall>a. v3_set (world_of rt) = Some a \<longrightarrow> rs_generation a \<noteq> rt_next_generation rt2" "catalogue rt2 = catalogue rt"
    using first_probe [OF host, of n rt1] ready rt1 start(1) socket by auto
  define rt3 where "rt3 = jmx_core_note_signature_start p rt2"
  have rt3: "rt_user rt3 = rt_user rt2" "rt_fd rt3" "0 < rt_probe_state rt3" "rt_next_generation rt3 = rt_next_generation rt2"
    using rt2 by (simp_all add: rt3_def jmx_core_note_signature_start_def)
  have result: "jmx_runtime_reload_signature_db host None rt = install_candidate host p mode rules chain rt3"
    using mode probe rt2(2,3) src load by (simp add: jmx_runtime_reload_signature_db_def find_candidate_def load_from_def rt3_def Let_def)
  have order: "ports_in_order db" using host src(2) by (simp add: serving_def)
  have rules: "match_set_inv rules" using loaded_rules [OF load] load_all_inv by blast
  have loaded: "chain_loaded chain" "cd_engine_capabilities chain = jmx_v3_capabilities AND JMX_V3_CAP_KNOWN_MASK"
    using loaded_chain [OF load order] by simp_all
  have "within_module chain" using loaded small(1) by (simp add: within_module_def JMX_V3_CAP_PHASE1_MASK_def)
  then have ok: "acceptable (pushed chain) gen mode" for gen using loaded_acceptable [OF _ small(2) rt1(3) digest] free by blast
  have ready3: "ready n portid (world_of rt3)" using rt2(5) rt3(1) by simp
  have "rt_rules rt3 = rt_rules rt" using rt2(8) by (simp add: rt3_def catalogue_def jmx_core_note_signature_start_def)
  then have old3: "match_set_inv (rt_rules rt3)" using old by simp
  have few: "length (ms_rules rules) \<le> 16384" "length (ms_rules (rt_rules rt3)) \<le> 16384"
    using rules old3 by (simp_all add: match_set_inv_def)
  have room3: "n + length (ms_rules rules) < 2 ^ 32" using few room by simp
  from v2_snapshot [OF host ready3 rules room3] rt3(2)
  obtain rt4 where push: "jmx_v2_push_snapshot host rules rt3 = Some (True, rt4)" and rt4: "kw_state (world_of rt4) = kw_state (world_of rt3)"
      "rt_probe_state rt4 = rt_probe_state rt3" "rt_next_generation rt4 = rt_next_generation rt3"
      "ready (n + length (ms_rules rules)) portid (world_of rt4)"
    by (elim exE conjE) (auto split: if_splits)
  define rt5 where "rt5 = (jmx_regex_stop_snapshot rt4)\<lparr>rt_rules := rules, rt_rules_loaded := True\<rparr>"
  have rt5: "rt_user rt5 = rt_user rt4" "rt_probe_state rt5 = rt_probe_state rt3" "rt_next_generation rt5 = rt_next_generation rt3"
    using rt4 by (simp_all add: rt5_def jmx_regex_stop_snapshot_def)
  obtain rt6 where start: "jmx_regex_start_snapshot host rules rt5 = (True, rt6)"
    using regex by (auto simp: jmx_regex_start_snapshot_def)
  note rt6 = regex_fields [OF start]
  have ready6: "ready (n + length (ms_rules rules)) portid (world_of rt6)" using rt6(2) rt5(1) rt4(4) by simp
  obtain rt7 where chain: "push_chain host mode chain rt6 = Some (True, rt7)"
    using chain_accepted [OF host ready6, of chain mode] rt6 rt5 rt4 rt3 rt2 st rt1(3) ok loaded_chain_wf [OF loaded(1)] by auto
  then have rt7: "rt_probe_state rt7 = rt_probe_state rt6"
    using chain_pushed [OF host ready6 loaded_chain_wf [OF loaded(1)], of mode] by auto
  define rt' where "rt' = jmx_core_note_signature_done host (Some p) 0 rt7"
  have inst: "install_candidate host p mode rules chain rt3 = Some (0, rt')"
    using push start rt6(4) rt5(2) rt3(3) chain by (simp add: install_candidate_def rt5_def rt'_def)
  have "n + length (ms_rules rules) + length (ms_rules (rt_rules rt3)) < 2 ^ 32" using few room by simp
  then have "switched rules chain mode rt3 rt'"
    using candidate_installed [OF host ready3 loaded(1) rules old3, of p mode] inst by auto
  moreover have "0 < rt_probe_state rt'" using rt7 rt6(4) rt5(2) rt3(3) by (simp add: rt'_def)
  moreover have "co_ready (rt_core rt')" by (simp add: rt'_def jmx_core_note_signature_done_def Let_def)
  ultimately show ?thesis unfolding result using inst mode by (simp add: switched_def)
qed

section \<open>A host\<close>

definition small_host :: "kworld host" where
  "small_host = \<lparr>ho_net = kernel_net (\<lambda>_. v2_demo_env) v2_demo_dispatch 4, ho_netlink_init = (\<lambda>_. True),
     ho_mode_variable = Some (ascii ''active''), ho_exists = (\<lambda>_. True), ho_readable = (\<lambda>_. True), ho_resolve = Inr ''signature.db'',
     ho_loader = small_le, ho_open = (\<lambda>_. Some (small_db 0)), ho_regex_init = (\<lambda>_. True), ho_regex_count = (\<lambda>_. 0),
     ho_regex_start = (\<lambda>_. False)\<rparr>"

definition small_runtime :: "kworld runtime" where
  "small_runtime = \<lparr>rt_rules = jmx_rule_set_init, rt_rules_loaded = False, rt_version = 0, rt_fd = False,
     rt_chain = jmx_chain_rule_set_init 0, rt_chain_loaded = False, rt_probe_state = 0, rt_probe_attempts = 0, rt_next_generation = 0,
     rt_kernel_status = kernel_status_zero, rt_mode = None, rt_regex = None,
     rt_core = \<lparr>co_stage = PROCESS_START, co_ready = False, co_degraded = False, co_signature_loading = False,
       co_signature_loaded = False, co_signature_failed = False, co_signature_unavailable = False, co_signature_rules = 0,
       co_signature_regex_rules = 0, co_last_error_code = 0, co_last_error = [], co_signature_path = []\<rparr>,
     rt_user = v2_demo_user\<rparr>"

lemma small_serving: "serving small_host (\<lambda>_. v2_demo_env) v2_demo_dispatch 4"
  using v2_demo_answering v2_demo_prompt small_order
  by (simp add: serving_def small_host_def answering_def v2_demo_env_def v2_demo_dispatch_def)

lemma small_idle: "kernel_idle (world_of small_runtime)" "kw_v2 (world_of small_runtime) = v2_run [] jmx_v2_rules_init"
  "v2_staging_owner (kw_v2 (world_of small_runtime)) = 0" "rt_rules small_runtime = load_all []"
  "v3_running (kw_state (world_of small_runtime))" "tx_set (v3_tx (kw_state (world_of small_runtime))) = None"
  "rt_probe_state small_runtime = 0" "rt_mode small_runtime = None"
  by (simp_all add: small_runtime_def kernel_idle_def v2_demo_user_def engine_ok_def v3_inv_def jmx_v3_rules_init_def tx_zero_def
      digests_wf_def digests_of_def v2_run_def load_all_def jmx_v2_rules_init_def)

lemma small_host_simps: "ho_netlink_init small_host w" "ho_resolve small_host = Inr ''signature.db''"
  "ho_open small_host ''signature.db'' = Some (small_db 0)" "ho_loader small_host = small_le"
  "ho_regex_init small_host rules" "ho_regex_count small_host rules = 0"
  "fst (jmx_v3_configured_mode small_host small_runtime) = 2"
  by (simp_all add: small_host_def jmx_v3_configured_mode_def small_runtime_def streq_def ascii_def to_lower_def jmx_v3_effective_mode_def)

lemma small_set:
  assumes "pushed chain = small_final 0"
  shows "length (ch_ports chain) < 2 ^ 32" "\<not> v3_digest_is_zero (ch_catalog_digest chain)" "within_limits chain"
    "list_all numeric_free (active_steps (pushed chain))"
proof -
  have "active_steps (small_final 0) = [small_step 0]" "length (active_rules (small_final 0)) = 1" "active_ports (small_final 0) = []"
    by (simp_all add: active_rules_def active_steps_def active_ports_def small_final_def chain_steps_of_def chain_ports_of_def small_rule_def)
  then show "within_limits chain" "list_all numeric_free (active_steps (pushed chain))"
    by (simp_all add: within_limits_def assms numeric_free_def small_step_def)
  show "length (ch_ports chain) < 2 ^ 32" "\<not> v3_digest_is_zero (ch_catalog_digest chain)"
    using arg_cong [OF assms, of ch_ports] arg_cong [OF assms, of ch_catalog_digest]
    by (simp_all add: small_final_def v3_digest_is_zero_def list_all_iff)
qed

lemma small_reload: "\<exists>rt'. jmx_runtime_reload_signature_db small_host None small_runtime = Some (0, rt')"
proof -
  obtain rules chain where load: "jmx_load_signature_db_with_chain small_le (Some (small_db 0)) jmx_v3_capabilities = (True, rules, chain, Some True)"
      and chain: "pushed chain = small_final 0" using small_load [of 0] by blast
  have "ready 0 4 (world_of small_runtime)" using small_idle v2_init_inv [of 0] by (simp add: ready_def v2_run_def)
  moreover have "match_set_inv (rt_rules small_runtime)" using load_all_inv [of "[]"] by (simp add: small_idle(4))
  ultimately show ?thesis
    using first_load [OF small_serving _ small_host_simps(1) small_idle(5,6) _ small_idle(8) small_host_simps(2,3), of 0 rules chain]
      small_idle(7) small_host_simps(4-6) load small_set [OF chain] by auto
qed

section \<open>Properties\<close>

lemma reachable_ready:
  assumes "kernel_idle w" and "kw_v2 w = v2_run qs jmx_v2_rules_init" and "list_all (\<lambda>q. v2_op_wf (snd q)) qs"
    and "length qs + 32768 < 2 ^ 32" and "v2_staging_owner (kw_v2 w) = 0 \<or> v2_staging_owner (kw_v2 w) = portid"
  shows "ready (length qs) portid w"
  using assms v2_reachable [OF assms(3)] by (simp add: ready_def)







end
