(* ===== verification/Spec2Isabelle.thy ===== *)
theory Spec2Isabelle
  imports CloudSession DirStore V3Verdict ReloadProofs
begin

text \<open>
  A verification development for the traffic identification of DreamingOS (an OpenWrt based router system).  The system's
  own code lies in \<^verbatim>\<open>package/lester\<close>: \<^verbatim>\<open>jmx\<close> is a kernel module that classifies the packets of a flow, \<^verbatim>\<open>jmxd\<close>
  holds the daemons of the control plane.  All paths below are relative to that directory, as in the other theories.

  \<^bold>\<open>The program.\<close>  The control plane loads a database of signatures into two rule sets: a catalogue of single
  patterns (protocol v2) and a set of rules that are chains of steps (protocol v3).  It pushes both over a netlink
  socket, message by message, into the kernel module, which stages them in a transaction and makes them active with one
  commit.  The module compiles the literal patterns into an Aho-Corasick automaton and matches the payload of packets
  against the active set.  A second message tells the module which addresses are inside and outside (direction snapshot),
  so that it looks only at packets between the two.  A separate daemon of the control plane keeps a tunnel to a cloud
  service, with multiplexed streams.

  \<^bold>\<open>Theories, files, and what is proved.\<close>

  \<^item> \<^verbatim>\<open>Prelude\<close>: machine types, byte orders, C strings and arrays.  \<^verbatim>\<open>Kernel\<close>: errno values, allocation sites, jiffies,
    hash chains in arrays.  \<^verbatim>\<open>SlotTable\<close>: the interface of fixed arrays of occupied slots.
  \<^item> \<^verbatim>\<open>V3Wire\<close> (\<^verbatim>\<open>jmx/src/jmx_nl_rule_v3.h\<close>): the packed records of protocol v3 and their bytes; the interface
    \<open>record_codec\<close> gives the round trips of all records, also those of v2.
  \<^item> \<^verbatim>\<open>V3AC\<close>, \<^verbatim>\<open>V3AC_Trie\<close>, \<^verbatim>\<open>V3AC_Links\<close>, \<^verbatim>\<open>V3AC_Scan\<close> (\<^verbatim>\<open>jmx/src/jmx_v3_ac.c\<close>): building the automaton, and that its scan
    reports exactly the occurrences of the patterns; the interface is \<open>pattern_engine\<close>.
  \<^item> \<^verbatim>\<open>V3Rules\<close>, \<^verbatim>\<open>V3Tx\<close>, \<^verbatim>\<open>V3Commit\<close> (\<^verbatim>\<open>jmx/src/jmx_v3_rules.c\<close>, transactions): the staged set with its owner and
    deadline; when a batch and a commit succeed; a failed transaction can only be aborted; other ports are isolated.
  \<^item> \<^verbatim>\<open>V3Match\<close>, \<^verbatim>\<open>V3Search\<close>, \<^verbatim>\<open>V3Verdict\<close> (the same file, matching): the verdict on a packet is that of a declarative
    reading of the rules, or the work budget is spent.
  \<^item> \<^verbatim>\<open>V3Handler\<close>, \<^verbatim>\<open>V3Engine\<close> (\<^verbatim>\<open>jmx/src/jmx_v3_nl_handler.c\<close>): requests as bytes, and the module as a state machine
    with an invariant of all reachable states.
  \<^item> \<^verbatim>\<open>V3Channel\<close>, \<^verbatim>\<open>V3Push\<close>, \<^verbatim>\<open>V3Delivery\<close>, \<^verbatim>\<open>V3Install\<close> (\<^verbatim>\<open>jmxd/src/jmx_nl_push.c\<close>, the
    part for v3, and the netlink input of \<^verbatim>\<open>jmx/src/jmx_main.c\<close>): the push of chain rules; it is all or
    nothing, it returns, it succeeds when the module answers and accepts the records.
  \<^item> \<^verbatim>\<open>V2AC\<close>, \<^verbatim>\<open>V2Match\<close> (\<^verbatim>\<open>jmx/src/jmx_v2_ac.c\<close>), \<^verbatim>\<open>V2Rules\<close>, \<^verbatim>\<open>V2Load\<close> (\<^verbatim>\<open>jmx/src/jmx_v2_rules.c\<close>), \<^verbatim>\<open>V2Handler\<close>
    (\<^verbatim>\<open>jmx/src/jmx_v2_nl_handler.c\<close>): the same for the rules of v2, with the classification of packets.
  \<^item> \<^verbatim>\<open>RuleSet\<close>, \<^verbatim>\<open>ChainSet\<close> (\<^verbatim>\<open>jmxd/src/jmx_rule.c\<close>): the catalogues of the control plane.  \<^verbatim>\<open>V2Push\<close>, \<^verbatim>\<open>V2Delivery\<close>,
    \<^verbatim>\<open>V2Install\<close> (\<^verbatim>\<open>jmxd/src/jmx_nl_push.c\<close>, v2): the push of the catalogue and what packets are classified as after it.
    \<^verbatim>\<open>Frames\<close>: what either push leaves alone (\<open>kept_world\<close> and its two extensions).
  \<^item> \<^verbatim>\<open>SignatureDb\<close>, \<^verbatim>\<open>SignatureLoad\<close>, \<^verbatim>\<open>ChainLoad\<close>, \<^verbatim>\<open>ChainAccept\<close>, \<^verbatim>\<open>SignatureAccept\<close> (\<^verbatim>\<open>jmxd/src/jmx_signature_db.c\<close>):
    the loader, and that the module accepts what it keeps, but for one gap.
  \<^item> \<^verbatim>\<open>Reload\<close>, \<^verbatim>\<open>ReloadProofs\<close> (the reload in \<^verbatim>\<open>jmxd/src/main.c\<close>): load, push, restart, roll back; all or nothing.
  \<^item> \<^verbatim>\<open>DirSnapshot\<close>, \<^verbatim>\<open>DirKernel\<close>, \<^verbatim>\<open>DirMatch\<close>, \<^verbatim>\<open>DirWire\<close>, \<^verbatim>\<open>DirStore\<close> (\<^verbatim>\<open>jmxd/src/routed/jmx_direction_snapshot.c\<close>,
    \<^verbatim>\<open>jmx/src/jmx_direction.c\<close>, the encoder in \<^verbatim>\<open>jmxd/src/routed/jmx_route.c\<close>): builder, wire, classifiers, and the
    publication to readers that run at the same time (interface \<open>snapshot_cell\<close>, for the lock-free store and for RCU).
  \<^item> \<^verbatim>\<open>CloudWire\<close>, \<^verbatim>\<open>CloudSession\<close> (\<^verbatim>\<open>jmxd/src/cloud/protocol\<close>): frames, and the stream table as a finite map.
  \<^bold>\<open>How state and operations are represented.\<close>  A C structure is a record with the fields of the source, an enumeration
  a datatype, an integer a word of its width.  An operation takes the state and returns it; a negative \<open>int\<close> of the
  kernel is \<open>Some\<close> of the errno, a pointer that may be NULL is an option, a list linked through indices stays an array
  with indices.  A network is a record of functions on a world (\<open>net\<close>: send, poll, receive, clock, allocation), and the
  kernel at the other end is one such network (\<open>kernel_net\<close>), whose world is the state of the module with its inbox.
  Operations that run under a lock are single steps; where the code synchronises without a lock, every atomic operation
  is a step.

  \<^bold>\<open>Loops and bounds.\<close>  Loops over arrays are structural.  The loop that waits for a reply may not end, so it is a
  \<open>partial_function (option)\<close>, and that it ends is a theorem for every network whose clock runs (\<open>clock_runs\<close>).  Failure
  links are followed with as much fuel as the automaton has nodes, and the breadth-first pass has a round per node; both
  are enough because a failure link leads to a shorter label.  The search of a chain has twice its work budget plus two
  rounds, and every round spends work or goes back a level.  The doubling of a capacity has 65 rounds, more than a
  64-bit size has bits.  In each case the lemma that the result does not come from spent fuel is part of the proof
  of correctness.

  \<^bold>\<open>Parameters.\<close>  Code that is not part of the repository is an argument: the rows that SQLite delivers and the final
  status of a query, the digest of OpenSSL, the regex engine, \<open>inet_pton\<close> and the JSON library, the list of the
  interfaces, the kernel's hash of a word, allocation (any subset of the allocations may fail), the clock, and the
  behaviour of the socket.  The hypotheses on them are named: \<open>clock_runs\<close>, \<open>answering\<close> (the module replies and its
  licence check does not consume v3 messages), \<open>steady\<close> (memory is there and jiffies have a sane rate) and
  \<open>v2_prompt\<close> (as \<open>steady\<close>, and no message is later than the deadline of a transaction).  The two stores are proved
  correct for sequentially consistent steps.

  \<^bold>\<open>Not modelled.\<close>  The hooks of the module on packets and connections, its statistics and procfs files, the regex
  engine, and the daemons that are configuration and reporting (the web API, the network configuration, the access point
  control, the flow database and others) are left out; the manifest lists them with reasons.  Messages to logs, time
  stamps in status reports and freeing memory are left out throughout.
\<close>

end
